(* ===== verification/Prelude.thy ===== *)
theory Prelude
  imports Main "HOL-Library.Word"
begin

text \<open>
  What every component of the development shares: the integer types of the C code, byte
  buffers, the little- and big-endian accessors of src/util/endian.h and of the hand-written
  byte stores of the drivers, and the result type of fallible operations that thread a state.

  A buffer is the memory behind a C pointer: a function from the offset to the byte found
  there.  The driver's buffers are static arrays of 1024 or 4096 bytes; a read from the device
  fills the first bytes of one, and \<open>copy_bytes\<close> is \<open>memcpy\<close>.  Offsets inside a block and
  loop counters are natural numbers (every block is at most 4096 bytes, so the 32-bit
  arithmetic on them cannot wrap); on-disk fields, block numbers and byte positions on the
  device keep the width the C code gives them.
\<close>

unbundle bit_operations_syntax

section \<open>Machine integers and buffers\<close>

type_synonym byte = "8 word"
type_synonym u16 = "16 word"
type_synonym u32 = "32 word"
type_synonym u64 = "64 word"
type_synonym buf = "nat \<Rightarrow> byte"

lemma unat_ucast_32_64 [simp]: "unat (ucast (w :: u32) :: u64) = unat w"
proof -
  have "unat w < 2 ^ LENGTH(32)" by (rule unsigned_less)
  then show ?thesis by (simp add: unsigned_ucast_eq take_bit_nat_eq_self)
qed

lemma unat_ucast_16_64 [simp]: "unat (ucast (w :: u16) :: u64) = unat w"
proof -
  have "unat w < 2 ^ LENGTH(16)" by (rule unsigned_less)
  then show ?thesis by (simp add: unsigned_ucast_eq take_bit_nat_eq_self)
qed

lemma unat_ucast_16_32 [simp]: "unat (ucast (w :: u16) :: u32) = unat w"
proof -
  have "unat w < 2 ^ LENGTH(16)" by (rule unsigned_less)
  then show ?thesis by (simp add: unsigned_ucast_eq take_bit_nat_eq_self)
qed

lemma unat_ucast_64_32: "unat (w :: u64) < 2 ^ 32 \<Longrightarrow> unat (ucast w :: u32) = unat w"
  by (simp add: unsigned_ucast_eq take_bit_nat_eq_self)

lemma sint_small: "unat (w :: 'a::len word) < 2 ^ (LENGTH('a) - 1) \<Longrightarrow> sint w = int (unat w)"
proof -
  assume a: "unat w < 2 ^ (LENGTH('a) - 1)"
  have u: "uint w = int (unat w)" by simp
  have "int (unat w) < 2 ^ (LENGTH('a) - 1)" using a by (metis of_nat_less_iff of_nat_numeral of_nat_power)
  then show ?thesis unfolding sint_uint u by (intro signed_take_bit_int_eq_self) (rule order_trans [of _ 0], simp_all)
qed

lemma unat_add_small: "unat (a :: 'a::len word) + unat b < 2 ^ LENGTH('a) \<Longrightarrow> unat (a + b) = unat a + unat b"
  by (simp add: unat_word_ariths)

lemma unat_Suc_less: "w < (m :: 'a::len word) \<Longrightarrow> unat (w + 1) = unat w + 1"
proof -
  assume "w < m"
  then have "unat w + 1 \<le> unat m" by (simp add: word_less_nat_alt Suc_le_eq)
  also have "unat m < 2 ^ LENGTH('a)" by (rule unsigned_less)
  finally show ?thesis by (simp add: unat_word_ariths)
qed

lemma unat_mult_small: "unat (a :: 'a::len word) * unat b < 2 ^ LENGTH('a) \<Longrightarrow> unat (a * b) = unat a * unat b"
  by (simp add: unat_word_ariths)

named_theorems buf_simps \<open>reads and writes of fields in a buffer\<close>
named_theorems op_simps \<open>evaluation of state-threading operations\<close>

definition zero_buf :: buf where
  "zero_buf = (\<lambda>_. 0)"

text \<open>\<open>p + k\<close> for a pointer \<open>p\<close>.\<close>

definition at :: "buf \<Rightarrow> nat \<Rightarrow> buf" where
  "at b k = (\<lambda>i. b (k + i))"

definition copy_bytes :: "buf \<Rightarrow> nat \<Rightarrow> buf \<Rightarrow> nat \<Rightarrow> buf" where
  "copy_bytes dst off src n = (\<lambda>i. if off \<le> i \<and> i < off + n then src (i - off) else dst i)"

definition fill_bytes :: "buf \<Rightarrow> nat \<Rightarrow> byte \<Rightarrow> nat \<Rightarrow> buf" where
  "fill_bytes dst off v n = (\<lambda>i. if off \<le> i \<and> i < off + n then v else dst i)"

definition bytes_of :: "buf \<Rightarrow> nat \<Rightarrow> nat \<Rightarrow> byte list" where
  "bytes_of b off n = map (\<lambda>i. b (off + i)) [0..<n]"

definition put_bytes :: "buf \<Rightarrow> nat \<Rightarrow> byte list \<Rightarrow> buf" where
  "put_bytes dst off xs =
     (\<lambda>i. if off \<le> i \<and> i < off + length xs then xs ! (i - off) else dst i)"

lemma at_apply [simp, buf_simps]: "at b k i = b (k + i)"
  by (simp add: at_def)

lemma at_0 [simp]: "at b 0 = b"
  by (rule ext) simp

lemma at_at [simp]: "at (at b k) m = at b (k + m)"
  by (rule ext) (simp add: add.assoc)

lemma zero_buf_apply [simp, buf_simps]: "zero_buf i = 0"
  by (simp add: zero_buf_def)

lemma length_bytes_of [simp]: "length (bytes_of b off n) = n"
  by (simp add: bytes_of_def)

lemma nth_bytes_of [simp]: "i < n \<Longrightarrow> bytes_of b off n ! i = b (off + i)"
  by (simp add: bytes_of_def)

lemma bytes_of_cong: "(\<And>i. off \<le> i \<Longrightarrow> i < off + n \<Longrightarrow> b i = c i) \<Longrightarrow> bytes_of b off n = bytes_of c off n"
  by (simp add: bytes_of_def)

lemma bytes_of_put_bytes [simp]: "bytes_of (put_bytes b off xs) off (length xs) = xs"
  by (rule nth_equalityI) (simp_all add: put_bytes_def)

lemma put_bytes_outside [buf_simps]:
  "i < off \<or> off + length xs \<le> i \<Longrightarrow> put_bytes b off xs i = b i"
  by (auto simp: put_bytes_def)

lemma bytes_of_at: "bytes_of (at b k) off n = bytes_of b (k + off) n"
  by (simp add: bytes_of_def add.assoc)

lemma bytes_of_Suc: "bytes_of b off (Suc n) = b off # bytes_of b (Suc off) n"
  by (rule nth_equalityI) (auto simp: nth_Cons split: nat.split)

lemma bytes_of_0 [simp]: "bytes_of b off 0 = []"
  by (simp add: bytes_of_def)

lemma bytes_of_append: "bytes_of b off (m + n) = bytes_of b off m @ bytes_of b (off + m) n"
  by (rule nth_equalityI) (auto simp: nth_append)

lemma copy_bytes_0 [simp]: "copy_bytes dst off src 0 = dst"
  by (rule ext) (auto simp: copy_bytes_def)

lemma copy_bytes_inside [buf_simps]:
  "off \<le> i \<Longrightarrow> i < off + n \<Longrightarrow> copy_bytes dst off src n i = src (i - off)"
  by (simp add: copy_bytes_def)

lemma copy_bytes_outside [buf_simps]:
  "i < off \<or> off + n \<le> i \<Longrightarrow> copy_bytes dst off src n i = dst i"
  by (auto simp: copy_bytes_def)

lemma copy_bytes_twice:
  "copy_bytes (copy_bytes d off s n) off t n = copy_bytes d off t n"
  by (rule ext) (simp add: copy_bytes_def)

lemma copy_bytes_commute:
  "off + n \<le> off' \<or> off' + n' \<le> off \<Longrightarrow>
   copy_bytes (copy_bytes d off s n) off' t n' = copy_bytes (copy_bytes d off' t n') off s n"
  by (rule ext) (auto simp: copy_bytes_def)

text \<open>Counters that do not wrap.\<close>

lemma unat_dec: "w \<noteq> 0 \<Longrightarrow> unat (w - 1 :: 'a::len word) = unat w - 1"
  by (rule unat_minus_one)

lemma unat_pos: "w \<noteq> 0 \<Longrightarrow> 0 < unat (w :: 'a::len word)"
  by (simp add: unat_gt_0)

lemma unat_suc: "unat (w :: 'a::len word) + 1 < 2 ^ LENGTH('a) \<Longrightarrow> unat (w + 1) = unat w + 1"
  by (simp add: unat_word_ariths)

section \<open>Endian accessors (src/util/endian.h)\<close>

definition le16 :: "buf \<Rightarrow> nat \<Rightarrow> u16" where
  "le16 b p = ucast (b p) OR push_bit 8 (ucast (b (p + 1)))"

definition le32 :: "buf \<Rightarrow> nat \<Rightarrow> u32" where
  "le32 b p = ucast (b p) OR push_bit 8 (ucast (b (p + 1)))
            OR push_bit 16 (ucast (b (p + 2))) OR push_bit 24 (ucast (b (p + 3)))"

definition le64 :: "buf \<Rightarrow> nat \<Rightarrow> u64" where
  "le64 b p = ucast (le32 b p) OR push_bit 32 (ucast (le32 b (p + 4)))"

definition be32 :: "buf \<Rightarrow> nat \<Rightarrow> u32" where
  "be32 b p = push_bit 24 (ucast (b p)) OR push_bit 16 (ucast (b (p + 1)))
            OR push_bit 8 (ucast (b (p + 2))) OR ucast (b (p + 3))"

definition be16 :: "buf \<Rightarrow> nat \<Rightarrow> u16" where
  "be16 b p = push_bit 8 (ucast (b p)) OR ucast (b (p + 1))"

definition be64 :: "buf \<Rightarrow> nat \<Rightarrow> u64" where
  "be64 b p = push_bit 32 (ucast (be32 b p)) OR ucast (be32 b (p + 4))"

text \<open>
  The writers: \<open>be32_pack\<close> and \<open>be16_pack\<close> of src/ext4/journal.c, and the byte-by-byte
  little-endian stores the drivers write out at every field update.
\<close>

definition put_le16 :: "buf \<Rightarrow> nat \<Rightarrow> u16 \<Rightarrow> buf" where
  "put_le16 b p v = b(p := ucast v, p + 1 := ucast (drop_bit 8 v))"

definition put_le32 :: "buf \<Rightarrow> nat \<Rightarrow> u32 \<Rightarrow> buf" where
  "put_le32 b p v = b(p := ucast v, p + 1 := ucast (drop_bit 8 v),
     p + 2 := ucast (drop_bit 16 v), p + 3 := ucast (drop_bit 24 v))"

definition be32_pack :: "buf \<Rightarrow> nat \<Rightarrow> u32 \<Rightarrow> buf" where
  "be32_pack b p v = b(p := ucast (drop_bit 24 v), p + 1 := ucast (drop_bit 16 v),
     p + 2 := ucast (drop_bit 8 v), p + 3 := ucast v)"

definition be16_pack :: "buf \<Rightarrow> nat \<Rightarrow> u16 \<Rightarrow> buf" where
  "be16_pack b p v = b(p := ucast (drop_bit 8 v), p + 1 := ucast v)"

subsection \<open>A field read back is the field written; other fields are untouched\<close>

lemma le16_put_le16 [simp, buf_simps]: "le16 (put_le16 b p v) p = v"
  unfolding le16_def put_le16_def
  by (rule bit_word_eqI) (auto simp: bit_simps)

lemma le32_put_le32 [simp, buf_simps]: "le32 (put_le32 b p v) p = v"
proof (rule bit_word_eqI)
  fix n
  assume "n < LENGTH(32)"
  then consider "n < 8" | "8 \<le> n" "n < 16" | "16 \<le> n" "n < 24" | "24 \<le> n" "n < 32"
    by fastforce
  then show "bit (le32 (put_le32 b p v) p) n = bit v n"
    by cases (auto simp: le32_def put_le32_def bit_simps)
qed

lemma be32_be32_pack [simp, buf_simps]: "be32 (be32_pack b p v) p = v"
proof (rule bit_word_eqI)
  fix n
  assume "n < LENGTH(32)"
  then consider "n < 8" | "8 \<le> n" "n < 16" | "16 \<le> n" "n < 24" | "24 \<le> n" "n < 32"
    by fastforce
  then show "bit (be32 (be32_pack b p v) p) n = bit v n"
    by cases (auto simp: be32_def be32_pack_def bit_simps)
qed

lemma be16_be16_pack [simp, buf_simps]: "be16 (be16_pack b p v) p = v"
  unfolding be16_def be16_pack_def
  by (rule bit_word_eqI) (auto simp: bit_simps)

lemma put_le16_outside [buf_simps]: "i < p \<or> p + 2 \<le> i \<Longrightarrow> put_le16 b p v i = b i"
  by (auto simp: put_le16_def)

lemma put_le32_outside [buf_simps]: "i < p \<or> p + 4 \<le> i \<Longrightarrow> put_le32 b p v i = b i"
  by (auto simp: put_le32_def)

lemma be32_pack_outside [buf_simps]: "i < p \<or> p + 4 \<le> i \<Longrightarrow> be32_pack b p v i = b i"
  by (auto simp: be32_pack_def)

lemma be16_pack_outside [buf_simps]: "i < p \<or> p + 2 \<le> i \<Longrightarrow> be16_pack b p v i = b i"
  by (auto simp: be16_pack_def)

lemma le16_cong: "b p = c p \<Longrightarrow> b (p + 1) = c (p + 1) \<Longrightarrow> le16 b p = le16 c p"
  by (simp add: le16_def)

lemma be16_cong: "b p = c p \<Longrightarrow> b (p + 1) = c (p + 1) \<Longrightarrow> be16 b p = be16 c p"
  by (simp add: be16_def)

lemma le32_cong:
  assumes "\<And>i. i < 4 \<Longrightarrow> b (p + i) = c (p + i)"
  shows "le32 b p = le32 c p"
  using assms [of 0] assms [of 1] assms [of 2] assms [of 3] by (simp add: le32_def)

lemma be32_cong:
  assumes "\<And>i. i < 4 \<Longrightarrow> b (p + i) = c (p + i)"
  shows "be32 b p = be32 c p"
  using assms [of 0] assms [of 1] assms [of 2] assms [of 3] by (simp add: be32_def)

lemma be32_octets:
  "ucast (drop_bit 24 (be32 b p)) = b p" "ucast (drop_bit 16 (be32 b p)) = b (p + 1)"
  "ucast (drop_bit 8 (be32 b p)) = b (p + 2)" "ucast (be32 b p) = b (p + 3)"
  by (rule bit_word_eqI, auto simp: be32_def bit_simps dest: bit_imp_le_length)+

section \<open>Operations that may fail and thread a state\<close>

text \<open>
  An operation runs on a state and gives an error code (\<open>Inl\<close>) or a value (\<open>Inr\<close>),
  and the state it leaves: an early \<open>return rc\<close> of the C code keeps every effect that
  happened before it.
\<close>

type_synonym ('s, 'a) op = "'s \<Rightarrow> (int + 'a) \<times> 's"

definition retE :: "'a \<Rightarrow> ('s, 'a) op" where
  "retE x s = (Inr x, s)"

definition failE :: "int \<Rightarrow> ('s, 'a) op" where
  "failE rc s = (Inl rc, s)"

definition bindE :: "('s, 'a) op \<Rightarrow> ('a \<Rightarrow> ('s, 'b) op) \<Rightarrow> ('s, 'b) op" where
  "bindE m f s = (case m s of (Inl rc, s') \<Rightarrow> (Inl rc, s') | (Inr x, s') \<Rightarrow> f x s')"

definition thenE :: "('s, 'a) op \<Rightarrow> ('s, 'b) op \<Rightarrow> ('s, 'b) op" where
  "thenE m k = bindE m (\<lambda>_. k)"

text \<open>\<open>if (!ok) return rc;\<close>\<close>

definition checkE :: "bool \<Rightarrow> int \<Rightarrow> ('s, unit) op" where
  "checkE ok rc s = (if ok then Inr () else Inl rc, s)"

text \<open>\<open>if (call(...)) return rc;\<close>: any failure of the call becomes \<open>rc\<close>.\<close>

definition orE :: "('s, 'a) op \<Rightarrow> int \<Rightarrow> ('s, 'a) op" where
  "orE m rc s = (case m s of (Inl _, s') \<Rightarrow> (Inl rc, s') | (Inr x, s') \<Rightarrow> (Inr x, s'))"

text \<open>\<open>if (call(...)) continue;\<close>: a failure is seen and the work goes on.\<close>

definition tryE :: "('s, 'a) op \<Rightarrow> ('s, 'a option) op" where
  "tryE m s = (case m s of (Inl _, s') \<Rightarrow> (Inr None, s') | (Inr x, s') \<Rightarrow> (Inr (Some x), s'))"

text \<open>
  The same two for calls that can also get stuck: a failure of the call is a negative code,
  while a positive code is an outcome C has no code for and is passed on.
\<close>

definition orX :: "('s, 'a) op \<Rightarrow> int \<Rightarrow> ('s, 'a) op" where
  "orX m rc s = (case m s of
     (Inl r, s') \<Rightarrow> (Inl (if 0 < r then r else rc), s') | (Inr x, s') \<Rightarrow> (Inr x, s'))"

definition tryX :: "('s, 'a) op \<Rightarrow> ('s, 'a option) op" where
  "tryX m s = (case m s of
     (Inl r, s') \<Rightarrow> (if 0 < r then Inl r else Inr None, s') | (Inr x, s') \<Rightarrow> (Inr (Some x), s'))"

text \<open>A call that only reads the state.\<close>

definition readE :: "('s \<Rightarrow> int + 'a) \<Rightarrow> ('s, 'a) op" where
  "readE f s = (f s, s)"

definition getE :: "('s \<Rightarrow> 'a) \<Rightarrow> ('s, 'a) op" where
  "getE f s = (Inr (f s), s)"

definition modE :: "('s \<Rightarrow> 's) \<Rightarrow> ('s, unit) op" where
  "modE f s = (Inr (), f s)"

lemma retE_apply [simp, op_simps]: "retE x s = (Inr x, s)"
  by (simp add: retE_def)

lemma failE_apply [simp, op_simps]: "failE rc s = (Inl rc, s)"
  by (simp add: failE_def)

lemma readE_apply [simp, op_simps]: "readE f s = (f s, s)"
  by (simp add: readE_def)

lemma getE_apply [simp, op_simps]: "getE f s = (Inr (f s), s)"
  by (simp add: getE_def)

lemma modE_apply [simp, op_simps]: "modE f s = (Inr (), f s)"
  by (simp add: modE_def)

lemma checkE_apply [simp, op_simps]: "checkE ok rc s = (if ok then Inr () else Inl rc, s)"
  by (simp add: checkE_def)

lemma bindE_Inr_iff:
  "bindE m f s = (Inr y, s') \<longleftrightarrow> (\<exists>x t. m s = (Inr x, t) \<and> f x t = (Inr y, s'))"
  by (auto simp: bindE_def split: prod.splits sum.splits)

lemma bindE_Inl_iff:
  "bindE m f s = (Inl rc, s') \<longleftrightarrow>
     m s = (Inl rc, s') \<or> (\<exists>x t. m s = (Inr x, t) \<and> f x t = (Inl rc, s'))"
  by (auto simp: bindE_def split: prod.splits sum.splits)

lemma bindE_eval [op_simps]:
  "m s = (Inr x, t) \<Longrightarrow> bindE m f s = f x t"
  "m s = (Inl rc, t) \<Longrightarrow> bindE m f s = (Inl rc, t)"
  by (simp_all add: bindE_def)

lemma thenE_Inr_iff:
  "thenE m k s = (Inr y, s') \<longleftrightarrow> (\<exists>x t. m s = (Inr x, t) \<and> k t = (Inr y, s'))"
  by (simp add: thenE_def bindE_Inr_iff)

lemma orE_Inr_iff: "orE m rc s = (Inr y, s') \<longleftrightarrow> m s = (Inr y, s')"
  by (auto simp: orE_def split: prod.splits sum.splits)

lemma orE_Inl_iff: "orE m rc s = (Inl rc', s') \<longleftrightarrow> rc' = rc \<and> (\<exists>r. m s = (Inl r, s'))"
  by (auto simp: orE_def split: prod.splits sum.splits)

lemma orX_Inr_iff: "orX m rc s = (Inr y, s') \<longleftrightarrow> m s = (Inr y, s')"
  by (auto simp: orX_def split: prod.splits sum.splits)

lemma tryX_Some_iff: "tryX m s = (Inr (Some y), s') \<longleftrightarrow> m s = (Inr y, s')"
  by (auto simp: tryX_def split: prod.splits sum.splits if_splits)

lemma bindE_retE [simp]: "bindE m retE = m"
  by (rule ext) (simp add: bindE_def split: prod.split sum.split)

lemma retE_bindE [simp]: "bindE (retE x) f = f x"
  by (rule ext) (simp add: bindE_def)

lemma bindE_assoc: "bindE (bindE m f) g = bindE m (\<lambda>x. bindE (f x) g)"
  by (rule ext) (simp add: bindE_def split: prod.split sum.split)

text \<open>A relation between the states before and after, kept by every operation of a sequence.\<close>

definition keeps :: "('s \<Rightarrow> 's \<Rightarrow> bool) \<Rightarrow> ('s, 'a) op \<Rightarrow> bool" where
  "keeps R m \<longleftrightarrow> (\<forall>s. R s (snd (m s)))"

lemma keepsI [intro]: "(\<And>s. R s (snd (m s))) \<Longrightarrow> keeps R m"
  by (simp add: keeps_def)

lemma keepsD: "keeps R m \<Longrightarrow> m s = (r, s') \<Longrightarrow> R s s'"
  by (metis keeps_def snd_conv)

lemma keeps_bindE:
  assumes "keeps R m" "\<And>x. keeps R (f x)" "transp R"
  shows "keeps R (bindE m f)"
proof
  fix s
  obtain r t where m: "m s = (r, t)" by fastforce
  with assms(1) have "R s t" by (rule keepsD)
  show "R s (snd (bindE m f s))"
  proof (cases r)
    case (Inl rc)
    with m \<open>R s t\<close> show ?thesis by (simp add: bindE_def)
  next
    case (Inr x)
    from assms(2) [of x] have "R t (snd (f x t))" by (simp add: keeps_def)
    with m Inr \<open>R s t\<close> assms(3) show ?thesis
      by (auto simp: bindE_def dest: transpD)
  qed
qed

lemma keeps_pure:
  assumes "reflp R"
  shows "keeps R (retE x)" "keeps R (failE rc)" "keeps R (readE f)" "keeps R (getE g)"
    "keeps R (checkE ok rc)"
  using assms by (auto simp: keeps_def dest: reflpD)

lemma keeps_orE: "keeps R m \<Longrightarrow> keeps R (orE m rc)"
  by (auto simp: keeps_def orE_def split: prod.split sum.split) (metis snd_conv)+

lemma keeps_tryE: "keeps R m \<Longrightarrow> keeps R (tryE m)"
  by (auto simp: keeps_def tryE_def split: prod.split sum.split) (metis snd_conv)+

lemma keeps_orX: "keeps R m \<Longrightarrow> keeps R (orX m rc)"
  by (auto simp: keeps_def orX_def split: prod.split sum.split) (metis snd_conv)+

lemma keeps_tryX: "keeps R m \<Longrightarrow> keeps R (tryX m)"
  by (auto simp: keeps_def tryX_def split: prod.split sum.split) (metis snd_conv)+

end
