(* ===== verification/Crc32c.thy ===== *)
theory Crc32c
  imports Prelude
begin

text \<open>
  src/util/crc32c.c: the table-driven CRC32C that every metadata checksum of the file system
  and of the journal uses.  \<open>crc32c\<close> is the value the C function returns; \<open>crc32c_lazy\<close>
  also carries the two static variables (the table and its built flag) and agrees with it from
  every state the program can reach.  The lemmas relate the table to the bit-by-bit division,
  and show chaining over consecutive buffers, linearity, and the errors the checksum detects.
\<close>

section \<open>The routine\<close>

definition crc32c_poly_reflected :: u32 where
  "crc32c_poly_reflected = 0x82F63B78"

definition crc32c_init :: u32 where
  "crc32c_init = 0xFFFFFFFF"

text \<open>One turn of the inner loop of the table construction.\<close>

definition crc_bit :: "u32 \<Rightarrow> u32" where
  "crc_bit c = (if c AND 1 \<noteq> 0 then drop_bit 1 c XOR crc32c_poly_reflected else drop_bit 1 c)"

definition crc32c_build_table :: "u32 list" where
  "crc32c_build_table = map (\<lambda>i. (crc_bit ^^ 8) (word_of_nat i)) [0..<256]"

definition crc32c_step :: "u32 list \<Rightarrow> u32 \<Rightarrow> byte \<Rightarrow> u32" where
  "crc32c_step tab crc p = (tab ! unat ((crc XOR ucast p) AND 0xFF)) XOR drop_bit 8 crc"

definition crc32c :: "u32 \<Rightarrow> byte list \<Rightarrow> u32" where
  "crc32c crc ps = foldl (crc32c_step crc32c_build_table) crc ps"

record crc_statics =
  crc32c_tab :: "u32 list"
  crc32c_tab_built :: bool

definition crc32c_lazy :: "crc_statics \<Rightarrow> u32 \<Rightarrow> byte list \<Rightarrow> u32 \<times> crc_statics" where
  "crc32c_lazy st crc ps =
     (let st = (if crc32c_tab_built st then st
                else st\<lparr>crc32c_tab := crc32c_build_table, crc32c_tab_built := True\<rparr>)
      in (foldl (crc32c_step (crc32c_tab st)) crc ps, st))"

definition crc_statics_ok :: "crc_statics \<Rightarrow> bool" where
  "crc_statics_ok st \<longleftrightarrow> (crc32c_tab_built st \<longrightarrow> crc32c_tab st = crc32c_build_table)"

lemma crc32c_lazy_eq:
  "crc_statics_ok st \<Longrightarrow> fst (crc32c_lazy st crc ps) = crc32c crc ps"
  by (simp add: crc32c_lazy_def crc32c_def crc_statics_ok_def Let_def)

lemma crc32c_lazy_keeps_ok:
  "crc_statics_ok st \<Longrightarrow> crc_statics_ok (snd (crc32c_lazy st crc ps))"
  by (simp add: crc32c_lazy_def crc_statics_ok_def Let_def)

section \<open>Chaining\<close>

lemma crc32c_Nil [simp]: "crc32c c [] = c"
  by (simp add: crc32c_def)

lemma crc32c_append: "crc32c c (xs @ ys) = crc32c (crc32c c xs) ys"
  by (simp add: crc32c_def)

section \<open>The table is the bit-by-bit division\<close>

definition crc_byte_ref :: "u32 \<Rightarrow> byte \<Rightarrow> u32" where
  "crc_byte_ref c p = (crc_bit ^^ 8) (c XOR ucast p)"

definition crc32c_ref :: "u32 \<Rightarrow> byte list \<Rightarrow> u32" where
  "crc32c_ref c ps = foldl crc_byte_ref c ps"

lemma and_one_odd: "(c AND 1 \<noteq> (0 :: 'a::len word)) = odd c"
  by (simp add: and_one_eq odd_iff_mod_2_eq_one)

lemma crc_bit_odd: "crc_bit c = (if odd c then drop_bit 1 c XOR crc32c_poly_reflected else drop_bit 1 c)"
  by (simp only: crc_bit_def and_one_odd)

lemma odd_xor_word: "odd (a XOR b :: 'a::len word) = (odd a \<noteq> odd b)"
  using bit_xor_iff [of a b 0] by (simp add: bit_0)

lemma crc_bit_xor: "crc_bit (a XOR b) = crc_bit a XOR crc_bit b"
  by (simp add: crc_bit_odd odd_xor_word drop_bit_xor xor.assoc xor.commute xor.left_commute)

lemma crc_bits_xor: "(crc_bit ^^ n) (a XOR b) = (crc_bit ^^ n) a XOR (crc_bit ^^ n) b"
  by (induction n) (simp_all add: crc_bit_xor)

lemma crc_bit_0: "crc_bit 0 = 0"
  by (simp add: crc_bit_odd)

lemma crc_bits_shift:
  "(\<forall>i<n. \<not> bit c i) \<Longrightarrow> (crc_bit ^^ n) c = drop_bit n c"
proof (induction n arbitrary: c)
  case 0
  then show ?case by simp
next
  case (Suc n)
  from Suc.prems have "\<not> odd c" by (metis bit_0 zero_less_Suc)
  then have step: "crc_bit c = drop_bit 1 c" by (simp add: crc_bit_odd)
  have "(crc_bit ^^ n) (drop_bit 1 c) = drop_bit n (drop_bit 1 c)"
    using Suc.prems by (intro Suc.IH) (auto simp: bit_simps)
  then show ?case
    by (simp add: funpow_swap1 step flip: drop_bit_drop_bit del: drop_bit_drop_bit)
      (simp add: drop_bit_drop_bit)
qed

lemma low_byte_index: "unat (x AND 0xFF :: u32) < 256"
proof -
  have "x AND 0xFF \<le> (0xFF :: u32)" by (rule word_and_le1)
  then show ?thesis by (simp add: word_le_nat_alt)
qed

lemma table_lookup:
  "crc32c_build_table ! unat (x AND 0xFF) = (crc_bit ^^ 8) (x AND 0xFF)"
  using low_byte_index [of x] by (simp add: crc32c_build_table_def)

lemma split_low_byte: "(x :: u32) = (x AND 0xFF) XOR push_bit 8 (drop_bit 8 x)"
proof (rule bit_word_eqI)
  fix n
  have m: "(0xFF :: u32) = mask 8" by (simp add: mask_eq_exp_minus_1)
  assume "n < LENGTH(32)"
  then show "bit x n = bit ((x AND 0xFF) XOR push_bit 8 (drop_bit 8 x)) n"
    by (cases "n < 8") (auto simp: m bit_simps)
qed

lemma crc_bits_8: "(crc_bit ^^ 8) x = (crc_bit ^^ 8) (x AND 0xFF) XOR drop_bit 8 x"
proof -
  have low: "\<forall>i<8. \<not> bit (push_bit 8 (drop_bit 8 x)) i" by (auto simp: bit_simps)
  have "(crc_bit ^^ 8) x = (crc_bit ^^ 8) (x AND 0xFF) XOR (crc_bit ^^ 8) (push_bit 8 (drop_bit 8 x))"
    by (subst split_low_byte) (rule crc_bits_xor)
  also have "(crc_bit ^^ 8) (push_bit 8 (drop_bit 8 x)) = drop_bit 8 (push_bit 8 (drop_bit 8 x))"
    by (rule crc_bits_shift [OF low])
  also have "drop_bit 8 (push_bit 8 (drop_bit 8 x)) = drop_bit 8 x"
    by (rule bit_word_eqI) (auto simp: bit_simps dest: bit_imp_le_length)
  finally show ?thesis .
qed

lemma crc32c_step_ref: "crc32c_step crc32c_build_table = crc_byte_ref"
proof (intro ext)
  fix c :: u32 and p :: byte
  have "drop_bit 8 (c XOR ucast p) = drop_bit 8 c"
    by (rule bit_word_eqI) (auto simp: bit_simps dest: bit_imp_le_length)
  then show "crc32c_step crc32c_build_table c p = crc_byte_ref c p"
    unfolding crc32c_step_def crc_byte_ref_def table_lookup crc_bits_8 [of "c XOR ucast p"] by simp
qed

lemma crc32c_eq_ref: "crc32c c ps = crc32c_ref c ps"
  by (simp add: crc32c_def crc32c_ref_def crc32c_step_ref)

section \<open>Detected errors\<close>

lemma xor_right_cancel:
  fixes a b c :: "'a::len word"
  assumes "a XOR c = b XOR c"
  shows "a = b"
proof -
  have "(a XOR c) XOR c = (b XOR c) XOR c" using assms by simp
  then show ?thesis by (simp add: xor.assoc)
qed

lemma crc_bit_inj: "crc_bit a = crc_bit b \<Longrightarrow> a = b"
proof -
  assume eq: "crc_bit a = crc_bit b"
  have top: "bit (crc_bit c) 31 = odd c" for c
    by (auto simp: crc_bit_odd crc32c_poly_reflected_def bit_simps dest: bit_imp_le_length)
  from eq have par: "odd a = odd b" by (metis top)
  then have dr: "drop_bit 1 a = drop_bit 1 b"
    using eq by (auto simp: crc_bit_odd split: if_splits dest: xor_right_cancel)
  show "a = b"
  proof (rule bit_word_eqI)
    fix n
    assume "n < LENGTH(32)"
    show "bit a n = bit b n"
    proof (cases n)
      case 0
      with par show ?thesis by (simp add: bit_0)
    next
      case (Suc m)
      have "bit (drop_bit 1 a) m = bit (drop_bit 1 b) m" by (simp only: dr)
      with Suc show ?thesis by (simp add: bit_simps)
    qed
  qed
qed

lemma crc_bits_inj: "(crc_bit ^^ n) a = (crc_bit ^^ n) b \<Longrightarrow> a = b"
  by (induction n) (auto dest: crc_bit_inj)

lemma crc32c_inj: "crc32c a ps = crc32c b ps \<Longrightarrow> a = b"
proof (induction ps rule: rev_induct)
  case Nil
  then show ?case by simp
next
  case (snoc p ps)
  then have "crc_byte_ref (crc32c a ps) p = crc_byte_ref (crc32c b ps) p"
    by (simp add: crc32c_append) (simp add: crc32c_eq_ref crc32c_ref_def)
  then have "crc32c a ps XOR ucast p = crc32c b ps XOR ucast p"
    unfolding crc_byte_ref_def by (rule crc_bits_inj)
  then have "crc32c a ps = crc32c b ps" by (rule xor_right_cancel)
  then show ?case by (rule snoc.IH)
qed

definition window_word :: "byte list \<Rightarrow> u32" where
  "window_word ws = ucast (ws ! 0) XOR push_bit 8 (ucast (ws ! 1))
     XOR push_bit 16 (ucast (ws ! 2)) XOR push_bit 24 (ucast (ws ! 3))"

lemma crc_byte_ref_fold:
  assumes "n \<le> 24"
  shows "crc_byte_ref ((crc_bit ^^ n) x) p = (crc_bit ^^ (8 + n)) (x XOR push_bit n (ucast p))"
proof -
  have "(crc_bit ^^ n) (push_bit n (ucast p :: u32)) = drop_bit n (push_bit n (ucast p))"
    by (rule crc_bits_shift) (auto simp: bit_simps)
  also have "\<dots> = ucast p"
    using assms by (intro bit_word_eqI) (auto simp: bit_simps dest: bit_imp_le_length)
  finally show ?thesis
    by (simp add: crc_byte_ref_def crc_bits_xor funpow_add)
qed

lemma crc32c_window:
  assumes "length ws = 4"
  shows "crc32c c ws = (crc_bit ^^ 32) (c XOR window_word ws)"
proof -
  obtain w0 w1 w2 w3 where ws: "ws = [w0, w1, w2, w3]"
    using assms by (auto simp: length_Suc_conv numeral_eq_Suc)
  have "crc32c c ws = crc_byte_ref (crc_byte_ref (crc_byte_ref (crc_byte_ref c w0) w1) w2) w3"
    by (simp add: crc32c_eq_ref crc32c_ref_def ws)
  also have "crc_byte_ref c w0 = (crc_bit ^^ 8) (c XOR ucast w0)"
    by (simp add: crc_byte_ref_def)
  also have "crc_byte_ref \<dots> w1 = (crc_bit ^^ 16) (c XOR ucast w0 XOR push_bit 8 (ucast w1))"
    by (subst crc_byte_ref_fold) (simp_all add: xor.assoc)
  also have "crc_byte_ref \<dots> w2 =
      (crc_bit ^^ 24) (c XOR ucast w0 XOR push_bit 8 (ucast w1) XOR push_bit 16 (ucast w2))"
    by (subst crc_byte_ref_fold) (simp_all add: xor.assoc)
  also have "crc_byte_ref \<dots> w3 = (crc_bit ^^ 32) (c XOR ucast w0 XOR push_bit 8 (ucast w1)
      XOR push_bit 16 (ucast w2) XOR push_bit 24 (ucast w3))"
    by (subst crc_byte_ref_fold) (simp_all add: xor.assoc)
  finally show ?thesis by (simp add: window_word_def ws xor.assoc)
qed

lemma bit_window_word:
  assumes "i < 4" "j < 8"
  shows "bit (window_word ws) (8 * i + j) = bit (ws ! i) j"
proof -
  have small: "\<not> bit (w :: byte) k" if "8 \<le> k" for w k
    using that by (auto dest: bit_imp_le_length)
  from assms(1) consider "i = 0" | "i = 1" | "i = 2" | "i = 3" by fastforce
  then show ?thesis
    using assms(2) by cases (auto simp: window_word_def bit_simps small)
qed

lemma window_word_inj:
  assumes "length ws = 4" "length vs = 4" "window_word ws = window_word vs"
  shows "ws = vs"
proof (rule nth_equalityI)
  show "length ws = length vs" using assms by simp
next
  fix i
  assume i: "i < length ws"
  show "ws ! i = vs ! i"
  proof (rule bit_word_eqI)
    fix j
    assume "j < LENGTH(8)"
    then show "bit (ws ! i) j = bit (vs ! i) j"
      using i assms bit_window_word [of i j ws] bit_window_word [of i j vs] by simp
  qed
qed

section \<open>Properties\<close>

text \<open>C35: The table-driven routine that crc32c() runs computes, from every starting value and on
  every input, the bit-by-bit division by the reflected Castagnoli polynomial.\<close>

theorem crc32c_is_division: "crc32c c ps = foldl (\<lambda>c p. (crc_bit ^^ 8) (c XOR ucast p)) c ps"
proof -
  have "crc_byte_ref = (\<lambda>c p. (crc_bit ^^ 8) (c XOR ucast p))"
    by (intro ext) (simp add: crc_byte_ref_def)
  then show ?thesis by (simp add: crc32c_eq_ref crc32c_ref_def)
qed

text \<open>Two calls of crc32c() on consecutive buffers, the second fed the first one's result,
  give the checksum of the concatenation, whatever the state of the lazily built table was
  before the first call.\<close>

theorem crc32c_calls_chain:
  assumes "crc_statics_ok st"
  shows "fst (crc32c_lazy (snd (crc32c_lazy st c xs)) (fst (crc32c_lazy st c xs)) ys) = crc32c c (xs @ ys)"
  using assms by (simp add: crc32c_lazy_eq crc32c_lazy_keeps_ok crc32c_append)

theorem crc32c_calls_chain_witness:
  "fst (crc32c_lazy (snd (crc32c_lazy \<lparr>crc32c_tab = [], crc32c_tab_built = False\<rparr> 5 [1]))
     (fst (crc32c_lazy \<lparr>crc32c_tab = [], crc32c_tab_built = False\<rparr> 5 [1])) [2]) = crc32c 5 [1, 2]"
  using crc32c_calls_chain [of "\<lparr>crc32c_tab = [], crc32c_tab_built = False\<rparr>" 5 "[1]" "[2]"]
  by (simp add: crc_statics_ok_def)

text \<open>The checksum detects every error confined to four consecutive bytes: two inputs that
  agree outside a window of four bytes have the same checksum only when they are equal.\<close>

theorem crc32c_detects_burst:
  assumes "length ws = 4" "length vs = 4"
  shows "(crc32c c (pre @ ws @ post) = crc32c c (pre @ vs @ post)) = (ws = vs)"
proof
  assume "crc32c c (pre @ ws @ post) = crc32c c (pre @ vs @ post)"
  then have "crc32c (crc32c c pre) ws = crc32c (crc32c c pre) vs"
    by (simp add: crc32c_append) (rule crc32c_inj)
  then have "window_word ws = window_word vs"
    using assms by (simp add: crc32c_window xor.commute [of "crc32c c pre"])
      (blast dest: crc_bits_inj xor_right_cancel)
  with assms show "ws = vs" by (rule window_word_inj)
qed simp

theorem crc32c_detects_burst_witness:
  "crc32c 0 ([9] @ [1, 2, 3, 4] @ [8]) \<noteq> crc32c 0 ([9] @ [1, 2, 3, 5] @ [8])"
  using crc32c_detects_burst [of "[1, 2, 3, 4]" "[1, 2, 3, 5]" 0 "[9]" "[8]"] by simp

end
