(* ===== verification/Blockdev.thy ===== *)
theory Blockdev
  imports Prelude
begin

text \<open>
  The block devices: the \<open>struct blockdev\<close> of src/blockdev/blockdev.h with its two function
  pointers, the host image file of src/blockdev/file_bdev.c (with its fault injection, which is
  how the repository's tests cut the power at a chosen write), and the BIOS disk of
  src/blockdev/int13_bdev.c.  The BIOS itself is a parameter.

  The locale \<open>block_device\<close> is the contract the file-system layers rely on; the image file is
  proved to meet it.  Its lemmas give read-back, framing, and the prefix rule for a sequence of
  writes that may be cut short.
\<close>

section \<open>src/blockdev/blockdev.h\<close>

definition bdev_ok :: int where "bdev_ok = 0"
definition bdev_err_io :: int where "bdev_err_io = -1"
definition bdev_err_range :: int where "bdev_err_range = -2"
definition bdev_err_ro :: int where "bdev_err_ro = -3"

text \<open>
  The two callbacks get the private context and the sector size of the device they belong to.
  A read changes nothing the program can see; a write gives a return code and the new context.
\<close>

record 'c blockdev =
  read_sectors :: "'c \<Rightarrow> u32 \<Rightarrow> u64 \<Rightarrow> u32 \<Rightarrow> int + buf"
  write_sectors :: "('c \<Rightarrow> u32 \<Rightarrow> u64 \<Rightarrow> u32 \<Rightarrow> buf \<Rightarrow> int \<times> 'c) option"
  sector_size :: u32
  total_sectors :: u64
  bdev_ctx :: 'c

definition bdev_read :: "'c blockdev \<Rightarrow> u64 \<Rightarrow> u32 \<Rightarrow> int + buf" where
  "bdev_read bd lba count = read_sectors bd (bdev_ctx bd) (sector_size bd) lba count"

definition bdev_write :: "'c blockdev \<Rightarrow> u64 \<Rightarrow> u32 \<Rightarrow> buf \<Rightarrow> int \<times> 'c blockdev" where
  "bdev_write bd lba count b =
     (case write_sectors bd of
        None \<Rightarrow> (bdev_err_ro, bd)
      | Some w \<Rightarrow> (case w (bdev_ctx bd) (sector_size bd) lba count b of
          (rc, c) \<Rightarrow> (rc, bd\<lparr>bdev_ctx := c\<rparr>)))"

definition bdev_writable :: "'c blockdev \<Rightarrow> bool" where
  "bdev_writable bd \<longleftrightarrow> write_sectors bd \<noteq> None"

section \<open>The image file (src/blockdev/file_bdev.c)\<close>

text \<open>
  The open file is its bytes and its length.  A position past the end of the file may be
  written: the file grows, with zeros in the gap.  \<open>off_t\<close> is signed, so a position with the
  top bit set makes \<open>fseeko\<close> fail.
\<close>

record file_ctx =
  file_bytes :: "nat \<Rightarrow> byte"
  file_len :: nat
  fail_after :: int

definition file_off :: "u32 \<Rightarrow> u64 \<Rightarrow> u64" where
  "file_off ss lba = lba * ucast ss"

definition file_want :: "u32 \<Rightarrow> u32 \<Rightarrow> nat" where
  "file_want ss count = unat count * unat ss"

definition file_bdev_read :: "file_ctx \<Rightarrow> u32 \<Rightarrow> u64 \<Rightarrow> u32 \<Rightarrow> int + buf" where
  "file_bdev_read c ss lba count =
     (let off = file_off ss lba; want = file_want ss count
      in if sint off < 0 then Inl bdev_err_io
         else if file_len c < unat off + want \<and> want \<noteq> 0 then Inl bdev_err_io
         else Inr (\<lambda>i. if i < want then file_bytes c (unat off + i) else 0))"

definition file_bdev_write :: "file_ctx \<Rightarrow> u32 \<Rightarrow> u64 \<Rightarrow> u32 \<Rightarrow> buf \<Rightarrow> int \<times> file_ctx" where
  "file_bdev_write c ss lba count b =
     (if fail_after c = 0 then (bdev_err_io, c)
      else
        let c = (if 0 \<le> fail_after c then c\<lparr>fail_after := fail_after c - 1\<rparr> else c);
            off = file_off ss lba; want = file_want ss count
        in if sint off < 0 then (bdev_err_io, c)
           else if want = 0 then (bdev_ok, c)
           else (bdev_ok,
             c\<lparr>file_bytes := (\<lambda>i. if unat off \<le> i \<and> i < unat off + want then b (i - unat off)
                                 else if i < file_len c then file_bytes c i else 0),
               file_len := max (file_len c) (unat off + want)\<rparr>))"

definition file_bdev_open_mode :: "(nat \<Rightarrow> byte) \<Rightarrow> nat \<Rightarrow> bool \<Rightarrow> file_ctx blockdev" where
  "file_bdev_open_mode bytes len writable =
     \<lparr>read_sectors = file_bdev_read,
      write_sectors = (if writable then Some file_bdev_write else None),
      sector_size = 512,
      total_sectors = word_of_nat (len div 512),
      bdev_ctx = \<lparr>file_bytes = bytes, file_len = len, fail_after = -1\<rparr>\<rparr>"

definition file_bdev_open :: "(nat \<Rightarrow> byte) \<Rightarrow> nat \<Rightarrow> file_ctx blockdev" where
  "file_bdev_open bytes len = file_bdev_open_mode bytes len False"

definition file_bdev_open_rw :: "(nat \<Rightarrow> byte) \<Rightarrow> nat \<Rightarrow> file_ctx blockdev" where
  "file_bdev_open_rw bytes len = file_bdev_open_mode bytes len True"

definition file_bdev_set_fail_after :: "file_ctx blockdev \<Rightarrow> int \<Rightarrow> file_ctx blockdev" where
  "file_bdev_set_fail_after bd n = bd\<lparr>bdev_ctx := (bdev_ctx bd)\<lparr>fail_after := n\<rparr>\<rparr>"

section \<open>The BIOS disk (src/blockdev/int13_bdev.c)\<close>

text \<open>
  The disk address packet handed to INT 13h.  The two BIOS services are parameters: they get
  the drive number and the packet, and tell whether the carry flag came back clear.
\<close>

record dap =
  dap_size :: byte
  dap_reserved :: byte
  dap_count :: u16
  dap_lba_lo :: u32
  dap_lba_hi :: u32

definition int13_dap :: "u64 \<Rightarrow> u32 \<Rightarrow> dap" where
  "int13_dap lba count =
     \<lparr>dap_size = 16, dap_reserved = 0, dap_count = ucast count,
      dap_lba_lo = ucast (lba AND 0xFFFFFFFF), dap_lba_hi = ucast (drop_bit 32 lba)\<rparr>"

record 'b int13_ctx =
  int13_drive :: byte
  bios_state :: 'b

definition int13_read ::
  "('b \<Rightarrow> byte \<Rightarrow> dap \<Rightarrow> buf option) \<Rightarrow> 'b int13_ctx \<Rightarrow> u32 \<Rightarrow> u64 \<Rightarrow> u32 \<Rightarrow> int + buf" where
  "int13_read bios c ss lba count =
     (if count = 0 \<or> 127 < count then Inl bdev_err_range
      else case bios (bios_state c) (int13_drive c) (int13_dap lba count) of
        None \<Rightarrow> Inl bdev_err_io
      | Some b \<Rightarrow> Inr b)"

definition int13_write ::
  "('b \<Rightarrow> byte \<Rightarrow> dap \<Rightarrow> buf \<Rightarrow> bool \<times> 'b) \<Rightarrow> 'b int13_ctx \<Rightarrow> u32 \<Rightarrow> u64 \<Rightarrow> u32 \<Rightarrow> buf
     \<Rightarrow> int \<times> 'b int13_ctx" where
  "int13_write bios c ss lba count b =
     (if count = 0 \<or> 127 < count then (bdev_err_range, c)
      else case bios (bios_state c) (int13_drive c) (int13_dap lba count) b of
        (ok, s) \<Rightarrow> (if ok then bdev_ok else bdev_err_io, c\<lparr>bios_state := s\<rparr>))"

text \<open>The driver has one static device; a second open is refused until it is closed.\<close>

definition int13_bdev_open ::
  "('b \<Rightarrow> byte \<Rightarrow> dap \<Rightarrow> buf option) \<Rightarrow> ('b \<Rightarrow> byte \<Rightarrow> dap \<Rightarrow> buf \<Rightarrow> bool \<times> 'b) \<Rightarrow> 'b
     \<Rightarrow> bool \<Rightarrow> byte \<Rightarrow> 'b int13_ctx blockdev option \<times> bool" where
  "int13_bdev_open bios_rd bios_wr s g_open drive =
     (if g_open then (None, g_open)
      else (Some \<lparr>read_sectors = int13_read bios_rd,
                  write_sectors = Some (int13_write bios_wr),
                  sector_size = 512, total_sectors = 0,
                  bdev_ctx = \<lparr>int13_drive = drive, bios_state = s\<rparr>\<rparr>, True))"

definition int13_bdev_close :: "'b int13_ctx blockdev option \<Rightarrow> bool \<Rightarrow> bool" where
  "int13_bdev_close bd g_open = (case bd of None \<Rightarrow> g_open | Some _ \<Rightarrow> False)"

lemma int13_dap_lba:
  "push_bit 32 (ucast (dap_lba_hi (int13_dap lba count))) OR ucast (dap_lba_lo (int13_dap lba count)) = (lba :: u64)"
proof (rule bit_word_eqI)
  fix n
  have m: "(0xFFFFFFFF :: u64) = mask 32" by (simp add: mask_eq_exp_minus_1)
  assume "n < LENGTH(64)"
  then show "bit (push_bit 32 (ucast (dap_lba_hi (int13_dap lba count))) OR
      ucast (dap_lba_lo (int13_dap lba count)) :: u64) n = bit lba n"
    by (cases "n < 32") (auto simp: int13_dap_def m bit_simps)
qed

section \<open>What the file system relies on\<close>

text \<open>Writes issued one after the other, stopping at the first that fails.\<close>

fun write_all :: "('d \<Rightarrow> 'l \<Rightarrow> 'n \<Rightarrow> buf \<Rightarrow> int \<times> 'd) \<Rightarrow> 'd \<Rightarrow> ('l \<times> 'n \<times> buf) list \<Rightarrow> int \<times> 'd" where
  "write_all wr d [] = (0, d)"
| "write_all wr d ((lba, n, b) # ws) =
     (case wr d lba n b of (rc, d') \<Rightarrow> if rc \<noteq> 0 then (rc, d') else write_all wr d' ws)"

text \<open>The bytes after a list of transfers, each given by first byte, length and data.\<close>

fun patch_all :: "(nat \<Rightarrow> byte) \<Rightarrow> (nat \<times> nat \<times> buf) list \<Rightarrow> nat \<Rightarrow> byte" where
  "patch_all f [] = f"
| "patch_all f ((p, n, b) # ws) = patch_all (copy_bytes f p b n) ws"

lemma patch_all_append: "patch_all f (xs @ ys) = patch_all (patch_all f xs) ys"
  by (induction f xs rule: patch_all.induct) auto

lemma patch_all_outside:
  "(\<forall>(p, n, b) \<in> set ws. i < p \<or> p + n \<le> i) \<Longrightarrow> patch_all f ws i = f i"
  by (induction f ws rule: patch_all.induct) (auto simp: copy_bytes_def)

locale block_device =
  fixes rd :: "'d \<Rightarrow> u64 \<Rightarrow> u32 \<Rightarrow> int + buf"
    and wr :: "'d \<Rightarrow> u64 \<Rightarrow> u32 \<Rightarrow> buf \<Rightarrow> int \<times> 'd"
    and valid :: "'d \<Rightarrow> bool"
    and contents :: "'d \<Rightarrow> nat \<Rightarrow> byte"
    and reach :: "'d \<Rightarrow> u64 \<Rightarrow> u32 \<Rightarrow> bool"
    and pos :: "'d \<Rightarrow> u64 \<Rightarrow> nat"
    and len :: "'d \<Rightarrow> u32 \<Rightarrow> nat"
  assumes rd_reach: "valid d \<Longrightarrow> reach d l n \<Longrightarrow>
      rd d l n = Inr (\<lambda>i. if i < len d n then contents d (pos d l + i) else 0)"
    and wr_valid: "valid d \<Longrightarrow> wr d l n b = (rc, d') \<Longrightarrow> valid d'"
    and wr_ok: "valid d \<Longrightarrow> reach d l n \<Longrightarrow> wr d l n b = (0, d') \<Longrightarrow>
      contents d' = copy_bytes (contents d) (pos d l) b (len d n)"
    and wr_fail: "valid d \<Longrightarrow> wr d l n b = (rc, d') \<Longrightarrow> rc \<noteq> 0 \<Longrightarrow> contents d' = contents d"
    and wr_reach: "valid d \<Longrightarrow> wr d l n b = (rc, d') \<Longrightarrow> reach d m k \<Longrightarrow> reach d' m k"
    and wr_geometry: "valid d \<Longrightarrow> wr d l n b = (rc, d') \<Longrightarrow> pos d' = pos d \<and> len d' = len d"
begin

lemma read_back:
  assumes "valid d" "reach d l n" "wr d l n b = (0, d')"
  shows "rd d' l n = Inr (\<lambda>i. if i < len d n then b i else 0)"
proof -
  have g: "pos d' = pos d" "len d' = len d" using wr_geometry assms by blast+
  have "rd d' l n = Inr (\<lambda>i. if i < len d' n then contents d' (pos d' l + i) else 0)"
    using wr_valid wr_reach assms by (intro rd_reach) blast+
  then show ?thesis
    by (simp add: g wr_ok [OF assms] copy_bytes_def cong: if_cong)
qed

lemma read_other:
  assumes "valid d" "reach d l n" "wr d l n b = (0, d')" "reach d m k"
    and apart: "pos d l + len d n \<le> pos d m \<or> pos d m + len d k \<le> pos d l"
  shows "rd d' m k = rd d m k"
proof -
  have g: "pos d' = pos d" "len d' = len d" using wr_geometry assms by blast+
  have "rd d' m k = Inr (\<lambda>i. if i < len d' k then contents d' (pos d' m + i) else 0)"
    using wr_valid wr_reach assms by (intro rd_reach) blast+
  then show ?thesis
    using apart by (auto simp: g wr_ok [OF assms(1-3)] rd_reach [OF assms(1,4)] copy_bytes_def)
qed

lemma write_all_valid: "valid d \<Longrightarrow> write_all wr d ws = (rc, d') \<Longrightarrow> valid d'"
  using wr_valid
  by (induction ws arbitrary: d) (auto split: prod.splits if_splits, blast+)

lemma write_all_geometry:
  "valid d \<Longrightarrow> write_all wr d ws = (rc, d') \<Longrightarrow> pos d' = pos d \<and> len d' = len d"
proof (induction ws arbitrary: d)
  case Nil
  then show ?case by simp
next
  case (Cons w ws)
  obtain l n b where w: "w = (l, n, b)" by (cases w)
  obtain rc1 d1 where s: "wr d l n b = (rc1, d1)" by fastforce
  have "valid d1" "pos d1 = pos d \<and> len d1 = len d"
    using wr_valid wr_geometry Cons.prems(1) s by blast+
  with Cons w s show ?case by (auto split: if_splits)
qed

lemma write_all_reach: "valid d \<Longrightarrow> write_all wr d ws = (rc, d') \<Longrightarrow> reach d m k \<Longrightarrow> reach d' m k"
  using wr_valid wr_reach
  by (induction ws arbitrary: d) (auto split: prod.splits if_splits, blast+)

lemma write_all_prefix:
  assumes "valid d" "\<forall>(l, n, b) \<in> set ws. reach d l n" "write_all wr d ws = (rc, d')"
  shows "\<exists>k \<le> length ws. (rc = 0 \<longrightarrow> k = length ws) \<and>
    contents d' = patch_all (contents d) (map (\<lambda>(l, n, b). (pos d l, len d n, b)) (take k ws))"
  using assms
proof (induction ws arbitrary: d)
  case Nil
  then show ?case by simp
next
  case (Cons w ws)
  obtain l n b where w: "w = (l, n, b)" by (cases w)
  obtain rc1 d1 where s: "wr d l n b = (rc1, d1)" by fastforce
  have v: "valid d1" and g: "pos d1 = pos d" "len d1 = len d"
    using wr_valid wr_geometry Cons.prems(1) s by blast+
  show ?case
  proof (cases "rc1 = 0")
    case False
    with Cons.prems w s have "rc = rc1" "d' = d1" by auto
    with False wr_fail [OF Cons.prems(1) s] show ?thesis by (intro exI [of _ 0]) auto
  next
    case True
    with Cons.prems w s have rest: "write_all wr d1 ws = (rc, d')" by simp
    have "\<forall>(l, n, b) \<in> set ws. reach d1 l n"
      using Cons.prems w wr_reach [OF Cons.prems(1) s] by fastforce
    from Cons.IH [OF v this rest] obtain k where k: "k \<le> length ws" "rc = 0 \<longrightarrow> k = length ws"
      "contents d' = patch_all (contents d1) (map (\<lambda>(l, n, b). (pos d1 l, len d1 n, b)) (take k ws))"
      by blast
    have "contents d1 = copy_bytes (contents d) (pos d l) b (len d n)"
      using True Cons.prems w s by (intro wr_ok) auto
    with k g w show ?thesis by (intro exI [of _ "Suc k"]) (auto split: prod.splits)
  qed
qed

end

section \<open>The image file meets the contract\<close>

definition file_dev :: "file_ctx blockdev \<Rightarrow> bool" where
  "file_dev bd \<longleftrightarrow> read_sectors bd = file_bdev_read \<and>
     (write_sectors bd = Some file_bdev_write \<or> write_sectors bd = None) \<and>
     (\<forall>i \<ge> file_len (bdev_ctx bd). file_bytes (bdev_ctx bd) i = 0)"

definition file_contents :: "file_ctx blockdev \<Rightarrow> nat \<Rightarrow> byte" where
  "file_contents bd = file_bytes (bdev_ctx bd)"

definition file_reach :: "file_ctx blockdev \<Rightarrow> u64 \<Rightarrow> u32 \<Rightarrow> bool" where
  "file_reach bd lba count \<longleftrightarrow>
     0 \<le> sint (file_off (sector_size bd) lba) \<and> 0 < file_want (sector_size bd) count \<and>
     unat (file_off (sector_size bd) lba) + file_want (sector_size bd) count \<le> file_len (bdev_ctx bd)"

definition file_pos :: "file_ctx blockdev \<Rightarrow> u64 \<Rightarrow> nat" where
  "file_pos bd lba = unat (file_off (sector_size bd) lba)"

definition file_xlen :: "file_ctx blockdev \<Rightarrow> u32 \<Rightarrow> nat" where
  "file_xlen bd count = file_want (sector_size bd) count"

text \<open>The three ways a write to the image file ends.\<close>

lemma file_bdev_write_cases:
  assumes "file_bdev_write c ss l n b = (rc, c')"
  obtains (failed) fa where "rc \<noteq> 0" "c' = c\<lparr>fail_after := fa\<rparr>"
    | (empty) fa where "rc = 0" "file_want ss n = 0" "c' = c\<lparr>fail_after := fa\<rparr>"
    | (written) fa where "rc = 0" "0 < file_want ss n"
        "c' = c\<lparr>fail_after := fa,
           file_bytes := (\<lambda>i. if unat (file_off ss l) \<le> i \<and> i < unat (file_off ss l) + file_want ss n
                              then b (i - unat (file_off ss l))
                              else if i < file_len c then file_bytes c i else 0),
           file_len := max (file_len c) (unat (file_off ss l) + file_want ss n)\<rparr>"
proof (cases "fail_after c = 0")
  case True
  with assms have "rc \<noteq> 0" "c' = c\<lparr>fail_after := fail_after c\<rparr>"
    by (simp_all add: file_bdev_write_def bdev_err_io_def)
  then show ?thesis by (rule failed)
next
  case alive: False
  define fa where "fa = (if 0 \<le> fail_after c then fail_after c - 1 else fail_after c)"
  have c: "(if 0 \<le> fail_after c then c\<lparr>fail_after := fail_after c - 1\<rparr> else c) = c\<lparr>fail_after := fa\<rparr>"
    by (simp add: fa_def)
  show ?thesis
  proof (cases "sint (file_off ss l) < 0")
    case True
    with assms alive have "rc \<noteq> 0" "c' = c\<lparr>fail_after := fa\<rparr>"
      by (simp_all add: file_bdev_write_def bdev_err_io_def Let_def c)
    then show ?thesis by (rule failed)
  next
    case False
    with assms alive have *: "(if file_want ss n = 0 then (bdev_ok, c\<lparr>fail_after := fa\<rparr>) else
       (bdev_ok, c\<lparr>fail_after := fa,
           file_bytes := (\<lambda>i. if unat (file_off ss l) \<le> i \<and> i < unat (file_off ss l) + file_want ss n
                              then b (i - unat (file_off ss l))
                              else if i < file_len c then file_bytes c i else 0),
           file_len := max (file_len c) (unat (file_off ss l) + file_want ss n)\<rparr>)) = (rc, c')"
      by (simp add: file_bdev_write_def Let_def c cong: if_cong)
    then show ?thesis
      by (cases "file_want ss n = 0") (auto simp: bdev_ok_def intro: empty written)
  qed
qed

lemma file_dev_write:
  assumes d: "file_dev d" and w: "bdev_write d l n b = (rc, d')"
  shows "file_dev d'" "rc \<noteq> 0 \<Longrightarrow> file_contents d' = file_contents d"
    "file_pos d' = file_pos d" "file_xlen d' = file_xlen d"
    "file_reach d m k \<Longrightarrow> file_reach d' m k"
    "sector_size d' = sector_size d" "bdev_writable d' = bdev_writable d"
    "file_reach d l n \<Longrightarrow> rc = 0 \<Longrightarrow>
       file_contents d' = copy_bytes (file_contents d) (file_pos d l) b (file_xlen d n)"
proof -
  define good where "good \<longleftrightarrow> file_dev d' \<and> (rc \<noteq> 0 \<longrightarrow> file_contents d' = file_contents d) \<and>
    file_pos d' = file_pos d \<and> file_xlen d' = file_xlen d \<and>
    (file_reach d m k \<longrightarrow> file_reach d' m k) \<and>
    sector_size d' = sector_size d \<and> bdev_writable d' = bdev_writable d \<and>
    (file_reach d l n \<longrightarrow> rc = 0 \<longrightarrow>
       file_contents d' = copy_bytes (file_contents d) (file_pos d l) b (file_xlen d n))"
  note defs = file_dev_def file_contents_def file_pos_def file_xlen_def file_reach_def
    bdev_writable_def fun_eq_iff
  have good
  proof (cases "write_sectors d = None")
    case True
    with w have "rc = -3" "d' = d" by (auto simp: bdev_write_def bdev_err_ro_def)
    with d show good by (simp add: good_def)
  next
    case False
    with d have fw: "write_sectors d = Some file_bdev_write" by (simp add: file_dev_def)
    with w obtain c' where c': "file_bdev_write (bdev_ctx d) (sector_size d) l n b = (rc, c')"
      and d': "d' = d\<lparr>bdev_ctx := c'\<rparr>"
      by (auto simp: bdev_write_def split: prod.splits)
    from c' show good
    proof (cases rule: file_bdev_write_cases)
      case (failed fa)
      with d d' show good by (simp add: good_def defs)
    next
      case (empty fa)
      with d d' show good by (simp add: good_def defs)
    next
      case (written fa)
      with d d' show good by (auto simp: good_def defs copy_bytes_def)
    qed
  qed
  then show "file_dev d'" "rc \<noteq> 0 \<Longrightarrow> file_contents d' = file_contents d"
    "file_pos d' = file_pos d" "file_xlen d' = file_xlen d"
    "file_reach d m k \<Longrightarrow> file_reach d' m k"
    "sector_size d' = sector_size d" "bdev_writable d' = bdev_writable d"
    "file_reach d l n \<Longrightarrow> rc = 0 \<Longrightarrow>
       file_contents d' = copy_bytes (file_contents d) (file_pos d l) b (file_xlen d n)"
    by (simp_all add: good_def)
qed

lemma file_dev_read:
  assumes "file_dev d" "file_reach d l n"
  shows "bdev_read d l n =
    Inr (\<lambda>i. if i < file_xlen d n then file_contents d (file_pos d l + i) else 0)"
  using assms
  by (auto simp: file_dev_def file_reach_def bdev_read_def file_bdev_read_def file_xlen_def
      file_contents_def file_pos_def Let_def)

interpretation image: block_device bdev_read bdev_write file_dev file_contents file_reach file_pos file_xlen
proof (unfold_locales, goal_cases)
  case (1 d l n)
  then show ?case by (rule file_dev_read)
next
  case (2 d l n b rc d')
  then show ?case by (rule file_dev_write(1))
next
  case (3 d l n b d')
  then show ?case by (intro file_dev_write(8)) simp_all
next
  case (4 d l n b rc d')
  then show ?case by (rule file_dev_write(2))
next
  case (5 d l n b rc d' m k)
  then show ?case by (rule file_dev_write(5))
next
  case (6 d l n b rc d')
  then show ?case by (simp add: file_dev_write(3,4))
qed

section \<open>Fault injection\<close>

lemma file_write_armed:
  assumes d: "file_dev d" and w: "write_sectors d = Some file_bdev_write" and r: "file_reach d l n"
    and f: "fail_after (bdev_ctx d) = int k" and o: "bdev_write d l n b = (rc, d')"
  shows "k = 0 \<Longrightarrow> rc \<noteq> 0 \<and> d' = d"
    "k = Suc m \<Longrightarrow> rc = 0 \<and> fail_after (bdev_ctx d') = int m \<and> write_sectors d' = Some file_bdev_write"
  using assms
  by (auto simp: bdev_write_def file_bdev_write_def bdev_err_io_def bdev_ok_def Let_def file_reach_def
      split: if_splits)

lemma write_all_armed:
  assumes "file_dev d" "write_sectors d = Some file_bdev_write" "fail_after (bdev_ctx d) = int k"
    "\<forall>(l, n, b) \<in> set ws. file_reach d l n" "write_all bdev_write d ws = (rc, d')"
  shows "(rc = 0) = (length ws \<le> k) \<and>
    file_contents d' = patch_all (file_contents d)
      (map (\<lambda>(l, n, b). (file_pos d l, file_xlen d n, b)) (take k ws))"
  using assms
proof (induction ws arbitrary: d k)
  case Nil
  then show ?case by simp
next
  case (Cons w ws)
  obtain l n b where w: "w = (l, n, b)" by (cases w)
  obtain rc1 d1 where s: "bdev_write d l n b = (rc1, d1)" by fastforce
  have r: "file_reach d l n" using Cons.prems w by auto
  note arm = file_write_armed [OF Cons.prems(1,2) r Cons.prems(3) s]
  show ?case
  proof (cases k)
    case 0
    with arm(1) Cons.prems w s show ?thesis by auto
  next
    case (Suc m)
    note st = file_dev_write [OF Cons.prems(1) s]
    have a: "rc1 = 0" "fail_after (bdev_ctx d1) = int m" "write_sectors d1 = Some file_bdev_write"
      using arm(2) [OF Suc] by auto
    have "\<forall>(l, n, b) \<in> set ws. file_reach d1 l n"
      using Cons.prems(4) st(5) by fastforce
    from Cons.IH [OF st(1) a(3,2) this] a(1) Cons.prems(5) w s
    have "(rc = 0) = (length ws \<le> m) \<and> file_contents d' = patch_all (file_contents d1)
      (map (\<lambda>(l, n, b). (file_pos d1 l, file_xlen d1 n, b)) (take m ws))" by simp
    with st(3,4) st(8) [OF r a(1)] Suc w show ?thesis by (simp add: split_def)
  qed
qed

section \<open>Properties\<close>

text \<open>On the image file, sectors that were written are read back as written, and every
  transfer that does not overlap them reads what it read before.\<close>

theorem image_read_after_write:
  assumes "file_dev d" "file_reach d l n" "bdev_write d l n b = (0, d')"
  shows "bdev_read d' l n = Inr (\<lambda>i. if i < file_xlen d n then b i else 0) \<and>
    (file_reach d m k \<and>
       (file_pos d l + file_xlen d n \<le> file_pos d m \<or> file_pos d m + file_xlen d k \<le> file_pos d l) \<longrightarrow>
     bdev_read d' m k = bdev_read d m k)"
  using image.read_back [OF assms] image.read_other [OF assms] by blast

theorem image_read_after_write_witness:
  "let d = file_bdev_open_rw zero_buf 2048; d' = snd (bdev_write d 1 1 (\<lambda>_. 7)) in
   bdev_read d' 1 1 = Inr (\<lambda>i. if i < file_xlen d 1 then 7 else 0) \<and> bdev_read d' 2 1 = bdev_read d 2 1"
proof -
  let ?d = "file_bdev_open_rw zero_buf 2048" and ?b = "\<lambda>_ :: nat. 7 :: byte"
  have d: "file_dev ?d" by (simp add: file_dev_def file_bdev_open_rw_def file_bdev_open_mode_def)
  have r: "file_reach ?d 1 1" "file_reach ?d 2 1"
    by (simp_all add: file_reach_def file_bdev_open_rw_def file_bdev_open_mode_def file_off_def file_want_def)
  have w: "bdev_write ?d 1 1 ?b = (0, snd (bdev_write ?d 1 1 ?b))"
    by (simp add: bdev_write_def file_bdev_open_rw_def file_bdev_open_mode_def file_bdev_write_def
        file_off_def file_want_def bdev_ok_def Let_def)
  have p: "file_pos ?d 1 + file_xlen ?d 1 \<le> file_pos ?d 2"
    by (simp add: file_pos_def file_xlen_def file_bdev_open_rw_def file_bdev_open_mode_def file_off_def file_want_def)
  show ?thesis
    using image_read_after_write [OF d r(1) w, of 2 1] r(2) p unfolding Let_def by blast
qed

text \<open>After \<open>file_bdev_set_fail_after\<close> with a count k, a sequence of block writes is cut
  after exactly k of them: it fails exactly when it is longer than k, and the image then holds
  the first k writes and nothing of the others.\<close>

theorem image_fault_cuts_at:
  assumes "file_dev d" "write_sectors d = Some file_bdev_write"
    "\<forall>(l, n, b) \<in> set ws. file_reach d l n"
    "write_all bdev_write (file_bdev_set_fail_after d (int k)) ws = (rc, d')"
  shows "(rc = 0) = (length ws \<le> k) \<and>
    file_contents d' = patch_all (file_contents d)
      (map (\<lambda>(l, n, b). (file_pos d l, file_xlen d n, b)) (take k ws))"
proof -
  let ?d = "file_bdev_set_fail_after d (int k)"
  have eq: "file_contents ?d = file_contents d" "file_pos ?d = file_pos d" "file_xlen ?d = file_xlen d"
    "file_reach ?d = file_reach d"
    by (auto simp: file_bdev_set_fail_after_def file_contents_def file_pos_def file_xlen_def file_reach_def
        fun_eq_iff)
  have "file_dev ?d" "write_sectors ?d = Some file_bdev_write" "fail_after (bdev_ctx ?d) = int k"
    using assms(1,2) by (auto simp: file_bdev_set_fail_after_def file_dev_def)
  from write_all_armed [OF this, of ws rc d'] assms(3,4) show ?thesis by (simp add: eq)
qed

theorem image_fault_cuts_at_witness:
  "let d = file_bdev_open_rw zero_buf 2048; ws = [(0, 1, \<lambda>_. 1), (1, 1, \<lambda>_. 2)];
       (rc, d') = write_all bdev_write (file_bdev_set_fail_after d 1) ws in
   rc \<noteq> 0 \<and> file_contents d' = patch_all zero_buf [(0, 512, \<lambda>_. 1)]"
proof -
  let ?d = "file_bdev_open_rw zero_buf 2048"
  let ?ws = "[(0 :: u64, 1 :: u32, \<lambda>_. 1), (1, 1, \<lambda>_. 2)] :: (u64 \<times> u32 \<times> buf) list"
  have d: "file_dev ?d" "write_sectors ?d = Some file_bdev_write"
    by (simp_all add: file_dev_def file_bdev_open_rw_def file_bdev_open_mode_def)
  have r: "\<forall>(l, n, b) \<in> set ?ws. file_reach ?d l n"
    by (simp add: file_reach_def file_bdev_open_rw_def file_bdev_open_mode_def file_off_def file_want_def)
  obtain rc d' where w: "write_all bdev_write (file_bdev_set_fail_after ?d (int 1)) ?ws = (rc, d')" by fastforce
  have e: "file_contents ?d = zero_buf" "file_pos ?d 0 = 0" "file_xlen ?d 1 = 512"
    by (simp_all add: file_contents_def file_pos_def file_xlen_def file_bdev_open_rw_def
        file_bdev_open_mode_def file_off_def file_want_def)
  from image_fault_cuts_at [OF d r w] show ?thesis using w by (simp add: e del: write_all.simps)
qed

text \<open>The BIOS disk calls the BIOS for 1 to 127 sectors only, every other count is refused
  with the range error before any call, and the address packet carries the 64-bit sector number
  unchanged in its two halves.\<close>

theorem int13_guard_and_packet:
  "int13_read bios c ss lba 0 = Inl bdev_err_range \<and>
   (127 < count \<longrightarrow> int13_read bios c ss lba count = Inl bdev_err_range \<and>
      int13_write wr c ss lba count b = (bdev_err_range, c)) \<and>
   push_bit 32 (ucast (dap_lba_hi (int13_dap lba count))) OR ucast (dap_lba_lo (int13_dap lba count)) = lba \<and>
   (count \<le> 127 \<longrightarrow> unat (dap_count (int13_dap lba count)) = unat count)"
proof -
  have "unat (ucast count :: u16) = unat count" if "count \<le> 127"
  proof -
    have "unat count \<le> 127" using that by (simp add: word_le_nat_alt)
    then show ?thesis by (simp add: unsigned_ucast_eq take_bit_nat_eq_self)
  qed
  then show ?thesis
    by (auto simp: int13_read_def int13_write_def int13_dap_lba) (simp add: int13_dap_def)
qed

theorem int13_guard_and_packet_witness:
  "int13_write (\<lambda>s d p b. (True, s)) \<lparr>int13_drive = 0x80, bios_state = ()\<rparr> 512 9 128 zero_buf
     = (bdev_err_range, \<lparr>int13_drive = 0x80, bios_state = ()\<rparr>) \<and>
   unat (dap_count (int13_dap 9 127)) = 127"
  using int13_guard_and_packet [where bios = "\<lambda>s d p. None" and ss = 512 and lba = 9 and count = 128
        and wr = "\<lambda>s d p b. (True, s)" and b = zero_buf and c = "\<lparr>int13_drive = 0x80, bios_state = ()\<rparr>"]
    int13_guard_and_packet [where bios = "\<lambda>s d p. None" and ss = 512 and lba = 9 and count = 127
        and wr = "\<lambda>s d p b. (True, s)" and b = zero_buf and c = "\<lparr>int13_drive = 0x80, bios_state = ()\<rparr>"]
  by simp

end
