(* ===== verification/Mbr.thy ===== *)
theory Mbr
  imports Blockdev
begin

text \<open>
  src/partition/mbr.c: the reader of the partition table in sector 0.  The array of four
  entries with its count is a list; empty slots (type 0 or no sectors) are left out.
\<close>

record mbr_partition =
  part_status :: byte
  part_type :: byte
  part_start_lba :: u32
  part_sector_count :: u32
  part_bootable :: bool

record mbr_table =
  mbr_has_signature :: bool
  mbr_entries :: "mbr_partition list"

definition mbr_max_partitions :: nat where "mbr_max_partitions = 4"
definition mbr_type_linux :: byte where "mbr_type_linux = 0x83"

definition mbr_slot :: "nat \<Rightarrow> nat" where
  "mbr_slot i = 0x1BE + i * 16"

definition mbr_step :: "buf \<Rightarrow> mbr_partition list \<Rightarrow> nat \<Rightarrow> mbr_partition list" where
  "mbr_step b es i =
     (let e = at b (mbr_slot i); status = e 0; type = e 4; start = le32 e 8; count = le32 e 12
      in if type = 0 \<or> count = 0 then es
         else es @ [\<lparr>part_status = status, part_type = type, part_start_lba = start,
                     part_sector_count = count, part_bootable = (status AND 0x80 \<noteq> 0)\<rparr>])"

definition mbr_parse :: "buf \<Rightarrow> int + mbr_table" where
  "mbr_parse b =
     (if le16 b 0x1FE \<noteq> 0xAA55 then Inl (-1)
      else Inr \<lparr>mbr_has_signature = True,
                mbr_entries = foldl (mbr_step b) [] [0..<mbr_max_partitions]\<rparr>)"

definition mbr_read :: "'c blockdev \<Rightarrow> int + mbr_table" where
  "mbr_read bd = (case bdev_read bd 0 1 of Inl rc \<Rightarrow> Inl rc | Inr b \<Rightarrow> mbr_parse b)"

text \<open>The entries as a specification: the non-empty slots, in slot order, decoded.\<close>

definition mbr_used :: "buf \<Rightarrow> nat \<Rightarrow> bool" where
  "mbr_used b i \<longleftrightarrow> b (mbr_slot i + 4) \<noteq> 0 \<and> le32 b (mbr_slot i + 12) \<noteq> 0"

definition mbr_decode :: "buf \<Rightarrow> nat \<Rightarrow> mbr_partition" where
  "mbr_decode b i =
     \<lparr>part_status = b (mbr_slot i), part_type = b (mbr_slot i + 4),
      part_start_lba = le32 b (mbr_slot i + 8), part_sector_count = le32 b (mbr_slot i + 12),
      part_bootable = (b (mbr_slot i) AND 0x80 \<noteq> 0)\<rparr>"

lemma le32_at [buf_simps]: "le32 (at b k) p = le32 b (k + p)"
  by (simp add: le32_def add.assoc)

lemma le16_at [buf_simps]: "le16 (at b k) p = le16 b (k + p)"
  by (simp add: le16_def add.assoc)

lemma mbr_step_eq: "mbr_step b es i = (if mbr_used b i then es @ [mbr_decode b i] else es)"
  by (simp add: mbr_step_def mbr_used_def mbr_decode_def le32_at Let_def)

lemma mbr_fold: "foldl (mbr_step b) es is = es @ map (mbr_decode b) (filter (mbr_used b) is)"
  by (induction "is" arbitrary: es) (simp_all add: mbr_step_eq)

section \<open>Properties\<close>

text \<open>\<open>mbr_read\<close> fails with -1 without the 55 AA signature and otherwise gives the
  non-empty ones of the four slots of sector 0, in slot order, each decoded from its 16 bytes.\<close>

theorem mbr_parse_slots:
  "mbr_parse b =
     (if le16 b 0x1FE = 0xAA55
      then Inr \<lparr>mbr_has_signature = True, mbr_entries = map (mbr_decode b) (filter (mbr_used b) [0, 1, 2, 3])\<rparr>
      else Inl (-1))"
proof -
  have "[0..<mbr_max_partitions] = [0, 1, 2, 3]" by (simp add: mbr_max_partitions_def upt_rec)
  then show ?thesis unfolding mbr_parse_def by (simp only: mbr_fold append_Nil) simp
qed

end
