(* ===== verification/Superblock.thy ===== *)
theory Superblock
  imports Prelude
begin

text \<open>
  src/ext4/superblock.c and src/ext4/features.c: the parsed superblock and the gate that refuses
  file systems with features the driver does not know.  The message the gate formats with
  \<open>snprintf\<close> is kept as the feature it names.
\<close>

section \<open>The superblock\<close>

definition ext4_superblock_magic :: u16 where "ext4_superblock_magic = 0xEF53"
definition incompat_64bit :: u32 where "incompat_64bit = 0x80"

record ext4_superblock =
  s_inodes_count :: u32
  s_blocks_count :: u64
  s_free_blocks_count :: u64
  s_free_inodes_count :: u32
  s_first_data_block :: u32
  s_block_size :: u32
  s_blocks_per_group :: u32
  s_inodes_per_group :: u32
  s_magic :: u16
  s_state :: u16
  s_rev_level :: u32
  s_inode_size :: u16
  s_feature_compat :: u32
  s_feature_incompat :: u32
  s_feature_ro_compat :: u32
  s_uuid :: "byte list"
  s_volume_name :: "byte list"
  s_last_mounted :: "byte list"
  s_journal_uuid :: "byte list"
  s_journal_inum :: u32

text \<open>
  \<open>1024u << n\<close> with \<open>n\<close> read from the disk: for \<open>n\<close> below 32 the shift drops the high
  bits, as \<open>push_bit\<close> does; from 32 on the C expression is undefined and \<open>push_bit\<close> gives 0.
\<close>

definition ext4_superblock_parse :: "buf \<Rightarrow> int + ext4_superblock" where
  "ext4_superblock_parse b =
     (if le16 b 0x38 \<noteq> ext4_superblock_magic then Inl (-1)
      else
        let incompat = le32 b 0x60; wide = incompat AND incompat_64bit \<noteq> 0;
            blocks_hi = (if wide then le32 b 0x150 else 0);
            free_hi = (if wide then le32 b 0x158 else 0)
        in Inr \<lparr>s_inodes_count = le32 b 0x00,
          s_blocks_count = push_bit 32 (ucast blocks_hi) OR ucast (le32 b 0x04),
          s_free_blocks_count = push_bit 32 (ucast free_hi) OR ucast (le32 b 0x0C),
          s_free_inodes_count = le32 b 0x10,
          s_first_data_block = le32 b 0x14,
          s_block_size = push_bit (unat (le32 b 0x18)) 1024,
          s_blocks_per_group = le32 b 0x20,
          s_inodes_per_group = le32 b 0x28,
          s_magic = le16 b 0x38,
          s_state = le16 b 0x3A,
          s_rev_level = le32 b 0x4C,
          s_inode_size = le16 b 0x58,
          s_feature_compat = le32 b 0x5C,
          s_feature_incompat = incompat,
          s_feature_ro_compat = le32 b 0x64,
          s_uuid = bytes_of b 0x68 16,
          s_volume_name = bytes_of b 0x78 16 @ [0],
          s_last_mounted = bytes_of b 0x88 64 @ [0],
          s_journal_uuid = bytes_of b 0xD0 16,
          s_journal_inum = le32 b 0xE0\<rparr>)"

section \<open>The feature gate\<close>

definition incompat_names :: "(u32 \<times> string) list" where
  "incompat_names =
    [(0x00000001, ''compression''), (0x00000002, ''filetype''), (0x00000004, ''recover''),
     (0x00000008, ''journal_dev''), (0x00000010, ''meta_bg''), (0x00000040, ''extents''),
     (0x00000080, ''64bit''), (0x00000100, ''mmp''), (0x00000200, ''flex_bg''),
     (0x00000400, ''ea_inode''), (0x00001000, ''dirdata''), (0x00002000, ''csum_seed''),
     (0x00004000, ''largedir''), (0x00008000, ''inline_data''), (0x00010000, ''encrypt''),
     (0x00020000, ''casefold''), (0x00040000, ''verity''), (0x00080000, ''orphan_file'')]"

definition ro_compat_names :: "(u32 \<times> string) list" where
  "ro_compat_names =
    [(0x00000001, ''sparse_super''), (0x00000002, ''large_file''), (0x00000004, ''btree_dir''),
     (0x00000008, ''huge_file''), (0x00000010, ''gdt_csum''), (0x00000020, ''dir_nlink''),
     (0x00000040, ''extra_isize''), (0x00000100, ''quota''), (0x00000200, ''bigalloc''),
     (0x00000400, ''metadata_csum''), (0x00000800, ''replica''), (0x00001000, ''readonly''),
     (0x00002000, ''project''), (0x00008000, ''verity''), (0x00020000, ''orphan_present'')]"

text \<open>The constants of src/ext4/features.h: filetype, recover, meta\_bg, extents, 64bit,
  flex\_bg and csum\_seed; for the read-only-compatible set all named bits but bigalloc,
  replica and readonly.\<close>

definition v1_incompat_supported :: u32 where
  "v1_incompat_supported =
     0x00000002 OR 0x00000004 OR 0x00000010 OR 0x00000040 OR 0x00000080 OR 0x00000200 OR 0x00002000"

definition v1_ro_compat_supported :: u32 where
  "v1_ro_compat_supported =
     0x0001 OR 0x0002 OR 0x0004 OR 0x0008 OR 0x0010 OR 0x0020 OR 0x0040 OR 0x0100 OR 0x0400
     OR 0x2000 OR 0x8000 OR 0x20000"

text \<open>What the error buffer says: a named feature, or the raw bits when none is in the table.\<close>

datatype feature_report = Named string u32 string | Raw string u32

fun report_unsupported :: "string \<Rightarrow> u32 \<Rightarrow> (u32 \<times> string) list \<Rightarrow> feature_report" where
  "report_unsupported kind bits [] = Raw kind bits"
| "report_unsupported kind bits ((fbit, name) # table) =
     (if bits AND fbit \<noteq> 0 then Named kind fbit name else report_unsupported kind bits table)"

definition bad_incompat :: "ext4_superblock \<Rightarrow> u32" where
  "bad_incompat sb = s_feature_incompat sb AND NOT v1_incompat_supported"

definition bad_ro_compat :: "ext4_superblock \<Rightarrow> u32" where
  "bad_ro_compat sb = s_feature_ro_compat sb AND NOT v1_ro_compat_supported"

definition ext4_features_check_supported :: "ext4_superblock \<Rightarrow> feature_report + unit" where
  "ext4_features_check_supported sb =
     (if bad_incompat sb = 0 \<and> bad_ro_compat sb = 0 then Inr ()
      else if bad_incompat sb \<noteq> 0
           then Inl (report_unsupported ''incompat'' (bad_incompat sb) incompat_names)
      else Inl (report_unsupported ''ro_compat'' (bad_ro_compat sb) ro_compat_names))"

lemma report_unsupported_named:
  "report_unsupported kind bits table = Named k fbit name \<Longrightarrow>
   k = kind \<and> (fbit, name) \<in> set table \<and> bits AND fbit \<noteq> 0"
  by (induction kind bits table rule: report_unsupported.induct) (auto split: if_splits)

lemma report_unsupported_raw:
  "report_unsupported kind bits table = Raw k bs \<Longrightarrow>
   k = kind \<and> bs = bits \<and> (\<forall>(fbit, name) \<in> set table. bits AND fbit = 0)"
  by (induction kind bits table rule: report_unsupported.induct) (auto split: if_splits)

lemma and_not_zero_iff: "(x AND NOT m = (0 :: 'a::len word)) = (\<forall>n. bit x n \<longrightarrow> bit m n)"
  by (auto simp: bit_eq_iff bit_simps dest: bit_imp_le_length)

lemma named_incompat_bits: "(fbit, name) \<in> set incompat_names \<Longrightarrow> \<exists>n. fbit = push_bit n 1"
proof -
  have "list_all (\<lambda>(b, _). b \<in> set (map (\<lambda>n. push_bit n (1 :: u32)) [0..<32])) incompat_names"
    by (simp add: incompat_names_def upt_rec)
  then show "(fbit, name) \<in> set incompat_names \<Longrightarrow> \<exists>n. fbit = push_bit n 1"
    by (auto simp: list_all_iff)
qed

text \<open>What a truthful report about the bits \<open>field\<close> of a superblock says.\<close>

definition honest_report ::
  "string \<Rightarrow> u32 \<Rightarrow> u32 \<Rightarrow> (u32 \<times> string) list \<Rightarrow> feature_report \<Rightarrow> bool" where
  "honest_report kind field ok table rep \<longleftrightarrow>
     (\<exists>bad. bad \<noteq> 0 \<and> field AND bad = bad \<and> ok AND bad = 0 \<and>
        (rep = Raw kind bad \<or>
         (\<exists>fbit name. rep = Named kind fbit name \<and> (fbit, name) \<in> set table \<and> bad AND fbit = bad)))"

lemma and_not_parts: "x AND (x AND NOT m) = x AND NOT m" "m AND (x AND NOT m) = (0 :: u32)"
  by (auto simp: bit_eq_iff bit_simps)

lemma report_unsupported_honest:
  assumes "field AND NOT ok \<noteq> 0"
  shows "honest_report kind field ok table (report_unsupported kind (field AND NOT ok) table)"
proof (cases "report_unsupported kind (field AND NOT ok) table")
  case (Named k fbit name)
  note r = report_unsupported_named [OF Named]
  have "field AND ((field AND NOT ok) AND fbit) = (field AND NOT ok) AND fbit"
    "ok AND ((field AND NOT ok) AND fbit) = 0"
    by (auto simp: bit_eq_iff bit_simps)
  moreover have "((field AND NOT ok) AND fbit) AND fbit = (field AND NOT ok) AND fbit"
    by (simp only: and.assoc and.idem)
  moreover have "(field AND NOT ok) AND fbit \<noteq> 0" "k = kind" "(fbit, name) \<in> set table" using r by auto
  ultimately show ?thesis
    unfolding honest_report_def Named by blast
next
  case (Raw k bs)
  with report_unsupported_raw [OF Raw] assms show ?thesis
    unfolding honest_report_def
    by (intro exI [of _ "field AND NOT ok"]) (simp only: and_not_parts simp_thms)
qed

section \<open>Properties\<close>

text \<open>C34: The feature gate lets a file system through exactly when it has no incompatible and no
  read-only-compatible feature bit outside the supported sets, and a refusal reports bits that
  are set in the superblock's field and not supported: named from the table, or raw.\<close>

theorem feature_gate_exact:
  "(ext4_features_check_supported sb = Inr ()) =
     (\<forall>n. (bit (s_feature_incompat sb) n \<longrightarrow> bit v1_incompat_supported n) \<and>
          (bit (s_feature_ro_compat sb) n \<longrightarrow> bit v1_ro_compat_supported n)) \<and>
   (ext4_features_check_supported sb = Inl rep \<longrightarrow>
      honest_report ''incompat'' (s_feature_incompat sb) v1_incompat_supported incompat_names rep \<or>
      honest_report ''ro_compat'' (s_feature_ro_compat sb) v1_ro_compat_supported ro_compat_names rep)"
proof (intro conjI impI)
  show "(ext4_features_check_supported sb = Inr ()) =
     (\<forall>n. (bit (s_feature_incompat sb) n \<longrightarrow> bit v1_incompat_supported n) \<and>
          (bit (s_feature_ro_compat sb) n \<longrightarrow> bit v1_ro_compat_supported n))"
    unfolding ext4_features_check_supported_def bad_incompat_def bad_ro_compat_def
    using and_not_zero_iff [of "s_feature_incompat sb" v1_incompat_supported]
      and_not_zero_iff [of "s_feature_ro_compat sb" v1_ro_compat_supported] by auto
next
  assume "ext4_features_check_supported sb = Inl rep"
  then show "honest_report ''incompat'' (s_feature_incompat sb) v1_incompat_supported incompat_names rep \<or>
      honest_report ''ro_compat'' (s_feature_ro_compat sb) v1_ro_compat_supported ro_compat_names rep"
    unfolding ext4_features_check_supported_def bad_incompat_def bad_ro_compat_def
    using report_unsupported_honest by (metis Inl_inject old.sum.distinct(1))
qed

definition sample_superblock :: ext4_superblock where
  "sample_superblock =
     \<lparr>s_inodes_count = 32, s_blocks_count = 64, s_free_blocks_count = 10, s_free_inodes_count = 20,
      s_first_data_block = 1, s_block_size = 1024, s_blocks_per_group = 8192, s_inodes_per_group = 32,
      s_magic = 0xEF53, s_state = 1, s_rev_level = 1, s_inode_size = 128, s_feature_compat = 0,
      s_feature_incompat = 0x46, s_feature_ro_compat = 0, s_uuid = replicate 16 0,
      s_volume_name = [], s_last_mounted = [], s_journal_uuid = replicate 16 0, s_journal_inum = 8\<rparr>"

theorem feature_gate_exact_witness:
  "let sb = sample_superblock\<lparr>s_feature_incompat := 0x10046\<rparr>; rep = Named ''incompat'' 0x10000 ''encrypt''
   in ext4_features_check_supported sb = Inl rep \<and>
     (honest_report ''incompat'' 0x10046 v1_incompat_supported incompat_names rep \<or>
      honest_report ''ro_compat'' 0 v1_ro_compat_supported ro_compat_names rep)"
proof -
  let ?sb = "sample_superblock\<lparr>s_feature_incompat := 0x10046\<rparr>"
  have f: "s_feature_incompat ?sb = 0x10046" "s_feature_ro_compat ?sb = 0"
    by (simp_all add: sample_superblock_def)
  have "ext4_features_check_supported ?sb = Inl (Named ''incompat'' 0x10000 ''encrypt'')"
    by (simp add: ext4_features_check_supported_def bad_incompat_def f v1_incompat_supported_def incompat_names_def)
  then show ?thesis
    using feature_gate_exact [of ?sb "Named ''incompat'' 0x10000 ''encrypt''"]
    by (simp only: f Let_def simp_thms)
qed

end
