(* ===== verification/FsState.thy ===== *)
theory FsState
  imports Blockdev Superblock
begin

text \<open>
  The mounted file system of src/ext4/fs.h with the journal handle of src/ext4/journal.h, and
  the read path that everything else goes through: \<open>ext4_journal_lookup\<close>,
  \<open>ext4_journal_read_log_block\<close> (src/ext4/journal.c), \<open>ext4_fs_read_block\<close>,
  \<open>ext4_fs_bgd_get\<close> and \<open>ext4_fs_bgd_invalidate\<close> (src/ext4/fs.c).

  The arrays of the journal handle that come with a count are lists of that length.  Two
  outcomes have no return code in C and get positive ones here, which no function of the driver
  returns: \<open>rc_trap\<close> for a division by zero or the use of a null pointer, and \<open>rc_hang\<close> for
  a loop that never ends.
\<close>

definition rc_trap :: int where "rc_trap = 1"
definition rc_hang :: int where "rc_hang = 2"

section \<open>State\<close>

record ext4_jbd_replay_entry =
  re_fs_block :: u64
  re_journal_blk :: u32
  re_is_escape :: bool

record ext4_jbd_revoke_entry =
  rv_fs_block :: u64
  rv_revoke_seq :: u32

record ext4_jbd_extent =
  je_logical :: u32
  je_length :: u32
  je_physical :: u64

record ext4_jbd =
  jbd_present :: bool
  jbd_replay_active :: bool
  jbd_pre_replay_recover :: bool
  jbd_inum :: u32
  jbd_blocksize :: u32
  jbd_maxlen :: u32
  jbd_first :: u32
  jbd_sequence :: u32
  jbd_start :: u32
  jbd_pre_replay_start :: u32
  jbd_feature_incompat :: u32
  jbd_uuid :: "byte list"
  jbd_csum_v2 :: bool
  jbd_csum_v3 :: bool
  jbd_has_64bit :: bool
  jbd_extents :: "ext4_jbd_extent list"
  jbd_replay :: "ext4_jbd_replay_entry list"
  jbd_revoke :: "ext4_jbd_revoke_entry list"

record 'c ext4_fs =
  fs_bd :: "'c blockdev"
  fs_partition_lba :: u64
  fs_sb :: ext4_superblock
  fs_bgd_buf :: buf
  fs_bgd_cached_block :: u32
  fs_bgd_count :: u32
  fs_bgd_size :: u16
  fs_jbd :: ext4_jbd

abbreviation block_size :: "'c ext4_fs \<Rightarrow> u32" where
  "block_size fs \<equiv> s_block_size (fs_sb fs)"

abbreviation bs_nat :: "'c ext4_fs \<Rightarrow> nat" where
  "bs_nat fs \<equiv> unat (s_block_size (fs_sb fs))"

section \<open>Block addresses on the device\<close>

text \<open>
  \<open>byte = (uint32_t)(fs_block * block_size); sector = (uint32_t)(partition_lba + byte /
  sector_size); sectors = block_size / sector_size;\<close>, the same three lines at every place that
  reads or writes a block.
\<close>

definition fs_block_byte :: "'c ext4_fs \<Rightarrow> u64 \<Rightarrow> u32" where
  "fs_block_byte fs blk = ucast (blk * ucast (block_size fs))"

definition fs_block_sector :: "'c ext4_fs \<Rightarrow> u64 \<Rightarrow> u32" where
  "fs_block_sector fs blk =
     ucast (fs_partition_lba fs + ucast (fs_block_byte fs blk div sector_size (fs_bd fs)))"

definition fs_block_sectors :: "'c ext4_fs \<Rightarrow> u32" where
  "fs_block_sectors fs = block_size fs div sector_size (fs_bd fs)"

definition raw_read :: "'c ext4_fs \<Rightarrow> u64 \<Rightarrow> int + buf" where
  "raw_read fs blk = bdev_read (fs_bd fs) (ucast (fs_block_sector fs blk)) (fs_block_sectors fs)"

text \<open>A transfer given by its first sector and its count.\<close>

definition dev_read :: "u32 \<Rightarrow> u32 \<Rightarrow> ('c ext4_fs, buf) op" where
  "dev_read sector sectors = readE (\<lambda>fs. bdev_read (fs_bd fs) (ucast sector) sectors)"

definition dev_write :: "u32 \<Rightarrow> u32 \<Rightarrow> buf \<Rightarrow> ('c ext4_fs, unit) op" where
  "dev_write sector sectors b fs =
     (case bdev_write (fs_bd fs) (ucast sector) sectors b of
        (rc, bd) \<Rightarrow> (if rc = 0 then Inr () else Inl rc, fs\<lparr>fs_bd := bd\<rparr>))"

definition raw_write :: "u64 \<Rightarrow> buf \<Rightarrow> ('c ext4_fs, unit) op" where
  "raw_write blk b fs = dev_write (fs_block_sector fs blk) (fs_block_sectors fs) b fs"

section \<open>Reading through the journal\<close>

definition jbd_extent_has :: "u32 \<Rightarrow> ext4_jbd_extent \<Rightarrow> bool" where
  "jbd_extent_has jblk e \<longleftrightarrow> je_logical e \<le> jblk \<and> jblk < je_logical e + je_length e"

definition jbd_log_phys :: "ext4_jbd \<Rightarrow> u32 \<Rightarrow> u64 option" where
  "jbd_log_phys j jblk =
     map_option (\<lambda>e. je_physical e + ucast (jblk - je_logical e))
       (find (jbd_extent_has jblk) (jbd_extents j))"

definition ext4_journal_read_log_block :: "'c ext4_fs \<Rightarrow> u32 \<Rightarrow> int + buf" where
  "ext4_journal_read_log_block fs jblk =
     (case jbd_log_phys (fs_jbd fs) jblk of None \<Rightarrow> Inl (-1) | Some phys \<Rightarrow> raw_read fs phys)"

definition ext4_journal_lookup :: "ext4_jbd \<Rightarrow> u64 \<Rightarrow> (u32 \<times> bool) option" where
  "ext4_journal_lookup j blk =
     (if \<not> jbd_replay_active j then None
      else map_option (\<lambda>e. (re_journal_blk e, re_is_escape e))
             (find (\<lambda>e. re_fs_block e = blk) (jbd_replay j)))"

text \<open>The journal stores a block that starts with the journal magic with its first word zeroed.\<close>

definition restore_magic :: "buf \<Rightarrow> buf" where
  "restore_magic b = b(0 := 0xC0, 1 := 0x3B, 2 := 0x39, 3 := 0x98)"

definition ext4_fs_read_block :: "'c ext4_fs \<Rightarrow> u64 \<Rightarrow> int + buf" where
  "ext4_fs_read_block fs blk =
     (case ext4_journal_lookup (fs_jbd fs) blk of
        Some (jblk, is_escape) \<Rightarrow>
          (case ext4_journal_read_log_block fs jblk of
             Inl rc \<Rightarrow> Inl rc
           | Inr b \<Rightarrow> Inr (if is_escape then restore_magic b else b))
      | None \<Rightarrow> raw_read fs blk)"

definition fs_read_block :: "u64 \<Rightarrow> ('c ext4_fs, buf) op" where
  "fs_read_block blk = readE (\<lambda>fs. ext4_fs_read_block fs blk)"

section \<open>Group descriptors on demand\<close>

definition ext4_fs_bgd_invalid :: u32 where "ext4_fs_bgd_invalid = 0xFFFFFFFF"

definition bgd_byte_in_partition :: "'c ext4_fs \<Rightarrow> u32 \<Rightarrow> u64" where
  "bgd_byte_in_partition fs grp =
     (if block_size fs > 1024 then 1 else 2) * ucast (block_size fs)
     + ucast grp * ucast (fs_bgd_size fs)"

text \<open>The result is the descriptor (the cache buffer from the entry's offset on), or the null
  pointer.\<close>

definition ext4_fs_bgd_get :: "u32 \<Rightarrow> 'c ext4_fs \<Rightarrow> buf option \<times> 'c ext4_fs" where
  "ext4_fs_bgd_get grp fs =
     (if fs_bgd_count fs \<le> grp then (None, fs)
      else
        let byte = bgd_byte_in_partition fs grp;
            fs_block = byte div ucast (block_size fs);
            off = unat (ucast (byte mod ucast (block_size fs)) :: u32)
        in if fs_bgd_cached_block fs = ucast fs_block then (Some (at (fs_bgd_buf fs) off), fs)
           else case ext4_fs_read_block fs fs_block of
                  Inl _ \<Rightarrow> (None, fs\<lparr>fs_bgd_cached_block := ext4_fs_bgd_invalid\<rparr>)
                | Inr b \<Rightarrow> (Some (at b off),
                            fs\<lparr>fs_bgd_buf := b, fs_bgd_cached_block := ucast fs_block\<rparr>))"

definition ext4_fs_bgd_invalidate :: "'c ext4_fs \<Rightarrow> 'c ext4_fs" where
  "ext4_fs_bgd_invalidate fs = fs\<lparr>fs_bgd_cached_block := ext4_fs_bgd_invalid\<rparr>"

text \<open>A caller that tests for the null pointer, and one that does not.\<close>

definition bgd_get_checked :: "u32 \<Rightarrow> int \<Rightarrow> ('c ext4_fs, buf) op" where
  "bgd_get_checked grp rc fs =
     (case ext4_fs_bgd_get grp fs of (None, fs') \<Rightarrow> (Inl rc, fs') | (Some b, fs') \<Rightarrow> (Inr b, fs'))"

definition bgd_get_unchecked :: "u32 \<Rightarrow> ('c ext4_fs, buf) op" where
  "bgd_get_unchecked grp = bgd_get_checked grp rc_trap"

section \<open>Reads leave everything but the descriptor cache alone\<close>

text \<open>Two states that differ at most in the descriptor cache.\<close>

definition same_but_bgd :: "'c ext4_fs \<Rightarrow> 'c ext4_fs \<Rightarrow> bool" where
  "same_but_bgd fs fs' \<longleftrightarrow>
     fs_bd fs' = fs_bd fs \<and> fs_partition_lba fs' = fs_partition_lba fs \<and> fs_sb fs' = fs_sb fs \<and>
     fs_bgd_count fs' = fs_bgd_count fs \<and> fs_bgd_size fs' = fs_bgd_size fs \<and> fs_jbd fs' = fs_jbd fs"

lemma same_but_bgd_refl [simp]: "same_but_bgd fs fs"
  by (simp add: same_but_bgd_def)

lemma same_but_bgd_trans: "same_but_bgd a b \<Longrightarrow> same_but_bgd b c \<Longrightarrow> same_but_bgd a c"
  by (simp add: same_but_bgd_def)

lemma reflp_same_but_bgd: "reflp same_but_bgd"
  by (rule reflpI) simp

lemma transp_same_but_bgd: "transp same_but_bgd"
  by (rule transpI) (rule same_but_bgd_trans)

lemma same_but_bgd_fields:
  assumes "same_but_bgd fs fs'"
  shows "fs_bd fs' = fs_bd fs" "fs_partition_lba fs' = fs_partition_lba fs" "fs_sb fs' = fs_sb fs"
    "fs_bgd_count fs' = fs_bgd_count fs" "fs_bgd_size fs' = fs_bgd_size fs" "fs_jbd fs' = fs_jbd fs"
  using assms by (auto simp: same_but_bgd_def)

lemma read_block_cong:
  assumes "fs_bd fs' = fs_bd fs" "fs_partition_lba fs' = fs_partition_lba fs" "fs_sb fs' = fs_sb fs"
    "fs_jbd fs' = fs_jbd fs"
  shows "ext4_fs_read_block fs' blk = ext4_fs_read_block fs blk"
    "raw_read fs' blk = raw_read fs blk"
proof -
  show r: "raw_read fs' blk = raw_read fs blk" for blk
    by (simp add: raw_read_def fs_block_sector_def fs_block_sectors_def fs_block_byte_def assms)
  show "ext4_fs_read_block fs' blk = ext4_fs_read_block fs blk"
    by (simp add: ext4_fs_read_block_def ext4_journal_read_log_block_def r assms
        split: option.split)
qed

lemma same_but_bgd_read:
  assumes "same_but_bgd fs fs'"
  shows "ext4_fs_read_block fs' blk = ext4_fs_read_block fs blk"
  using same_but_bgd_fields [OF assms] by (intro read_block_cong)

lemma bgd_get_same: "same_but_bgd fs (snd (ext4_fs_bgd_get grp fs))"
  by (simp add: ext4_fs_bgd_get_def Let_def same_but_bgd_def split: sum.split)

lemma keeps_bgd_get: "keeps same_but_bgd (bgd_get_checked grp rc)"
proof
  fix fs :: "'c ext4_fs"
  show "same_but_bgd fs (snd (bgd_get_checked grp rc fs))"
    using bgd_get_same [of fs grp]
    by (auto simp: bgd_get_checked_def split: prod.split option.split)
qed

lemma keeps_fs_read_block: "keeps same_but_bgd (fs_read_block blk)"
  by (auto simp: fs_read_block_def)

lemmas keeps_reads =
  keeps_bgd_get keeps_fs_read_block keeps_pure [OF reflp_same_but_bgd] keeps_orE keeps_tryE

section \<open>The descriptor cache is coherent\<close>

text \<open>
  The cache holds what a read of the cached block gives now (or nothing).  Then
  \<open>ext4_fs_bgd_get\<close> answers as if there were no cache.
\<close>

definition bgd_coherent :: "'c ext4_fs \<Rightarrow> bool" where
  "bgd_coherent fs \<longleftrightarrow> fs_bgd_cached_block fs = ext4_fs_bgd_invalid \<or>
     ext4_fs_read_block fs (ucast (fs_bgd_cached_block fs)) = Inr (fs_bgd_buf fs)"

definition bgd_block_of :: "'c ext4_fs \<Rightarrow> u32 \<Rightarrow> u64" where
  "bgd_block_of fs grp = bgd_byte_in_partition fs grp div ucast (block_size fs)"

definition bgd_off_of :: "'c ext4_fs \<Rightarrow> u32 \<Rightarrow> nat" where
  "bgd_off_of fs grp = unat (ucast (bgd_byte_in_partition fs grp mod ucast (block_size fs)) :: u32)"

definition bgd_uncached :: "'c ext4_fs \<Rightarrow> u32 \<Rightarrow> buf option" where
  "bgd_uncached fs grp =
     (if fs_bgd_count fs \<le> grp then None
      else case ext4_fs_read_block fs (bgd_block_of fs grp) of
             Inl _ \<Rightarrow> None | Inr b \<Rightarrow> Some (at b (bgd_off_of fs grp)))"

text \<open>The block number fits the 32-bit tag of the cache and is not the invalid tag.\<close>

definition bgd_tag_fits :: "'c ext4_fs \<Rightarrow> u32 \<Rightarrow> bool" where
  "bgd_tag_fits fs grp \<longleftrightarrow> unat (bgd_block_of fs grp) < 0xFFFFFFFF"

lemma ucast_tag:
  fixes b :: u64
  assumes "unat b < 0xFFFFFFFF"
  shows "ucast (ucast b :: u32) = b" "(ucast b :: u32) \<noteq> 0xFFFFFFFF"
proof -
  have u: "unat (ucast b :: u32) = unat b"
    using assms by (simp add: unsigned_ucast_eq take_bit_nat_eq_self)
  then show "ucast (ucast b :: u32) = b"
    using assms by (simp add: word_unat_eq_iff unsigned_ucast_eq unsigned_take_bit_eq take_bit_nat_eq_self)
  show "(ucast b :: u32) \<noteq> 0xFFFFFFFF"
    using u assms by (auto simp: word_unat_eq_iff)
qed

lemma bgd_get_coherent:
  assumes coh: "bgd_coherent fs" and fits: "bgd_tag_fits fs grp"
  shows "fst (ext4_fs_bgd_get grp fs) = bgd_uncached fs grp"
    "bgd_coherent (snd (ext4_fs_bgd_get grp fs))"
proof -
  note tag = ucast_tag [OF fits [unfolded bgd_tag_fits_def]]
  have rd: "ext4_fs_read_block (fs\<lparr>fs_bgd_buf := b, fs_bgd_cached_block := c\<rparr>) x
      = ext4_fs_read_block fs x" for b c x
    by (rule read_block_cong) simp_all
  have rd': "ext4_fs_read_block (fs\<lparr>fs_bgd_cached_block := c\<rparr>) x = ext4_fs_read_block fs x" for c x
    by (rule read_block_cong) simp_all
  show "fst (ext4_fs_bgd_get grp fs) = bgd_uncached fs grp"
    using coh tag
    by (auto simp: ext4_fs_bgd_get_def bgd_uncached_def bgd_coherent_def Let_def
        ext4_fs_bgd_invalid_def bgd_off_of_def bgd_block_of_def split: sum.split)
  show "bgd_coherent (snd (ext4_fs_bgd_get grp fs))"
    using coh tag
    by (auto simp: ext4_fs_bgd_get_def bgd_coherent_def Let_def rd rd'
        ext4_fs_bgd_invalid_def bgd_block_of_def split: sum.split)
qed

end
