(* ===== verification/Inode.thy ===== *)
theory Inode
  imports FsState Crc32c
begin

text \<open>
  src/ext4/inode.c: locating and reading an inode, and the inode checksum.  The parsed inode
  keeps the 60 bytes of \<open>i_block\<close> as a buffer that is zero beyond them.
\<close>

definition ext4_inode_flag_extents :: u32 where "ext4_inode_flag_extents = 0x00080000"
definition ext4_s_ifmt :: u16 where "ext4_s_ifmt = 0xF000"
definition ext4_s_ifreg :: u16 where "ext4_s_ifreg = 0x8000"
definition ext4_s_ifdir :: u16 where "ext4_s_ifdir = 0x4000"

record ext4_inode =
  i_mode :: u16
  i_size :: u64
  i_flags :: u32
  i_mtime :: u32
  i_block :: buf

section \<open>Locating an inode\<close>

definition ino_group :: "'c ext4_fs \<Rightarrow> u32 \<Rightarrow> u32" where
  "ino_group fs ino = (ino - 1) div s_inodes_per_group (fs_sb fs)"

definition ino_index :: "'c ext4_fs \<Rightarrow> u32 \<Rightarrow> u32" where
  "ino_index fs ino = (ino - 1) mod s_inodes_per_group (fs_sb fs)"

text \<open>A block number split into a low and, in 64-byte descriptors, a high word.\<close>

definition bgd_wide :: "'c ext4_fs \<Rightarrow> bool" where
  "bgd_wide fs \<longleftrightarrow> 64 \<le> fs_bgd_size fs"

definition bgd_block :: "'c ext4_fs \<Rightarrow> buf \<Rightarrow> nat \<Rightarrow> nat \<Rightarrow> u64" where
  "bgd_block fs bgd lo hi =
     push_bit 32 (ucast (if bgd_wide fs then le32 bgd hi else 0)) OR ucast (le32 bgd lo)"

definition inode_byte_in_table :: "'c ext4_fs \<Rightarrow> u32 \<Rightarrow> u64" where
  "inode_byte_in_table fs ino = ucast (ino_index fs ino) * ucast (s_inode_size (fs_sb fs))"

text \<open>The block that holds an inode and the inode's offset in it, from the group descriptor.\<close>

definition inode_place :: "'c ext4_fs \<Rightarrow> u32 \<Rightarrow> buf \<Rightarrow> u64 \<times> nat" where
  "inode_place fs ino bgd =
     (bgd_block fs bgd 0x08 0x28 + inode_byte_in_table fs ino div ucast (block_size fs),
      unat (ucast (inode_byte_in_table fs ino mod ucast (block_size fs)) :: u32))"

definition inode_parse :: "buf \<Rightarrow> ext4_inode" where
  "inode_parse raw =
     \<lparr>i_mode = le16 raw 0x00,
      i_size = push_bit 32 (ucast (le32 raw 0x6C)) OR ucast (le32 raw 0x04),
      i_flags = le32 raw 0x20,
      i_mtime = le32 raw 0x10,
      i_block = copy_bytes zero_buf 0 (at raw 0x28) 60\<rparr>"

definition ext4_inode_read :: "u32 \<Rightarrow> ('c ext4_fs, ext4_inode) op" where
  "ext4_inode_read ino =
     bindE (checkE (ino \<noteq> 0) (-1)) (\<lambda>_.
     bindE (getE fs_sb) (\<lambda>sb.
     bindE (checkE (s_inodes_per_group sb \<noteq> 0) (rc_trap)) (\<lambda>_.
     bindE (getE (\<lambda>fs. ino_group fs ino)) (\<lambda>grp.
     bindE (bgd_get_checked grp (-2)) (\<lambda>bgd.
     bindE (checkE (s_inode_size sb \<le> 1024) (-3)) (\<lambda>_.
     bindE (checkE (s_block_size sb \<le> 4096) (-4)) (\<lambda>_.
     bindE (getE (\<lambda>fs. inode_place fs ino bgd)) (\<lambda>(fs_block, offset_in_block).
     bindE (orE (fs_read_block fs_block) (-5)) (\<lambda>b.
     retE (inode_parse (at b offset_in_block)))))))))))"

lemma keeps_ext4_inode_read: "keeps same_but_bgd (ext4_inode_read ino)"
  unfolding ext4_inode_read_def
  by (auto intro!: keeps_bindE keeps_reads transp_same_but_bgd split: prod.split)

lemmas inode_read_same = keepsD [OF keeps_ext4_inode_read]

text \<open>What a successful read has established.\<close>

lemma ext4_inode_read_Inr:
  assumes "ext4_inode_read ino fs = (Inr inode, fs')"
  obtains bgd b blk off where
    "ino \<noteq> 0" "fst (ext4_fs_bgd_get (ino_group fs ino) fs) = Some bgd"
    "inode_place fs ino bgd = (blk, off)" "block_size fs \<le> 4096"
    "ext4_fs_read_block fs blk = Inr b" "inode = inode_parse (at b off)"
    "fs' = snd (ext4_fs_bgd_get (ino_group fs ino) fs)"
proof -
  obtain p fs1 where g: "ext4_fs_bgd_get (ino_group fs ino) fs = (p, fs1)" by fastforce
  have same: "same_but_bgd fs fs1" using bgd_get_same [of fs "ino_group fs ino"] g by simp
  note f = same_but_bgd_fields [OF same]
  have pl: "inode_place fs1 ino bgd = inode_place fs ino bgd" for bgd
    by (simp add: inode_place_def bgd_block_def inode_byte_in_table_def ino_index_def bgd_wide_def f)
  show ?thesis
    using assms g that
    by (auto simp: ext4_inode_read_def bindE_Inr_iff orE_Inr_iff bgd_get_checked_def
        fs_read_block_def pl same_but_bgd_read [OF same] split: option.splits if_splits prod.splits)
qed

section \<open>The inode checksum\<close>

definition metadata_csum :: "'c ext4_fs \<Rightarrow> bool" where
  "metadata_csum fs \<longleftrightarrow> s_feature_ro_compat (fs_sb fs) AND 0x400 \<noteq> 0"

definition le_bytes :: "u32 \<Rightarrow> byte list" where
  "le_bytes v = [ucast v, ucast (drop_bit 8 v), ucast (drop_bit 16 v), ucast (drop_bit 24 v)]"

definition inode_has_hi :: "'c ext4_fs \<Rightarrow> bool" where
  "inode_has_hi fs \<longleftrightarrow> 128 < s_inode_size (fs_sb fs)"

text \<open>The bytes of the inode at offset \<open>p\<close> of a block with the checksum fields zeroed.\<close>

definition inode_zero_csum :: "'c ext4_fs \<Rightarrow> buf \<Rightarrow> nat \<Rightarrow> buf" where
  "inode_zero_csum fs b p =
     (let b = b(p + 0x7C := 0, p + 0x7D := 0)
      in if inode_has_hi fs then b(p + 0x82 := 0, p + 0x83 := 0) else b)"

definition inode_csum :: "'c ext4_fs \<Rightarrow> u32 \<Rightarrow> buf \<Rightarrow> nat \<Rightarrow> u32" where
  "inode_csum fs ino b p =
     (let z = inode_zero_csum fs b p;
          crc = crc32c crc32c_init (s_uuid (fs_sb fs));
          crc = crc32c crc (le_bytes ino);
          crc = crc32c crc (le_bytes (le32 z (p + 0x64)))
      in crc32c crc (bytes_of z p (unat (s_inode_size (fs_sb fs)))))"

definition ext4_inode_recompute_csum :: "'c ext4_fs \<Rightarrow> u32 \<Rightarrow> buf \<Rightarrow> nat \<Rightarrow> buf" where
  "ext4_inode_recompute_csum fs ino b p =
     (if \<not> metadata_csum fs then b
      else
        let crc = inode_csum fs ino b p;
            b = b(p + 0x7C := ucast crc, p + 0x7D := ucast (drop_bit 8 crc))
        in if inode_has_hi fs
           then b(p + 0x82 := ucast (drop_bit 16 crc), p + 0x83 := ucast (drop_bit 24 crc))
           else b)"

text \<open>What a reader checks: the stored halves are the checksum of the inode.\<close>

definition inode_csum_valid :: "'c ext4_fs \<Rightarrow> u32 \<Rightarrow> buf \<Rightarrow> nat \<Rightarrow> bool" where
  "inode_csum_valid fs ino b p \<longleftrightarrow>
     le16 b (p + 0x7C) = ucast (inode_csum fs ino b p) \<and>
     (inode_has_hi fs \<longrightarrow> le16 b (p + 0x82) = ucast (drop_bit 16 (inode_csum fs ino b p)))"

lemma inode_zero_recompute:
  "inode_zero_csum fs (ext4_inode_recompute_csum fs ino b p) p = inode_zero_csum fs b p"
  by (auto simp: inode_zero_csum_def ext4_inode_recompute_csum_def Let_def fun_eq_iff)

lemma inode_csum_recompute:
  "inode_csum fs ino (ext4_inode_recompute_csum fs ino b p) p = inode_csum fs ino b p"
  by (simp add: inode_csum_def inode_zero_recompute)

lemma recompute_csum_outside:
  "i < p + 0x7C \<or> p + 0x84 \<le> i \<Longrightarrow> ext4_inode_recompute_csum fs ino b p i = b i"
  by (auto simp: ext4_inode_recompute_csum_def Let_def)

lemma recompute_csum_between:
  "p + 0x7E \<le> i \<Longrightarrow> i < p + 0x82 \<Longrightarrow> ext4_inode_recompute_csum fs ino b p i = b i"
  by (auto simp: ext4_inode_recompute_csum_def Let_def)

lemma le16_of_bytes: "ucast (ucast c :: byte) OR push_bit 8 (ucast (ucast (drop_bit 8 c) :: byte))
   = (ucast (c :: u32) :: u16)"
  by (rule bit_word_eqI) (auto simp: bit_simps dest: bit_imp_le_length)

lemma recompute_csum_valid:
  assumes "metadata_csum fs"
  shows "inode_csum_valid fs ino (ext4_inode_recompute_csum fs ino b p) p"
  using assms le16_of_bytes [of "inode_csum fs ino b p"]
    le16_of_bytes [of "drop_bit 16 (inode_csum fs ino b p)"]
  unfolding inode_csum_valid_def inode_csum_recompute
  by (auto simp: ext4_inode_recompute_csum_def Let_def le16_def drop_bit_drop_bit)

text \<open>\<open>inode_set_mtime_and_csum\<close> of src/ext4/extent.c.\<close>

definition inode_set_mtime_and_csum :: "'c ext4_fs \<Rightarrow> u32 \<Rightarrow> buf \<Rightarrow> nat \<Rightarrow> u32 \<Rightarrow> buf" where
  "inode_set_mtime_and_csum fs ino b p now =
     ext4_inode_recompute_csum fs ino (put_le32 b (p + 0x10) now) p"

end
