(* ===== verification/Extent.thy ===== *)
theory Extent
  imports Inode
begin

text \<open>
  The read side of src/ext4/extent.c: walking an extent tree from the inode's root node to the
  leaf that maps a logical block, and reading file blocks.  The walk follows child pointers with
  no bound, so it is a partial function: \<open>None\<close> is a walk that never returns.
\<close>

definition ext4_ext_magic :: u16 where "ext4_ext_magic = 0xF30A"

section \<open>Nodes\<close>

definition ext_entry :: "nat \<Rightarrow> nat" where
  "ext_entry i = 12 + i * 12"

definition node_entries :: "buf \<Rightarrow> nat" where
  "node_entries node = unat (le16 node 2)"

text \<open>A leaf entry: first logical block, length without the \<open>uninitialized\<close> bit, first
  physical block.\<close>

definition leaf_logical :: "buf \<Rightarrow> nat \<Rightarrow> u32" where
  "leaf_logical node i = le32 node (ext_entry i)"

definition leaf_real_len :: "buf \<Rightarrow> nat \<Rightarrow> u16" where
  "leaf_real_len node i = le16 node (ext_entry i + 4) AND 0x7FFF"

definition leaf_phys :: "buf \<Rightarrow> nat \<Rightarrow> u64" where
  "leaf_phys node i =
     push_bit 32 (ucast (le16 node (ext_entry i + 6))) OR ucast (le32 node (ext_entry i + 8))"

definition leaf_maps :: "buf \<Rightarrow> u32 \<Rightarrow> nat \<Rightarrow> bool" where
  "leaf_maps node logical i \<longleftrightarrow>
     leaf_logical node i \<le> logical \<and>
     logical < leaf_logical node i + ucast (leaf_real_len node i)"

definition leaf_lookup :: "buf \<Rightarrow> u32 \<Rightarrow> int + u64" where
  "leaf_lookup node logical =
     (case find (leaf_maps node logical) [0..<node_entries node] of
        None \<Rightarrow> Inl (-2)
      | Some i \<Rightarrow> Inr (leaf_phys node i + ucast (logical - leaf_logical node i)))"

text \<open>An index node: the child with the greatest first block not above the one sought.\<close>

definition index_child :: "buf \<Rightarrow> nat \<Rightarrow> u64" where
  "index_child node i =
     push_bit 32 (ucast (le16 node (ext_entry i + 8))) OR ucast (le32 node (ext_entry i + 4))"

definition index_step :: "buf \<Rightarrow> u32 \<Rightarrow> (u32 \<times> u64) option \<Rightarrow> nat \<Rightarrow> (u32 \<times> u64) option" where
  "index_step node logical best i =
     (let idx_logical = le32 node (ext_entry i)
      in if idx_logical \<le> logical \<and> (case best of None \<Rightarrow> True | Some (bl, _) \<Rightarrow> bl < idx_logical)
         then Some (idx_logical, index_child node i) else best)"

definition index_lookup :: "buf \<Rightarrow> u32 \<Rightarrow> u64 option" where
  "index_lookup node logical =
     map_option snd (foldl (index_step node logical) None [0..<node_entries node])"

section \<open>The walk\<close>

partial_function (option) extent_walk :: "'c ext4_fs \<Rightarrow> buf \<Rightarrow> u32 \<Rightarrow> (int + u64) option" where
  "extent_walk fs node logical =
     (if le16 node 0 \<noteq> ext4_ext_magic then Some (Inl (-1))
      else if le16 node 6 = 0 then Some (leaf_lookup node logical)
      else case index_lookup node logical of
             None \<Rightarrow> Some (Inl (-3))
           | Some next \<Rightarrow>
               (case ext4_fs_read_block fs next of
                  Inl _ \<Rightarrow> Some (Inl (-5))
                | Inr node_buf \<Rightarrow> extent_walk fs node_buf logical))"

definition ext4_extent_lookup :: "'c ext4_fs \<Rightarrow> buf \<Rightarrow> u32 \<Rightarrow> (int + u64) option" where
  "ext4_extent_lookup fs node logical =
     (if 4096 < block_size fs then Some (Inl (-10)) else extent_walk fs node logical)"

text \<open>The lookup as a step of an operation; a walk that never returns is \<open>rc_hang\<close>.\<close>

definition extent_lookup_res :: "'c ext4_fs \<Rightarrow> buf \<Rightarrow> u32 \<Rightarrow> int + u64" where
  "extent_lookup_res fs node logical =
     (case ext4_extent_lookup fs node logical of None \<Rightarrow> Inl rc_hang | Some r \<Rightarrow> r)"

definition extent_lookup :: "buf \<Rightarrow> u32 \<Rightarrow> ('c ext4_fs, u64) op" where
  "extent_lookup node logical = readE (\<lambda>fs. extent_lookup_res fs node logical)"

definition ext4_file_read_block :: "'c ext4_fs \<Rightarrow> ext4_inode \<Rightarrow> u32 \<Rightarrow> int + buf" where
  "ext4_file_read_block fs inode logical =
     (case extent_lookup_res fs (i_block inode) logical of
        Inl rc \<Rightarrow> Inl rc | Inr phys \<Rightarrow> ext4_fs_read_block fs phys)"

text \<open>\<open>ext4_file_read_head\<close>: the first \<open>len\<close> bytes, block by block.\<close>

fun read_head_loop :: "'c ext4_fs \<Rightarrow> ext4_inode \<Rightarrow> nat \<Rightarrow> nat \<Rightarrow> nat \<Rightarrow> buf \<Rightarrow> int + buf" where
  "read_head_loop fs inode len nblocks 0 out = Inr out"
| "read_head_loop fs inode len nblocks (Suc k) out =
     (let i = nblocks - Suc k; bs = bs_nat fs
      in case ext4_file_read_block fs inode (word_of_nat i) of
           Inl rc \<Rightarrow> Inl rc
         | Inr blk \<Rightarrow>
             let copy_len = (if i = nblocks - 1 then len - i * bs else bs)
             in read_head_loop fs inode len nblocks k (copy_bytes out (i * bs) blk copy_len))"

definition ext4_file_read_head :: "'c ext4_fs \<Rightarrow> ext4_inode \<Rightarrow> u32 \<Rightarrow> buf \<Rightarrow> int + (nat \<times> buf)" where
  "ext4_file_read_head fs inode len out =
     (let len = (if i_size inode < ucast len then ucast (i_size inode) else len)
      in if 4096 < block_size fs then Inl (-1)
         else let nblocks = unat ((len + block_size fs - 1) div block_size fs)
              in case read_head_loop fs inode (unat len) nblocks nblocks out of
                   Inl rc \<Rightarrow> Inl rc | Inr out \<Rightarrow> Inr (unat len, out))"

section \<open>Leaves\<close>

lemma find_upt_None: "(find P [0..<n] = None) = (\<forall>i<n. \<not> P i)"
  by (auto simp: find_None_iff)

lemma find_upt_Some:
  "(find P [0..<n] = Some i) = (i < n \<and> P i \<and> (\<forall>j<i. \<not> P j))"
  by (auto simp: find_Some_iff)

lemma leaf_lookup_hit:
  assumes "i < node_entries node" "leaf_maps node logical i" "\<forall>j<i. \<not> leaf_maps node logical j"
  shows "leaf_lookup node logical = Inr (leaf_phys node i + ucast (logical - leaf_logical node i))"
proof -
  have "find (leaf_maps node logical) [0..<node_entries node] = Some i"
    using assms by (simp add: find_upt_Some)
  then show ?thesis by (simp add: leaf_lookup_def)
qed

lemma leaf_lookup_miss:
  "(leaf_lookup node logical = Inl (-2)) = (\<forall>i<node_entries node. \<not> leaf_maps node logical i)"
proof (cases "find (leaf_maps node logical) [0..<node_entries node]")
  case None
  then have "leaf_lookup node logical = Inl (-2)" by (simp add: leaf_lookup_def)
  with None show ?thesis by (simp add: find_upt_None)
next
  case (Some i)
  then have "leaf_lookup node logical \<noteq> Inl (-2)" by (simp add: leaf_lookup_def)
  with Some show ?thesis by (auto simp: find_upt_Some)
qed

lemma leaf_lookup_cases:
  "leaf_lookup node logical = Inl (-2) \<or> (\<exists>p. leaf_lookup node logical = Inr p)"
  by (auto simp: leaf_lookup_def split: option.splits)

lemma extent_walk_leaf:
  "le16 node 0 = ext4_ext_magic \<Longrightarrow> le16 node 6 = 0 \<Longrightarrow>
   extent_walk fs node logical = Some (leaf_lookup node logical)"
  by (simp add: extent_walk.simps)

section \<open>Index nodes\<close>

text \<open>The chosen child: its first block is at most the one sought and no candidate is closer.\<close>

definition index_best :: "buf \<Rightarrow> u32 \<Rightarrow> nat list \<Rightarrow> (u32 \<times> u64) option \<Rightarrow> bool" where
  "index_best node l is r \<longleftrightarrow>
     (case r of
        None \<Rightarrow> \<forall>i\<in>set is. l < le32 node (ext_entry i)
      | Some (bl, c) \<Rightarrow>
          (\<exists>i\<in>set is. bl = le32 node (ext_entry i) \<and> c = index_child node i) \<and> bl \<le> l \<and>
          (\<forall>i\<in>set is. le32 node (ext_entry i) \<le> l \<longrightarrow> le32 node (ext_entry i) \<le> bl))"

lemma index_step_best:
  "index_best node l is r \<Longrightarrow> index_best node l (is @ [i]) (index_step node l r i)"
  by (cases r) (auto simp: index_best_def index_step_def Let_def not_le not_less split: prod.splits)

lemma index_fold_best: "index_best node l is (foldl (index_step node l) None is)"
proof (induction "is" rule: rev_induct)
  case Nil
  then show ?case by (simp add: index_best_def)
next
  case (snoc i "is")
  then show ?case using index_step_best by simp
qed

lemma index_lookup_Some:
  assumes "index_lookup node l = Some c"
  shows "\<exists>i<node_entries node. c = index_child node i \<and> le32 node (ext_entry i) \<le> l \<and>
    (\<forall>j<node_entries node. le32 node (ext_entry j) \<le> l \<longrightarrow> le32 node (ext_entry j) \<le> le32 node (ext_entry i))"
proof -
  obtain bl where "foldl (index_step node l) None [0..<node_entries node] = Some (bl, c)"
    using assms by (auto simp: index_lookup_def)
  with index_fold_best [of node l "[0..<node_entries node]"]
  have "index_best node l [0..<node_entries node] (Some (bl, c))" by simp
  then show ?thesis
    by (auto simp: index_best_def Bex_def)
qed

lemma index_lookup_None:
  "(index_lookup node l = None) = (\<forall>i<node_entries node. l < le32 node (ext_entry i))"
  using index_fold_best [of node l "[0..<node_entries node]"]
  by (cases "foldl (index_step node l) None [0..<node_entries node]")
    (auto simp: index_lookup_def index_best_def not_less)

section \<open>Termination\<close>

text \<open>
  A tree whose depth field goes down by one from each node to its children (as the format
  requires) is walked in that many steps.
\<close>

fun depth_ok :: "'c ext4_fs \<Rightarrow> nat \<Rightarrow> buf \<Rightarrow> u32 \<Rightarrow> bool" where
  "depth_ok fs 0 node l = (le16 node 0 = ext4_ext_magic \<longrightarrow> le16 node 6 = 0)"
| "depth_ok fs (Suc d) node l =
     (le16 node 0 = ext4_ext_magic \<longrightarrow> le16 node 6 \<noteq> 0 \<longrightarrow>
       (case index_lookup node l of None \<Rightarrow> True
        | Some c \<Rightarrow> (case ext4_fs_read_block fs c of Inl _ \<Rightarrow> True | Inr b \<Rightarrow> depth_ok fs d b l)))"

lemma extent_walk_terminates:
  "depth_ok fs d node l \<Longrightarrow> \<exists>r. extent_walk fs node l = Some r"
proof (induction d arbitrary: node)
  case 0
  then show ?case by (auto simp: extent_walk.simps)
next
  case (Suc d)
  show ?case
  proof (cases "le16 node 0 = ext4_ext_magic \<and> le16 node 6 \<noteq> 0")
    case False
    then show ?thesis by (auto simp: extent_walk.simps [of fs node])
  next
    case True
    show ?thesis
    proof (cases "index_lookup node l")
      case None
      with True show ?thesis by (simp add: extent_walk.simps [of fs node])
    next
      case (Some c)
      show ?thesis
      proof (cases "ext4_fs_read_block fs c")
        case (Inl e)
        with True Some show ?thesis by (simp add: extent_walk.simps [of fs node])
      next
        case (Inr b)
        with Suc.prems True Some have "depth_ok fs d b l" by simp
        from Suc.IH [OF this] True Some Inr show ?thesis by (simp add: extent_walk.simps [of fs node])
      qed
    qed
  qed
qed

text \<open>A node that is its own child is walked for ever.\<close>

lemma extent_walk_self_loop:
  assumes "le16 node 0 = ext4_ext_magic" "le16 node 6 \<noteq> 0" "index_lookup node l = Some c"
    "ext4_fs_read_block fs c = Inr node"
  shows "extent_walk fs node l = None"
proof (rule ccontr)
  assume "extent_walk fs node l \<noteq> None"
  then obtain r where r: "extent_walk fs node l = Some r" by auto
  have "\<not> (n = node \<and> m = l \<and> f = fs)" if "extent_walk f n m = Some r" for f n m
  proof (rule extent_walk.raw_induct
      [where P = "\<lambda>f n m r. \<not> (n = node \<and> m = l \<and> f = fs)", OF _ that])
    fix walk f n m r
    assume IH: "\<And>f n m r. walk f n m = Some r \<Longrightarrow> \<not> (n = node \<and> m = l \<and> f = fs)"
      and eq: "(if le16 n 0 \<noteq> ext4_ext_magic then Some (Inl (-1))
        else if le16 n 6 = 0 then Some (leaf_lookup n m)
        else case index_lookup n m of None \<Rightarrow> Some (Inl (-3))
          | Some next \<Rightarrow> (case ext4_fs_read_block f next of Inl _ \<Rightarrow> Some (Inl (-5))
               | Inr node_buf \<Rightarrow> walk f node_buf m)) = Some r"
    show "\<not> (n = node \<and> m = l \<and> f = fs)"
    proof
      assume "n = node \<and> m = l \<and> f = fs"
      with eq assms have "walk fs node l = Some r" by simp
      with IH show False by blast
    qed
  qed
  with r show False by blast
qed

lemma keeps_extent_lookup: "keeps same_but_bgd (extent_lookup node l)"
  by (auto simp: extent_lookup_def)

lemma same_but_bgd_raw_read:
  "same_but_bgd fs fs' \<Longrightarrow> ext4_fs_read_block fs' = ext4_fs_read_block fs"
  by (rule ext) (rule same_but_bgd_read)

text \<open>Reading depends on the volume and not on the descriptor cache.\<close>

lemma extent_walk_cong:
  fixes f g :: "'c ext4_fs"
  assumes "extent_walk f node l = Some r" "ext4_fs_read_block g = ext4_fs_read_block f"
  shows "extent_walk g node l = Some r"
proof -
  have "\<forall>g :: 'c ext4_fs. ext4_fs_read_block g = ext4_fs_read_block f \<longrightarrow> extent_walk g node l = Some r"
  proof (rule extent_walk.raw_induct
      [where P = "\<lambda>f node l r. \<forall>g :: 'c ext4_fs. ext4_fs_read_block g = ext4_fs_read_block f \<longrightarrow> extent_walk g node l = Some r",
       OF _ assms(1)], intro allI impI)
    fix walk :: "'c ext4_fs \<Rightarrow> buf \<Rightarrow> u32 \<Rightarrow> (int + u64) option" and f g :: "'c ext4_fs" and n m r
    assume IH: "\<And>f n m r. walk f n m = Some r \<Longrightarrow>
        \<forall>g :: 'c ext4_fs. ext4_fs_read_block g = ext4_fs_read_block f \<longrightarrow> extent_walk g n m = Some r"
      and eq: "(if le16 n 0 \<noteq> ext4_ext_magic then Some (Inl (-1))
        else if le16 n 6 = 0 then Some (leaf_lookup n m)
        else case index_lookup n m of None \<Rightarrow> Some (Inl (-3))
          | Some next \<Rightarrow> (case ext4_fs_read_block f next of Inl _ \<Rightarrow> Some (Inl (-5))
               | Inr node_buf \<Rightarrow> walk f node_buf m)) = Some r"
      and g: "ext4_fs_read_block g = ext4_fs_read_block f"
    show "extent_walk g n m = Some r"
      using eq g by (subst extent_walk.simps)
        (auto split: if_splits option.splits sum.splits dest: IH [rule_format, OF _ g])
  qed
  with assms(2) show ?thesis by blast
qed

lemma extent_lookup_same:
  assumes "same_but_bgd fs fs'"
  shows "extent_lookup_res fs' = extent_lookup_res fs"
proof -
  have r: "ext4_fs_read_block fs' = ext4_fs_read_block fs" by (rule same_but_bgd_raw_read [OF assms])
  have "extent_walk fs' n l = extent_walk fs n l" for n l
    using extent_walk_cong [of fs n l _ fs'] extent_walk_cong [of fs' n l _ fs] r
    by (cases "extent_walk fs n l"; cases "extent_walk fs' n l") auto
  then show ?thesis
    using same_but_bgd_fields [OF assms] by (simp add: fun_eq_iff extent_lookup_res_def ext4_extent_lookup_def)
qed

lemma file_block_same: "same_but_bgd fs fs' \<Longrightarrow> ext4_file_read_block fs' = ext4_file_read_block fs"
  by (intro ext) (simp only: ext4_file_read_block_def extent_lookup_same same_but_bgd_raw_read)

lemma read_head_loop_0: "read_head_loop fs inode 0 0 0 out = Inr out"
  by simp

end
