(* ===== verification/Dir.thy ===== *)
theory Dir
  imports Extent
begin

text \<open>
  src/ext4/dir.c: iterating over the entries of a directory with a callback, looking one name up,
  and resolving a path.  A directory block is a chain of records; \<open>dir_entries\<close> is the list of
  the live ones, the reference against which the walkers are proved.
\<close>

record ext4_dir_entry =
  de_inode :: u32
  de_file_type :: byte
  de_name_len :: byte
  de_name :: "byte list"

section \<open>Records of a directory block\<close>

definition rec_len_at :: "buf \<Rightarrow> nat \<Rightarrow> nat" where
  "rec_len_at blk off = unat (le16 blk (off + 4))"

definition name_len_at :: "buf \<Rightarrow> nat \<Rightarrow> nat" where
  "name_len_at blk off = unat (blk (off + 6))"

definition ino_at :: "buf \<Rightarrow> nat \<Rightarrow> u32" where
  "ino_at blk off = le32 blk off"

definition entry_at :: "buf \<Rightarrow> nat \<Rightarrow> ext4_dir_entry" where
  "entry_at blk off =
     \<lparr>de_inode = ino_at blk off, de_file_type = blk (off + 7), de_name_len = blk (off + 6),
      de_name = bytes_of blk (off + 8) (name_len_at blk off)\<rparr>"

text \<open>The walk may take the record at \<open>off\<close>: its header and its length lie in the block.\<close>

definition rec_ok :: "buf \<Rightarrow> nat \<Rightarrow> nat \<Rightarrow> bool" where
  "rec_ok blk bs off \<longleftrightarrow>
     off + 8 \<le> bs \<and> \<not> (rec_len_at blk off < 8 \<or> bs - off < rec_len_at blk off)"

definition entry_live :: "buf \<Rightarrow> nat \<Rightarrow> bool" where
  "entry_live blk off \<longleftrightarrow>
     ino_at blk off \<noteq> 0 \<and> 0 < name_len_at blk off \<and> name_len_at blk off + 8 \<le> rec_len_at blk off"

lemma rec_ok_step: "rec_ok blk bs off \<Longrightarrow> bs - (off + rec_len_at blk off) < bs - off"
  by (auto simp: rec_ok_def)

section \<open>Iteration with a callback\<close>

function dir_scan ::
  "buf \<Rightarrow> nat \<Rightarrow> (ext4_dir_entry \<Rightarrow> 'u \<Rightarrow> int \<times> 'u) \<Rightarrow> nat \<Rightarrow> 'u \<Rightarrow> int \<times> 'u" where
  "dir_scan blk bs cb off u =
     (if \<not> rec_ok blk bs off then (0, u)
      else if entry_live blk off then
        (case cb (entry_at blk off) u of
           (r, u') \<Rightarrow> if r \<noteq> 0 then (r, u') else dir_scan blk bs cb (off + rec_len_at blk off) u')
      else dir_scan blk bs cb (off + rec_len_at blk off) u)"
  by pat_completeness auto
termination
  by (relation "measure (\<lambda>(blk, bs, cb, off, u). bs - off)") (auto dest: rec_ok_step)

declare dir_scan.simps [simp del]

fun dir_iter_loop ::
  "'c ext4_fs \<Rightarrow> ext4_inode \<Rightarrow> (ext4_dir_entry \<Rightarrow> 'u \<Rightarrow> int \<times> 'u) \<Rightarrow> u32 list \<Rightarrow> 'u \<Rightarrow> int \<times> 'u" where
  "dir_iter_loop fs dir cb [] u = (0, u)"
| "dir_iter_loop fs dir cb (b # rest) u =
     (case ext4_file_read_block fs dir b of
        Inl rc \<Rightarrow> (rc, u)
      | Inr blk \<Rightarrow>
          (case dir_scan blk (bs_nat fs) cb 0 u of
             (r, u') \<Rightarrow> if r \<noteq> 0 then (r, u') else dir_iter_loop fs dir cb rest u'))"

definition dir_block_count :: "'c ext4_fs \<Rightarrow> ext4_inode \<Rightarrow> u32" where
  "dir_block_count fs dir =
     ucast ((i_size dir + ucast (block_size fs) - 1) div ucast (block_size fs))"

definition dir_block_numbers :: "'c ext4_fs \<Rightarrow> ext4_inode \<Rightarrow> u32 list" where
  "dir_block_numbers fs dir = map word_of_nat [0..<unat (dir_block_count fs dir)]"

definition ext4_dir_iter ::
  "'c ext4_fs \<Rightarrow> ext4_inode \<Rightarrow> (ext4_dir_entry \<Rightarrow> 'u \<Rightarrow> int \<times> 'u) \<Rightarrow> 'u \<Rightarrow> int \<times> 'u" where
  "ext4_dir_iter fs dir cb u =
     (if 4096 < block_size fs then (-1, u)
      else dir_iter_loop fs dir cb (dir_block_numbers fs dir) u)"

section \<open>Looking a name up\<close>

definition lookup_cb :: "byte list \<Rightarrow> ext4_dir_entry \<Rightarrow> u32 \<Rightarrow> int \<times> u32" where
  "lookup_cb target e found =
     (if unat (de_name_len e) = length target \<and> de_name e = target then (1, de_inode e)
      else (0, found))"

definition ext4_dir_lookup :: "'c ext4_fs \<Rightarrow> ext4_inode \<Rightarrow> byte list \<Rightarrow> u32" where
  "ext4_dir_lookup fs dir name =
     (if length name = 0 \<or> 255 < length name then 0
      else snd (ext4_dir_iter fs dir (lookup_cb name) 0))"

section \<open>Resolving a path\<close>

definition slash :: byte where "slash = 0x2F"

abbreviation skip_slashes :: "byte list \<Rightarrow> byte list" where
  "skip_slashes \<equiv> dropWhile (\<lambda>c. c = slash)"

text \<open>The characters of the path up to its terminating zero, after any leading slashes.\<close>

function path_walk :: "u32 \<Rightarrow> byte list \<Rightarrow> 'c ext4_fs \<Rightarrow> u32 \<times> 'c ext4_fs" where
  "path_walk cur_ino p fs =
     (if p = [] then (cur_ino, fs)
      else
        let seg = takeWhile (\<lambda>c. c \<noteq> slash) p; rest = dropWhile (\<lambda>c. c \<noteq> slash) p
        in if seg = [] then (cur_ino, fs)
           else if 256 \<le> length seg then (0, fs)
           else case ext4_inode_read cur_ino fs of
                  (Inl _, fs) \<Rightarrow> (0, fs)
                | (Inr inode, fs) \<Rightarrow>
                    if i_mode inode AND ext4_s_ifmt \<noteq> ext4_s_ifdir then (0, fs)
                    else let cur_ino = ext4_dir_lookup fs inode seg
                         in if cur_ino = 0 then (0, fs)
                            else path_walk cur_ino (skip_slashes rest) fs)"
  by pat_completeness auto
termination
proof (relation "measure (\<lambda>(cur, p, fs). length p)", goal_cases)
  case 1
  show ?case by simp
next
  case (2 cur_ino p fs seg rest)
  have "length (skip_slashes rest) \<le> length rest" by (rule length_dropWhile_le)
  moreover have "length p = length seg + length rest"
    using 2 by (metis length_append takeWhile_dropWhile_id)
  moreover have "0 < length seg" using 2 by simp
  ultimately have "length (skip_slashes rest) < length p" by linarith
  then show ?case by simp
qed

declare path_walk.simps [simp del]

definition ext4_path_lookup :: "byte list \<Rightarrow> 'c ext4_fs \<Rightarrow> u32 \<times> 'c ext4_fs" where
  "ext4_path_lookup path fs = path_walk 2 (skip_slashes path) fs"

text \<open>Resolving a path leaves the volume alone.\<close>

lemma path_walk_same: "same_but_bgd fs (snd (path_walk cur p fs))"
proof (induction cur p fs rule: path_walk.induct)
  case (1 cur p fs)
  obtain r fs1 where r: "ext4_inode_read cur fs = (r, fs1)" by fastforce
  note s = inode_read_same [OF r]
  show ?case
    using s "1.IH" [OF _ refl refl _ _ r [symmetric]] r
    by (subst path_walk.simps) (auto simp: Let_def split: sum.split intro: same_but_bgd_trans)
qed

section \<open>The live entries, as a list\<close>

function dir_entries :: "buf \<Rightarrow> nat \<Rightarrow> nat \<Rightarrow> ext4_dir_entry list" where
  "dir_entries blk bs off =
     (if \<not> rec_ok blk bs off then []
      else (if entry_live blk off then [entry_at blk off] else [])
           @ dir_entries blk bs (off + rec_len_at blk off))"
  by pat_completeness auto
termination
  by (relation "measure (\<lambda>(blk, bs, off). bs - off)") (auto dest: rec_ok_step)

declare dir_entries.simps [simp del]

text \<open>A callback run over a list of entries, stopping at the first non-zero answer.\<close>

fun cb_run :: "(ext4_dir_entry \<Rightarrow> 'u \<Rightarrow> int \<times> 'u) \<Rightarrow> ext4_dir_entry list \<Rightarrow> 'u \<Rightarrow> int \<times> 'u" where
  "cb_run cb [] u = (0, u)"
| "cb_run cb (e # es) u = (case cb e u of (r, u') \<Rightarrow> if r \<noteq> 0 then (r, u') else cb_run cb es u')"

lemma dir_scan_entries: "dir_scan blk bs cb off u = cb_run cb (dir_entries blk bs off) u"
proof (induction blk bs cb off u rule: dir_scan.induct)
  case (1 blk bs cb off u)
  show ?case
  proof (cases "rec_ok blk bs off")
    case False
    then show ?thesis by (simp add: dir_scan.simps dir_entries.simps)
  next
    case ok: True
    show ?thesis
    proof (cases "entry_live blk off")
      case False
      with ok "1.IH"(2) show ?thesis
        by (simp add: dir_scan.simps [of blk bs cb off u] dir_entries.simps [of blk bs off])
    next
      case True
      obtain r u' where cb: "cb (entry_at blk off) u = (r, u')" by fastforce
      have "r = 0 \<Longrightarrow> dir_scan blk bs cb (off + rec_len_at blk off) u' =
          cb_run cb (dir_entries blk bs (off + rec_len_at blk off)) u'"
        using "1.IH"(1) ok True cb by simp
      with ok True cb show ?thesis
        by (simp add: dir_scan.simps [of blk bs cb off u] dir_entries.simps [of blk bs off])
    qed
  qed
qed

lemma cb_run_append:
  "cb_run cb (xs @ ys) u = (case cb_run cb xs u of (r, u') \<Rightarrow> if r \<noteq> 0 then (r, u') else cb_run cb ys u')"
  by (induction xs arbitrary: u) (auto split: prod.split)

text \<open>The entries of a directory, block after block, up to the first block that cannot be read.\<close>

fun dir_listing :: "'c ext4_fs \<Rightarrow> ext4_inode \<Rightarrow> u32 list \<Rightarrow> ext4_dir_entry list" where
  "dir_listing fs dir [] = []"
| "dir_listing fs dir (b # rest) =
     (case ext4_file_read_block fs dir b of
        Inl _ \<Rightarrow> [] | Inr blk \<Rightarrow> dir_entries blk (bs_nat fs) 0 @ dir_listing fs dir rest)"

lemma dir_listing_same:
  assumes "same_but_bgd fs fs'"
  shows "dir_listing fs' dir bs = dir_listing fs dir bs" "dir_block_numbers fs' dir = dir_block_numbers fs dir"
proof -
  note f = same_but_bgd_fields [OF assms] file_block_same [OF assms]
  show "dir_listing fs' dir bs = dir_listing fs dir bs" by (induction bs) (simp_all add: f split: sum.split)
  show "dir_block_numbers fs' dir = dir_block_numbers fs dir" by (simp add: dir_block_numbers_def dir_block_count_def f)
qed

lemma dir_iter_loop_state:
  "snd (dir_iter_loop fs dir cb bl u) = snd (cb_run cb (dir_listing fs dir bl) u)"
  by (induction fs dir cb bl u rule: dir_iter_loop.induct)
    (auto simp: dir_scan_entries cb_run_append split: sum.split prod.split)

lemma cb_run_lookup:
  "cb_run (lookup_cb name) es d =
     (case find (\<lambda>e. unat (de_name_len e) = length name \<and> de_name e = name) es of
        None \<Rightarrow> (0, d) | Some e \<Rightarrow> (1, de_inode e))"
  by (induction es) (simp_all add: lookup_cb_def)

lemma ext4_dir_lookup_listing:
  assumes "0 < length name" "length name \<le> 255" "block_size fs \<le> 4096"
  shows "ext4_dir_lookup fs dir name =
    (case find (\<lambda>e. unat (de_name_len e) = length name \<and> de_name e = name)
            (dir_listing fs dir (dir_block_numbers fs dir)) of
       None \<Rightarrow> 0 | Some e \<Rightarrow> de_inode e)"
  using assms
  by (simp add: ext4_dir_lookup_def ext4_dir_iter_def dir_iter_loop_state cb_run_lookup
      not_less [symmetric] split: option.split)

section \<open>A block is determined by its bytes\<close>

lemma record_cong:
  assumes "\<And>i. off \<le> i \<Longrightarrow> i < off + 8 \<Longrightarrow> b i = c i"
  shows "rec_len_at b off = rec_len_at c off" "name_len_at b off = name_len_at c off"
    "ino_at b off = ino_at c off" "rec_ok b bs off = rec_ok c bs off"
    "entry_live b off = entry_live c off"
proof -
  show r: "rec_len_at b off = rec_len_at c off" "name_len_at b off = name_len_at c off"
    "ino_at b off = ino_at c off"
    by (auto simp: rec_len_at_def name_len_at_def ino_at_def
        intro!: arg_cong [where f = unat] le16_cong le32_cong assms)
  show "rec_ok b bs off = rec_ok c bs off" "entry_live b off = entry_live c off"
    by (simp_all add: rec_ok_def entry_live_def r)
qed

lemma entry_at_cong:
  assumes "\<And>i. off \<le> i \<Longrightarrow> i < off + 8 + name_len_at b off \<Longrightarrow> b i = c i"
  shows "entry_at b off = entry_at c off"
proof -
  have h: "name_len_at b off = name_len_at c off" "ino_at b off = ino_at c off"
    by (intro record_cong assms; simp)+
  then show ?thesis
    using assms by (auto simp: entry_at_def intro!: bytes_of_cong)
qed

lemma dir_entries_cong:
  assumes "\<And>i. off \<le> i \<Longrightarrow> i < bs \<Longrightarrow> b i = c i"
  shows "dir_entries b bs off = dir_entries c bs off"
  using assms
proof (induction b bs off rule: dir_entries.induct)
  case (1 b bs off)
  show ?case
  proof (cases "off + 8 \<le> bs")
    case False
    then have "\<not> rec_ok b bs off" "\<not> rec_ok c bs off" by (simp_all add: rec_ok_def)
    then show ?thesis by (simp add: dir_entries.simps)
  next
    case True
    have h: "rec_len_at b off = rec_len_at c off" "rec_ok b bs off = rec_ok c bs off"
      "entry_live b off = entry_live c off"
      using True by (intro record_cong "1.prems"; simp)+
    show ?thesis
    proof (cases "rec_ok b bs off")
      case False
      with h show ?thesis by (simp add: dir_entries.simps)
    next
      case ok: True
      have e: "entry_at b off = entry_at c off" if "entry_live b off"
        using ok that by (intro entry_at_cong "1.prems") (auto simp: rec_ok_def entry_live_def)
      have "dir_entries b bs (off + rec_len_at b off) = dir_entries c bs (off + rec_len_at b off)"
        using ok by (intro "1.IH" "1.prems") auto
      with h e ok show ?thesis
        by (simp add: dir_entries.simps [of b bs off] dir_entries.simps [of c bs off])
    qed
  qed
qed

end
