(* ===== verification/DirBlock.thy ===== *)
theory DirBlock
  imports Dir
begin

text \<open>
  The write side of a directory block in src/ext4/extent.c: finding room for a new record,
  finding a record by inode number, writing a record, taking one out, and the checksum record at
  the end of the block.  The results the C code leaves in the file-level variables
  \<open>s_dir_slot_off\<close>, \<open>s_dir_slot_rec\<close>, \<open>s_dir_entry_off\<close> and \<open>s_dir_prev_off\<close> are returned.

  The lemmas say what these do to the list of live entries: an insertion adds one entry and
  changes no other, a removal takes exactly the found one out.
\<close>

section \<open>Operations\<close>

text \<open>The record that carries the block's checksum: no inode, 12 bytes, type 0xDE.\<close>

definition is_csum_tail :: "buf \<Rightarrow> nat \<Rightarrow> bool" where
  "is_csum_tail blk off \<longleftrightarrow> blk (off + 7) = 0xDE \<and> rec_len_at blk off = 12 \<and> ino_at blk off = 0"

text \<open>\<open>(8u + name_len + 3u) & ~3u\<close>: the space a record with this name needs.\<close>

definition rec_need :: "nat \<Rightarrow> nat" where
  "rec_need nl = (8 + nl + 3) div 4 * 4"

definition real_size :: "buf \<Rightarrow> nat \<Rightarrow> nat" where
  "real_size blk off = (if ino_at blk off \<noteq> 0 then rec_need (name_len_at blk off) else 0)"

function dir_find_slot_from :: "buf \<Rightarrow> nat \<Rightarrow> nat \<Rightarrow> nat \<Rightarrow> (buf \<times> nat \<times> nat) option" where
  "dir_find_slot_from blk bs need off =
     (if \<not> rec_ok blk bs off then None
      else if is_csum_tail blk off then dir_find_slot_from blk bs need (off + rec_len_at blk off)
      else
        let real_sz = real_size blk off; rlen = rec_len_at blk off
        in if real_sz + need \<le> rlen
           then Some (if ino_at blk off \<noteq> 0 then put_le16 blk (off + 4) (word_of_nat real_sz) else blk,
                      off + real_sz, rlen - real_sz)
           else dir_find_slot_from blk bs need (off + rec_len_at blk off))"
  by pat_completeness auto
termination
  by (relation "measure (\<lambda>(blk, bs, need, off). bs - off)") (auto dest: rec_ok_step)

declare dir_find_slot_from.simps [simp del]

definition dir_find_slot_for_entry :: "buf \<Rightarrow> nat \<Rightarrow> nat \<Rightarrow> (buf \<times> nat \<times> nat) option" where
  "dir_find_slot_for_entry blk bs need = dir_find_slot_from blk bs need 0"

text \<open>The offset of the record with the inode sought, and of the record before it, if any.\<close>

function dir_find_entry_from :: "buf \<Rightarrow> nat \<Rightarrow> u32 \<Rightarrow> nat option \<Rightarrow> nat \<Rightarrow> (nat \<times> nat option) option" where
  "dir_find_entry_from blk bs target prev off =
     (if \<not> rec_ok blk bs off then None
      else if is_csum_tail blk off
        then dir_find_entry_from blk bs target prev (off + rec_len_at blk off)
      else if ino_at blk off = target then Some (off, prev)
      else dir_find_entry_from blk bs target (Some off) (off + rec_len_at blk off))"
  by pat_completeness auto
termination
  by (relation "measure (\<lambda>(blk, bs, target, prev, off). bs - off)") (auto dest: rec_ok_step)

declare dir_find_entry_from.simps [simp del]

definition dir_find_entry_by_inode :: "buf \<Rightarrow> nat \<Rightarrow> u32 \<Rightarrow> (nat \<times> nat option) option" where
  "dir_find_entry_by_inode blk bs target = dir_find_entry_from blk bs target None 0"

text \<open>The record stores at the end of an insertion (as in \<open>ext4_file_create\<close>).\<close>

definition dir_put_entry :: "buf \<Rightarrow> nat \<Rightarrow> u32 \<Rightarrow> nat \<Rightarrow> byte \<Rightarrow> byte list \<Rightarrow> buf" where
  "dir_put_entry blk off ino rlen ft name =
     put_bytes ((put_le16 (put_le32 blk off ino) (off + 4) (word_of_nat rlen))
       (off + 6 := word_of_nat (length name), off + 7 := ft)) (off + 8) name"

text \<open>Taking a record out (as in \<open>ext4_dir_remove\<close>): the record before it swallows it; the
  first record of a block loses its inode number.\<close>

definition dir_remove_entry :: "buf \<Rightarrow> nat \<Rightarrow> nat option \<Rightarrow> buf" where
  "dir_remove_entry blk off prev =
     (case prev of
        Some p \<Rightarrow> put_le16 blk (p + 4) (le16 blk (p + 4) + le16 blk (off + 4))
      | None \<Rightarrow> blk(off := 0, off + 1 := 0, off + 2 := 0, off + 3 := 0))"

definition dir_block_csum :: "'c ext4_fs \<Rightarrow> u32 \<Rightarrow> u32 \<Rightarrow> buf \<Rightarrow> u32" where
  "dir_block_csum fs parent_ino parent_gen blk =
     (if \<not> metadata_csum fs then 0
      else crc32c (crc32c (crc32c (crc32c crc32c_init (s_uuid (fs_sb fs))) (le_bytes parent_ino))
             (le_bytes parent_gen)) (bytes_of blk 0 (bs_nat fs - 12)))"

definition tail_record :: "buf \<Rightarrow> nat \<Rightarrow> buf" where
  "tail_record blk tail =
     put_bytes blk tail [0, 0, 0, 0, 12, 0, 0, 0xDE, 0, 0, 0, 0]"

definition dir_block_set_tail_csum :: "'c ext4_fs \<Rightarrow> buf \<Rightarrow> u32 \<Rightarrow> u32 \<Rightarrow> buf" where
  "dir_block_set_tail_csum fs blk parent_ino parent_gen =
     (if \<not> metadata_csum fs then blk
      else
        let tail = bs_nat fs - 12; blk = tail_record blk tail
        in put_le32 blk (tail + 8) (dir_block_csum fs parent_ino parent_gen blk))"

section \<open>Finding room\<close>

lemma rec_need_bounds: "8 + nl \<le> rec_need nl" "rec_need nl \<le> 11 + nl" "4 dvd rec_need nl"
  by (auto simp: rec_need_def)

lemma find_slot_frame:
  assumes "dir_find_slot_from blk bs need off = Some (blk', so, sr)"
  shows "off \<le> so \<and> so + sr \<le> bs \<and> need \<le> sr \<and> (\<forall>i. i < off \<or> bs \<le> i \<longrightarrow> blk' i = blk i)"
  using assms
proof (induction blk bs need off rule: dir_find_slot_from.induct)
  case (1 blk bs need off)
  have ok: "rec_ok blk bs off"
    using "1.prems" by (auto simp: dir_find_slot_from.simps [of blk bs need off] split: if_splits)
  then have b: "off + 8 \<le> bs" "rec_len_at blk off \<le> bs - off" by (auto simp: rec_ok_def)
  show ?case
  proof (cases "is_csum_tail blk off \<or> \<not> real_size blk off + need \<le> rec_len_at blk off")
    case True
    with ok "1.prems"
    have "dir_find_slot_from blk bs need (off + rec_len_at blk off) = Some (blk', so, sr)"
      by (auto simp: dir_find_slot_from.simps [of blk bs need off] Let_def split: if_splits)
    with True ok "1.IH" show ?thesis by fastforce
  next
    case False
    with ok b "1.prems" show ?thesis
      by (auto simp: dir_find_slot_from.simps [of blk bs need off] Let_def put_le16_def split: if_splits)
  qed
qed

lemma put_entry_fields:
  assumes "length name < 256" "rlen < 65536"
    and c_def: "c = dir_put_entry blk off ino rlen ft name"
  shows "ino_at c off = ino" "rec_len_at c off = rlen" "name_len_at c off = length name"
    "entry_at c off = \<lparr>de_inode = ino, de_file_type = ft,
       de_name_len = word_of_nat (length name), de_name = name\<rparr>"
    "i < off \<or> off + 8 + length name \<le> i \<Longrightarrow> c i = blk i"
proof -
  have i: "c (off + k) = put_le32 blk off ino (off + k)" if "k < 4" for k
    using that by (simp add: c_def dir_put_entry_def put_bytes_def put_le16_def)
  show ino: "ino_at c off = ino"
    unfolding ino_at_def using le32_cong [of c off "put_le32 blk off ino"] i by simp
  have r: "le16 c (off + 4) = word_of_nat rlen"
  proof -
    have "le16 c (off + 4) = le16 (put_le16 (put_le32 blk off ino) (off + 4) (word_of_nat rlen)) (off + 4)"
      by (rule le16_cong) (simp_all add: c_def dir_put_entry_def put_bytes_def)
    then show ?thesis by simp
  qed
  show "rec_len_at c off = rlen"
    using assms(2) by (simp add: rec_len_at_def r unsigned_of_nat take_bit_nat_eq_self)
  have n: "c (off + 6) = word_of_nat (length name)" "c (off + 7) = ft"
    by (simp_all add: c_def dir_put_entry_def put_bytes_def)
  show nl: "name_len_at c off = length name"
    using assms(1) by (simp add: name_len_at_def n unsigned_of_nat take_bit_nat_eq_self)
  have "bytes_of c (off + 8) (length name) = name"
    unfolding c_def dir_put_entry_def by (rule bytes_of_put_bytes)
  then show "entry_at c off = \<lparr>de_inode = ino, de_file_type = ft,
       de_name_len = word_of_nat (length name), de_name = name\<rparr>"
    by (simp add: entry_at_def ino nl n)
  show "i < off \<or> off + 8 + length name \<le> i \<Longrightarrow> c i = blk i"
    by (auto simp: c_def dir_put_entry_def put_bytes_def put_le16_def put_le32_def)
qed

text \<open>One record written over the free tail of another, and nothing after it touched.\<close>

lemma dir_entries_put:
  assumes ok: "rec_ok blk bs off" and ino: "ino \<noteq> 0" and nm: "0 < length name" "length name < 256"
    and fit: "real_size blk off + rec_need (length name) \<le> rec_len_at blk off"
    and bs: "bs < 65536"
    and real_sz_def: "real_sz = real_size blk off"
    and c_def: "c = dir_put_entry (if ino_at blk off \<noteq> 0 then put_le16 blk (off + 4) (word_of_nat real_sz) else blk)
      (off + real_sz) ino (rec_len_at blk off - real_sz) ft name"
  shows "dir_entries c bs off =
    (if entry_live blk off then [entry_at blk off] else []) @
    \<lparr>de_inode = ino, de_file_type = ft, de_name_len = word_of_nat (length name), de_name = name\<rparr> #
    dir_entries blk bs (off + rec_len_at blk off)"
proof -
  let ?new = "\<lparr>de_inode = ino, de_file_type = ft, de_name_len = word_of_nat (length name), de_name = name\<rparr>"
  let ?r = "rec_len_at blk off" and ?so = "off + real_sz" and ?sr = "rec_len_at blk off - real_sz"
  have b: "off + 8 \<le> bs" "8 \<le> ?r" "?r \<le> bs - off" using ok by (auto simp: rec_ok_def)
  have need: "8 + length name \<le> rec_need (length name)" by (rule rec_need_bounds)
  have srl: "?sr < 65536" using b bs by linarith
  have sr: "rec_need (length name) \<le> ?sr" "?so + ?sr = off + ?r"
    using fit by (auto simp: real_sz_def)
  note f = put_entry_fields [OF nm(2) srl c_def]
  have rest: "dir_entries c bs (?so + ?sr) = dir_entries blk bs (off + ?r)"
    unfolding sr(2)
  proof (rule dir_entries_cong)
    fix i
    assume "off + ?r \<le> i"
    then have "?so + 8 + length name \<le> i" "off + 6 \<le> i" using sr need b by linarith+
    then show "c i = blk i" using f(5) [of i] by (simp add: put_le16_def)
  qed
  have newrec: "dir_entries c bs ?so = ?new # dir_entries c bs (?so + ?sr)"
  proof -
    have "rec_ok c bs ?so" using f b sr need by (auto simp: rec_ok_def)
    moreover have "entry_live c ?so" using f ino nm sr need by (auto simp: entry_live_def)
    ultimately show ?thesis by (simp add: dir_entries.simps [of c bs ?so] f)
  qed
  show ?thesis
  proof (cases "ino_at blk off = 0")
    case True
    then have "real_sz = 0" "\<not> entry_live blk off" by (simp_all add: real_sz_def real_size_def entry_live_def)
    with newrec rest sr show ?thesis by simp
  next
    case False
    have rs: "real_sz = rec_need (name_len_at blk off)" using False by (simp add: real_sz_def real_size_def)
    have rs8: "8 + name_len_at blk off \<le> real_sz" "8 \<le> real_sz" using rec_need_bounds(1) [of "name_len_at blk off"] rs by linarith+
    have low: "c i = put_le16 blk (off + 4) (word_of_nat real_sz) i" if "i < off + real_sz" for i
      using f(5) [of i] that False by simp
    have rl: "rec_len_at c off = real_sz"
    proof -
      have "le16 c (off + 4) = word_of_nat real_sz"
        using le16_cong [of c "off + 4" "put_le16 blk (off + 4) (word_of_nat real_sz)"] low rs8 by simp
      moreover have "real_sz < 65536" using sr b bs fit by (simp add: real_sz_def)
      ultimately show ?thesis by (simp add: rec_len_at_def unsigned_of_nat take_bit_nat_eq_self)
    qed
    have hdr: "ino_at c off = ino_at blk off" "name_len_at c off = name_len_at blk off"
      using rs8 by (auto simp: ino_at_def name_len_at_def low put_le16_def intro!: le32_cong)
    have nm_same: "entry_at c off = entry_at blk off"
      using rs8 by (auto simp: entry_at_def hdr low put_le16_def intro!: bytes_of_cong)
    have "rec_ok c bs off" using rl rs8 b sr by (auto simp: rec_ok_def)
    moreover have "entry_live c off = entry_live blk off"
      using rs8 fit sr by (auto simp: entry_live_def hdr rl real_sz_def)
    ultimately show ?thesis
      using newrec rest by (simp add: dir_entries.simps [of c bs off] rl nm_same)
  qed
qed

lemma not_live_tail: "is_csum_tail blk off \<Longrightarrow> \<not> entry_live blk off"
  by (simp add: is_csum_tail_def entry_live_def)

theorem dir_insert_entries:
  assumes "dir_find_slot_from blk bs (rec_need (length name)) off = Some (blk', so, sr)"
    and "ino \<noteq> 0" "0 < length name" "length name < 256" "bs < 65536"
  shows "\<exists>pre post. dir_entries blk bs off = pre @ post \<and>
    dir_entries (dir_put_entry blk' so ino sr ft name) bs off =
      pre @ \<lparr>de_inode = ino, de_file_type = ft, de_name_len = word_of_nat (length name),
             de_name = name\<rparr> # post"
  using assms(1,5)
proof (induction blk bs "rec_need (length name)" off rule: dir_find_slot_from.induct)
  case (1 blk bs off)
  let ?need = "rec_need (length name)"
  let ?new = "\<lparr>de_inode = ino, de_file_type = ft, de_name_len = word_of_nat (length name), de_name = name\<rparr>"
  let ?next = "off + rec_len_at blk off"
  let ?c = "dir_put_entry blk' so ino sr ft name"
  have ok: "rec_ok blk bs off"
    using "1.prems" by (auto simp: dir_find_slot_from.simps [of blk bs ?need off] split: if_splits)
  show ?case
  proof (cases "is_csum_tail blk off \<or> \<not> real_size blk off + ?need \<le> rec_len_at blk off")
    case True
    with ok "1.prems" have rec: "dir_find_slot_from blk bs ?need ?next = Some (blk', so, sr)"
      by (auto simp: dir_find_slot_from.simps [of blk bs ?need off] Let_def split: if_splits)
    note fr = find_slot_frame [OF rec]
    have same: "?c i = blk i" if "i < ?next" for i
      using fr that by (auto simp: dir_put_entry_def put_bytes_def put_le16_def put_le32_def)
    from True ok rec "1.hyps" "1.prems"(2) obtain pre post where
      ih: "dir_entries blk bs ?next = pre @ post" "dir_entries ?c bs ?next = pre @ ?new # post"
      by fastforce
    have h: "rec_len_at ?c off = rec_len_at blk off" "rec_ok ?c bs off = rec_ok blk bs off"
      "entry_live ?c off = entry_live blk off"
      using ok by (intro record_cong same; auto simp: rec_ok_def)+
    have e: "entry_at ?c off = entry_at blk off" if "entry_live blk off"
    proof -
      have "entry_at blk off = entry_at ?c off"
        using that by (intro entry_at_cong same [symmetric]) (auto simp: entry_live_def)
      then show ?thesis by simp
    qed
    show ?thesis
      using ok h e ih
      by (intro exI [of _ "(if entry_live blk off then [entry_at blk off] else []) @ pre"] exI [of _ post])
        (simp add: dir_entries.simps [of blk bs off] dir_entries.simps [of ?c bs off])
  next
    case False
    with ok "1.prems" have res: "so = off + real_size blk off" "sr = rec_len_at blk off - real_size blk off"
      "blk' = (if ino_at blk off \<noteq> 0 then put_le16 blk (off + 4) (word_of_nat (real_size blk off)) else blk)"
      by (auto simp: dir_find_slot_from.simps [of blk bs ?need off] Let_def)
    from False dir_entries_put [OF ok assms(2-4) _ "1.prems"(2) refl refl, of ft] res
    have "dir_entries ?c bs off = (if entry_live blk off then [entry_at blk off] else []) @
        ?new # dir_entries blk bs ?next" by auto
    moreover have "dir_entries blk bs off = (if entry_live blk off then [entry_at blk off] else []) @
        dir_entries blk bs ?next"
      using ok by (simp add: dir_entries.simps [of blk bs off])
    ultimately show ?thesis by blast
  qed
qed


section \<open>Well-formed blocks\<close>

text \<open>
  The records tile the block: the chain of record lengths ends exactly at its end; a used record
  has a name that fits it and is not mistaken for the checksum record, which can only be the
  last one.
\<close>

definition rec_good :: "buf \<Rightarrow> nat \<Rightarrow> nat \<Rightarrow> bool" where
  "rec_good blk bs off \<longleftrightarrow> rec_ok blk bs off \<and>
     (is_csum_tail blk off \<longrightarrow> off + 12 = bs) \<and>
     (ino_at blk off \<noteq> 0 \<longrightarrow> entry_live blk off \<and> blk (off + 7) \<noteq> 0xDE)"

function dir_wf :: "buf \<Rightarrow> nat \<Rightarrow> nat \<Rightarrow> bool" where
  "dir_wf blk bs off =
     (if off = bs then True
      else if rec_good blk bs off then dir_wf blk bs (off + rec_len_at blk off) else False)"
  by pat_completeness auto
termination
  by (relation "measure (\<lambda>(blk, bs, off). bs - off)") (auto simp: rec_good_def dest: rec_ok_step)

declare dir_wf.simps [simp del]

text \<open>Following the chain from one record to a later one.\<close>

inductive chain_to :: "buf \<Rightarrow> nat \<Rightarrow> nat \<Rightarrow> nat \<Rightarrow> bool" for blk bs where
  chain_here: "chain_to blk bs off off"
| chain_next: "rec_good blk bs off \<Longrightarrow> chain_to blk bs (off + rec_len_at blk off) q \<Longrightarrow>
    chain_to blk bs off q"

inductive_cases chain_toE: "chain_to blk bs off q"

lemma chain_to_le: "chain_to blk bs off q \<Longrightarrow> off \<le> q"
  by (induction rule: chain_to.induct) auto

lemma chain_to_wf: "chain_to blk bs off q \<Longrightarrow> dir_wf blk bs off \<Longrightarrow> dir_wf blk bs q"
proof (induction rule: chain_to.induct)
  case (chain_next off q)
  moreover have "off \<noteq> bs" using chain_next by (auto simp: rec_good_def rec_ok_def)
  ultimately show ?case by (simp add: dir_wf.simps [of blk bs off])
qed

lemma rec_good_cong:
  assumes "\<And>i. off \<le> i \<Longrightarrow> i < off + 8 \<Longrightarrow> c i = b i"
  shows "rec_good c bs off = rec_good b bs off"
proof -
  have "rec_len_at c off = rec_len_at b off" "ino_at c off = ino_at b off"
    "rec_ok c bs off = rec_ok b bs off" "entry_live c off = entry_live b off"
    by (intro record_cong assms; assumption)+
  then show ?thesis by (simp add: rec_good_def is_csum_tail_def assms)
qed

text \<open>Everything before \<open>q\<close> is read the same in a block that differs from \<open>q\<close> on only.\<close>

lemma chain_transfer:
  assumes "chain_to blk bs off q" "\<And>i. off \<le> i \<Longrightarrow> i < q \<Longrightarrow> c i = blk i"
  shows "\<exists>pre. dir_entries blk bs off = pre @ dir_entries blk bs q \<and>
    dir_entries c bs off = pre @ dir_entries c bs q \<and> (dir_wf c bs q \<longrightarrow> dir_wf c bs off)"
  using assms
proof (induction rule: chain_to.induct)
  case (chain_here off)
  then show ?case by auto
next
  case (chain_next off q)
  let ?next = "off + rec_len_at blk off"
  have le: "?next \<le> q" using chain_next.hyps(2) by (rule chain_to_le)
  have ok: "rec_ok blk bs off" "off + 8 \<le> ?next"
    using chain_next.hyps(1) by (auto simp: rec_good_def rec_ok_def)
  have h: "rec_len_at c off = rec_len_at blk off" "rec_ok c bs off = rec_ok blk bs off"
    "entry_live c off = entry_live blk off"
    using ok le by (intro record_cong chain_next.prems; simp)+
  have g: "rec_good c bs off = rec_good blk bs off"
    using ok le by (intro rec_good_cong chain_next.prems) simp_all
  have e: "entry_at c off = entry_at blk off" if "entry_live blk off"
  proof -
    have "entry_at blk off = entry_at c off"
      using that le by (intro entry_at_cong chain_next.prems [symmetric]) (auto simp: entry_live_def)
    then show ?thesis by simp
  qed
  obtain pre where ih: "dir_entries blk bs ?next = pre @ dir_entries blk bs q"
    "dir_entries c bs ?next = pre @ dir_entries c bs q" "dir_wf c bs q \<longrightarrow> dir_wf c bs ?next"
    using chain_next.IH chain_next.prems by fastforce
  show ?case
    using ok h e g ih chain_next.hyps(1)
    by (intro exI [of _ "(if entry_live blk off then [entry_at blk off] else []) @ pre"])
      (auto simp: dir_entries.simps [of blk bs off] dir_entries.simps [of c bs off] dir_wf.simps [of c bs off])
qed

lemma dir_wf_cong:
  assumes "dir_wf b bs off" "\<And>i. off \<le> i \<Longrightarrow> i < bs \<Longrightarrow> c i = b i"
  shows "dir_wf c bs off"
  using assms
proof (induction b bs off rule: dir_wf.induct)
  case (1 b bs off)
  show ?case
  proof (cases "off = bs")
    case True
    then show ?thesis by (simp add: dir_wf.simps)
  next
    case False
    with "1.prems" have g: "rec_good b bs off" and w: "dir_wf b bs (off + rec_len_at b off)"
      by (auto simp: dir_wf.simps [of b bs off] split: if_splits)
    have ok: "off + 8 \<le> bs" "8 \<le> rec_len_at b off" using g by (auto simp: rec_good_def rec_ok_def)
    have "rec_good c bs off = rec_good b bs off" "rec_len_at c off = rec_len_at b off"
      using ok by (intro rec_good_cong record_cong "1.prems"(2); simp)+
    moreover have "dir_wf c bs (off + rec_len_at b off)"
      using False g w ok by (intro "1.IH" "1.prems"(2)) auto
    ultimately show ?thesis using g by (simp add: dir_wf.simps [of c bs off])
  qed
qed

section \<open>An insertion keeps the block well-formed\<close>

lemma find_slot_chain:
  assumes "dir_find_slot_from blk bs need off = Some (blk', so, sr)" "dir_wf blk bs off"
  shows "\<exists>q. chain_to blk bs off q \<and> rec_good blk bs q \<and> \<not> is_csum_tail blk q \<and>
    real_size blk q + need \<le> rec_len_at blk q \<and> so = q + real_size blk q \<and>
    sr = rec_len_at blk q - real_size blk q \<and>
    blk' = (if ino_at blk q \<noteq> 0 then put_le16 blk (q + 4) (word_of_nat (real_size blk q)) else blk)"
  using assms
proof (induction blk bs need off rule: dir_find_slot_from.induct)
  case (1 blk bs need off)
  have ok: "rec_ok blk bs off"
    using "1.prems" by (auto simp: dir_find_slot_from.simps [of blk bs need off] split: if_splits)
  then have "off \<noteq> bs" by (auto simp: rec_ok_def)
  with "1.prems" have good: "rec_good blk bs off" and w: "dir_wf blk bs (off + rec_len_at blk off)"
    by (auto simp: dir_wf.simps [of blk bs off] split: if_splits)
  show ?case
  proof (cases "is_csum_tail blk off \<or> \<not> real_size blk off + need \<le> rec_len_at blk off")
    case True
    with ok "1.prems" have "dir_find_slot_from blk bs need (off + rec_len_at blk off) = Some (blk', so, sr)"
      by (auto simp: dir_find_slot_from.simps [of blk bs need off] Let_def split: if_splits)
    with True ok w "1.IH" obtain q where "chain_to blk bs (off + rec_len_at blk off) q"
      "rec_good blk bs q \<and> \<not> is_csum_tail blk q \<and>
       real_size blk q + need \<le> rec_len_at blk q \<and> so = q + real_size blk q \<and>
       sr = rec_len_at blk q - real_size blk q \<and>
       blk' = (if ino_at blk q \<noteq> 0 then put_le16 blk (q + 4) (word_of_nat (real_size blk q)) else blk)"
      by fastforce
    with good show ?thesis by (blast intro: chain_next)
  next
    case False
    with ok good "1.prems" show ?thesis
      by (auto simp: dir_find_slot_from.simps [of blk bs need off] Let_def intro!: exI [of _ off] chain_here)
  qed
qed

lemma dir_wf_put:
  assumes good: "rec_good blk bs off" and w: "dir_wf blk bs (off + rec_len_at blk off)"
    and ino: "ino \<noteq> 0" and nm: "0 < length name" "length name < 256" and ft: "ft \<noteq> 0xDE"
    and fit: "real_size blk off + rec_need (length name) \<le> rec_len_at blk off"
    and bs: "bs < 65536"
    and real_sz_def: "real_sz = real_size blk off"
    and c_def: "c = dir_put_entry (if ino_at blk off \<noteq> 0 then put_le16 blk (off + 4) (word_of_nat real_sz) else blk)
      (off + real_sz) ino (rec_len_at blk off - real_sz) ft name"
  shows "dir_wf c bs off"
proof -
  let ?r = "rec_len_at blk off" and ?so = "off + real_sz" and ?sr = "rec_len_at blk off - real_sz"
  have b: "off + 8 \<le> bs" "8 \<le> ?r" "?r \<le> bs - off" using good by (auto simp: rec_good_def rec_ok_def)
  have need: "8 + length name \<le> rec_need (length name)" by (rule rec_need_bounds)
  have srl: "?sr < 65536" using b bs by linarith
  have sr: "rec_need (length name) \<le> ?sr" "?so + ?sr = off + ?r"
    using fit by (auto simp: real_sz_def)
  note f = put_entry_fields [OF nm(2) srl c_def]
  have tb: "c (?so + 7) = ft" by (simp add: c_def dir_put_entry_def put_bytes_def)
  have rest: "dir_wf c bs (?so + ?sr)"
    unfolding sr(2)
  proof (rule dir_wf_cong [OF w])
    fix i
    assume "off + ?r \<le> i"
    then have "?so + 8 + length name \<le> i" "off + 6 \<le> i" using sr need b by linarith+
    then show "c i = blk i" using f(5) [of i] by (simp add: put_le16_def)
  qed
  have new: "dir_wf c bs ?so"
  proof -
    have "rec_good c bs ?so"
      using f tb ino ft nm b sr need by (auto simp: rec_good_def rec_ok_def is_csum_tail_def entry_live_def)
    moreover have "?so \<noteq> bs" using sr need b by linarith
    ultimately show ?thesis using rest by (simp add: dir_wf.simps [of c bs ?so] f)
  qed
  show ?thesis
  proof (cases "ino_at blk off = 0")
    case True
    then have "real_sz = 0" by (simp add: real_sz_def real_size_def)
    with new show ?thesis by simp
  next
    case False
    have live: "entry_live blk off" "blk (off + 7) \<noteq> 0xDE" using good False by (auto simp: rec_good_def)
    have rs: "real_sz = rec_need (name_len_at blk off)" using False by (simp add: real_sz_def real_size_def)
    have rs8: "8 + name_len_at blk off \<le> real_sz" "8 \<le> real_sz"
      using rec_need_bounds(1) [of "name_len_at blk off"] rs by linarith+
    have low: "c i = put_le16 blk (off + 4) (word_of_nat real_sz) i" if "i < off + real_sz" for i
      using f(5) [of i] that False by simp
    have rl: "rec_len_at c off = real_sz"
    proof -
      have "le16 c (off + 4) = word_of_nat real_sz"
        using le16_cong [of c "off + 4" "put_le16 blk (off + 4) (word_of_nat real_sz)"] low rs8 by simp
      moreover have "real_sz < 65536" using sr b bs fit by (simp add: real_sz_def)
      ultimately show ?thesis by (simp add: rec_len_at_def unsigned_of_nat take_bit_nat_eq_self)
    qed
    have hdr: "ino_at c off = ino_at blk off" "name_len_at c off = name_len_at blk off"
      "c (off + 7) = blk (off + 7)"
      using rs8 by (auto simp: ino_at_def name_len_at_def low put_le16_def intro!: le32_cong)
    have "rec_good c bs off"
      using False live rs8 b sr
      by (auto simp: rec_good_def rec_ok_def is_csum_tail_def entry_live_def hdr rl)
    moreover have "off \<noteq> bs" using b by linarith
    ultimately show ?thesis using new by (simp add: dir_wf.simps [of c bs off] rl)
  qed
qed

lemma dir_insert_wf:
  assumes "dir_find_slot_from blk bs (rec_need (length name)) off = Some (blk', so, sr)"
    and w: "dir_wf blk bs off"
    and "ino \<noteq> 0" "0 < length name" "length name < 256" "ft \<noteq> 0xDE" "bs < 65536"
  shows "dir_wf (dir_put_entry blk' so ino sr ft name) bs off"
proof -
  obtain q where q: "chain_to blk bs off q" "rec_good blk bs q"
    "real_size blk q + rec_need (length name) \<le> rec_len_at blk q" "so = q + real_size blk q"
    "sr = rec_len_at blk q - real_size blk q"
    "blk' = (if ino_at blk q \<noteq> 0 then put_le16 blk (q + 4) (word_of_nat (real_size blk q)) else blk)"
    using find_slot_chain [OF assms(1,2)] by blast
  let ?c = "dir_put_entry blk' so ino sr ft name"
  have qb: "q \<noteq> bs" using q(2) by (auto simp: rec_good_def rec_ok_def)
  have "dir_wf blk bs q" using chain_to_wf [OF q(1) w] .
  with qb have "dir_wf blk bs (q + rec_len_at blk q)"
    by (auto simp: dir_wf.simps [of blk bs q] split: if_splits)
  then have "dir_wf ?c bs q"
    using q assms(3-7) by (intro dir_wf_put [where blk = blk and off = q and real_sz = "real_size blk q"]) simp_all
  moreover have "?c i = blk i" if "off \<le> i" "i < q" for i
    using that q(4,6) by (auto simp: dir_put_entry_def put_bytes_def put_le16_def put_le32_def)
  ultimately show ?thesis using chain_transfer [OF q(1), of ?c] by blast
qed

section \<open>A removal takes out exactly the record found\<close>

lemma find_entry_chain:
  assumes "dir_find_entry_from blk bs t prev off = Some (eo, p)" "dir_wf blk bs off" "t \<noteq> 0"
  shows "rec_good blk bs eo \<and> ino_at blk eo = t \<and>
    (eo = off \<and> p = prev \<or>
     (\<exists>q. p = Some q \<and> chain_to blk bs off q \<and> rec_good blk bs q \<and> eo = q + rec_len_at blk q))"
  using assms
proof (induction blk bs t prev off rule: dir_find_entry_from.induct)
  case (1 blk bs t prev off)
  let ?next = "off + rec_len_at blk off"
  have ok: "rec_ok blk bs off"
    using "1.prems" by (auto simp: dir_find_entry_from.simps [of blk bs t prev off] split: if_splits)
  then have "off \<noteq> bs" by (auto simp: rec_ok_def)
  with "1.prems" have good: "rec_good blk bs off" and w: "dir_wf blk bs ?next"
    by (auto simp: dir_wf.simps [of blk bs off] split: if_splits)
  show ?case
  proof (cases "is_csum_tail blk off")
    case True
    with good have "?next = bs" by (auto simp: rec_good_def is_csum_tail_def)
    then have "\<not> rec_ok blk bs ?next" by (simp add: rec_ok_def)
    with True ok "1.prems" show ?thesis
      by (simp add: dir_find_entry_from.simps [of blk bs t prev off]
          dir_find_entry_from.simps [of blk bs t prev ?next])
  next
    case nt: False
    show ?thesis
    proof (cases "ino_at blk off = t")
      case True
      with nt ok good "1.prems" show ?thesis
        by (simp add: dir_find_entry_from.simps [of blk bs t prev off])
    next
      case False
      with nt ok "1.prems" have "dir_find_entry_from blk bs t (Some off) ?next = Some (eo, p)"
        by (simp add: dir_find_entry_from.simps [of blk bs t prev off])
      with False nt ok w "1.prems" "1.IH"(2)
      have "rec_good blk bs eo \<and> ino_at blk eo = t \<and> (eo = ?next \<and> p = Some off \<or>
         (\<exists>q. p = Some q \<and> chain_to blk bs ?next q \<and> rec_good blk bs q \<and> eo = q + rec_len_at blk q))"
        by blast
      with good show ?thesis by (blast intro: chain_here chain_next)
    qed
  qed
qed

lemma remove_first:
  assumes "rec_good blk bs off" "dir_wf blk bs (off + rec_len_at blk off)" "ino_at blk off \<noteq> 0"
    and c_def: "c = dir_remove_entry blk off None"
  shows "dir_entries c bs off = dir_entries blk bs (off + rec_len_at blk off)" "dir_wf c bs off"
proof -
  let ?next = "off + rec_len_at blk off"
  have b: "off + 8 \<le> ?next" "off + 8 \<le> bs" using assms(1) by (auto simp: rec_good_def rec_ok_def)
  have same: "c i = blk i" if "off + 4 \<le> i" for i
    using that by (simp add: c_def dir_remove_entry_def)
  have i0: "ino_at c off = 0"
    by (simp add: ino_at_def le32_def c_def dir_remove_entry_def)
  have r: "rec_len_at c off = rec_len_at blk off"
    by (auto simp: rec_len_at_def same intro!: arg_cong [where f = unat] le16_cong)
  have ok: "rec_ok c bs off" using assms(1) by (simp add: rec_good_def rec_ok_def r)
  have nt: "\<not> is_csum_tail c off"
    using assms(1,3) by (simp add: is_csum_tail_def same rec_good_def)
  have "dir_entries c bs ?next = dir_entries blk bs ?next"
    using b by (intro dir_entries_cong same) simp
  with ok r i0 show "dir_entries c bs off = dir_entries blk bs ?next"
    by (simp add: dir_entries.simps [of c bs off] entry_live_def)
  have "dir_wf c bs ?next"
    using b by (intro dir_wf_cong [OF assms(2)] same) simp
  with ok r i0 nt b show "dir_wf c bs off"
    by (simp add: dir_wf.simps [of c bs off] rec_good_def)
qed

lemma remove_next:
  assumes q: "rec_good blk bs q" and eo: "rec_good blk bs eo" "eo = q + rec_len_at blk q"
    and w: "dir_wf blk bs (eo + rec_len_at blk eo)" and bs: "bs < 65536"
    and c_def: "c = dir_remove_entry blk eo (Some q)"
  shows "dir_entries c bs q = (if entry_live blk q then [entry_at blk q] else []) @
      dir_entries blk bs (eo + rec_len_at blk eo)" "dir_wf c bs q"
proof -
  let ?nxt = "eo + rec_len_at blk eo"
  have b: "q + 8 \<le> eo" "eo + 8 \<le> ?nxt" "?nxt \<le> bs"
    using q eo by (auto simp: rec_good_def rec_ok_def)
  have same: "c i = blk i" if "i < q + 4 \<or> q + 6 \<le> i" for i
    using that by (auto simp: c_def dir_remove_entry_def put_le16_def)
  have r: "rec_len_at c q = rec_len_at blk q + rec_len_at blk eo"
  proof -
    have "unat (le16 blk (q + 4) + le16 blk (eo + 4)) = unat (le16 blk (q + 4)) + unat (le16 blk (eo + 4))"
      using b bs eo(2) by (intro unat_add_lem [THEN iffD1]) (simp add: rec_len_at_def)
    then show ?thesis by (simp add: rec_len_at_def c_def dir_remove_entry_def)
  qed
  have e: "q + rec_len_at c q = ?nxt" using r eo(2) by simp
  have hdr: "ino_at c q = ino_at blk q" "name_len_at c q = name_len_at blk q" "c (q + 7) = blk (q + 7)"
    by (auto simp: ino_at_def name_len_at_def same intro!: le32_cong)
  have en: "entry_at c q = entry_at blk q"
    by (auto simp: entry_at_def hdr same intro!: bytes_of_cong)
  have live: "entry_live c q = entry_live blk q"
    using q by (auto simp: entry_live_def hdr r rec_good_def)
  have ok: "rec_ok c bs q" using b e eo(2) by (auto simp: rec_ok_def r)
  have "dir_entries c bs ?nxt = dir_entries blk bs ?nxt"
    using b by (intro dir_entries_cong same) simp
  with ok e en live show "dir_entries c bs q = (if entry_live blk q then [entry_at blk q] else []) @
      dir_entries blk bs ?nxt"
    by (simp add: dir_entries.simps [of c bs q])
  have "dir_wf c bs ?nxt"
    using b by (intro dir_wf_cong [OF w] same) simp
  moreover have "rec_good c bs q"
    using q ok live hdr b eo(2) by (auto simp: rec_good_def is_csum_tail_def r rec_ok_def)
  moreover have "q \<noteq> bs" using b by linarith
  ultimately show "dir_wf c bs q" by (simp add: dir_wf.simps [of c bs q] e)
qed

theorem dir_remove_entries:
  assumes f: "dir_find_entry_by_inode blk bs t = Some (eo, p)" and w: "dir_wf blk bs 0"
    and t: "t \<noteq> 0" and bs: "bs < 65536"
  shows "\<exists>pre post. dir_entries blk bs 0 = pre @ entry_at blk eo # post \<and>
    dir_entries (dir_remove_entry blk eo p) bs 0 = pre @ post \<and> de_inode (entry_at blk eo) = t \<and>
    dir_wf (dir_remove_entry blk eo p) bs 0"
proof -
  let ?c = "dir_remove_entry blk eo p" and ?nxt = "eo + rec_len_at blk eo"
  note ch = find_entry_chain [OF f [unfolded dir_find_entry_by_inode_def] w t]
  have g: "rec_good blk bs eo" and i: "ino_at blk eo = t" using ch by auto
  have live: "entry_live blk eo" using g i t by (auto simp: rec_good_def)
  have eb: "eo \<noteq> bs" using g by (auto simp: rec_good_def rec_ok_def)
  have eeo: "dir_entries blk bs eo = entry_at blk eo # dir_entries blk bs ?nxt"
    using g live by (simp add: dir_entries.simps [of blk bs eo] rec_good_def)
  have de: "de_inode (entry_at blk eo) = t" using i by (simp add: entry_at_def)
  consider (first) "eo = 0" "p = None"
    | (later) q where "p = Some q" "chain_to blk bs 0 q" "rec_good blk bs q" "eo = q + rec_len_at blk q"
    using ch by auto
  then show ?thesis
  proof cases
    case first
    have wn: "dir_wf blk bs ?nxt"
      using w g first eb by (simp add: dir_wf.simps [of blk bs 0])
    note r = remove_first [OF g wn _ refl]
    show ?thesis
      using r eeo first i t de by (intro exI [of _ "[]"] exI [of _ "dir_entries blk bs ?nxt"]) auto
  next
    case later
    have wq: "dir_wf blk bs q" using chain_to_wf [OF later(2) w] .
    have qb: "q \<noteq> bs" using later(3) by (auto simp: rec_good_def rec_ok_def)
    have "dir_wf blk bs eo"
      using wq qb later(3,4) by (simp add: dir_wf.simps [of blk bs q])
    then have we: "dir_wf blk bs ?nxt"
      using eb g by (simp add: dir_wf.simps [of blk bs eo])
    note r = remove_next [OF later(3) g later(4) we bs refl]
    have same: "?c i = blk i" if "i < q" for i
      using that later(1) by (simp add: dir_remove_entry_def put_le16_def)
    obtain pre where pre: "dir_entries blk bs 0 = pre @ dir_entries blk bs q"
      "dir_entries ?c bs 0 = pre @ dir_entries ?c bs q" "dir_wf ?c bs q \<longrightarrow> dir_wf ?c bs 0"
      using chain_transfer [OF later(2), of ?c] same by blast
    have "dir_entries blk bs q = (if entry_live blk q then [entry_at blk q] else []) @
        entry_at blk eo # dir_entries blk bs ?nxt"
      using later(3,4) eeo by (simp add: dir_entries.simps [of blk bs q] rec_good_def)
    with pre r later(1) de show ?thesis
      by (intro exI [of _ "pre @ (if entry_live blk q then [entry_at blk q] else [])"]
          exI [of _ "dir_entries blk bs ?nxt"]) simp
  qed
qed

end
