(* ===== verification/Htree.thy ===== *)
theory Htree
  imports Dir
begin

text \<open>
  src/ext4/htree.c: the half-MD4 name hash of indexed directories and the walk of the root's
  index to the leaf a name belongs to.  A name is its bytes.
\<close>

section \<open>Half MD4\<close>

definition F_func :: "u32 \<Rightarrow> u32 \<Rightarrow> u32 \<Rightarrow> u32" where
  "F_func x y z = z XOR (x AND (y XOR z))"
definition G_func :: "u32 \<Rightarrow> u32 \<Rightarrow> u32 \<Rightarrow> u32" where
  "G_func x y z = (x AND y) + ((x XOR y) AND z)"
definition H_func :: "u32 \<Rightarrow> u32 \<Rightarrow> u32 \<Rightarrow> u32" where
  "H_func x y z = x XOR y XOR z"

definition rotl32 :: "u32 \<Rightarrow> nat \<Rightarrow> u32" where
  "rotl32 v n = push_bit n v OR drop_bit (32 - n) v"

definition FF :: "u32 \<Rightarrow> u32 \<Rightarrow> u32 \<Rightarrow> u32 \<Rightarrow> u32 \<Rightarrow> nat \<Rightarrow> u32" where
  "FF a b c d x s = rotl32 (a + (F_func b c d + x)) s"
definition GG :: "u32 \<Rightarrow> u32 \<Rightarrow> u32 \<Rightarrow> u32 \<Rightarrow> u32 \<Rightarrow> nat \<Rightarrow> u32" where
  "GG a b c d x s = rotl32 (a + (G_func b c d + x + 0x5A827999)) s"
definition HH :: "u32 \<Rightarrow> u32 \<Rightarrow> u32 \<Rightarrow> u32 \<Rightarrow> u32 \<Rightarrow> nat \<Rightarrow> u32" where
  "HH a b c d x s = rotl32 (a + (H_func b c d + x + 0x6ED9EBA1)) s"

type_synonym md4_state = "u32 \<times> u32 \<times> u32 \<times> u32"

definition half_md4_mix :: "md4_state \<Rightarrow> u32 list \<Rightarrow> md4_state" where
  "half_md4_mix h x = (case h of (h0, h1, h2, h3) \<Rightarrow>
     let a = h0; b = h1; c = h2; d = h3;
         a = FF a b c d (x ! 0) 3;  d = FF d a b c (x ! 1) 7;
         c = FF c d a b (x ! 2) 11; b = FF b c d a (x ! 3) 19;
         a = FF a b c d (x ! 4) 3;  d = FF d a b c (x ! 5) 7;
         c = FF c d a b (x ! 6) 11; b = FF b c d a (x ! 7) 19;
         a = GG a b c d (x ! 1) 3;  d = GG d a b c (x ! 3) 5;
         c = GG c d a b (x ! 5) 9;  b = GG b c d a (x ! 7) 13;
         a = GG a b c d (x ! 0) 3;  d = GG d a b c (x ! 2) 5;
         c = GG c d a b (x ! 4) 9;  b = GG b c d a (x ! 6) 13;
         a = HH a b c d (x ! 3) 3;  d = HH d a b c (x ! 7) 9;
         c = HH c d a b (x ! 2) 11; b = HH b c d a (x ! 6) 15;
         a = HH a b c d (x ! 1) 3;  d = HH d a b c (x ! 5) 9;
         c = HH c d a b (x ! 0) 11; b = HH b c d a (x ! 4) 15
     in (h0 + a, h1 + b, h2 + c, h3 + d))"

text \<open>
  \<open>prep_hashbuf\<close> packs up to \<open>dlen\<close> bytes into \<open>dlen / 4\<close> words, four bytes to a word, and
  pads with the length.  The state of the loop is the words written, the room left and the word
  being built.
\<close>

definition hash_padding :: "u32 \<Rightarrow> u32" where
  "hash_padding slen = slen OR push_bit 8 slen OR push_bit 16 slen OR push_bit 24 slen"

definition hash_byte :: "bool \<Rightarrow> byte \<Rightarrow> u32" where
  "hash_byte unsigned_char c = (if unsigned_char then ucast c else scast c)"

fun prep_loop :: "bool \<Rightarrow> u32 \<Rightarrow> byte list \<Rightarrow> nat \<Rightarrow> u32 list \<times> int \<times> u32 \<Rightarrow> u32 list \<times> int \<times> u32" where
  "prep_loop uc padding [] i st = st"
| "prep_loop uc padding (c # cs) i (dst, dlen, v) =
     (let v = (if i mod 4 = 0 then padding else v);
          v = push_bit 8 v + hash_byte uc c
      in prep_loop uc padding cs (Suc i)
           (if i mod 4 = 3 then (dst @ [v], dlen - 4, padding) else (dst, dlen, v)))"

definition prep_hashbuf :: "byte list \<Rightarrow> u32 \<Rightarrow> int \<Rightarrow> bool \<Rightarrow> u32 list" where
  "prep_hashbuf src slen dlen uc =
     (let padding = hash_padding slen;
          consume = (if dlen < int (unat slen) then nat dlen else unat slen);
          (dst, dlen, v) = prep_loop uc padding (take consume src) 0 ([], dlen, padding);
          (dst, dlen) = (if 4 \<le> dlen then (dst @ [v], dlen - 4) else (dst, dlen))
      in dst @ replicate (nat (dlen div 4)) padding)"

definition hash_legacy :: byte where "hash_legacy = 0"
definition hash_half_md4 :: byte where "hash_half_md4 = 1"
definition hash_tea :: byte where "hash_tea = 2"
definition hash_legacy_unsigned :: byte where "hash_legacy_unsigned = 3"
definition hash_half_md4_unsigned :: byte where "hash_half_md4_unsigned = 4"
definition hash_tea_unsigned :: byte where "hash_tea_unsigned = 5"

text \<open>The hash version with its signedness split off.\<close>

definition hash_variant :: "byte \<Rightarrow> bool \<times> byte" where
  "hash_variant v =
     (if v = hash_half_md4_unsigned then (True, hash_half_md4)
      else if v = hash_tea_unsigned then (True, hash_tea)
      else if v = hash_legacy_unsigned then (True, hash_legacy)
      else (False, v))"

function hash_chunks :: "bool \<Rightarrow> byte list \<Rightarrow> md4_state \<Rightarrow> md4_state" where
  "hash_chunks uc p h =
     (if p = [] then h
      else hash_chunks uc (drop 32 p)
             (half_md4_mix h (prep_hashbuf p (word_of_nat (length p)) 32 uc)))"
  by pat_completeness auto
termination
  by (relation "measure (\<lambda>(uc, p, h). length p)") auto

declare hash_chunks.simps [simp del]

definition hash_iv :: "md4_state \<Rightarrow> md4_state" where
  "hash_iv seed = (case seed of (s0, s1, s2, s3) \<Rightarrow>
     if s0 \<noteq> 0 \<or> s1 \<noteq> 0 \<or> s2 \<noteq> 0 \<or> s3 \<noteq> 0 then seed
     else (0x67452301, 0xEFCDAB89, 0x98BADCFE, 0x10325476))"

definition hash_finish :: "u32 \<Rightarrow> u32" where
  "hash_finish m =
     (let major = m AND NOT 1
      in if major = push_bit 1 0x7FFFFFFF then push_bit 1 (0x7FFFFFFF - 1) else major)"

definition ext4_htree_hash_name :: "byte \<Rightarrow> md4_state \<Rightarrow> byte list \<Rightarrow> int + u32" where
  "ext4_htree_hash_name hash_version seed name =
     (if length name = 0 then Inl (-1)
      else case hash_variant hash_version of (uc, v) \<Rightarrow>
        if v \<noteq> hash_half_md4 then Inl (-1)
        else case hash_chunks uc name (hash_iv seed) of (_, h1, _, _) \<Rightarrow> Inr (hash_finish h1))"

section \<open>The index of the root block\<close>

definition dx_hash :: "buf \<Rightarrow> nat \<Rightarrow> u32" where
  "dx_hash root i = le32 root (0x20 + i * 8)"

definition dx_block :: "buf \<Rightarrow> nat \<Rightarrow> u32" where
  "dx_block root i = le32 root (0x24 + i * 8)"

text \<open>The linear scan: \<open>k\<close> entries are left from entry \<open>i\<close> on.\<close>

fun dx_scan :: "buf \<Rightarrow> u32 \<Rightarrow> nat \<Rightarrow> nat \<Rightarrow> u32 \<Rightarrow> u32" where
  "dx_scan root h i 0 leaf = leaf"
| "dx_scan root h i (Suc k) leaf =
     (if h < dx_hash root i then leaf else dx_scan root h (Suc i) k (dx_block root i))"

definition sb_seed :: "buf \<Rightarrow> nat \<Rightarrow> md4_state" where
  "sb_seed b off = (le32 b (off + 0xEC), le32 b (off + 0xF0), le32 b (off + 0xF4), le32 b (off + 0xF8))"

definition htree_leaf_of :: "'c ext4_fs \<Rightarrow> md4_state \<Rightarrow> buf \<Rightarrow> byte list \<Rightarrow> int + u32" where
  "htree_leaf_of fs seed root name =
     (let hash_version = root 0x1C; indirect_levels = root 0x1E; count = unat (le16 root 0x22)
      in if 0 < indirect_levels then Inl (-3)
         else if count = 0 then Inl (-4)
         else if bs_nat fs < count * 8 + 0x20 then Inl (-4)
         else case ext4_htree_hash_name hash_version seed name of
                Inl _ \<Rightarrow> Inl (-2)
              | Inr h \<Rightarrow> Inr (dx_scan root h 1 (count - 1) (dx_block root 0)))"

definition ext4_htree_find_leaf :: "'c ext4_fs \<Rightarrow> ext4_inode \<Rightarrow> byte list \<Rightarrow> int + u32" where
  "ext4_htree_find_leaf fs parent name =
     (let sb_fs_block = (if 1024 < block_size fs then 0 else 1);
          sb_offset = (if 1024 < block_size fs then 1024 else 0)
      in case ext4_fs_read_block fs sb_fs_block of
           Inl _ \<Rightarrow> Inl (-1)
         | Inr sb \<Rightarrow>
           (case extent_lookup_res fs (i_block parent) 0 of
              Inl rc \<Rightarrow> Inl (if rc = rc_hang then rc_hang else -1)
            | Inr root_phys \<Rightarrow>
              (case ext4_fs_read_block fs root_phys of
                 Inl _ \<Rightarrow> Inl (-1)
               | Inr root \<Rightarrow> htree_leaf_of fs (sb_seed sb sb_offset) root name)))"

section \<open>Lemmas\<close>

lemma prep_loop_count:
  assumes "prep_loop uc padding cs i (dst, dlen, v) = (dst', dlen', v')"
    "0 \<le> dlen" "int (i mod 4 + length cs) \<le> dlen"
  shows "int (length dst') * 4 + dlen' = int (length dst) * 4 + dlen \<and> 0 \<le> dlen'"
  using assms
proof (induction uc padding cs i "(dst, dlen, v)" arbitrary: dst dlen v rule: prep_loop.induct)
  case (1 uc padding i)
  then show ?case by simp
next
  case (2 uc padding c cs i dst dlen v)
  show ?case
  proof (cases "i mod 4 = 3")
    case True
    then have "Suc i mod 4 = 0" by (simp add: mod_Suc)
    with True 2 show ?thesis by (fastforce simp: Let_def)
  next
    case False
    then have "Suc i mod 4 = Suc (i mod 4)" by (simp add: mod_Suc)
    with False 2 show ?thesis by (fastforce simp: Let_def)
  qed
qed

lemma dx_scan_spec:
  "\<exists>j. i \<le> j \<and> j \<le> i + k \<and> (\<forall>m. i \<le> m \<and> m < j \<longrightarrow> dx_hash root m \<le> h) \<and>
     (j < i + k \<longrightarrow> h < dx_hash root j) \<and>
     dx_scan root h i k leaf = (if j = i then leaf else dx_block root (j - 1))"
proof (induction root h i k leaf rule: dx_scan.induct)
  case (1 root h i leaf)
  then show ?case by auto
next
  case (2 root h i k leaf)
  show ?case
  proof (cases "h < dx_hash root i")
    case True
    then show ?thesis by (intro exI [of _ i]) auto
  next
    case False
    with "2.IH" obtain j where j: "Suc i \<le> j" "j \<le> Suc i + k"
      "\<forall>m. Suc i \<le> m \<and> m < j \<longrightarrow> dx_hash root m \<le> h" "j < Suc i + k \<longrightarrow> h < dx_hash root j"
      "dx_scan root h (Suc i) k (dx_block root i) = (if j = Suc i then dx_block root i else dx_block root (j - 1))"
      by blast
    have "\<forall>m. i \<le> m \<and> m < j \<longrightarrow> dx_hash root m \<le> h"
      using j(3) False by (metis Suc_leI le_neq_implies_less not_less)
    with False j show ?thesis by (intro exI [of _ j]) auto
  qed
qed

end
