(* ===== verification/Journal.thy ===== *)
theory Journal
  imports Extent
begin

text \<open>
  The log reader of src/ext4/journal.c: the replay and revoke tables, the checksums of the
  log's blocks, the three-pass walk of the log (\<open>walk_log\<close>, \<open>iterate_descriptor_tags\<close>,
  \<open>handle_revoke\<close>), \<open>ext4_journal_replay\<close>, \<open>apply_journaled_block_to_fs\<close> and
  \<open>ext4_journal_init\<close>.

  The two loops of the walk are total: the tag loop consumes bytes of one block, the block loop
  is cut off by the iteration guard of the code.
\<close>

section \<open>Constants\<close>

definition jbd_magic :: u32 where "jbd_magic = 0xC03B3998"
definition bt_descriptor :: u32 where "bt_descriptor = 1"
definition bt_commit :: u32 where "bt_commit = 2"
definition bt_superblock :: u32 where "bt_superblock = 3"
definition bt_super_v2 :: u32 where "bt_super_v2 = 4"
definition bt_revoke :: u32 where "bt_revoke = 5"

definition tag_flag_escape :: u32 where "tag_flag_escape = 1"
definition tag_flag_same_uuid :: u32 where "tag_flag_same_uuid = 2"
definition tag_flag_last_tag :: u32 where "tag_flag_last_tag = 8"

definition replay_map_max :: nat where "replay_map_max = 64"
definition revoke_map_max :: nat where "revoke_map_max = 32"
definition jbd_extent_max :: u16 where "jbd_extent_max = 8"

datatype jbd_action = Scan | Revoke | Build | Flush

text \<open>Sequence numbers are compared by the sign of their difference.\<close>

definition seq_diff :: "u32 \<Rightarrow> u32 \<Rightarrow> int" where
  "seq_diff a b = sint (a - b)"

definition wrap_jblk :: "ext4_jbd \<Rightarrow> u32 \<Rightarrow> u32" where
  "wrap_jblk j x = (if jbd_maxlen j \<le> x then jbd_first j else x)"

section \<open>The replay and revoke tables\<close>

text \<open>\<open>used\<close> counts the entries already passed; \<open>None\<close> is a full table.\<close>

fun replay_upsert_at ::
  "nat \<Rightarrow> u64 \<Rightarrow> u32 \<Rightarrow> bool \<Rightarrow> ext4_jbd_replay_entry list \<Rightarrow> ext4_jbd_replay_entry list option" where
  "replay_upsert_at used blk jblk esc [] =
     (if replay_map_max \<le> used then None
      else Some [\<lparr>re_fs_block = blk, re_journal_blk = jblk, re_is_escape = esc\<rparr>])"
| "replay_upsert_at used blk jblk esc (e # es) =
     (if re_fs_block e = blk then Some (e\<lparr>re_journal_blk := jblk, re_is_escape := esc\<rparr> # es)
      else map_option ((#) e) (replay_upsert_at (Suc used) blk jblk esc es))"

definition replay_upsert :: "ext4_jbd \<Rightarrow> u64 \<Rightarrow> u32 \<Rightarrow> bool \<Rightarrow> ext4_jbd option" where
  "replay_upsert j blk jblk esc =
     map_option (\<lambda>es. j\<lparr>jbd_replay := es\<rparr>) (replay_upsert_at 0 blk jblk esc (jbd_replay j))"

fun revoke_upsert_at ::
  "nat \<Rightarrow> u64 \<Rightarrow> u32 \<Rightarrow> ext4_jbd_revoke_entry list \<Rightarrow> ext4_jbd_revoke_entry list option" where
  "revoke_upsert_at used blk seq [] =
     (if revoke_map_max \<le> used then None
      else Some [\<lparr>rv_fs_block = blk, rv_revoke_seq = seq\<rparr>])"
| "revoke_upsert_at used blk seq (e # es) =
     (if rv_fs_block e = blk
      then Some ((if 0 < seq_diff seq (rv_revoke_seq e) then e\<lparr>rv_revoke_seq := seq\<rparr> else e) # es)
      else map_option ((#) e) (revoke_upsert_at (Suc used) blk seq es))"

definition revoke_upsert :: "ext4_jbd \<Rightarrow> u64 \<Rightarrow> u32 \<Rightarrow> ext4_jbd option" where
  "revoke_upsert j blk seq =
     map_option (\<lambda>es. j\<lparr>jbd_revoke := es\<rparr>) (revoke_upsert_at 0 blk seq (jbd_revoke j))"

definition is_revoked :: "ext4_jbd \<Rightarrow> u64 \<Rightarrow> u32 \<Rightarrow> bool" where
  "is_revoked j blk this_seq =
     (case find (\<lambda>e. rv_fs_block e = blk) (jbd_revoke j) of
        None \<Rightarrow> False
      | Some e \<Rightarrow> 0 \<le> seq_diff (rv_revoke_seq e) this_seq)"

section \<open>Checksums of log blocks\<close>

definition jbd_csums :: "ext4_jbd \<Rightarrow> bool" where
  "jbd_csums j \<longleftrightarrow> jbd_csum_v2 j \<or> jbd_csum_v3 j"

definition jbd_bs :: "ext4_jbd \<Rightarrow> nat" where
  "jbd_bs j = unat (jbd_blocksize j)"

text \<open>The checksum of a log block with the four bytes at \<open>off\<close> taken as zero.\<close>

definition jbd_block_csum :: "ext4_jbd \<Rightarrow> buf \<Rightarrow> nat \<Rightarrow> u32" where
  "jbd_block_csum j b off =
     crc32c (crc32c crc32c_init (jbd_uuid j)) (bytes_of (fill_bytes b off 0 4) 0 (jbd_bs j))"

definition verify_meta_block :: "ext4_jbd \<Rightarrow> buf \<Rightarrow> bool" where
  "verify_meta_block j b \<longleftrightarrow>
     \<not> jbd_csums j \<or> jbd_block_csum j b (jbd_bs j - 4) = be32 b (jbd_bs j - 4)"

definition verify_commit_block :: "ext4_jbd \<Rightarrow> buf \<Rightarrow> bool" where
  "verify_commit_block j b \<longleftrightarrow> \<not> jbd_csums j \<or> jbd_block_csum j b 16 = be32 b 16"

definition be_bytes :: "u32 \<Rightarrow> byte list" where
  "be_bytes v = bytes_of (be32_pack zero_buf 0 v) 0 4"

definition tag_data_csum :: "ext4_jbd \<Rightarrow> u32 \<Rightarrow> buf \<Rightarrow> u32" where
  "tag_data_csum j seq b =
     crc32c (crc32c (crc32c crc32c_init (jbd_uuid j)) (be_bytes seq)) (bytes_of b 0 (jbd_bs j))"

text \<open>The tag is at offset \<open>p\<close> of the descriptor \<open>desc\<close>; \<open>data\<close> is its data block.\<close>

definition tag_csum_ok :: "ext4_jbd \<Rightarrow> u32 \<Rightarrow> buf \<Rightarrow> nat \<Rightarrow> buf \<Rightarrow> bool" where
  "tag_csum_ok j seq desc p data =
     (if \<not> jbd_csums j then True
      else if jbd_csum_v3 j then tag_data_csum j seq data = be32 desc (p + 12)
      else tag_data_csum j seq data AND 0xFFFF = ucast (be16 desc (p + 4)))"

section \<open>Descriptor tags\<close>

definition jbd_tag_bytes :: "ext4_jbd \<Rightarrow> nat" where
  "jbd_tag_bytes j = (if jbd_csum_v3 j then 16 else if jbd_has_64bit j then 12 else 8)"

definition tag_fs_block :: "ext4_jbd \<Rightarrow> buf \<Rightarrow> nat \<Rightarrow> u64" where
  "tag_fs_block j b p =
     (if jbd_has_64bit j then ucast (be32 b p) OR push_bit 32 (ucast (be32 b (p + 8)))
      else ucast (be32 b p))"

definition tag_flags :: "ext4_jbd \<Rightarrow> buf \<Rightarrow> nat \<Rightarrow> u32" where
  "tag_flags j b p = (if jbd_csum_v3 j then be32 b (p + 4) else ucast (be16 b (p + 6)))"

definition tag_has :: "ext4_jbd \<Rightarrow> buf \<Rightarrow> nat \<Rightarrow> u32 \<Rightarrow> bool" where
  "tag_has j b p flag \<longleftrightarrow> tag_flags j b p AND flag \<noteq> 0"

definition apply_journaled_block_to_fs :: "u64 \<Rightarrow> buf \<Rightarrow> bool \<Rightarrow> ('c ext4_fs, unit) op" where
  "apply_journaled_block_to_fs blk scratch is_escape =
     raw_write blk (if is_escape then restore_magic scratch else scratch)"

abbreviation set_jbd :: "ext4_jbd \<Rightarrow> ('c ext4_fs, unit) op" where
  "set_jbd j \<equiv> modE (\<lambda>fs. fs\<lparr>fs_jbd := j\<rparr>)"

text \<open>What BUILD and FLUSH do with one tag whose data block is at log block \<open>jblk\<close>.\<close>

definition apply_tag :: "jbd_action \<Rightarrow> u32 \<Rightarrow> buf \<Rightarrow> nat \<Rightarrow> u32 \<Rightarrow> ('c ext4_fs, unit) op" where
  "apply_tag action seq desc p jblk =
     bindE (getE fs_jbd) (\<lambda>j.
     (let blk = tag_fs_block j desc p; esc = tag_has j desc p tag_flag_escape in
     (if (action = Build \<or> action = Flush) \<and> \<not> is_revoked j blk seq then
        bindE (orE (readE (\<lambda>fs. ext4_journal_read_log_block fs jblk)) (-7)) (\<lambda>data.
        bindE (checkE (tag_csum_ok j seq desc p data) (-8)) (\<lambda>_.
        (if action = Build
         then (case replay_upsert j blk jblk esc of None \<Rightarrow> failE (-1) | Some j' \<Rightarrow> set_jbd j')
         else orE (apply_journaled_block_to_fs blk data esc) (-2))))
      else retE ())))"

text \<open>
  The tag loop: \<open>p\<close> is the offset of the next tag, \<open>remaining\<close> the bytes left for tags and
  \<open>jblk\<close> the last log block consumed.  The result is the log block of the last data block.
\<close>

function tags_loop :: "jbd_action \<Rightarrow> u32 \<Rightarrow> buf \<Rightarrow> nat \<Rightarrow> int \<Rightarrow> u32 \<Rightarrow> ('c ext4_fs, u32) op" where
  "tags_loop action seq b p remaining jblk fs =
     (let j = fs_jbd fs; tb = jbd_tag_bytes j in
      if remaining < int tb then (Inr jblk, fs)
      else
        let jblk' = wrap_jblk j (jblk + 1);
            same_uuid = tag_has j b p tag_flag_same_uuid;
            last_tag = tag_has j b p tag_flag_last_tag
        in case apply_tag action seq b p jblk' fs of
             (Inl rc, fs') \<Rightarrow> (Inl rc, fs')
           | (Inr _, fs') \<Rightarrow>
               let remaining' = remaining - int tb in
               if \<not> same_uuid \<and> remaining' < 16 then (Inr jblk', fs')
               else if last_tag then (Inr jblk', fs')
               else if \<not> same_uuid then tags_loop action seq b (p + tb + 16) (remaining' - 16) jblk' fs'
               else tags_loop action seq b (p + tb) remaining' jblk' fs')"
  by pat_completeness auto
termination
  by (relation "measure (\<lambda>(a, s, b, p, remaining, jblk, fs). nat remaining)")
     (auto simp: jbd_tag_bytes_def split: if_splits)

declare tags_loop.simps [simp del]

definition tags_room :: "ext4_jbd \<Rightarrow> int" where
  "tags_room j = sint (jbd_blocksize j) - 12 - (if jbd_csums j then 4 else 0)"

definition iterate_descriptor_tags :: "u32 \<Rightarrow> u32 \<Rightarrow> buf \<Rightarrow> jbd_action \<Rightarrow> ('c ext4_fs, u32) op" where
  "iterate_descriptor_tags this_seq this_block b action fs =
     tags_loop action this_seq b 12 (tags_room (fs_jbd fs)) this_block fs"

section \<open>Revoke blocks\<close>

definition revoke_records :: "ext4_jbd \<Rightarrow> buf \<Rightarrow> u64 list" where
  "revoke_records j b =
     (let count_bytes = be32 b 12;
          record_len = (if jbd_has_64bit j then 8 else 4);
          max_in_block = (jbd_blocksize j - 16) div record_len;
          nr = (count_bytes - 16) div record_len;
          nr_entries = (if max_in_block < nr then max_in_block else nr)
      in if count_bytes < 16 then []
         else map (\<lambda>i. if jbd_has_64bit j then be64 b (16 + i * 8) else ucast (be32 b (16 + i * 4)))
                [0..<unat nr_entries])"

fun revoke_all :: "ext4_jbd \<Rightarrow> u32 \<Rightarrow> u64 list \<Rightarrow> bool \<times> ext4_jbd" where
  "revoke_all j seq [] = (True, j)"
| "revoke_all j seq (blk # blks) =
     (case revoke_upsert j blk seq of None \<Rightarrow> (False, j) | Some j' \<Rightarrow> revoke_all j' seq blks)"

definition handle_revoke :: "u32 \<Rightarrow> buf \<Rightarrow> ('c ext4_fs, unit) op" where
  "handle_revoke this_seq b fs =
     (case revoke_all (fs_jbd fs) this_seq (revoke_records (fs_jbd fs) b) of
        (ok, j) \<Rightarrow> (if ok then Inr () else Inl (-1), fs\<lparr>fs_jbd := j\<rparr>))"

section \<open>The walk\<close>

text \<open>
  The \<open>switch\<close> on the block type: whether the log ends here, the block reached, the sequence
  number expected next and the end of the valid part.
\<close>

type_synonym walk_pos = "bool \<times> u32 \<times> u32 \<times> u32"

definition walk_block :: "jbd_action \<Rightarrow> buf \<Rightarrow> u32 \<Rightarrow> u32 \<Rightarrow> u32 \<Rightarrow> ('c ext4_fs, walk_pos) op" where
  "walk_block action b jblk seq end_seq =
     bindE (getE fs_jbd) (\<lambda>j.
     (let blocktype = be32 b 4 in
     (if blocktype = bt_descriptor then
        (if \<not> verify_meta_block j b then retE (True, jblk, seq, end_seq)
         else
            bindE (iterate_descriptor_tags seq jblk b action) (\<lambda>jblk'.
            retE (False, jblk', seq, end_seq)))
      else if blocktype = bt_commit then
        (if \<not> verify_commit_block j b then retE (True, jblk, seq, end_seq)
         else retE (False, jblk, seq + 1, if action = Scan then seq + 1 else end_seq))
      else if blocktype = bt_revoke then
        (if \<not> verify_meta_block j b then retE (True, jblk, seq, end_seq)
         else if action = Revoke then
            bindE (orE (handle_revoke seq b) (-5)) (\<lambda>_.
            retE (False, jblk, seq, end_seq))
         else retE (False, jblk, seq, end_seq))
      else retE (True, jblk, seq, end_seq))))"

text \<open>\<open>guard\<close> counts the blocks visited, \<open>limit\<close> is \<open>maxlen + 4\<close>; the result is \<open>end_seq\<close>.\<close>

function walk_loop ::
  "jbd_action \<Rightarrow> u32 \<Rightarrow> int \<Rightarrow> int \<Rightarrow> u32 \<Rightarrow> u32 \<Rightarrow> u32 \<Rightarrow> ('c ext4_fs, u32) op" where
  "walk_loop action start_block limit guard jblk seq end_seq fs =
     (if action \<noteq> Scan \<and> 0 < seq_diff seq end_seq then (Inr end_seq, fs)
      else case ext4_journal_read_log_block fs jblk of
        Inl _ \<Rightarrow> (Inl (-2), fs)
      | Inr b \<Rightarrow>
        if be32 b 0 \<noteq> jbd_magic then (Inr end_seq, fs)
        else if be32 b 8 \<noteq> seq then (if action \<noteq> Scan then Inl (-3) else Inr end_seq, fs)
        else case walk_block action b jblk seq end_seq fs of
          (Inl rc, fs') \<Rightarrow> (Inl rc, fs')
        | (Inr (log_end, jblk1, seq', end_seq'), fs') \<Rightarrow>
            let jblk' = wrap_jblk (fs_jbd fs') (jblk1 + 1)
            in if limit < guard + 1 then (Inl (-6), fs')
               else if log_end \<or> jblk' = start_block then (Inr end_seq', fs')
               else walk_loop action start_block limit (guard + 1) jblk' seq' end_seq' fs')"
  by pat_completeness auto
termination
  by (relation "measure (\<lambda>(a, sb, limit, guard, jblk, seq, end_seq, fs). nat (limit - guard))") auto

declare walk_loop.simps [simp del]

text \<open>The result is \<open>*last_seq_io\<close> on return; a clean log leaves it alone.\<close>

definition walk_log :: "jbd_action \<Rightarrow> u32 \<Rightarrow> ('c ext4_fs, u32) op" where
  "walk_log action last_seq fs =
     (let j = fs_jbd fs;
          end_seq = (if action = Scan then 0 else last_seq)
      in if jbd_start j = 0 then (Inr last_seq, fs)
         else case walk_loop action (jbd_start j) (sint (jbd_maxlen j + 4)) 0
                     (jbd_start j) (jbd_sequence j) end_seq fs of
           (Inl rc, fs') \<Rightarrow> (Inl rc, fs')
         | (Inr e, fs') \<Rightarrow>
             (Inr (if action \<noteq> Scan then last_seq
                   else if 0 < seq_diff e (jbd_sequence (fs_jbd fs')) then e - 1 else e), fs'))"

section \<open>Replay\<close>

definition clear_revoke :: "ext4_jbd \<Rightarrow> ext4_jbd" where
  "clear_revoke j = j\<lparr>jbd_revoke := []\<rparr>"

definition clear_tables :: "ext4_jbd \<Rightarrow> ext4_jbd" where
  "clear_tables j = j\<lparr>jbd_replay := [], jbd_revoke := []\<rparr>"

definition on_error :: "('s, 'a) op \<Rightarrow> ('s \<Rightarrow> 's) \<Rightarrow> ('s, 'a) op" where
  "on_error m f s = (case m s of (Inl rc, s') \<Rightarrow> (Inl rc, f s') | (Inr x, s') \<Rightarrow> (Inr x, s'))"

abbreviation upd_jbd :: "(ext4_jbd \<Rightarrow> ext4_jbd) \<Rightarrow> 'c ext4_fs \<Rightarrow> 'c ext4_fs" where
  "upd_jbd f fs \<equiv> fs\<lparr>fs_jbd := f (fs_jbd fs)\<rparr>"

definition ext4_journal_replay :: "('c ext4_fs, unit) op" where
  "ext4_journal_replay fs0 =
     (let j = fs_jbd fs0; writable = bdev_writable (fs_bd fs0) in
      if \<not> jbd_present j then (Inr (), fs0)
      else if jbd_start j = 0 then (Inr (), fs0)
      else
         bindE (walk_log Scan 0) (\<lambda>last_seq.
         (if seq_diff last_seq (jbd_sequence j) < 0 then retE ()
         else
            bindE (on_error (walk_log Revoke last_seq) (upd_jbd clear_revoke)) (\<lambda>_.
            bindE (on_error (walk_log (if writable then Flush else Build) last_seq) (upd_jbd clear_tables)) (\<lambda>_.
            (if writable then retE ()
            else modE (upd_jbd (\<lambda>j. j\<lparr>jbd_replay_active := jbd_replay j \<noteq> []\<rparr>))))))) fs0)"

section \<open>Opening the journal\<close>

definition jbd_parse_extent :: "buf \<Rightarrow> nat \<Rightarrow> ext4_jbd_extent" where
  "jbd_parse_extent iblock i =
     \<lparr>je_logical = le32 iblock (12 + i * 12),
      je_length = ucast (le16 iblock (12 + i * 12 + 4) AND 0x7FFF),
      je_physical = push_bit 32 (ucast (le16 iblock (12 + i * 12 + 6)))
                 OR ucast (le32 iblock (12 + i * 12 + 8))\<rparr>"

definition jbd_incompat_supported :: u32 where
  "jbd_incompat_supported = 0x1 OR 0x2 OR 0x8 OR 0x10"

definition jbd_reset :: "u32 \<Rightarrow> ext4_jbd \<Rightarrow> ext4_jbd" where
  "jbd_reset incompat j =
     j\<lparr>jbd_present := False, jbd_replay_active := False, jbd_extents := [], jbd_replay := [],
       jbd_revoke := [], jbd_pre_replay_start := 0,
       jbd_pre_replay_recover := (incompat AND 0x4 \<noteq> 0)\<rparr>"

definition jbd_parse_sb :: "buf \<Rightarrow> ext4_jbd \<Rightarrow> ext4_jbd" where
  "jbd_parse_sb b j =
     (let j = j\<lparr>jbd_blocksize := be32 b 0x0C, jbd_maxlen := be32 b 0x10, jbd_first := be32 b 0x14,
                jbd_sequence := be32 b 0x18, jbd_start := be32 b 0x1C,
                jbd_pre_replay_start := be32 b 0x1C\<rparr>
      in if be32 b 4 = bt_super_v2
         then j\<lparr>jbd_feature_incompat := be32 b 0x28, jbd_uuid := bytes_of b 0x30 16\<rparr>
         else j\<lparr>jbd_feature_incompat := 0, jbd_uuid := replicate 16 0\<rparr>)"

definition jbd_derive :: "u32 \<Rightarrow> ext4_jbd \<Rightarrow> ext4_jbd" where
  "jbd_derive inum j =
     j\<lparr>jbd_csum_v2 := jbd_feature_incompat j AND 0x8 \<noteq> 0,
       jbd_csum_v3 := jbd_feature_incompat j AND 0x10 \<noteq> 0,
       jbd_has_64bit := jbd_feature_incompat j AND 0x2 \<noteq> 0,
       jbd_inum := inum, jbd_present := True\<rparr>"

definition jbd_load_sb :: "u32 \<Rightarrow> ('c ext4_fs, unit) op" where
  "jbd_load_sb inum =
     bindE (getE (\<lambda>fs. je_physical (jbd_extents (fs_jbd fs) ! 0))) (\<lambda>first_phys_block.
     bindE (getE (\<lambda>fs. s_block_size (fs_sb fs))) (\<lambda>bs.
     bindE (checkE (bs \<le> 4096) (-6)) (\<lambda>_.
     bindE (orE (readE (\<lambda>fs. raw_read fs first_phys_block)) (-7)) (\<lambda>b.
     bindE (checkE (be32 b 0 = jbd_magic) (-8)) (\<lambda>_.
     bindE (checkE (be32 b 4 = bt_superblock \<or> be32 b 4 = bt_super_v2) (-9)) (\<lambda>_.
     bindE (modE (upd_jbd (jbd_parse_sb b))) (\<lambda>_.
     bindE (checkE (be32 b 0x0C = bs) (-10)) (\<lambda>_.
     bindE (getE (\<lambda>fs. jbd_feature_incompat (fs_jbd fs))) (\<lambda>incompat.
     bindE (checkE (incompat AND NOT jbd_incompat_supported = 0) (-11)) (\<lambda>_.
     modE (upd_jbd (jbd_derive inum))))))))))))"

definition ext4_journal_init :: "('c ext4_fs, unit) op" where
  "ext4_journal_init =
     bindE (getE fs_sb) (\<lambda>sb.
     bindE (modE (upd_jbd (jbd_reset (s_feature_incompat sb)))) (\<lambda>_.
     (if s_journal_inum sb = 0 then retE ()
      else
         bindE (orE (ext4_inode_read (s_journal_inum sb)) (-1)) (\<lambda>jinode.
         (let ib = i_block jinode in
         bindE (checkE (le16 ib 0 = ext4_ext_magic) (-2)) (\<lambda>_.
         bindE (checkE (le16 ib 6 = 0) (-3)) (\<lambda>_.
         bindE (checkE (le16 ib 2 \<noteq> 0 \<and> le16 ib 2 \<le> jbd_extent_max) (-4)) (\<lambda>_.
         bindE (modE (upd_jbd (\<lambda>j. j\<lparr>jbd_extents := map (jbd_parse_extent ib) [0..<unat (le16 ib 2)]\<rparr>))) (\<lambda>_.
         bindE (getE (\<lambda>fs. jbd_extents (fs_jbd fs) ! 0)) (\<lambda>first.
         bindE (checkE (je_logical first = 0) (-5)) (\<lambda>_.
         jbd_load_sb (s_journal_inum sb))))))))))))"

end
