(* ===== verification/Commit.thy ===== *)
theory Commit
  imports Journal
begin

text \<open>
  The write side of src/ext4/journal.c: \<open>write_journal_block\<close>, \<open>update_jsb\<close>,
  \<open>update_fs_sb_recover\<close>, \<open>ext4_journal_commit\<close> and \<open>ext4_journal_checkpoint\<close>.

  A transaction is the list of its blocks with their new contents.  The code zeroes the first
  word of a caller's buffer when the block has to be escaped; every caller passes a scratch
  buffer that it fills anew before its next use, so the model escapes a copy.
\<close>

type_synonym jbd_trans = "(u64 \<times> buf) list"

definition trans_max_blocks :: nat where "trans_max_blocks = 8"

section \<open>Blocks of the log and the two superblocks\<close>

definition write_journal_block :: "u32 \<Rightarrow> buf \<Rightarrow> ('c ext4_fs, unit) op" where
  "write_journal_block jblk b fs =
     (case jbd_log_phys (fs_jbd fs) jblk of
        None \<Rightarrow> (Inl (-1), fs)
      | Some phys \<Rightarrow> raw_write phys b fs)"

definition jsb_sector :: "'c ext4_fs \<Rightarrow> u32" where
  "jsb_sector fs =
     ucast (fs_partition_lba fs +
       je_physical (jbd_extents (fs_jbd fs) ! 0) * ucast (block_size fs) div ucast (sector_size (fs_bd fs)))"

definition jsb_patch :: "'c ext4_fs \<Rightarrow> u32 \<Rightarrow> u32 \<Rightarrow> buf \<Rightarrow> buf" where
  "jsb_patch fs new_start new_seq b =
     (let b = be32_pack (be32_pack b 0x18 new_seq) 0x1C new_start
      in if jbd_csums (fs_jbd fs)
         then let b = fill_bytes b 0xFC 0 4
              in be32_pack b 0xFC (crc32c crc32c_init (bytes_of b 0 (bs_nat fs)))
         else b)"

definition update_jsb :: "u32 \<Rightarrow> u32 \<Rightarrow> ('c ext4_fs, unit) op" where
  "update_jsb new_start new_seq =
     bindE (getE (\<lambda>fs. fs)) (\<lambda>fs.
     (let sector = jsb_sector fs; sectors = block_size fs div sector_size (fs_bd fs) in
     bindE (dev_read sector sectors) (\<lambda>b.
     dev_write sector sectors (jsb_patch fs new_start new_seq b))))"

definition fs_sb_sector :: "'c ext4_fs \<Rightarrow> u32" where
  "fs_sb_sector fs = ucast (fs_partition_lba fs + ucast (1024 div sector_size (fs_bd fs)))"

definition sb_set_recover :: "bool \<Rightarrow> buf \<Rightarrow> buf" where
  "sb_set_recover on sb =
     (let feat = le32 sb 0x60;
          sb = put_le32 sb 0x60 (if on then feat OR 0x4 else feat AND NOT 0x4)
      in if le32 sb 0x64 AND 0x400 \<noteq> 0
         then let sb = fill_bytes sb 0x3FC 0 4
              in put_le32 sb 0x3FC (crc32c crc32c_init (bytes_of sb 0 0x3FC))
         else sb)"

definition update_fs_sb_recover :: "bool \<Rightarrow> ('c ext4_fs, unit) op" where
  "update_fs_sb_recover on =
     bindE (getE (\<lambda>fs. fs)) (\<lambda>fs.
     (let sector = fs_sb_sector fs; sectors = 1024 div sector_size (fs_bd fs) in
     bindE (dev_read sector sectors) (\<lambda>sb.
     dev_write sector sectors (sb_set_recover on sb))))"

section \<open>The checkpoint\<close>

fun flush_entries :: "ext4_jbd_replay_entry list \<Rightarrow> ('c ext4_fs, unit) op" where
  "flush_entries [] = retE ()"
| "flush_entries (e # es) =
   bindE (readE (\<lambda>fs. ext4_journal_read_log_block fs (re_journal_blk e))) (\<lambda>b.
   bindE (apply_journaled_block_to_fs (re_fs_block e) b (re_is_escape e)) (\<lambda>_.
   flush_entries es))"

definition checkpoint_done :: "'c ext4_fs \<Rightarrow> 'c ext4_fs" where
  "checkpoint_done fs =
     fs\<lparr>fs_jbd := (fs_jbd fs)\<lparr>jbd_start := 0, jbd_replay := [], jbd_revoke := [], jbd_replay_active := False\<rparr>,
        fs_sb := (fs_sb fs)\<lparr>s_feature_incompat := s_feature_incompat (fs_sb fs) AND NOT 0x4\<rparr>\<rparr>"

definition checkpoint_needed :: "'c ext4_fs \<Rightarrow> bool" where
  "checkpoint_needed fs \<longleftrightarrow> jbd_replay_active (fs_jbd fs) \<or>
     s_feature_incompat (fs_sb fs) AND 0x4 \<noteq> 0 \<or> jbd_start (fs_jbd fs) \<noteq> 0"

definition ext4_journal_checkpoint :: "('c ext4_fs, unit) op" where
  "ext4_journal_checkpoint fs0 =
     (let j = fs_jbd fs0 in
      if \<not> jbd_present j then (Inr (), fs0)
      else if \<not> checkpoint_needed fs0 then (Inr (), fs0)
      else if \<not> bdev_writable (fs_bd fs0) then (Inl (-3), fs0)
      else
         bindE ((if jbd_replay_active j then flush_entries (jbd_replay j) else retE ())) (\<lambda>_.
         bindE (update_jsb 0 (jbd_sequence j)) (\<lambda>_.
         bindE (update_fs_sb_recover False) (\<lambda>_.
         modE checkpoint_done))) fs0)"

section \<open>The blocks of a transaction\<close>

definition needs_escape :: "buf \<Rightarrow> bool" where
  "needs_escape b \<longleftrightarrow> be32 b 0 = jbd_magic"

definition journal_copy :: "buf \<Rightarrow> buf" where
  "journal_copy b = (if needs_escape b then fill_bytes b 0 0 4 else b)"

definition jbd_header :: "u32 \<Rightarrow> u32 \<Rightarrow> buf" where
  "jbd_header blocktype seq =
     be32_pack (be32_pack (be32_pack zero_buf 0 jbd_magic) 4 blocktype) 8 seq"

definition trans_tag_flags :: "nat \<Rightarrow> nat \<Rightarrow> buf \<Rightarrow> u32" where
  "trans_tag_flags i n b =
     (if i + 1 = n then tag_flag_last_tag else 0)
     OR (if 0 < i then tag_flag_same_uuid else 0)
     OR (if needs_escape b then tag_flag_escape else 0)"

text \<open>Tag \<open>i\<close> of \<open>n\<close>, at offset \<open>off\<close> of the descriptor \<open>d\<close>.\<close>

definition put_tag :: "ext4_jbd \<Rightarrow> u32 \<Rightarrow> nat \<Rightarrow> nat \<Rightarrow> buf \<Rightarrow> nat \<Rightarrow> u64 \<Rightarrow> buf \<Rightarrow> buf" where
  "put_tag j seq i n d off blk b =
     (let flags = trans_tag_flags i n b;
          lo = ucast blk; hi = ucast (drop_bit 32 blk);
          per = tag_data_csum j seq (journal_copy b);
          d = be32_pack d off lo
      in if jbd_csum_v3 j then be32_pack (be32_pack (be32_pack d (off + 4) flags) (off + 8) hi) (off + 12) per
         else
           let d = be16_pack d (off + 6) (ucast flags);
               d = (if jbd_has_64bit j then be32_pack d (off + 8) hi else d)
           in if jbd_csums j then be16_pack d (off + 4) (ucast (per AND 0xFFFF)) else d)"

fun put_tags :: "ext4_jbd \<Rightarrow> u32 \<Rightarrow> nat \<Rightarrow> nat \<Rightarrow> buf \<Rightarrow> nat \<Rightarrow> jbd_trans \<Rightarrow> buf" where
  "put_tags j seq i n d off [] = d"
| "put_tags j seq i n d off ((blk, b) # ts) =
     (let d = put_tag j seq i n d off blk b; off = off + jbd_tag_bytes j
      in if i = 0 then put_tags j seq (Suc i) n (put_bytes d off (jbd_uuid j)) (off + 16) ts
         else put_tags j seq (Suc i) n d off ts)"

definition descriptor_block :: "ext4_jbd \<Rightarrow> u32 \<Rightarrow> jbd_trans \<Rightarrow> buf" where
  "descriptor_block j seq ts =
     (let d = put_tags j seq 0 (length ts) (jbd_header bt_descriptor seq) 12 ts
      in if jbd_csums j
         then be32_pack d (jbd_bs j - 4)
                (crc32c (crc32c crc32c_init (jbd_uuid j)) (bytes_of d 0 (jbd_bs j)))
         else d)"

definition commit_block :: "ext4_jbd \<Rightarrow> u32 \<Rightarrow> buf" where
  "commit_block j seq =
     (let b = jbd_header bt_commit seq
      in if jbd_csums j
         then let b = b(12 := 4, 13 := 4)
              in be32_pack b 16 (crc32c (crc32c crc32c_init (jbd_uuid j)) (bytes_of b 0 (jbd_bs j)))
         else b)"

section \<open>The commit\<close>

fun write_data_blocks :: "u32 \<Rightarrow> jbd_trans \<Rightarrow> ('c ext4_fs, unit) op" where
  "write_data_blocks jblk [] = retE ()"
| "write_data_blocks jblk ((blk, b) # ts) =
   bindE (write_journal_block jblk (journal_copy b)) (\<lambda>_.
   write_data_blocks (jblk + 1) ts)"

fun stash_escapes :: "bool list \<Rightarrow> ext4_jbd_replay_entry list \<Rightarrow> ext4_jbd_replay_entry list" where
  "stash_escapes (x # xs) (e # es) = e\<lparr>re_is_escape := x\<rparr> # stash_escapes xs es"
| "stash_escapes [] es = es"
| "stash_escapes xs [] = []"

fun trans_entries :: "u32 \<Rightarrow> jbd_trans \<Rightarrow> ext4_jbd_replay_entry list" where
  "trans_entries jblk [] = []"
| "trans_entries jblk ((blk, b) # ts) =
     \<lparr>re_fs_block = blk, re_journal_blk = jblk, re_is_escape = needs_escape b\<rparr>
     # trans_entries (jblk + 1) ts"

definition descriptor_cap :: "ext4_jbd \<Rightarrow> int" where
  "descriptor_cap j = sint (jbd_blocksize j) - 12 - 16 - (if jbd_csums j then 4 else 0)"

definition ext4_journal_commit :: "jbd_trans \<Rightarrow> ('c ext4_fs, unit) op" where
  "ext4_journal_commit ts =
     bindE (getE fs_jbd) (\<lambda>j.
     bindE (getE fs_bd) (\<lambda>bd.
     (let n = word_of_nat (length ts); this_seq = jbd_sequence j; this_first = jbd_first j in
     bindE (checkE (jbd_present j) (-1)) (\<lambda>_.
     bindE (checkE (bdev_writable bd) (-2)) (\<lambda>_.
     bindE (checkE (jbd_start j = 0) (-3)) (\<lambda>_.
     bindE (checkE (length ts \<noteq> 0 \<and> length ts \<le> trans_max_blocks) (-4)) (\<lambda>_.
     bindE (checkE (this_first + 1 + n + 1 \<le> jbd_maxlen j) (-7)) (\<lambda>_.
     bindE (checkE (int (length ts * jbd_tag_bytes j) \<le> descriptor_cap j) (-8)) (\<lambda>_.
     bindE (modE (upd_jbd (\<lambda>j. j\<lparr>jbd_replay := stash_escapes (map (needs_escape \<circ> snd) ts) (jbd_replay j)\<rparr>))) (\<lambda>_.
     bindE (update_fs_sb_recover True) (\<lambda>_.
     bindE (write_journal_block this_first (descriptor_block j this_seq ts)) (\<lambda>_.
     bindE (write_data_blocks (this_first + 1) ts) (\<lambda>_.
     bindE (write_journal_block (this_first + 1 + n) (commit_block j this_seq)) (\<lambda>_.
     bindE (update_jsb this_first this_seq) (\<lambda>_.
     bindE (modE (upd_jbd (\<lambda>j. j\<lparr>jbd_start := this_first, jbd_replay_active := True,
                            jbd_replay := trans_entries (this_first + 1) ts\<rparr>))) (\<lambda>_.
     bindE (ext4_journal_checkpoint) (\<lambda>_.
     bindE (modE (upd_jbd (\<lambda>j. j\<lparr>jbd_sequence := this_seq + 1\<rparr>))) (\<lambda>_.
     modE ext4_fs_bgd_invalidate))))))))))))))))))"

end
