(* ===== verification/Mount.thy ===== *)
theory Mount
  imports Commit
begin

text \<open>
  \<open>ext4_fs_open\<close> of src/ext4/fs.c: the superblock, the group geometry, then the journal, its
  replay and, on a writable device, the checkpoint that clears a leftover RECOVER flag.
\<close>

definition jbd_none :: ext4_jbd where
  "jbd_none = \<lparr>jbd_present = False, jbd_replay_active = False, jbd_pre_replay_recover = False,
     jbd_inum = 0, jbd_blocksize = 0, jbd_maxlen = 0, jbd_first = 0, jbd_sequence = 0,
     jbd_start = 0, jbd_pre_replay_start = 0, jbd_feature_incompat = 0, jbd_uuid = replicate 16 0,
     jbd_csum_v2 = False, jbd_csum_v3 = False, jbd_has_64bit = False,
     jbd_extents = [], jbd_replay = [], jbd_revoke = []\<rparr>"

definition fs_group_count :: "ext4_superblock \<Rightarrow> u64" where
  "fs_group_count sb =
     (s_blocks_count sb + ucast (s_blocks_per_group sb) - 1) div ucast (s_blocks_per_group sb)"

definition fs_bare :: "'c blockdev \<Rightarrow> u64 \<Rightarrow> ext4_superblock \<Rightarrow> 'c ext4_fs" where
  "fs_bare bd lba sb =
     \<lparr>fs_bd = bd, fs_partition_lba = lba, fs_sb = sb, fs_bgd_buf = zero_buf,
      fs_bgd_cached_block = ext4_fs_bgd_invalid, fs_bgd_count = ucast (fs_group_count sb),
      fs_bgd_size = (if s_feature_incompat sb AND 0x80 \<noteq> 0 then 64 else 32), fs_jbd = jbd_none\<rparr>"

text \<open>The journal part: a journal that cannot be opened does not stop the mount, a replay that
  fails does, a checkpoint that fails does not.\<close>

definition open_journal :: "('c ext4_fs, unit) op" where
  "open_journal =
     bindE (tryE ext4_journal_init) (\<lambda>inited.
     bindE (getE (\<lambda>fs. jbd_present (fs_jbd fs))) (\<lambda>present.
     (if inited = None \<or> \<not> present then retE ()
      else
         bindE (orE ext4_journal_replay (-6)) (\<lambda>_.
         bindE (getE (\<lambda>fs. bdev_writable (fs_bd fs))) (\<lambda>writable.
         (if writable then
           bindE (tryE ext4_journal_checkpoint) (\<lambda>done.
           retE ())
         else retE ()))))))"

text \<open>On failure the device may have been written by a replay that stopped half way; it is part
  of the result.\<close>

definition ext4_fs_open :: "'c blockdev \<Rightarrow> u64 \<Rightarrow> (int + 'c ext4_fs) \<times> 'c blockdev" where
  "ext4_fs_open bd lba =
     (if sector_size bd = 0 then (Inl rc_trap, bd)
      else case bdev_read bd (lba + ucast (1024 div sector_size bd)) (1024 div sector_size bd) of
        Inl _ \<Rightarrow> (Inl (-1), bd)
      | Inr b \<Rightarrow>
        (case ext4_superblock_parse b of
           Inl _ \<Rightarrow> (Inl (-2), bd)
         | Inr sb \<Rightarrow>
             if s_blocks_per_group sb = 0 then (Inl rc_trap, bd)
             else if 0xFFFFFFFF < fs_group_count sb then (Inl (-3), bd)
             else case open_journal (fs_bare bd lba sb) of
                    (Inl rc, fs) \<Rightarrow> (Inl rc, fs_bd fs)
                  | (Inr _, fs) \<Rightarrow> (Inr fs, fs_bd fs)))"

end
