(* ===== verification/Disk.thy ===== *)
theory Disk
  imports FsState
begin

text \<open>
  A mounted volume on an image file seen as an array of blocks.  \<open>disk fs n\<close> is the content
  of block \<open>n\<close>; reading and writing a block of the file system is reading and updating that
  array.  \<open>emits\<close> says which block writes an operation performs, and that an operation cut short
  by the device has performed a prefix of them: this is the form in which every statement about
  power cuts is proved.
\<close>

section \<open>Volumes\<close>

definition vol_base :: "file_ctx ext4_fs \<Rightarrow> nat" where
  "vol_base fs = unat (fs_partition_lba fs) * 512"

definition vol :: "file_ctx ext4_fs \<Rightarrow> bool" where
  "vol fs \<longleftrightarrow> file_dev (fs_bd fs) \<and> write_sectors (fs_bd fs) = Some file_bdev_write \<and>
     sector_size (fs_bd fs) = 512 \<and> block_size fs \<in> {1024, 2048, 4096}"

text \<open>Block \<open>n\<close> lies in the image and in the range the driver's 32-bit addressing can reach.\<close>

definition blk_ok :: "file_ctx ext4_fs \<Rightarrow> nat \<Rightarrow> bool" where
  "blk_ok fs n \<longleftrightarrow> (n + 1) * bs_nat fs \<le> 2 ^ 32 \<and>
     vol_base fs + (n + 1) * bs_nat fs \<le> file_len (bdev_ctx (fs_bd fs)) \<and>
     vol_base fs + (n + 1) * bs_nat fs \<le> 2 ^ 41"

definition trunc :: "nat \<Rightarrow> buf \<Rightarrow> buf" where
  "trunc n b = (\<lambda>i. if i < n then b i else 0)"

definition disk :: "file_ctx ext4_fs \<Rightarrow> nat \<Rightarrow> buf" where
  "disk fs n = trunc (bs_nat fs) (at (file_contents (fs_bd fs)) (vol_base fs + n * bs_nat fs))"

definition alive :: "file_ctx ext4_fs \<Rightarrow> bool" where
  "alive fs \<longleftrightarrow> fail_after (bdev_ctx (fs_bd fs)) < 0"

text \<open>The device has stopped: it takes no write any more.\<close>

definition dead :: "file_ctx ext4_fs \<Rightarrow> bool" where
  "dead fs \<longleftrightarrow> write_sectors (fs_bd fs) = Some file_bdev_write \<and> fail_after (bdev_ctx (fs_bd fs)) = 0"

text \<open>What every operation keeps of a volume.\<close>

definition vol_step :: "file_ctx ext4_fs \<Rightarrow> file_ctx ext4_fs \<Rightarrow> bool" where
  "vol_step fs fs' \<longleftrightarrow> vol fs' \<and> (\<forall>n. blk_ok fs n \<longrightarrow> blk_ok fs' n) \<and>
     fs_partition_lba fs' = fs_partition_lba fs \<and> block_size fs' = block_size fs \<and>
     (alive fs \<longrightarrow> alive fs')"

lemma vol_step_refl [simp]: "vol fs \<Longrightarrow> vol_step fs fs"
  by (simp add: vol_step_def)

lemma vol_step_trans: "vol_step a b \<Longrightarrow> vol_step b c \<Longrightarrow> vol_step a c"
  by (simp add: vol_step_def)

lemma vol_stepD:
  assumes "vol_step fs fs'"
  shows "vol fs'" "blk_ok fs n \<Longrightarrow> blk_ok fs' n" "fs_partition_lba fs' = fs_partition_lba fs"
    "block_size fs' = block_size fs" "alive fs \<Longrightarrow> alive fs'"
  using assms by (auto simp: vol_step_def)

lemma trunc_apply [simp, buf_simps]: "i < n \<Longrightarrow> trunc n b i = b i"
  by (simp add: trunc_def)

lemma trunc_beyond [simp]: "n \<le> i \<Longrightarrow> trunc n b i = 0"
  by (simp add: trunc_def)

lemma trunc_trunc [simp]: "trunc n (trunc n b) = trunc n b"
  by (rule ext) (simp add: trunc_def)

lemma trunc_disk [simp]: "trunc (bs_nat fs) (disk fs n) = disk fs n"
  by (simp add: disk_def)

lemma trunc_eq_iff: "trunc n b = trunc n c \<longleftrightarrow> (\<forall>i<n. b i = c i)"
  by (auto simp: trunc_def fun_eq_iff)

lemma bytes_of_trunc: "off + m \<le> n \<Longrightarrow> bytes_of (trunc n b) off m = bytes_of b off m"
  by (rule bytes_of_cong) simp

lemma be32_trunc [simp]: "p + 4 \<le> n \<Longrightarrow> be32 (trunc n b) p = be32 b p"
  by (rule be32_cong) simp

lemma be16_trunc [simp]: "p + 2 \<le> n \<Longrightarrow> be16 (trunc n b) p = be16 b p"
  by (rule be16_cong) simp_all

lemma le32_trunc [simp]: "p + 4 \<le> n \<Longrightarrow> le32 (trunc n b) p = le32 b p"
  by (rule le32_cong) simp

lemma le16_trunc [simp]: "p + 2 \<le> n \<Longrightarrow> le16 (trunc n b) p = le16 b p"
  by (rule le16_cong) simp_all

lemma vol_bs_cases:
  assumes "vol fs"
  obtains "block_size fs = 1024" "bs_nat fs = 1024" | "block_size fs = 2048" "bs_nat fs = 2048"
    | "block_size fs = 4096" "bs_nat fs = 4096"
  using assms by (auto simp: vol_def)

lemma vol_bs: 
  assumes "vol fs"
  shows "1024 \<le> bs_nat fs" "bs_nat fs \<le> 4096" "0 < bs_nat fs" "512 dvd bs_nat fs" "1024 dvd bs_nat fs"
  using assms by (auto elim!: vol_bs_cases)

section \<open>Addresses\<close>

lemma block_sector:
  assumes v: "vol fs" and ok: "blk_ok fs (unat blk)"
  shows "unat (fs_block_sector fs blk) * 512 = vol_base fs + unat blk * bs_nat fs"
    "unat (fs_block_sectors fs) * 512 = bs_nat fs"
    "vol_base fs + unat blk * bs_nat fs < 2 ^ 41"
proof -
  let ?n = "unat blk"
  have bs: "0 < bs_nat fs" "512 dvd bs_nat fs" and ss: "sector_size (fs_bd fs) = 512"
    using v vol_bs [OF v] by (auto simp: vol_def)
  have lim: "?n * bs_nat fs < 2 ^ 32"
    using ok bs by (simp add: blk_ok_def)
  have "unat (blk * ucast (block_size fs)) = ?n * bs_nat fs"
    using lim by (simp add: unat_mult_small)
  then have byte: "unat (fs_block_byte fs blk) = ?n * bs_nat fs"
    using lim by (simp add: fs_block_byte_def unat_ucast_64_32)
  define q where "q = ?n * bs_nat fs div 512"
  have q: "q * 512 = ?n * bs_nat fs" using bs(2) by (simp add: q_def)
  have quo: "unat (fs_block_byte fs blk div sector_size (fs_bd fs)) = q"
    by (simp add: unat_div ss byte q_def)
  have "vol_base fs + ?n * bs_nat fs + bs_nat fs \<le> 2 ^ 41"
    using ok by (simp add: blk_ok_def algebra_simps)
  with bs show lt: "vol_base fs + unat blk * bs_nat fs < 2 ^ 41" by simp
  then have sum: "unat (fs_partition_lba fs) + q < 2 ^ 32"
    using q by (simp add: vol_base_def)
  have "unat (fs_block_sector fs blk) = unat (fs_partition_lba fs) + q"
    using sum by (simp add: fs_block_sector_def unat_ucast_64_32 unat_add_small quo)
  then show "unat (fs_block_sector fs blk) * 512 = vol_base fs + unat blk * bs_nat fs"
    by (simp add: vol_base_def q)
  show "unat (fs_block_sectors fs) * 512 = bs_nat fs"
    using bs(2) by (simp add: fs_block_sectors_def unat_div ss)
qed

text \<open>A transfer of the file system's device, given by sector and count.\<close>

lemma sector_reach:
  assumes v: "vol fs" and "0 < unat count" "unat sector * 512 < 2 ^ 41"
    "unat sector * 512 + unat count * 512 \<le> file_len (bdev_ctx (fs_bd fs))"
  shows "file_reach (fs_bd fs) (ucast (sector :: u32)) count"
    "file_pos (fs_bd fs) (ucast sector) = unat sector * 512"
    "file_xlen (fs_bd fs) count = unat count * 512"
proof -
  have ss: "sector_size (fs_bd fs) = 512" using v by (simp add: vol_def)
  have "unat sector * 512 < 2 ^ 64" using assms(3) by simp
  then have off: "unat (file_off 512 (ucast sector)) = unat sector * 512"
    by (simp add: file_off_def unat_mult_small)
  then have "unat (file_off 512 (ucast sector)) < 2 ^ 63" using assms(3) by simp
  then have "0 \<le> sint (file_off 512 (ucast sector))"
    by (simp add: sint_small)
  with off ss assms show "file_reach (fs_bd fs) (ucast (sector :: u32)) count"
    "file_pos (fs_bd fs) (ucast sector) = unat sector * 512"
    "file_xlen (fs_bd fs) count = unat count * 512"
    by (simp_all add: file_reach_def file_want_def file_pos_def file_xlen_def)
qed

section \<open>Reads and writes\<close>

lemma sector_read:
  assumes v: "vol fs" and "0 < unat count" "unat sector * 512 < 2 ^ 41"
    "unat sector * 512 + unat count * 512 \<le> file_len (bdev_ctx (fs_bd fs))"
  shows "bdev_read (fs_bd fs) (ucast (sector :: u32)) count =
    Inr (trunc (unat count * 512) (at (file_contents (fs_bd fs)) (unat sector * 512)))"
proof -
  note r = sector_reach [OF assms]
  have "file_dev (fs_bd fs)" using v by (simp add: vol_def)
  from file_dev_read [OF this r(1)] show ?thesis
    unfolding r(2,3) by (simp add: trunc_def at_def)
qed

lemma file_write_alive:
  "fail_after c < 0 \<Longrightarrow> 0 \<le> sint (file_off ss lba) \<Longrightarrow>
   fst (file_bdev_write c ss lba count b) = 0 \<and> fail_after (snd (file_bdev_write c ss lba count b)) < 0"
  by (simp add: file_bdev_write_def Let_def bdev_ok_def)

lemma sector_write:
  assumes v: "vol fs" and c: "0 < unat count" "unat sector * 512 < 2 ^ 41"
    "unat sector * 512 + unat count * 512 \<le> file_len (bdev_ctx (fs_bd fs))"
    and w: "dev_write (sector :: u32) count b fs = (r, fs')"
  shows "vol_step fs fs'" "fs' = fs\<lparr>fs_bd := fs_bd fs'\<rparr>"
    "r = Inr x \<Longrightarrow> file_contents (fs_bd fs') =
       copy_bytes (file_contents (fs_bd fs)) (unat sector * 512) b (unat count * 512)"
    "r = Inl rc \<Longrightarrow> file_contents (fs_bd fs') = file_contents (fs_bd fs)"
    "alive fs \<Longrightarrow> r = Inr ()" "r = Inl rc \<Longrightarrow> dead fs'"
proof -
  obtain rc' bd where bw: "bdev_write (fs_bd fs) (ucast sector) count b = (rc', bd)" by fastforce
  with w have r: "r = (if rc' = 0 then Inr () else Inl rc')" and fs': "fs' = fs\<lparr>fs_bd := bd\<rparr>"
    by (simp_all add: dev_write_def)
  have fd: "file_dev (fs_bd fs)" and ws: "write_sectors (fs_bd fs) = Some file_bdev_write"
    using v by (auto simp: vol_def)
  note reach = sector_reach [OF v c]
  note fw = file_dev_write [OF fd bw]
  from bw ws obtain cx where cx: "file_bdev_write (bdev_ctx (fs_bd fs)) (sector_size (fs_bd fs))
      (ucast sector) count b = (rc', cx)" and bd: "bd = (fs_bd fs)\<lparr>bdev_ctx := cx\<rparr>"
    by (auto simp: bdev_write_def split: prod.splits)
  have len: "file_len (bdev_ctx (fs_bd fs)) \<le> file_len cx"
    using cx by (cases rule: file_bdev_write_cases) auto
  have al: "alive fs \<Longrightarrow> rc' = 0 \<and> fail_after cx < 0"
    using file_write_alive [of "bdev_ctx (fs_bd fs)" "sector_size (fs_bd fs)" "ucast sector" count b]
      reach(1) cx by (simp add: alive_def file_reach_def)
  show "fs' = fs\<lparr>fs_bd := fs_bd fs'\<rparr>" by (simp add: fs')
  show "vol_step fs fs'"
    using v fw(1,6) len al
    by (auto simp: vol_step_def vol_def fs' bd blk_ok_def vol_base_def alive_def)
  show "alive fs \<Longrightarrow> r = Inr ()" using al r by simp
  have "fail_after cx = 0" if "rc' \<noteq> 0"
    using cx that reach(1) by (auto simp: file_bdev_write_def file_reach_def bdev_ok_def Let_def split: if_splits)
  then show "r = Inl rc \<Longrightarrow> dead fs'" using r by (auto simp: dead_def fs' bd ws split: if_splits)
  show "r = Inl rc \<Longrightarrow> file_contents (fs_bd fs') = file_contents (fs_bd fs)"
    using fw(2) r fs' by (auto split: if_splits)
  show "r = Inr x \<Longrightarrow> file_contents (fs_bd fs') =
       copy_bytes (file_contents (fs_bd fs)) (unat sector * 512) b (unat count * 512)"
    using fw(8) [OF reach(1)] reach(2,3) r fs' by (auto split: if_splits)
qed

text \<open>A block of the volume.\<close>

lemma block_in_file:
  assumes "vol fs" "blk_ok fs (unat blk)"
  shows "0 < unat (fs_block_sectors fs)" "unat (fs_block_sector fs blk) * 512 < 2 ^ 41"
    "unat (fs_block_sector fs blk) * 512 + unat (fs_block_sectors fs) * 512
       \<le> file_len (bdev_ctx (fs_bd fs))"
proof -
  note s = block_sector [OF assms]
  show "0 < unat (fs_block_sectors fs)" using s(2) vol_bs(3) [OF assms(1)] by linarith
  show "unat (fs_block_sector fs blk) * 512 < 2 ^ 41" using s by simp
  show "unat (fs_block_sector fs blk) * 512 + unat (fs_block_sectors fs) * 512
       \<le> file_len (bdev_ctx (fs_bd fs))"
    unfolding s(1,2) using assms(2) by (simp add: blk_ok_def algebra_simps)
qed

lemma raw_read_disk:
  assumes "vol fs" "blk_ok fs (unat blk)"
  shows "raw_read fs blk = Inr (disk fs (unat blk))"
  using sector_read [OF assms(1) block_in_file [OF assms]] block_sector(1,2) [OF assms]
  by (simp add: raw_read_def disk_def)

lemma copy_bytes_disk:
  assumes "off + m \<le> n"
  shows "trunc n (at (copy_bytes f (base + k * n + off) b m) (base + j * n)) =
    (if j = k then copy_bytes (trunc n (at f (base + k * n))) off b m else trunc n (at f (base + j * n)))"
proof (cases "j = k")
  case True
  then show ?thesis using assms by (auto simp: fun_eq_iff trunc_def copy_bytes_def)
next
  case False
  have "\<not> (base + k * n + off \<le> base + j * n + i \<and> base + j * n + i < base + k * n + off + m)"
    if "i < n" for i
  proof (cases "j < k")
    case True
    then have "Suc j * n \<le> k * n" by (intro mult_le_mono1) simp
    with that show ?thesis by simp
  next
    case False
    with \<open>j \<noteq> k\<close> have "Suc k * n \<le> j * n" by (intro mult_le_mono1) simp
    with assms show ?thesis by simp
  qed
  with False show ?thesis by (auto simp: fun_eq_iff trunc_def copy_bytes_def)
qed

lemma same_disk:
  assumes "vol_step fs fs'" "file_contents (fs_bd fs') = file_contents (fs_bd fs)"
  shows "disk fs' = disk fs"
  unfolding disk_def vol_base_def assms(2) vol_stepD(3,4) [OF assms(1)] ..

lemma copy_disk:
  assumes st: "vol_step fs fs'" and "off + m \<le> bs_nat fs"
    and "file_contents (fs_bd fs') =
      copy_bytes (file_contents (fs_bd fs)) (vol_base fs + k * bs_nat fs + off) b m"
  shows "disk fs' = (disk fs)(k := copy_bytes (disk fs k) off b m)"
proof
  fix j
  have "vol_base fs' = vol_base fs" using vol_stepD [OF st] by (simp add: vol_base_def)
  then show "disk fs' j = ((disk fs)(k := copy_bytes (disk fs k) off b m)) j"
    using vol_stepD [OF st] assms(2,3) by (simp add: disk_def copy_bytes_disk)
qed


text \<open>The superblock: 1024 bytes at byte 1024, in block 1 or at offset 1024 of block 0.\<close>

definition sb_blk :: "'c ext4_fs \<Rightarrow> nat" where
  "sb_blk fs = 1024 div bs_nat fs"

definition sb_off :: "'c ext4_fs \<Rightarrow> nat" where
  "sb_off fs = 1024 mod bs_nat fs"

lemma sb_fits:
  assumes "vol fs"
  shows "sb_off fs + 1024 \<le> bs_nat fs" "sb_blk fs * bs_nat fs + sb_off fs = 1024"
  using assms by (auto simp: sb_off_def sb_blk_def elim!: vol_bs_cases)

section \<open>The writes an operation emits\<close>

type_synonym blk_write = "nat \<times> buf"

fun dwrites :: "(nat \<Rightarrow> buf) \<Rightarrow> blk_write list \<Rightarrow> nat \<Rightarrow> buf" where
  "dwrites d [] = d"
| "dwrites d ((n, b) # ws) = dwrites (d(n := b)) ws"

lemma dwrites_append: "dwrites d (xs @ ys) = dwrites (dwrites d xs) ys"
  by (induction xs arbitrary: d) auto

lemma dwrites_other: "n \<notin> fst ` set ws \<Longrightarrow> dwrites d ws n = d n"
  by (induction ws arbitrary: d) auto

lemma dwrites_distinct:
  "distinct (map fst ws) \<Longrightarrow> (n, b) \<in> set ws \<Longrightarrow> dwrites d ws n = b"
proof (induction ws arbitrary: d)
  case (Cons w ws)
  then show ?case by (cases w) (auto simp: dwrites_other)
qed simp

lemma dwrites_idem:
  "distinct (map fst ws) \<Longrightarrow> dwrites (dwrites d (take k ws)) ws = dwrites d ws"
proof
  fix n
  assume d: "distinct (map fst ws)"
  show "dwrites (dwrites d (take k ws)) ws n = dwrites d ws n"
  proof (cases "n \<in> fst ` set ws")
    case True
    then obtain b where "(n, b) \<in> set ws" by force
    then show ?thesis by (simp add: dwrites_distinct [OF d])
  next
    case False
    then have "n \<notin> fst ` set (take k ws)" by (meson image_mono in_mono set_take_subset)
    with False show ?thesis by (simp add: dwrites_other)
  qed
qed

definition emits ::
  "file_ctx ext4_fs \<Rightarrow> blk_write list \<Rightarrow> (file_ctx ext4_fs, 'a) op
     \<Rightarrow> ('a \<Rightarrow> file_ctx ext4_fs \<Rightarrow> bool) \<Rightarrow> bool" where
  "emits fs ws m Q \<longleftrightarrow>
     (case m fs of (r, fs') \<Rightarrow> vol_step fs fs' \<and>
        (case r of Inr x \<Rightarrow> disk fs' = dwrites (disk fs) ws \<and> Q x fs'
         | Inl rc \<Rightarrow> \<not> alive fs \<and> dead fs' \<and> (\<exists>k \<le> length ws. disk fs' = dwrites (disk fs) (take k ws))))"

lemma emitsI:
  assumes "\<And>r fs'. m fs = (r, fs') \<Longrightarrow> vol_step fs fs'"
    "\<And>x fs'. m fs = (Inr x, fs') \<Longrightarrow> disk fs' = dwrites (disk fs) ws \<and> Q x fs'"
    "\<And>rc fs'. m fs = (Inl rc, fs') \<Longrightarrow>
       \<not> alive fs \<and> dead fs' \<and> (\<exists>k \<le> length ws. disk fs' = dwrites (disk fs) (take k ws))"
  shows "emits fs ws m Q"
  using assms by (auto simp: emits_def split: prod.split sum.split)

lemma emitsE:
  assumes "emits fs ws m Q" "m fs = (r, fs')"
  obtains (ok) x where "r = Inr x" "vol_step fs fs'" "disk fs' = dwrites (disk fs) ws" "Q x fs'"
    | (cut) rc k where "r = Inl rc" "vol_step fs fs'" "\<not> alive fs" "k \<le> length ws"
        "disk fs' = dwrites (disk fs) (take k ws)" "dead fs'"
  using assms by (cases r) (auto simp: emits_def)

lemma emits_retE: "vol fs \<Longrightarrow> Q x fs \<Longrightarrow> emits fs [] (retE x) Q"
  by (simp add: emits_def)

lemma emits_mono: "emits fs ws m Q \<Longrightarrow> (\<And>x fs'. vol_step fs fs' \<Longrightarrow> Q x fs' \<Longrightarrow> Q' x fs') \<Longrightarrow> emits fs ws m Q'"
  by (auto simp: emits_def split: prod.splits sum.splits)

lemma emits_bind:
  assumes m: "emits fs ws1 m Q"
    and f: "\<And>x fs1. vol_step fs fs1 \<Longrightarrow> disk fs1 = dwrites (disk fs) ws1 \<Longrightarrow> Q x fs1 \<Longrightarrow>
      emits fs1 ws2 (f x) Q'"
  shows "emits fs (ws1 @ ws2) (bindE m f) Q'"
proof -
  obtain r fs1 where r: "m fs = (r, fs1)" by fastforce
  from m r show ?thesis
  proof (cases rule: emitsE)
    case (cut rc k)
    then have "take k (ws1 @ ws2) = take k ws1" by simp
    with cut r show ?thesis
      by (auto simp: emits_def bindE_def intro!: exI [of _ k])
  next
    case (ok x)
    obtain r2 fs2 where r2: "f x fs1 = (r2, fs2)" by fastforce
    from f [OF ok(2-4)] r2 show ?thesis
    proof (cases rule: emitsE)
      case (ok y)
      with \<open>r = Inr x\<close> r r2 \<open>vol_step fs fs1\<close> \<open>disk fs1 = _\<close> show ?thesis
        by (auto simp: emits_def bindE_def dwrites_append intro: vol_step_trans)
    next
      case (cut rc k)
      have "take (length ws1 + k) (ws1 @ ws2) = ws1 @ take k ws2" by simp
      with cut \<open>r = Inr x\<close> r r2 \<open>vol_step fs fs1\<close> \<open>disk fs1 = _\<close> show ?thesis
        using vol_stepD(5) [OF \<open>vol_step fs fs1\<close>]
        by (auto simp: emits_def bindE_def dwrites_append
            intro: vol_step_trans intro!: exI [of _ "length ws1 + k"])
    qed
  qed
qed

text \<open>A step that touches no device: a check that holds, or an update of the handle.\<close>

lemma emits_readE:
  "vol fs \<Longrightarrow> g fs = Inr x \<Longrightarrow> emits fs ws (f x) Q \<Longrightarrow> emits fs ws (bindE (readE g) f) Q"
  by (simp add: emits_def bindE_def)

lemma emits_getE: "emits fs ws (f (g fs)) Q \<Longrightarrow> emits fs ws (bindE (getE g) f) Q"
  by (simp add: emits_def bindE_def)

lemma emits_checkE: "ok \<Longrightarrow> emits fs ws (f ()) Q \<Longrightarrow> emits fs ws (bindE (checkE ok rc) f) Q"
  by (simp add: emits_def bindE_def)

lemma emits_orE: "emits fs ws m Q \<Longrightarrow> emits fs ws (orE m rc) Q"
  by (auto simp: emits_def orE_def split: prod.splits sum.splits)

definition only_dev :: "'c ext4_fs \<Rightarrow> 'c ext4_fs \<Rightarrow> bool" where
  "only_dev fs fs' \<longleftrightarrow> fs' = fs\<lparr>fs_bd := fs_bd fs'\<rparr>"

lemma only_devD:
  assumes "only_dev fs fs'"
  shows "fs_jbd fs' = fs_jbd fs" "fs_sb fs' = fs_sb fs" "fs_partition_lba fs' = fs_partition_lba fs"
    "fs_bgd_cached_block fs' = fs_bgd_cached_block fs" "fs_bgd_buf fs' = fs_bgd_buf fs"
    "fs_bgd_count fs' = fs_bgd_count fs" "fs_bgd_size fs' = fs_bgd_size fs"
proof -
  have e: "fs' = fs\<lparr>fs_bd := fs_bd fs'\<rparr>" using assms by (simp add: only_dev_def)
  show "fs_jbd fs' = fs_jbd fs" "fs_sb fs' = fs_sb fs" "fs_partition_lba fs' = fs_partition_lba fs"
    "fs_bgd_cached_block fs' = fs_bgd_cached_block fs" "fs_bgd_buf fs' = fs_bgd_buf fs"
    "fs_bgd_count fs' = fs_bgd_count fs" "fs_bgd_size fs' = fs_bgd_size fs"
    by (subst e, simp)+
qed

lemma only_dev_refl [simp]: "only_dev fs fs"
  by (simp add: only_dev_def)

lemma only_dev_trans:
  assumes "only_dev a b" "only_dev b c"
  shows "only_dev a c"
proof -
  have "c = b\<lparr>fs_bd := fs_bd c\<rparr>" "b = a\<lparr>fs_bd := fs_bd b\<rparr>"
    using assms by (simp_all add: only_dev_def)
  then have "c = a\<lparr>fs_bd := fs_bd b\<rparr>\<lparr>fs_bd := fs_bd c\<rparr>" by metis
  then show ?thesis by (simp add: only_dev_def)
qed

lemma emits_sector_write:
  assumes v: "vol fs" and c: "0 < unat count" "unat sector * 512 < 2 ^ 41"
    "unat sector * 512 + unat count * 512 \<le> file_len (bdev_ctx (fs_bd fs))"
    and at: "unat sector * 512 = vol_base fs + k * bs_nat fs + off" "off + unat count * 512 \<le> bs_nat fs"
  shows "emits fs [(k, copy_bytes (disk fs k) off b (unat count * 512))]
     (dev_write (sector :: u32) count b) (\<lambda>_ fs'. only_dev fs fs')"
proof (rule emitsI)
  fix r fs'
  assume w: "dev_write sector count b fs = (r, fs')"
  show "vol_step fs fs'" by (rule sector_write(1) [OF v c w])
next
  fix x fs'
  assume w: "dev_write sector count b fs = (Inr x, fs')"
  note s = sector_write [OF v c w]
  show "disk fs' = dwrites (disk fs) [(k, copy_bytes (disk fs k) off b (unat count * 512))] \<and> only_dev fs fs'"
    using copy_disk [OF s(1) at(2) s(3) [OF refl, unfolded at(1)]] s(2) by (simp add: only_dev_def)
next
  fix rc fs'
  assume w: "dev_write sector count b fs = (Inl rc, fs')"
  note s = sector_write [OF v c w]
  show "\<not> alive fs \<and> dead fs' \<and> (\<exists>ka \<le> length [(k, copy_bytes (disk fs k) off b (unat count * 512))].
      disk fs' = dwrites (disk fs) (take ka [(k, copy_bytes (disk fs k) off b (unat count * 512))]))"
    using same_disk [OF s(1) s(4) [OF refl]] s(5,6) by (auto intro!: exI [of _ 0])
qed

lemma copy_whole_disk: "copy_bytes (disk fs k) 0 b (bs_nat fs) = trunc (bs_nat fs) b"
  by (auto simp: fun_eq_iff copy_bytes_def disk_def trunc_def)

lemma emits_raw_write:
  assumes v: "vol fs" and ok: "blk_ok fs (unat blk)"
  shows "emits fs [(unat blk, trunc (bs_nat fs) b)] (raw_write blk b) (\<lambda>_ fs'. only_dev fs fs')"
proof -
  note s = block_sector(1,2) [OF v ok]
  have e: "emits fs ws (raw_write blk b) Q =
      emits fs ws (dev_write (fs_block_sector fs blk) (fs_block_sectors fs) b) Q" for ws Q
    by (simp add: emits_def raw_write_def)
  show ?thesis
    using emits_sector_write [OF v block_in_file [OF v ok], where k = "unat blk" and off = 0 and b = b]
    by (simp add: e s copy_whole_disk)
qed

end
