(* ===== verification/CommitDisk.thy ===== *)
theory CommitDisk
  imports Commit Disk
begin

text \<open>
  What a commit and a checkpoint do to the blocks of the volume, in order, and that a power cut
  at any write leaves a prefix of it.
\<close>

section \<open>The log on the volume\<close>

text \<open>The block of the volume that holds log block \<open>jblk\<close>.\<close>

definition log_blk :: "ext4_jbd \<Rightarrow> u32 \<Rightarrow> nat" where
  "log_blk j jblk = unat (the (jbd_log_phys j jblk))"

definition log_ok :: "file_ctx ext4_fs \<Rightarrow> bool" where
  "log_ok fs \<longleftrightarrow> (let j = fs_jbd fs in
     jbd_extents j \<noteq> [] \<and> jbd_log_phys j 0 = Some (je_physical (jbd_extents j ! 0)) \<and>
     0 < jbd_maxlen j \<and>
     (\<forall>w < jbd_maxlen j. jbd_log_phys j w \<noteq> None \<and> blk_ok fs (log_blk j w)) \<and>
     (\<forall>v < jbd_maxlen j. \<forall>w < jbd_maxlen j. log_blk j v = log_blk j w \<longrightarrow> v = w) \<and>
     jbd_blocksize j = block_size fs \<and> length (jbd_uuid j) = 16)"

definition in_log :: "ext4_jbd \<Rightarrow> nat \<Rightarrow> bool" where
  "in_log j n \<longleftrightarrow> (\<exists>w < jbd_maxlen j. log_blk j w = n)"

lemma log_okD:
  assumes "log_ok fs"
  shows "jbd_extents (fs_jbd fs) \<noteq> []"
    "jbd_log_phys (fs_jbd fs) 0 = Some (je_physical (jbd_extents (fs_jbd fs) ! 0))"
    "0 < jbd_maxlen (fs_jbd fs)"
    "w < jbd_maxlen (fs_jbd fs) \<Longrightarrow> \<exists>p. jbd_log_phys (fs_jbd fs) w = Some p"
    "w < jbd_maxlen (fs_jbd fs) \<Longrightarrow> blk_ok fs (log_blk (fs_jbd fs) w)"
    "v < jbd_maxlen (fs_jbd fs) \<Longrightarrow> w < jbd_maxlen (fs_jbd fs) \<Longrightarrow>
       log_blk (fs_jbd fs) v = log_blk (fs_jbd fs) w \<Longrightarrow> v = w"
    "jbd_bs (fs_jbd fs) = bs_nat fs" "jbd_blocksize (fs_jbd fs) = block_size fs"
    "length (jbd_uuid (fs_jbd fs)) = 16"
  using assms by (auto simp: log_ok_def Let_def jbd_bs_def)

lemma log_ok_step: "log_ok fs \<Longrightarrow> vol_step fs fs' \<Longrightarrow> fs_jbd fs' = fs_jbd fs \<Longrightarrow> log_ok fs'"
  by (auto simp: log_ok_def Let_def vol_step_def)

lemma read_log_block_disk:
  assumes "vol fs" "log_ok fs" "w < jbd_maxlen (fs_jbd fs)"
  shows "ext4_journal_read_log_block fs w = Inr (disk fs (log_blk (fs_jbd fs) w))"
proof -
  from log_okD(4) [OF assms(2,3)] obtain p where p: "jbd_log_phys (fs_jbd fs) w = Some p" ..
  then have "log_blk (fs_jbd fs) w = unat p" by (simp add: log_blk_def)
  with log_okD(5) [OF assms(2,3)] assms(1) p show ?thesis
    by (simp add: ext4_journal_read_log_block_def raw_read_disk)
qed

lemma emits_cong: "m fs = m' fs \<Longrightarrow> emits fs ws m' Q \<Longrightarrow> emits fs ws m Q"
  by (simp add: emits_def)

lemma emits_write_journal_block:
  assumes "vol fs" "log_ok fs" "w < jbd_maxlen (fs_jbd fs)"
  shows "emits fs [(log_blk (fs_jbd fs) w, trunc (bs_nat fs) b)] (write_journal_block w b)
    (\<lambda>_ fs'. only_dev fs fs')"
proof -
  from log_okD(4) [OF assms(2,3)] obtain p where p: "jbd_log_phys (fs_jbd fs) w = Some p" ..
  then have "log_blk (fs_jbd fs) w = unat p" by (simp add: log_blk_def)
  with emits_raw_write [OF assms(1), of p b] log_okD(5) [OF assms(2,3)]
  have e: "emits fs [(log_blk (fs_jbd fs) w, trunc (bs_nat fs) b)] (raw_write p b) (\<lambda>_ fs'. only_dev fs fs')"
    by simp
  show ?thesis
    by (rule emits_cong [OF _ e]) (simp add: write_journal_block_def p)
qed

section \<open>The two superblocks\<close>

definition jsb_block :: "file_ctx ext4_fs \<Rightarrow> u32 \<Rightarrow> u32 \<Rightarrow> buf \<Rightarrow> buf" where
  "jsb_block fs start seq b = trunc (bs_nat fs) (jsb_patch fs start seq b)"

lemma emits_update_jsb:
  assumes v: "vol fs" and l: "log_ok fs"
  shows "emits fs [(log_blk (fs_jbd fs) 0, jsb_block fs start seq (disk fs (log_blk (fs_jbd fs) 0)))]
    (update_jsb start seq) (\<lambda>_ fs'. only_dev fs fs')"
proof -
  let ?p = "je_physical (jbd_extents (fs_jbd fs) ! 0)"
  have n: "log_blk (fs_jbd fs) 0 = unat ?p" by (simp add: log_blk_def log_okD(2) [OF l])
  have ok: "blk_ok fs (unat ?p)" using log_okD(5) [OF l log_okD(3) [OF l]] by (simp add: n)
  have bs: "0 < bs_nat fs" and ss: "sector_size (fs_bd fs) = 512"
    using v vol_bs(3) by (auto simp: vol_def)
  have lim: "unat ?p * bs_nat fs < 2 ^ 32" using ok bs by (simp add: blk_ok_def)
  have "unat (?p * ucast (block_size fs)) = unat ?p * bs_nat fs"
    using lim by (simp add: unat_mult_small)
  with lim have "ucast (fs_block_byte fs ?p) = ?p * ucast (block_size fs)"
    by (simp add: word_unat_eq_iff fs_block_byte_def unat_ucast_64_32)
  then have "(ucast (fs_block_byte fs ?p div sector_size (fs_bd fs)) :: u64)
      = ?p * ucast (block_size fs) div ucast (sector_size (fs_bd fs))"
    by (simp only: word_unat_eq_iff unat_div unat_ucast_32_64)
  then have sec: "jsb_sector fs = fs_block_sector fs ?p"
    by (simp add: jsb_sector_def fs_block_sector_def)
  have rd: "bdev_read (fs_bd fs) (ucast (fs_block_sector fs ?p)) (block_size fs div sector_size (fs_bd fs))
      = Inr (disk fs (unat ?p))"
    using raw_read_disk [OF v ok] by (simp only: raw_read_def fs_block_sectors_def)
  have "update_jsb start seq fs =
      raw_write ?p (jsb_patch fs start seq (disk fs (unat ?p))) fs"
    unfolding update_jsb_def raw_write_def fs_block_sectors_def bindE_def getE_apply prod.case
      sum.case Let_def dev_read_def readE_apply sec rd ..
  moreover have "emits fs [(unat ?p, jsb_block fs start seq (disk fs (unat ?p)))]
      (raw_write ?p (jsb_patch fs start seq (disk fs (unat ?p)))) (\<lambda>_ fs'. only_dev fs fs')"
    unfolding jsb_block_def by (rule emits_raw_write [OF v ok])
  ultimately show ?thesis unfolding n by (rule emits_cong)
qed

definition sb_write :: "file_ctx ext4_fs \<Rightarrow> bool \<Rightarrow> buf \<Rightarrow> buf" where
  "sb_write fs on b =
     copy_bytes b (sb_off fs) (sb_set_recover on (trunc 1024 (at b (sb_off fs)))) 1024"

lemma emits_update_fs_sb_recover:
  assumes v: "vol fs" and ok: "blk_ok fs (sb_blk fs)"
  shows "emits fs [(sb_blk fs, sb_write fs on (disk fs (sb_blk fs)))]
    (update_fs_sb_recover on) (\<lambda>_ fs'. only_dev fs fs')"
proof -
  note sb = sb_fits [OF v]
  have ss: "sector_size (fs_bd fs) = 512" using v by (simp add: vol_def)
  have big: "vol_base fs + 2048 \<le> vol_base fs + (sb_blk fs + 1) * bs_nat fs"
    using sb by (simp add: algebra_simps)
  with ok have top: "vol_base fs + 2048 \<le> 2 ^ 41"
    "vol_base fs + 2048 \<le> file_len (bdev_ctx (fs_bd fs))"
    by (simp_all add: blk_ok_def)
  then have "unat (fs_partition_lba fs) + 2 < 2 ^ 32" by (simp add: vol_base_def)
  then have sec: "unat (fs_sb_sector fs) = unat (fs_partition_lba fs) + 2"
    by (simp add: fs_sb_sector_def ss unat_ucast_64_32 unat_add_small)
  have cnt: "1024 div sector_size (fs_bd fs) = 2" by (simp add: ss)
  have pos: "unat (fs_sb_sector fs) * 512 = vol_base fs + sb_blk fs * bs_nat fs + sb_off fs"
    using sb(2) by (simp add: sec vol_base_def)
  have pre: "0 < unat (2 :: u32)" "unat (fs_sb_sector fs) * 512 < 2 ^ 41"
    "unat (fs_sb_sector fs) * 512 + unat (2 :: u32) * 512 \<le> file_len (bdev_ctx (fs_bd fs))"
    using top by (simp_all add: sec vol_base_def)
  have rd: "trunc 1024 (at (file_contents (fs_bd fs)) (unat (fs_sb_sector fs) * 512))
      = trunc 1024 (at (disk fs (sb_blk fs)) (sb_off fs))"
    using sb(1) by (auto simp: trunc_eq_iff disk_def pos add.assoc)
  have "update_fs_sb_recover on fs = dev_write (fs_sb_sector fs) 2
      (sb_set_recover on (trunc 1024 (at (disk fs (sb_blk fs)) (sb_off fs)))) fs"
    using sector_read [OF v pre] rd
    by (simp add: update_fs_sb_recover_def bindE_def dev_read_def cnt Let_def)
  moreover have "emits fs [(sb_blk fs, sb_write fs on (disk fs (sb_blk fs)))]
      (dev_write (fs_sb_sector fs) 2 (sb_set_recover on (trunc 1024 (at (disk fs (sb_blk fs)) (sb_off fs)))))
      (\<lambda>_ fs'. only_dev fs fs')"
    using emits_sector_write [OF v pre pos] sb(1) by (simp add: sb_write_def)
  ultimately show ?thesis by (rule emits_cong)
qed

lemma jsb_block_step:
  "only_dev fs fs' \<Longrightarrow> jsb_block fs' = jsb_block fs"
  by (auto simp: fun_eq_iff jsb_block_def jsb_patch_def Let_def only_devD)

lemma sb_write_step: "only_dev fs fs' \<Longrightarrow> sb_write fs' = sb_write fs"
  by (auto simp: fun_eq_iff sb_write_def sb_off_def only_devD)

lemma sb_blk_step: "only_dev fs fs' \<Longrightarrow> sb_blk fs' = sb_blk fs"
  by (simp add: sb_blk_def only_devD)

section \<open>The checkpoint\<close>

definition entry_ok :: "file_ctx ext4_fs \<Rightarrow> ext4_jbd_replay_entry \<Rightarrow> bool" where
  "entry_ok fs e \<longleftrightarrow> re_journal_blk e < jbd_maxlen (fs_jbd fs) \<and> blk_ok fs (unat (re_fs_block e)) \<and>
     \<not> in_log (fs_jbd fs) (unat (re_fs_block e))"

definition entry_write :: "file_ctx ext4_fs \<Rightarrow> (nat \<Rightarrow> buf) \<Rightarrow> ext4_jbd_replay_entry \<Rightarrow> blk_write" where
  "entry_write fs d e =
     (let b = d (log_blk (fs_jbd fs) (re_journal_blk e))
      in (unat (re_fs_block e), trunc (bs_nat fs) (if re_is_escape e then restore_magic b else b)))"

lemma in_log_blk: "w < jbd_maxlen j \<Longrightarrow> in_log j (log_blk j w)"
  by (auto simp: in_log_def)

lemma entry_ok_step: "vol_step fs fs' \<Longrightarrow> only_dev fs fs' \<Longrightarrow> entry_ok fs e \<Longrightarrow> entry_ok fs' e"
  by (simp add: entry_ok_def only_devD vol_step_def)

lemma entry_write_step:
  assumes "only_dev fs fs'" "entry_ok fs e" "\<forall>n. in_log (fs_jbd fs) n \<longrightarrow> d' n = d n"
  shows "entry_write fs' d' e = entry_write fs d e"
  using assms in_log_blk [of "re_journal_blk e" "fs_jbd fs"]
  by (simp add: entry_write_def entry_ok_def only_devD Let_def)

lemma emits_flush_entries:
  assumes "vol fs" "log_ok fs" "\<forall>e \<in> set es. entry_ok fs e"
  shows "emits fs (map (entry_write fs (disk fs)) es) (flush_entries es) (\<lambda>_ fs'. only_dev fs fs')"
  using assms
proof (induction es arbitrary: fs)
  case Nil
  then show ?case by (simp add: emits_def)
next
  case (Cons e es)
  let ?b = "disk fs (log_blk (fs_jbd fs) (re_journal_blk e))"
  have e: "entry_ok fs e" using Cons.prems by simp
  then have rd: "ext4_journal_read_log_block fs (re_journal_blk e) = Inr ?b"
    using Cons.prems by (intro read_log_block_disk) (auto simp: entry_ok_def)
  let ?bb = "if re_is_escape e then restore_magic ?b else ?b"
  have first: "emits fs [entry_write fs (disk fs) e]
      (apply_journaled_block_to_fs (re_fs_block e) ?b (re_is_escape e)) (\<lambda>_ fs'. only_dev fs fs')"
    using emits_raw_write [OF Cons.prems(1), of "re_fs_block e" ?bb] e
    by (simp add: entry_ok_def entry_write_def Let_def apply_journaled_block_to_fs_def)
  have rest: "emits fs1 (map (entry_write fs (disk fs)) es) (flush_entries es) (\<lambda>_ fs'. only_dev fs fs')"
    if s: "vol_step fs fs1" "disk fs1 = dwrites (disk fs) [entry_write fs (disk fs) e]" "only_dev fs fs1"
    for fs1
  proof -
    have "\<forall>n. in_log (fs_jbd fs) n \<longrightarrow> disk fs1 n = disk fs n"
      using s(2) e by (auto simp: entry_write_def Let_def entry_ok_def)
    then have m: "map (entry_write fs1 (disk fs1)) es = map (entry_write fs (disk fs)) es"
      using Cons.prems(3) s(3) by (auto intro!: entry_write_step)
    have "emits fs1 (map (entry_write fs1 (disk fs1)) es) (flush_entries es) (\<lambda>_ fs'. only_dev fs1 fs')"
      using s Cons.prems by (intro Cons.IH) (auto simp: vol_stepD only_devD intro: log_ok_step entry_ok_step)
    then show ?thesis unfolding m
      by (rule emits_mono) (rule only_dev_trans [OF s(3)])
  qed
  have "emits fs ([entry_write fs (disk fs) e] @ map (entry_write fs (disk fs)) es)
      (bindE (apply_journaled_block_to_fs (re_fs_block e) ?b (re_is_escape e)) (\<lambda>_. flush_entries es))
      (\<lambda>_ fs'. only_dev fs fs')"
    by (rule emits_bind [OF first]) (rule rest)
  then show ?case
    using Cons.prems(1) rd by (auto intro!: emits_readE)
qed

definition flush_writes :: "file_ctx ext4_fs \<Rightarrow> blk_write list" where
  "flush_writes fs = (if jbd_replay_active (fs_jbd fs)
     then map (entry_write fs (disk fs)) (jbd_replay (fs_jbd fs)) else [])"

definition clean_writes :: "file_ctx ext4_fs \<Rightarrow> (nat \<Rightarrow> buf) \<Rightarrow> blk_write list" where
  "clean_writes fs d =
     (let j0 = log_blk (fs_jbd fs) 0;
          jw = (j0, jsb_block fs 0 (jbd_sequence (fs_jbd fs)) (d j0))
      in [jw, (sb_blk fs, sb_write fs False (dwrites d [jw] (sb_blk fs)))])"

definition checkpoint_ok :: "file_ctx ext4_fs \<Rightarrow> bool" where
  "checkpoint_ok fs \<longleftrightarrow> vol fs \<and> log_ok fs \<and> blk_ok fs (sb_blk fs) \<and> jbd_present (fs_jbd fs) \<and>
     checkpoint_needed fs \<and>
     (jbd_replay_active (fs_jbd fs) \<longrightarrow> (\<forall>e \<in> set (jbd_replay (fs_jbd fs)). entry_ok fs e))"

lemma clean_writes_step: "only_dev fs fs' \<Longrightarrow> clean_writes fs' d = clean_writes fs d"
  by (simp add: clean_writes_def jsb_block_step sb_write_step sb_blk_step only_devD Let_def)

lemma emits_clean:
  assumes "vol fs" "log_ok fs" "blk_ok fs (sb_blk fs)" "j = fs_jbd fs"
  shows "emits fs (clean_writes fs (disk fs))
     (bindE (update_jsb 0 (jbd_sequence j)) (\<lambda>_. update_fs_sb_recover False)) (\<lambda>_ fs'. only_dev fs fs')"
proof -
  let ?jw = "(log_blk (fs_jbd fs) 0, jsb_block fs 0 (jbd_sequence j) (disk fs (log_blk (fs_jbd fs) 0)))"
  have two: "clean_writes fs (disk fs) =
      [?jw] @ [(sb_blk fs, sb_write fs False (dwrites (disk fs) [?jw] (sb_blk fs)))]"
    by (simp add: clean_writes_def Let_def assms(4))
  show ?thesis unfolding two
  proof (rule emits_bind [OF emits_update_jsb [OF assms(1,2), of 0 "jbd_sequence j"]])
    fix x :: unit and fs1
    assume s: "vol_step fs fs1" "disk fs1 = dwrites (disk fs) [?jw]" "only_dev fs fs1"
    have "emits fs1 [(sb_blk fs1, sb_write fs1 False (disk fs1 (sb_blk fs1)))]
        (update_fs_sb_recover False) (\<lambda>_ fs'. only_dev fs1 fs')"
      using s assms by (intro emits_update_fs_sb_recover) (auto simp: vol_stepD sb_blk_step)
    then have "emits fs1 [(sb_blk fs, sb_write fs False (dwrites (disk fs) [?jw] (sb_blk fs)))]
        (update_fs_sb_recover False) (\<lambda>_ fs'. only_dev fs1 fs')"
      unfolding sb_blk_step [OF s(3)] sb_write_step [OF s(3)] s(2) .
    then show "emits fs1 [(sb_blk fs, sb_write fs False (dwrites (disk fs) [?jw] (sb_blk fs)))]
        (update_fs_sb_recover False) (\<lambda>_ fs'. only_dev fs fs')"
      by (rule emits_mono) (rule only_dev_trans [OF s(3)])
  qed
qed

lemma emits_then_modE:
  assumes "emits fs ws m Q" "\<And>fs'. vol_step fs fs' \<Longrightarrow> vol_step fs' (f fs') \<and> disk (f fs') = disk fs'"
  shows "emits fs ws (bindE m (\<lambda>_. modE f)) (\<lambda>_ fs'. \<exists>x fs1. Q x fs1 \<and> vol_step fs fs1 \<and> fs' = f fs1)"
proof -
  obtain r fs1 where r: "m fs = (r, fs1)" by fastforce
  from assms(1) r show ?thesis
  proof (cases rule: emitsE)
    case (ok x)
    with r assms(2) [OF ok(2)] show ?thesis
      by (auto simp: emits_def bindE_def intro: vol_step_trans)
  next
    case (cut rc k)
    with r show ?thesis by (auto simp: emits_def bindE_def)
  qed
qed

lemma handle_update_disk:
  assumes "vol fs" "fs_bd fs' = fs_bd fs" "fs_partition_lba fs' = fs_partition_lba fs"
    "block_size fs' = block_size fs"
  shows "vol_step fs fs'" "disk fs' = disk fs"
proof -
  show "vol_step fs fs'"
    using assms by (auto simp: vol_step_def vol_def blk_ok_def vol_base_def alive_def)
  show "disk fs' = disk fs" by (simp add: fun_eq_iff disk_def vol_base_def assms)
qed

lemma checkpoint_unfold:
  assumes "checkpoint_ok fs" "j = fs_jbd fs"
  shows "ext4_journal_checkpoint fs =
    bindE (bindE (if jbd_replay_active j then flush_entries (jbd_replay j) else retE ())
      (\<lambda>_. bindE (update_jsb 0 (jbd_sequence j)) (\<lambda>_. update_fs_sb_recover False)))
      (\<lambda>_. modE checkpoint_done) fs"
proof -
  have "jbd_present j" "checkpoint_needed fs" "bdev_writable (fs_bd fs)"
    using assms by (auto simp: checkpoint_ok_def bdev_writable_def vol_def)
  then show ?thesis
    unfolding ext4_journal_checkpoint_def Let_def assms(2) [symmetric] bindE_assoc
    by (simp only: if_False if_True not_True_eq_False)
qed

lemma flush_emits:
  assumes "checkpoint_ok fs" "j = fs_jbd fs"
  shows "emits fs (flush_writes fs)
    (if jbd_replay_active j then flush_entries (jbd_replay j) else retE ()) (\<lambda>_ fs'. only_dev fs fs')"
proof (cases "jbd_replay_active j")
  case True
  then have "\<forall>e \<in> set (jbd_replay j). entry_ok fs e" using assms by (simp add: checkpoint_ok_def)
  with True emits_flush_entries [of fs "jbd_replay j"] assms show ?thesis
    by (simp add: flush_writes_def checkpoint_ok_def)
next
  case False
  with assms show ?thesis by (simp add: flush_writes_def checkpoint_ok_def emits_def retE_def)
qed

lemma emits_checkpoint:
  assumes ok: "checkpoint_ok fs"
  shows "emits fs (flush_writes fs @ clean_writes fs (dwrites (disk fs) (flush_writes fs)))
    ext4_journal_checkpoint (\<lambda>_ fs'. \<exists>fs1. only_dev fs fs1 \<and> fs' = checkpoint_done fs1)"
proof -
  define j where "j = fs_jbd fs"
  let ?flush = "if jbd_replay_active j then flush_entries (jbd_replay j) else retE ()"
  let ?clean = "bindE (update_jsb 0 (jbd_sequence j)) (\<lambda>_. update_fs_sb_recover False)"
  have v: "vol fs" "log_ok fs" "blk_ok fs (sb_blk fs)" using ok by (auto simp: checkpoint_ok_def)
  have f: "emits fs (flush_writes fs) ?flush (\<lambda>_ fs'. only_dev fs fs')"
    by (rule flush_emits [OF ok j_def])
  have main: "emits fs (flush_writes fs @ clean_writes fs (dwrites (disk fs) (flush_writes fs)))
      (bindE ?flush (\<lambda>_. ?clean)) (\<lambda>_ fs'. only_dev fs fs')"
  proof (rule emits_bind [OF f])
    fix x :: unit and fs1
    assume s: "vol_step fs fs1" "disk fs1 = dwrites (disk fs) (flush_writes fs)" "only_dev fs fs1"
    have "emits fs1 (clean_writes fs1 (disk fs1)) ?clean (\<lambda>_ fs'. only_dev fs1 fs')"
      using v s by (intro emits_clean)
        (auto simp: vol_stepD sb_blk_step only_devD j_def intro: log_ok_step)
    then have "emits fs1 (clean_writes fs (dwrites (disk fs) (flush_writes fs))) ?clean
        (\<lambda>_ fs'. only_dev fs1 fs')"
      unfolding clean_writes_step [OF s(3)] s(2) .
    then show "emits fs1 (clean_writes fs (dwrites (disk fs) (flush_writes fs))) ?clean
        (\<lambda>_ fs'. only_dev fs fs')"
      by (rule emits_mono) (rule only_dev_trans [OF s(3)])
  qed
  have "emits fs (flush_writes fs @ clean_writes fs (dwrites (disk fs) (flush_writes fs)))
      (bindE (bindE ?flush (\<lambda>_. ?clean)) (\<lambda>_. modE checkpoint_done))
      (\<lambda>_ fs'. \<exists>(x :: unit) fs1. only_dev fs fs1 \<and> vol_step fs fs1 \<and> fs' = checkpoint_done fs1)"
  proof (rule emits_then_modE [OF main])
    fix fs'
    assume "vol_step fs fs'"
    then have "vol fs'" by (rule vol_stepD)
    then show "vol_step fs' (checkpoint_done fs') \<and> disk (checkpoint_done fs') = disk fs'"
      by (intro conjI handle_update_disk) (simp_all add: checkpoint_done_def)
  qed
  then have "emits fs (flush_writes fs @ clean_writes fs (dwrites (disk fs) (flush_writes fs)))
      (bindE (bindE ?flush (\<lambda>_. ?clean)) (\<lambda>_. modE checkpoint_done))
      (\<lambda>_ fs'. \<exists>fs1. only_dev fs fs1 \<and> fs' = checkpoint_done fs1)"
    by (rule emits_mono) blast
  with checkpoint_unfold [OF ok j_def] show ?thesis by (rule emits_cong)
qed

section \<open>Escaping\<close>

lemma needs_escape_bytes:
  assumes "needs_escape b"
  shows "b 0 = 0xC0" "b 1 = 0x3B" "b 2 = 0x39" "b 3 = 0x98"
proof -
  have m: "be32 b 0 = 0xC03B3998" using assms by (simp add: needs_escape_def jbd_magic_def)
  have o: "b 0 = ucast (drop_bit 24 (be32 b 0))" "b 1 = ucast (drop_bit 16 (be32 b 0))"
    "b 2 = ucast (drop_bit 8 (be32 b 0))" "b 3 = ucast (be32 b 0)"
    by (simp_all only: be32_octets add_0)
  show "b 0 = 0xC0" unfolding o(1) m by simp
  show "b 1 = 0x3B" unfolding o(2) m by simp
  show "b 2 = 0x39" unfolding o(3) m by simp
  show "b 3 = 0x98" unfolding o(4) m by simp
qed

lemma restore_journal_copy:
  "(if needs_escape b then restore_magic (journal_copy b) else journal_copy b) = b"
proof (cases "needs_escape b")
  case True
  note n = needs_escape_bytes [OF this]
  show ?thesis
  proof
    fix i
    consider "i = 0" | "i = 1" | "i = 2" | "i = 3" | "4 \<le> (i :: nat)" by linarith
    then show "(if needs_escape b then restore_magic (journal_copy b) else journal_copy b) i = b i"
      by cases (use True n in \<open>simp_all add: restore_magic_def journal_copy_def fill_bytes_def\<close>)
  qed
qed (simp add: journal_copy_def)

lemma restore_magic_trunc: "4 \<le> n \<Longrightarrow> restore_magic (trunc n b) = trunc n (restore_magic b)"
  by (auto simp: restore_magic_def trunc_def fun_eq_iff)

lemma restore_trunc:
  assumes "4 \<le> n" "c = trunc n (journal_copy b)"
  shows "trunc n (if needs_escape b then restore_magic c else c) = trunc n b"
proof -
  have "(if needs_escape b then restore_magic c else c) =
      trunc n (if needs_escape b then restore_magic (journal_copy b) else journal_copy b)"
    by (simp add: assms restore_magic_trunc)
  then show ?thesis unfolding restore_journal_copy by simp
qed

lemma journal_copy_no_magic: "be32 (journal_copy b) 0 \<noteq> jbd_magic"
proof (cases "needs_escape b")
  case True
  then show ?thesis
    by (simp add: journal_copy_def be32_def fill_bytes_def jbd_magic_def)
qed (simp add: journal_copy_def needs_escape_def)

section \<open>The blocks a transaction writes\<close>

definition home_writes :: "file_ctx ext4_fs \<Rightarrow> jbd_trans \<Rightarrow> blk_write list" where
  "home_writes fs ts = map (\<lambda>(blk, b). (unat blk, trunc (bs_nat fs) b)) ts"

fun data_writes :: "file_ctx ext4_fs \<Rightarrow> u32 \<Rightarrow> jbd_trans \<Rightarrow> blk_write list" where
  "data_writes fs jblk [] = []"
| "data_writes fs jblk ((blk, b) # ts) =
     (log_blk (fs_jbd fs) jblk, trunc (bs_nat fs) (journal_copy b)) # data_writes fs (jblk + 1) ts"

text \<open>The log holds the data blocks of a transaction from \<open>jblk\<close> on.\<close>

fun log_holds :: "file_ctx ext4_fs \<Rightarrow> (nat \<Rightarrow> buf) \<Rightarrow> u32 \<Rightarrow> jbd_trans \<Rightarrow> bool" where
  "log_holds fs d jblk [] \<longleftrightarrow> True"
| "log_holds fs d jblk ((blk, b) # ts) \<longleftrightarrow>
     d (log_blk (fs_jbd fs) jblk) = trunc (bs_nat fs) (journal_copy b) \<and> log_holds fs d (jblk + 1) ts"

lemma unat_Suc_word:
  fixes w m :: u32
  shows "unat w < unat m \<Longrightarrow> unat (w + 1) = Suc (unat w)"
  using unat_Suc_less [of w m] by (simp add: word_less_nat_alt)

lemma data_writes_range:
  assumes "n \<in> fst ` set (data_writes fs w ts)" "unat w + length ts \<le> unat (m :: u32)"
  shows "\<exists>v. n = log_blk (fs_jbd fs) v \<and> unat w \<le> unat v \<and> unat v < unat w + length ts"
  using assms
proof (induction fs w ts rule: data_writes.induct)
  case (2 fs w blk b ts)
  have s: "unat (w + 1) = Suc (unat w)" using 2(3) by (intro unat_Suc_word [of w m]) simp
  show ?case
  proof (cases "n = log_blk (fs_jbd fs) w")
    case False
    with 2 s show ?thesis by fastforce
  qed auto
qed simp

lemma log_holds_written:
  assumes "log_ok fs" "unat w + length ts \<le> unat (jbd_maxlen (fs_jbd fs))"
  shows "log_holds fs (dwrites d (data_writes fs w ts)) w ts"
  using assms
proof (induction ts arbitrary: d w)
  case (Cons t ts)
  obtain blk b where t: "t = (blk, b)" by (cases t)
  let ?m = "jbd_maxlen (fs_jbd fs)"
  have s: "unat (w + 1) = Suc (unat w)" using Cons.prems(2) by (intro unat_Suc_word [of w ?m]) simp
  have "log_blk (fs_jbd fs) w \<notin> fst ` set (data_writes fs (w + 1) ts)"
  proof
    assume "log_blk (fs_jbd fs) w \<in> fst ` set (data_writes fs (w + 1) ts)"
    from data_writes_range [OF this, of ?m] Cons.prems s obtain v where
      v: "log_blk (fs_jbd fs) w = log_blk (fs_jbd fs) v" "Suc (unat w) \<le> unat v"
        "unat v < Suc (unat w) + length ts" by auto
    with Cons.prems have "w < ?m" "v < ?m" by (auto simp: word_less_nat_alt)
    with log_okD(6) [OF Cons.prems(1) _ _ v(1)] v(2) show False by auto
  qed
  with Cons.IH [OF Cons.prems(1), of "w + 1"] Cons.prems(2) s t show ?case
    by (simp add: dwrites_other)
qed simp

lemma log_holds_cong:
  assumes "log_holds fs d w ts" "\<forall>v. w \<le> v \<and> v < m \<longrightarrow> d' (log_blk (fs_jbd fs) v) = d (log_blk (fs_jbd fs) v)"
    "unat w + length ts \<le> unat (m :: u32)"
  shows "log_holds fs d' w ts"
  using assms
proof (induction fs d w ts rule: log_holds.induct)
  case (2 fs d w blk b ts)
  have s: "unat (w + 1) = Suc (unat w)" using 2(4) by (intro unat_Suc_word [of w m]) simp
  then have "\<forall>v. w + 1 \<le> v \<and> v < m \<longrightarrow> d' (log_blk (fs_jbd fs) v) = d (log_blk (fs_jbd fs) v)"
    using 2(3) by (simp add: word_le_nat_alt)
  with 2 s show ?case by (auto simp: word_less_nat_alt)
qed simp

lemma emits_write_data_blocks:
  assumes "vol fs" "log_ok fs" "unat w + length ts \<le> unat (jbd_maxlen (fs_jbd fs))"
  shows "emits fs (data_writes fs w ts) (write_data_blocks w ts) (\<lambda>_ fs'. only_dev fs fs')"
  using assms
proof (induction w ts arbitrary: fs rule: write_data_blocks.induct)
  case (1 w)
  then show ?case by (simp add: emits_def)
next
  case (2 w blk b ts)
  let ?m = "jbd_maxlen (fs_jbd fs)"
  have lt: "w < ?m" using "2.prems" by (simp add: word_less_nat_alt)
  have s: "unat (w + 1) = Suc (unat w)" using "2.prems" by (intro unat_Suc_word [of w ?m]) simp
  have rest: "emits fs1 (data_writes fs (w + 1) ts) (write_data_blocks (w + 1) ts) (\<lambda>_ fs'. only_dev fs fs')"
    if st: "vol_step fs fs1" "only_dev fs fs1" for fs1
  proof -
    have dw: "data_writes fs1 v us = data_writes fs v us" for v us
      using st by (induction fs v us rule: data_writes.induct) (simp_all add: only_devD)
    have "emits fs1 (data_writes fs1 (w + 1) ts) (write_data_blocks (w + 1) ts) (\<lambda>_ fs'. only_dev fs1 fs')"
      using "2.prems" s st by (intro "2.IH") (auto simp: vol_stepD only_devD intro: log_ok_step)
    then show ?thesis unfolding dw by (rule emits_mono) (rule only_dev_trans [OF st(2)])
  qed
  have "emits fs ([(log_blk (fs_jbd fs) w, trunc (bs_nat fs) (journal_copy b))] @ data_writes fs (w + 1) ts)
      (bindE (write_journal_block w (journal_copy b)) (\<lambda>_. write_data_blocks (w + 1) ts))
      (\<lambda>_ fs'. only_dev fs fs')"
    by (rule emits_bind [OF emits_write_journal_block [OF "2.prems"(1,2) lt]]) (rule rest)
  then show ?case by simp
qed

lemma flush_home:
  assumes "vol fs" "log_holds fs d w ts"
  shows "map (entry_write fs d) (trans_entries w ts) = home_writes fs ts"
  using assms
proof (induction w ts rule: trans_entries.induct)
  case (2 w blk b ts)
  have "4 \<le> bs_nat fs" using vol_bs(1) [OF 2(2)] by simp
  with 2 show ?case
    by (simp add: entry_write_def Let_def home_writes_def restore_trunc)
qed (simp add: home_writes_def)

end
