(* ===== verification/Atomic.thy ===== *)
theory Atomic
  imports CommitDisk
begin

text \<open>
  A transaction as a sequence of block writes: the writes before the commit point, the commit
  point (the journal superblock that names the transaction), and the writes after it.
\<close>

section \<open>The parts of the handle that a commit leaves alone\<close>

definition same_core :: "ext4_jbd \<Rightarrow> ext4_jbd \<Rightarrow> bool" where
  "same_core j j' \<longleftrightarrow> jbd_extents j' = jbd_extents j \<and> jbd_maxlen j' = jbd_maxlen j \<and>
     jbd_first j' = jbd_first j \<and> jbd_sequence j' = jbd_sequence j \<and>
     jbd_blocksize j' = jbd_blocksize j \<and> jbd_uuid j' = jbd_uuid j \<and>
     jbd_csum_v2 j' = jbd_csum_v2 j \<and> jbd_csum_v3 j' = jbd_csum_v3 j \<and>
     jbd_has_64bit j' = jbd_has_64bit j \<and> jbd_present j' = jbd_present j"

lemma same_coreD:
  assumes "same_core j j'"
  shows "jbd_extents j' = jbd_extents j" "jbd_maxlen j' = jbd_maxlen j" "jbd_first j' = jbd_first j"
    "jbd_sequence j' = jbd_sequence j" "jbd_blocksize j' = jbd_blocksize j" "jbd_uuid j' = jbd_uuid j"
    "jbd_csum_v2 j' = jbd_csum_v2 j" "jbd_csum_v3 j' = jbd_csum_v3 j"
    "jbd_has_64bit j' = jbd_has_64bit j" "jbd_present j' = jbd_present j"
  using assms by (simp_all add: same_core_def)

lemma same_core_refl [simp]: "same_core j j"
  by (simp add: same_core_def)

lemma same_core_trans: "same_core a b \<Longrightarrow> same_core b c \<Longrightarrow> same_core a c"
  by (simp add: same_core_def)

lemma same_core_upd [simp]:
  "same_core j (j\<lparr>jbd_start := s\<rparr>) = True" "same_core j (j\<lparr>jbd_replay := r\<rparr>) = True"
  "same_core j (j\<lparr>jbd_start := s, jbd_replay_active := a, jbd_replay := r\<rparr>) = True"
  by (simp_all add: same_core_def)

lemma same_core_functions:
  assumes "same_core j j'"
  shows "jbd_csums j' = jbd_csums j" "jbd_bs j' = jbd_bs j" "jbd_log_phys j' = jbd_log_phys j"
    "log_blk j' = log_blk j" "in_log j' = in_log j" "jbd_tag_bytes j' = jbd_tag_bytes j"
    "tags_room j' = tags_room j" "wrap_jblk j' = wrap_jblk j"
proof -
  note f = same_coreD [OF assms]
  show p: "jbd_log_phys j' = jbd_log_phys j" by (simp add: fun_eq_iff jbd_log_phys_def f)
  show c: "jbd_csums j' = jbd_csums j" by (simp add: jbd_csums_def f)
  show "jbd_bs j' = jbd_bs j" by (simp add: jbd_bs_def f)
  show l: "log_blk j' = log_blk j" by (simp add: fun_eq_iff log_blk_def p)
  show "in_log j' = in_log j" by (simp add: fun_eq_iff in_log_def l f)
  show "jbd_tag_bytes j' = jbd_tag_bytes j" by (simp add: jbd_tag_bytes_def f)
  show "tags_room j' = tags_room j" by (simp add: tags_room_def c f)
  show "wrap_jblk j' = wrap_jblk j" by (simp add: fun_eq_iff wrap_jblk_def f)
qed

text \<open>A later state of the same mount, inside a commit.\<close>

definition same_log :: "file_ctx ext4_fs \<Rightarrow> file_ctx ext4_fs \<Rightarrow> bool" where
  "same_log fs fs' \<longleftrightarrow> vol_step fs fs' \<and> fs_sb fs' = fs_sb fs \<and> same_core (fs_jbd fs) (fs_jbd fs')"

lemma same_log_refl: "vol fs \<Longrightarrow> same_log fs fs"
  by (simp add: same_log_def)

lemma same_log_trans: "same_log a b \<Longrightarrow> same_log b c \<Longrightarrow> same_log a c"
  by (auto simp: same_log_def intro: vol_step_trans same_core_trans)

lemma same_log_dev: "vol_step fs fs' \<Longrightarrow> only_dev fs fs' \<Longrightarrow> same_log fs fs'"
  by (simp add: same_log_def only_devD)

lemma same_logD:
  assumes "same_log fs fs'"
  shows "vol fs'" "log_blk (fs_jbd fs') = log_blk (fs_jbd fs)" "in_log (fs_jbd fs') = in_log (fs_jbd fs)"
    "log_ok fs \<Longrightarrow> log_ok fs'" "blk_ok fs n \<Longrightarrow> blk_ok fs' n" "fs_sb fs' = fs_sb fs"
    "jsb_block fs' = jsb_block fs" "sb_write fs' = sb_write fs" "sb_blk fs' = sb_blk fs"
    "clean_writes fs' = clean_writes fs" "home_writes fs' = home_writes fs"
    "data_writes fs' = data_writes fs" "log_holds fs' = log_holds fs"
    "jbd_maxlen (fs_jbd fs') = jbd_maxlen (fs_jbd fs)"
proof -
  have v: "vol_step fs fs'" and sb: "fs_sb fs' = fs_sb fs" and c: "same_core (fs_jbd fs) (fs_jbd fs')"
    using assms by (auto simp: same_log_def)
  note f = same_coreD [OF c] same_core_functions [OF c]
  show "vol fs'" "blk_ok fs n \<Longrightarrow> blk_ok fs' n" using v by (auto simp: vol_stepD)
  show "jbd_maxlen (fs_jbd fs') = jbd_maxlen (fs_jbd fs)" by (rule f)
  show l: "log_blk (fs_jbd fs') = log_blk (fs_jbd fs)" "in_log (fs_jbd fs') = in_log (fs_jbd fs)"
    by (simp_all add: f)
  show "fs_sb fs' = fs_sb fs" by (rule sb)
  show "log_ok fs \<Longrightarrow> log_ok fs'" using v by (auto simp: log_ok_def Let_def f vol_stepD)
  show j: "jsb_block fs' = jsb_block fs"
    by (simp add: fun_eq_iff jsb_block_def jsb_patch_def f sb Let_def)
  show s: "sb_write fs' = sb_write fs" by (simp add: fun_eq_iff sb_write_def sb_off_def sb)
  show b: "sb_blk fs' = sb_blk fs" by (simp add: sb_blk_def sb)
  show "clean_writes fs' = clean_writes fs"
    by (rule ext) (simp add: clean_writes_def j s b l f Let_def)
  show "home_writes fs' = home_writes fs" by (rule ext) (simp add: home_writes_def sb)
  have "data_writes fs' w ts = data_writes fs w ts" for w ts
    by (induction ts arbitrary: w) (auto simp: l sb)
  then show "data_writes fs' = data_writes fs" by (intro ext)
  have "log_holds fs' d w ts = log_holds fs d w ts" for d w ts
    by (induction ts arbitrary: w) (auto simp: l sb)
  then show "log_holds fs' = log_holds fs" by (intro ext)
qed

section \<open>The writes of a commit\<close>

definition trans_ready :: "file_ctx ext4_fs \<Rightarrow> jbd_trans \<Rightarrow> bool" where
  "trans_ready fs ts \<longleftrightarrow>
     vol fs \<and> log_ok fs \<and> blk_ok fs (sb_blk fs) \<and> \<not> in_log (fs_jbd fs) (sb_blk fs) \<and>
     jbd_present (fs_jbd fs) \<and> jbd_start (fs_jbd fs) = 0 \<and> 0 < jbd_first (fs_jbd fs) \<and>
     ts \<noteq> [] \<and> length ts \<le> trans_max_blocks \<and>
     unat (jbd_first (fs_jbd fs)) + length ts + 2 \<le> unat (jbd_maxlen (fs_jbd fs)) \<and>
     int (length ts * jbd_tag_bytes (fs_jbd fs)) \<le> descriptor_cap (fs_jbd fs) \<and>
     (\<forall>(blk, b) \<in> set ts. blk_ok fs (unat blk) \<and> \<not> in_log (fs_jbd fs) (unat blk)) \<and>
     distinct (map fst ts)"

definition commit_jblk :: "ext4_jbd \<Rightarrow> jbd_trans \<Rightarrow> u32" where
  "commit_jblk j ts = jbd_first j + 1 + word_of_nat (length ts)"

definition prepare_writes :: "file_ctx ext4_fs \<Rightarrow> jbd_trans \<Rightarrow> blk_write list" where
  "prepare_writes fs ts =
     (let j = fs_jbd fs; first = jbd_first j; seq = jbd_sequence j in
      [(sb_blk fs, sb_write fs True (disk fs (sb_blk fs)))]
      @ [(log_blk j first, trunc (bs_nat fs) (descriptor_block j seq ts))]
      @ data_writes fs (first + 1) ts
      @ [(log_blk j (commit_jblk j ts), trunc (bs_nat fs) (commit_block j seq))])"

definition point_write :: "file_ctx ext4_fs \<Rightarrow> blk_write" where
  "point_write fs =
     (let j = fs_jbd fs in
      (log_blk j 0, jsb_block fs (jbd_first j) (jbd_sequence j) (disk fs (log_blk j 0))))"

definition pointed :: "file_ctx ext4_fs \<Rightarrow> jbd_trans \<Rightarrow> nat \<Rightarrow> buf" where
  "pointed fs ts = dwrites (disk fs) (prepare_writes fs ts @ [point_write fs])"

definition finish_writes :: "file_ctx ext4_fs \<Rightarrow> jbd_trans \<Rightarrow> blk_write list" where
  "finish_writes fs ts =
     home_writes fs ts @ clean_writes fs (dwrites (pointed fs ts) (home_writes fs ts))"

definition commit_writes :: "file_ctx ext4_fs \<Rightarrow> jbd_trans \<Rightarrow> blk_write list" where
  "commit_writes fs ts = prepare_writes fs ts @ [point_write fs] @ finish_writes fs ts"

lemma trans_readyD:
  assumes "trans_ready fs ts"
  shows "vol fs" "log_ok fs" "blk_ok fs (sb_blk fs)" "\<not> in_log (fs_jbd fs) (sb_blk fs)"
    "jbd_present (fs_jbd fs)" "jbd_start (fs_jbd fs) = 0" "0 < jbd_first (fs_jbd fs)"
    "0 < length ts" "length ts \<le> 8"
    "unat (jbd_first (fs_jbd fs)) + length ts + 2 \<le> unat (jbd_maxlen (fs_jbd fs))"
    "int (length ts * jbd_tag_bytes (fs_jbd fs)) \<le> descriptor_cap (fs_jbd fs)"
    "\<forall>(blk, b) \<in> set ts. blk_ok fs (unat blk) \<and> \<not> in_log (fs_jbd fs) (unat blk)"
    "distinct (map fst ts)"
  using assms by (auto simp: trans_ready_def trans_max_blocks_def)

lemma log_words:
  assumes "trans_ready fs ts"
  shows "unat (jbd_first (fs_jbd fs) + 1) = unat (jbd_first (fs_jbd fs)) + 1"
    "unat (commit_jblk (fs_jbd fs) ts) = unat (jbd_first (fs_jbd fs)) + 1 + length ts"
    "jbd_first (fs_jbd fs) < jbd_maxlen (fs_jbd fs)"
    "commit_jblk (fs_jbd fs) ts < jbd_maxlen (fs_jbd fs)"
    "unat (commit_jblk (fs_jbd fs) ts + 1) = unat (jbd_first (fs_jbd fs)) + 2 + length ts"
proof -
  let ?f = "jbd_first (fs_jbd fs)" and ?m = "jbd_maxlen (fs_jbd fs)"
  have m: "unat ?m < 2 ^ LENGTH(32)" by (rule unsigned_less)
  have le: "unat ?f + length ts + 2 \<le> unat ?m" by (rule trans_readyD [OF assms])
  have n: "unat (word_of_nat (length ts) :: u32) = length ts"
    using trans_readyD(9) [OF assms] by (simp add: unsigned_of_nat take_bit_nat_eq_self)
  show f1: "unat (?f + 1) = unat ?f + 1" using le m by (simp add: unat_add_small)
  then show c: "unat (commit_jblk (fs_jbd fs) ts) = unat ?f + 1 + length ts"
    using le m n by (simp add: commit_jblk_def unat_add_small)
  then show "unat (commit_jblk (fs_jbd fs) ts + 1) = unat ?f + 2 + length ts"
    using le m by (simp add: unat_add_small)
  show "?f < ?m" "commit_jblk (fs_jbd fs) ts < ?m"
    using le c by (simp_all add: word_less_nat_alt)
qed

text \<open>The steps of a commit after its guards.\<close>

lemma emits_modE_first:
  assumes "same_log fs (f fs)" "disk (f fs) = disk fs" "alive (f fs) = alive fs"
    "emits (f fs) ws (k ()) Q"
  shows "emits fs ws (bindE (modE f) k) Q"
proof -
  obtain r fs2 where r: "k () (f fs) = (r, fs2)" by fastforce
  have st: "vol_step fs (f fs)" using assms(1) by (simp add: same_log_def)
  from assms(4) r show ?thesis
    by (cases rule: emitsE) (use st r assms(2,3) in \<open>auto simp: emits_def bindE_def intro: vol_step_trans\<close>)
qed

lemma same_log_upd:
  assumes "vol fs" "same_core (fs_jbd fs) (f (fs_jbd fs))"
  shows "same_log fs (upd_jbd f fs)" "disk (upd_jbd f fs) = disk fs" "alive (upd_jbd f fs) = alive fs"
proof -
  show "same_log fs (upd_jbd f fs)"
    using assms handle_update_disk(1) [OF assms(1), of "upd_jbd f fs"] by (simp add: same_log_def)
  show "disk (upd_jbd f fs) = disk fs" by (rule handle_update_disk [OF assms(1)]) simp_all
  show "alive (upd_jbd f fs) = alive fs" by (simp add: alive_def)
qed

lemma emits_bind_same:
  assumes m: "emits fs1 ws1 m (\<lambda>_ fs'. only_dev fs1 fs')" and s: "same_log fs fs1"
    and f: "\<And>x fs2. same_log fs fs2 \<Longrightarrow> disk fs2 = dwrites (disk fs1) ws1 \<Longrightarrow>
      fs_jbd fs2 = fs_jbd fs1 \<Longrightarrow> emits fs2 ws2 (f x) Q"
  shows "emits fs1 (ws1 @ ws2) (bindE m f) Q"
proof (rule emits_bind [OF m])
  fix x fs2
  assume a: "vol_step fs1 fs2" "disk fs2 = dwrites (disk fs1) ws1" "only_dev fs1 fs2"
  show "emits fs2 ws2 (f x) Q"
    by (rule f [OF same_log_trans [OF s same_log_dev [OF a(1,3)]] a(2)]) (rule only_devD(1) [OF a(3)])
qed

definition prepare_ops :: "ext4_jbd \<Rightarrow> jbd_trans \<Rightarrow> (file_ctx ext4_fs, 'a) op \<Rightarrow> (file_ctx ext4_fs, 'a) op" where
  "prepare_ops j ts k =
     bindE (update_fs_sb_recover True) (\<lambda>_.
     bindE (write_journal_block (jbd_first j) (descriptor_block j (jbd_sequence j) ts)) (\<lambda>_.
     bindE (write_data_blocks (jbd_first j + 1) ts) (\<lambda>_.
     bindE (write_journal_block (commit_jblk j ts) (commit_block j (jbd_sequence j))) (\<lambda>_. k))))"

lemma emits_prepare:
  assumes t: "trans_ready fs ts" and j: "j = fs_jbd fs" and s1: "same_log fs fs1" and d1: "disk fs1 = disk fs"
    and k: "\<And>fs2. same_log fs fs2 \<Longrightarrow> disk fs2 = dwrites (disk fs) (prepare_writes fs ts) \<Longrightarrow>
      emits fs2 ws k Q"
  shows "emits fs1 (prepare_writes fs ts @ ws) (prepare_ops j ts k) Q"
proof -
  note r = trans_readyD [OF t] and w = log_words [OF t]
  have sb: "emits fs1 [(sb_blk fs, sb_write fs True (disk fs (sb_blk fs)))] (update_fs_sb_recover True)
      (\<lambda>_ fs'. only_dev fs1 fs')"
    using emits_update_fs_sb_recover [of fs1 True] same_logD [OF s1] r(3) d1 by simp
  have jw: "emits fsx [(log_blk j v, trunc (bs_nat fs) b)] (write_journal_block v b) (\<lambda>_ fs'. only_dev fsx fs')"
    if "same_log fs fsx" "v < jbd_maxlen j" for fsx v b
    using emits_write_journal_block [of fsx v b] same_logD [OF that(1)] that r(2) j
    by simp
  have dw: "emits fsx (data_writes fs (jbd_first j + 1) ts) (write_data_blocks (jbd_first j + 1) ts)
      (\<lambda>_ fs'. only_dev fsx fs')" if "same_log fs fsx" for fsx
    using emits_write_data_blocks [of fsx "jbd_first j + 1" ts] same_logD [OF that] r(2,10) j w(1)
    by simp
  show ?thesis
    unfolding prepare_writes_def prepare_ops_def Let_def j [symmetric] append_assoc
  proof (rule emits_bind_same [OF sb s1], goal_cases)
    case (1 x fs2)
    show ?case
    proof (rule emits_bind_same [OF jw [OF 1(1)] 1(1)], goal_cases)
      case 1
      show ?case using w(3) j by simp
    next
      case (2 y fs3)
      show ?case
      proof (rule emits_bind_same [OF dw [OF 2(1)] 2(1)], goal_cases)
        case (1 z fs4)
        show ?case
        proof (rule emits_bind_same [OF jw [OF 1(1)] 1(1)], goal_cases)
          case 1
          show ?case using w(4) j by simp
        next
          case (2 u fs5)
          show ?case
            using 2 1 \<open>disk fs3 = _\<close> \<open>disk fs2 = _\<close> d1
            by (intro k) (simp_all add: prepare_writes_def Let_def j dwrites_append)
        qed
      qed
    qed
  qed
qed

lemma log_blk_other:
  assumes "log_ok fs" "v < jbd_maxlen (fs_jbd fs)" "w < jbd_maxlen (fs_jbd fs)" "v \<noteq> w"
  shows "log_blk (fs_jbd fs) v \<noteq> log_blk (fs_jbd fs) w"
  using log_okD(6) [OF assms(1-3)] assms(4) by blast

lemma pointed_holds:
  assumes t: "trans_ready fs ts"
  shows "log_holds fs (pointed fs ts) (jbd_first (fs_jbd fs) + 1) ts"
proof -
  note r = trans_readyD [OF t] and w = log_words [OF t]
  let ?j = "fs_jbd fs"
  let ?w = "jbd_first ?j + 1" and ?c = "commit_jblk ?j ts"
  define d where "d = dwrites (disk fs) ([(sb_blk fs, sb_write fs True (disk fs (sb_blk fs)))]
      @ [(log_blk ?j (jbd_first ?j), trunc (bs_nat fs) (descriptor_block ?j (jbd_sequence ?j) ts))])"
  have p: "pointed fs ts = dwrites (dwrites d (data_writes fs ?w ts))
      [(log_blk ?j ?c, trunc (bs_nat fs) (commit_block ?j (jbd_sequence ?j))), point_write fs]"
    by (simp add: pointed_def prepare_writes_def Let_def dwrites_append d_def)
  have h: "log_holds fs (dwrites d (data_writes fs ?w ts)) ?w ts"
    using r(2,10) w(1) by (intro log_holds_written) simp_all
  show ?thesis
  proof (rule log_holds_cong [OF h, of ?c])
    show "unat ?w + length ts \<le> unat ?c" by (simp only: w(1,2))
    show "\<forall>v. ?w \<le> v \<and> v < ?c \<longrightarrow> pointed fs ts (log_blk ?j v) =
        dwrites d (data_writes fs ?w ts) (log_blk ?j v)"
    proof (intro allI impI)
      fix v
      assume v: "?w \<le> v \<and> v < ?c"
      then have "v < jbd_maxlen ?j" "v \<noteq> ?c" using w(4) by auto
      moreover have "v \<noteq> 0" using v w(1) by (auto simp: word_le_nat_alt)
      ultimately have "log_blk ?j v \<noteq> log_blk ?j ?c" "log_blk ?j v \<noteq> log_blk ?j 0"
        using log_blk_other [OF r(2)] w(4) log_okD(3) [OF r(2)] by blast+
      then show "pointed fs ts (log_blk ?j v) = dwrites d (data_writes fs ?w ts) (log_blk ?j v)"
        by (simp add: p point_write_def Let_def)
    qed
  qed
qed

lemma trans_entries_ok:
  assumes "\<forall>(blk, b) \<in> set ts. blk_ok fs (unat blk) \<and> \<not> in_log (fs_jbd fs) (unat blk)"
    "unat w + length ts \<le> unat (jbd_maxlen (fs_jbd fs))" "e \<in> set (trans_entries w ts)"
  shows "entry_ok fs e"
  using assms
proof (induction w ts rule: trans_entries.induct)
  case (2 w blk b ts)
  have "unat (w + 1) = Suc (unat w)"
    using 2(3) by (intro unat_Suc_word [of w "jbd_maxlen (fs_jbd fs)"]) simp
  with 2 show ?case by (auto simp: entry_ok_def word_less_nat_alt)
qed simp

definition finish_ops :: "ext4_jbd \<Rightarrow> jbd_trans \<Rightarrow> (file_ctx ext4_fs, unit) op" where
  "finish_ops j ts =
     bindE (modE (upd_jbd (\<lambda>k. k\<lparr>jbd_start := jbd_first j, jbd_replay_active := True,
                                jbd_replay := trans_entries (jbd_first j + 1) ts\<rparr>))) (\<lambda>_.
     bindE ext4_journal_checkpoint (\<lambda>_.
     bindE (modE (upd_jbd (\<lambda>k. k\<lparr>jbd_sequence := jbd_sequence j + 1\<rparr>))) (\<lambda>_.
     modE ext4_fs_bgd_invalidate)))"

text \<open>The handle after a commit that succeeded.\<close>

definition committed :: "file_ctx ext4_fs \<Rightarrow> file_ctx ext4_fs \<Rightarrow> bool" where
  "committed fs fs' \<longleftrightarrow>
     jbd_sequence (fs_jbd fs') = jbd_sequence (fs_jbd fs) + 1 \<and> jbd_start (fs_jbd fs') = 0 \<and>
     \<not> jbd_replay_active (fs_jbd fs') \<and> jbd_replay (fs_jbd fs') = [] \<and>
     fs_bgd_cached_block fs' = ext4_fs_bgd_invalid \<and>
     s_feature_incompat (fs_sb fs') AND 0x4 = 0 \<and>
     same_core ((fs_jbd fs)\<lparr>jbd_sequence := jbd_sequence (fs_jbd fs) + 1\<rparr>) (fs_jbd fs')"

lemma and_not_and: "(x AND NOT y) AND (y :: u32) = 0"
  by (rule bit_word_eqI) (simp add: bit_simps)

lemma recover_cleared: "(x AND - 5) AND 4 = (0 :: u32)"
  using and_not_and [of x 4] by simp

lemma checkpoint_done_committed:
  assumes "same_log fs fs3" "only_dev fs3 fs1" "s = jbd_sequence (fs_jbd fs) + 1"
  shows "committed fs (ext4_fs_bgd_invalidate (upd_jbd (\<lambda>k. k\<lparr>jbd_sequence := s\<rparr>) (checkpoint_done fs1)))"
proof -
  have c: "same_core (fs_jbd fs) (fs_jbd fs1)"
    using assms(1) only_devD(1) [OF assms(2)] by (simp add: same_log_def)
  show ?thesis
    by (simp add: committed_def checkpoint_done_def ext4_fs_bgd_invalidate_def recover_cleared assms(3)
        same_core_def same_coreD [OF c])
qed

lemma emits_finish:
  assumes t: "trans_ready fs ts" and j: "j = fs_jbd fs" and s: "same_log fs fs2"
    and d: "disk fs2 = pointed fs ts"
  shows "emits fs2 (finish_writes fs ts) (finish_ops j ts) (\<lambda>_ fs'. committed fs fs')"
proof -
  note r = trans_readyD [OF t] and w = log_words [OF t]
  define f :: "ext4_jbd \<Rightarrow> ext4_jbd" where "f = (\<lambda>k. k\<lparr>jbd_start := jbd_first j, jbd_replay_active := True,
                                jbd_replay := trans_entries (jbd_first j + 1) ts\<rparr>)"
  define fs3 where "fs3 = upd_jbd f fs2"
  have v2: "vol fs2" using same_logD(1) [OF s] .
  have u: "same_log fs2 fs3" "disk fs3 = disk fs2" "alive fs3 = alive fs2"
    unfolding fs3_def using same_log_upd [OF v2, of f] by (simp_all add: f_def)
  have s3: "same_log fs fs3" by (rule same_log_trans [OF s u(1)])
  note e = same_logD [OF s3]
  have j3: "jbd_replay_active (fs_jbd fs3)" "jbd_replay (fs_jbd fs3) = trans_entries (jbd_first j + 1) ts"
    by (simp_all add: fs3_def f_def)
  have ent: "\<forall>x \<in> set (trans_entries (jbd_first j + 1) ts). entry_ok fs3 x"
  proof
    fix x
    assume "x \<in> set (trans_entries (jbd_first j + 1) ts)"
    then show "entry_ok fs3 x"
      using r(10,12) w(1) e j
      by (intro trans_entries_ok [of ts fs3 "jbd_first j + 1"]) auto
  qed
  have ck: "checkpoint_ok fs3"
    using e r(2,3,5) j3 ent s3 
    by (auto simp: checkpoint_ok_def checkpoint_needed_def same_log_def same_coreD)
  have hold: "log_holds fs3 (disk fs3) (jbd_first j + 1) ts"
    using pointed_holds [OF t] by (simp add: u(2) d j e)
  have fl: "flush_writes fs3 = home_writes fs ts"
    using flush_home [OF e(1) hold] by (simp add: flush_writes_def j3 e)
  have "emits fs3 (finish_writes fs ts) ext4_journal_checkpoint
      (\<lambda>_ fs'. \<exists>fs1. only_dev fs3 fs1 \<and> fs' = checkpoint_done fs1)"
    using emits_checkpoint [OF ck] by (simp add: finish_writes_def fl e u(2) d)
  then have c: "emits fs3 (finish_writes fs ts @ [])
      (bindE ext4_journal_checkpoint (\<lambda>_.
       bindE (modE (upd_jbd (\<lambda>k. k\<lparr>jbd_sequence := jbd_sequence j + 1\<rparr>))) (\<lambda>_.
       modE ext4_fs_bgd_invalidate))) (\<lambda>_ fs'. committed fs fs')"
  proof (rule emits_bind)
    fix x :: unit and fs4
    assume st: "vol_step fs3 fs4" "\<exists>fs1. only_dev fs3 fs1 \<and> fs4 = checkpoint_done fs1"
    let ?fs' = "ext4_fs_bgd_invalidate (upd_jbd (\<lambda>k. k\<lparr>jbd_sequence := jbd_sequence j + 1\<rparr>) fs4)"
    have v4: "vol fs4" by (rule vol_stepD(1) [OF st(1)])
    have "vol_step fs4 ?fs'" "disk ?fs' = disk fs4"
      by (rule handle_update_disk [OF v4], simp_all add: ext4_fs_bgd_invalidate_def)+
    moreover have "committed fs ?fs'"
      using st(2) checkpoint_done_committed [OF s3] by (auto simp: j)
    ultimately show "emits fs4 [] (bindE (modE (upd_jbd (\<lambda>k. k\<lparr>jbd_sequence := jbd_sequence j + 1\<rparr>))) (\<lambda>_.
       modE ext4_fs_bgd_invalidate)) (\<lambda>_ fs'. committed fs fs')"
      by (simp add: emits_def bindE_def)
  qed
  show ?thesis
    using u c unfolding finish_ops_def fs3_def f_def by (intro emits_modE_first) simp_all
qed

definition commit_ops :: "ext4_jbd \<Rightarrow> jbd_trans \<Rightarrow> (file_ctx ext4_fs, unit) op" where
  "commit_ops j ts =
    bindE (modE (upd_jbd (\<lambda>j. j\<lparr>jbd_replay := stash_escapes (map (needs_escape \<circ> snd) ts) (jbd_replay j)\<rparr>)))
      (\<lambda>_. prepare_ops j ts (bindE (update_jsb (jbd_first j) (jbd_sequence j)) (\<lambda>_. finish_ops j ts)))"

lemma commit_unfold:
  assumes "trans_ready fs ts" "j = fs_jbd fs"
  shows "ext4_journal_commit ts fs = commit_ops j ts fs"
proof -
  note r = trans_readyD [OF assms(1)] and w = log_words [OF assms(1)]
  have g: "jbd_present j" "bdev_writable (fs_bd fs)" "jbd_start j = 0"
    "length ts \<noteq> 0 \<and> length ts \<le> trans_max_blocks"
    "int (length ts * jbd_tag_bytes j) \<le> descriptor_cap j"
    using r by (auto simp: assms(2) bdev_writable_def vol_def trans_max_blocks_def)
  have "commit_jblk j ts + 1 \<le> jbd_maxlen j"
    using w(5) r(10) by (simp add: word_le_nat_alt assms(2))
  then have c: "jbd_first j + 1 + word_of_nat (length ts) + 1 \<le> jbd_maxlen j"
    by (simp only: commit_jblk_def)
  have chk: "bindE (checkE True rc) k = k ()" for rc and k :: "unit \<Rightarrow> (file_ctx ext4_fs, unit) op"
    by (rule ext) (simp add: bindE_def)
  have get: "bindE (getE h) k fs = k (h fs) fs" for h and k :: "'a \<Rightarrow> (file_ctx ext4_fs, unit) op"
    by (simp add: bindE_def)
  note g' = g [THEN eqTrueI] c [THEN eqTrueI]
  show ?thesis
    unfolding ext4_journal_commit_def commit_ops_def Let_def prepare_ops_def finish_ops_def commit_jblk_def
    by (simp only: get assms(2) [symmetric] g' chk)
qed

text \<open>
  The commit emits exactly \<open>commit_writes\<close>, in this order; only the device can stop it, and
  then a prefix of them is on the disk.
\<close>

lemma emits_commit:
  assumes t: "trans_ready fs ts"
  shows "emits fs (commit_writes fs ts) (ext4_journal_commit ts) (\<lambda>_ fs'. committed fs fs')"
proof -
  let ?j = "fs_jbd fs"
  let ?f = "\<lambda>j. j\<lparr>jbd_replay := stash_escapes (map (needs_escape \<circ> snd) ts) (jbd_replay j)\<rparr>"
  have v: "vol fs" by (rule trans_readyD [OF t])
  note u = same_log_upd [OF v, of ?f, simplified]
  have fin: "emits fs2 ([point_write fs] @ finish_writes fs ts)
      (bindE (update_jsb (jbd_first ?j) (jbd_sequence ?j)) (\<lambda>_. finish_ops ?j ts)) (\<lambda>_ fs'. committed fs fs')"
    if s: "same_log fs fs2" and d: "disk fs2 = dwrites (disk fs) (prepare_writes fs ts)" for fs2
  proof -
    note e = same_logD [OF s] and r = trans_readyD [OF t] and w = log_words [OF t]
    have "log_blk ?j 0 \<notin> fst ` set (prepare_writes fs ts)"
    proof
      assume "log_blk ?j 0 \<in> fst ` set (prepare_writes fs ts)"
      then consider "log_blk ?j 0 = sb_blk fs" | "log_blk ?j 0 = log_blk ?j (jbd_first ?j)"
        | "log_blk ?j 0 \<in> fst ` set (data_writes fs (jbd_first ?j + 1) ts)"
        | "log_blk ?j 0 = log_blk ?j (commit_jblk ?j ts)"
        by (auto simp: prepare_writes_def Let_def)
      then show False
      proof cases
        case 1
        with r(4) in_log_blk [OF log_okD(3) [OF r(2)]] show False by simp
      next
        case 2
        with log_okD(6) [OF r(2) log_okD(3) [OF r(2)] w(3)] r(7) show False by simp
      next
        case 3
        from data_writes_range [OF this, of "jbd_maxlen ?j"] w(1) r(10) obtain v where
          v: "log_blk ?j 0 = log_blk ?j v" "unat (jbd_first ?j) + 1 \<le> unat v"
          "unat v < unat (jbd_first ?j) + 1 + length ts" by auto
        with r(10) have "v < jbd_maxlen ?j" by (simp add: word_less_nat_alt)
        from log_okD(6) [OF r(2) log_okD(3) [OF r(2)] this v(1)] v(2) show False by auto
      next
        case 4
        with log_okD(6) [OF r(2) log_okD(3) [OF r(2)] w(4)] w(2) show False by auto
      qed
    qed
    then have j0: "disk fs2 (log_blk ?j 0) = disk fs (log_blk ?j 0)" by (simp add: d dwrites_other)
    have pt: "emits fs2 [point_write fs] (update_jsb (jbd_first ?j) (jbd_sequence ?j)) (\<lambda>_ fs'. only_dev fs2 fs')"
      using emits_update_jsb [OF e(1) e(4) [OF r(2)], of "jbd_first ?j" "jbd_sequence ?j"]
      by (simp add: point_write_def Let_def e j0)
    show ?thesis
    proof (rule emits_bind_same [OF pt s])
      fix x :: unit and fs3
      assume "same_log fs fs3" "disk fs3 = dwrites (disk fs2) [point_write fs]"
      then show "emits fs3 (finish_writes fs ts) (finish_ops ?j ts) (\<lambda>_ fs'. committed fs fs')"
        by (intro emits_finish [OF t refl]) (simp_all add: d pointed_def dwrites_append)
    qed
  qed
  show ?thesis
  proof (rule emits_cong [of _ _ "commit_ops ?j ts"], rule commit_unfold [OF t refl],
      unfold commit_writes_def commit_ops_def, rule emits_modE_first)
    show "same_log fs (upd_jbd ?f fs)" "disk (upd_jbd ?f fs) = disk fs" "alive (upd_jbd ?f fs) = alive fs"
      by (rule u)+
    show "emits (upd_jbd ?f fs) (prepare_writes fs ts @ [point_write fs] @ finish_writes fs ts)
        (prepare_ops ?j ts (bindE (update_jsb (jbd_first ?j) (jbd_sequence ?j)) (\<lambda>_. finish_ops ?j ts)))
        (\<lambda>_ fs'. committed fs fs')"
      by (rule emits_prepare [OF t refl u(1,2)]) (rule fin)
  qed
qed

end
