(* ===== verification/Tags.thy ===== *)
theory Tags
  imports Commit Disk
begin

text \<open>
  The descriptor block: what \<open>ext4_journal_commit\<close> writes is what \<open>iterate_descriptor_tags\<close>
  reads, tag by tag, and the two metadata blocks of a transaction carry the checksums that the
  walk verifies.
\<close>

section \<open>One tag\<close>

lemma jbd_tag_bytes_cases:
  "jbd_csum_v3 j \<Longrightarrow> jbd_tag_bytes j = 16"
  "\<not> jbd_csum_v3 j \<Longrightarrow> jbd_has_64bit j \<Longrightarrow> jbd_tag_bytes j = 12"
  "\<not> jbd_csum_v3 j \<Longrightarrow> \<not> jbd_has_64bit j \<Longrightarrow> jbd_tag_bytes j = 8"
  by (simp_all add: jbd_tag_bytes_def)

lemma jbd_tag_bytes_bounds: "8 \<le> jbd_tag_bytes j" "jbd_tag_bytes j \<le> 16"
  by (simp_all add: jbd_tag_bytes_def)

lemma put_tag_outside:
  "k < off \<or> off + jbd_tag_bytes j \<le> k \<Longrightarrow> put_tag j seq i n d off blk b k = d k"
  by (cases "jbd_csum_v3 j"; cases "jbd_has_64bit j"; cases "jbd_csums j")
     (auto simp: put_tag_def Let_def jbd_tag_bytes_cases buf_simps)

lemma be32_pack_other: "p + 4 \<le> q \<or> q + 4 \<le> p \<Longrightarrow> be32 (be32_pack b p v) q = be32 b q"
  by (rule be32_cong) (auto simp: buf_simps)

lemma be16_pack_other: "p + 2 \<le> q \<or> q + 4 \<le> p \<Longrightarrow> be32 (be16_pack b p v) q = be32 b q"
  by (rule be32_cong) (auto simp: buf_simps)

lemma be16_be32_pack_other: "p + 4 \<le> q \<or> q + 2 \<le> p \<Longrightarrow> be16 (be32_pack b p v) q = be16 b q"
  by (rule be16_cong) (auto simp: buf_simps)

lemma be16_be16_pack_other: "p + 2 \<le> q \<or> q + 2 \<le> p \<Longrightarrow> be16 (be16_pack b p v) q = be16 b q"
  by (rule be16_cong) (auto simp: buf_simps)

lemmas pack_other = be32_pack_other be16_pack_other be16_be32_pack_other be16_be16_pack_other

lemma split_u64:
  "(ucast (ucast (x :: u64) :: u32) :: u64) OR push_bit 32 (ucast (ucast (drop_bit 32 x) :: u32)) = x"
proof (rule bit_word_eqI)
  fix k
  assume "k < LENGTH(64)"
  then show "bit ((ucast (ucast x :: u32) :: u64) OR push_bit 32 (ucast (ucast (drop_bit 32 x) :: u32))) k = bit x k"
    by (cases "k < 32") (auto simp: bit_simps)
qed

lemma low_u64: "unat (x :: u64) < 2 ^ 32 \<Longrightarrow> ucast (ucast x :: u32) = x"
  by (simp add: word_unat_eq_iff unat_ucast_64_32)

lemma low16: "(c AND 0xFFFF :: u32) = ucast (ucast c :: u16)"
proof (rule bit_word_eqI)
  fix k
  have m: "(0xFFFF :: u32) = mask 16" by (simp add: mask_eq_exp_minus_1)
  assume "k < LENGTH(32)"
  then show "bit (c AND 0xFFFF :: u32) k = bit (ucast (ucast c :: u16) :: u32) k"
    by (auto simp: m bit_simps)
qed

lemma ucast_16_32_16: "(ucast (ucast (x :: u16) :: u32) :: u16) = x"
  by (rule bit_word_eqI) (simp add: bit_simps)

lemma put_tag_block:
  assumes "unat blk < 2 ^ 32 \<or> jbd_has_64bit j"
  shows "tag_fs_block j (put_tag j seq i n d off blk b) off = blk"
  using assms
  by (cases "jbd_csum_v3 j"; cases "jbd_has_64bit j"; cases "jbd_csums j")
     (auto simp: tag_fs_block_def put_tag_def Let_def pack_other split_u64 low_u64)

lemma flags_low:
  "(ucast (ucast ((if p then 8 else 0) OR (if q then 2 else 0) OR (if r then 1 else 0) :: u32) :: u16) :: u32)
   = (if p then 8 else 0) OR (if q then 2 else 0) OR (if r then 1 else 0)"
  by (cases p; cases q; cases r) simp_all

lemma trans_tag_flags_low: "ucast (ucast (trans_tag_flags i n b) :: u16) = trans_tag_flags i n b"
  unfolding trans_tag_flags_def tag_flag_last_tag_def tag_flag_same_uuid_def tag_flag_escape_def
  by (rule flags_low)

lemma put_tag_flags: "tag_flags j (put_tag j seq i n d off blk b) off = trans_tag_flags i n b"
  by (cases "jbd_csum_v3 j"; cases "jbd_has_64bit j"; cases "jbd_csums j")
     (auto simp: tag_flags_def put_tag_def Let_def pack_other trans_tag_flags_low)

lemma tag_data_csum_cong:
  "bytes_of data 0 (jbd_bs j) = bytes_of data' 0 (jbd_bs j) \<Longrightarrow>
   tag_data_csum j seq data = tag_data_csum j seq data'"
  by (simp add: tag_data_csum_def)

lemma put_tag_csum:
  assumes "bytes_of data 0 (jbd_bs j) = bytes_of (journal_copy b) 0 (jbd_bs j)"
  shows "tag_csum_ok j seq (put_tag j seq i n d off blk b) off data"
  using tag_data_csum_cong [OF assms, of seq]
  by (cases "jbd_csum_v3 j"; cases "jbd_has_64bit j"; cases "jbd_csums j")
     (auto simp: tag_csum_ok_def put_tag_def Let_def pack_other low16 ucast_16_32_16)

text \<open>The reader looks at the bytes of the tag only.\<close>

lemma tag_cong:
  assumes "\<And>k. off \<le> k \<Longrightarrow> k < off + jbd_tag_bytes j \<Longrightarrow> d' k = d k"
  shows "tag_flags j d' off = tag_flags j d off"
    "tag_csum_ok j seq d' off data = tag_csum_ok j seq d off data"
    "jbd_csum_v3 j \<or> jbd_has_64bit j \<or> True \<Longrightarrow> tag_fs_block j d' off = tag_fs_block j d off"
proof -
  have lo: "be32 d' off = be32 d off"
    using assms jbd_tag_bytes_bounds(1) [of j] by (intro be32_cong) auto
  have fl: "be16 d' (off + 6) = be16 d (off + 6)" "be16 d' (off + 4) = be16 d (off + 4)"
    using assms jbd_tag_bytes_bounds(1) [of j] by (auto intro!: be16_cong)
  have hi: "be32 d' (off + 8) = be32 d (off + 8)" if "jbd_has_64bit j"
    using assms that jbd_tag_bytes_cases [of j] by (cases "jbd_csum_v3 j") (auto intro!: be32_cong)
  have v3: "be32 d' (off + 4) = be32 d (off + 4)" "be32 d' (off + 12) = be32 d (off + 12)" if "jbd_csum_v3 j"
    using assms that jbd_tag_bytes_cases [of j] by (auto intro!: be32_cong)
  show "tag_flags j d' off = tag_flags j d off" by (simp add: tag_flags_def fl v3)
  show "tag_csum_ok j seq d' off data = tag_csum_ok j seq d off data"
    by (simp add: tag_csum_ok_def fl v3)
  show "tag_fs_block j d' off = tag_fs_block j d off" by (simp add: tag_fs_block_def lo hi)
qed

section \<open>The tag table\<close>

definition uuid_room :: "nat \<Rightarrow> nat" where
  "uuid_room i = (if i = 0 then 16 else 0)"

text \<open>The tags of \<open>ts\<close>, from tag \<open>i\<close> of \<open>n\<close> on, are in \<open>d\<close> from offset \<open>off\<close> on.\<close>

fun tags_written :: "ext4_jbd \<Rightarrow> u32 \<Rightarrow> buf \<Rightarrow> nat \<Rightarrow> nat \<Rightarrow> nat \<Rightarrow> jbd_trans \<Rightarrow> bool" where
  "tags_written j seq d i n off [] \<longleftrightarrow> True"
| "tags_written j seq d i n off ((blk, b) # ts) \<longleftrightarrow>
     tag_fs_block j d off = blk \<and> tag_flags j d off = trans_tag_flags i n b \<and>
     (\<forall>data. bytes_of data 0 (jbd_bs j) = bytes_of (journal_copy b) 0 (jbd_bs j) \<longrightarrow>
        tag_csum_ok j seq d off data) \<and>
     tags_written j seq d (Suc i) n (off + jbd_tag_bytes j + uuid_room i) ts"

definition tags_len :: "ext4_jbd \<Rightarrow> nat \<Rightarrow> jbd_trans \<Rightarrow> nat" where
  "tags_len j i ts = length ts * jbd_tag_bytes j + (if ts = [] then 0 else uuid_room i)"

lemma tags_written_cong:
  assumes "\<And>k. off \<le> k \<Longrightarrow> k < off + tags_len j i ts \<Longrightarrow> d' k = d k"
  shows "tags_written j seq d' i n off ts = tags_written j seq d i n off ts"
  using assms
proof (induction ts arbitrary: i off)
  case (Cons t ts)
  obtain blk b where t: "t = (blk, b)" by (cases t)
  have here: "d' k = d k" if "off \<le> k" "k < off + jbd_tag_bytes j" for k
    using Cons.prems that by (simp add: tags_len_def)
  have "d' k = d k" if "off + jbd_tag_bytes j + uuid_room i \<le> k"
      "k < off + jbd_tag_bytes j + uuid_room i + tags_len j (Suc i) ts" for k
    using Cons.prems that by (auto simp: tags_len_def uuid_room_def split: if_splits)
  from Cons.IH [OF this] show ?case by (simp add: t tag_cong [OF here])
qed simp

lemma put_tags_outside:
  assumes "length (jbd_uuid j) = 16" "k < off \<or> off + tags_len j i ts \<le> k"
  shows "put_tags j seq i n d off ts k = d k"
  using assms(2)
proof (induction ts arbitrary: i off d)
  case (Cons t ts)
  obtain blk b where t: "t = (blk, b)" by (cases t)
  let ?d = "put_tag j seq i n d off blk b"
  show ?case
  proof (cases "i = 0")
    case True
    have "put_tags j seq i n d off (t # ts) k =
        put_bytes ?d (off + jbd_tag_bytes j) (jbd_uuid j) k"
      using Cons.IH [where i = "Suc i" and off = "off + jbd_tag_bytes j + 16"] Cons.prems True
      by (auto simp: t Let_def tags_len_def uuid_room_def split: if_splits)
    also have "\<dots> = ?d k"
      using Cons.prems True assms(1) by (intro put_bytes_outside) (auto simp: tags_len_def uuid_room_def)
    finally show ?thesis using Cons.prems by (auto simp: put_tag_outside tags_len_def)
  next
    case False
    have "put_tags j seq i n d off (t # ts) k = ?d k"
      using Cons.IH [where i = "Suc i" and off = "off + jbd_tag_bytes j" and d = ?d] Cons.prems False
      by (auto simp: t Let_def tags_len_def uuid_room_def split: if_splits)
    then show ?thesis using Cons.prems by (auto simp: put_tag_outside tags_len_def)
  qed
qed simp

lemma put_tags_written:
  assumes "length (jbd_uuid j) = 16" "\<forall>(blk, b) \<in> set ts. unat blk < 2 ^ 32 \<or> jbd_has_64bit j"
  shows "tags_written j seq (put_tags j seq i n d off ts) i n off ts"
  using assms(2)
proof (induction ts arbitrary: i off d)
  case (Cons t ts)
  obtain blk b where t: "t = (blk, b)" by (cases t)
  let ?d = "put_tag j seq i n d off blk b"
  let ?e = "if i = 0 then put_bytes ?d (off + jbd_tag_bytes j) (jbd_uuid j) else ?d"
  let ?off = "off + jbd_tag_bytes j + uuid_room i"
  have p: "put_tags j seq i n d off (t # ts) = put_tags j seq (Suc i) n ?e ?off ts"
    by (simp add: t Let_def uuid_room_def)
  have here: "put_tags j seq (Suc i) n ?e ?off ts k = ?d k" if "off \<le> k" "k < off + jbd_tag_bytes j" for k
    using that put_tags_outside [OF assms(1), of k ?off "Suc i" ts seq n ?e]
    by (auto simp: put_bytes_outside uuid_room_def)
  have "unat blk < 2 ^ 32 \<or> jbd_has_64bit j" using Cons.prems t by auto
  with Cons show ?case
    unfolding p by (auto simp: t tag_cong [OF here] put_tag_block put_tag_flags put_tag_csum)
qed simp

section \<open>The two metadata blocks\<close>

lemma jbd_header_fields:
  "be32 (jbd_header t seq) 0 = jbd_magic" "be32 (jbd_header t seq) 4 = t" "be32 (jbd_header t seq) 8 = seq"
  by (simp_all add: jbd_header_def pack_other)

lemma jbd_header_beyond: "12 \<le> k \<Longrightarrow> jbd_header t seq k = 0"
  by (simp add: jbd_header_def buf_simps)

lemma block_csum_cong:
  "(\<And>k. k < jbd_bs j \<Longrightarrow> fill_bytes b' off 0 4 k = fill_bytes b off 0 4 k) \<Longrightarrow>
   jbd_block_csum j b' off = jbd_block_csum j b off"
  unfolding jbd_block_csum_def by (simp cong: bytes_of_cong)

text \<open>A block stored with its checksum in place of four zero bytes.\<close>

lemma block_csum_stored:
  assumes "\<And>k. off \<le> k \<Longrightarrow> k < off + 4 \<Longrightarrow> b k = 0" "off + 4 \<le> jbd_bs j"
    "\<And>k. k < jbd_bs j \<Longrightarrow> b' k =
       be32_pack b off (crc32c (crc32c crc32c_init (jbd_uuid j)) (bytes_of b 0 (jbd_bs j))) k"
  shows "jbd_block_csum j b' off = be32 b' off"
proof -
  let ?c = "crc32c (crc32c crc32c_init (jbd_uuid j)) (bytes_of b 0 (jbd_bs j))"
  have "fill_bytes b' off 0 4 k = b k" if "k < jbd_bs j" for k
    using assms(1) assms(3) [OF that] by (auto simp: fill_bytes_def buf_simps)
  then have "bytes_of (fill_bytes b' off 0 4) 0 (jbd_bs j) = bytes_of b 0 (jbd_bs j)"
    by (intro bytes_of_cong) simp
  moreover have "be32 b' off = be32 (be32_pack b off ?c) off"
    using assms(2,3) by (intro be32_cong) simp
  ultimately show ?thesis by (simp add: jbd_block_csum_def)
qed

lemma descriptor_stored:
  assumes u: "length (jbd_uuid j) = 16" and bs: "1024 \<le> jbd_bs j" "jbd_bs j \<le> 4096"
    and ts: "ts \<noteq> []" "\<forall>(blk, b) \<in> set ts. unat blk < 2 ^ 32 \<or> jbd_has_64bit j"
    and cap: "int (length ts * jbd_tag_bytes j) \<le> descriptor_cap j"
    and d: "d = trunc (jbd_bs j) (descriptor_block j seq ts)"
  shows "be32 d 0 = jbd_magic" "be32 d 4 = bt_descriptor" "be32 d 8 = seq"
    "verify_meta_block j d" "tags_written j seq d 0 (length ts) 12 ts"
    "int (tags_len j 0 ts) \<le> tags_room j"
proof -
  let ?h = "jbd_header bt_descriptor seq" and ?e = "jbd_bs j - 4"
  let ?t = "put_tags j seq 0 (length ts) ?h 12 ts"
  have si: "sint (jbd_blocksize j) = int (jbd_bs j)"
    using bs(2) by (simp add: jbd_bs_def sint_small)
  have len: "int (tags_len j 0 ts) = int (length ts * jbd_tag_bytes j) + 16"
    using ts(1) by (simp add: tags_len_def uuid_room_def)
  then show room: "int (tags_len j 0 ts) \<le> tags_room j"
    using cap by (auto simp: tags_room_def descriptor_cap_def)
  have top: "12 + tags_len j 0 ts \<le> jbd_bs j" "jbd_csums j \<Longrightarrow> 12 + tags_len j 0 ts \<le> ?e"
    using room bs by (auto simp: tags_room_def si split: if_splits)
  have low: "d k = ?h k" if "k < 12" for k
    using that bs put_tags_outside [OF u, of k 12 0 ts seq "length ts" ?h]
    by (simp add: d descriptor_block_def Let_def buf_simps)
  have f: "be32 d q = be32 ?h q" if "q + 4 \<le> 12" for q
    using that by (intro be32_cong low) simp
  show "be32 d 0 = jbd_magic" "be32 d 4 = bt_descriptor" "be32 d 8 = seq"
    by (simp_all add: f jbd_header_fields)
  have mid: "d k = ?t k" if "k < 12 + tags_len j 0 ts" for k
    using that top bs by (auto simp: d descriptor_block_def Let_def buf_simps)
  show "tags_written j seq d 0 (length ts) 12 ts"
    using put_tags_written [OF u ts(2)] by (subst tags_written_cong [OF mid])
  show "verify_meta_block j d"
  proof (cases "jbd_csums j")
    case True
    have "jbd_block_csum j d ?e = be32 d ?e"
    proof (rule block_csum_stored [of _ ?t])
      show "?t k = 0" if "?e \<le> k" for k
        using that top(2) [OF True] put_tags_outside [OF u, of k 12 0 ts seq "length ts" ?h] bs
        by (simp add: jbd_header_beyond)
    qed (use bs True in \<open>simp_all add: d descriptor_block_def Let_def\<close>)
    then show ?thesis by (simp add: verify_meta_block_def)
  qed (simp add: verify_meta_block_def)
qed

lemma commit_stored:
  assumes bs: "1024 \<le> jbd_bs j" and d: "d = trunc (jbd_bs j) (commit_block j seq)"
  shows "be32 d 0 = jbd_magic" "be32 d 4 = bt_commit" "be32 d 8 = seq" "verify_commit_block j d"
proof -
  let ?h = "jbd_header bt_commit seq"
  have low: "d k = ?h k" if "k < 12" for k
    using that bs by (simp add: d commit_block_def Let_def buf_simps)
  have f: "be32 d q = be32 ?h q" if "q + 4 \<le> 12" for q
    using that by (intro be32_cong low) simp
  show "be32 d 0 = jbd_magic" "be32 d 4 = bt_commit" "be32 d 8 = seq"
    by (simp_all add: f jbd_header_fields)
  show "verify_commit_block j d"
  proof (cases "jbd_csums j")
    case True
    let ?b = "?h(12 := 4, 13 := 4)"
    have "jbd_block_csum j d 16 = be32 d 16"
      by (rule block_csum_stored [of _ ?b])
        (use bs True in \<open>auto simp: d commit_block_def Let_def jbd_header_beyond\<close>)
    then show ?thesis by (simp add: verify_commit_block_def)
  qed (simp add: verify_commit_block_def)
qed

end
