(* ===== verification/Recovery.thy ===== *)
theory Recovery
  imports Tags Atomic Mount
begin

text \<open>
  Replay of a log that holds one complete transaction: the three passes of \<open>walk_log\<close> accept
  it, and the FLUSH pass writes exactly its blocks to their places.
\<close>

section \<open>The tag loop\<close>

lemma flag_tests:
  "((if p then 8 else 0) OR (if q then 2 else 0) OR (if r then 1 else 0) :: u32) AND 8 \<noteq> 0 \<longleftrightarrow> p"
  "((if p then 8 else 0) OR (if q then 2 else 0) OR (if r then 1 else 0) :: u32) AND 2 \<noteq> 0 \<longleftrightarrow> q"
  "((if p then 8 else 0) OR (if q then 2 else 0) OR (if r then 1 else 0) :: u32) AND 1 \<noteq> 0 \<longleftrightarrow> r"
  by (cases p; cases q; cases r; simp)+

lemma trans_tag_flags_tests:
  assumes "tag_flags j d off = trans_tag_flags i n b"
  shows "tag_has j d off tag_flag_last_tag \<longleftrightarrow> i + 1 = n"
    "tag_has j d off tag_flag_same_uuid \<longleftrightarrow> 0 < i"
    "tag_has j d off tag_flag_escape \<longleftrightarrow> needs_escape b"
  unfolding tag_has_def assms trans_tag_flags_def tag_flag_last_tag_def tag_flag_same_uuid_def
    tag_flag_escape_def by (rule flag_tests)+

lemma tags_loop_bind:
  assumes "int (jbd_tag_bytes (fs_jbd fs)) \<le> remaining" "jblk' = wrap_jblk (fs_jbd fs) (jblk + 1)"
    "same = tag_has (fs_jbd fs) b p tag_flag_same_uuid" "tb = jbd_tag_bytes (fs_jbd fs)"
  shows "tags_loop action seq b p remaining jblk fs =
    bindE (apply_tag action seq b p jblk') (\<lambda>_.
      if \<not> same \<and> remaining - int tb < 16 then retE jblk'
      else if tag_has (fs_jbd fs) b p tag_flag_last_tag then retE jblk'
      else if \<not> same then tags_loop action seq b (p + tb + 16) (remaining - int tb - 16) jblk'
      else tags_loop action seq b (p + tb) (remaining - int tb) jblk') fs"
proof -
  obtain r fs' where r: "apply_tag action seq b p jblk' fs = (r, fs')" by fastforce
  have "\<not> remaining < int (jbd_tag_bytes (fs_jbd fs))" using assms(1) by simp
  with r show ?thesis
    by (cases r)
      (auto simp: tags_loop.simps [of action seq b p remaining jblk fs] Let_def bindE_def assms(2,3,4))
qed

definition pass_writes :: "jbd_action \<Rightarrow> file_ctx ext4_fs \<Rightarrow> jbd_trans \<Rightarrow> blk_write list" where
  "pass_writes action fs ts = (if action = Flush then home_writes fs ts else [])"

lemma emits_apply_tag:
  assumes v: "vol fs" "log_ok fs" and a: "action \<noteq> Build" "jbd_revoke (fs_jbd fs) = []"
    and jb: "jblk < jbd_maxlen (fs_jbd fs)"
    and tg: "tag_fs_block (fs_jbd fs) d off = blk" "tag_flags (fs_jbd fs) d off = trans_tag_flags i n b"
    "\<forall>data. bytes_of data 0 (jbd_bs (fs_jbd fs)) = bytes_of (journal_copy b) 0 (jbd_bs (fs_jbd fs)) \<longrightarrow>
        tag_csum_ok (fs_jbd fs) seq d off data"
    and h: "disk fs (log_blk (fs_jbd fs) jblk) = trunc (bs_nat fs) (journal_copy b)"
    and ok: "blk_ok fs (unat blk)"
  shows "emits fs (pass_writes action fs [(blk, b)]) (apply_tag action seq d off jblk) (\<lambda>_ fs'. only_dev fs fs')"
proof (cases "action = Flush")
  case False
  with a v show ?thesis
    by (simp add: apply_tag_def pass_writes_def emits_def bindE_def Let_def)
next
  case True
  let ?j = "fs_jbd fs" and ?data = "disk fs (log_blk (fs_jbd fs) jblk)"
  have rd: "ext4_journal_read_log_block fs jblk = Inr ?data"
    by (rule read_log_block_disk [OF v jb])
  have cs: "tag_csum_ok ?j seq d off ?data"
    using tg(3) by (simp add: h log_okD(7) [OF v(2)] bytes_of_trunc)
  have rev: "\<not> is_revoked ?j (tag_fs_block ?j d off) seq"
    using a(2) by (simp add: is_revoked_def)
  have "apply_tag action seq d off jblk fs = orE (apply_journaled_block_to_fs blk ?data (needs_escape b)) (-2) fs"
    using rd cs rev tg(1) True trans_tag_flags_tests(3) [OF tg(2)]
    by (simp add: apply_tag_def bindE_def orE_def Let_def)
  moreover have "emits fs (pass_writes action fs [(blk, b)])
      (orE (apply_journaled_block_to_fs blk ?data (needs_escape b)) (-2)) (\<lambda>_ fs'. only_dev fs fs')"
    using emits_raw_write [OF v(1) ok, of "if needs_escape b then restore_magic ?data else ?data"]
      restore_trunc [OF _ h] vol_bs(1) [OF v(1)] True
    by (intro emits_orE) (simp add: apply_journaled_block_to_fs_def pass_writes_def home_writes_def)
  ultimately show ?thesis by (rule emits_cong)
qed

lemma pass_writes_Cons:
  "pass_writes a fs (t # ts) = pass_writes a fs [t] @ pass_writes a fs ts"
  by (simp add: pass_writes_def home_writes_def)

lemma pass_writes_step: "same_log fs fs' \<Longrightarrow> pass_writes a fs' = pass_writes a fs"
  by (rule ext) (simp add: pass_writes_def same_logD)

lemma emits_tags_loop:
  assumes "vol fs" "log_ok fs" "action \<noteq> Build" "jbd_revoke (fs_jbd fs) = []"
    "ts \<noteq> []" "i + length ts = n" "tags_written (fs_jbd fs) seq d i n off ts"
    "int (tags_len (fs_jbd fs) i ts) \<le> remaining"
    "log_holds fs (disk fs) (jblk + 1) ts" "unat jblk + length ts < unat (jbd_maxlen (fs_jbd fs))"
    "\<forall>(blk, b) \<in> set ts. blk_ok fs (unat blk) \<and> \<not> in_log (fs_jbd fs) (unat blk)"
  shows "emits fs (pass_writes action fs ts) (tags_loop action seq d off remaining jblk)
    (\<lambda>x fs'. x = jblk + word_of_nat (length ts) \<and> only_dev fs fs')"
  using assms
proof (induction ts arbitrary: fs i off remaining jblk)
  case (Cons t ts)
  obtain blk b where t: "t = (blk, b)" by (cases t)
  let ?j = "fs_jbd fs" and ?tb = "jbd_tag_bytes (fs_jbd fs)" and ?m = "jbd_maxlen (fs_jbd fs)"
  note P = Cons.prems
  have s: "unat (jblk + 1) = Suc (unat jblk)" using P(10) by (intro unat_Suc_word [of jblk ?m]) simp
  then have lt: "jblk + 1 < ?m" using P(10) by (simp add: word_less_nat_alt)
  then have wr: "wrap_jblk ?j (jblk + 1) = jblk + 1" by (auto simp: wrap_jblk_def)
  have tw: "tag_fs_block ?j d off = blk" "tag_flags ?j d off = trans_tag_flags i n b"
    "\<forall>data. bytes_of data 0 (jbd_bs ?j) = bytes_of (journal_copy b) 0 (jbd_bs ?j) \<longrightarrow>
        tag_csum_ok ?j seq d off data"
    "tags_written ?j seq d (Suc i) n (off + ?tb + uuid_room i) ts"
    using P(7) t by auto
  note fl = trans_tag_flags_tests [OF tw(2)]
  have room: "int ?tb \<le> remaining" "i = 0 \<Longrightarrow> int ?tb + 16 \<le> remaining"
    "ts \<noteq> [] \<Longrightarrow> int (tags_len ?j (Suc i) ts) \<le> remaining - int ?tb - int (uuid_room i)"
  proof -
    have le: "int ?tb + int (uuid_room i) + int (tags_len ?j (Suc i) ts) \<le> int (tags_len ?j i (t # ts))"
      by (simp add: tags_len_def uuid_room_def)
    have z: "0 \<le> int (tags_len ?j (Suc i) ts)" "0 \<le> int (uuid_room i)" by simp_all
    show "int ?tb \<le> remaining" using le P(8) z by linarith
    show "int ?tb + 16 \<le> remaining" if "i = 0"
      using le P(8) z that by (simp add: uuid_room_def)
    show "int (tags_len ?j (Suc i) ts) \<le> remaining - int ?tb - int (uuid_room i)"
      using le P(8) by linarith
  qed
  let ?rest = "\<lambda>_. if \<not> 0 < i \<and> remaining - int ?tb < 16 then retE (jblk + 1)
      else if i + 1 = n then retE (jblk + 1)
      else if \<not> 0 < i then tags_loop action seq d (off + ?tb + 16) (remaining - int ?tb - 16) (jblk + 1)
      else tags_loop action seq d (off + ?tb) (remaining - int ?tb) (jblk + 1)"
  have eq: "tags_loop action seq d off remaining jblk fs =
      bindE (apply_tag action seq d off (jblk + 1)) ?rest fs"
    using tags_loop_bind [OF room(1) wr [symmetric] refl refl, of action seq d off] by (simp only: fl)
  have one: "emits fs (pass_writes action fs [t]) (apply_tag action seq d off (jblk + 1)) (\<lambda>_ fs'. only_dev fs fs')"
    unfolding t by (rule emits_apply_tag [OF P(1-4) lt tw(1-3)]) (use P t in auto)
  have rest: "emits fs1 (pass_writes action fs ts) (?rest x)
      (\<lambda>x fs'. x = jblk + word_of_nat (length (t # ts)) \<and> only_dev fs fs')"
    if st: "vol_step fs fs1" "disk fs1 = dwrites (disk fs) (pass_writes action fs [t])" "only_dev fs fs1"
    for x :: unit and fs1
  proof (cases "ts = []")
    case True
    then have "i + 1 = n" using P(6) by simp
    then have r: "?rest x = retE (jblk + 1)" by simp
    show ?thesis unfolding r using True st by (simp add: emits_def pass_writes_def home_writes_def vol_stepD)
  next
    case False
    then have "i + 1 \<noteq> n" using P(6) by (cases ts) auto
    then have r: "?rest x = tags_loop action seq d (off + ?tb + uuid_room i)
        (remaining - int ?tb - int (uuid_room i)) (jblk + 1)"
      using room(2) by (auto simp: uuid_room_def)
    have sl: "same_log fs fs1" by (rule same_log_dev [OF st(1,3)])
    note e = same_logD [OF sl]
    have "\<not> in_log ?j (unat blk)" using P(11) t by auto
    then have keep: "disk fs1 n = disk fs n" if "in_log ?j n" for n
      using that by (auto simp: st(2) t pass_writes_def home_writes_def)
    have lh: "log_holds fs (disk fs1) (jblk + 1 + 1) ts"
    proof (rule log_holds_cong [of fs "disk fs" "jblk + 1 + 1" ts ?m])
      show "log_holds fs (disk fs) (jblk + 1 + 1) ts" using P(9) t by simp
      show "\<forall>v. jblk + 1 + 1 \<le> v \<and> v < ?m \<longrightarrow> disk fs1 (log_blk ?j v) = disk fs (log_blk ?j v)"
        using keep in_log_blk by blast
      have "unat (jblk + 1 + 1) = Suc (Suc (unat jblk))"
        using unat_Suc_word [of "jblk + 1" ?m] s lt by (simp add: word_less_nat_alt)
      then show "unat (jblk + 1 + 1) + length ts \<le> unat ?m" using P(10) by simp
    qed
    have "emits fs1 (pass_writes action fs1 ts) (tags_loop action seq d (off + ?tb + uuid_room i)
        (remaining - int ?tb - int (uuid_room i)) (jblk + 1))
        (\<lambda>x fs'. x = jblk + 1 + word_of_nat (length ts) \<and> only_dev fs1 fs')"
      using False P e st tw(4) room(3) lh s
      by (intro Cons.IH [where i = "Suc i"]) (auto simp: only_devD)
    then have "emits fs1 (pass_writes action fs ts) (tags_loop action seq d (off + ?tb + uuid_room i)
        (remaining - int ?tb - int (uuid_room i)) (jblk + 1))
        (\<lambda>x fs'. x = jblk + 1 + word_of_nat (length ts) \<and> only_dev fs1 fs')"
      by (simp only: pass_writes_step [OF sl])
    then show ?thesis unfolding r
      by (rule emits_mono) (auto intro: only_dev_trans [OF st(3)] simp: add.assoc)
  qed
  have "emits fs (pass_writes action fs [t] @ pass_writes action fs ts)
      (bindE (apply_tag action seq d off (jblk + 1)) ?rest)
      (\<lambda>x fs'. x = jblk + word_of_nat (length (t # ts)) \<and> only_dev fs fs')"
    by (rule emits_bind [OF one]) (rule rest)
  then show ?case unfolding pass_writes_Cons [of action fs t ts] emits_def eq .
qed simp

section \<open>The walk\<close>

text \<open>
  A log that starts with one complete transaction.  After it may come anything that is no part of
  the log: no journal block, a commit block (of an older, longer transaction), or a journal block
  with another sequence number than the one due there.
\<close>

definition log_complete :: "file_ctx ext4_fs \<Rightarrow> ext4_jbd \<Rightarrow> (nat \<Rightarrow> buf) \<Rightarrow> jbd_trans \<Rightarrow> bool" where
  "log_complete fs j d ts \<longleftrightarrow>
     d (log_blk j (jbd_first j)) = trunc (bs_nat fs) (descriptor_block j (jbd_sequence j) ts) \<and>
     log_holds fs d (jbd_first j + 1) ts \<and>
     d (log_blk j (commit_jblk j ts)) = trunc (bs_nat fs) (commit_block j (jbd_sequence j))"

definition tail_quiet :: "ext4_jbd \<Rightarrow> (nat \<Rightarrow> buf) \<Rightarrow> jbd_trans \<Rightarrow> bool" where
  "tail_quiet j d ts \<longleftrightarrow>
     (\<forall>w. commit_jblk j ts < w \<and> w < jbd_maxlen j \<longrightarrow>
        (let b = d (log_blk j w)
         in be32 b 0 \<noteq> jbd_magic \<or> be32 b 4 = bt_commit \<or>
            be32 b 8 \<noteq> jbd_sequence j + (w - commit_jblk j ts)))"

definition pending :: "file_ctx ext4_fs \<Rightarrow> jbd_trans \<Rightarrow> bool" where
  "pending fs ts \<longleftrightarrow> (let j = fs_jbd fs in
     vol fs \<and> log_ok fs \<and> jbd_present j \<and> jbd_start j = jbd_first j \<and> 0 < jbd_first j \<and>
     jbd_revoke j = [] \<and> ts \<noteq> [] \<and> length ts \<le> 8 \<and>
     unat (jbd_first j) + length ts + 2 \<le> unat (jbd_maxlen j) \<and> unat (jbd_maxlen j) + 4 < 2 ^ 31 \<and>
     int (length ts * jbd_tag_bytes j) \<le> descriptor_cap j \<and>
     (\<forall>(blk, b) \<in> set ts. blk_ok fs (unat blk) \<and> \<not> in_log j (unat blk)) \<and>
     log_complete fs j (disk fs) ts \<and> tail_quiet j (disk fs) ts)"

lemma pendingD:
  assumes "pending fs ts"
  shows "vol fs" "log_ok fs" "jbd_present (fs_jbd fs)" "jbd_start (fs_jbd fs) = jbd_first (fs_jbd fs)"
    "0 < jbd_first (fs_jbd fs)" "jbd_revoke (fs_jbd fs) = []" "ts \<noteq> []" "length ts \<le> 8"
    "unat (jbd_first (fs_jbd fs)) + length ts + 2 \<le> unat (jbd_maxlen (fs_jbd fs))"
    "unat (jbd_maxlen (fs_jbd fs)) + 4 < 2 ^ 31"
    "int (length ts * jbd_tag_bytes (fs_jbd fs)) \<le> descriptor_cap (fs_jbd fs)"
    "\<forall>(blk, b) \<in> set ts. blk_ok fs (unat blk) \<and> \<not> in_log (fs_jbd fs) (unat blk)"
    "log_complete fs (fs_jbd fs) (disk fs) ts" "tail_quiet (fs_jbd fs) (disk fs) ts"
  using assms by (auto simp: pending_def Let_def)

lemma pending_words:
  assumes "pending fs ts"
  shows "unat (jbd_first (fs_jbd fs) + 1) = unat (jbd_first (fs_jbd fs)) + 1"
    "unat (commit_jblk (fs_jbd fs) ts) = unat (jbd_first (fs_jbd fs)) + 1 + length ts"
    "jbd_first (fs_jbd fs) < jbd_maxlen (fs_jbd fs)"
    "commit_jblk (fs_jbd fs) ts < jbd_maxlen (fs_jbd fs)"
    "unat (commit_jblk (fs_jbd fs) ts + 1) = unat (jbd_first (fs_jbd fs)) + 2 + length ts"
    "sint (jbd_maxlen (fs_jbd fs) + 4) = int (unat (jbd_maxlen (fs_jbd fs))) + 4"
    "jbd_first (fs_jbd fs) + word_of_nat (length ts) + 1 = commit_jblk (fs_jbd fs) ts"
proof -
  let ?f = "jbd_first (fs_jbd fs)" and ?m = "jbd_maxlen (fs_jbd fs)"
  have m: "unat ?m + 4 < 2 ^ 31" and le: "unat ?f + length ts + 2 \<le> unat ?m"
    using pendingD [OF assms] by blast+
  have n: "unat (word_of_nat (length ts) :: u32) = length ts"
    using pendingD(8) [OF assms] by (simp add: unsigned_of_nat take_bit_nat_eq_self)
  show f1: "unat (?f + 1) = unat ?f + 1" using le m by (simp add: unat_add_small)
  then show c: "unat (commit_jblk (fs_jbd fs) ts) = unat ?f + 1 + length ts"
    using le m n by (simp add: commit_jblk_def unat_add_small)
  then show "unat (commit_jblk (fs_jbd fs) ts + 1) = unat ?f + 2 + length ts"
    using le m by (simp add: unat_add_small)
  show "?f < ?m" "commit_jblk (fs_jbd fs) ts < ?m"
    using le c by (simp_all add: word_less_nat_alt)
  have "unat (?m + 4) = unat ?m + 4" using m by (simp add: unat_add_small)
  then show "sint (?m + 4) = int (unat ?m) + 4" using m by (simp add: sint_small)
  show "?f + word_of_nat (length ts) + 1 = commit_jblk (fs_jbd fs) ts"
    by (simp add: commit_jblk_def add.commute add.left_commute)
qed

definition walk_after ::
  "jbd_action \<Rightarrow> u32 \<Rightarrow> int \<Rightarrow> int \<Rightarrow> walk_pos \<Rightarrow> ('c ext4_fs, u32) op" where
  "walk_after action start limit guard = (\<lambda>(log_end, jblk1, seq', end_seq') fs'.
     let jblk' = wrap_jblk (fs_jbd fs') (jblk1 + 1)
     in if log_end \<or> jblk' = start then (Inr end_seq', fs')
        else walk_loop action start limit (guard + 1) jblk' seq' end_seq' fs')"

lemma walk_loop_bind:
  assumes "action = Scan \<or> \<not> 0 < seq_diff seq end_seq" "ext4_journal_read_log_block fs jblk = Inr b"
    "be32 b 0 = jbd_magic" "be32 b 8 = seq" "guard + 1 \<le> limit"
  shows "walk_loop action start limit guard jblk seq end_seq fs =
    bindE (walk_block action b jblk seq end_seq) (walk_after action start limit guard) fs"
proof -
  obtain r fs' where r: "walk_block action b jblk seq end_seq fs = (r, fs')" by fastforce
  have n: "\<not> (action \<noteq> Scan \<and> 0 < seq_diff seq end_seq)" "\<not> limit < guard + 1" using assms(1,5) by auto
  show ?thesis
    unfolding walk_loop.simps [of action start limit guard jblk seq end_seq fs] bindE_def r
    using assms(2-4) n r by (cases r) (auto simp: walk_after_def Let_def split: prod.splits)
qed

lemma emits_descriptor:
  assumes p: "pending fs ts" and a: "action \<noteq> Build" and j: "j = fs_jbd fs"
    and b: "b = disk fs (log_blk j (jbd_first j))"
  shows "emits fs (pass_writes action fs ts) (walk_block action b (jbd_first j) (jbd_sequence j) es)
    (\<lambda>x fs'. x = (False, jbd_first j + word_of_nat (length ts), jbd_sequence j, es) \<and> only_dev fs fs')"
proof -
  note P = pendingD [OF p, folded j] and W = pending_words [OF p, folded j]
  have bs: "jbd_bs j = bs_nat fs" "length (jbd_uuid j) = 16"
    using log_okD(7,9) [OF P(2)] by (simp_all add: j)
  have small: "\<forall>(blk, b) \<in> set ts. unat blk < 2 ^ 32 \<or> jbd_has_64bit j"
  proof (clarify)
    fix blk and b' :: buf
    assume "(blk, b') \<in> set ts"
    then have "blk_ok fs (unat blk)" using P(12) by auto
    then have "(unat blk + 1) * bs_nat fs \<le> 2 ^ 32" by (simp add: blk_ok_def)
    moreover have "(unat blk + 1) * 1 \<le> (unat blk + 1) * bs_nat fs"
      using vol_bs(3) [OF P(1)] by (intro mult_le_mono2) linarith
    ultimately have "(unat blk + 1) * 1 \<le> 2 ^ 32" by (rule order_trans [rotated])
    then show "unat blk < 2 ^ 32" by simp
  qed
  have bd: "b = trunc (jbd_bs j) (descriptor_block j (jbd_sequence j) ts)"
    using P(13) by (simp add: b log_complete_def bs(1))
  note D = descriptor_stored [OF bs(2) _ _ P(7) small P(11) bd, unfolded bs(1), OF vol_bs(1,2) [OF P(1)]]
  have tl: "emits fs (pass_writes action fs ts) (iterate_descriptor_tags (jbd_sequence j) (jbd_first j) b action)
      (\<lambda>x fs'. x = jbd_first j + word_of_nat (length ts) \<and> only_dev fs fs')"
  proof (rule emits_cong)
    show "emits fs (pass_writes action fs ts) (tags_loop action (jbd_sequence j) b 12 (tags_room j) (jbd_first j))
      (\<lambda>x fs'. x = jbd_first j + word_of_nat (length ts) \<and> only_dev fs fs')"
      using P(6,9,12,13) D(5,6)
      by (intro emits_tags_loop [OF P(1,2) a _ P(7), of 0]) (auto simp: j log_complete_def)
  qed (simp add: iterate_descriptor_tags_def j)
  have "emits fs (pass_writes action fs ts @ [])
      (bindE (iterate_descriptor_tags (jbd_sequence j) (jbd_first j) b action)
        (\<lambda>jblk'. retE (False, jblk', jbd_sequence j, es)))
      (\<lambda>x fs'. x = (False, jbd_first j + word_of_nat (length ts), jbd_sequence j, es) \<and> only_dev fs fs')"
    by (rule emits_bind [OF tl]) (auto simp: emits_def vol_stepD)
  moreover have "walk_block action b (jbd_first j) (jbd_sequence j) es fs =
      bindE (iterate_descriptor_tags (jbd_sequence j) (jbd_first j) b action)
        (\<lambda>jblk'. retE (False, jblk', jbd_sequence j, es)) fs"
    using D(2,4) by (simp add: walk_block_def bindE_def j)
  ultimately show ?thesis by (simp add: emits_def)
qed

lemma seq_diff_succ: "seq_diff (s + 1) s = 1"
  by (simp add: seq_diff_def)

lemma seq_diff_self: "seq_diff s s = 0"
  by (simp add: seq_diff_def)

lemma seq_diff_nat:
  assumes "m < 2 ^ 31"
  shows "seq_diff (s + word_of_nat m) s = int m" "seq_diff s (s + word_of_nat m) = - int m"
proof -
  have w: "sint (word_of_int i :: u32) = i" if "- (2 ^ 31) \<le> i" "i < 2 ^ 31" for i
    using that by (simp add: sint_sbintrunc' signed_take_bit_int_eq_self)
  show "seq_diff (s + word_of_nat m) s = int m"
    using w [of "int m"] assms by (simp add: seq_diff_def)
  show "seq_diff s (s + word_of_nat m) = - int m"
    using w [of "- int m"] assms by (simp add: seq_diff_def)
qed

text \<open>
  The commit blocks that directly follow a transaction and carry the sequence numbers due: the
  walk accepts each as the end of an empty transaction.
\<close>

primrec tail_commits :: "ext4_jbd \<Rightarrow> (nat \<Rightarrow> buf) \<Rightarrow> nat \<Rightarrow> u32 \<Rightarrow> u32 \<Rightarrow> nat" where
  "tail_commits j d 0 w seq = 0"
| "tail_commits j d (Suc k) w seq =
     (let b = d (log_blk j w)
      in if be32 b 0 = jbd_magic \<and> be32 b 8 = seq \<and> be32 b 4 = bt_commit \<and> verify_commit_block j b
         then Suc (tail_commits j d k (w + 1) (seq + 1)) else 0)"

lemma tail_commits_le: "tail_commits j d k w seq \<le> k"
  by (induction k arbitrary: w seq) (auto simp: Let_def)

lemma tail_commits_cong:
  assumes "\<And>v. w \<le> v \<Longrightarrow> v < jbd_maxlen j \<Longrightarrow> d' (log_blk j v) = d (log_blk j v)"
    and "unat w + k = unat (jbd_maxlen j)"
  shows "tail_commits j d' k w seq = tail_commits j d k w seq"
  using assms
proof (induction k arbitrary: w seq)
  case (Suc k)
  have w: "w < jbd_maxlen j" using Suc.prems(2) by (simp add: word_less_nat_alt)
  have u: "unat (w + 1) = unat w + 1" using w by (rule unat_Suc_less)
  have "d' (log_blk j w) = d (log_blk j w)" using Suc.prems(1) [OF order_refl w] .
  moreover have "tail_commits j d' k (w + 1) (seq + 1) = tail_commits j d k (w + 1) (seq + 1)"
    using Suc.prems u by (intro Suc.IH) (auto simp: word_le_nat_alt)
  ultimately show ?case by (simp add: Let_def)
qed simp

lemma walk_commits:
  assumes v: "vol fs" "log_ok fs" and j: "j = fs_jbd fs"
  shows "jbd_first j < w \<Longrightarrow> unat w + k = unat (jbd_maxlen j) \<Longrightarrow>
    \<forall>i < k. be32 (disk fs (log_blk j (w + word_of_nat i))) 0 \<noteq> jbd_magic \<or>
      be32 (disk fs (log_blk j (w + word_of_nat i))) 4 = bt_commit \<or>
      be32 (disk fs (log_blk j (w + word_of_nat i))) 8 \<noteq> seq + word_of_nat i \<Longrightarrow>
    guard + 1 + int k \<le> limit \<Longrightarrow> n = tail_commits j (disk fs) k w seq \<Longrightarrow> n < 2 ^ 31 \<Longrightarrow>
    es = (if action = Scan then seq else seq + word_of_nat n - 1) \<Longrightarrow>
    walk_after action (jbd_first j) limit guard (False, w - 1, seq, es) fs =
      (Inr (if action = Scan then seq + word_of_nat n else es), fs)"
proof (induction k arbitrary: w seq guard n es)
  case 0
  then have "jbd_maxlen j \<le> w" by (simp add: word_le_nat_alt)
  then show ?case using 0 by (simp add: walk_after_def wrap_jblk_def flip: j)
next
  case (Suc k)
  let ?b = "disk fs (log_blk j w)"
  have w: "w < jbd_maxlen j" using Suc.prems(2) by (simp add: word_less_nat_alt)
  have u: "unat (w + 1) = unat w + 1" using w by (rule unat_Suc_less)
  have wr: "wrap_jblk j (w - 1 + 1) = w" "w \<noteq> jbd_first j"
    using w Suc.prems(1) by (auto simp: wrap_jblk_def)
  have rd: "ext4_journal_read_log_block fs w = Inr ?b"
    using read_log_block_disk [OF v, of w] w by (simp add: j)
  have start: "walk_after action (jbd_first j) limit guard (False, w - 1, seq, es) fs =
      walk_loop action (jbd_first j) limit (guard + 1) w seq es fs"
    using wr by (simp add: walk_after_def flip: j)
  let ?hit = "be32 ?b 0 = jbd_magic \<and> be32 ?b 8 = seq \<and> be32 ?b 4 = bt_commit \<and> verify_commit_block j ?b"
  show ?case
  proof (cases ?hit)
    case True
    let ?n = "tail_commits j (disk fs) k (w + 1) (seq + 1)"
    have n: "n = Suc ?n" using Suc.prems(5) True by (simp add: Let_def)
    have cont: "action = Scan \<or> \<not> 0 < seq_diff seq es"
      using seq_diff_nat(2) [of ?n seq] Suc.prems(6,7) n by (auto simp: algebra_simps)
    let ?es = "if action = Scan then seq + 1 else es"
    have nd: "bt_commit \<noteq> bt_descriptor" by (simp add: bt_commit_def bt_descriptor_def)
    have "walk_block action ?b w seq es fs = (Inr (False, w, seq + 1, ?es), fs)"
      using True nd by (simp add: walk_block_def bindE_def Let_def flip: j)
    then have "walk_loop action (jbd_first j) limit (guard + 1) w seq es fs =
        walk_after action (jbd_first j) limit (guard + 1) (False, w + 1 - 1, seq + 1, ?es) fs"
      using walk_loop_bind [OF cont rd, of "guard + 1" limit "jbd_first j"] True Suc.prems(4)
      by (simp add: bindE_def)
    also have "\<dots> = (Inr (if action = Scan then seq + 1 + word_of_nat ?n else ?es), fs)"
    proof (rule Suc.IH [OF _ _ _ _ refl])
      show "jbd_first j < w + 1" using Suc.prems(1) u by (simp add: word_less_nat_alt)
      show "unat (w + 1) + k = unat (jbd_maxlen j)" using u Suc.prems(2) by simp
      show "\<forall>i < k. be32 (disk fs (log_blk j (w + 1 + word_of_nat i))) 0 \<noteq> jbd_magic \<or>
          be32 (disk fs (log_blk j (w + 1 + word_of_nat i))) 4 = bt_commit \<or>
          be32 (disk fs (log_blk j (w + 1 + word_of_nat i))) 8 \<noteq> seq + 1 + word_of_nat i"
      proof (intro allI impI)
        fix i
        assume "i < k"
        with Suc.prems(3) [rule_format, of "Suc i"]
        show "be32 (disk fs (log_blk j (w + 1 + word_of_nat i))) 0 \<noteq> jbd_magic \<or>
          be32 (disk fs (log_blk j (w + 1 + word_of_nat i))) 4 = bt_commit \<or>
          be32 (disk fs (log_blk j (w + 1 + word_of_nat i))) 8 \<noteq> seq + 1 + word_of_nat i"
          by (simp add: add.assoc)
      qed
    qed (use Suc.prems(4,6,7) n in \<open>auto simp: algebra_simps\<close>)
    finally show ?thesis using n by (simp add: start add.assoc)
  next
    case False
    then have n: "n = 0" using Suc.prems(5) by (auto simp: Let_def)
    show ?thesis
    proof (cases "action = Scan")
      case True
      have q: "be32 ?b 0 \<noteq> jbd_magic \<or> be32 ?b 8 \<noteq> seq \<or> be32 ?b 4 = bt_commit \<and> \<not> verify_commit_block j ?b"
        using False Suc.prems(3) [rule_format, of 0] by auto
      show ?thesis
      proof (cases "be32 ?b 0 \<noteq> jbd_magic \<or> be32 ?b 8 \<noteq> seq")
        case c: True
        then show ?thesis
          unfolding start using True rd n Suc.prems(7) by (subst walk_loop.simps) auto
      next
        case c: False
        with q have cv: "be32 ?b 4 = bt_commit" "\<not> verify_commit_block j ?b" by auto
        have nd: "bt_commit \<noteq> bt_descriptor" by (simp add: bt_commit_def bt_descriptor_def)
        have "walk_block action ?b w seq es fs = (Inr (True, w, seq, es), fs)"
          using cv nd by (simp add: walk_block_def bindE_def Let_def flip: j)
        then show ?thesis
          unfolding start
          using walk_loop_bind [of action seq es fs w ?b "guard + 1" limit "jbd_first j"]
            True rd c n Suc.prems(4,7)
          by (simp add: bindE_def walk_after_def)
      qed
    next
      case c: False
      then have "0 < seq_diff seq es" using Suc.prems(7) n by (simp add: seq_diff_def)
      with c show ?thesis unfolding start by (subst walk_loop.simps) simp
    qed
  qed
qed

text \<open>From the commit block of the transaction on.\<close>

definition tail_of :: "ext4_jbd \<Rightarrow> (nat \<Rightarrow> buf) \<Rightarrow> jbd_trans \<Rightarrow> nat" where
  "tail_of j d ts =
     tail_commits j d (unat (jbd_maxlen j) - unat (commit_jblk j ts + 1)) (commit_jblk j ts + 1)
       (jbd_sequence j + 1)"

lemma tail_of_small: "unat (jbd_maxlen j) + 4 < 2 ^ 31 \<Longrightarrow> tail_of j d ts + 4 < 2 ^ 31"
  using tail_commits_le [of j d "unat (jbd_maxlen j) - unat (commit_jblk j ts + 1)"
    "commit_jblk j ts + 1" "jbd_sequence j + 1"]
  unfolding tail_of_def by linarith

lemma walk_tail:
  assumes p: "pending fs ts" and j: "j = fs_jbd fs" and c: "c = commit_jblk j ts"
    and n: "n = tail_of j (disk fs) ts"
    and es: "action \<noteq> Scan \<longrightarrow> es = jbd_sequence j + word_of_nat n"
    and lim: "guard + int (unat (jbd_maxlen j)) \<le> limit"
  shows "walk_loop action (jbd_first j) limit guard c (jbd_sequence j) es fs =
    (Inr (jbd_sequence j + word_of_nat n + (if action = Scan then 1 else 0)), fs)"
proof -
  note P = pendingD [OF p, folded j] and W = pending_words [OF p, folded j, folded c]
  let ?s = "jbd_sequence j" and ?b = "disk fs (log_blk j c)"
  let ?k = "unat (jbd_maxlen j) - unat (c + 1)"
  have b: "?b = trunc (bs_nat fs) (commit_block j ?s)" using P(13) by (simp add: log_complete_def c)
  note C = commit_stored [of j, unfolded log_okD(7) [OF P(2), folded j], OF vol_bs(1) [OF P(1)] b]
  have nd: "bt_commit \<noteq> bt_descriptor" by (simp add: bt_commit_def bt_descriptor_def)
  have nn: "n + 4 < 2 ^ 31" using tail_of_small [OF P(10)] n by simp
  have rd: "ext4_journal_read_log_block fs c = Inr ?b"
    using read_log_block_disk [OF P(1,2)] W(4) by (simp add: j)
  let ?es = "if action = Scan then ?s + 1 else es"
  have wb: "walk_block action ?b c ?s es fs = (Inr (False, c, ?s + 1, ?es), fs)"
    using C nd by (simp add: walk_block_def bindE_def Let_def flip: j)
  have cont: "action = Scan \<or> \<not> 0 < seq_diff ?s es"
    using es seq_diff_nat(2) [of n ?s] nn by auto
  have g: "guard + 1 \<le> limit" using lim P(9) by linarith
  have cb: "be32 ?b 0 = jbd_magic" "be32 ?b 8 = ?s" using C by auto
  have "walk_loop action (jbd_first j) limit guard c ?s es fs =
      walk_after action (jbd_first j) limit guard (False, c + 1 - 1, ?s + 1, ?es) fs"
    using walk_loop_bind [OF cont rd cb g, of "jbd_first j"] wb by (simp add: bindE_def)
  also have "\<dots> = (Inr (if action = Scan then ?s + 1 + word_of_nat n else ?es), fs)"
  proof (rule walk_commits [OF P(1,2) j, where k = ?k])
    show "jbd_first j < c + 1" using W(5) P(9) by (simp add: word_less_nat_alt)
    show "unat (c + 1) + ?k = unat (jbd_maxlen j)" using W(5) P(9) by simp
    show "\<forall>i < ?k. be32 (disk fs (log_blk j (c + 1 + word_of_nat i))) 0 \<noteq> jbd_magic \<or>
        be32 (disk fs (log_blk j (c + 1 + word_of_nat i))) 4 = bt_commit \<or>
        be32 (disk fs (log_blk j (c + 1 + word_of_nat i))) 8 \<noteq> ?s + 1 + word_of_nat i"
    proof (intro allI impI)
      fix i
      assume i: "i < ?k"
      then have sm: "i < 2 ^ 31" using P(10) by linarith
      then have ui: "unat (word_of_nat i :: u32) = i" by (simp add: unsigned_of_nat take_bit_nat_eq_self)
      have u: "unat (c + 1 + word_of_nat i) = unat (c + 1) + i"
        using i P(10) by (subst unat_add_small) (simp_all add: ui)
      have "c < c + 1 + word_of_nat i" "c + 1 + word_of_nat i < jbd_maxlen j"
        using u i W(2,5) by (simp_all add: word_less_nat_alt)
      then show "be32 (disk fs (log_blk j (c + 1 + word_of_nat i))) 0 \<noteq> jbd_magic \<or>
        be32 (disk fs (log_blk j (c + 1 + word_of_nat i))) 4 = bt_commit \<or>
        be32 (disk fs (log_blk j (c + 1 + word_of_nat i))) 8 \<noteq> ?s + 1 + word_of_nat i"
        using P(14) unfolding tail_quiet_def Let_def c [symmetric]
        by (auto dest!: spec [of _ "c + 1 + word_of_nat i"] simp: algebra_simps)
    qed
    show "guard + 1 + int ?k \<le> limit" using lim W(5) P(9) by linarith
    show "n = tail_commits j (disk fs) ?k (c + 1) (?s + 1)" by (simp add: n tail_of_def c)
  qed (use nn es in auto)
  finally show ?thesis using es by (simp add: algebra_simps)
qed

text \<open>A replay may be interrupted: the log alone decides what is pending.\<close>

lemma pending_keep:
  assumes p: "pending fs ts" and s: "vol_step fs fs1" "only_dev fs fs1"
    and k: "\<And>n. in_log (fs_jbd fs) n \<Longrightarrow> disk fs1 n = disk fs n"
  shows "pending fs1 ts" "tail_of (fs_jbd fs1) (disk fs1) ts = tail_of (fs_jbd fs) (disk fs) ts"
proof -
  let ?j = "fs_jbd fs"
  note P = pendingD [OF p] and W = pending_words [OF p] and e = same_logD [OF same_log_dev [OF s]]
  have kw: "disk fs1 (log_blk ?j w) = disk fs (log_blk ?j w)" if "w < jbd_maxlen ?j" for w
    using k [OF in_log_blk [OF that]] .
  have jb: "fs_jbd fs1 = ?j" using s(2) by (simp add: only_devD)
  have "log_holds fs (disk fs1) (jbd_first ?j + 1) ts"
  proof -
    have "log_holds fs (disk fs) (jbd_first ?j + 1) ts" using P(13) by (simp add: log_complete_def)
    moreover have "\<forall>v. jbd_first ?j + 1 \<le> v \<and> v < jbd_maxlen ?j \<longrightarrow>
        disk fs1 (log_blk ?j v) = disk fs (log_blk ?j v)" using kw by blast
    ultimately show ?thesis using log_holds_cong W(1) P(9) by simp
  qed
  then have "log_complete fs1 (fs_jbd fs1) (disk fs1) ts"
    using P(13) kw [OF W(3)] kw [OF W(4)] e(6) e(13) by (simp add: log_complete_def jb)
  moreover have "tail_quiet (fs_jbd fs1) (disk fs1) ts"
    using P(14) kw unfolding tail_quiet_def Let_def jb by metis
  ultimately show "pending fs1 ts"
    using P e(1,3,4) by (auto simp: pending_def Let_def jb e(5))
  have q: "v < jbd_maxlen ?j \<Longrightarrow> disk fs1 (log_blk ?j v) = disk fs (log_blk ?j v)" for v by (rule kw)
  show "tail_of (fs_jbd fs1) (disk fs1) ts = tail_of (fs_jbd fs) (disk fs) ts"
    unfolding tail_of_def jb using W(5) P(9) by (intro tail_commits_cong q) simp_all
qed

lemma pending_step:
  assumes "pending fs ts" "vol_step fs fs1" "only_dev fs fs1" "disk fs1 = disk fs"
  shows "pending fs1 ts" "tail_of (fs_jbd fs1) (disk fs1) ts = tail_of (fs_jbd fs) (disk fs) ts"
  using pending_keep [OF assms(1-3)] assms(4) by auto

lemma emits_walk_loop:
  assumes p: "pending fs ts" and a: "action \<noteq> Build" and j: "j = fs_jbd fs"
    and n: "n = tail_of j (disk fs) ts"
    and es: "action \<noteq> Scan \<longrightarrow> es = jbd_sequence j + word_of_nat n"
    and lim: "1 + int (unat (jbd_maxlen j)) \<le> limit"
  shows "emits fs (pass_writes action fs ts)
    (walk_loop action (jbd_first j) limit 0 (jbd_first j) (jbd_sequence j) es)
    (\<lambda>x fs'. x = jbd_sequence j + word_of_nat n + (if action = Scan then 1 else 0) \<and> only_dev fs fs')"
proof -
  note P = pendingD [OF p, folded j] and W = pending_words [OF p, folded j]
  let ?b = "disk fs (log_blk j (jbd_first j))"
  have nn: "n + 4 < 2 ^ 31" using tail_of_small [OF P(10)] n by simp
  have l1: "1 \<le> limit" using lim by linarith
  have bd: "be32 ?b 0 = jbd_magic" "be32 ?b 8 = jbd_sequence j"
  proof -
    have small: "be32 (trunc (bs_nat fs) (descriptor_block j (jbd_sequence j) ts)) q
        = be32 (jbd_header bt_descriptor (jbd_sequence j)) q" if "q + 4 \<le> 12" for q
      using that vol_bs(1) [OF P(1)] log_okD(7,9) [OF P(2)]
        put_tags_outside [of j _ 12 0 ts "jbd_sequence j" "length ts" "jbd_header bt_descriptor (jbd_sequence j)"]
      by (intro be32_cong) (auto simp: descriptor_block_def Let_def buf_simps j)
    show "be32 ?b 0 = jbd_magic" "be32 ?b 8 = jbd_sequence j"
      using P(13) small by (simp_all add: log_complete_def jbd_header_fields)
  qed
  have rd: "ext4_journal_read_log_block fs (jbd_first j) = Inr ?b"
    using read_log_block_disk [OF P(1,2)] W(3) by (simp add: j)
  have cont: "action = Scan \<or> \<not> 0 < seq_diff (jbd_sequence j) es"
    using es seq_diff_nat(2) [of n "jbd_sequence j"] nn by auto
  have eq: "walk_loop action (jbd_first j) limit 0 (jbd_first j) (jbd_sequence j) es fs =
      bindE (walk_block action ?b (jbd_first j) (jbd_sequence j) es) (walk_after action (jbd_first j) limit 0) fs"
    using l1 by (intro walk_loop_bind [OF cont rd bd]) simp
  have "emits fs (pass_writes action fs ts @ [])
      (bindE (walk_block action ?b (jbd_first j) (jbd_sequence j) es) (walk_after action (jbd_first j) limit 0))
      (\<lambda>x fs'. x = jbd_sequence j + word_of_nat n + (if action = Scan then 1 else 0) \<and> only_dev fs fs')"
  proof (rule emits_bind [OF emits_descriptor [OF p a j refl]])
    fix x fs1
    assume st: "vol_step fs fs1" "disk fs1 = dwrites (disk fs) (pass_writes action fs ts)"
      and x: "x = (False, jbd_first j + word_of_nat (length ts), jbd_sequence j, es) \<and> only_dev fs fs1"
    then have od: "only_dev fs fs1" by simp
    have j1: "fs_jbd fs1 = j" using od by (simp add: only_devD j)
    note e = same_logD [OF same_log_dev [OF st(1) od]]
    have "disk fs1 n = disk fs n" if "in_log (fs_jbd fs) n" for n
      unfolding st(2) using that P(12)
      by (intro dwrites_other) (auto simp: pass_writes_def home_writes_def j)
    note p1 = pending_keep [OF p st(1) od this]
    let ?c = "commit_jblk j ts"
    have wr: "wrap_jblk j (jbd_first j + word_of_nat (length ts) + 1) = ?c"
      using W(4,7) by (auto simp: wrap_jblk_def)
    have nf: "?c \<noteq> jbd_first j" using W(2) by auto
    have "walk_loop action (jbd_first j) limit 1 ?c (jbd_sequence j) es fs1 =
        (Inr (jbd_sequence j + word_of_nat n + (if action = Scan then 1 else 0)), fs1)"
      using es lim p1(2) by (intro walk_tail [OF p1(1) j1 [symmetric] refl]) (simp_all add: n j1 flip: j)
    then have "walk_after action (jbd_first j) limit 0 x fs1 =
        (Inr (jbd_sequence j + word_of_nat n + (if action = Scan then 1 else 0)), fs1)"
      using x wr nf j1 by (auto simp: walk_after_def)
    then show "emits fs1 [] (walk_after action (jbd_first j) limit 0 x)
        (\<lambda>x fs'. x = jbd_sequence j + word_of_nat n + (if action = Scan then 1 else 0) \<and> only_dev fs fs')"
      using e(1) od by (simp add: emits_def)
  qed
  then show ?thesis unfolding emits_def eq append_Nil2 .
qed

section \<open>Replay\<close>

lemma emits_walk_log:
  assumes p: "pending fs ts" and a: "action \<noteq> Build" and j: "j = fs_jbd fs"
    and l: "last_seq = jbd_sequence j + word_of_nat (tail_of j (disk fs) ts)"
    and es: "action \<noteq> Scan \<longrightarrow> es = last_seq"
  shows "emits fs (pass_writes action fs ts) (walk_log action es)
    (\<lambda>x fs'. x = last_seq \<and> only_dev fs fs')"
proof -
  note P = pendingD [OF p, folded j] and W = pending_words [OF p, folded j]
  let ?es = "if action = Scan then 0 else es" and ?n = "tail_of j (disk fs) ts"
  have nn: "Suc ?n < 2 ^ 31" using tail_of_small [OF P(10), of "disk fs" ts] by simp
  have loop: "emits fs (pass_writes action fs ts)
    (walk_loop action (jbd_first j) (sint (jbd_maxlen j + 4)) 0 (jbd_first j) (jbd_sequence j) ?es)
    (\<lambda>x fs'. x = jbd_sequence j + word_of_nat ?n + (if action = Scan then 1 else 0) \<and> only_dev fs fs')"
    using W(6) es l by (intro emits_walk_loop [OF p a j refl]) auto
  have up: "0 < seq_diff (jbd_sequence j + word_of_nat ?n + 1) (jbd_sequence j)"
    using seq_diff_nat(1) [OF nn, of "jbd_sequence j"] by (simp add: algebra_simps)
  have nz: "jbd_start j \<noteq> 0" using P(4,5) by auto
  obtain r fs' where r: "walk_loop action (jbd_first j) (sint (jbd_maxlen j + 4)) 0 (jbd_first j)
      (jbd_sequence j) ?es fs = (r, fs')" by fastforce
  then have w: "walk_log action es fs = (case r of Inl rc \<Rightarrow> (Inl rc, fs') | Inr e \<Rightarrow>
       (Inr (if action \<noteq> Scan then es
             else if 0 < seq_diff e (jbd_sequence (fs_jbd fs')) then e - 1 else e), fs'))"
    using nz P(4) by (cases r) (simp_all add: walk_log_def Let_def flip: j)
  from loop r show ?thesis
  proof (cases rule: emitsE)
    case (ok x)
    then show ?thesis
      using w es l up by (auto simp: emits_def only_devD j)
  next
    case (cut rc k)
    then show ?thesis using w by (auto simp: emits_def)
  qed
qed

lemma emits_on_error:
  assumes "emits fs ws m Q" "\<And>fs'. vol_step fs fs' \<Longrightarrow> vol_step fs' (f fs') \<and> disk (f fs') = disk fs'"
    "\<And>fs'. dead (f fs') = dead fs'"
  shows "emits fs ws (on_error m f) Q"
proof -
  obtain r fs' where r: "m fs = (r, fs')" by fastforce
  from assms(1) r show ?thesis
  proof (cases rule: emitsE)
    case (ok x)
    with r show ?thesis by (simp add: emits_def on_error_def)
  next
    case (cut rc k)
    with r assms(2,3) [of fs'] show ?thesis
      by (auto simp: emits_def on_error_def intro: vol_step_trans)
  qed
qed

lemma emits_on_error_jbd:
  assumes "emits fs ws m Q"
  shows "emits fs ws (on_error m (upd_jbd f)) Q"
proof (rule emits_on_error [OF assms])
  fix fs'
  assume "vol_step fs fs'"
  then have "vol fs'" by (rule vol_stepD)
  then show "vol_step fs' (upd_jbd f fs') \<and> disk (upd_jbd f fs') = disk fs'"
    by (intro conjI handle_update_disk) simp_all
qed (simp add: dead_def)

text \<open>On a writable device the replay of a complete log writes the transaction's blocks to
  their places, and can only be stopped by the device.\<close>

lemma emits_replay:
  assumes p: "pending fs ts"
  shows "emits fs (home_writes fs ts) ext4_journal_replay (\<lambda>_ fs'. only_dev fs fs')"
proof -
  note P = pendingD [OF p]
  let ?j = "fs_jbd fs"
  let ?last = "jbd_sequence ?j + word_of_nat (tail_of ?j (disk fs) ts)"
  let ?flush = "\<lambda>_. bindE (on_error (walk_log Flush ?last) (upd_jbd clear_tables)) (\<lambda>_. retE ())"
  let ?ops = "bindE (walk_log Scan 0) (\<lambda>last_seq.
      if seq_diff last_seq (jbd_sequence ?j) < 0 then retE ()
      else bindE (on_error (walk_log Revoke last_seq) (upd_jbd clear_revoke)) (\<lambda>_.
           bindE (on_error (walk_log Flush last_seq) (upd_jbd clear_tables)) (\<lambda>_. retE ())))"
  have up: "\<not> seq_diff ?last (jbd_sequence ?j) < 0"
    using seq_diff_nat(1) [of "tail_of ?j (disk fs) ts" "jbd_sequence ?j"]
      tail_of_small [OF P(10), of "disk fs" ts] by simp
  have wr: "bdev_writable (fs_bd fs)" using P(1) by (simp add: vol_def bdev_writable_def)
  have nz: "jbd_start ?j \<noteq> 0" using P(4,5) by auto
  have eq: "ext4_journal_replay fs = ?ops fs"
    using wr nz P(3) by (simp add: ext4_journal_replay_def Let_def)
  have flush: "emits fs1 (home_writes fs ts) (?flush ()) (\<lambda>_ fs'. only_dev fs fs')"
    if s: "vol_step fs fs1" "only_dev fs fs1" "disk fs1 = disk fs" for fs1
  proof -
    note p1 = pending_step [OF p s]
    have "emits fs1 (pass_writes Flush fs1 ts @ []) (?flush ()) (\<lambda>_ fs'. only_dev fs fs')"
    proof (rule emits_bind [OF emits_on_error_jbd [OF emits_walk_log [OF p1(1) _ refl, where last_seq = ?last]]])
      fix x fs2
      assume "vol_step fs1 fs2" "x = ?last \<and> only_dev fs1 fs2"
      then show "emits fs2 [] (retE ()) (\<lambda>_ fs'. only_dev fs fs')"
        using only_dev_trans [OF s(2)] by (auto simp: emits_def vol_stepD)
    qed (use s p1(2) in \<open>auto simp: only_devD\<close>)
    then show ?thesis
      using same_logD(11) [OF same_log_dev [OF s(1,2)]] by (simp add: pass_writes_def)
  qed
  have "emits fs ([] @ ([] @ home_writes fs ts)) ?ops (\<lambda>_ fs'. only_dev fs fs')"
  proof (rule emits_bind)
    show "emits fs [] (walk_log Scan 0) (\<lambda>x fs'. x = ?last \<and> only_dev fs fs')"
      using emits_walk_log [OF p _ refl refl, of Scan 0] by (simp add: pass_writes_def)
  next
    fix last_seq fs1
    assume s: "vol_step fs fs1" "disk fs1 = dwrites (disk fs) []"
      "last_seq = ?last \<and> only_dev fs fs1"
    then have d1: "disk fs1 = disk fs" and o1: "only_dev fs fs1" and ls: "last_seq = ?last"
      by simp_all
    note p1 = pending_step [OF p s(1) o1 d1]
    have "emits fs1 ([] @ home_writes fs ts)
       (bindE (on_error (walk_log Revoke last_seq) (upd_jbd clear_revoke)) ?flush) (\<lambda>_ fs'. only_dev fs fs')"
    proof (rule emits_bind)
      show "emits fs1 [] (on_error (walk_log Revoke last_seq) (upd_jbd clear_revoke))
         (\<lambda>x fs'. x = ?last \<and> only_dev fs1 fs')"
        using emits_walk_log [OF p1(1) _ refl, of Revoke ?last last_seq] ls o1 p1(2)
        by (intro emits_on_error_jbd) (simp add: pass_writes_def only_devD)
    next
      fix x fs2
      assume t: "vol_step fs1 fs2" "disk fs2 = dwrites (disk fs1) []"
        "x = ?last \<and> only_dev fs1 fs2"
      show "emits fs2 (home_writes fs ts) (?flush x) (\<lambda>_ fs'. only_dev fs fs')"
        using t d1 by (intro flush vol_step_trans [OF s(1) t(1)] only_dev_trans [OF o1]) auto
    qed
    then show "emits fs1 ([] @ home_writes fs ts)
      (if seq_diff last_seq (jbd_sequence ?j) < 0 then retE ()
       else bindE (on_error (walk_log Revoke last_seq) (upd_jbd clear_revoke)) (\<lambda>_.
            bindE (on_error (walk_log Flush last_seq) (upd_jbd clear_tables)) (\<lambda>_. retE ())))
      (\<lambda>_ fs'. only_dev fs fs')"
      using up by (simp add: ls)
  qed
  then show ?thesis by (simp add: emits_def eq)
qed

end
