(* ===== verification/Crash.thy ===== *)
theory Crash
  imports Recovery
begin

text \<open>
  A power cut at any write of a commit, followed by a mount: the volume holds either all of the
  transaction or none of it.
\<close>

section \<open>Power cut and reopening\<close>

definition power_on :: "file_ctx blockdev \<Rightarrow> file_ctx blockdev" where
  "power_on bd = file_bdev_set_fail_after bd (-1)"

text \<open>The state \<open>ext4_journal_init\<close> is in when it has the journal's extents, on a device
  left by an earlier mount.\<close>

definition reopen :: "file_ctx ext4_fs \<Rightarrow> file_ctx blockdev \<Rightarrow> file_ctx ext4_fs" where
  "reopen fs bd = fs\<lparr>fs_bd := power_on bd,
     fs_jbd := jbd_none\<lparr>jbd_extents := jbd_extents (fs_jbd fs)\<rparr>\<rparr>"

definition recover :: "file_ctx ext4_fs \<Rightarrow> file_ctx blockdev \<Rightarrow> (int + unit) \<times> file_ctx ext4_fs" where
  "recover fs bd =
     bindE (jbd_load_sb (jbd_inum (fs_jbd fs))) (\<lambda>_. ext4_journal_replay) (reopen fs bd)"

lemma power_on_vol:
  assumes s: "vol_step fs fs'" and f: "fs_bd fs2 = power_on (fs_bd fs')"
    "fs_partition_lba fs2 = fs_partition_lba fs" "block_size fs2 = block_size fs"
  shows "vol fs2" "disk fs2 = disk fs'" "blk_ok fs n \<Longrightarrow> blk_ok fs2 n" "alive fs2" "vol_step fs fs2"
proof -
  note v = vol_stepD [OF s]
  have fl: "file_len (bdev_ctx (power_on bd)) = file_len (bdev_ctx bd)"
    and fc: "file_contents (power_on bd) = file_contents bd" for bd
    by (simp_all add: power_on_def file_bdev_set_fail_after_def file_contents_def)
  show vol: "vol fs2"
    using v by (auto simp: vol_def f power_on_def file_bdev_set_fail_after_def file_dev_def)
  show "disk fs2 = disk fs'"
    using v by (simp add: fun_eq_iff disk_def vol_base_def f fc)
  show ok: "blk_ok fs2 n" if "blk_ok fs n" for n
    using v(2) [OF that] v(3,4) by (simp add: blk_ok_def vol_base_def f fl)
  show al: "alive fs2"
    by (simp add: alive_def f power_on_def file_bdev_set_fail_after_def)
  show "vol_step fs fs2" using vol ok al f by (simp add: vol_step_def)
qed

lemma reopen_vol:
  assumes s: "vol_step fs fs'"
  shows "vol (reopen fs (fs_bd fs'))" "disk (reopen fs (fs_bd fs')) = disk fs'"
    "blk_ok fs n \<Longrightarrow> blk_ok (reopen fs (fs_bd fs')) n" "alive (reopen fs (fs_bd fs'))"
  by (rule power_on_vol [OF s], simp_all add: reopen_def)+

section \<open>The journal superblock\<close>

definition jsb_incompat :: "buf \<Rightarrow> u32" where
  "jsb_incompat b = (if be32 b 4 = bt_super_v2 then be32 b 0x28 else 0)"

text \<open>The journal superblock describes the log the handle knows.\<close>

definition jsb_describes :: "ext4_jbd \<Rightarrow> buf \<Rightarrow> bool" where
  "jsb_describes j b \<longleftrightarrow>
     be32 b 0 = jbd_magic \<and> (be32 b 4 = bt_superblock \<or> be32 b 4 = bt_super_v2) \<and>
     be32 b 0x0C = jbd_blocksize j \<and> be32 b 0x10 = jbd_maxlen j \<and> be32 b 0x14 = jbd_first j \<and>
     jsb_incompat b AND NOT jbd_incompat_supported = 0 \<and>
     jbd_csum_v2 j = (jsb_incompat b AND 0x8 \<noteq> 0) \<and> jbd_csum_v3 j = (jsb_incompat b AND 0x10 \<noteq> 0) \<and>
     jbd_has_64bit j = (jsb_incompat b AND 0x2 \<noteq> 0) \<and>
     jbd_uuid j = (if be32 b 4 = bt_super_v2 then bytes_of b 0x30 16 else replicate 16 0)"

lemma jsb_block_outside:
  assumes "1024 \<le> bs_nat fs" "i < 0x18 \<or> 0x20 \<le> i \<and> i < 0xFC"
  shows "jsb_block fs start seq b i = b i"
  using assms by (auto simp: jsb_block_def jsb_patch_def Let_def buf_simps fill_bytes_def)

lemma jsb_block_fields:
  assumes bs: "1024 \<le> bs_nat fs"
  shows "be32 (jsb_block fs start seq b) 0x18 = seq" "be32 (jsb_block fs start seq b) 0x1C = start"
    "jsb_describes j (jsb_block fs start seq b) = jsb_describes j b"
proof -
  let ?b = "jsb_block fs start seq b"
  let ?p = "be32_pack (be32_pack b 0x18 seq) 0x1C start"
  have m: "?b i = ?p i" if "i < 0xFC" for i
    using that bs by (auto simp: jsb_block_def jsb_patch_def Let_def buf_simps fill_bytes_def)
  have "be32 ?b q = be32 ?p q" if "q + 4 \<le> 0xFC" for q
    using that by (intro be32_cong m) simp
  then show "be32 ?b 0x18 = seq" "be32 ?b 0x1C = start"
    by (simp_all add: pack_other)
  have o: "be32 ?b q = be32 b q" if "q + 4 \<le> 0x18 \<or> 0x20 \<le> q \<and> q + 4 \<le> 0xFC" for q
    using that by (intro be32_cong jsb_block_outside [OF bs]) auto
  have u: "bytes_of ?b 0x30 16 = bytes_of b 0x30 16"
    by (intro bytes_of_cong jsb_block_outside [OF bs]) simp
  show "jsb_describes j ?b = jsb_describes j b"
    by (simp add: jsb_describes_def jsb_incompat_def o u)
qed

definition jsb_handle :: "u32 \<Rightarrow> buf \<Rightarrow> ext4_jbd \<Rightarrow> ext4_jbd" where
  "jsb_handle inum b j = jbd_derive inum (jbd_parse_sb b j)"

lemma jsb_handle_fields:
  assumes "jsb_describes j b" "jbd_extents k = jbd_extents j" "jbd_present j"
  shows "jbd_start (jsb_handle inum b k) = be32 b 0x1C" "jbd_present (jsb_handle inum b k)"
    "jbd_revoke (jsb_handle inum b k) = jbd_revoke k"
    "be32 b 0x18 = jbd_sequence j \<Longrightarrow> same_core j (jsb_handle inum b k)"
  using assms
  by (auto simp: jsb_handle_def jbd_derive_def jbd_parse_sb_def Let_def same_core_def
      jsb_describes_def jsb_incompat_def)

lemma load_sb:
  assumes v: "vol fs" and ok: "blk_ok fs (unat (je_physical (jbd_extents (fs_jbd fs) ! 0)))"
    and b: "b = disk fs (unat (je_physical (jbd_extents (fs_jbd fs) ! 0)))"
    and d: "jsb_describes j b" "jbd_blocksize j = block_size fs"
  shows "jbd_load_sb inum fs = (Inr (), upd_jbd (jsb_handle inum b) fs)"
proof -
  let ?p = "je_physical (jbd_extents (fs_jbd fs) ! 0)"
  have rd: "raw_read fs ?p = Inr b" using raw_read_disk [OF v ok] by (simp add: b)
  have bs: "block_size fs \<le> 4096" using v by (auto simp: vol_def)
  have inc: "jbd_feature_incompat (jbd_parse_sb b k) = jsb_incompat b" for k
    by (simp add: jbd_parse_sb_def jsb_incompat_def Let_def)
  show ?thesis
    using d rd bs
    by (simp add: jbd_load_sb_def bindE_def orE_def jsb_describes_def inc jsb_handle_def)
qed

section \<open>Blocks that differ in the superblock's RECOVER flag at most\<close>

definition recover_bytes :: "file_ctx ext4_fs \<Rightarrow> nat \<Rightarrow> nat \<Rightarrow> bool" where
  "recover_bytes fs n i \<longleftrightarrow> n = sb_blk fs \<and> sb_off fs \<le> i \<and>
     (0x60 \<le> i - sb_off fs \<and> i - sb_off fs < 0x64 \<or> 0x3FC \<le> i - sb_off fs \<and> i - sb_off fs < 0x400)"

definition sb_same :: "file_ctx ext4_fs \<Rightarrow> nat \<Rightarrow> buf \<Rightarrow> buf \<Rightarrow> bool" where
  "sb_same fs n b c \<longleftrightarrow> (\<forall>i. \<not> recover_bytes fs n i \<longrightarrow> b i = c i)"

lemma sb_same_refl [simp]: "sb_same fs n b b"
  by (simp add: sb_same_def)

lemma sb_same_sym: "sb_same fs n b c \<Longrightarrow> sb_same fs n c b"
  by (simp add: sb_same_def)

lemma sb_same_trans: "sb_same fs n a b \<Longrightarrow> sb_same fs n b c \<Longrightarrow> sb_same fs n a c"
  by (simp add: sb_same_def)

lemma sb_set_recover_outside:
  "k < 0x60 \<or> 0x64 \<le> k \<and> k < 0x3FC \<or> 0x400 \<le> k \<Longrightarrow> sb_set_recover on s k = s k"
  by (auto simp: sb_set_recover_def Let_def buf_simps fill_bytes_def)

lemma sb_same_write: "sb_same fs (sb_blk fs) (sb_write fs on b) b"
proof -
  have "sb_write fs on b i = b i" if "\<not> recover_bytes fs (sb_blk fs) i" for i
  proof (cases "sb_off fs \<le> i \<and> i < sb_off fs + 1024")
    case True
    then have "i - sb_off fs < 0x60 \<or> 0x64 \<le> i - sb_off fs \<and> i - sb_off fs < 0x3FC"
      using that by (auto simp: recover_bytes_def)
    then have "sb_set_recover on (trunc 1024 (at b (sb_off fs))) (i - sb_off fs) =
        trunc 1024 (at b (sb_off fs)) (i - sb_off fs)"
      by (intro sb_set_recover_outside) auto
    with True show ?thesis by (auto simp: sb_write_def copy_bytes_def trunc_def)
  qed (auto simp: sb_write_def copy_bytes_def)
  then show ?thesis by (simp add: sb_same_def)
qed

section \<open>Mounting what the power cut left\<close>

lemma same_core_blocks:
  assumes "same_core j j'"
  shows "descriptor_block j' seq ts = descriptor_block j seq ts" "commit_block j' seq = commit_block j seq"
    "commit_jblk j' ts = commit_jblk j ts" "descriptor_cap j' = descriptor_cap j"
proof -
  note f = same_coreD [OF assms] same_core_functions [OF assms]
  have t: "tag_data_csum j' = tag_data_csum j" by (simp add: fun_eq_iff tag_data_csum_def f)
  have "put_tags j' seq i n d off ts = put_tags j seq i n d off ts" for i n d off
  proof (induction ts arbitrary: i d off)
    case (Cons x ts)
    then show ?case by (cases x) (simp add: put_tag_def t f Let_def)
  qed simp
  then show "descriptor_block j' seq ts = descriptor_block j seq ts"
    by (simp add: descriptor_block_def f Let_def)
  show "commit_block j' seq = commit_block j seq" by (simp add: commit_block_def f Let_def)
  show "commit_jblk j' ts = commit_jblk j ts" by (simp add: commit_jblk_def f)
  show "descriptor_cap j' = descriptor_cap j" by (simp add: descriptor_cap_def f)
qed

lemma commit_writes_cong:
  assumes "disk fs' = disk fs" "block_size fs' = block_size fs" "same_core (fs_jbd fs) (fs_jbd fs')"
  shows "commit_writes fs' ts = commit_writes fs ts" "home_writes fs' ts = home_writes fs ts"
    "sb_blk fs' = sb_blk fs" "sb_off fs' = sb_off fs"
proof -
  note f = same_coreD [OF assms(3)] same_core_functions [OF assms(3)] same_core_blocks [OF assms(3)]
  show s: "sb_blk fs' = sb_blk fs" "sb_off fs' = sb_off fs"
    by (simp_all add: sb_blk_def sb_off_def assms(2))
  show h: "home_writes fs' ts = home_writes fs ts" by (simp add: home_writes_def assms(2))
  have d: "data_writes fs' w ts = data_writes fs w ts" for w ts
    by (induction ts arbitrary: w) (auto simp: f assms(2))
  have w: "sb_write fs' on x = sb_write fs on x" for on x by (simp add: sb_write_def s)
  have j: "jsb_block fs' start seq x = jsb_block fs start seq x" for start seq x
    by (simp add: jsb_block_def jsb_patch_def f assms(2) Let_def)
  have c: "clean_writes fs' x = clean_writes fs x" for x by (simp add: clean_writes_def s w j f)
  have p: "pointed fs' ts = pointed fs ts"
    by (simp add: pointed_def prepare_writes_def point_write_def Let_def s d w j f assms(1,2))
  show "commit_writes fs' ts = commit_writes fs ts"
    by (simp add: commit_writes_def prepare_writes_def point_write_def finish_writes_def Let_def p s d w j c h f
        assms(1,2))
qed

lemma reopen_fields [simp]:
  "fs_sb (reopen fs bd) = fs_sb fs" "fs_partition_lba (reopen fs bd) = fs_partition_lba fs"
  "jbd_extents (fs_jbd (reopen fs bd)) = jbd_extents (fs_jbd fs)"
  "jbd_revoke (fs_jbd (reopen fs bd)) = []"
  by (simp_all add: reopen_def jbd_none_def)

lemma recover_loads:
  assumes s: "vol_step fs fs'" and l: "log_ok fs" and d: "jsb_describes (fs_jbd fs) b"
    and b: "b = disk fs' (log_blk (fs_jbd fs) 0)"
  defines "fs2 \<equiv> reopen fs (fs_bd fs')"
  shows "recover fs (fs_bd fs') =
    ext4_journal_replay (upd_jbd (jsb_handle (jbd_inum (fs_jbd fs)) b) fs2)"
proof -
  let ?j = "fs_jbd fs"
  note r = reopen_vol [OF s, folded fs2_def]
  have p: "log_blk ?j 0 = unat (je_physical (jbd_extents ?j ! 0))"
    by (simp add: log_blk_def log_okD(2) [OF l])
  have "blk_ok fs (log_blk ?j 0)" using log_okD(5) [OF l log_okD(3) [OF l]] .
  then have ok: "blk_ok fs2 (unat (je_physical (jbd_extents (fs_jbd fs2) ! 0)))"
    using r(3) by (simp add: p fs2_def)
  have "jbd_load_sb (jbd_inum ?j) fs2 = (Inr (), upd_jbd (jsb_handle (jbd_inum ?j) b) fs2)"
    using log_okD(8) [OF l] r(2)
    by (intro load_sb [OF r(1) ok _ d]) (simp_all add: b p fs2_def)
  then show ?thesis by (simp add: recover_def bindE_def flip: fs2_def)
qed

lemma recover_clean:
  assumes s: "vol_step fs fs'" and l: "log_ok fs" "jbd_present (fs_jbd fs)"
    and d: "jsb_describes (fs_jbd fs) (disk fs' (log_blk (fs_jbd fs) 0))"
    and z: "be32 (disk fs' (log_blk (fs_jbd fs) 0)) 0x1C = 0"
  shows "\<exists>fs2. recover fs (fs_bd fs') = (Inr (), fs2) \<and> disk fs2 = disk fs'"
proof -
  let ?b = "disk fs' (log_blk (fs_jbd fs) 0)" and ?fs2 = "reopen fs (fs_bd fs')"
  let ?fs3 = "upd_jbd (jsb_handle (jbd_inum (fs_jbd fs)) ?b) ?fs2"
  note r = reopen_vol [OF s]
  have "jbd_start (fs_jbd ?fs3) = 0"
    using jsb_handle_fields(1) [OF d _ l(2), of "fs_jbd ?fs2"] z by simp
  then have "ext4_journal_replay ?fs3 = (Inr (), ?fs3)"
    by (simp add: ext4_journal_replay_def Let_def)
  moreover have "disk ?fs3 = disk fs'"
    using handle_update_disk(2) [OF r(1), of ?fs3] r(2) by simp
  ultimately show ?thesis using recover_loads [OF s l(1) d refl] by auto
qed

lemma recover_pending:
  assumes s: "vol_step fs fs'" and t: "trans_ready fs ts"
    and m: "unat (jbd_maxlen (fs_jbd fs)) + 4 < 2 ^ 31"
    and d: "jsb_describes (fs_jbd fs) b" and b: "b = disk fs' (log_blk (fs_jbd fs) 0)"
    and z: "be32 b 0x1C = jbd_first (fs_jbd fs)" "be32 b 0x18 = jbd_sequence (fs_jbd fs)"
    and c: "log_complete fs (fs_jbd fs) (disk fs') ts" "tail_quiet (fs_jbd fs) (disk fs') ts"
  shows "\<exists>fs2. recover fs (fs_bd fs') = (Inr (), fs2) \<and> disk fs2 = dwrites (disk fs') (home_writes fs ts)"
proof -
  let ?j = "fs_jbd fs" and ?fs2 = "reopen fs (fs_bd fs')"
  let ?k = "jsb_handle (jbd_inum ?j) b (fs_jbd ?fs2)"
  let ?fs3 = "upd_jbd (jsb_handle (jbd_inum ?j) b) ?fs2"
  note r = reopen_vol [OF s] and T = trans_readyD [OF t]
  have sc: "same_core ?j ?k" by (rule jsb_handle_fields(4) [OF d _ T(5) z(2)]) simp
  note f = same_coreD [OF sc] same_core_functions [OF sc] same_core_blocks [OF sc]
  have st: "jbd_start ?k = jbd_first ?j" "jbd_revoke ?k = []" "jbd_present ?k"
    using jsb_handle_fields(1-3) [OF d _ T(5), of "fs_jbd ?fs2"] z(1) by simp_all
  have v3: "vol_step ?fs2 ?fs3" "disk ?fs3 = disk ?fs2"
    by (rule handle_update_disk [OF r(1)], simp_all)+
  have ok: "blk_ok ?fs3 n" if "blk_ok fs n" for n
    using vol_stepD(2) [OF v3(1)] r(3) that by blast
  have lo: "log_ok ?fs3"
    using T(2) ok unfolding log_ok_def Let_def by (simp add: f)
  have lh: "log_holds ?fs3 d' w us = log_holds fs d' w us" for d' w us
    by (induction us arbitrary: w) (auto simp: f)
  have hw: "home_writes ?fs3 ts = home_writes fs ts" by (simp add: home_writes_def)
  have p: "pending ?fs3 ts"
    unfolding pending_def Let_def
  proof (intro conjI)
    show "vol ?fs3" by (rule vol_stepD(1) [OF v3(1)])
    show "log_complete ?fs3 (fs_jbd ?fs3) (disk ?fs3) ts"
      using c(1) v3(2) r(2) by (simp add: log_complete_def f lh)
    show "tail_quiet (fs_jbd ?fs3) (disk ?fs3) ts"
      using c(2) v3(2) r(2) by (simp add: tail_quiet_def f)
    show "\<forall>(blk, b) \<in> set ts. blk_ok ?fs3 (unat blk) \<and> \<not> in_log (fs_jbd ?fs3) (unat blk)"
      using T(12) ok by (auto simp: f)
  qed (use lo st T m in \<open>simp_all add: f\<close>)
  have al: "alive ?fs3" using vol_stepD(5) [OF v3(1)] r(4) by blast
  obtain x fs4 where x: "ext4_journal_replay ?fs3 = (x, fs4)" by fastforce
  from emits_replay [OF p] x have "x = Inr () \<and> disk fs4 = dwrites (disk ?fs3) (home_writes ?fs3 ts)"
    by (cases rule: emitsE) (use al in auto)
  then show ?thesis
    using recover_loads [OF s T(2) d b] x v3(2) r(2) hw by auto
qed

section \<open>All or nothing\<close>

definition vol_agrees :: "file_ctx ext4_fs \<Rightarrow> (nat \<Rightarrow> buf) \<Rightarrow> (nat \<Rightarrow> buf) \<Rightarrow> bool" where
  "vol_agrees fs d d' \<longleftrightarrow> (\<forall>n. \<not> in_log (fs_jbd fs) n \<longrightarrow> sb_same fs n (d n) (d' n))"

lemma prepare_blocks:
  assumes t: "trans_ready fs ts" and n: "n \<in> fst ` set (tl (prepare_writes fs ts))"
  shows "\<exists>v. n = log_blk (fs_jbd fs) v \<and> 0 < v \<and> v \<le> commit_jblk (fs_jbd fs) ts"
proof -
  let ?j = "fs_jbd fs"
  note r = trans_readyD [OF t] and w = log_words [OF t]
  from n consider "n = log_blk ?j (jbd_first ?j)" | "n \<in> fst ` set (data_writes fs (jbd_first ?j + 1) ts)"
    | "n = log_blk ?j (commit_jblk ?j ts)"
    by (auto simp: prepare_writes_def Let_def)
  then show ?thesis
  proof cases
    case 1
    then show ?thesis using r(7) w(2) by (intro exI [of _ "jbd_first ?j"]) (simp add: word_le_nat_alt)
  next
    case 2
    from data_writes_range [OF this, of "jbd_maxlen ?j"] w(1) r(10) obtain v where
      "n = log_blk ?j v" "unat (jbd_first ?j) + 1 \<le> unat v" "unat v < unat (jbd_first ?j) + 1 + length ts"
      by auto
    then show ?thesis using w(2) by (intro exI [of _ v]) (simp add: word_le_nat_alt word_less_nat_alt)
  next
    case 3
    then show ?thesis using w(2) by (intro exI [of _ "commit_jblk ?j ts"]) (simp add: word_less_nat_alt)
  qed
qed

lemma prepare_head:
  "prepare_writes fs ts = (sb_blk fs, sb_write fs True (disk fs (sb_blk fs))) # tl (prepare_writes fs ts)"
  by (simp add: prepare_writes_def Let_def)

lemma prepare_in_log:
  assumes t: "trans_ready fs ts" and n: "n \<in> fst ` set (tl (prepare_writes fs ts))"
  shows "in_log (fs_jbd fs) n"
proof -
  obtain v where "n = log_blk (fs_jbd fs) v" "v \<le> commit_jblk (fs_jbd fs) ts"
    using prepare_blocks [OF t n] by blast
  moreover have "commit_jblk (fs_jbd fs) ts < jbd_maxlen (fs_jbd fs)" by (rule log_words [OF t])
  ultimately show ?thesis by (auto intro: in_log_blk)
qed

lemma prepare_outside:
  assumes t: "trans_ready fs ts" and n: "\<not> in_log (fs_jbd fs) n"
  shows "sb_same fs n (dwrites (disk fs) (take k (prepare_writes fs ts)) n) (disk fs n)"
proof (cases k)
  case (Suc m)
  let ?d = "(disk fs)(sb_blk fs := sb_write fs True (disk fs (sb_blk fs)))"
  have "n \<notin> fst ` set (take m (tl (prepare_writes fs ts)))"
    using prepare_in_log [OF t] n by (meson image_mono in_mono set_take_subset)
  then have "dwrites (disk fs) (take k (prepare_writes fs ts)) n = ?d n"
    by (subst prepare_head) (simp add: Suc dwrites_other)
  then show ?thesis using sb_same_write by simp
qed simp

lemma prepare_jsb:
  assumes t: "trans_ready fs ts"
  shows "dwrites (disk fs) (take k (prepare_writes fs ts)) (log_blk (fs_jbd fs) 0) = disk fs (log_blk (fs_jbd fs) 0)"
proof (rule dwrites_other)
  let ?j = "fs_jbd fs"
  note r = trans_readyD [OF t] and w = log_words [OF t]
  have m: "0 < jbd_maxlen ?j" by (rule log_okD(3) [OF r(2)])
  have "log_blk ?j 0 \<noteq> sb_blk fs" using r(4) in_log_blk [OF m] by metis
  moreover have "log_blk ?j 0 \<notin> fst ` set (tl (prepare_writes fs ts))"
  proof
    assume "log_blk ?j 0 \<in> fst ` set (tl (prepare_writes fs ts))"
    from prepare_blocks [OF t this] obtain v where
      v: "log_blk ?j 0 = log_blk ?j v" "0 < v" "v \<le> commit_jblk ?j ts" by blast
    with w(4) have "v < jbd_maxlen ?j" by simp
    from log_okD(6) [OF r(2) m this v(1)] v(2) show False by simp
  qed
  ultimately have "log_blk ?j 0 \<notin> fst ` set (prepare_writes fs ts)"
    by (subst prepare_head) simp
  then show "log_blk ?j 0 \<notin> fst ` set (take k (prepare_writes fs ts))"
    by (meson image_mono in_mono set_take_subset)
qed

lemma pointed_other:
  "n \<noteq> log_blk (fs_jbd fs) 0 \<Longrightarrow> pointed fs ts n = dwrites (disk fs) (prepare_writes fs ts) n"
  by (simp add: pointed_def dwrites_append point_write_def Let_def)

lemma pointed_outside:
  assumes t: "trans_ready fs ts" and n: "\<not> in_log (fs_jbd fs) n"
  shows "sb_same fs n (pointed fs ts n) (disk fs n)"
proof -
  have "n \<noteq> log_blk (fs_jbd fs) 0"
    using n in_log_blk [OF log_okD(3) [OF trans_readyD(2) [OF t]]] by metis
  then show ?thesis
    using prepare_outside [OF t n, of "length (prepare_writes fs ts)"] by (simp add: pointed_other)
qed

lemma pointed_jsb:
  assumes "trans_ready fs ts"
  shows "pointed fs ts (log_blk (fs_jbd fs) 0) =
    jsb_block fs (jbd_first (fs_jbd fs)) (jbd_sequence (fs_jbd fs)) (disk fs (log_blk (fs_jbd fs) 0))"
  by (simp add: pointed_def dwrites_append point_write_def Let_def)

lemma pointed_complete:
  assumes t: "trans_ready fs ts"
  shows "log_complete fs (fs_jbd fs) (pointed fs ts) ts"
proof -
  let ?j = "fs_jbd fs"
  note r = trans_readyD [OF t] and w = log_words [OF t]
  have m: "0 < jbd_maxlen ?j" by (rule log_okD(3) [OF r(2)])
  have ne: "log_blk ?j v \<noteq> log_blk ?j u" if "v < jbd_maxlen ?j" "u < jbd_maxlen ?j" "v \<noteq> u" for u v
    using that by (intro log_blk_other [OF r(2)])
  have cf: "commit_jblk ?j ts \<noteq> jbd_first ?j" "commit_jblk ?j ts \<noteq> 0" "jbd_first ?j \<noteq> 0"
    using w(2) r(7) by auto
  have nd: "log_blk ?j (jbd_first ?j) \<notin> fst ` set (data_writes fs (jbd_first ?j + 1) ts)"
  proof
    assume "log_blk ?j (jbd_first ?j) \<in> fst ` set (data_writes fs (jbd_first ?j + 1) ts)"
    from data_writes_range [OF this, of "jbd_maxlen ?j"] w(1) r(10) obtain v where
      v: "log_blk ?j (jbd_first ?j) = log_blk ?j v" "unat (jbd_first ?j) + 1 \<le> unat v"
        "unat v < unat (jbd_first ?j) + 1 + length ts" by auto
    then have "v < jbd_maxlen ?j" using r(10) by (simp add: word_less_nat_alt)
    from log_okD(6) [OF r(2) w(3) this v(1)] v(2) show False by simp
  qed
  have "pointed fs ts (log_blk ?j (jbd_first ?j)) = trunc (bs_nat fs) (descriptor_block ?j (jbd_sequence ?j) ts)"
    using ne [OF w(3) m cf(3)] ne [OF w(3,4) cf(1) [symmetric]] nd
    by (simp add: pointed_other prepare_writes_def Let_def dwrites_append dwrites_other)
  moreover have "pointed fs ts (log_blk ?j (commit_jblk ?j ts)) = trunc (bs_nat fs) (commit_block ?j (jbd_sequence ?j))"
    using ne [OF w(4) m cf(2)]
    by (simp add: pointed_other prepare_writes_def Let_def dwrites_append)
  ultimately show ?thesis using pointed_holds [OF t] by (simp add: log_complete_def)
qed

lemma pointed_tail:
  assumes t: "trans_ready fs ts" and lt: "commit_jblk (fs_jbd fs) ts < v" "v < jbd_maxlen (fs_jbd fs)"
  shows "pointed fs ts (log_blk (fs_jbd fs) v) = disk fs (log_blk (fs_jbd fs) v)"
proof -
  let ?j = "fs_jbd fs"
  note r = trans_readyD [OF t] and w = log_words [OF t]
  have "v \<noteq> 0" using lt(1) by auto
  then have "log_blk ?j v \<noteq> log_blk ?j 0"
    using log_blk_other [OF r(2) lt(2) log_okD(3) [OF r(2)]] by blast
  moreover have "log_blk ?j v \<noteq> sb_blk fs" using r(4) in_log_blk [OF lt(2)] by metis
  moreover have "log_blk ?j v \<notin> fst ` set (tl (prepare_writes fs ts))"
  proof
    assume "log_blk ?j v \<in> fst ` set (tl (prepare_writes fs ts))"
    from prepare_blocks [OF t this] obtain u where
      u: "log_blk ?j v = log_blk ?j u" "u \<le> commit_jblk ?j ts" by blast
    with w(4) have "u < jbd_maxlen ?j" by simp
    from log_okD(6) [OF r(2) lt(2) this u(1)] u(2) lt(1) show False by simp
  qed
  ultimately show ?thesis
    by (simp add: pointed_other) (subst prepare_head, simp add: dwrites_other)
qed

lemma pointed_quiet:
  "trans_ready fs ts \<Longrightarrow> tail_quiet (fs_jbd fs) (disk fs) ts \<Longrightarrow> tail_quiet (fs_jbd fs) (pointed fs ts) ts"
  using pointed_tail unfolding tail_quiet_def Let_def by metis

lemma home_distinct:
  assumes "distinct (map fst ts)"
  shows "distinct (map fst (home_writes fs ts))"
proof -
  have "map fst (home_writes fs ts) = map unat (map fst ts)"
    by (auto simp: home_writes_def)
  moreover have "inj_on unat (set (map fst ts))" by (simp add: inj_on_def word_unat_eq_iff)
  ultimately show ?thesis using assms by (simp only: distinct_map)
qed

lemma home_agrees:
  assumes "distinct (map fst ts)" "sb_same fs n (d n) (d' n)"
  shows "sb_same fs n (dwrites d (home_writes fs ts) n) (dwrites d' (home_writes fs ts) n)"
proof (cases "n \<in> fst ` set (home_writes fs ts)")
  case True
  then obtain b where "(n, b) \<in> set (home_writes fs ts)" by force
  then show ?thesis using dwrites_distinct [OF home_distinct [OF assms(1)]] by simp
next
  case False
  with assms(2) show ?thesis by (simp add: dwrites_other)
qed

lemma clean_agrees:
  assumes l: "log_ok fs" and n: "\<not> in_log (fs_jbd fs) n"
  shows "sb_same fs n (dwrites d (take q (clean_writes fs d)) n) (d n)"
proof -
  have "n \<noteq> log_blk (fs_jbd fs) 0" using n in_log_blk [OF log_okD(3) [OF l]] by metis
  moreover have "q = 0 \<or> q = 1 \<or> 2 \<le> q" by linarith
  ultimately show ?thesis
    using sb_same_write [of fs False "d (sb_blk fs)"]
    by (auto simp: clean_writes_def Let_def numeral_2_eq_2 take_Cons' split: if_splits)
qed

lemma home_keeps_log:
  assumes "trans_ready fs ts" "in_log (fs_jbd fs) n"
  shows "dwrites d (take k (home_writes fs ts)) n = d n"
proof (rule dwrites_other)
  have "n \<notin> fst ` set (home_writes fs ts)"
    using trans_readyD(12) [OF assms(1)] assms(2) by (auto simp: home_writes_def)
  then show "n \<notin> fst ` set (take k (home_writes fs ts))" by (meson image_mono in_mono set_take_subset)
qed

text \<open>The three places where the power can go.\<close>

lemma cut_before_point:
  assumes t: "trans_ready fs ts" and s: "vol_step fs fs'"
    and d: "jsb_describes (fs_jbd fs) (disk fs (log_blk (fs_jbd fs) 0))"
    and z: "be32 (disk fs (log_blk (fs_jbd fs) 0)) 0x1C = 0"
    and k: "disk fs' = dwrites (disk fs) (take k (prepare_writes fs ts))"
  shows "\<exists>fs2. recover fs (fs_bd fs') = (Inr (), fs2) \<and> vol_agrees fs (disk fs2) (disk fs)"
proof -
  note r = trans_readyD [OF t]
  have j: "disk fs' (log_blk (fs_jbd fs) 0) = disk fs (log_blk (fs_jbd fs) 0)"
    by (simp add: k prepare_jsb [OF t])
  obtain fs2 where "recover fs (fs_bd fs') = (Inr (), fs2)" "disk fs2 = disk fs'"
    using recover_clean [OF s r(2,5)] d z j by auto
  then show ?thesis using prepare_outside [OF t] by (auto simp: k vol_agrees_def)
qed

lemma cut_after_point:
  assumes t: "trans_ready fs ts" and s: "vol_step fs fs'"
    and m: "unat (jbd_maxlen (fs_jbd fs)) + 4 < 2 ^ 31"
    and d: "jsb_describes (fs_jbd fs) (disk fs (log_blk (fs_jbd fs) 0))"
    and q: "tail_quiet (fs_jbd fs) (disk fs) ts"
    and k: "disk fs' = dwrites (pointed fs ts) (take k (home_writes fs ts))"
  shows "\<exists>fs2. recover fs (fs_bd fs') = (Inr (), fs2) \<and>
    vol_agrees fs (disk fs2) (dwrites (disk fs) (home_writes fs ts))"
proof -
  let ?j = "fs_jbd fs"
  note r = trans_readyD [OF t] and w = log_words [OF t]
  have keep: "disk fs' n = pointed fs ts n" if "in_log ?j n" for n
    using home_keeps_log [OF t that] by (simp add: k)
  have in_l: "in_log ?j (log_blk ?j v)" if "v < jbd_maxlen ?j" for v using that by (rule in_log_blk)
  have bs: "1024 \<le> bs_nat fs" by (rule vol_bs(1) [OF r(1)])
  let ?b = "disk fs' (log_blk ?j 0)"
  have b: "?b = jsb_block fs (jbd_first ?j) (jbd_sequence ?j) (disk fs (log_blk ?j 0))"
    using keep [OF in_l [OF log_okD(3) [OF r(2)]]] pointed_jsb [OF t] by simp
  note jf = jsb_block_fields [OF bs, where start = "jbd_first ?j" and seq = "jbd_sequence ?j"
    and b = "disk fs (log_blk ?j 0)", folded b]
  have "log_complete fs ?j (disk fs') ts"
  proof -
    have "\<forall>v. jbd_first ?j + 1 \<le> v \<and> v < jbd_maxlen ?j \<longrightarrow>
        disk fs' (log_blk ?j v) = pointed fs ts (log_blk ?j v)"
      using keep in_l by blast
    then have "log_holds fs (disk fs') (jbd_first ?j + 1) ts"
      using log_holds_cong [OF pointed_holds [OF t]] w(1) r(10) by simp
    then show ?thesis
      using pointed_complete [OF t] keep [OF in_l [OF w(3)]] keep [OF in_l [OF w(4)]]
      by (simp add: log_complete_def)
  qed
  moreover have "tail_quiet ?j (disk fs') ts"
    using pointed_quiet [OF t q] keep in_l unfolding tail_quiet_def Let_def by metis
  ultimately obtain fs2 where f2: "recover fs (fs_bd fs') = (Inr (), fs2)"
    "disk fs2 = dwrites (disk fs') (home_writes fs ts)"
    using recover_pending [OF s t m _ refl jf(2,1)] d jf(3) by blast
  then have "disk fs2 = dwrites (pointed fs ts) (home_writes fs ts)"
    by (simp add: k dwrites_idem [OF home_distinct [OF r(13)]])
  with f2(1) show ?thesis
    using pointed_outside [OF t] home_agrees [OF r(13)] by (auto simp: vol_agrees_def)
qed

lemma cut_after_flush:
  assumes t: "trans_ready fs ts" and s: "vol_step fs fs'"
    and d: "jsb_describes (fs_jbd fs) (disk fs (log_blk (fs_jbd fs) 0))"
    and k: "disk fs' = dwrites (pointed fs ts) (home_writes fs ts @
       take (Suc q) (clean_writes fs (dwrites (pointed fs ts) (home_writes fs ts))))"
  shows "\<exists>fs2. recover fs (fs_bd fs') = (Inr (), fs2) \<and>
    vol_agrees fs (disk fs2) (dwrites (disk fs) (home_writes fs ts))"
proof -
  let ?j = "fs_jbd fs" and ?d = "dwrites (pointed fs ts) (home_writes fs ts)"
  note r = trans_readyD [OF t]
  have bs: "1024 \<le> bs_nat fs" by (rule vol_bs(1) [OF r(1)])
  have m: "0 < jbd_maxlen ?j" by (rule log_okD(3) [OF r(2)])
  have ne: "log_blk ?j 0 \<noteq> sb_blk fs" using r(4) in_log_blk [OF m] by metis
  have d0: "?d (log_blk ?j 0) = pointed fs ts (log_blk ?j 0)"
    using home_keeps_log [OF t in_log_blk [OF m], of _ "length (home_writes fs ts)"] by simp
  have fd: "disk fs' = dwrites ?d (take (Suc q) (clean_writes fs ?d))" by (simp add: k dwrites_append)
  have b: "disk fs' (log_blk ?j 0) = jsb_block fs 0 (jbd_sequence ?j) (?d (log_blk ?j 0))"
    using ne by (cases q) (simp_all add: fd clean_writes_def Let_def)
  note jf = jsb_block_fields [OF bs, where start = 0 and seq = "jbd_sequence ?j"
    and b = "?d (log_blk ?j 0)", folded b]
  have "jsb_describes ?j (disk fs' (log_blk ?j 0))"
    using jf(3) d jsb_block_fields(3) [OF bs] by (simp add: d0 pointed_jsb [OF t])
  then obtain fs2 where f2: "recover fs (fs_bd fs') = (Inr (), fs2)" "disk fs2 = disk fs'"
    using recover_clean [OF s r(2,5)] jf(2) by auto
  have "sb_same fs n (disk fs' n) (dwrites (disk fs) (home_writes fs ts) n)" if n: "\<not> in_log ?j n" for n
    using clean_agrees [OF r(2) n, of ?d "Suc q"] home_agrees [OF r(13), of fs n "pointed fs ts" "disk fs"] pointed_outside [OF t n]
    by (auto simp: fd intro: sb_same_trans)
  with f2 show ?thesis by (auto simp: vol_agrees_def)
qed

text \<open>Any prefix of a commit's writes leaves a volume that mounts.\<close>

lemma cut_recovers:
  assumes t: "trans_ready fs ts" and m: "unat (jbd_maxlen (fs_jbd fs)) + 4 < 2 ^ 31"
    and d: "jsb_describes (fs_jbd fs) (disk fs (log_blk (fs_jbd fs) 0))"
    and z: "be32 (disk fs (log_blk (fs_jbd fs) 0)) 0x1C = 0"
    and q: "tail_quiet (fs_jbd fs) (disk fs) ts"
    and s: "vol_step fs fs'" and k: "disk fs' = dwrites (disk fs) (take k (commit_writes fs ts))"
    and ok: "(\<exists>rc. r = Inl rc) \<or> k = length (commit_writes fs ts)"
  shows "\<exists>fs2. recover fs (fs_bd fs') = (Inr (), fs2) \<and>
    (vol_agrees fs (disk fs2) (dwrites (disk fs) (home_writes fs ts)) \<or>
     (\<exists>rc. r = Inl rc) \<and> vol_agrees fs (disk fs2) (disk fs))"
proof -
  let ?P = "prepare_writes fs ts" and ?H = "home_writes fs ts"
  let ?C = "clean_writes fs (dwrites (pointed fs ts) ?H)"
  have lc: "length ?C = 2" by (simp add: clean_writes_def Let_def)
  show ?thesis
  proof (cases "k \<le> length ?P")
    case True
    then have tk: "take k (commit_writes fs ts) = take k ?P" by (simp add: commit_writes_def)
    from True ok have "\<exists>rc. r = Inl rc" by (auto simp: commit_writes_def)
    then show ?thesis using cut_before_point [OF t s d z k [unfolded tk]] by blast
  next
    case False
    then obtain n where n: "k = Suc (length ?P + n)" by (metis add_Suc_right less_imp_Suc_add not_le)
    then have "take k (commit_writes fs ts) = (?P @ [point_write fs]) @ take n (?H @ ?C)"
      by (simp add: commit_writes_def finish_writes_def)
    then have kd: "disk fs' = dwrites (pointed fs ts) (take n (?H @ ?C))"
      unfolding k pointed_def by (simp only: dwrites_append)
    show ?thesis
    proof (cases "n \<le> length ?H")
      case True
      then have "disk fs' = dwrites (pointed fs ts) (take n ?H)" by (simp add: kd)
      from cut_after_point [OF t s m d q this] show ?thesis by blast
    next
      case False
      then obtain p where "n = Suc (length ?H + p)" by (metis add_Suc_right less_imp_Suc_add not_le)
      then have "disk fs' = dwrites (pointed fs ts) (?H @ take (Suc p) ?C)" by (simp add: kd)
      from cut_after_flush [OF t s d this] show ?thesis by blast
    qed
  qed
qed

lemma commit_all_or_nothing:
  assumes t: "trans_ready fs ts" and m: "unat (jbd_maxlen (fs_jbd fs)) + 4 < 2 ^ 31"
    and d: "jsb_describes (fs_jbd fs) (disk fs (log_blk (fs_jbd fs) 0))"
    and z: "be32 (disk fs (log_blk (fs_jbd fs) 0)) 0x1C = 0"
    and q: "tail_quiet (fs_jbd fs) (disk fs) ts"
    and c: "ext4_journal_commit ts fs = (r, fs')"
  shows "\<exists>fs2. recover fs (fs_bd fs') = (Inr (), fs2) \<and>
    (vol_agrees fs (disk fs2) (dwrites (disk fs) (home_writes fs ts)) \<or>
     (\<exists>rc. r = Inl rc) \<and> vol_agrees fs (disk fs2) (disk fs))"
proof -
  obtain k where "vol_step fs fs'" "disk fs' = dwrites (disk fs) (take k (commit_writes fs ts))"
    "(\<exists>rc. r = Inl rc) \<or> k = length (commit_writes fs ts)"
    using emits_commit [OF t] c by (cases rule: emitsE) auto
  then show ?thesis by (rule cut_recovers [OF t m d z q])
qed

text \<open>On a device that takes every write a commit ends with the blocks in place and the log empty.\<close>

lemma commit_writes_agree:
  assumes "trans_ready fs ts"
  shows "vol_agrees fs (dwrites (disk fs) (commit_writes fs ts)) (dwrites (disk fs) (home_writes fs ts))"
    "dwrites (disk fs) (commit_writes fs ts) (log_blk (fs_jbd fs) 0) =
      jsb_block fs 0 (jbd_sequence (fs_jbd fs)) (pointed fs ts (log_blk (fs_jbd fs) 0))"
proof -
  note r = trans_readyD [OF assms]
  let ?H = "home_writes fs ts" and ?d = "dwrites (pointed fs ts) (home_writes fs ts)" and ?j0 = "log_blk (fs_jbd fs) 0"
  have "commit_writes fs ts = (prepare_writes fs ts @ [point_write fs]) @ ?H @ clean_writes fs ?d"
    by (simp add: commit_writes_def finish_writes_def)
  moreover have "take 2 (clean_writes fs ?d) = clean_writes fs ?d" by (simp add: clean_writes_def Let_def)
  ultimately have e: "dwrites (disk fs) (commit_writes fs ts) = dwrites ?d (take 2 (clean_writes fs ?d))"
    by (simp only: dwrites_append pointed_def)
  have "sb_same fs n (dwrites ?d (take 2 (clean_writes fs ?d)) n) (dwrites (disk fs) ?H n)"
    if n: "\<not> in_log (fs_jbd fs) n" for n
    using clean_agrees [OF r(2) n, of ?d 2] pointed_outside [OF assms n]
      home_agrees [OF r(13), of fs n "pointed fs ts" "disk fs"]
    by (auto intro: sb_same_trans)
  then show "vol_agrees fs (dwrites (disk fs) (commit_writes fs ts)) (dwrites (disk fs) ?H)"
    by (simp add: vol_agrees_def e)
  have m: "0 < jbd_maxlen (fs_jbd fs)" by (rule log_okD(3) [OF r(2)])
  have "?j0 \<noteq> sb_blk fs" using r(4) in_log_blk [OF m] by metis
  moreover have "?d ?j0 = pointed fs ts ?j0"
    using home_keeps_log [OF assms in_log_blk [OF m], of _ "length ?H"] by simp
  ultimately show "dwrites (disk fs) (commit_writes fs ts) ?j0 =
      jsb_block fs 0 (jbd_sequence (fs_jbd fs)) (pointed fs ts ?j0)"
    by (simp add: e clean_writes_def Let_def)
qed

lemma commit_done:
  assumes "trans_ready fs ts" "alive fs"
  shows "\<exists>fs'. ext4_journal_commit ts fs = (Inr (), fs') \<and> committed fs fs' \<and>
    vol_agrees fs (disk fs') (dwrites (disk fs) (home_writes fs ts)) \<and>
    be32 (disk fs' (log_blk (fs_jbd fs) 0)) 0x1C = 0"
proof -
  obtain x fs' where x: "ext4_journal_commit ts fs = (x, fs')" by fastforce
  have "x = Inr () \<and> disk fs' = dwrites (disk fs) (commit_writes fs ts) \<and> committed fs fs'"
    using emits_commit [OF assms(1)] x by (cases rule: emitsE) (use assms(2) in auto)
  then show ?thesis
    using x commit_writes_agree [OF assms(1)] jsb_block_fields(2) [OF vol_bs(1) [OF trans_readyD(1) [OF assms(1)]]]
    by simp
qed

end
