(* ===== verification/Alloc.thy ===== *)
theory Alloc
  imports Commit DirBlock Htree
begin

text \<open>
  The allocators of src/ext4/extent.c: checksums of group descriptors and bitmaps, the inode
  allocator \<open>find_free_inode\<close>, the block allocator \<open>find_free_block\<close> with
  \<open>init_uninit_bitmap\<close>, and \<open>read_inode_block\<close>.  The results that the C code leaves in the
  file-level variables \<open>alloc_*\<close>, \<open>s_inode_*\<close> and in the scratch buffers are returned.

  The write path works on blocks of at most 1024 bytes.  Its descriptor buffer holds one block;
  the code documents that a group whose descriptor lies beyond it would be indexed off the end
  of the buffer, which is \<open>rc_trap\<close> here.
\<close>

definition write_buf_size :: nat where "write_buf_size = 1024"

section \<open>Bitmaps\<close>

definition bmp_mask :: "nat \<Rightarrow> byte" where
  "bmp_mask k = push_bit (k mod 8) 1"

definition bmp_test :: "buf \<Rightarrow> nat \<Rightarrow> bool" where
  "bmp_test bm k \<longleftrightarrow> bm (k div 8) AND bmp_mask k \<noteq> 0"

definition bmp_set :: "buf \<Rightarrow> nat \<Rightarrow> buf" where
  "bmp_set bm k = bm(k div 8 := bm (k div 8) OR bmp_mask k)"

definition bmp_clear :: "buf \<Rightarrow> nat \<Rightarrow> buf" where
  "bmp_clear bm k = bm(k div 8 := bm (k div 8) AND NOT (bmp_mask k))"

text \<open>The first clear bit below \<open>n\<close>.\<close>

definition bmp_find :: "buf \<Rightarrow> nat \<Rightarrow> nat option" where
  "bmp_find bm n = find (\<lambda>k. \<not> bmp_test bm k) [0..<n]"

definition bmp_mark :: "buf \<Rightarrow> nat \<Rightarrow> nat \<Rightarrow> buf" where
  "bmp_mark bm start stop = foldl bmp_set bm [start..<stop]"

section \<open>Checksums\<close>

definition bgd_zero_csum :: "buf \<Rightarrow> nat \<Rightarrow> buf" where
  "bgd_zero_csum b e = b(e + 0x1E := 0, e + 0x1F := 0)"

definition bgd_compute_csum :: "'c ext4_fs \<Rightarrow> u32 \<Rightarrow> buf \<Rightarrow> nat \<Rightarrow> u16" where
  "bgd_compute_csum fs bgid b e =
     (if \<not> metadata_csum fs then 0
      else ucast (crc32c (crc32c (crc32c crc32c_init (s_uuid (fs_sb fs))) (le_bytes bgid))
             (bytes_of (bgd_zero_csum b e) e (unat (fs_bgd_size fs))) AND 0xFFFF))"

definition bitmap_compute_csum :: "'c ext4_fs \<Rightarrow> buf \<Rightarrow> u32" where
  "bitmap_compute_csum fs bm =
     (if \<not> metadata_csum fs then 0
      else crc32c (crc32c crc32c_init (s_uuid (fs_sb fs)))
             (bytes_of bm 0 (unat (s_blocks_per_group (fs_sb fs) div 8))))"

definition inode_bitmap_csum :: "'c ext4_fs \<Rightarrow> buf \<Rightarrow> u32" where
  "inode_bitmap_csum fs bm =
     (if \<not> metadata_csum fs then 0
      else crc32c (crc32c crc32c_init (s_uuid (fs_sb fs)))
             (bytes_of bm 0 (unat (drop_bit 3 (s_inodes_per_group (fs_sb fs))))))"

text \<open>The bitmap's checksum goes into the two halves at \<open>lo\<close> and \<open>hi\<close>, then the
  descriptor's own checksum is stored.\<close>

definition bgd_finalize :: "'c ext4_fs \<Rightarrow> u32 \<Rightarrow> buf \<Rightarrow> nat \<Rightarrow> nat \<Rightarrow> nat \<Rightarrow> u32 \<Rightarrow> buf" where
  "bgd_finalize fs grp b e lo hi cs =
     (let b = put_le16 b (e + lo) (ucast cs);
          b = (if bgd_wide fs then put_le16 b (e + hi) (ucast (drop_bit 16 cs)) else b)
      in put_le16 b (e + 0x1E) (bgd_compute_csum fs grp b e))"

definition bgd_finalize_block_bitmap_csums :: "'c ext4_fs \<Rightarrow> u32 \<Rightarrow> buf \<Rightarrow> nat \<Rightarrow> buf \<Rightarrow> buf" where
  "bgd_finalize_block_bitmap_csums fs grp b e bm =
     bgd_finalize fs grp b e 0x18 0x38 (bitmap_compute_csum fs bm)"

definition bgd_finalize_inode_bitmap_csums :: "'c ext4_fs \<Rightarrow> u32 \<Rightarrow> buf \<Rightarrow> nat \<Rightarrow> buf \<Rightarrow> buf" where
  "bgd_finalize_inode_bitmap_csums fs grp b e bm =
     bgd_finalize fs grp b e 0x1A 0x3A (inode_bitmap_csum fs bm)"

text \<open>The superblock at offset \<open>off\<close> of a block.\<close>

definition sb_recompute_csum :: "'c ext4_fs \<Rightarrow> buf \<Rightarrow> nat \<Rightarrow> buf" where
  "sb_recompute_csum fs b off =
     (if \<not> metadata_csum fs then b
      else let b = fill_bytes b (off + 0x3FC) 0 4
           in put_le32 b (off + 0x3FC) (crc32c crc32c_init (bytes_of b off 0x3FC)))"

section \<open>Descriptor fields split in two halves\<close>

definition bgd_split :: "'c ext4_fs \<Rightarrow> buf \<Rightarrow> nat \<Rightarrow> nat \<Rightarrow> nat \<Rightarrow> u16 \<times> u32" where
  "bgd_split fs b e lo hi = (le16 b (e + lo), if bgd_wide fs then ucast (le16 b (e + hi)) else 0)"

definition bgd_put_split :: "'c ext4_fs \<Rightarrow> buf \<Rightarrow> nat \<Rightarrow> nat \<Rightarrow> nat \<Rightarrow> u16 \<times> u32 \<Rightarrow> buf" where
  "bgd_put_split fs b e lo hi v =
     (let b = put_le16 b (e + lo) (fst v)
      in if bgd_wide fs then put_le16 b (e + hi) (ucast (snd v)) else b)"

definition dec_split :: "u16 \<times> u32 \<Rightarrow> u16 \<times> u32" where
  "dec_split v = (if fst v = 0 then (0xFFFF, snd v - 1) else (fst v - 1, snd v))"

section \<open>The scratch copy of the first descriptor block\<close>

definition bgd_fs_block :: "'c ext4_fs \<Rightarrow> u64" where
  "bgd_fs_block fs = (if 1024 < block_size fs then 1 else 2)"

definition bgd_entry_off :: "'c ext4_fs \<Rightarrow> u32 \<Rightarrow> nat" where
  "bgd_entry_off fs grp = unat grp * unat (fs_bgd_size fs)"

definition bgd_entry_fits :: "'c ext4_fs \<Rightarrow> u32 \<Rightarrow> bool" where
  "bgd_entry_fits fs grp \<longleftrightarrow> bgd_entry_off fs grp + unat (fs_bgd_size fs) \<le> write_buf_size"

definition group_numbers :: "'c ext4_fs \<Rightarrow> u32 list" where
  "group_numbers fs = map word_of_nat [0..<unat (fs_bgd_count fs)]"

section \<open>The inode allocator\<close>

record inode_alloc =
  ia_num :: u32
  ia_group :: u32
  ia_bgd :: buf
  ia_bitmap :: buf

text \<open>\<open>bg_itable_unused\<close> shrinks when the new inode lies in the never used tail.\<close>

definition itable_unused_after :: "u32 \<Rightarrow> nat \<Rightarrow> u32 \<Rightarrow> u32" where
  "itable_unused_after ipg bitno unused =
     (let b = word_of_nat bitno in
      if ipg - unused \<le> b \<and> 0 < unused
      then (if ipg \<le> b + 1 then 0 else ipg - (b + 1)) else unused)"

definition bgd_take_inode :: "'c ext4_fs \<Rightarrow> u32 \<Rightarrow> buf \<Rightarrow> nat \<Rightarrow> buf \<Rightarrow> buf" where
  "bgd_take_inode fs grp b bitno bm =
     (let e = bgd_entry_off fs grp;
          free = bgd_split fs b e 0x0E 0x2E;
          flags = b (e + 0x12);
          b = (if flags AND 2 \<noteq> 0 then b(e + 0x12 := flags AND NOT 2) else b);
          b = bgd_put_split fs b e 0x0E 0x2E (dec_split free);
          (iu_lo, iu_hi) = bgd_split fs b e 0x1C 0x32;
          unused = push_bit 16 iu_hi OR ucast iu_lo;
          ipg = s_inodes_per_group (fs_sb fs);
          unused' = itable_unused_after ipg bitno unused;
          b = (if ipg - unused \<le> word_of_nat bitno \<and> 0 < unused
               then bgd_put_split fs b e 0x1C 0x32 (ucast (unused' AND 0xFFFF), drop_bit 16 unused') else b)
      in bgd_finalize_inode_bitmap_csums fs grp b e bm)"

definition inode_bitmap_bits :: "'c ext4_fs \<Rightarrow> nat" where
  "inode_bitmap_bits fs = min (unat (drop_bit 3 (s_inodes_per_group (fs_sb fs)))) write_buf_size * 8"

definition group_inode_bitmap :: "'c ext4_fs \<Rightarrow> buf \<Rightarrow> u32 \<Rightarrow> int + buf" where
  "group_inode_bitmap fs bgd grp =
     (let e = bgd_entry_off fs grp in
      if bgd (e + 0x12) AND 2 \<noteq> 0 then Inr zero_buf
      else ext4_fs_read_block fs (bgd_block fs (at bgd e) 0x04 0x24))"

definition try_group_inode :: "buf \<Rightarrow> u32 \<Rightarrow> ('c ext4_fs, inode_alloc option) op" where
  "try_group_inode bgd grp =
     bindE (getE (\<lambda>fs. fs)) (\<lambda>fs.
     bindE (checkE (bgd_entry_fits fs grp) (rc_trap)) (\<lambda>_.
     (let e = bgd_entry_off fs grp in
     (if bgd_split fs bgd e 0x0E 0x2E = (0, 0) then retE None
      else case group_inode_bitmap fs bgd grp of
        Inl _ \<Rightarrow> retE None
      | Inr bm \<Rightarrow>
          (case bmp_find bm (inode_bitmap_bits fs) of
             None \<Rightarrow> retE None
           | Some bitno \<Rightarrow>
               let bm = bmp_set bm bitno
               in retE (Some \<lparr>ia_num = grp * s_inodes_per_group (fs_sb fs) + word_of_nat bitno + 1,
                    ia_group = grp, ia_bgd = bgd_take_inode fs grp bgd bitno bm, ia_bitmap = bm\<rparr>))))))"

fun first_group :: "(u32 \<Rightarrow> ('s, 'a option) op) \<Rightarrow> u32 list \<Rightarrow> ('s, 'a) op" where
  "first_group try [] = failE (-1)"
| "first_group try (g # gs) =
   bindE (try g) (\<lambda>r.
   (case r of Some x \<Rightarrow> retE x | None \<Rightarrow> first_group try gs))"

definition find_free_inode :: "('c ext4_fs, inode_alloc) op" where
  "find_free_inode =
     bindE (getE (\<lambda>fs. fs)) (\<lambda>fs.
     bindE (orX (fs_read_block (bgd_fs_block fs)) (-1)) (\<lambda>bgd.
     first_group (try_group_inode bgd) (group_numbers fs)))"

section \<open>The block allocator\<close>

record block_alloc =
  ba_block :: u64
  ba_bitmap_phys :: u64
  ba_group :: u32
  ba_bgd :: buf
  ba_bitmap :: buf

definition group_first_block :: "'c ext4_fs \<Rightarrow> u32 \<Rightarrow> u64" where
  "group_first_block fs grp =
     ucast (s_first_data_block (fs_sb fs)) + ucast grp * ucast (s_blocks_per_group (fs_sb fs))"

definition mark_one :: "'c ext4_fs \<Rightarrow> u64 \<Rightarrow> u64 \<Rightarrow> buf \<Rightarrow> buf" where
  "mark_one fs group_first phys bm =
     (let b = ucast (phys - group_first) :: u32
      in if group_first \<le> phys \<and> b < s_blocks_per_group (fs_sb fs) then bmp_set bm (unat b) else bm)"

definition cap_group :: "'c ext4_fs \<Rightarrow> u64 \<Rightarrow> u64" where
  "cap_group fs stop =
     (if ucast (s_blocks_per_group (fs_sb fs)) < stop then ucast (s_blocks_per_group (fs_sb fs)) else stop)"

definition uninit_bitmap :: "'c ext4_fs \<Rightarrow> u32 \<Rightarrow> buf \<Rightarrow> buf" where
  "uninit_bitmap fs grp bgd =
     (let group_first = group_first_block fs grp;
          bmap_phys = bgd_block fs bgd 0x00 0x20;
          ibmap_phys = bgd_block fs bgd 0x04 0x24;
          itable_phys = bgd_block fs bgd 0x08 0x28;
          sb = fs_sb fs;
          itable_size = (s_inodes_per_group sb * ucast (s_inode_size sb) + block_size fs - 1) div block_size fs;
          bm = zero_buf;
          bm = (if group_first < bmap_phys
                then bmp_mark bm 0 (unat (ucast (cap_group fs (bmap_phys - group_first)) :: u32)) else bm);
          bm = mark_one fs group_first bmap_phys bm;
          bm = mark_one fs group_first ibmap_phys bm
      in if group_first \<le> itable_phys
         then let start = itable_phys - group_first
              in bmp_mark bm (unat (ucast start :: u32))
                   (unat (ucast (cap_group fs (start + ucast itable_size)) :: u32))
         else bm)"

definition init_uninit_bitmap :: "u32 \<Rightarrow> ('c ext4_fs, buf) op" where
  "init_uninit_bitmap grp =
     bindE (bgd_get_unchecked grp) (\<lambda>bgd.
     getE (\<lambda>fs. uninit_bitmap fs grp bgd))"

definition bgd_take_block :: "'c ext4_fs \<Rightarrow> u32 \<Rightarrow> buf \<Rightarrow> buf \<Rightarrow> buf" where
  "bgd_take_block fs grp b bm =
     (let e = bgd_entry_off fs grp;
          flags = b (e + 0x12);
          b = bgd_put_split fs b e 0x0C 0x2C (dec_split (bgd_split fs b e 0x0C 0x2C));
          b = (if flags AND 1 \<noteq> 0 then b(e + 0x12 := flags AND NOT 1) else b)
      in bgd_finalize_block_bitmap_csums fs grp b e bm)"

definition block_bitmap_bits :: "'c ext4_fs \<Rightarrow> nat" where
  "block_bitmap_bits fs = min (unat (drop_bit 3 (s_blocks_per_group (fs_sb fs)))) write_buf_size * 8"

text \<open>The bitmap of a group: generated when the group was never used, read otherwise.\<close>

definition group_block_bitmap :: "buf \<Rightarrow> u32 \<Rightarrow> ('c ext4_fs, buf) op" where
  "group_block_bitmap bgd grp =
     bindE (getE (\<lambda>fs. fs)) (\<lambda>fs.
     (let e = bgd_entry_off fs grp in
     (if bgd (e + 0x12) AND 1 \<noteq> 0 then init_uninit_bitmap grp
      else fs_read_block (bgd_block fs (at bgd e) 0x00 0x20))))"

definition try_group_block :: "buf \<Rightarrow> u32 \<Rightarrow> ('c ext4_fs, block_alloc option) op" where
  "try_group_block bgd grp =
     bindE (getE (\<lambda>fs. fs)) (\<lambda>fs.
     bindE (checkE (bgd_entry_fits fs grp) (rc_trap)) (\<lambda>_.
     (let e = bgd_entry_off fs grp in
     (if bgd_split fs bgd e 0x0C 0x2C = (0, 0) then retE None
      else
         bindE (tryX (group_block_bitmap bgd grp)) (\<lambda>got.
         (case got of
           None \<Rightarrow> retE None
         | Some bm \<Rightarrow>
             (case bmp_find bm (block_bitmap_bits fs) of
                None \<Rightarrow> retE None
              | Some bitno \<Rightarrow>
                  let bm = bmp_set bm bitno
                  in retE (Some \<lparr>ba_block = group_first_block fs grp + word_of_nat bitno,
                       ba_bitmap_phys = bgd_block fs (at bgd e) 0x00 0x20, ba_group = grp,
                       ba_bgd = bgd_take_block fs grp bgd bm, ba_bitmap = bm\<rparr>))))))))"

definition find_free_block :: "('c ext4_fs, block_alloc) op" where
  "find_free_block =
     bindE (getE (\<lambda>fs. fs)) (\<lambda>fs.
     bindE (orX (fs_read_block (bgd_fs_block fs)) (-1)) (\<lambda>bgd.
     first_group (try_group_block bgd) (group_numbers fs)))"

section \<open>The block that holds an inode\<close>

record inode_slot =
  is_buf :: buf
  is_fs_block :: u64
  is_offset :: nat
  is_gen :: u32

definition read_inode_at :: "u32 \<Rightarrow> ('c ext4_fs, buf \<times> u64 \<times> nat) op" where
  "read_inode_at ino =
     bindE (getE fs_sb) (\<lambda>sb.
     bindE (checkE (s_inodes_per_group sb \<noteq> 0) (rc_trap)) (\<lambda>_.
     bindE (getE (\<lambda>fs. ino_group fs ino)) (\<lambda>grp.
     bindE (bgd_get_unchecked grp) (\<lambda>bgd.
     bindE (getE (\<lambda>fs. inode_place fs ino bgd)) (\<lambda>(blk, off).
     bindE (fs_read_block blk) (\<lambda>b.
     retE (b, blk, off)))))))"

definition read_inode_block :: "u32 \<Rightarrow> ('c ext4_fs, inode_slot) op" where
  "read_inode_block ino =
     bindE (read_inode_at ino) (\<lambda>(b, blk, off).
     retE \<lparr>is_buf = b, is_fs_block = blk, is_offset = off, is_gen = le32 b (off + 0x64)\<rparr>)"

end
