(* ===== verification/FileOps.thy ===== *)
theory FileOps
  imports Alloc
begin

text \<open>
  Writing to regular files, src/ext4/extent.c: \<open>ext4_file_write_block\<close>,
  \<open>ext4_file_extend_block\<close> and \<open>ext4_file_create\<close>, with the steps they share with the
  directory operations: finding room for a name in the parent, the superblock counters, the new
  inode.  Each operation prepares the new contents of its blocks and commits them as one
  transaction.  A failure of the two \<open>create\<close> functions is the value 0.
\<close>

definition write_cap :: "int \<Rightarrow> ('c ext4_fs, unit) op" where
  "write_cap rc =
     bindE (getE (\<lambda>fs. fs)) (\<lambda>fs.
     checkE (bs_nat fs \<le> write_buf_size) rc)"

section \<open>The superblock counters\<close>

definition sb_fs_block :: "'c ext4_fs \<Rightarrow> u64" where
  "sb_fs_block fs = (if 1024 < block_size fs then 0 else 1)"

definition sb_offset_in_block :: "'c ext4_fs \<Rightarrow> nat" where
  "sb_offset_in_block fs = (if 1024 < block_size fs then 1024 else 0)"

definition fs_64bit :: "'c ext4_fs \<Rightarrow> bool" where
  "fs_64bit fs \<longleftrightarrow> s_feature_incompat (fs_sb fs) AND 0x80 \<noteq> 0"

definition sb_free_blocks :: "'c ext4_fs \<Rightarrow> buf \<Rightarrow> nat \<Rightarrow> u64" where
  "sb_free_blocks fs b p =
     push_bit 32 (ucast (if fs_64bit fs then le32 b (p + 0x158) else 0)) OR ucast (le32 b (p + 0x0C))"

definition sb_put_free_blocks :: "'c ext4_fs \<Rightarrow> buf \<Rightarrow> nat \<Rightarrow> u64 \<Rightarrow> buf" where
  "sb_put_free_blocks fs b p v =
     (let b = put_le32 b (p + 0x0C) (ucast v);
          b = (if fs_64bit fs then put_le32 b (p + 0x158) (ucast (drop_bit 32 v)) else b)
      in sb_recompute_csum fs b p)"

definition sb_put_free_inodes :: "'c ext4_fs \<Rightarrow> buf \<Rightarrow> nat \<Rightarrow> u32 \<Rightarrow> buf" where
  "sb_put_free_inodes fs b p v = sb_recompute_csum fs (put_le32 b (p + 0x10) v) p"

text \<open>The superblock's block with one free block, or one free inode, less.\<close>

definition sb_take_block :: "int \<Rightarrow> ('c ext4_fs, buf) op" where
  "sb_take_block rc =
     bindE (getE (\<lambda>fs. fs)) (\<lambda>fs.
     (let p = sb_offset_in_block fs in
     bindE (orX (fs_read_block (sb_fs_block fs)) rc) (\<lambda>b.
     bindE (checkE (sb_free_blocks fs b p \<noteq> 0) (rc)) (\<lambda>_.
     retE (sb_put_free_blocks fs b p (sb_free_blocks fs b p - 1))))))"

definition sb_take_inode :: "int \<Rightarrow> ('c ext4_fs, buf) op" where
  "sb_take_inode rc =
     bindE (getE (\<lambda>fs. fs)) (\<lambda>fs.
     (let p = sb_offset_in_block fs in
     bindE (orX (fs_read_block (sb_fs_block fs)) rc) (\<lambda>b.
     bindE (checkE (le32 b (p + 0x10) \<noteq> 0) (rc)) (\<lambda>_.
     retE (sb_put_free_inodes fs b p (le32 b (p + 0x10) - 1))))))"

section \<open>Overwriting a block of a file\<close>

definition inode_group_in_range :: "u32 \<Rightarrow> int \<Rightarrow> ('c ext4_fs, unit) op" where
  "inode_group_in_range ino rc =
     bindE (getE (\<lambda>fs. fs)) (\<lambda>fs.
     bindE (checkE (s_inodes_per_group (fs_sb fs) \<noteq> 0) (rc_trap)) (\<lambda>_.
     checkE (ino_group fs ino < fs_bgd_count fs) rc))"

definition ext4_file_write_block ::
  "ext4_inode \<Rightarrow> u32 \<Rightarrow> u32 \<Rightarrow> buf \<Rightarrow> u32 \<Rightarrow> ('c ext4_fs, ext4_inode) op" where
  "ext4_file_write_block inode ino logical data now =
     bindE (checkE (ino \<noteq> 0) (-1)) (\<lambda>_.
     bindE (write_cap (-1)) (\<lambda>_.
     bindE (extent_lookup (i_block inode) logical) (\<lambda>fs_block_data.
     bindE (inode_group_in_range ino (-1)) (\<lambda>_.
     bindE (read_inode_at ino) (\<lambda>(b, blk, off).
     bindE (getE (\<lambda>fs. fs)) (\<lambda>fs.
     bindE (ext4_journal_commit
         [(fs_block_data, copy_bytes zero_buf 0 data (bs_nat fs)),
          (blk, inode_set_mtime_and_csum fs ino b off now)]) (\<lambda>_.
     retE (inode\<lparr>i_mtime := now\<rparr>))))))))"

section \<open>Appending a block to a file\<close>

text \<open>The last leaf of the extent table: first logical block, length, first physical block.\<close>

type_synonym leaf = "u32 \<times> u16 \<times> u64"

definition last_leaf :: "buf \<Rightarrow> leaf" where
  "last_leaf iblock =
     (let n = node_entries iblock; i = n - 1
      in if n = 0 then (0, 0, 0)
         else (leaf_logical iblock i, le16 iblock (ext_entry i + 4), leaf_phys iblock i))"

definition extend_checks :: "'c ext4_fs \<Rightarrow> ext4_inode \<Rightarrow> bool" where
  "extend_checks fs inode \<longleftrightarrow>
     (let ib = i_block inode; (logical, len, phys) = last_leaf ib in
      le16 ib 0 = ext4_ext_magic \<and> le16 ib 6 = 0 \<and> node_entries ib \<le> 4 \<and>
      (if node_entries ib = 0 then i_size inode = 0
       else len AND 0x8000 = 0 \<and>
            i_size inode = ucast (logical + ucast len) * ucast (block_size fs)))"

definition contig_of :: "leaf \<Rightarrow> u64" where
  "contig_of lf = (case lf of (logical, len, phys) \<Rightarrow> phys + ucast len)"

text \<open>The group of a block, or the group count when the block lies in no group.\<close>

definition group_of_block :: "'c ext4_fs \<Rightarrow> u64 \<Rightarrow> u32" where
  "group_of_block fs blk =
     (let first = ucast (s_first_data_block (fs_sb fs)); bpg = ucast (s_blocks_per_group (fs_sb fs))
      in if first \<le> blk \<and> blk < first + ucast (fs_bgd_count fs) * bpg
         then ucast ((blk - first) div bpg) else fs_bgd_count fs)"

definition bit_of_block :: "'c ext4_fs \<Rightarrow> u64 \<Rightarrow> u32" where
  "bit_of_block fs blk =
     ucast ((blk - ucast (s_first_data_block (fs_sb fs))) mod ucast (s_blocks_per_group (fs_sb fs)))"

text \<open>A full leaf table: only the block after the last extent will do.\<close>

definition alloc_contig :: "u64 \<Rightarrow> u32 \<Rightarrow> ('c ext4_fs, block_alloc) op" where
  "alloc_contig contig grp =
     bindE (getE (\<lambda>fs. fs)) (\<lambda>fs.
     bindE (orX (fs_read_block (bgd_fs_block fs)) (-1)) (\<lambda>bgd.
     bindE (checkE (bgd_entry_fits fs grp) (rc_trap)) (\<lambda>_.
     (let e = bgd_entry_off fs grp; bitno = unat (bit_of_block fs contig) in
     bindE (orX (group_block_bitmap bgd grp) (-1)) (\<lambda>bm.
     bindE (checkE (\<not> bmp_test bm bitno) (-1)) (\<lambda>_.
     (let bm' = bmp_set bm bitno in
     retE \<lparr>ba_block = contig, ba_bitmap_phys = bgd_block fs (at bgd e) 0x00 0x20, ba_group = grp,
           ba_bgd = bgd_take_block fs grp bgd bm', ba_bitmap = bm'\<rparr>)))))))"

definition extend_alloc :: "nat \<Rightarrow> u64 \<Rightarrow> ('c ext4_fs, block_alloc) op" where
  "extend_alloc entries contig =
     bindE (getE (\<lambda>fs. fs)) (\<lambda>fs.
     (let target = group_of_block fs contig in
     (if target < fs_bgd_count fs
      then (if 4 \<le> entries then alloc_contig contig target else find_free_block)
      else
         bindE (checkE (entries < 4) (-1)) (\<lambda>_.
         find_free_block))))"

text \<open>The extent table at offset \<open>p\<close> of \<open>b\<close> with block \<open>blk\<close> appended: the last leaf one
  block longer, or a leaf more.\<close>

definition extend_table :: "nat \<Rightarrow> leaf \<Rightarrow> u64 \<Rightarrow> buf \<Rightarrow> nat \<Rightarrow> buf" where
  "extend_table entries lf blk b p = (case lf of (logical, len, phys) \<Rightarrow>
     if blk = contig_of lf
     then let e = p + ext_entry (entries - 1) in put_le16 b (e + 4) (le16 b (e + 4) + 1)
     else
       let e = p + ext_entry entries;
           b = put_le16 b (p + 2) (word_of_nat (entries + 1));
           b = put_le32 b e (logical + ucast len);
           b = put_le16 b (e + 4) 1;
           b = put_le16 b (e + 6) (ucast (drop_bit 32 blk))
       in put_le32 b (e + 8) (ucast blk))"

text \<open>The inode at offset \<open>off\<close> of its block after the append.\<close>

definition extend_inode ::
  "'c ext4_fs \<Rightarrow> ext4_inode \<Rightarrow> u32 \<Rightarrow> leaf \<Rightarrow> u64 \<Rightarrow> u64 \<Rightarrow> u32 \<Rightarrow> buf \<Rightarrow> nat \<Rightarrow> buf" where
  "extend_inode fs inode ino lf blk new_size now b off =
     (let b = extend_table (node_entries (i_block inode)) lf blk b (off + 0x28);
          b = put_le32 b (off + 0x04) (ucast (new_size AND 0xFFFFFFFF));
          b = put_le32 b (off + 0x6C) (ucast (drop_bit 32 new_size));
          b = put_le32 b (off + 0x1C) (le32 b (off + 0x1C) + block_size fs div 512)
      in inode_set_mtime_and_csum fs ino b off now)"

definition extend_data :: "'c ext4_fs \<Rightarrow> buf \<Rightarrow> u32 \<Rightarrow> buf" where
  "extend_data fs data added =
     copy_bytes zero_buf 0 data (unat (if block_size fs < added then block_size fs else added))"

definition ext4_file_extend_block ::
  "ext4_inode \<Rightarrow> u32 \<Rightarrow> buf \<Rightarrow> u32 \<Rightarrow> u32 \<Rightarrow> ('c ext4_fs, ext4_inode) op" where
  "ext4_file_extend_block inode ino data added now =
     bindE (checkE (ino \<noteq> 0) (-1)) (\<lambda>_.
     bindE (write_cap (-1)) (\<lambda>_.
     bindE (getE (\<lambda>fs. fs)) (\<lambda>fs.
     bindE (checkE (extend_checks fs inode) (-1)) (\<lambda>_.
     (let entries = node_entries (i_block inode); lf = last_leaf (i_block inode) in
     bindE (extend_alloc entries (contig_of lf)) (\<lambda>a.
     bindE (sb_take_block (-1)) (\<lambda>sb.
     bindE (inode_group_in_range ino (-1)) (\<lambda>_.
     bindE (orX (read_inode_at ino) (-1)) (\<lambda>(b, blk, off).
     bindE (checkE (entries \<noteq> 0 \<or> ba_block a \<noteq> contig_of lf) (rc_trap)) (\<lambda>_.
     (let new_size = i_size inode + ucast added in
     bindE (ext4_journal_commit
         [(ba_block a, extend_data fs data added),
          (ba_bitmap_phys a, ba_bitmap a),
          (bgd_fs_block fs, ba_bgd a),
          (sb_fs_block fs, sb),
          (blk, extend_inode fs inode ino lf (ba_block a) new_size now b off)]) (\<lambda>_.
     retE (inode\<lparr>i_mtime := now, i_size := new_size,
                 i_block := extend_table entries lf (ba_block a) (i_block inode) 0\<rparr>)))))))))))))"

section \<open>Room for a name in the parent directory\<close>

record dir_slot =
  ds_block :: u64
  ds_buf :: buf
  ds_off :: nat
  ds_rec :: nat

definition slot_in_block :: "u64 \<Rightarrow> nat \<Rightarrow> 'c ext4_fs \<Rightarrow> buf \<Rightarrow> dir_slot option" where
  "slot_in_block phys need fs blk =
     map_option (\<lambda>(b, off, rlen). \<lparr>ds_block = phys, ds_buf = b, ds_off = off, ds_rec = rlen\<rparr>)
       (dir_find_slot_for_entry blk (bs_nat fs) need)"

text \<open>A linear directory: the first block with room; unreadable blocks are passed over.\<close>

fun linear_slot :: "ext4_inode \<Rightarrow> nat \<Rightarrow> u32 list \<Rightarrow> ('c ext4_fs, dir_slot option) op" where
  "linear_slot parent need [] = retE None"
| "linear_slot parent need (b # bs) =
   bindE (getE (\<lambda>fs. fs)) (\<lambda>fs.
   bindE (tryX (extent_lookup (i_block parent) b)) (\<lambda>phys.
   (case phys of
        None \<Rightarrow> linear_slot parent need bs
      | Some p \<Rightarrow>
         bindE (tryX (fs_read_block p)) (\<lambda>blk.
         (case blk of
             None \<Rightarrow> linear_slot parent need bs
           | Some blk \<Rightarrow>
               (case slot_in_block p need fs blk of
                  None \<Rightarrow> linear_slot parent need bs
                | Some s \<Rightarrow> retE (Some s)))))))"

text \<open>An indexed directory: the one leaf the name's hash belongs to.\<close>

definition htree_slot :: "ext4_inode \<Rightarrow> nat \<Rightarrow> byte list \<Rightarrow> ('c ext4_fs, dir_slot option) op" where
  "htree_slot parent need name =
     bindE (getE (\<lambda>fs. fs)) (\<lambda>fs.
     bindE (orX (readE (\<lambda>fs. ext4_htree_find_leaf fs parent name)) 0) (\<lambda>leaf.
     bindE (orX (extent_lookup (i_block parent) leaf) 0) (\<lambda>p.
     bindE (orX (fs_read_block p) 0) (\<lambda>blk.
     retE (slot_in_block p need fs blk)))))"

definition dir_indexed :: "ext4_inode \<Rightarrow> bool" where
  "dir_indexed parent \<longleftrightarrow> i_flags parent AND 0x1000 \<noteq> 0"

definition parent_slot :: "ext4_inode \<Rightarrow> byte list \<Rightarrow> ('c ext4_fs, dir_slot) op" where
  "parent_slot parent name =
     bindE (getE (\<lambda>fs. fs)) (\<lambda>fs.
     (let need = rec_need (length name) in
     bindE ((if dir_indexed parent then htree_slot parent need name
           else linear_slot parent need (dir_block_numbers fs parent))) (\<lambda>s.
     (case s of None \<Rightarrow> failE 0 | Some s \<Rightarrow> retE s))))"

text \<open>The type byte of a directory entry, when the file system records it.\<close>

definition ft_byte :: "'c ext4_fs \<Rightarrow> byte \<Rightarrow> byte" where
  "ft_byte fs ft = (if s_feature_incompat (fs_sb fs) AND 0x2 \<noteq> 0 then ft else 0)"

definition slot_fill :: "'c ext4_fs \<Rightarrow> u32 \<Rightarrow> u32 \<Rightarrow> dir_slot \<Rightarrow> u32 \<Rightarrow> byte \<Rightarrow> byte list \<Rightarrow> buf" where
  "slot_fill fs parent_ino gen s ino ft name =
     dir_block_set_tail_csum fs
       (dir_put_entry (ds_buf s) (ds_off s) ino (ds_rec s) (ft_byte fs ft) name) parent_ino gen"

section \<open>Creating a regular file\<close>

text \<open>A fresh inode at offset \<open>off\<close> of its block: no blocks, an empty extent table.\<close>

definition init_inode :: "'c ext4_fs \<Rightarrow> u32 \<Rightarrow> u16 \<Rightarrow> u16 \<Rightarrow> u32 \<Rightarrow> buf \<Rightarrow> nat \<Rightarrow> buf" where
  "init_inode fs ino mode links now b off =
     (let b = fill_bytes b off 0 (unat (s_inode_size (fs_sb fs)));
          b = put_le16 b off mode;
          b = put_le16 b (off + 0x1A) links;
          b = put_le32 b (off + 0x20) ext4_inode_flag_extents;
          b = put_le32 b (off + 0x08) now;
          b = put_le32 b (off + 0x0C) now;
          b = put_le32 b (off + 0x10) now;
          b = put_le16 b (off + 0x28) ext4_ext_magic;
          b = put_le16 b (off + 0x2A) 0;
          b = put_le16 b (off + 0x2C) 4;
          b = (if inode_has_hi fs then put_le16 b (off + 0x80) (s_inode_size (fs_sb fs) - 128) else b)
      in ext4_inode_recompute_csum fs ino b off)"

definition inode_bitmap_block :: "'c ext4_fs \<Rightarrow> inode_alloc \<Rightarrow> u64" where
  "inode_bitmap_block fs a = bgd_block fs (at (ia_bgd a) (bgd_entry_off fs (ia_group a))) 0x04 0x24"

definition ext4_file_create :: "u32 \<Rightarrow> byte list \<Rightarrow> u16 \<Rightarrow> u32 \<Rightarrow> ('c ext4_fs, u32) op" where
  "ext4_file_create parent_ino name mode now =
     bindE (write_cap 0) (\<lambda>_.
     bindE (checkE (length name \<noteq> 0) (0)) (\<lambda>_.
     bindE (orX (ext4_inode_read parent_ino) 0) (\<lambda>parent.
     bindE (orX (read_inode_block parent_ino) 0) (\<lambda>pslot.
     bindE (parent_slot parent name) (\<lambda>s.
     bindE (orX find_free_inode 0) (\<lambda>a.
     bindE (getE (\<lambda>fs. fs)) (\<lambda>fs.
     bindE (sb_take_inode 0) (\<lambda>sb.
     bindE (orX (read_inode_at (ia_num a)) 0) (\<lambda>(b, blk, off).
     bindE (orX (ext4_journal_commit
         [(ds_block s, slot_fill fs parent_ino (is_gen pslot) s (ia_num a) 1 name),
          (inode_bitmap_block fs a, ia_bitmap a),
          (bgd_fs_block fs, ia_bgd a),
          (sb_fs_block fs, sb),
          (blk, init_inode fs (ia_num a) mode 1 now b off)]) 0) (\<lambda>_.
     retE (ia_num a)))))))))))"

end
