(* ===== verification/DirOps.thy ===== *)
theory DirOps
  imports FileOps
begin

text \<open>
  Creating and removing, src/ext4/extent.c: \<open>ext4_dir_create\<close>, \<open>ext4_dir_remove\<close>,
  \<open>free_one_data_block\<close>, \<open>ext4_file_remove\<close> and \<open>ext4_file_truncate\<close>.  A directory is created
  and removed in two transactions, a file is removed and truncated in one transaction for each
  block and a last one; every definition here that ends in a commit is one transaction or a
  sequence of them in the order of the code.
\<close>

section \<open>Creating a directory\<close>

definition inc_split :: "u16 \<times> u32 \<Rightarrow> u16 \<times> u32" where
  "inc_split v = (fst v + 1, if fst v + 1 = 0 then snd v + 1 else snd v)"

text \<open>\<open>bg_used_dirs_count\<close> of the new inode's group, and the descriptor's checksum again.\<close>

definition bgd_add_dir :: "'c ext4_fs \<Rightarrow> u32 \<Rightarrow> buf \<Rightarrow> buf" where
  "bgd_add_dir fs grp b =
     (let e = bgd_entry_off fs grp;
          b = bgd_put_split fs b e 0x10 0x30 (inc_split (bgd_split fs b e 0x10 0x30))
      in put_le16 b (e + 0x1E) (bgd_compute_csum fs grp b e))"

definition dir_mode :: u16 where "dir_mode = ext4_s_ifdir OR 0x1ED"

definition mkdir_alloc_inode :: "u32 \<Rightarrow> ('c ext4_fs, u32) op" where
  "mkdir_alloc_inode now =
     bindE (orX find_free_inode 0) (\<lambda>a.
     bindE (getE (\<lambda>fs. fs)) (\<lambda>fs.
     bindE (sb_take_inode 0) (\<lambda>sb.
     bindE (orX (read_inode_at (ia_num a)) 0) (\<lambda>(b, blk, off).
     bindE (orX (ext4_journal_commit
         [(inode_bitmap_block fs a, ia_bitmap a),
          (bgd_fs_block fs, bgd_add_dir fs (ia_group a) (ia_bgd a)),
          (sb_fs_block fs, sb),
          (blk, init_inode fs (ia_num a) dir_mode 2 now b off)]) 0) (\<lambda>_.
     retE (ia_num a))))))"

definition dot :: byte where "dot = 0x2E"

text \<open>The new directory's block: \<open>.\<close> and \<open>..\<close>, the latter taking the rest of the block.\<close>

definition dots_block :: "'c ext4_fs \<Rightarrow> u32 \<Rightarrow> u32 \<Rightarrow> buf" where
  "dots_block fs ino parent_ino =
     (let rest = bs_nat fs - 12 - (if metadata_csum fs then 12 else 0);
          ft = ft_byte fs 2;
          b = dir_put_entry zero_buf 0 ino 12 ft [dot];
          b = dir_put_entry b 12 parent_ino rest ft [dot, dot]
      in dir_block_set_tail_csum fs b ino 0)"

text \<open>The new directory's inode with its one block.\<close>

definition mkdir_inode :: "'c ext4_fs \<Rightarrow> u32 \<Rightarrow> u64 \<Rightarrow> buf \<Rightarrow> nat \<Rightarrow> buf" where
  "mkdir_inode fs ino blk b off =
     (let e = off + 0x28 + 12;
          b = put_le16 b (off + 0x2A) 1;
          b = put_le32 b e 0;
          b = put_le16 b (e + 4) 1;
          b = put_le16 b (e + 6) (ucast (drop_bit 32 blk));
          b = put_le32 b (e + 8) (ucast blk);
          b = put_le32 b (off + 0x04) (block_size fs);
          b = put_le32 b (off + 0x1C) (block_size fs div 512)
      in ext4_inode_recompute_csum fs ino b off)"

text \<open>A parent inode whose link count changes.\<close>

definition inode_set_links :: "'c ext4_fs \<Rightarrow> u32 \<Rightarrow> buf \<Rightarrow> nat \<Rightarrow> u16 \<Rightarrow> u32 \<Rightarrow> buf" where
  "inode_set_links fs ino b off links now =
     inode_set_mtime_and_csum fs ino (put_le16 b (off + 0x1A) links) off now"

definition links_at :: "buf \<Rightarrow> nat \<Rightarrow> u16" where
  "links_at b off = le16 b (off + 0x1A)"

definition dec_links :: "u16 \<Rightarrow> u16" where
  "dec_links l = (if 0 < l then l - 1 else l)"

definition mkdir_link :: "u32 \<Rightarrow> u32 \<Rightarrow> u32 \<Rightarrow> dir_slot \<Rightarrow> byte list \<Rightarrow> u32 \<Rightarrow> ('c ext4_fs, unit) op" where
  "mkdir_link parent_ino gen ino s name now =
     bindE (orX find_free_block 0) (\<lambda>a.
     bindE (getE (\<lambda>fs. fs)) (\<lambda>fs.
     bindE (sb_take_block 0) (\<lambda>sb.
     bindE (orX (read_inode_at ino) 0) (\<lambda>(b, blk, off).
     bindE (orX (read_inode_at parent_ino) 0) (\<lambda>(pb, pblk, poff).
     orX (ext4_journal_commit
         [(ba_block a, dots_block fs ino parent_ino),
          (ba_bitmap_phys a, ba_bitmap a),
          (bgd_fs_block fs, ba_bgd a),
          (sb_fs_block fs, sb),
          (blk, mkdir_inode fs ino (ba_block a) b off),
          (ds_block s, slot_fill fs parent_ino gen s ino 2 name),
          (pblk, inode_set_links fs parent_ino pb poff (links_at pb poff + 1) now)]) 0)))))"

definition ext4_dir_create :: "u32 \<Rightarrow> byte list \<Rightarrow> u32 \<Rightarrow> ('c ext4_fs, u32) op" where
  "ext4_dir_create parent_ino name now =
     bindE (write_cap 0) (\<lambda>_.
     bindE (checkE (length name \<noteq> 0) (0)) (\<lambda>_.
     bindE (orX (ext4_inode_read parent_ino) 0) (\<lambda>parent.
     bindE (orX (read_inode_block parent_ino) 0) (\<lambda>pslot.
     bindE (parent_slot parent name) (\<lambda>s.
     bindE (mkdir_alloc_inode now) (\<lambda>ino.
     bindE (mkdir_link parent_ino (is_gen pslot) ino s name now) (\<lambda>_.
     retE ino)))))))"

section \<open>Freeing a block\<close>

definition bgd_give_block :: "'c ext4_fs \<Rightarrow> u32 \<Rightarrow> buf \<Rightarrow> buf \<Rightarrow> buf" where
  "bgd_give_block fs grp b bm =
     (let e = bgd_entry_off fs grp;
          b = bgd_put_split fs b e 0x0C 0x2C (inc_split (bgd_split fs b e 0x0C 0x2C))
      in bgd_finalize_block_bitmap_csums fs grp b e bm)"

definition free_group :: "'c ext4_fs \<Rightarrow> u64 \<Rightarrow> u32" where
  "free_group fs blk =
     ucast ((blk - ucast (s_first_data_block (fs_sb fs))) div ucast (s_blocks_per_group (fs_sb fs)))"

definition sb_give_block :: "int \<Rightarrow> ('c ext4_fs, buf) op" where
  "sb_give_block rc =
     bindE (getE (\<lambda>fs. fs)) (\<lambda>fs.
     (let p = sb_offset_in_block fs in
     bindE (orX (fs_read_block (sb_fs_block fs)) rc) (\<lambda>b.
     retE (sb_put_free_blocks fs b p (sb_free_blocks fs b p + 1)))))"

definition free_one_data_block :: "u64 \<Rightarrow> ('c ext4_fs, unit) op" where
  "free_one_data_block blk =
     bindE (getE (\<lambda>fs. fs)) (\<lambda>fs.
     bindE (checkE (s_blocks_per_group (fs_sb fs) \<noteq> 0) (rc_trap)) (\<lambda>_.
     (let grp = free_group fs blk; bitno = unat (bit_of_block fs blk) in
     bindE (orX (fs_read_block (bgd_fs_block fs)) (-1)) (\<lambda>bgd.
     bindE (checkE (bgd_entry_fits fs grp) (rc_trap)) (\<lambda>_.
     (let bmap_phys = bgd_block fs (at bgd (bgd_entry_off fs grp)) 0x00 0x20 in
     bindE (orX (fs_read_block bmap_phys) (-1)) (\<lambda>bm.
     (let bm' = bmp_clear bm bitno in
     bindE (sb_give_block (-1)) (\<lambda>sb.
     ext4_journal_commit
         [(bmap_phys, bm'),
          (bgd_fs_block fs, bgd_give_block fs grp bgd bm'),
          (sb_fs_block fs, sb)])))))))))"

section \<open>The entry in the parent\<close>

record dir_hit =
  dh_block :: u64
  dh_buf :: buf
  dh_off :: nat
  dh_prev :: "nat option"

text \<open>The first of the blocks that holds a record with the inode; unreadable blocks are passed over.\<close>

fun find_entry_blocks :: "ext4_inode \<Rightarrow> u32 \<Rightarrow> u32 list \<Rightarrow> ('c ext4_fs, dir_hit) op" where
  "find_entry_blocks parent target [] = failE (-1)"
| "find_entry_blocks parent target (b # bs) =
   bindE (getE (\<lambda>fs. fs)) (\<lambda>fs.
   bindE (tryX (extent_lookup (i_block parent) b)) (\<lambda>phys.
   (case phys of
        None \<Rightarrow> find_entry_blocks parent target bs
      | Some p \<Rightarrow>
         bindE (tryX (fs_read_block p)) (\<lambda>blk.
         (case blk of
             None \<Rightarrow> find_entry_blocks parent target bs
           | Some blk \<Rightarrow>
               (case dir_find_entry_by_inode blk (bs_nat fs) target of
                  None \<Rightarrow> find_entry_blocks parent target bs
                | Some (off, prev) \<Rightarrow>
                    retE \<lparr>dh_block = p, dh_buf = blk, dh_off = off, dh_prev = prev\<rparr>))))))"

text \<open>The parent's block with the entry taken out.\<close>

definition hit_remove :: "'c ext4_fs \<Rightarrow> u32 \<Rightarrow> u32 \<Rightarrow> dir_hit \<Rightarrow> buf" where
  "hit_remove fs parent_ino gen h =
     dir_block_set_tail_csum fs (dir_remove_entry (dh_buf h) (dh_off h) (dh_prev h)) parent_ino gen"

definition unlink_in_parent :: "u32 \<Rightarrow> u32 \<Rightarrow> ('c ext4_fs, u64 \<times> buf) op" where
  "unlink_in_parent parent_ino target =
     bindE (orX (ext4_inode_read parent_ino) (-1)) (\<lambda>parent.
     bindE (orX (read_inode_block parent_ino) (-1)) (\<lambda>pslot.
     bindE (getE (\<lambda>fs. fs)) (\<lambda>fs.
     bindE (find_entry_blocks parent target (dir_block_numbers fs parent)) (\<lambda>h.
     retE (dh_block h, hit_remove fs parent_ino (is_gen pslot) h)))))"

section \<open>Freeing an inode\<close>

definition dec_dirs :: "u16 \<times> u32 \<Rightarrow> u16 \<times> u32" where
  "dec_dirs v = (if 0 < fst v then (fst v - 1, snd v)
                 else if 0 < snd v then (0xFFFF, snd v - 1) else v)"

definition bgd_give_inode :: "'c ext4_fs \<Rightarrow> bool \<Rightarrow> u32 \<Rightarrow> buf \<Rightarrow> buf \<Rightarrow> buf" where
  "bgd_give_inode fs is_dir grp b bm =
     (let e = bgd_entry_off fs grp;
          b = bgd_put_split fs b e 0x0E 0x2E (inc_split (bgd_split fs b e 0x0E 0x2E));
          b = (if is_dir then bgd_put_split fs b e 0x10 0x30 (dec_dirs (bgd_split fs b e 0x10 0x30)) else b)
      in bgd_finalize_inode_bitmap_csums fs grp b e bm)"

definition sb_give_inode :: "int \<Rightarrow> ('c ext4_fs, buf) op" where
  "sb_give_inode rc =
     bindE (getE (\<lambda>fs. fs)) (\<lambda>fs.
     (let p = sb_offset_in_block fs in
     bindE (orX (fs_read_block (sb_fs_block fs)) rc) (\<lambda>b.
     retE (sb_put_free_inodes fs b p (le32 b (p + 0x10) + 1)))))"

text \<open>The last transaction of a removal: the inode's bit and slot, its entry in the parent, the
  parent's time and, for a directory, link count.\<close>

definition free_inode_tx :: "bool \<Rightarrow> u32 \<Rightarrow> u32 \<Rightarrow> u32 \<Rightarrow> u64 \<times> buf \<Rightarrow> ('c ext4_fs, unit) op" where
  "free_inode_tx is_dir parent_ino ino now pdir =
     bindE (getE (\<lambda>fs. fs)) (\<lambda>fs.
     bindE (checkE (s_inodes_per_group (fs_sb fs) \<noteq> 0) (rc_trap)) (\<lambda>_.
     (let grp = ino_group fs ino; bitno = unat (ino_index fs ino) in
     bindE (orX (fs_read_block (bgd_fs_block fs)) (-1)) (\<lambda>bgd.
     bindE (checkE (bgd_entry_fits fs grp) (rc_trap)) (\<lambda>_.
     (let ibmap = bgd_block fs (at bgd (bgd_entry_off fs grp)) 0x04 0x24 in
     bindE (orX (fs_read_block ibmap) (-1)) (\<lambda>bm.
     (let bm' = bmp_clear bm bitno in
     bindE (sb_give_inode (-1)) (\<lambda>sb.
     bindE (orX (read_inode_at ino) (-1)) (\<lambda>(b, blk, off).
     bindE (orX (read_inode_at parent_ino) (-1)) (\<lambda>(pb, pblk, poff).
     orX (ext4_journal_commit
         [(ibmap, bm'),
          (bgd_fs_block fs, bgd_give_inode fs is_dir grp bgd bm'),
          (sb_fs_block fs, sb),
          (blk, fill_bytes b off 0 (unat (s_inode_size (fs_sb fs)))),
          pdir,
          (pblk, if is_dir then inode_set_links fs parent_ino pb poff (dec_links (links_at pb poff)) now
                 else inode_set_mtime_and_csum fs parent_ino pb poff now)]) (-1))))))))))))"

section \<open>Removing a directory\<close>

text \<open>The scan of the block: every live record is \<open>.\<close> or \<open>..\<close>.\<close>

function dir_is_empty_from :: "buf \<Rightarrow> nat \<Rightarrow> nat \<Rightarrow> bool" where
  "dir_is_empty_from blk bs off =
     (if \<not> rec_ok blk bs off then True
      else if is_csum_tail blk off \<or> ino_at blk off = 0
           \<or> (name_len_at blk off = 1 \<and> blk (off + 8) = dot)
           \<or> (name_len_at blk off = 2 \<and> blk (off + 8) = dot \<and> blk (off + 9) = dot)
        then dir_is_empty_from blk bs (off + rec_len_at blk off)
      else False)"
  by pat_completeness auto
termination
  by (relation "measure (\<lambda>(blk, bs, off). bs - off)") (auto dest: rec_ok_step)

declare dir_is_empty_from.simps [simp del]

definition is_dir_inode :: "ext4_inode \<Rightarrow> bool" where
  "is_dir_inode inode \<longleftrightarrow> i_mode inode AND 0xF000 = ext4_s_ifdir"

definition ext4_dir_remove :: "u32 \<Rightarrow> u32 \<Rightarrow> ('c ext4_fs, unit) op" where
  "ext4_dir_remove parent_ino dir_ino =
     bindE (write_cap (-1)) (\<lambda>_.
     bindE (checkE (dir_ino \<noteq> 0 \<and> dir_ino \<noteq> 2) (-1)) (\<lambda>_.
     bindE (orX (ext4_inode_read dir_ino) (-1)) (\<lambda>inode.
     bindE (checkE (is_dir_inode inode) (-1)) (\<lambda>_.
     bindE (checkE (le16 (i_block inode) 0 = ext4_ext_magic) (-1)) (\<lambda>_.
     bindE (checkE (le16 (i_block inode) 6 = 0 \<and> le16 (i_block inode) 2 = 1) (-1)) (\<lambda>_.
     bindE (orX (extent_lookup (i_block inode) 0) (-1)) (\<lambda>phys.
     bindE (orX (fs_read_block phys) (-1)) (\<lambda>blk.
     bindE (getE (\<lambda>fs. fs)) (\<lambda>fs.
     bindE (checkE (dir_is_empty_from blk (bs_nat fs) 0) (-1)) (\<lambda>_.
     bindE (unlink_in_parent parent_ino dir_ino) (\<lambda>pdir.
     bindE (orX (free_one_data_block phys) (-1)) (\<lambda>_.
     free_inode_tx True parent_ino dir_ino (i_mtime inode + 1) pdir))))))))))))"

section \<open>Removing a file\<close>

text \<open>The blocks of the leaves in the order they are freed; \<open>ee_len\<close> is taken as it is.\<close>

definition leaf_blocks :: "buf \<Rightarrow> nat \<Rightarrow> u64 list" where
  "leaf_blocks ib i =
     map (\<lambda>k. leaf_phys ib i + word_of_nat k) [0..<unat (le16 ib (ext_entry i + 4))]"

definition file_blocks :: "buf \<Rightarrow> u64 list" where
  "file_blocks ib = concat (map (leaf_blocks ib) [0..<node_entries ib])"

fun free_all :: "u64 list \<Rightarrow> ('c ext4_fs, unit) op" where
  "free_all [] = retE ()"
| "free_all (blk # blks) =
   bindE (orX (free_one_data_block blk) (-1)) (\<lambda>_.
   free_all blks)"

definition ext4_file_remove :: "u32 \<Rightarrow> u32 \<Rightarrow> ('c ext4_fs, unit) op" where
  "ext4_file_remove parent_ino file_ino =
     bindE (write_cap (-1)) (\<lambda>_.
     bindE (checkE (file_ino \<noteq> 0 \<and> file_ino \<noteq> 2) (-1)) (\<lambda>_.
     bindE (orX (ext4_inode_read file_ino) (-1)) (\<lambda>inode.
     bindE (checkE (\<not> is_dir_inode inode) (-1)) (\<lambda>_.
     bindE (checkE (le16 (i_block inode) 0 = ext4_ext_magic) (-1)) (\<lambda>_.
     bindE (checkE (le16 (i_block inode) 6 = 0) (-1)) (\<lambda>_.
     bindE (free_all (file_blocks (i_block inode))) (\<lambda>_.
     bindE (unlink_in_parent parent_ino file_ino) (\<lambda>pdir.
     free_inode_tx False parent_ino file_ino (i_mtime inode + 1) pdir))))))))"

section \<open>Truncating a file\<close>

text \<open>
  One leaf against the new number of blocks: the blocks to free, last first, and the table with
  the leaf dropped (and one leaf less to keep) or shortened; \<open>None\<close> when the leaf lies below
  the boundary.
\<close>

definition trunc_leaf :: "u32 \<Rightarrow> buf \<Rightarrow> nat \<Rightarrow> (u64 list \<times> buf \<times> u16) option" where
  "trunc_leaf nblocks ib i =
     (let logical = leaf_logical ib i; len = le16 ib (ext_entry i + 4); phys = leaf_phys ib i;
          shrunk = ucast (nblocks - logical) :: u16;
          tail = (\<lambda>n :: u32. map (\<lambda>k. phys + ucast (ucast len - 1 - word_of_nat k :: u32)) [0..<unat n])
      in if nblocks \<le> logical then Some (tail (ucast len), fill_bytes ib (ext_entry i) 0 12, 1)
         else if nblocks < logical + ucast len
           then Some (tail (ucast len - ucast shrunk), put_le16 ib (ext_entry i + 4) shrunk, 0)
         else None)"

text \<open>The leaves from the last to the first; the result is the table, the leaves dropped and the
  number of blocks freed.\<close>

fun trunc_leaves :: "u32 \<Rightarrow> nat \<Rightarrow> buf \<Rightarrow> u16 \<Rightarrow> u32 \<Rightarrow> ('c ext4_fs, buf \<times> u16 \<times> u32) op" where
  "trunc_leaves nblocks 0 ib dropped freed = retE (ib, dropped, freed)"
| "trunc_leaves nblocks (Suc i) ib dropped freed =
     (case trunc_leaf nblocks ib i of
        None \<Rightarrow> retE (ib, dropped, freed)
      | Some (blks, ib', d) \<Rightarrow>
         bindE (free_all blks) (\<lambda>_.
         trunc_leaves nblocks i ib' (dropped + d) (freed + word_of_nat (length blks))))"

definition trunc_block_count :: "'c ext4_fs \<Rightarrow> u64 \<Rightarrow> u32" where
  "trunc_block_count fs new_size =
     (if new_size = 0 then 0
      else ucast ((new_size + ucast (block_size fs) - 1) div ucast (block_size fs)))"

definition trunc_inode :: "'c ext4_fs \<Rightarrow> u32 \<Rightarrow> buf \<Rightarrow> u64 \<Rightarrow> u32 \<Rightarrow> u32 \<Rightarrow> buf \<Rightarrow> nat \<Rightarrow> buf" where
  "trunc_inode fs ino ib new_size freed now b off =
     (let b = copy_bytes b (off + 0x28) ib 60;
          b = put_le32 b (off + 0x04) (ucast (new_size AND 0xFFFFFFFF));
          b = put_le32 b (off + 0x6C) (ucast (drop_bit 32 new_size));
          b = put_le32 b (off + 0x1C) (le32 b (off + 0x1C) - freed * (block_size fs div 512))
      in inode_set_mtime_and_csum fs ino b off now)"

definition ext4_file_truncate :: "u32 \<Rightarrow> u64 \<Rightarrow> u32 \<Rightarrow> ('c ext4_fs, unit) op" where
  "ext4_file_truncate ino new_size now =
     bindE (checkE (ino \<noteq> 0 \<and> ino \<noteq> 2) (-1)) (\<lambda>_.
     bindE (write_cap (-1)) (\<lambda>_.
     bindE (orX (ext4_inode_read ino) (-1)) (\<lambda>inode.
     bindE (checkE (\<not> is_dir_inode inode) (-1)) (\<lambda>_.
     bindE (checkE (new_size \<le> i_size inode) (-1)) (\<lambda>_.
     (if new_size = i_size inode then retE ()
      else
         (let ib = i_block inode in
         bindE (checkE (le16 ib 0 = ext4_ext_magic) (-1)) (\<lambda>_.
         bindE (checkE (le16 ib 6 = 0) (-1)) (\<lambda>_.
         bindE (getE (\<lambda>fs. fs)) (\<lambda>fs.
         bindE (trunc_leaves (trunc_block_count fs new_size) (node_entries ib) ib 0 0) (\<lambda>(ib', dropped, freed).
         (let ib'' = put_le16 ib' 2 (le16 ib 2 - dropped) in
         bindE (orX (read_inode_at ino) (-1)) (\<lambda>(b, blk, off).
         orX (ext4_journal_commit [(blk, trunc_inode fs ino ib'' new_size freed now b off)]) (-1))))))))))))))"

end
