(* ===== verification/Rename.thy ===== *)
theory Rename
  imports DirOps
begin

text \<open>
  Renaming, src/ext4/extent.c: \<open>ext4_rename\<close> in one directory and \<open>ext4_rename_xdir\<close> from one
  directory to another.  Each is one transaction.  \<open>ext4_rename_xdir\<close> has no check of the block
  size, so on a volume with larger blocks its reads run past the end of the 1024-byte scratch
  buffers: \<open>rc_trap\<close>.
\<close>

section \<open>In one directory\<close>

text \<open>The record at \<open>off\<close> with a new name; the rest of the record is zeroed.\<close>

definition put_name :: "nat \<Rightarrow> buf \<Rightarrow> nat \<Rightarrow> byte list \<Rightarrow> buf" where
  "put_name bs b off name =
     (let nl = length name; stop = min (rec_len_at b off) (bs - off);
          b = b(off + 6 := word_of_nat nl);
          b = fill_bytes b (off + 8 + nl) 0 (stop - (8 + nl))
      in put_bytes b (off + 8) name)"

definition ext4_rename :: "u32 \<Rightarrow> u32 \<Rightarrow> byte list \<Rightarrow> ('c ext4_fs, unit) op" where
  "ext4_rename parent_ino file_ino name =
     bindE (write_cap (-1)) (\<lambda>_.
     bindE (checkE (length name \<noteq> 0) (-1)) (\<lambda>_.
     bindE (orX (ext4_inode_read parent_ino) (-1)) (\<lambda>parent.
     bindE (orX (read_inode_block parent_ino) (-1)) (\<lambda>pslot.
     bindE (getE (\<lambda>fs. fs)) (\<lambda>fs.
     bindE (find_entry_blocks parent file_ino (dir_block_numbers fs parent)) (\<lambda>h.
     bindE (checkE (rec_need (length name) \<le> rec_len_at (dh_buf h) (dh_off h)) (-1)) (\<lambda>_.
     bindE (orX (read_inode_at parent_ino) (-1)) (\<lambda>(pb, pblk, poff).
     orX (ext4_journal_commit
         [(dh_block h, dir_block_set_tail_csum fs (put_name (bs_nat fs) (dh_buf h) (dh_off h) name)
             parent_ino (is_gen pslot)),
          (pblk, inode_set_mtime_and_csum fs parent_ino pb poff (i_mtime parent + 1))]) (-1)))))))))"

section \<open>From one directory to another\<close>

text \<open>Up the \<open>..\<close> chain from \<open>cur\<close>, at most \<open>depth\<close> levels: is \<open>moved\<close> on it?\<close>

fun xdir_walk :: "nat \<Rightarrow> u32 \<Rightarrow> u32 \<Rightarrow> ('c ext4_fs, bool) op" where
  "xdir_walk 0 moved cur = failE (-1)"
| "xdir_walk (Suc depth) moved cur =
     (if cur = moved then retE True
      else if cur = 2 \<or> cur = 0 then retE False
      else
         bindE (orX (ext4_inode_read cur) (-1)) (\<lambda>inode.
         bindE (checkE (is_dir_inode inode) (-1)) (\<lambda>_.
         bindE (orX (extent_lookup (i_block inode) 0) (-1)) (\<lambda>phys.
         bindE (write_cap rc_trap) (\<lambda>_.
         bindE (orX (fs_read_block phys) (-1)) (\<lambda>blk.
         xdir_walk depth moved (le32 blk 12)))))))"

definition xdir_is_ancestor :: "u32 \<Rightarrow> u32 \<Rightarrow> ('c ext4_fs, bool) op" where
  "xdir_is_ancestor moved descendant = xdir_walk 64 moved descendant"

definition find_entry_block0 :: "ext4_inode \<Rightarrow> u32 \<Rightarrow> ('c ext4_fs, dir_hit) op" where
  "find_entry_block0 parent target =
     bindE (getE (\<lambda>fs. fs)) (\<lambda>fs.
     bindE (orX (extent_lookup (i_block parent) 0) (-1)) (\<lambda>p.
     bindE (orX (fs_read_block p) (-1)) (\<lambda>blk.
     (case dir_find_entry_by_inode blk (bs_nat fs) target of
        None \<Rightarrow> failE (-1)
      | Some (off, prev) \<Rightarrow> retE \<lparr>dh_block = p, dh_buf = blk, dh_off = off, dh_prev = prev\<rparr>))))"

text \<open>An indexed directory keeps its entries in blocks 1 and up, another one must have them in
  block 0.\<close>

definition xdir_old_entry :: "ext4_inode \<Rightarrow> u32 \<Rightarrow> ('c ext4_fs, dir_hit) op" where
  "xdir_old_entry parent target =
     bindE (getE (\<lambda>fs. fs)) (\<lambda>fs.
     (if dir_indexed parent then find_entry_blocks parent target (tl (dir_block_numbers fs parent))
      else find_entry_block0 parent target))"

definition xdir_new_slot :: "ext4_inode \<Rightarrow> byte list \<Rightarrow> ('c ext4_fs, dir_slot) op" where
  "xdir_new_slot parent name =
     bindE (getE (\<lambda>fs. fs)) (\<lambda>fs.
     (let need = rec_need (length name) in
     bindE ((if dir_indexed parent then orX (htree_slot parent need name) (-1)
           else
              bindE (orX (extent_lookup (i_block parent) 0) (-1)) (\<lambda>p.
              bindE (orX (fs_read_block p) (-1)) (\<lambda>blk.
              retE (slot_in_block p need fs blk))))) (\<lambda>s.
     (case s of None \<Rightarrow> failE (-1) | Some s \<Rightarrow> retE s))))"

text \<open>The moved directory's first block, its \<open>..\<close> pointing to the new parent.\<close>

definition xdir_moved_block :: "ext4_inode \<Rightarrow> u32 \<Rightarrow> u32 \<Rightarrow> ('c ext4_fs, u64 \<times> buf) op" where
  "xdir_moved_block inode file_ino new_parent =
     bindE (orX (extent_lookup (i_block inode) 0) (-1)) (\<lambda>phys.
     bindE (orX (read_inode_block file_ino) (-1)) (\<lambda>slot.
     bindE (orX (fs_read_block phys) (-1)) (\<lambda>b.
     bindE (getE (\<lambda>fs. fs)) (\<lambda>fs.
     retE (phys, dir_block_set_tail_csum fs (put_le32 b 12 new_parent) file_ino (is_gen slot))))))"

text \<open>
  The two parents' inode blocks: one buffer when both inodes are in the same block, so that no
  update is lost.
\<close>

definition xdir_parents ::
  "'c ext4_fs \<Rightarrow> bool \<Rightarrow> u32 \<Rightarrow> u32 \<Rightarrow> inode_slot \<Rightarrow> inode_slot \<Rightarrow> u32 \<Rightarrow> (u64 \<times> buf) list" where
  "xdir_parents fs is_dir old_ino new_ino so sn now =
     (let oo = is_offset so; no = is_offset sn;
          ob = (if is_dir then put_le16 (is_buf so) (oo + 0x1A) (dec_links (links_at (is_buf so) oo))
                else is_buf so);
          ob = inode_set_mtime_and_csum fs old_ino ob oo now;
          share = (is_fs_block sn = is_fs_block so);
          nb = (if share then ob else is_buf sn);
          nb = (if is_dir then put_le16 nb (no + 0x1A) (links_at nb no + 1) else nb);
          nb = inode_set_mtime_and_csum fs new_ino nb no now
      in if share then [(is_fs_block so, nb)] else [(is_fs_block so, ob), (is_fs_block sn, nb)])"

definition xdir_new_gen :: "inode_slot \<Rightarrow> inode_slot \<Rightarrow> u32" where
  "xdir_new_gen so sn =
     (if is_fs_block sn = is_fs_block so then le32 (is_buf so) (is_offset sn + 0x64) else is_gen sn)"

definition ext4_rename_xdir :: "u32 \<Rightarrow> u32 \<Rightarrow> u32 \<Rightarrow> byte list \<Rightarrow> u32 \<Rightarrow> ('c ext4_fs, unit) op" where
  "ext4_rename_xdir old_ino file_ino new_ino name now =
     bindE (checkE (old_ino \<noteq> new_ino) (-1)) (\<lambda>_.
     bindE (checkE (length name \<noteq> 0) (-1)) (\<lambda>_.
     bindE (checkE (file_ino \<noteq> 0 \<and> file_ino \<noteq> 2) (-1)) (\<lambda>_.
     bindE (orX (ext4_inode_read old_ino) (-1)) (\<lambda>old_par.
     bindE (orX (ext4_inode_read new_ino) (-1)) (\<lambda>new_par.
     bindE (orX (ext4_inode_read file_ino) (-1)) (\<lambda>inode.
     (let is_dir = is_dir_inode inode in
     bindE (checkE (\<not> (is_dir \<and> file_ino = new_ino)) (-1)) (\<lambda>_.
     bindE ((if is_dir then xdir_is_ancestor file_ino new_ino else retE False)) (\<lambda>cycle.
     bindE (checkE (\<not> cycle) (-1)) (\<lambda>_.
     bindE (write_cap rc_trap) (\<lambda>_.
     bindE (orX (read_inode_block old_ino) (-1)) (\<lambda>so.
     bindE (orX (read_inode_block new_ino) (-1)) (\<lambda>sn.
     bindE (xdir_old_entry old_par file_ino) (\<lambda>h.
     bindE (xdir_new_slot new_par name) (\<lambda>s.
     bindE ((if is_dir then
        bindE (xdir_moved_block inode file_ino new_ino) (\<lambda>m.
        retE [m])
               else retE [])) (\<lambda>moved.
     bindE (getE (\<lambda>fs. fs)) (\<lambda>fs.
     orX (ext4_journal_commit
         ([(dh_block h, hit_remove fs old_ino (is_gen so) h),
           (ds_block s, slot_fill fs new_ino (xdir_new_gen so sn) s file_ino (if is_dir then 2 else 1) name)]
          @ xdir_parents fs is_dir old_ino new_ino so sn now @ moved)) (-1))))))))))))))))))"

end
