(* ===== verification/Sample.thy ===== *)
theory Sample
  imports Mount CommitDisk
begin

text \<open>
  A small volume for the examples: an image of 64 blocks of 1024 bytes without a partition
  table, whose bytes, superblock and journal handle are given, and a journal of eight blocks at
  blocks 40 to 47.  The witnesses evaluate the properties on it.
\<close>

section \<open>The volume\<close>

definition sample_fs :: "buf \<Rightarrow> ext4_superblock \<Rightarrow> ext4_jbd \<Rightarrow> file_ctx ext4_fs" where
  "sample_fs img sb j = (fs_bare (file_bdev_open_rw img 65536) 0 sb)\<lparr>fs_jbd := j\<rparr>"

lemma sample_fields [simp]:
  "fs_sb (sample_fs img sb j) = sb" "fs_jbd (sample_fs img sb j) = j"
  "fs_bgd_cached_block (sample_fs img sb j) = ext4_fs_bgd_invalid"
  "fs_bgd_count (sample_fs img sb j) = ucast (fs_group_count sb)"
  "fs_bgd_size (sample_fs img sb j) = (if s_feature_incompat sb AND 0x80 \<noteq> 0 then 64 else 32)"
  "fs_partition_lba (sample_fs img sb j) = 0"
  "fs_bd (sample_fs img sb j) = file_bdev_open_rw img 65536"
  by (simp_all add: sample_fs_def fs_bare_def)

lemma sample_vol:
  assumes "s_block_size sb = 1024" "\<And>i. 65536 \<le> i \<Longrightarrow> img i = 0"
  shows "vol (sample_fs img sb j)" "alive (sample_fs img sb j)"
  using assms
  by (auto simp: vol_def alive_def file_dev_def file_bdev_open_rw_def file_bdev_open_mode_def)

lemma sample_blk_ok:
  assumes "s_block_size sb = 1024" "n < 64"
  shows "blk_ok (sample_fs img sb j) n"
proof -
  have "(n + 1) * 1024 \<le> 64 * 1024" using assms(2) by (intro mult_le_mono1) simp
  then show ?thesis
    using assms by (simp add: blk_ok_def vol_base_def file_bdev_open_rw_def file_bdev_open_mode_def)
qed

lemma sample_disk:
  assumes "s_block_size sb = 1024"
  shows "disk (sample_fs img sb j) n = trunc 1024 (at img (n * 1024))"
  using assms
  by (simp add: disk_def vol_base_def file_contents_def file_bdev_open_rw_def file_bdev_open_mode_def)

lemma sample_raw_read:
  assumes "s_block_size sb = 1024" "\<And>i. 65536 \<le> i \<Longrightarrow> img i = 0" "unat blk < 64"
  shows "raw_read (sample_fs img sb j) blk = Inr (trunc 1024 (at img (unat blk * 1024)))"
  using raw_read_disk [OF sample_vol(1) sample_blk_ok, of sb img blk j] assms
  by (simp add: sample_disk)

lemma sample_read:
  assumes "s_block_size sb = 1024" "\<And>i. 65536 \<le> i \<Longrightarrow> img i = 0" "unat blk < 64"
    "\<not> jbd_replay_active j"
  shows "ext4_fs_read_block (sample_fs img sb j) blk = Inr (trunc 1024 (at img (unat blk * 1024)))"
  using sample_raw_read [OF assms(1-3)] assms(4)
  by (simp add: ext4_fs_read_block_def ext4_journal_lookup_def)

section \<open>The journal\<close>

definition sample_jsb :: buf where
  "sample_jsb = be32_pack (be32_pack (be32_pack (be32_pack (be32_pack (be32_pack (be32_pack zero_buf
     0 jbd_magic) 4 bt_super_v2) 0x0C 1024) 0x10 8) 0x14 1) 0x18 5) 0x1C 0"

definition sample_image :: buf where
  "sample_image = copy_bytes zero_buf 40960 sample_jsb 1024"

definition sample_jbd :: ext4_jbd where
  "sample_jbd = jbd_none\<lparr>jbd_present := True, jbd_inum := 8, jbd_blocksize := 1024,
     jbd_maxlen := 8, jbd_first := 1, jbd_sequence := 5,
     jbd_extents := [\<lparr>je_logical = 0, je_length = 8, je_physical = 40\<rparr>]\<rparr>"

abbreviation sample :: "file_ctx ext4_fs" where
  "sample \<equiv> sample_fs sample_image sample_superblock sample_jbd"

lemma sample_sb_fields [simp]:
  "s_block_size sample_superblock = 1024" "s_inodes_per_group sample_superblock = 32"
  "s_blocks_per_group sample_superblock = 8192" "s_inode_size sample_superblock = 128"
  "s_feature_incompat sample_superblock = 0x46" "s_feature_ro_compat sample_superblock = 0"
  "s_first_data_block sample_superblock = 1" "s_blocks_count sample_superblock = 64"
  by (simp_all add: sample_superblock_def)

lemma sample_image_0: "65536 \<le> i \<Longrightarrow> sample_image i = 0"
  by (simp add: sample_image_def copy_bytes_def)

lemma sample_log_phys:
  "jbd_log_phys sample_jbd w = (if w < 8 then Some (40 + ucast w) else None)"
  by (simp add: jbd_log_phys_def sample_jbd_def jbd_extent_has_def jbd_none_def)

lemma sample_log_blk:
  assumes "w < 8"
  shows "log_blk sample_jbd w = 40 + unat w"
proof -
  have "unat w < 8" using assms by (simp add: word_less_nat_alt)
  then have "unat (40 + ucast w :: u64) = 40 + unat w"
    by (subst unat_add_small) simp_all
  then show ?thesis using assms by (simp add: log_blk_def sample_log_phys)
qed

lemma sample_jbd_fields [simp]:
  "jbd_maxlen sample_jbd = 8" "jbd_first sample_jbd = 1" "jbd_sequence sample_jbd = 5"
  "jbd_start sample_jbd = 0" "jbd_present sample_jbd" "jbd_blocksize sample_jbd = 1024"
  "jbd_uuid sample_jbd = replicate 16 0" "\<not> jbd_replay_active sample_jbd"
  "jbd_csums sample_jbd = False" "jbd_has_64bit sample_jbd = False" "jbd_csum_v3 sample_jbd = False"
  "jbd_csum_v2 sample_jbd = False" "jbd_revoke sample_jbd = []" "jbd_replay sample_jbd = []"
  "jbd_extents sample_jbd = [\<lparr>je_logical = 0, je_length = 8, je_physical = 40\<rparr>]" "jbd_inum sample_jbd = 8"
  by (simp_all add: sample_jbd_def jbd_none_def jbd_csums_def)

lemma sample_log_ok: "log_ok (sample_fs img sample_superblock sample_jbd)"
proof -
  have u: "unat w < 8" if "w < (8 :: u32)" for w using that by (simp add: word_less_nat_alt)
  have "blk_ok (sample_fs img sample_superblock sample_jbd) (log_blk sample_jbd w)" if "w < 8" for w
    using u [OF that] by (intro sample_blk_ok) (simp_all add: sample_log_blk that)
  then show ?thesis
    by (auto simp: log_ok_def Let_def sample_log_phys sample_log_blk word_unat_eq_iff)
qed

lemma sample_in_log: "in_log sample_jbd n \<Longrightarrow> 40 \<le> n \<and> n < 48"
  by (auto simp: in_log_def sample_log_blk word_less_nat_alt)

end
