(* ===== verification/Reading.thy ===== *)
theory Reading
  imports Sample Htree
begin

text \<open>
  The properties of the read side: the descriptor cache, reads through the journal, inodes,
  extent trees, files, directories, paths and the htree index.  Each is followed by an
  application to the sample volume of \<open>Sample\<close>.
\<close>

section \<open>Group descriptors and blocks\<close>

text \<open>\<open>ext4_fs_bgd_get\<close> answers as if it read the descriptor's block at every call: as
  long as the cached block is what a read of it would give, so it stays, and nothing but the
  cache changes.\<close>

theorem bgd_cache_transparent:
  assumes "bgd_coherent fs" "bgd_tag_fits fs grp"
  shows "fst (ext4_fs_bgd_get grp fs) = bgd_uncached fs grp \<and>
    bgd_coherent (snd (ext4_fs_bgd_get grp fs)) \<and> same_but_bgd fs (snd (ext4_fs_bgd_get grp fs))"
  using bgd_get_coherent [OF assms] bgd_get_same by blast

theorem bgd_cache_transparent_witness:
  "fst (ext4_fs_bgd_get 0 (snd (ext4_fs_bgd_get 0 sample))) = bgd_uncached (snd (ext4_fs_bgd_get 0 sample)) 0"
proof -
  have c: "bgd_coherent sample" by (simp add: bgd_coherent_def)
  have b: "bgd_block_of fs 0 = 2" if "same_but_bgd sample fs" for fs
    using that by (simp add: bgd_block_of_def bgd_byte_in_partition_def same_but_bgd_def)
  have t: "bgd_tag_fits fs 0" if "same_but_bgd sample fs" for fs
    using b [OF that] by (simp add: bgd_tag_fits_def)
  have 1: "bgd_coherent (snd (ext4_fs_bgd_get 0 sample))" "same_but_bgd sample (snd (ext4_fs_bgd_get 0 sample))"
    using bgd_get_coherent(2) [OF c t] bgd_get_same by auto
  show ?thesis using bgd_cache_transparent [OF 1(1) t [OF 1(2)]] by blast
qed

text \<open>While a replay table is active, a read of a block in it gives the copy in the log, with
  the first word put back when the copy was escaped; a read of any other block gives the block of
  the volume.\<close>

theorem read_block_sees_journal:
  assumes "vol fs" "log_ok fs" "jbd_replay_active (fs_jbd fs)"
    "distinct (map re_fs_block (jbd_replay (fs_jbd fs)))"
  shows "(e \<in> set (jbd_replay (fs_jbd fs)) \<and> re_journal_blk e < jbd_maxlen (fs_jbd fs) \<longrightarrow>
      ext4_fs_read_block fs (re_fs_block e) =
        (let copy = disk fs (log_blk (fs_jbd fs) (re_journal_blk e))
         in Inr (if re_is_escape e then restore_magic copy else copy))) \<and>
    (blk \<notin> re_fs_block ` set (jbd_replay (fs_jbd fs)) \<and> blk_ok fs (unat blk) \<longrightarrow>
      ext4_fs_read_block fs blk = Inr (disk fs (unat blk)))"
proof (intro conjI impI)
  assume e: "e \<in> set (jbd_replay (fs_jbd fs)) \<and> re_journal_blk e < jbd_maxlen (fs_jbd fs)"
  have "find (\<lambda>x. re_fs_block x = re_fs_block e) es = Some e"
    if "e \<in> set es" "distinct (map re_fs_block es)" for es
    using that by (induction es) (auto simp: image_iff)
  with e assms(3,4) have "ext4_journal_lookup (fs_jbd fs) (re_fs_block e) = Some (re_journal_blk e, re_is_escape e)"
    by (simp add: ext4_journal_lookup_def)
  then show "ext4_fs_read_block fs (re_fs_block e) =
        (let copy = disk fs (log_blk (fs_jbd fs) (re_journal_blk e))
         in Inr (if re_is_escape e then restore_magic copy else copy))"
    using read_log_block_disk [OF assms(1,2)] e by (simp add: ext4_fs_read_block_def Let_def)
next
  assume b: "blk \<notin> re_fs_block ` set (jbd_replay (fs_jbd fs)) \<and> blk_ok fs (unat blk)"
  then have "find (\<lambda>e. re_fs_block e = blk) (jbd_replay (fs_jbd fs)) = None"
    by (auto simp: find_None_iff)
  then have "ext4_journal_lookup (fs_jbd fs) blk = None"
    by (simp add: ext4_journal_lookup_def)
  then show "ext4_fs_read_block fs blk = Inr (disk fs (unat blk))"
    using raw_read_disk [OF assms(1)] b by (simp add: ext4_fs_read_block_def)
qed

theorem read_block_sees_journal_witness:
  "let e = \<lparr>re_fs_block = 20, re_journal_blk = 2, re_is_escape = True\<rparr>;
       fs = sample_fs sample_image sample_superblock
         (sample_jbd\<lparr>jbd_replay_active := True, jbd_replay := [e]\<rparr>) in
   ext4_fs_read_block fs 20 = Inr (restore_magic (disk fs (log_blk (fs_jbd fs) 2))) \<and>
   ext4_fs_read_block fs 21 = Inr (disk fs 21)"
proof -
  let ?e = "\<lparr>re_fs_block = 20, re_journal_blk = 2, re_is_escape = True\<rparr> :: ext4_jbd_replay_entry"
  let ?j = "sample_jbd\<lparr>jbd_replay_active := True, jbd_replay := [?e]\<rparr>"
  let ?fs = "sample_fs sample_image sample_superblock ?j"
  have v: "vol ?fs" by (rule sample_vol) (simp_all add: sample_image_0)
  have p: "jbd_log_phys ?j = jbd_log_phys sample_jbd" "log_blk ?j = log_blk sample_jbd"
    by (auto simp: fun_eq_iff jbd_log_phys_def log_blk_def)
  have b: "blk_ok ?fs n" if "n < 64" for n using that by (intro sample_blk_ok) simp_all
  have u: "unat w < 8" if "w < (8 :: u32)" for w using that by (simp add: word_less_nat_alt)
  have l: "log_ok ?fs"
    using u by (auto simp: log_ok_def Let_def p sample_log_phys sample_log_blk word_unat_eq_iff
        intro!: b) (fastforce dest: u)
  show ?thesis
    using read_block_sees_journal [OF v l, of ?e 21] b [of 21] by (simp add: Let_def)
qed

section \<open>Inodes\<close>

text \<open>\<open>ext4_inode_recompute_csum\<close> leaves a valid checksum: the stored halves are the CRC32C
  of file system id, inode number, generation and inode bytes with the checksum fields zeroed.  It
  changes no byte outside the two fields, and doing it again changes nothing.\<close>

theorem inode_csum_stored:
  assumes "metadata_csum fs"
  shows "inode_csum_valid fs ino (ext4_inode_recompute_csum fs ino b p) p \<and>
    (i \<notin> {p + 0x7C, p + 0x7D} \<and> (inode_has_hi fs \<longrightarrow> i \<notin> {p + 0x82, p + 0x83}) \<longrightarrow>
      ext4_inode_recompute_csum fs ino b p i = b i) \<and>
    ext4_inode_recompute_csum fs ino (ext4_inode_recompute_csum fs ino b p) p =
      ext4_inode_recompute_csum fs ino b p"
proof (intro conjI impI)
  show "inode_csum_valid fs ino (ext4_inode_recompute_csum fs ino b p) p"
    by (rule recompute_csum_valid [OF assms])
next
  assume "i \<notin> {p + 0x7C, p + 0x7D} \<and> (inode_has_hi fs \<longrightarrow> i \<notin> {p + 0x82, p + 0x83})"
  then show "ext4_inode_recompute_csum fs ino b p i = b i"
    by (auto simp: ext4_inode_recompute_csum_def Let_def)
next
  show "ext4_inode_recompute_csum fs ino (ext4_inode_recompute_csum fs ino b p) p =
      ext4_inode_recompute_csum fs ino b p"
    unfolding ext4_inode_recompute_csum_def [of fs ino "ext4_inode_recompute_csum fs ino b p"]
      inode_csum_recompute
    by (auto simp: ext4_inode_recompute_csum_def Let_def fun_eq_iff)
qed

theorem inode_csum_stored_witness:
  "let fs = sample_fs sample_image (sample_superblock\<lparr>s_feature_ro_compat := 0x400\<rparr>) sample_jbd in
   inode_csum_valid fs 12 (ext4_inode_recompute_csum fs 12 sample_image 256) 256 \<and>
   ext4_inode_recompute_csum fs 12 sample_image 256 100 = sample_image 100"
proof -
  let ?fs = "sample_fs sample_image (sample_superblock\<lparr>s_feature_ro_compat := 0x400\<rparr>) sample_jbd"
  have "metadata_csum ?fs" by (simp add: metadata_csum_def)
  from inode_csum_stored [OF this, of 12 sample_image 256 100] show ?thesis by (simp add: Let_def)
qed

section \<open>Extent trees\<close>

text \<open>In a leaf, \<open>ext4_extent_lookup\<close> maps a logical block by the first entry that covers
  it, to the entry's physical start plus the distance; a block no entry covers is a hole, and
  only such a block is reported as one.\<close>

theorem extent_leaf_maps:
  assumes "block_size fs \<le> 4096" "le16 node 0 = ext4_ext_magic" "le16 node 6 = 0"
  shows "(ext4_extent_lookup fs node l = Some (Inl (-2))) = (\<forall>i < node_entries node. \<not> leaf_maps node l i) \<and>
    (i < node_entries node \<and> leaf_maps node l i \<and> (\<forall>j<i. \<not> leaf_maps node l j) \<longrightarrow>
     ext4_extent_lookup fs node l = Some (Inr (leaf_phys node i + ucast (l - leaf_logical node i))))"
proof -
  have "ext4_extent_lookup fs node l = Some (leaf_lookup node l)"
    using assms by (simp add: ext4_extent_lookup_def extent_walk_leaf not_less [symmetric])
  then show ?thesis using leaf_lookup_miss leaf_lookup_hit by auto
qed

definition sample_root :: buf where
  "sample_root = put_le32 (put_le16 (put_le16 (put_le16 zero_buf 0 0xF30A) 2 1) 16 2) 20 10"

lemma sample_root_fields:
  "le16 sample_root 0 = ext4_ext_magic" "le16 sample_root 6 = 0" "node_entries sample_root = 1"
  "leaf_logical sample_root 0 = 0" "leaf_real_len sample_root 0 = 2" "leaf_phys sample_root 0 = 10"
  by (simp_all add: node_entries_def leaf_logical_def leaf_real_len_def leaf_phys_def ext_entry_def
      sample_root_def ext4_ext_magic_def put_le16_def put_le32_def le16_def le32_def)

theorem extent_leaf_maps_witness:
  "ext4_extent_lookup sample sample_root 1 = Some (Inr 11) \<and>
   ext4_extent_lookup sample sample_root 2 = Some (Inl (-2))"
proof -
  have b: "block_size sample \<le> 4096" by simp
  have m: "leaf_maps sample_root 1 0" "\<not> leaf_maps sample_root 2 0"
    by (simp_all add: leaf_maps_def sample_root_fields)
  show ?thesis
    using extent_leaf_maps [OF b sample_root_fields(1,2), of 1 0]
      extent_leaf_maps [OF b sample_root_fields(1,2), of 2 0] m
    by (simp add: sample_root_fields)
qed

text \<open>C29: An extent tree whose depth field goes down by one from each index node to its child
  is walked to an answer from the root, whatever else its blocks hold.\<close>

theorem extent_lookup_returns:
  assumes "depth_ok fs d root l"
  shows "\<exists>r. ext4_extent_lookup fs root l = Some r"
  using extent_walk_terminates [OF assms] by (auto simp: ext4_extent_lookup_def)

theorem extent_lookup_returns_witness: "\<exists>r. ext4_extent_lookup sample sample_root 7 = Some r"
  by (rule extent_lookup_returns [of _ 0]) (simp add: sample_root_fields)

text \<open>C30: An index node goes on to the child whose first block is the greatest one not above the
  block sought, and answers -3 when every child starts above it; an index node that is its own
  child is walked for ever (the walk checks neither depth nor visited blocks).\<close>

theorem extent_index_step:
  assumes "block_size fs \<le> 4096" "le16 node 0 = ext4_ext_magic" "le16 node 6 \<noteq> 0"
  shows "(index_lookup node l = None \<longrightarrow> ext4_extent_lookup fs node l = Some (Inl (-3)) \<and>
      (\<forall>i < node_entries node. l < le32 node (ext_entry i))) \<and>
    (index_lookup node l = Some c \<longrightarrow>
      (\<exists>i < node_entries node. c = index_child node i \<and> le32 node (ext_entry i) \<le> l \<and>
        (\<forall>j < node_entries node. le32 node (ext_entry j) \<le> l \<longrightarrow>
           le32 node (ext_entry j) \<le> le32 node (ext_entry i))) \<and>
      ext4_extent_lookup fs node l =
        (case ext4_fs_read_block fs c of
           Inl _ \<Rightarrow> Some (Inl (-5))
         | Inr child \<Rightarrow> if child = node then None else ext4_extent_lookup fs child l))"
proof (intro conjI impI)
  assume n: "index_lookup node l = None"
  then show "ext4_extent_lookup fs node l = Some (Inl (-3))"
    using assms by (simp add: ext4_extent_lookup_def extent_walk.simps [of fs node])
  show "\<forall>i < node_entries node. l < le32 node (ext_entry i)"
    using n index_lookup_None by blast
next
  assume c: "index_lookup node l = Some c"
  then show "\<exists>i < node_entries node. c = index_child node i \<and> le32 node (ext_entry i) \<le> l \<and>
        (\<forall>j < node_entries node. le32 node (ext_entry j) \<le> l \<longrightarrow>
           le32 node (ext_entry j) \<le> le32 node (ext_entry i))"
    by (rule index_lookup_Some)
  have nb: "\<not> 4096 < block_size fs" using assms(1) by (simp add: not_less)
  show "ext4_extent_lookup fs node l =
        (case ext4_fs_read_block fs c of
           Inl _ \<Rightarrow> Some (Inl (-5))
         | Inr child \<Rightarrow> if child = node then None else ext4_extent_lookup fs child l)"
  proof (cases "ext4_fs_read_block fs c")
    case (Inl e)
    with c assms nb show ?thesis by (simp add: ext4_extent_lookup_def extent_walk.simps [of fs node])
  next
    case (Inr child)
    show ?thesis
    proof (cases "child = node")
      case True
      with Inr c assms nb extent_walk_self_loop [of node l c fs] show ?thesis
        by (simp add: ext4_extent_lookup_def)
    next
      case False
      with Inr c assms nb show ?thesis
        by (simp add: ext4_extent_lookup_def extent_walk.simps [of fs node])
    qed
  qed
qed

definition sample_index :: buf where
  "sample_index = put_le16 (put_le16 zero_buf 0 0xF30A) 6 1"

theorem extent_index_step_witness: "ext4_extent_lookup sample sample_index 7 = Some (Inl (-3))"
proof -
  have b: "block_size sample \<le> 4096" by simp
  have f: "le16 sample_index 0 = ext4_ext_magic" "le16 sample_index 6 \<noteq> 0" "index_lookup sample_index 7 = None"
    by (simp_all add: sample_index_def ext4_ext_magic_def put_le16_def le16_def index_lookup_def
        node_entries_def)
  show ?thesis using extent_index_step [OF b f(1,2), of 7 0] f(3) by simp
qed

section \<open>Files\<close>

lemma ceil_div_bounds:
  fixes len bs :: nat
  assumes "0 < bs"
  shows "len \<le> (len + bs - 1) div bs * bs"
    "i < (len + bs - 1) div bs \<Longrightarrow> i * bs < len"
proof -
  have m: "(len + bs - 1) div bs * bs + (len + bs - 1) mod bs = len + bs - 1" by simp
  have r: "(len + bs - 1) mod bs < bs" using assms by simp
  show "len \<le> (len + bs - 1) div bs * bs" using m r assms by linarith
  assume "i < (len + bs - 1) div bs"
  then have "(i + 1) * bs \<le> (len + bs - 1) div bs * bs" by (intro mult_le_mono1) simp
  moreover have "(i + 1) * bs = i * bs + bs" by simp
  ultimately have "i * bs + bs \<le> len + bs - 1" using m by linarith
  then show "i * bs < len" using assms by linarith
qed

definition file_byte :: "'c ext4_fs \<Rightarrow> ext4_inode \<Rightarrow> nat \<Rightarrow> byte \<Rightarrow> bool" where
  "file_byte fs inode p v \<longleftrightarrow>
     (\<exists>blk. ext4_file_read_block fs inode (word_of_nat (p div bs_nat fs)) = Inr blk \<and>
        v = blk (p mod bs_nat fs))"

lemma read_head_loop_spec:
  assumes "read_head_loop fs inode len nb k out = Inr out'" "k \<le> nb" "0 < bs_nat fs"
    "nb = (len + bs_nat fs - 1) div bs_nat fs"
  shows "if (nb - k) * bs_nat fs \<le> p \<and> p < len then file_byte fs inode p (out' p) else out' p = out p"
  using assms
proof (induction k arbitrary: out)
  case 0
  with ceil_div_bounds(1) [of "bs_nat fs" len] show ?case by auto
next
  case (Suc k)
  let ?bs = "bs_nat fs"
  define i where "i = nb - Suc k"
  have i: "i < nb" "nb - k = Suc i" "nb - Suc k = i" using Suc.prems(2) by (auto simp: i_def)
  obtain blk where blk: "ext4_file_read_block fs inode (word_of_nat i) = Inr blk"
    using Suc.prems(1) by (auto simp: Let_def i_def split: sum.splits)
  define copy_len where "copy_len = (if i = nb - 1 then len - i * ?bs else ?bs)"
  define out1 where "out1 = copy_bytes out (i * ?bs) blk copy_len"
  have "read_head_loop fs inode len nb k out1 = Inr out'"
    using Suc.prems(1) blk by (simp add: Let_def i(3) out1_def copy_len_def split del: if_split)
  from Suc.IH [OF this _ Suc.prems(3,4)] Suc.prems(2)
  have ih: "if Suc i * ?bs \<le> p \<and> p < len then file_byte fs inode p (out' p) else out' p = out1 p"
    unfolding i(2) by simp
  have lt: "i * ?bs < len" using ceil_div_bounds(2) [OF Suc.prems(3)] i(1) Suc.prems(4) by simp
  have nx: "Suc i * ?bs < len" if "i \<noteq> nb - 1"
    using ceil_div_bounds(2) [OF Suc.prems(3), of "Suc i" len] i(1) that Suc.prems(4) by simp
  have up: "len \<le> Suc i * ?bs" if "i = nb - 1"
    using ceil_div_bounds(1) [OF Suc.prems(3), of len] i(1) that Suc.prems(4) by simp
  have cl: "p < i * ?bs + copy_len \<longleftrightarrow> p < len \<and> p < Suc i * ?bs"
    using lt nx up by (auto simp: copy_len_def)
  have dm: "p div ?bs = i \<and> p mod ?bs = p - i * ?bs" if "i * ?bs \<le> p" "p < Suc i * ?bs"
  proof -
    have "p div ?bs = i" using that Suc.prems(3) by (intro div_nat_eqI) (simp_all add: mult.commute)
    then show ?thesis by (simp add: minus_div_mult_eq_mod [symmetric])
  qed
  have o1: "out1 p = (if i * ?bs \<le> p \<and> p < len \<and> p < Suc i * ?bs then blk (p - i * ?bs) else out p)"
    using cl by (simp add: out1_def copy_bytes_def)
  show ?case
  proof (cases "i * ?bs \<le> p \<and> p < len \<and> p < Suc i * ?bs")
    case True
    then have "out' p = blk (p - i * ?bs)" using ih o1 by simp
    with True dm blk show ?thesis by (auto simp: file_byte_def i(3))
  next
    case False
    show ?thesis
    proof (cases "Suc i * ?bs \<le> p \<and> p < len")
      case True
      then have "i * ?bs \<le> p" by simp
      with True ih show ?thesis by (simp add: i(3))
    next
      case F: False
      have "out' p = out1 p" using ih F by presburger
      moreover have "out1 p = out p" using o1 False by presburger
      ultimately have "out' p = out p" by simp
      moreover have "\<not> (i * ?bs \<le> p \<and> p < len)" using False F by auto
      ultimately show ?thesis unfolding i(3) by presburger
    qed
  qed
qed

text \<open>\<open>ext4_file_read_head\<close> delivers the first bytes of the file, as many as asked for and
  at most its size: byte p of the result is byte p of the file (byte p mod block size of file
  block p div block size), and the caller's buffer is untouched beyond them.\<close>

theorem read_head_bytes:
  assumes "ext4_file_read_head fs inode len out = Inr (n, out')" "0 < bs_nat fs"
    "unat len + bs_nat fs \<le> 2 ^ 32"
  shows "n = min (unat len) (unat (i_size inode)) \<and>
    (p < n \<longrightarrow> file_byte fs inode p (out' p)) \<and> (n \<le> p \<longrightarrow> out' p = out p)"
proof -
  define len' :: u32 where "len' = (if i_size inode < ucast len then ucast (i_size inode) else len)"
  have l: "unat len' = min (unat len) (unat (i_size inode))"
  proof (cases "i_size inode < ucast len")
    case True
    then have "unat (i_size inode) < unat len" by (simp add: word_less_nat_alt)
    moreover have "unat len < 2 ^ 32" using unsigned_less [of len] by simp
    ultimately show ?thesis using True by (simp add: len'_def unat_ucast_64_32)
  next
    case False
    then have "unat len \<le> unat (i_size inode)" by (simp add: word_less_nat_alt not_less)
    with False show ?thesis by (simp add: len'_def)
  qed
  define nb where "nb = unat ((len' + block_size fs - 1) div block_size fs)"
  have "read_head_loop fs inode (unat len') nb nb out = Inr out'" and n: "n = unat len'"
    using assms(1)
    by (auto simp: ext4_file_read_head_def Let_def len'_def [symmetric] nb_def split: if_splits sum.splits)
  moreover have "nb = (unat len' + bs_nat fs - 1) div bs_nat fs"
  proof (cases "unat len' + bs_nat fs < 2 ^ 32")
    case True
    then have "unat (len' + block_size fs) = unat len' + bs_nat fs" by (intro unat_add_small) simp
    moreover have "1 \<le> len' + block_size fs"
      using calculation assms(2) by (simp add: word_le_nat_alt)
    ultimately have "unat (len' + block_size fs - 1) = unat len' + bs_nat fs - 1"
      by (simp add: unat_sub)
    then show ?thesis by (simp add: nb_def unat_div_distrib)
  next
    case False
    then have e: "unat len' + bs_nat fs = 2 ^ 32" using assms(3) l by linarith
    then have "len' + block_size fs = 0"
      by (simp add: word_unat_eq_iff unat_word_ariths)
    moreover have "unat (- 1 :: u32) = 2 ^ 32 - 1"
      by (simp add: unsigned_minus_1_eq_mask mask_eq_exp_minus_1)
    ultimately show ?thesis using e by (simp add: nb_def unat_div_distrib)
  qed
  ultimately show ?thesis
    using read_head_loop_spec [of fs inode "unat len'" nb nb out out' p] assms(2) l
    by (auto split: if_splits)
qed

lemma sample_read_root:
  "ext4_file_read_block sample \<lparr>i_mode = m, i_size = sz, i_flags = f, i_mtime = t, i_block = sample_root\<rparr> 0
     = Inr (disk sample 10)"
proof -
  have m: "leaf_maps sample_root 0 0"
    by (simp add: leaf_maps_def sample_root_fields)
  have "ext4_extent_lookup sample sample_root 0 = Some (Inr 10)"
    using leaf_lookup_hit [of 0 sample_root 0] m
    by (simp add: ext4_extent_lookup_def extent_walk_leaf sample_root_fields)
  moreover have "ext4_fs_read_block sample 10 = Inr (disk sample 10)"
    using sample_read [of sample_superblock sample_image 10 sample_jbd]
    by (simp add: sample_image_0 sample_disk)
  ultimately show ?thesis
    by (simp add: ext4_file_read_block_def extent_lookup_res_def)
qed

theorem read_head_bytes_witness:
  "let inode = \<lparr>i_mode = 0x8000, i_size = 5, i_flags = 0x80000, i_mtime = 0, i_block = sample_root\<rparr>;
       r = ext4_file_read_head sample inode 100 (\<lambda>_. 7) in
   \<exists>out. r = Inr (5, out) \<and> file_byte sample inode 3 (out 3) \<and> out 5 = 7"
proof -
  let ?i = "\<lparr>i_mode = 0x8000, i_size = 5, i_flags = 0x80000, i_mtime = 0, i_block = sample_root\<rparr> :: ext4_inode"
  have l: "read_head_loop sample ?i 5 1 1 out = Inr (copy_bytes out 0 (disk sample 10) 5)" for out
    by (simp add: sample_read_root)
  have c: "(if i_size ?i < ucast (100 :: u32) then ucast (i_size ?i) else 100) = (5 :: u32)"
    "\<not> 4096 < block_size sample" "unat ((5 + block_size sample - 1) div block_size sample) = 1"
    "unat (5 :: u32) = 5"
    by simp_all
  have r: "ext4_file_read_head sample ?i 100 (\<lambda>_. 7) = Inr (5, copy_bytes (\<lambda>_. 7) 0 (disk sample 10) 5)"
    unfolding ext4_file_read_head_def c Let_def l by simp
  have b: "0 < bs_nat sample" "unat (100 :: u32) + bs_nat sample \<le> 2 ^ 32" by simp_all
  note h = read_head_bytes [OF r b]
  have "file_byte sample ?i 3 (copy_bytes (\<lambda>_. 7) 0 (disk sample 10) 5 3)"
    using h [of 3] by (simp only: simp_thms) simp
  moreover have "copy_bytes (\<lambda>_. 7) 0 (disk sample 10) 5 5 = 7" by (simp add: copy_bytes_def)
  ultimately show ?thesis using r unfolding Let_def by blast
qed

section \<open>Directories and paths\<close>

text \<open>C31: Looking a name of 1 to 255 bytes up in a directory gives the inode number of the first
  live entry, over all its blocks in order, that has exactly this name, and 0 when there is none
  (the entries of blocks after an unreadable one do not count); other names give 0.\<close>

theorem dir_lookup_finds_first:
  assumes "block_size fs \<le> 4096"
  shows "ext4_dir_lookup fs dir name =
    (if length name = 0 \<or> 255 < length name then 0
     else case find (\<lambda>e. unat (de_name_len e) = length name \<and> de_name e = name)
            (dir_listing fs dir (dir_block_numbers fs dir)) of
       None \<Rightarrow> 0 | Some e \<Rightarrow> de_inode e)"
proof (cases "length name = 0 \<or> 255 < length name")
  case True
  then show ?thesis by (simp add: ext4_dir_lookup_def)
next
  case False
  then show ?thesis using ext4_dir_lookup_listing [OF _ _ assms] by (simp add: not_less)
qed

definition sample_dir :: ext4_inode where
  "sample_dir = \<lparr>i_mode = 0x4000, i_size = 1024, i_flags = 0x80000, i_mtime = 0, i_block = sample_root\<rparr>"

text \<open>One entry, \<open>a\<close>, for inode 12, over the whole of block 10.\<close>

definition sample_dir_image :: buf where
  "sample_dir_image = zero_buf(10240 := 12, 10245 := 4, 10246 := 1, 10247 := 1, 10248 := 97)"

abbreviation sample_dir_fs :: "file_ctx ext4_fs" where
  "sample_dir_fs \<equiv> sample_fs sample_dir_image sample_superblock sample_jbd"

text \<open>Any volume with these bytes in block 10 shows this entry.\<close>

lemma block10_listing:
  assumes "ext4_fs_read_block fs = ext4_fs_read_block (sample_fs img sample_superblock sample_jbd)" "fs_sb fs = sample_superblock"
    "\<And>i. 65536 \<le> i \<Longrightarrow> img i = 0" "\<And>i. i < 1024 \<Longrightarrow> img (10240 + i) = sample_dir_image (10240 + i)"
  shows "dir_listing fs sample_dir (dir_block_numbers fs sample_dir)
     = [\<lparr>de_inode = 12, de_file_type = 1, de_name_len = 1, de_name = [97]\<rparr>]"
proof -
  let ?b = "trunc 1024 (at sample_dir_image 10240)"
  have t: "trunc 1024 (at img 10240) = ?b" using assms(4) by (auto simp: trunc_def)
  have m: "leaf_maps sample_root 0 0" by (simp add: leaf_maps_def sample_root_fields)
  have "ext4_extent_lookup fs sample_root 0 = Some (Inr 10)"
    using leaf_lookup_hit [of 0 sample_root 0] m assms(2)
    by (simp add: ext4_extent_lookup_def extent_walk_leaf sample_root_fields)
  moreover have "ext4_fs_read_block fs 10 = Inr ?b"
    using sample_read [of sample_superblock img 10 sample_jbd] assms(1,3) t by simp
  ultimately have r: "ext4_file_read_block fs sample_dir 0 = Inr ?b"
    by (simp add: ext4_file_read_block_def extent_lookup_res_def sample_dir_def)
  have n: "dir_block_numbers fs sample_dir = [0]"
    using assms(2) by (simp add: dir_block_numbers_def dir_block_count_def sample_dir_def)
  have rl: "rec_len_at ?b 0 = 1024" "ino_at ?b 0 = 12" "name_len_at ?b 0 = 1"
    by (simp_all add: rec_len_at_def ino_at_def name_len_at_def le16_def le32_def sample_dir_image_def)
  have e: "entry_at ?b 0 = \<lparr>de_inode = 12, de_file_type = 1, de_name_len = 1, de_name = [97]\<rparr>"
    by (simp add: entry_at_def rl) (simp add: sample_dir_image_def bytes_of_def)
  have "dir_entries ?b 1024 1024 = []" by (simp add: dir_entries.simps rec_ok_def)
  then have "dir_entries ?b 1024 0 = [\<lparr>de_inode = 12, de_file_type = 1, de_name_len = 1, de_name = [97]\<rparr>]"
    by (simp add: dir_entries.simps [of ?b 1024 0] rec_ok_def entry_live_def rl e)
  then show ?thesis using assms(2) by (simp add: n r)
qed

lemma sample_dir_listing:
  "dir_listing sample_dir_fs sample_dir (dir_block_numbers sample_dir_fs sample_dir)
     = [\<lparr>de_inode = 12, de_file_type = 1, de_name_len = 1, de_name = [97]\<rparr>]"
  by (rule block10_listing [of _ sample_dir_image]) (simp_all add: sample_dir_image_def)

theorem dir_lookup_finds_first_witness:
  "ext4_dir_lookup sample_dir_fs sample_dir [97] = 12 \<and> ext4_dir_lookup sample_dir_fs sample_dir [98] = 0"
proof -
  have b: "block_size sample_dir_fs \<le> 4096" by simp
  show ?thesis unfolding dir_lookup_finds_first [OF b] sample_dir_listing by simp
qed

text \<open>The same directory as the root of a volume: its inode 2 is in block 0, behind a group descriptor
  of zeros.\<close>

definition root_image :: buf where
  "root_image = sample_dir_image(129 := 0x40, 133 := 4, 162 := 8, 168 := 0x0A, 169 := 0xF3, 170 := 1, 184 := 2, 188 := 10)"

abbreviation root_fs :: "file_ctx ext4_fs" where
  "root_fs \<equiv> sample_fs root_image sample_superblock sample_jbd"

lemma root_fs_read: "unat blk < 64 \<Longrightarrow> ext4_fs_read_block root_fs blk = Inr (trunc 1024 (at root_image (unat blk * 1024)))"
  by (rule sample_read) (simp_all add: root_image_def sample_dir_image_def)

lemma root_parse: "inode_parse (at (trunc 1024 (at root_image 0)) 128) = sample_dir"
proof -
  let ?raw = "at (trunc 1024 (at root_image 0)) 128"
  have b: "copy_bytes zero_buf 0 (at ?raw 40) 60 i = sample_root i" for i
    by (simp add: copy_bytes_def trunc_def root_image_def sample_dir_image_def sample_root_def put_le16_def put_le32_def)
  then have "copy_bytes zero_buf 0 (at ?raw 40) 60 = sample_root" by (rule ext)
  then show ?thesis
    by (simp add: inode_parse_def sample_dir_def le16_def le32_def) (simp add: root_image_def sample_dir_image_def)
qed

lemma root_inode_read:
  obtains fs where "ext4_inode_read 2 root_fs = (Inr sample_dir, fs)" "same_but_bgd root_fs fs"
proof -
  let ?b = "trunc 1024 (at root_image 2048)"
  let ?fs = "root_fs\<lparr>fs_bgd_buf := ?b, fs_bgd_cached_block := 2\<rparr>"
  have g: "ext4_fs_bgd_get 0 root_fs = (Some (at ?b 0), ?fs)"
    using root_fs_read [of 2]
    by (simp add: ext4_fs_bgd_get_def bgd_byte_in_partition_def fs_group_count_def ext4_fs_bgd_invalid_def Let_def)
  have "le32 (at ?b 0) 8 = 0" by (simp add: le32_def root_image_def sample_dir_image_def)
  then have pl: "inode_place ?fs 2 (at ?b 0) = (0, 128)"
    by (simp add: inode_place_def bgd_block_def bgd_wide_def inode_byte_in_table_def ino_index_def)
  have s: "same_but_bgd root_fs ?fs" by (simp add: same_but_bgd_def)
  have "ext4_fs_read_block ?fs 0 = Inr (trunc 1024 (at root_image 0))"
    using root_fs_read [of 0] by (simp add: same_but_bgd_read [OF s])
  then have "ext4_inode_read 2 root_fs = (Inr sample_dir, ?fs)"
    using g pl root_parse
    by (simp add: ext4_inode_read_def bindE_def orE_def bgd_get_checked_def ino_group_def fs_read_block_def)
  then show ?thesis using s by (rule that)
qed

lemma root_listing:
  "same_but_bgd root_fs fs \<Longrightarrow> dir_listing fs sample_dir (dir_block_numbers fs sample_dir)
     = [\<lparr>de_inode = 12, de_file_type = 1, de_name_len = 1, de_name = [97]\<rparr>]"
  by (rule block10_listing [of _ root_image])
    (simp_all add: same_but_bgd_raw_read same_but_bgd_fields root_image_def sample_dir_image_def)

text \<open>The segments of a path, and resolving them one after the other.\<close>

fun split_slash :: "byte list \<Rightarrow> byte list list" where
  "split_slash [] = [[]]"
| "split_slash (c # cs) =
     (if c = slash then [] # split_slash cs
      else case split_slash cs of [] \<Rightarrow> [[c]] | s # ss \<Rightarrow> (c # s) # ss)"

definition path_segments :: "byte list \<Rightarrow> byte list list" where
  "path_segments p = filter (\<lambda>s. s \<noteq> []) (split_slash p)"

fun resolve :: "u32 \<Rightarrow> byte list list \<Rightarrow> 'c ext4_fs \<Rightarrow> u32 \<times> 'c ext4_fs" where
  "resolve cur [] fs = (cur, fs)"
| "resolve cur (seg # segs) fs =
     (if 255 < length seg then (0, fs)
      else case ext4_inode_read cur fs of
        (Inl _, fs) \<Rightarrow> (0, fs)
      | (Inr inode, fs) \<Rightarrow>
          let child = (if i_mode inode AND ext4_s_ifmt = ext4_s_ifdir then ext4_dir_lookup fs inode seg else 0)
          in if child = 0 then (0, fs) else resolve child segs fs)"

lemma split_slash_span:
  "split_slash p = takeWhile (\<lambda>c. c \<noteq> slash) p #
     (case dropWhile (\<lambda>c. c \<noteq> slash) p of [] \<Rightarrow> [] | _ # cs \<Rightarrow> split_slash cs)"
  by (induction p) auto

lemma path_segments_skip: "path_segments (skip_slashes p) = path_segments p"
  by (induction p) (auto simp: path_segments_def)

lemma path_segments_step:
  assumes "p \<noteq> []" "hd p \<noteq> slash"
  shows "path_segments p = takeWhile (\<lambda>c. c \<noteq> slash) p # path_segments (skip_slashes (dropWhile (\<lambda>c. c \<noteq> slash) p))"
proof -
  have ne: "takeWhile (\<lambda>c. c \<noteq> slash) p \<noteq> []" using assms by (cases p) auto
  have "path_segments (dropWhile (\<lambda>c. c \<noteq> slash) p) =
      filter (\<lambda>s. s \<noteq> []) (case dropWhile (\<lambda>c. c \<noteq> slash) p of [] \<Rightarrow> [] | _ # cs \<Rightarrow> split_slash cs)"
  proof (cases "dropWhile (\<lambda>c. c \<noteq> slash) p")
    case Nil
    show ?thesis unfolding path_segments_def Nil by simp
  next
    case (Cons c cs)
    then have "c = slash" by (metis (mono_tags, lifting) dropWhile_eq_Cons_conv)
    with Cons show ?thesis by (simp add: path_segments_def)
  qed
  then show ?thesis
    using ne by (simp add: path_segments_skip) (simp add: path_segments_def split_slash_span [of p])
qed

lemma path_walk_resolve:
  assumes "p = [] \<or> hd p \<noteq> slash"
  shows "path_walk cur p fs = resolve cur (path_segments p) fs"
  using assms
proof (induction cur p fs rule: path_walk.induct)
  case (1 cur p fs)
  show ?case
  proof (cases "p = []")
    case True
    then show ?thesis by (simp add: path_walk.simps path_segments_def)
  next
    case False
    let ?seg = "takeWhile (\<lambda>c. c \<noteq> slash) p" and ?rest = "skip_slashes (dropWhile (\<lambda>c. c \<noteq> slash) p)"
    have seg: "?seg \<noteq> []" using False "1.prems" by (cases p) auto
    have hd: "?rest = [] \<or> hd ?rest \<noteq> slash" using hd_dropWhile by blast
    note ps = path_segments_step [OF False] 
    obtain r fs1 where ir: "ext4_inode_read cur fs = (r, fs1)" by fastforce
    show ?thesis
    proof (cases "256 \<le> length ?seg")
      case True
      with False seg ps "1.prems" show ?thesis by (simp add: path_walk.simps [of cur p fs] Let_def)
    next
      case len: False
      show ?thesis
      proof (cases r)
        case (Inl e)
        with False seg ps "1.prems" len ir show ?thesis by (simp add: path_walk.simps [of cur p fs] Let_def)
      next
        case (Inr inode)
        show ?thesis
        proof (cases "i_mode inode AND ext4_s_ifmt \<noteq> ext4_s_ifdir \<or> ext4_dir_lookup fs1 inode ?seg = 0")
          case True
          with False seg ps "1.prems" len ir Inr show ?thesis
            by (auto simp: path_walk.simps [of cur p fs] Let_def)
        next
          case go: False
          have "path_walk (ext4_dir_lookup fs1 inode ?seg) ?rest fs1 =
              resolve (ext4_dir_lookup fs1 inode ?seg) (path_segments ?rest) fs1"
            using "1.IH" [OF False refl refl seg len ir [symmetric] Inr _ refl _ hd] go by simp
          with False seg ps "1.prems" len ir Inr go show ?thesis
            by (simp add: path_walk.simps [of cur p fs] Let_def)
        qed
      qed
    qed
  qed
qed

text \<open>Resolving a path is resolving its non-empty segments one after the other from the root
  inode 2, each in the directory found so far: repeated, leading and trailing slashes do not
  matter, and a segment that is too long, a non-directory on the way, an unreadable inode or an
  unknown name gives 0.\<close>

theorem path_lookup_by_segments:
  "ext4_path_lookup path fs = resolve 2 (path_segments path) fs"
proof -
  have "skip_slashes path = [] \<or> hd (skip_slashes path) \<noteq> slash" using hd_dropWhile by blast
  then show ?thesis
    by (simp add: ext4_path_lookup_def path_walk_resolve path_segments_skip)
qed

section \<open>The hash index\<close>

text \<open>C32: When \<open>ext4_htree_find_leaf\<close> succeeds on an index root, the index has one level, its
  entries lie in the block, and the leaf it gives is that of the entry whose hash range holds the
  name's hash: every entry up to it has a hash not above the name's, the next one is above.\<close>

theorem htree_leaf_in_range:
  assumes "htree_leaf_of fs seed root name = Inr leaf"
  shows "\<exists>h j. ext4_htree_hash_name (root 0x1C) seed name = Inr h \<and> root 0x1E = 0 \<and>
    unat (le16 root 0x22) * 8 + 0x20 \<le> bs_nat fs \<and> j < unat (le16 root 0x22) \<and>
    leaf = dx_block root j \<and> (\<forall>m. 0 < m \<and> m \<le> j \<longrightarrow> dx_hash root m \<le> h) \<and>
    (j + 1 < unat (le16 root 0x22) \<longrightarrow> h < dx_hash root (j + 1))"
proof -
  let ?count = "unat (le16 root 0x22)"
  have c: "\<not> 0 < root 0x1E" "?count \<noteq> 0" "?count * 8 + 0x20 \<le> bs_nat fs"
    using assms by (auto simp: htree_leaf_of_def Let_def split: if_splits)
  obtain h where h: "ext4_htree_hash_name (root 0x1C) seed name = Inr h"
    "leaf = dx_scan root h 1 (?count - 1) (dx_block root 0)"
    using assms by (auto simp: htree_leaf_of_def Let_def split: if_splits sum.splits)
  obtain j where j: "1 \<le> j" "j \<le> 1 + (?count - 1)" "\<forall>m. 1 \<le> m \<and> m < j \<longrightarrow> dx_hash root m \<le> h"
    "j < 1 + (?count - 1) \<longrightarrow> h < dx_hash root j"
    "leaf = (if j = 1 then dx_block root 0 else dx_block root (j - 1))"
    using dx_scan_spec [of 1 "?count - 1" root h "dx_block root 0"] h(2) by blast
  have "root 0x1E = 0" using c(1) by (simp add: word_gt_0)
  moreover have "leaf = dx_block root (j - 1)" using j(1,5) by auto
  moreover have "\<forall>m. 0 < m \<and> m \<le> j - 1 \<longrightarrow> dx_hash root m \<le> h" using j(1,3) by auto
  moreover have "j - 1 + 1 < ?count \<longrightarrow> h < dx_hash root (j - 1 + 1)" using j(1,4) c(2) by auto
  moreover have "j - 1 < ?count" using j(1,2) c(2) by linarith
  ultimately show ?thesis using h(1) c(3) by blast
qed

definition sample_dx_root :: buf where
  "sample_dx_root = zero_buf(0x1C := 1, 0x22 := 1, 0x24 := 9)"

theorem htree_leaf_in_range_witness:
  "\<exists>leaf. htree_leaf_of sample (0, 0, 0, 0) sample_dx_root [97] = Inr leaf \<and> leaf = dx_block sample_dx_root 0"
proof -
  have f: "sample_dx_root 0x1C = 1" "sample_dx_root 0x1E = 0" "unat (le16 sample_dx_root 0x22) = 1"
    by (simp_all add: sample_dx_root_def le16_def)
  obtain h where "ext4_htree_hash_name 1 (0, 0, 0, 0) [97] = Inr h"
    by (cases "hash_chunks False [97] (hash_iv (0, 0, 0, 0))")
      (auto simp: ext4_htree_hash_name_def hash_variant_def hash_half_md4_def hash_half_md4_unsigned_def
        hash_tea_unsigned_def hash_legacy_unsigned_def)
  then obtain leaf where r: "htree_leaf_of sample (0, 0, 0, 0) sample_dx_root [97] = Inr leaf"
    by (simp add: htree_leaf_of_def f)
  from htree_leaf_in_range [OF r] f(3) r show ?thesis by auto
qed

lemma prep_hashbuf_length:
  assumes "unat slen = length p" "0 \<le> dlen" "dlen mod 4 = 0"
  shows "length (prep_hashbuf p slen dlen uc) = nat (dlen div 4)"
proof -
  define consume where "consume = (if dlen < int (unat slen) then nat dlen else unat slen)"
  obtain dst dl v where l: "prep_loop uc (hash_padding slen) (take consume p) 0 ([], dlen, hash_padding slen) = (dst, dl, v)"
    by (cases "prep_loop uc (hash_padding slen) (take consume p) 0 ([], dlen, hash_padding slen)") auto
  have "int (0 mod 4 + length (take consume p)) \<le> dlen"
    using assms by (simp add: consume_def)
  from prep_loop_count [OF l assms(2) this] have c: "int (length dst) * 4 + dl = dlen" "0 \<le> dl" by simp_all
  have "length (prep_hashbuf p slen dlen uc) =
      (if 4 \<le> dl then Suc (length dst) + nat ((dl - 4) div 4) else length dst + nat (dl div 4))"
    unfolding prep_hashbuf_def Let_def consume_def [symmetric] l by simp
  also have "\<dots> = length dst + nat (dl div 4)"
    using c(2) by (auto simp: div_pos_pos_trivial)
  also have "\<dots> = nat (dlen div 4)"
    using c by (simp add: nat_add_distrib c(1) [symmetric])
  finally show ?thesis .
qed

lemma hash_finish_range: "even (hash_finish m)" "hash_finish m \<noteq> 0xFFFFFFFE"
proof -
  have e: "\<not> bit (m AND NOT 1) 0" by (simp add: bit_simps)
  show "even (hash_finish m)"
    using e by (auto simp: hash_finish_def Let_def bit_0)
  show "hash_finish m \<noteq> 0xFFFFFFFE"
    by (auto simp: hash_finish_def Let_def)
qed

text \<open>The name hash is total on non-empty names for the half-MD4 variants, always even and
  never the end-of-file mark 0xFFFFFFFE, and every chunk is packed into exactly the eight words of
  the caller's array, whatever the length of the name.\<close>

theorem htree_hash_well_formed:
  assumes "v = hash_half_md4 \<or> v = hash_half_md4_unsigned" "name \<noteq> []" "length p < 2 ^ 32"
  shows "(\<exists>h. ext4_htree_hash_name v seed name = Inr h \<and> even h \<and> h \<noteq> 0xFFFFFFFE) \<and>
    length (prep_hashbuf p (word_of_nat (length p)) 32 uc) = 8"
proof
  obtain h0 h1 h2 h3 where h: "hash_chunks (fst (hash_variant v)) name (hash_iv seed) = (h0, h1, h2, h3)"
    by (cases "hash_chunks (fst (hash_variant v)) name (hash_iv seed)") auto
  have "ext4_htree_hash_name v seed name = Inr (hash_finish h1)"
    using assms(1,2) h
    by (auto simp: ext4_htree_hash_name_def hash_variant_def hash_half_md4_def hash_half_md4_unsigned_def
        hash_tea_unsigned_def hash_legacy_unsigned_def)
  then show "\<exists>h. ext4_htree_hash_name v seed name = Inr h \<and> even h \<and> h \<noteq> 0xFFFFFFFE"
    using hash_finish_range by blast
  have "unat (word_of_nat (length p) :: u32) = length p"
    using assms(3) by (simp add: unsigned_of_nat take_bit_nat_eq_self)
  then show "length (prep_hashbuf p (word_of_nat (length p)) 32 uc) = 8"
    by (subst prep_hashbuf_length) simp_all
qed

theorem htree_hash_well_formed_witness:
  "(\<exists>h. ext4_htree_hash_name 1 (0, 0, 0, 0) [97] = Inr h \<and> even h \<and> h \<noteq> 0xFFFFFFFE) \<and>
   length (prep_hashbuf [97, 98, 99, 100, 101] 5 32 True) = 8"
  using htree_hash_well_formed [of 1 "[97]" "[97, 98, 99, 100, 101]" "(0, 0, 0, 0)" True]
  by (simp add: hash_half_md4_def)

end
