(* ===== verification/DirUpdates.thy ===== *)
theory DirUpdates
  imports Reading DirOps
begin

text \<open>
  What the directory operations do to a whole directory block, checksum record included: adding
  a name, taking one out, the block of a new directory, and the test for an empty one.
\<close>

section \<open>The record area of a block\<close>

text \<open>The records fill the block, but for the last twelve bytes on a volume with metadata
  checksums, which are the checksum record.\<close>

definition dir_area :: "'c ext4_fs \<Rightarrow> nat" where
  "dir_area fs = bs_nat fs - (if metadata_csum fs then 12 else 0)"

definition dir_block_ok :: "'c ext4_fs \<Rightarrow> buf \<Rightarrow> bool" where
  "dir_block_ok fs blk \<longleftrightarrow> 24 \<le> bs_nat fs \<and> bs_nat fs \<le> 4096 \<and> dir_wf blk (dir_area fs) 0 \<and>
     (metadata_csum fs \<longrightarrow> is_csum_tail blk (bs_nat fs - 12))"

definition dir_names :: "'c ext4_fs \<Rightarrow> buf \<Rightarrow> ext4_dir_entry list" where
  "dir_names fs blk = dir_entries blk (bs_nat fs) 0"

text \<open>The checksum record holds the checksum of the bytes before it.\<close>

definition dir_csum_valid :: "'c ext4_fs \<Rightarrow> u32 \<Rightarrow> u32 \<Rightarrow> buf \<Rightarrow> bool" where
  "dir_csum_valid fs ino gen blk \<longleftrightarrow>
     (metadata_csum fs \<longrightarrow> le32 blk (bs_nat fs - 4) = dir_block_csum fs ino gen blk)"

lemma tail_ok: "is_csum_tail blk m \<Longrightarrow> rec_ok blk (m + 12) m \<and> \<not> rec_ok blk (m + 12) (m + 12) \<and> \<not> rec_ok blk m m"
  by (auto simp: rec_ok_def is_csum_tail_def)

lemma area_ok: "rec_good blk m off \<Longrightarrow> rec_ok blk m off \<and> rec_ok blk (m + 12) off"
  by (auto simp: rec_good_def rec_ok_def)

lemma area_entries:
  "dir_wf blk m off \<Longrightarrow> is_csum_tail blk m \<Longrightarrow> dir_entries blk (m + 12) off = dir_entries blk m off"
proof (induction blk m off rule: dir_wf.induct)
  case (1 blk m off)
  show ?case
  proof (cases "off = m")
    case True
    have "rec_len_at blk m = 12" using "1.prems" by (simp add: is_csum_tail_def)
    with True tail_ok [OF "1.prems"(2)] not_live_tail [OF "1.prems"(2)] show ?thesis
      by (simp add: dir_entries.simps [of blk "m + 12" m] dir_entries.simps [of blk m m]
          dir_entries.simps [of blk "m + 12" "m + 12"])
  next
    case False
    with "1.prems" have g: "rec_good blk m off" "dir_wf blk m (off + rec_len_at blk off)"
      by (auto simp: dir_wf.simps [of blk m off] split: if_splits)
    show ?thesis
      using "1.IH" [OF False g(1) g(2) "1.prems"(2)] area_ok [OF g(1)]
      by (simp add: dir_entries.simps [of blk "m + 12" off] dir_entries.simps [of blk m off])
  qed
qed

lemma area_find_slot:
  "dir_wf blk m off \<Longrightarrow> is_csum_tail blk m \<Longrightarrow>
   dir_find_slot_from blk (m + 12) need off = dir_find_slot_from blk m need off"
proof (induction blk m off rule: dir_wf.induct)
  case (1 blk m off)
  show ?case
  proof (cases "off = m")
    case True
    have "rec_len_at blk m = 12" using "1.prems" by (simp add: is_csum_tail_def)
    note tl = tail_ok [OF "1.prems"(2)]
    have "dir_find_slot_from blk (m + 12) need (m + 12) = None" "dir_find_slot_from blk m need m = None"
      by (subst dir_find_slot_from.simps; simp add: tl)+
    moreover have "dir_find_slot_from blk (m + 12) need m = dir_find_slot_from blk (m + 12) need (m + 12)"
      by (subst dir_find_slot_from.simps) (simp add: tl "1.prems"(2) \<open>rec_len_at blk m = 12\<close>)
    ultimately show ?thesis by (simp add: True)
  next
    case False
    with "1.prems" have g: "rec_good blk m off" "dir_wf blk m (off + rec_len_at blk off)"
      by (auto simp: dir_wf.simps [of blk m off] split: if_splits)
    show ?thesis
      using "1.IH" [OF False g(1) g(2) "1.prems"(2)] area_ok [OF g(1)]
      by (simp add: dir_find_slot_from.simps [of blk "m + 12" need off] dir_find_slot_from.simps [of blk m need off] Let_def)
  qed
qed

lemma area_find_entry:
  "dir_wf blk m off \<Longrightarrow> is_csum_tail blk m \<Longrightarrow>
   dir_find_entry_from blk (m + 12) t prev off = dir_find_entry_from blk m t prev off"
proof (induction blk m off arbitrary: prev rule: dir_wf.induct)
  case (1 blk m off)
  show ?case
  proof (cases "off = m")
    case True
    have "rec_len_at blk m = 12" using "1.prems" by (simp add: is_csum_tail_def)
    note tl = tail_ok [OF "1.prems"(2)]
    have "dir_find_entry_from blk (m + 12) t prev (m + 12) = None" "dir_find_entry_from blk m t prev m = None"
      by (subst dir_find_entry_from.simps; simp add: tl)+
    moreover have "dir_find_entry_from blk (m + 12) t prev m = dir_find_entry_from blk (m + 12) t prev (m + 12)"
      by (subst dir_find_entry_from.simps) (simp add: tl "1.prems"(2) \<open>rec_len_at blk m = 12\<close>)
    ultimately show ?thesis by (simp add: True)
  next
    case False
    with "1.prems" have g: "rec_good blk m off" "dir_wf blk m (off + rec_len_at blk off)"
      by (auto simp: dir_wf.simps [of blk m off] split: if_splits)
    show ?thesis
      using "1.IH" [OF False g(1) g(2) "1.prems"(2)] area_ok [OF g(1)]
      by (simp add: dir_find_entry_from.simps [of blk "m + 12" t prev off] dir_find_entry_from.simps [of blk m t prev off])
  qed
qed

text \<open>The three walks over the block are walks over its record area.\<close>

lemma block_area:
  assumes "dir_block_ok fs blk"
  shows "dir_wf blk (dir_area fs) 0" "dir_names fs blk = dir_entries blk (dir_area fs) 0"
    "dir_find_slot_for_entry blk (bs_nat fs) need = dir_find_slot_from blk (dir_area fs) need 0"
    "dir_find_entry_by_inode blk (bs_nat fs) t = dir_find_entry_from blk (dir_area fs) t None 0"
    "dir_area fs \<le> 4096"
proof -
  have w: "dir_wf blk (dir_area fs) 0" and b: "24 \<le> bs_nat fs" "bs_nat fs \<le> 4096"
    using assms by (auto simp: dir_block_ok_def)
  show "dir_wf blk (dir_area fs) 0" by (rule w)
  show "dir_area fs \<le> 4096" using b by (simp add: dir_area_def)
  show "dir_names fs blk = dir_entries blk (dir_area fs) 0"
    "dir_find_slot_for_entry blk (bs_nat fs) need = dir_find_slot_from blk (dir_area fs) need 0"
    "dir_find_entry_by_inode blk (bs_nat fs) t = dir_find_entry_from blk (dir_area fs) t None 0"
  proof (atomize (full), cases "metadata_csum fs")
    case True
    then have e: "bs_nat fs = dir_area fs + 12" "is_csum_tail blk (dir_area fs)"
      using assms b by (auto simp: dir_area_def dir_block_ok_def)
    show "dir_names fs blk = dir_entries blk (dir_area fs) 0 \<and>
      dir_find_slot_for_entry blk (bs_nat fs) need = dir_find_slot_from blk (dir_area fs) need 0 \<and>
      dir_find_entry_by_inode blk (bs_nat fs) t = dir_find_entry_from blk (dir_area fs) t None 0"
      unfolding dir_names_def dir_find_slot_for_entry_def dir_find_entry_by_inode_def e(1)
      using area_entries [OF w e(2)] area_find_slot [OF w e(2)] area_find_entry [OF w e(2)] by simp
  next
    case False
    then have "bs_nat fs = dir_area fs" by (simp add: dir_area_def)
    then show "dir_names fs blk = dir_entries blk (dir_area fs) 0 \<and>
      dir_find_slot_for_entry blk (bs_nat fs) need = dir_find_slot_from blk (dir_area fs) need 0 \<and>
      dir_find_entry_by_inode blk (bs_nat fs) t = dir_find_entry_from blk (dir_area fs) t None 0"
      by (simp add: dir_names_def dir_find_slot_for_entry_def dir_find_entry_by_inode_def)
  qed
qed

section \<open>The checksum record\<close>

lemma tail_record_below: "i < t \<Longrightarrow> put_le32 (tail_record c t) (t + 8) v i = c i"
  by (simp add: put_le32_outside tail_record_def put_bytes_outside)

lemma set_tail_below:
  assumes "i < dir_area fs"
  shows "dir_block_set_tail_csum fs c ino gen i = c i"
  using assms tail_record_below [of i "bs_nat fs - 12"]
  by (simp add: dir_block_set_tail_csum_def Let_def dir_area_def split: if_splits)

lemma set_tail_record:
  assumes "metadata_csum fs" "24 \<le> bs_nat fs"
  shows "is_csum_tail (dir_block_set_tail_csum fs c ino gen) (bs_nat fs - 12)"
    "dir_csum_valid fs ino gen (dir_block_set_tail_csum fs c ino gen)"
proof -
  let ?t = "bs_nat fs - 12"
  define z where "z = tail_record c ?t"
  define cs where "cs = dir_block_csum fs ino gen z"
  have d: "dir_block_set_tail_csum fs c ino gen = put_le32 z (?t + 8) cs"
    using assms(1) by (simp add: dir_block_set_tail_csum_def Let_def z_def cs_def)
  have z: "z (?t + k) = [0, 0, 0, 0, 12, 0, 0, 0xDE, 0, 0, 0, 0] ! k" if "k < 12" for k
    using that by (simp add: z_def tail_record_def put_bytes_def)
  have "z (5 + ?t) = 0" using z [of 5] by (simp add: add.commute)
  moreover have "z ?t = 0" "z (?t + 1) = 0" "z (?t + 2) = 0" "z (?t + 3) = 0" "z (?t + 4) = 12" "z (?t + 5) = 0" "z (?t + 7) = 0xDE"
    using z [of 0] z [of 1] z [of 2] z [of 3] z [of 4] z [of 5] z [of 7] by simp_all
  ultimately show "is_csum_tail (dir_block_set_tail_csum fs c ino gen) ?t"
    unfolding d
    by (simp add: is_csum_tail_def rec_len_at_def ino_at_def le16_def le32_def put_le32_def)
  have e: "?t + 8 = bs_nat fs - 4" using assms(2) by simp
  have "bytes_of (put_le32 z (bs_nat fs - 4) v) 0 (bs_nat fs - 12) = bytes_of z 0 (bs_nat fs - 12)" for v
    by (rule bytes_of_cong, rule put_le32_outside) arith
  then show "dir_csum_valid fs ino gen (dir_block_set_tail_csum fs c ino gen)"
    unfolding d e dir_csum_valid_def by (simp add: dir_block_csum_def cs_def)
qed

lemma set_tail_block:
  fixes fs :: "'c ext4_fs" and ino gen :: u32
  assumes "24 \<le> bs_nat fs" "bs_nat fs \<le> 4096" "dir_wf c (dir_area fs) 0"
  defines "d \<equiv> dir_block_set_tail_csum fs c ino gen"
  shows "dir_block_ok fs d" "dir_names fs d = dir_entries c (dir_area fs) 0" "dir_csum_valid fs ino gen d"
proof -
  have w: "dir_wf d (dir_area fs) 0"
    by (rule dir_wf_cong [OF assms(3)]) (simp add: d_def set_tail_below)
  show ok: "dir_block_ok fs d"
    using assms(1,2) w set_tail_record(1) by (auto simp: dir_block_ok_def d_def)
  show "dir_names fs d = dir_entries c (dir_area fs) 0"
    unfolding block_area(2) [OF ok] by (rule dir_entries_cong) (simp add: d_def set_tail_below)
  show "dir_csum_valid fs ino gen d"
    using set_tail_record(2) assms(1) by (cases "metadata_csum fs") (auto simp: d_def dir_csum_valid_def)
qed

section \<open>Adding and removing a name\<close>

text \<open>C25: Adding a name to a directory block that has room for it puts exactly the new entry into
  the list of the block's entries and changes, drops and reorders no other; the block stays well
  formed and carries the right checksum.\<close>

theorem dir_insert_block:
  assumes "dir_block_ok fs blk" "slot_in_block phys (rec_need (length name)) fs blk = Some s"
    "ino \<noteq> 0" "0 < length name" "length name < 256" "ft \<noteq> 0xDE"
  shows "let c = slot_fill fs parent gen s ino ft name in
    dir_block_ok fs c \<and> dir_csum_valid fs parent gen c \<and>
    (\<exists>pre post. dir_names fs blk = pre @ post \<and>
       dir_names fs c = pre @ \<lparr>de_inode = ino, de_file_type = ft_byte fs ft,
         de_name_len = word_of_nat (length name), de_name = name\<rparr> # post)"
proof -
  note a = block_area [OF assms(1)]
  obtain b off rl where s: "dir_find_slot_from blk (dir_area fs) (rec_need (length name)) 0 = Some (b, off, rl)"
    "s = \<lparr>ds_block = phys, ds_buf = b, ds_off = off, ds_rec = rl\<rparr>"
    using assms(2) by (auto simp: slot_in_block_def a(3))
  have f: "ft_byte fs ft \<noteq> 0xDE" using assms(6) by (simp add: ft_byte_def)
  have m: "dir_area fs < 65536" using a(5) by simp
  let ?c = "dir_put_entry b off ino rl (ft_byte fs ft) name"
  have w: "dir_wf ?c (dir_area fs) 0"
    using dir_insert_wf [OF s(1) a(1) assms(3-5) f m] .
  have b: "24 \<le> bs_nat fs" "bs_nat fs \<le> 4096" using assms(1) by (auto simp: dir_block_ok_def)
  have c: "slot_fill fs parent gen s ino ft name = dir_block_set_tail_csum fs ?c parent gen"
    by (simp add: slot_fill_def s(2))
  show ?thesis
    unfolding Let_def c
    using set_tail_block [OF b w, of parent gen]
      dir_insert_entries [OF s(1) assms(3-5) m, of "ft_byte fs ft"] a(2) by simp
qed

text \<open>C26: Removing an inode's name from a directory block takes exactly the first entry with this
  inode out of the list of the block's entries; the block stays well formed and carries the right
  checksum.\<close>

theorem dir_remove_block:
  assumes "dir_block_ok fs blk" "dir_find_entry_by_inode blk (bs_nat fs) t = Some (eo, p)" "t \<noteq> 0"
  shows "let c = hit_remove fs parent gen \<lparr>dh_block = phys, dh_buf = blk, dh_off = eo, dh_prev = p\<rparr> in
    dir_block_ok fs c \<and> dir_csum_valid fs parent gen c \<and>
    (\<exists>pre e post. dir_names fs blk = pre @ e # post \<and> de_inode e = t \<and> dir_names fs c = pre @ post)"
proof -
  note a = block_area [OF assms(1)]
  have f: "dir_find_entry_by_inode blk (dir_area fs) t = Some (eo, p)"
    using assms(2) by (simp add: a(4)) (simp add: dir_find_entry_by_inode_def)
  have m: "dir_area fs < 65536" using a(5) by simp
  note r = dir_remove_entries [OF f a(1) assms(3) m]
  have b: "24 \<le> bs_nat fs" "bs_nat fs \<le> 4096" using assms(1) by (auto simp: dir_block_ok_def)
  have w: "dir_wf (dir_remove_entry blk eo p) (dir_area fs) 0" using r by blast
  show ?thesis
    unfolding Let_def hit_remove_def
    using set_tail_block [OF b w, of parent gen] r a(2) by auto
qed

section \<open>The block of a new directory\<close>

lemma dots_entries:
  assumes "24 \<le> m" "m \<le> 4096" "ft \<noteq> 0xDE" "ino \<noteq> 0" "parent \<noteq> 0"
    and c_def: "c = dir_put_entry (dir_put_entry zero_buf 0 ino 12 ft [dot]) 12 parent (m - 12) ft [dot, dot]"
  shows "dir_wf c m 0"
    "dir_entries c m 0 = [\<lparr>de_inode = ino, de_file_type = ft, de_name_len = 1, de_name = [dot]\<rparr>,
       \<lparr>de_inode = parent, de_file_type = ft, de_name_len = 2, de_name = [dot, dot]\<rparr>]"
proof -
  let ?a = "dir_put_entry zero_buf 0 ino 12 ft [dot]"
  have n1: "length [dot] < 256" "(12 :: nat) < 65536" and n2: "length [dot, dot] < 256" "m - 12 < 65536"
    using assms(2) by simp_all
  note f1 = put_entry_fields [OF n1 refl, where blk = zero_buf and off = 0 and ino = ino and ft = ft]
  note f2 = put_entry_fields [OF n2 c_def]
  have low: "c i = ?a i" if "i < 12" for i using f2(5) [of i] that by simp
  have e1: "ino_at c 0 = ino" "rec_len_at c 0 = 12" "name_len_at c 0 = 1"
    "entry_at c 0 = \<lparr>de_inode = ino, de_file_type = ft, de_name_len = 1, de_name = [dot]\<rparr>"
  proof -
    have "ino_at c 0 = ino_at ?a 0" "rec_len_at c 0 = rec_len_at ?a 0" "name_len_at c 0 = name_len_at ?a 0"
      by (intro record_cong low; simp)+
    then show "ino_at c 0 = ino" "rec_len_at c 0 = 12" "name_len_at c 0 = 1" using f1(1-3) by simp_all
    have "entry_at ?a 0 = entry_at c 0" by (rule entry_at_cong) (use f1(3) low in auto)
    then show "entry_at c 0 = \<lparr>de_inode = ino, de_file_type = ft, de_name_len = 1, de_name = [dot]\<rparr>"
      using f1(4) by simp
  qed
  have t1: "c 7 = ft" using low [of 7] by (simp add: dir_put_entry_def put_bytes_def)
  have t2: "c 19 = ft" unfolding c_def by (simp add: dir_put_entry_def put_bytes_def)
  have g2: "rec_good c m 12" "rec_ok c m 12" "entry_live c 12"
    using assms f2 t2 by (auto simp: rec_good_def rec_ok_def is_csum_tail_def entry_live_def)
  have g1: "rec_good c m 0" "rec_ok c m 0" "entry_live c 0"
    using assms e1 t1 by (auto simp: rec_good_def rec_ok_def is_csum_tail_def entry_live_def)
  have n: "12 + (m - 12) = m" using assms(1) by simp
  have w2: "dir_wf c m 12" using g2 f2(2) n assms(1) by (simp add: dir_wf.simps [of c m 12] dir_wf.simps [of c m m])
  show "dir_wf c m 0" using g1 e1 w2 by (simp add: dir_wf.simps [of c m 0])
  have "\<not> rec_ok c m m" by (simp add: rec_ok_def)
  then have "dir_entries c m m = []" by (simp add: dir_entries.simps)
  then have "dir_entries c m 12 = [\<lparr>de_inode = parent, de_file_type = ft, de_name_len = 2, de_name = [dot, dot]\<rparr>]"
    using g2 f2 n by (simp add: dir_entries.simps [of c m 12])
  then show "dir_entries c m 0 = [\<lparr>de_inode = ino, de_file_type = ft, de_name_len = 1, de_name = [dot]\<rparr>,
       \<lparr>de_inode = parent, de_file_type = ft, de_name_len = 2, de_name = [dot, dot]\<rparr>]"
    using g1 e1 by (simp add: dir_entries.simps [of c m 0])
qed

lemma dots_block_eq:
  "dots_block fs ino parent = dir_block_set_tail_csum fs
     (dir_put_entry (dir_put_entry zero_buf 0 ino 12 (ft_byte fs 2) [dot]) 12 parent (dir_area fs - 12)
        (ft_byte fs 2) [dot, dot]) ino 0"
proof -
  have "bs_nat fs - 12 - (if metadata_csum fs then 12 else 0) = dir_area fs - 12"
    by (simp add: dir_area_def)
  then show ?thesis by (simp only: dots_block_def Let_def)
qed

text \<open>The block \<open>ext4_dir_create\<close> writes for a new directory is well formed, its entries
  are exactly \<open>.\<close> for the directory and \<open>..\<close> for its parent, and its checksum is right for
  the new inode, whose generation is 0.\<close>

theorem new_dir_block:
  assumes "36 \<le> bs_nat fs" "bs_nat fs \<le> 4096" "ino \<noteq> 0" "parent \<noteq> 0"
  shows "let c = dots_block fs ino parent in
    dir_block_ok fs c \<and> dir_csum_valid fs ino 0 c \<and>
    dir_names fs c =
      [\<lparr>de_inode = ino, de_file_type = ft_byte fs 2, de_name_len = 1, de_name = [dot]\<rparr>,
       \<lparr>de_inode = parent, de_file_type = ft_byte fs 2, de_name_len = 2, de_name = [dot, dot]\<rparr>]"
proof -
  have a: "24 \<le> dir_area fs" "dir_area fs \<le> 4096" using assms by (auto simp: dir_area_def)
  have f: "ft_byte fs 2 \<noteq> 0xDE" by (simp add: ft_byte_def)
  note d = dots_entries [OF a f assms(3,4) refl]
  have b: "24 \<le> bs_nat fs" using assms(1) by simp
  show ?thesis
    unfolding Let_def dots_block_eq using set_tail_block [OF b assms(2) d(1), of ino 0] d(2) by simp
qed

theorem new_dir_block_witness:
  "dir_names sample (dots_block sample 12 2) =
     [\<lparr>de_inode = 12, de_file_type = 2, de_name_len = 1, de_name = [dot]\<rparr>,
      \<lparr>de_inode = 2, de_file_type = 2, de_name_len = 2, de_name = [dot, dot]\<rparr>]"
proof -
  have "ft_byte sample 2 = 2" by (simp add: ft_byte_def sample_superblock_def)
  then show ?thesis using new_dir_block [of sample 12 2] by (simp add: Let_def)
qed

lemma sample_block_ok: "dir_block_ok sample (dots_block sample 12 2)"
proof -
  have a: "24 \<le> dir_area sample" "dir_area sample \<le> 4096" by (auto simp: dir_area_def)
  have f: "ft_byte sample 2 \<noteq> 0xDE" by (simp add: ft_byte_def)
  note d = dots_entries [OF a f, of 12 2, OF _ _ refl]
  show ?thesis unfolding dots_block_eq by (rule set_tail_block(1)) (use d(1) in simp_all)
qed

lemma sample_area: "dir_area sample = 1024" "\<not> metadata_csum sample" "ft_byte sample 2 = 2"
  by (simp_all add: dir_area_def metadata_csum_def ft_byte_def sample_superblock_def)

lemma sample_block_bytes:
  "dots_block sample 12 2 = dir_put_entry (dir_put_entry zero_buf 0 12 12 2 [dot]) 12 2 1012 2 [dot, dot]"
  unfolding dots_block_eq sample_area dir_block_set_tail_csum_def by (simp add: sample_area)

lemma sample_block_records:
  "rec_len_at (dots_block sample 12 2) 0 = 12" "ino_at (dots_block sample 12 2) 0 = 12"
  "name_len_at (dots_block sample 12 2) 0 = 1" "dots_block sample 12 2 7 = 2"
  "rec_len_at (dots_block sample 12 2) 12 = 1012" "ino_at (dots_block sample 12 2) 12 = 2"
  "name_len_at (dots_block sample 12 2) 12 = 2" "dots_block sample 12 2 19 = 2"
  "rec_ok (dots_block sample 12 2) 1024 0" "rec_ok (dots_block sample 12 2) 1024 12"
  "\<not> is_csum_tail (dots_block sample 12 2) 0" "\<not> is_csum_tail (dots_block sample 12 2) 12"
  unfolding rec_ok_def is_csum_tail_def rec_len_at_def ino_at_def name_len_at_def sample_block_bytes
  by (simp_all add: dir_put_entry_def put_bytes_def put_le16_def put_le32_def le16_def le32_def)

theorem dir_insert_block_witness:
  "\<exists>s. slot_in_block 20 (rec_need 1) sample (dots_block sample 12 2) = Some s \<and>
     dir_block_ok sample (slot_fill sample 12 0 s 13 1 [97])"
proof -
  let ?b = "dots_block sample 12 2"
  have "dir_find_slot_from ?b 1024 12 0 = dir_find_slot_from ?b 1024 12 12"
    by (subst dir_find_slot_from.simps)
      (simp add: sample_block_records Let_def real_size_def rec_need_def)
  also have "\<dots> = Some (put_le16 ?b 16 12, 24, 1000)"
    by (subst dir_find_slot_from.simps)
      (simp add: sample_block_records Let_def real_size_def rec_need_def)
  finally have s: "slot_in_block 20 (rec_need (length [97 :: byte])) sample ?b =
      Some \<lparr>ds_block = 20, ds_buf = put_le16 ?b 16 12, ds_off = 24, ds_rec = 1000\<rparr>"
    by (simp add: slot_in_block_def dir_find_slot_for_entry_def rec_need_def)
  have r: "rec_need (length [97 :: byte]) = rec_need 1" by simp
  show ?thesis
    using dir_insert_block [OF sample_block_ok s, of 13 1 12 0] s unfolding r by (simp add: Let_def)
qed

theorem dir_remove_block_witness:
  "dir_block_ok sample (hit_remove sample 12 0
     \<lparr>dh_block = 20, dh_buf = dots_block sample 12 2, dh_off = 12, dh_prev = Some 0\<rparr>)"
proof -
  let ?b = "dots_block sample 12 2"
  have "dir_find_entry_from ?b 1024 2 None 0 = dir_find_entry_from ?b 1024 2 (Some 0) 12"
    by (subst dir_find_entry_from.simps) (simp add: sample_block_records)
  also have "\<dots> = Some (12, Some 0)"
    by (subst dir_find_entry_from.simps) (simp add: sample_block_records)
  finally have f: "dir_find_entry_by_inode ?b (bs_nat sample) 2 = Some (12, Some 0)"
    by (simp add: dir_find_entry_by_inode_def)
  show ?thesis using dir_remove_block [OF sample_block_ok f, of 12 0 20] by (simp add: Let_def)
qed

section \<open>The test for an empty directory\<close>

definition is_dots :: "byte list \<Rightarrow> bool" where
  "is_dots name \<longleftrightarrow> name = [dot] \<or> name = [dot, dot]"

lemma is_dots_at:
  "is_dots (de_name (entry_at blk off)) =
     (name_len_at blk off = 1 \<and> blk (off + 8) = dot \<or>
      name_len_at blk off = 2 \<and> blk (off + 8) = dot \<and> blk (off + 9) = dot)"
proof -
  have one: "(bytes_of blk (off + 8) n = [a]) = (n = 1 \<and> blk (off + 8) = a)" for n a
    by (cases n) (auto simp: bytes_of_Suc bytes_of_def)
  have two: "(bytes_of blk (off + 8) n = [a, b]) = (n = 2 \<and> blk (off + 8) = a \<and> blk (off + 9) = b)" for n a b
  proof (cases "n = 2")
    case True
    have "off + 9 = Suc (off + 8)" by simp
    then show ?thesis using True by (simp only: numeral_2_eq_2 bytes_of_Suc bytes_of_0) simp
  next
    case False
    then have "length (bytes_of blk (off + 8) n) \<noteq> length [a, b]" by simp
    with False show ?thesis by metis
  qed
  show ?thesis by (simp add: is_dots_def entry_at_def one two)
qed

lemma dir_is_empty_entries:
  assumes "dir_wf blk m off"
  shows "dir_is_empty_from blk m off = (\<forall>e \<in> set (dir_entries blk m off). is_dots (de_name e))"
  using assms
proof (induction blk m off rule: dir_wf.induct)
  case (1 blk m off)
  show ?case
  proof (cases "off = m")
    case True
    have "\<not> rec_ok blk m m" by (simp add: rec_ok_def)
    with True show ?thesis by (simp add: dir_is_empty_from.simps dir_entries.simps)
  next
    case False
    with "1.prems" have g: "rec_good blk m off" "dir_wf blk m (off + rec_len_at blk off)"
      by (auto simp: dir_wf.simps [of blk m off] split: if_splits)
    then have ok: "rec_ok blk m off" by (simp add: rec_good_def)
    have live: "entry_live blk off = (\<not> is_csum_tail blk off \<and> ino_at blk off \<noteq> 0)"
      using g(1) by (auto simp: rec_good_def entry_live_def is_csum_tail_def)
    note ih = "1.IH" [OF False g(1) g(2)]
    have "dir_is_empty_from blk m off =
      ((entry_live blk off \<longrightarrow> is_dots (de_name (entry_at blk off))) \<and>
       dir_is_empty_from blk m (off + rec_len_at blk off))"
      using ok by (subst dir_is_empty_from.simps) (auto simp: live is_dots_at)
    moreover have "dir_entries blk m off = (if entry_live blk off then [entry_at blk off] else [])
        @ dir_entries blk m (off + rec_len_at blk off)"
      using ok by (subst dir_entries.simps) simp
    ultimately show ?thesis using ih by auto
  qed
qed

lemma area_is_empty:
  "dir_wf blk m off \<Longrightarrow> is_csum_tail blk m \<Longrightarrow>
   dir_is_empty_from blk (m + 12) off = dir_is_empty_from blk m off"
proof (induction blk m off rule: dir_wf.induct)
  case (1 blk m off)
  note tl = tail_ok [OF "1.prems"(2)]
  show ?case
  proof (cases "off = m")
    case True
    have l: "rec_len_at blk m = 12" using "1.prems" by (simp add: is_csum_tail_def)
    have "dir_is_empty_from blk (m + 12) (m + 12)" "dir_is_empty_from blk m m"
      by (subst dir_is_empty_from.simps; simp add: tl)+
    moreover have "dir_is_empty_from blk (m + 12) m = dir_is_empty_from blk (m + 12) (m + 12)"
      by (subst dir_is_empty_from.simps) (simp add: tl l "1.prems"(2))
    ultimately show ?thesis by (simp add: True)
  next
    case False
    with "1.prems" have g: "rec_good blk m off" "dir_wf blk m (off + rec_len_at blk off)"
      by (auto simp: dir_wf.simps [of blk m off] split: if_splits)
    show ?thesis
      using "1.IH" [OF False g(1) g(2) "1.prems"(2)] area_ok [OF g(1)]
      by (simp add: dir_is_empty_from.simps [of blk "m + 12" off] dir_is_empty_from.simps [of blk m off])
  qed
qed

lemma block_is_empty:
  assumes "dir_block_ok fs blk"
  shows "dir_is_empty_from blk (bs_nat fs) 0 = (\<forall>e \<in> set (dir_names fs blk). is_dots (de_name e))"
proof -
  note a = block_area [OF assms]
  have "dir_is_empty_from blk (bs_nat fs) 0 = dir_is_empty_from blk (dir_area fs) 0"
  proof (cases "metadata_csum fs")
    case True
    then have e: "bs_nat fs = dir_area fs + 12" "is_csum_tail blk (dir_area fs)"
      using assms by (auto simp: dir_area_def dir_block_ok_def)
    show ?thesis unfolding e(1) by (rule area_is_empty [OF a(1) e(2)])
  next
    case False
    then show ?thesis by (simp add: dir_area_def)
  qed
  then show ?thesis by (simp add: dir_is_empty_entries [OF a(1)] a(2))
qed

text \<open>C27: \<open>ext4_dir_remove\<close> finds a directory empty exactly when its block's entries are all
  \<open>.\<close> or \<open>..\<close>; a directory with any other entry is refused with -1, and nothing is written.\<close>

theorem dir_remove_only_empty:
  assumes "ext4_inode_read ino fs = (Inr inode, fs1)" "extent_lookup_res fs1 (i_block inode) 0 = Inr phys"
    "ext4_fs_read_block fs1 phys = Inr blk" "dir_block_ok fs blk"
  shows "dir_is_empty_from blk (bs_nat fs) 0 = (\<forall>e \<in> set (dir_names fs blk). is_dots (de_name e)) \<and>
    ((\<exists>e \<in> set (dir_names fs blk). \<not> is_dots (de_name e)) \<longrightarrow>
      (\<exists>fs'. ext4_dir_remove parent ino fs = (Inl (-1), fs') \<and> fs_bd fs' = fs_bd fs \<and> fs_jbd fs' = fs_jbd fs))"
proof (intro conjI impI)
  show "dir_is_empty_from blk (bs_nat fs) 0 = (\<forall>e \<in> set (dir_names fs blk). is_dots (de_name e))"
    by (rule block_is_empty [OF assms(4)])
next
  assume "\<exists>e \<in> set (dir_names fs blk). \<not> is_dots (de_name e)"
  then have ne: "\<not> dir_is_empty_from blk (bs_nat fs) 0" using block_is_empty [OF assms(4)] by blast
  have same: "same_but_bgd fs fs1" using inode_read_same [OF assms(1)] .
  note sm = same_but_bgd_fields [OF same]
  show "\<exists>fs'. ext4_dir_remove parent ino fs = (Inl (-1), fs') \<and> fs_bd fs' = fs_bd fs \<and> fs_jbd fs' = fs_jbd fs"
    using ne assms(1-3)
    by (auto simp: ext4_dir_remove_def bindE_def write_cap_def orX_def extent_lookup_def fs_read_block_def sm)
qed

text \<open>The sample directory as inode 12 of a volume: its descriptor block, its inode, its block.\<close>

definition sample_rmdir_image :: buf where
  "sample_rmdir_image = sample_dir_image(2056 := 5, 6529 := 0x40, 6568 := 0x0A, 6569 := 0xF3, 6570 := 1,
     6584 := 2, 6588 := 10)"

abbreviation sample_rmdir :: "file_ctx ext4_fs" where
  "sample_rmdir \<equiv> sample_fs sample_rmdir_image sample_superblock sample_jbd"

lemma sample_rmdir_read:
  "same_but_bgd sample_rmdir fs \<Longrightarrow> unat blk < 64 \<Longrightarrow>
   ext4_fs_read_block fs blk = Inr (trunc 1024 (at sample_rmdir_image (unat blk * 1024)))"
  using sample_read [of sample_superblock sample_rmdir_image blk sample_jbd]
  by (simp add: same_but_bgd_read sample_rmdir_image_def sample_dir_image_def)

lemma sample_rmdir_inode:
  obtains inode fs1 where "ext4_inode_read 12 sample_rmdir = (Inr inode, fs1)" "same_but_bgd sample_rmdir fs1"
    "inode = inode_parse (at (trunc 1024 (at sample_rmdir_image 6144)) 384)"
proof -
  have g: "ino_group sample_rmdir 12 = 0" "ino_index sample_rmdir 12 = 11"
    by (simp_all add: ino_group_def ino_index_def)
  have c: "fs_group_count sample_superblock = 1"
    by (simp add: fs_group_count_def)
  obtain r fs1 where b: "ext4_fs_bgd_get 0 sample_rmdir = (r, fs1)" by fastforce
  have s: "same_but_bgd sample_rmdir fs1" using bgd_get_same [of sample_rmdir 0] b by simp
  have coh: "bgd_coherent sample_rmdir" by (simp add: bgd_coherent_def)
  have bb: "bgd_block_of sample_rmdir 0 = 2" "bgd_off_of sample_rmdir 0 = 0"
    by (simp_all add: bgd_block_of_def bgd_off_of_def bgd_byte_in_partition_def)
  have fit: "bgd_tag_fits sample_rmdir 0" by (simp add: bgd_tag_fits_def bb)
  have "r = Some (trunc 1024 (at sample_rmdir_image 2048))"
    using bgd_get_coherent(1) [OF coh fit] b sample_rmdir_read [of sample_rmdir 2]
    by (simp add: bgd_uncached_def c bb)
  moreover have "le32 (trunc 1024 (at sample_rmdir_image 2048)) 8 = 5"
    by (simp add: le32_def sample_rmdir_image_def sample_dir_image_def)
  then have "inode_place sample_rmdir 12 (trunc 1024 (at sample_rmdir_image 2048)) = (6, 384)"
    by (simp add: inode_place_def bgd_block_def bgd_wide_def inode_byte_in_table_def g)
  moreover have "inode_place fs1 12 = inode_place sample_rmdir 12"
    using same_but_bgd_fields [OF s]
    by (simp add: fun_eq_iff inode_place_def bgd_block_def bgd_wide_def inode_byte_in_table_def ino_index_def)
  ultimately have "ext4_inode_read 12 sample_rmdir =
      (Inr (inode_parse (at (trunc 1024 (at sample_rmdir_image 6144)) 384)), fs1)"
    using b sample_rmdir_read [OF s, of 6] same_but_bgd_fields [OF s]
    by (simp add: ext4_inode_read_def bindE_def bgd_get_checked_def g orE_def fs_read_block_def)
  with s that show ?thesis by blast
qed

theorem dir_remove_only_empty_witness:
  "\<exists>fs'. ext4_dir_remove 2 12 sample_rmdir = (Inl (-1), fs') \<and> fs_bd fs' = fs_bd sample_rmdir \<and>
     fs_jbd fs' = sample_jbd"
proof -
  let ?blk = "trunc 1024 (at sample_rmdir_image 10240)"
  obtain inode fs1 where r: "ext4_inode_read 12 sample_rmdir = (Inr inode, fs1)" "same_but_bgd sample_rmdir fs1"
    "inode = inode_parse (at (trunc 1024 (at sample_rmdir_image 6144)) 384)"
    by (rule sample_rmdir_inode)
  have ib: "le16 (i_block inode) 0 = ext4_ext_magic" "le16 (i_block inode) 6 = 0" "node_entries (i_block inode) = 1"
    "leaf_logical (i_block inode) 0 = 0" "leaf_real_len (i_block inode) 0 = 2" "leaf_phys (i_block inode) 0 = 10"
    by (simp_all add: r(3) inode_parse_def node_entries_def leaf_logical_def leaf_real_len_def leaf_phys_def
        ext_entry_def ext4_ext_magic_def le16_def le32_def copy_bytes_def sample_rmdir_image_def sample_dir_image_def)
  have m: "leaf_maps (i_block inode) 0 0" by (simp add: leaf_maps_def ib)
  have bs: "\<not> 4096 < block_size fs1" using same_but_bgd_fields [OF r(2)] by simp
  have x: "extent_lookup_res fs1 (i_block inode) 0 = Inr 10"
    using leaf_lookup_hit [of 0 "i_block inode" 0] m bs
    by (simp add: extent_lookup_res_def ext4_extent_lookup_def extent_walk_leaf ib)
  have b: "ext4_fs_read_block fs1 10 = Inr ?blk" using sample_rmdir_read [OF r(2), of 10] by simp
  have rl: "rec_len_at ?blk 0 = 1024" "ino_at ?blk 0 = 12" "name_len_at ?blk 0 = 1" "?blk 7 = 1"
    by (simp_all add: rec_len_at_def ino_at_def name_len_at_def le16_def le32_def sample_rmdir_image_def sample_dir_image_def)
  have e: "de_name (entry_at ?blk 0) = [97]"
    by (simp add: entry_at_def rl) (simp add: sample_rmdir_image_def sample_dir_image_def bytes_of_def)
  have a: "dir_area sample_rmdir = 1024" "\<not> metadata_csum sample_rmdir"
    by (simp_all add: dir_area_def metadata_csum_def sample_superblock_def)
  have ok: "dir_block_ok sample_rmdir ?blk"
    by (simp add: dir_block_ok_def a dir_wf.simps [of ?blk 1024 0] dir_wf.simps [of ?blk 1024 1024]
        rec_good_def rec_ok_def is_csum_tail_def entry_live_def rl)
  have en: "entry_at ?blk 0 \<in> set (dir_names sample_rmdir ?blk)"
    by (simp add: dir_names_def dir_entries.simps [of ?blk 1024 0] rec_ok_def entry_live_def rl)
  have "\<exists>e \<in> set (dir_names sample_rmdir ?blk). \<not> is_dots (de_name e)"
    by (rule bexI [OF _ en]) (simp add: e is_dots_def dot_def)
  then show ?thesis using dir_remove_only_empty [OF r(1) x b ok, of 2] by simp
qed

end
