(* ===== verification/Journalling.thy ===== *)
theory Journalling
  imports Sample Crash
begin

text \<open>
  The properties of the journal: the writes of a commit and their order, what a power cut leaves,
  the replay and the checkpoint, and the refusals that touch nothing.
\<close>

section \<open>A transaction on the sample volume\<close>

text \<open>The sample volume on a device that stops after \<open>k\<close> writes; \<open>-1\<close> is never.\<close>

definition sample_until :: "int \<Rightarrow> file_ctx ext4_fs" where
  "sample_until k = sample\<lparr>fs_bd := file_bdev_set_fail_after (fs_bd sample) k\<rparr>"

definition sample_trans :: jbd_trans where
  "sample_trans = [(20, zero_buf)]"

lemma sample_until_fields [simp]:
  "fs_jbd (sample_until k) = sample_jbd" "fs_sb (sample_until k) = sample_superblock"
  by (simp_all add: sample_until_def)

lemma sample_until_disk: "disk (sample_until k) n = trunc 1024 (at sample_image (n * 1024))"
  using sample_disk [of sample_superblock sample_image sample_jbd n]
  by (simp add: sample_until_def disk_def vol_base_def file_contents_def file_bdev_set_fail_after_def)

lemma sample_until_vol: "vol (sample_until k)"
  using sample_vol(1) [of sample_superblock sample_image sample_jbd] sample_image_0
  by (auto simp: sample_until_def vol_def file_dev_def file_bdev_set_fail_after_def)

lemma sample_until_blk_ok: "n < 64 \<Longrightarrow> blk_ok (sample_until k) n"
  using sample_blk_ok [of sample_superblock n sample_image sample_jbd]
  by (simp add: sample_until_def blk_ok_def vol_base_def file_bdev_set_fail_after_def)

lemma sample_until_alive: "alive (sample_until (-1))"
  by (simp add: alive_def sample_until_def file_bdev_set_fail_after_def)

lemma sample_until_log_ok: "log_ok (sample_until k)"
proof -
  have u: "unat w < 8" if "w < (8 :: u32)" for w using that by (simp add: word_less_nat_alt)
  have "blk_ok (sample_until k) (log_blk sample_jbd w)" if "w < 8" for w
    using u [OF that] by (intro sample_until_blk_ok) (simp add: sample_log_blk that)
  then show ?thesis
    by (auto simp: log_ok_def Let_def sample_log_phys sample_log_blk word_unat_eq_iff)
qed

lemma sample_until_ready: "trans_ready (sample_until k) sample_trans"
proof -
  have sb: "sb_blk (sample_until k) = 1" by (simp add: sb_blk_def)
  have out: "\<not> in_log sample_jbd 1" "\<not> in_log sample_jbd 20" by (auto dest: sample_in_log)
  have "descriptor_cap sample_jbd = 996" "jbd_tag_bytes sample_jbd = 8"
    by (simp_all add: descriptor_cap_def jbd_tag_bytes_def)
  then show ?thesis
    using out by (simp add: trans_ready_def sample_trans_def sb sample_until_vol sample_until_log_ok
        sample_until_blk_ok trans_max_blocks_def)
qed

lemma sample_until_log_block:
  assumes "w < 8"
  shows "disk (sample_until k) (log_blk sample_jbd w) = (if w = 0 then sample_jsb else zero_buf)"
proof -
  have "unat w < 8" using assms by (simp add: word_less_nat_alt)
  then have "trunc 1024 (at sample_image ((40 + unat w) * 1024)) =
      (if unat w = 0 then trunc 1024 sample_jsb else zero_buf)"
    by (auto simp: fun_eq_iff trunc_def at_def sample_image_def copy_bytes_def)
  moreover have "trunc 1024 sample_jsb = sample_jsb"
    by (simp add: fun_eq_iff trunc_def sample_jsb_def be32_pack_def)
  ultimately show ?thesis
    using assms by (simp add: sample_until_disk sample_log_blk unsigned_eq_0_iff)
qed

lemma sample_jsb_facts:
  "be32 sample_jsb 0 = jbd_magic" "be32 sample_jsb 4 = bt_super_v2" "be32 sample_jsb 0x0C = 1024"
  "be32 sample_jsb 0x10 = 8" "be32 sample_jsb 0x14 = 1" "be32 sample_jsb 0x18 = 5"
  "be32 sample_jsb 0x1C = 0" "be32 sample_jsb 0x28 = 0" "bytes_of sample_jsb 0x30 16 = replicate 16 0"
proof -
  show "be32 sample_jsb 0 = jbd_magic" "be32 sample_jsb 4 = bt_super_v2" "be32 sample_jsb 0x0C = 1024"
    "be32 sample_jsb 0x10 = 8" "be32 sample_jsb 0x14 = 1" "be32 sample_jsb 0x18 = 5"
    "be32 sample_jsb 0x1C = 0"
    by (simp_all add: sample_jsb_def pack_other)
  have z: "sample_jsb i = 0" if "0x20 \<le> i" for i
    using that by (simp add: sample_jsb_def be32_pack_outside)
  show "be32 sample_jsb 0x28 = 0" by (simp add: be32_def z)
  show "bytes_of sample_jsb 0x30 16 = replicate 16 0"
    by (rule nth_equalityI) (simp_all add: bytes_of_def z)
qed

lemma sample_until_describes:
  "jsb_describes (fs_jbd (sample_until k)) (disk (sample_until k) (log_blk (fs_jbd (sample_until k)) 0))"
  using sample_jsb_facts
  by (simp add: sample_until_log_block jsb_describes_def jsb_incompat_def)

lemma sample_until_clean:
  "be32 (disk (sample_until k) (log_blk (fs_jbd (sample_until k)) 0)) 0x1C = 0"
  using sample_jsb_facts by (simp add: sample_until_log_block)

lemma sample_until_quiet: "tail_quiet (fs_jbd (sample_until k)) (disk (sample_until k)) sample_trans"
proof -
  have "be32 zero_buf 0 \<noteq> jbd_magic" by (simp add: be32_def zero_buf_def jbd_magic_def)
  then show ?thesis
    by (auto simp: tail_quiet_def Let_def sample_until_log_block commit_jblk_def)
qed
section \<open>The commit\<close>

text \<open>
  C1: A commit is atomic under power loss: wherever the device stops, mounting what is on the disk
  succeeds and gives the volume either with all blocks of the transaction in place or without any
  of them, and a commit that reported success is never lost.
\<close>

theorem commit_survives_power_cut:
  assumes "trans_ready fs ts" "unat (jbd_maxlen (fs_jbd fs)) + 4 < 2 ^ 31"
    "jsb_describes (fs_jbd fs) (disk fs (log_blk (fs_jbd fs) 0))"
    "be32 (disk fs (log_blk (fs_jbd fs) 0)) 0x1C = 0"
    "tail_quiet (fs_jbd fs) (disk fs) ts"
    "ext4_journal_commit ts fs = (r, fs')"
  shows "\<exists>fs2. recover fs (fs_bd fs') = (Inr (), fs2) \<and>
    (vol_agrees fs (disk fs2) (dwrites (disk fs) (home_writes fs ts)) \<or>
     (\<exists>rc. r = Inl rc) \<and> vol_agrees fs (disk fs2) (disk fs))"
  using assms by (rule commit_all_or_nothing)

theorem commit_survives_power_cut_witness:
  "let fs = sample_until 4; res = ext4_journal_commit sample_trans fs in
   \<exists>fs2. recover fs (fs_bd (snd res)) = (Inr (), fs2) \<and>
    (vol_agrees fs (disk fs2) (dwrites (disk fs) (home_writes fs sample_trans)) \<or>
     (\<exists>rc. fst res = Inl rc) \<and> vol_agrees fs (disk fs2) (disk fs))"
  unfolding Let_def
  by (rule commit_survives_power_cut [OF sample_until_ready _ sample_until_describes sample_until_clean
        sample_until_quiet surjective_pairing]) simp

text \<open>
  C11: On a device that takes every write a commit succeeds; afterwards the volume has the
  transaction's blocks in place, the log is empty again on the disk, and the handle has moved on to
  the next sequence number with no replay table and no cached descriptor block.
\<close>

theorem commit_succeeds:
  assumes "trans_ready fs ts" "alive fs"
  shows "\<exists>fs'. ext4_journal_commit ts fs = (Inr (), fs') \<and> committed fs fs' \<and>
    vol_agrees fs (disk fs') (dwrites (disk fs) (home_writes fs ts)) \<and>
    be32 (disk fs' (log_blk (fs_jbd fs) 0)) 0x1C = 0"
  using assms by (rule commit_done)

theorem commit_succeeds_witness:
  "\<exists>fs'. ext4_journal_commit sample_trans (sample_until (-1)) = (Inr (), fs') \<and>
    committed (sample_until (-1)) fs' \<and>
    vol_agrees (sample_until (-1)) (disk fs')
      (dwrites (disk (sample_until (-1))) (home_writes (sample_until (-1)) sample_trans)) \<and>
    be32 (disk fs' (log_blk (fs_jbd (sample_until (-1))) 0)) 0x1C = 0"
  by (rule commit_succeeds [OF sample_until_ready sample_until_alive])

text \<open>
  The writes of a commit reach the disk in the order write-ahead logging needs: the RECOVER
  flag, the descriptor, the log copies, the commit record, the journal superblock that points at
  them, the home blocks, the empty journal superblock and the cleared flag.  A commit that fails
  has written a prefix of them, one that succeeds all of them.
\<close>

theorem commit_write_order:
  assumes "trans_ready fs ts" "ext4_journal_commit ts fs = (r, fs')"
  shows "\<exists>k. disk fs' = dwrites (disk fs) (take k (prepare_writes fs ts @ [point_write fs] @
      home_writes fs ts @ clean_writes fs (dwrites (pointed fs ts) (home_writes fs ts)))) \<and>
    (case r of Inr _ \<Rightarrow> k = length ts + length ts + 6 | Inl _ \<Rightarrow> k \<le> length ts + length ts + 6)"
proof -
  have "length (data_writes fs w ts) = length ts" for w
    by (induction ts arbitrary: w) auto
  then have l: "length (commit_writes fs ts) = length ts + length ts + 6"
    by (simp add: commit_writes_def finish_writes_def prepare_writes_def home_writes_def clean_writes_def Let_def)
  have c: "prepare_writes fs ts @ [point_write fs] @ home_writes fs ts @
      clean_writes fs (dwrites (pointed fs ts) (home_writes fs ts)) = commit_writes fs ts"
    by (simp add: commit_writes_def finish_writes_def)
  from emits_commit [OF assms(1)] assms(2) show ?thesis
  proof (cases rule: emitsE)
    case (ok x)
    then have "disk fs' = dwrites (disk fs) (take (length ts + length ts + 6) (commit_writes fs ts))"
      by (simp add: l)
    with ok(1) show ?thesis unfolding c by auto
  next
    case (cut rc k)
    then show ?thesis unfolding c l by auto
  qed
qed

theorem commit_write_order_witness:
  "let fs = sample_until 3; res = ext4_journal_commit sample_trans fs in
   \<exists>k. disk (snd res) = dwrites (disk fs) (take k (prepare_writes fs sample_trans @ [point_write fs] @
      home_writes fs sample_trans @
      clean_writes fs (dwrites (pointed fs sample_trans) (home_writes fs sample_trans)))) \<and>
    (case fst res of
       Inr _ \<Rightarrow> k = length sample_trans + length sample_trans + 6
     | Inl _ \<Rightarrow> k \<le> length sample_trans + length sample_trans + 6)"
  unfolding Let_def by (rule commit_write_order [OF sample_until_ready surjective_pairing])

text \<open>
  C33: A transaction that is empty, has more than eight blocks, does not fit the log or whose tags
  do not fit the descriptor block is refused before anything is written or changed.
\<close>

theorem commit_refuses_misfit:
  assumes "ts = [] \<or> trans_max_blocks < length ts \<or>
      unat (jbd_maxlen (fs_jbd fs)) < unat (jbd_first (fs_jbd fs)) + length ts + 2 \<or>
      descriptor_cap (fs_jbd fs) < int (length ts * jbd_tag_bytes (fs_jbd fs))"
    "unat (jbd_first (fs_jbd fs)) < 2 ^ 31"
  shows "\<exists>rc. ext4_journal_commit ts fs = (Inl rc, fs)"
proof -
  let ?f = "jbd_first (fs_jbd fs)" and ?n = "length ts"
  have u: "unat (?f + 1 + word_of_nat ?n + 1) = unat ?f + ?n + 2" if "?n \<le> 8"
  proof -
    have "unat (word_of_nat ?n :: u32) = ?n"
      using that by (simp add: unsigned_of_nat take_bit_nat_eq_self)
    then show ?thesis using assms(2) that by (simp add: unat_add_small)
  qed
  have "\<not> ?f + 1 + word_of_nat ?n + 1 \<le> jbd_maxlen (fs_jbd fs)"
    if "unat (jbd_maxlen (fs_jbd fs)) < unat ?f + ?n + 2" "?n \<le> 8"
    using that u by (simp add: word_le_nat_alt)
  then show ?thesis
    using assms(1)
    by (auto simp: ext4_journal_commit_def bindE_def Let_def trans_max_blocks_def split: if_splits)
qed

theorem commit_refuses_misfit_witness:
  "\<exists>rc. ext4_journal_commit (replicate 9 (20, zero_buf)) (sample_until (-1)) = (Inl rc, sample_until (-1))"
  by (rule commit_refuses_misfit) (simp_all add: trans_max_blocks_def)
section \<open>The log\<close>

text \<open>Where tag \<open>i\<close> of a descriptor is: the first one is followed by the journal's UUID.\<close>

definition tag_off :: "ext4_jbd \<Rightarrow> nat \<Rightarrow> nat" where
  "tag_off j i = 12 + i * jbd_tag_bytes j + (if i = 0 then 0 else 16)"

lemma tags_written_nth:
  assumes "tags_written j seq d i n (tag_off j i) ts" "k < length ts" "ts ! k = (blk, b)"
  shows "tag_fs_block j d (tag_off j (i + k)) = blk \<and>
    tag_flags j d (tag_off j (i + k)) = trans_tag_flags (i + k) n b \<and>
    tag_csum_ok j seq d (tag_off j (i + k)) (journal_copy b)"
  using assms
proof (induction ts arbitrary: i k)
  case (Cons t ts)
  obtain blk' b' where t: "t = (blk', b')" by (cases t)
  have o: "tag_off j i + jbd_tag_bytes j + uuid_room i = tag_off j (Suc i)"
    by (simp add: tag_off_def uuid_room_def)
  show ?case
  proof (cases k)
    case 0
    with Cons.prems t show ?thesis by auto
  next
    case (Suc k')
    have "tags_written j seq d (Suc i) n (tag_off j (Suc i)) ts"
      using Cons.prems(1) unfolding t tags_written.simps o by blast
    from Cons.IH [OF this, of k'] Cons.prems(2,3) Suc show ?thesis by simp
  qed
qed simp

text \<open>
  C14: The descriptor block a commit writes reads back: tag \<open>k\<close> names the \<open>k\<close>-th block, says
  whether its copy is escaped and whether it is the last one, and its checksum accepts the copy in
  the log; the copy never looks like a log block and un-escaping it gives the block's contents.
\<close>

theorem descriptor_round_trip:
  assumes "length (jbd_uuid j) = 16" "1024 \<le> jbd_bs j" "jbd_bs j \<le> 4096"
    "\<forall>(blk, b) \<in> set ts. unat blk < 2 ^ 32 \<or> jbd_has_64bit j"
    "int (length ts * jbd_tag_bytes j) \<le> descriptor_cap j" "k < length ts" "ts ! k = (blk, b)"
  shows "let d = trunc (jbd_bs j) (descriptor_block j seq ts) in
    verify_meta_block j d \<and> be32 d 8 = seq \<and> tag_fs_block j d (tag_off j k) = blk \<and>
    tag_has j d (tag_off j k) tag_flag_escape = needs_escape b \<and>
    tag_has j d (tag_off j k) tag_flag_last_tag = (k + 1 = length ts) \<and>
    tag_csum_ok j seq d (tag_off j k) (journal_copy b) \<and>
    be32 (journal_copy b) 0 \<noteq> jbd_magic \<and>
    (if tag_has j d (tag_off j k) tag_flag_escape then restore_magic (journal_copy b) else journal_copy b) = b"
proof -
  define d where "d = trunc (jbd_bs j) (descriptor_block j seq ts)"
  have "ts \<noteq> []" using assms(6) by auto
  note w = descriptor_stored [OF assms(1-3) this assms(4,5) d_def]
  have "tag_off j 0 = 12" by (simp add: tag_off_def)
  then have n: "tag_fs_block j d (tag_off j k) = blk \<and>
    tag_flags j d (tag_off j k) = trans_tag_flags k (length ts) b \<and>
    tag_csum_ok j seq d (tag_off j k) (journal_copy b)"
    using tags_written_nth [of j seq d 0 "length ts" ts k] w(5) assms(6,7) by simp
  then have "tag_flags j d (tag_off j k) = trans_tag_flags k (length ts) b" by blast
  note f = trans_tag_flags_tests [OF this]
  show ?thesis
    using n w(3,4) journal_copy_no_magic [of b] restore_journal_copy [of b]
    unfolding Let_def d_def [symmetric] by (simp add: f)
qed

theorem descriptor_round_trip_witness:
  "let d = trunc (jbd_bs sample_jbd) (descriptor_block sample_jbd 5 sample_trans) in
   verify_meta_block sample_jbd d \<and> be32 d 8 = 5 \<and>
    tag_fs_block sample_jbd d (tag_off sample_jbd 0) = 20 \<and>
    tag_has sample_jbd d (tag_off sample_jbd 0) tag_flag_escape = needs_escape zero_buf \<and>
    tag_has sample_jbd d (tag_off sample_jbd 0) tag_flag_last_tag = (0 + 1 = length sample_trans) \<and>
    tag_csum_ok sample_jbd 5 d (tag_off sample_jbd 0) (journal_copy zero_buf) \<and>
    be32 (journal_copy zero_buf) 0 \<noteq> jbd_magic \<and>
    (if tag_has sample_jbd d (tag_off sample_jbd 0) tag_flag_escape
     then restore_magic (journal_copy zero_buf) else journal_copy zero_buf) = zero_buf"
  by (rule descriptor_round_trip)
    (simp_all add: jbd_bs_def sample_trans_def descriptor_cap_def jbd_tag_bytes_def)

section \<open>Replay\<close>

text \<open>The sample volume as a commit leaves it when the power goes right after the commit point.\<close>

definition sample_log_image :: buf where
  "sample_log_image = copy_bytes (copy_bytes (copy_bytes sample_image
     41984 (descriptor_block sample_jbd 5 sample_trans) 1024) 43008 zero_buf 1024)
     44032 (commit_block sample_jbd 5) 1024"

definition sample_pending_jbd :: ext4_jbd where
  "sample_pending_jbd = sample_jbd\<lparr>jbd_start := 1\<rparr>"


lemma sample_pending_core: "same_core sample_jbd sample_pending_jbd"
  by (simp add: sample_pending_jbd_def)

lemma sample_log_image_0: "65536 \<le> i \<Longrightarrow> sample_log_image i = 0"
  by (simp add: sample_log_image_def copy_bytes_def sample_image_0)




section \<open>The checkpoint\<close>

lemma flush_distinct:
  assumes "distinct (map re_fs_block (jbd_replay (fs_jbd fs)))"
  shows "distinct (map fst (flush_writes fs))"
proof -
  let ?es = "jbd_replay (fs_jbd fs)"
  have "map fst (map (entry_write fs (disk fs)) ?es) = map unat (map re_fs_block ?es)"
    by (simp add: entry_write_def Let_def)
  moreover have "distinct (map unat (map re_fs_block ?es))"
    using assms unfolding distinct_map [of unat] by (simp add: inj_on_def word_unat_eq_iff)
  ultimately show ?thesis by (simp add: flush_writes_def del: map_map)
qed

lemma read_block_home:
  assumes "vol fs" "log_ok fs" "blk_ok fs (unat blk)" "\<forall>e \<in> set (jbd_replay (fs_jbd fs)). entry_ok fs e"
    "distinct (map re_fs_block (jbd_replay (fs_jbd fs)))"
  shows "ext4_fs_read_block fs blk = Inr (dwrites (disk fs) (flush_writes fs) (unat blk))"
proof (cases "ext4_journal_lookup (fs_jbd fs) blk")
  case None
  have "unat blk \<notin> fst ` set (flush_writes fs)"
    using None by (auto simp: flush_writes_def ext4_journal_lookup_def entry_write_def Let_def
        find_None_iff word_unat_eq_iff split: if_splits)
  then show ?thesis
    using raw_read_disk [OF assms(1,3)] by (simp add: ext4_fs_read_block_def None dwrites_other)
next
  case (Some r)
  then obtain e where act: "jbd_replay_active (fs_jbd fs)"
    and f: "find (\<lambda>e. re_fs_block e = blk) (jbd_replay (fs_jbd fs)) = Some e"
    and r: "r = (re_journal_blk e, re_is_escape e)"
    by (auto simp: ext4_journal_lookup_def split: if_splits)
  from f have e: "e \<in> set (jbd_replay (fs_jbd fs))" "re_fs_block e = blk"
    by (auto simp: find_Some_iff in_set_conv_nth)
  let ?b = "disk fs (log_blk (fs_jbd fs) (re_journal_blk e))"
  have "re_journal_blk e < jbd_maxlen (fs_jbd fs)" using assms(4) e(1) by (auto simp: entry_ok_def)
  then have rd: "ext4_journal_read_log_block fs (re_journal_blk e) = Inr ?b"
    by (rule read_log_block_disk [OF assms(1,2)])
  have "4 \<le> bs_nat fs" using vol_bs(1) [OF assms(1)] by simp
  then have t: "trunc (bs_nat fs) (if re_is_escape e then restore_magic ?b else ?b) =
      (if re_is_escape e then restore_magic ?b else ?b)"
    using restore_magic_trunc [of "bs_nat fs" ?b] by simp
  have "entry_write fs (disk fs) e \<in> set (flush_writes fs)" using act e(1) by (simp add: flush_writes_def)
  then have "dwrites (disk fs) (flush_writes fs) (unat blk) = (if re_is_escape e then restore_magic ?b else ?b)"
    by (intro dwrites_distinct [OF flush_distinct [OF assms(5)]])
      (simp only: entry_write_def Let_def e(2) t)
  then show ?thesis by (simp add: ext4_fs_read_block_def Some r rd)
qed

text \<open>
  C7: The checkpoint is invisible to readers: it succeeds on a device that takes its writes, every
  block outside the log and the superblock's block reads the same before (through the replay table)
  and after (from its place), the log is left empty, and a second checkpoint does nothing.
\<close>

theorem checkpoint_transparent:
  assumes "checkpoint_ok fs" "alive fs" "\<forall>e \<in> set (jbd_replay (fs_jbd fs)). entry_ok fs e"
    "distinct (map re_fs_block (jbd_replay (fs_jbd fs)))"
    "blk_ok fs (unat blk)" "\<not> in_log (fs_jbd fs) (unat blk)" "unat blk \<noteq> sb_blk fs"
  shows "\<exists>fs'. ext4_journal_checkpoint fs = (Inr (), fs') \<and>
    ext4_fs_read_block fs' blk = ext4_fs_read_block fs blk \<and>
    jbd_start (fs_jbd fs') = 0 \<and> jbd_replay (fs_jbd fs') = [] \<and>
    ext4_journal_checkpoint fs' = (Inr (), fs')"
proof -
  have v: "vol fs" "log_ok fs" using assms(1) by (auto simp: checkpoint_ok_def)
  let ?d = "dwrites (disk fs) (flush_writes fs)"
  obtain x fs' where x: "ext4_journal_checkpoint fs = (x, fs')" by fastforce
  have ok: "x = Inr () \<and> vol_step fs fs' \<and> disk fs' = dwrites ?d (clean_writes fs ?d) \<and>
      (\<exists>fs1. only_dev fs fs1 \<and> fs' = checkpoint_done fs1)"
    using emits_checkpoint [OF assms(1)] x
    by (cases rule: emitsE) (use assms(2) in \<open>auto simp: dwrites_append\<close>)
  then have act: "\<not> jbd_replay_active (fs_jbd fs')" "jbd_start (fs_jbd fs') = 0"
      "jbd_replay (fs_jbd fs') = []" "s_feature_incompat (fs_sb fs') AND 4 = 0"
    by (auto simp: checkpoint_done_def recover_cleared)
  have "unat blk \<noteq> log_blk (fs_jbd fs) 0" using assms(6) in_log_blk [OF log_okD(3) [OF v(2)]] by metis
  then have "disk fs' (unat blk) = ?d (unat blk)" using ok assms(7) by (simp add: clean_writes_def Let_def)
  moreover have "ext4_fs_read_block fs' blk = Inr (disk fs' (unat blk))"
    using raw_read_disk vol_stepD(1,2) [of fs fs'] ok assms(5) act(1)
    by (simp add: ext4_fs_read_block_def ext4_journal_lookup_def)
  moreover have "ext4_journal_checkpoint fs' = (Inr (), fs')"
    using act by (simp add: ext4_journal_checkpoint_def checkpoint_needed_def Let_def)
  ultimately show ?thesis
    using x ok act read_block_home [OF v assms(5,3,4)] by auto
qed

definition sample_mapped_jbd :: ext4_jbd where
  "sample_mapped_jbd = sample_pending_jbd\<lparr>jbd_replay_active := True,
     jbd_replay := trans_entries 2 sample_trans\<rparr>"

theorem checkpoint_transparent_witness:
  "let fs = sample_fs sample_log_image sample_superblock sample_mapped_jbd in
   \<exists>fs'. ext4_journal_checkpoint fs = (Inr (), fs') \<and>
    ext4_fs_read_block fs' 20 = ext4_fs_read_block fs 20 \<and>
    jbd_start (fs_jbd fs') = 0 \<and> jbd_replay (fs_jbd fs') = [] \<and>
    ext4_journal_checkpoint fs' = (Inr (), fs')"
proof -
  let ?fs = "sample_fs sample_log_image sample_superblock sample_mapped_jbd"
  have c: "same_core sample_jbd sample_mapped_jbd"
    using sample_pending_core by (simp add: sample_mapped_jbd_def same_core_def)
  note f = same_core_functions [OF c] same_coreD [OF c]
  have v: "vol ?fs" "alive ?fs" by (intro sample_vol; simp add: sample_log_image_0)+
  have l: "log_ok ?fs"
    using sample_log_ok [of sample_log_image] by (simp add: log_ok_def Let_def f blk_ok_def vol_base_def)
  have b: "blk_ok ?fs n" if "n < 64" for n using that by (intro sample_blk_ok) simp_all
  have out: "\<not> in_log sample_jbd 20" by (auto dest: sample_in_log)
  have es: "jbd_replay sample_mapped_jbd = [\<lparr>re_fs_block = 20, re_journal_blk = 2, re_is_escape = False\<rparr>]"
    by (simp add: sample_mapped_jbd_def sample_trans_def needs_escape_def be32_def jbd_magic_def)
  have e: "\<forall>e \<in> set (jbd_replay sample_mapped_jbd). entry_ok ?fs e"
    using b out by (simp add: es entry_ok_def f)
  have sb: "sb_blk ?fs = 1" by (simp add: sb_blk_def)
  have st: "jbd_start sample_mapped_jbd = 1" "jbd_present sample_mapped_jbd"
    by (simp_all add: sample_mapped_jbd_def sample_pending_jbd_def)
  have ck: "checkpoint_ok ?fs"
    using v l b e st by (simp add: checkpoint_ok_def sb checkpoint_needed_def)
  show ?thesis
    unfolding Let_def
    by (rule checkpoint_transparent [OF ck v(2)]) (use e es b out sb in \<open>simp_all add: f\<close>)
qed

end
