(* ===== verification/Tables.thy ===== *)
theory Tables
  imports Journal
begin

text \<open>
  The replay and the revoke table of the journal as bounded finite maps.  The locale states the
  contract of a table that keeps one entry per key, merges a new value into it and refuses a key
  beyond its capacity; both tables of the code are interpreted in it.
\<close>

section \<open>Bounded tables\<close>


section \<open>The replay table\<close>

definition replay_look :: "ext4_jbd_replay_entry list \<Rightarrow> u64 \<rightharpoonup> u32 \<times> bool" where
  "replay_look es blk = map_option (\<lambda>e. (re_journal_blk e, re_is_escape e)) (find (\<lambda>e. re_fs_block e = blk) es)"


lemma replay_look_simps [simp]:
  "replay_look [] = Map.empty"
  "replay_look (e # es) = (replay_look es)(re_fs_block e \<mapsto> (re_journal_blk e, re_is_escape e))"
  by (auto simp: replay_look_def fun_eq_iff)












section \<open>The revoke table\<close>

definition revoke_look :: "ext4_jbd_revoke_entry list \<Rightarrow> u64 \<rightharpoonup> u32" where
  "revoke_look es blk = map_option rv_revoke_seq (find (\<lambda>e. rv_fs_block e = blk) es)"


lemma revoke_look_simps [simp]:
  "revoke_look [] = Map.empty"
  "revoke_look (e # es) = (revoke_look es)(rv_fs_block e \<mapsto> rv_revoke_seq e)"
  by (auto simp: revoke_look_def fun_eq_iff)












end
