(* ===== verification/Allocating.thy ===== *)
theory Allocating
  imports DirOps Sample
begin

text \<open>
  What the allocators keep: the bitmaps seen as sets of bits, the free counts of the group
  descriptors against the bitmaps, the checksums over both, and that freeing undoes allocating.
\<close>

section \<open>Bitmaps as sets\<close>

text \<open>The interface the allocators use: a store of members with a test, laws for adding and taking
  away, and extensionality.\<close>

locale bit_store =
  fixes member :: "'s \<Rightarrow> nat \<Rightarrow> bool"
    and ins :: "'s \<Rightarrow> nat \<Rightarrow> 's"
    and del :: "'s \<Rightarrow> nat \<Rightarrow> 's"
  assumes member_ins: "member (ins s k) j \<longleftrightarrow> j = k \<or> member s j"
    and member_del: "member (del s k) j \<longleftrightarrow> j \<noteq> k \<and> member s j"
    and same: "(\<And>j. member s j = member t j) \<Longrightarrow> s = t"
begin

definition vacant :: "'s \<Rightarrow> nat \<Rightarrow> nat set" where
  "vacant s n = {k. k < n \<and> \<not> member s k}"

lemma del_ins: "\<not> member s k \<Longrightarrow> del (ins s k) k = s"
  by (rule same) (auto simp: member_ins member_del)

lemma ins_del: "member s k \<Longrightarrow> ins (del s k) k = s"
  by (rule same) (auto simp: member_ins member_del)

lemma finite_vacant [simp]: "finite (vacant s n)"
  by (simp add: vacant_def)

lemma vacant_ins: "vacant (ins s k) n = vacant s n - {k}"
  by (auto simp: vacant_def member_ins)

lemma vacant_del: "k < n \<Longrightarrow> vacant (del s k) n = insert k (vacant s n)"
  by (auto simp: vacant_def member_del)

lemma card_ins: "k < n \<Longrightarrow> \<not> member s k \<Longrightarrow> card (vacant (ins s k) n) + 1 = card (vacant s n)"
proof -
  assume "k < n" "\<not> member s k"
  then have "k \<in> vacant s n" by (simp add: vacant_def)
  then show ?thesis unfolding vacant_ins by (metis Suc_eq_plus1 card.remove finite_vacant)
qed

lemma card_del: "k < n \<Longrightarrow> member s k \<Longrightarrow> card (vacant (del s k) n) = card (vacant s n) + 1"
  by (simp add: vacant_del) (simp add: vacant_def)

lemma find_vacant:
  assumes "find (\<lambda>k. \<not> member s k) [0..<n] = Some k"
  shows "k \<in> vacant s n" "\<forall>j<k. member s j"
  using assms by (auto simp: find_Some_iff vacant_def)

end

lemma and_mask: "x AND bmp_mask k \<noteq> 0 \<longleftrightarrow> bit x (k mod 8)"
  unfolding bmp_mask_def push_bit_eq_mult by (simp add: and_exp_eq_0_iff_not_bit)

lemma bmp_test_bit: "bmp_test bm k \<longleftrightarrow> bit (bm (k div 8)) (k mod 8)"
  by (simp add: bmp_test_def and_mask)

lemma bit_bmp_mask: "bit (bmp_mask k) n \<longleftrightarrow> n = k mod 8"
proof -
  have "k mod 8 < 8" by simp
  then show ?thesis by (auto simp: bmp_mask_def bit_simps)
qed

lemma same_position: "j = k \<longleftrightarrow> j div 8 = k div 8 \<and> j mod 8 = (k mod 8 :: nat)"
  by (metis div_mult_mod_eq)

interpretation bmp: bit_store bmp_test bmp_set bmp_clear
proof (standard, goal_cases)
  case (1 bm k j)
  show ?case using same_position [of j k] by (auto simp: bmp_test_bit bmp_set_def bit_or_iff bit_bmp_mask)
next
  case (2 bm k j)
  have "bit (NOT (bmp_mask k)) (j mod 8) \<longleftrightarrow> j mod 8 \<noteq> k mod 8"
    by (simp add: bit_not_iff bit_bmp_mask possible_bit_word)
  then show ?case
    using same_position [of j k] by (auto simp: bmp_test_bit bmp_clear_def bit_and_iff)
next
  case (3 bm bm')
  show ?case
  proof (rule ext, rule bit_word_eqI)
    fix i n
    assume "n < LENGTH(8)"
    then have "(i * 8 + n) div 8 = i" "(i * 8 + n) mod 8 = n" by simp_all
    then show "bit (bm i) n = bit (bm' i) n" using 3 [of "i * 8 + n"] by (simp add: bmp_test_bit)
  qed
qed

section \<open>Free counts and checksums of a group descriptor\<close>

definition split_count :: "u16 \<times> u32 \<Rightarrow> nat" where
  "split_count v = unat (snd v) * 2 ^ 16 + unat (fst v)"

definition bgd_count :: "'c ext4_fs \<Rightarrow> buf \<Rightarrow> nat \<Rightarrow> nat \<Rightarrow> nat \<Rightarrow> nat" where
  "bgd_count fs b e lo hi = split_count (bgd_split fs b e lo hi)"

definition count_limit :: "'c ext4_fs \<Rightarrow> nat" where
  "count_limit fs = (if bgd_wide fs then 2 ^ 32 else 2 ^ 16)"

text \<open>The descriptor at \<open>e\<close> carries the checksum \<open>cs\<close> of a bitmap and a checksum of its own that is
  right.\<close>

definition sealed :: "'c ext4_fs \<Rightarrow> u32 \<Rightarrow> buf \<Rightarrow> nat \<Rightarrow> nat \<Rightarrow> nat \<Rightarrow> u32 \<Rightarrow> bool" where
  "sealed fs grp b e lo hi cs \<longleftrightarrow>
     le16 b (e + 0x1E) = bgd_compute_csum fs grp b e \<and> le16 b (e + lo) = ucast cs \<and>
     (bgd_wide fs \<longrightarrow> le16 b (e + hi) = ucast (drop_bit 16 cs))"

lemma split_parts:
  assumes "bgd_split fs b e lo hi = v"
  shows "unat (snd v) < 2 ^ 16" "\<not> bgd_wide fs \<Longrightarrow> snd v = 0"
proof -
  have "unat (le16 b (e + hi)) < 2 ^ 16" using unsigned_less [of "le16 b (e + hi)", where 'a = nat] by simp
  then show "unat (snd v) < 2 ^ 16" using assms by (auto simp: bgd_split_def)
  show "\<not> bgd_wide fs \<Longrightarrow> snd v = 0" using assms by (auto simp: bgd_split_def)
qed

lemma dec_split_count: "v \<noteq> (0, 0) \<Longrightarrow> split_count (dec_split v) + 1 = split_count v"
proof (cases "fst v = 0")
  case True
  assume "v \<noteq> (0, 0)"
  with True have n: "snd v \<noteq> 0" by (cases v) auto
  have "unat (snd v) = (unat (snd v) - 1) + 1" using unat_pos [OF n] by simp
  then show ?thesis using True unat_dec [OF n] by (simp add: split_count_def dec_split_def)
next
  case False
  then show ?thesis using unat_pos [OF False] by (simp add: split_count_def dec_split_def unat_dec)
qed

lemma inc_split_count:
  assumes "unat (snd v) < 2 ^ 16"
  shows "split_count (inc_split v) = split_count v + 1"
proof (cases "fst v + 1 = 0")
  case True
  then have "fst v = - 1" by (metis add_eq_0_iff minus_minus add.commute)
  then have "unat (fst v) = 2 ^ 16 - 1" by (simp add: unsigned_minus_1_eq_mask mask_eq_exp_minus_1)
  then show ?thesis using True assms by (simp add: split_count_def inc_split_def unat_suc)
next
  case False
  have "unat (fst v) + 1 < 2 ^ 16"
  proof (rule ccontr)
    assume "\<not> unat (fst v) + 1 < 2 ^ 16"
    then have "unat (fst v) + 1 = 2 ^ 16" using unsigned_less [of "fst v", where 'a = nat] by simp
    then have "unat (fst v + 1) = 0" by (simp add: unat_word_ariths)
    then show False using False by (simp add: unat_eq_0)
  qed
  then show ?thesis using False by (simp add: split_count_def inc_split_def unat_suc)
qed

text \<open>A count that fits into the descriptor reads back.\<close>

lemma split_stored:
  assumes "lo + 2 \<le> hi" "split_count v < count_limit fs"
  shows "bgd_split fs (bgd_put_split fs b e lo hi v) e lo hi = v"
proof (cases "bgd_wide fs")
  case True
  then have "unat (snd v) < 2 ^ 16" using assms(2) by (simp add: count_limit_def split_count_def)
  then have "ucast (ucast (snd v) :: u16) = snd v"
    by (simp add: word_unat_eq_iff unsigned_ucast_eq unsigned_take_bit_eq take_bit_nat_eq_self)
  moreover have "le16 (put_le16 (put_le16 b (e + lo) x) (e + hi) y) (e + lo) = x" for x y
    using assms(1) by (subst le16_cong [of _ _ "put_le16 b (e + lo) x"]) (simp_all add: put_le16_outside)
  ultimately show ?thesis using True by (cases v) (simp add: bgd_split_def bgd_put_split_def Let_def)
next
  case False
  then have "unat (snd v) = 0" using assms(2) by (cases "unat (snd v)") (simp_all add: count_limit_def split_count_def)
  then have "snd v = 0" by (simp add: unat_eq_0)
  then show ?thesis using False by (cases v) (simp add: bgd_split_def bgd_put_split_def Let_def)
qed

lemma count_below_limit: "bgd_count fs b e lo hi < count_limit fs"
proof -
  have "unat (fst v) < 2 ^ 16" for v :: "u16 \<times> u32"
    using unsigned_less [of "fst v", where 'a = nat] by simp
  from this [of "bgd_split fs b e lo hi"] split_parts [of fs b e lo hi, OF refl]
  show ?thesis by (auto simp: bgd_count_def split_count_def count_limit_def unat_eq_0)
qed

text \<open>Writing a count touches its own bytes only, and so does sealing.\<close>

lemma put_split_outside:
  assumes "i \<notin> {e + lo, e + lo + 1, e + hi, e + hi + 1}"
  shows "bgd_put_split fs b e lo hi v i = b i"
  using assms by (auto simp: bgd_put_split_def put_le16_def Let_def)

lemma finalize_outside:
  assumes "i \<notin> {e + lo, e + lo + 1, e + hi, e + hi + 1, e + 0x1E, e + 0x1F}"
  shows "bgd_finalize fs grp b e lo hi cs i = b i"
  using assms by (auto simp: bgd_finalize_def put_le16_def Let_def)

lemma finalize_sealed:
  assumes "lo + 2 \<le> 0x1E" "0x20 \<le> hi"
  shows "sealed fs grp (bgd_finalize fs grp b e lo hi cs) e lo hi cs"
proof -
  let ?b = "if bgd_wide fs then put_le16 (put_le16 b (e + lo) (ucast cs)) (e + hi) (ucast (drop_bit 16 cs))
    else put_le16 b (e + lo) (ucast cs)"
  have f: "bgd_finalize fs grp b e lo hi cs = put_le16 ?b (e + 0x1E) (bgd_compute_csum fs grp ?b e)"
    by (simp add: bgd_finalize_def Let_def)
  have "bgd_zero_csum (put_le16 ?b (e + 0x1E) x) e = bgd_zero_csum ?b e" for x
    by (rule ext) (simp add: bgd_zero_csum_def put_le16_def)
  then have c: "bgd_compute_csum fs grp (put_le16 ?b (e + 0x1E) x) e = bgd_compute_csum fs grp ?b e" for x
    by (simp add: bgd_compute_csum_def)
  have l: "le16 (put_le16 (put_le16 b (e + lo) x) (e + hi) y) (e + lo) = x" for x y
    using assms by (subst le16_cong [of _ _ "put_le16 b (e + lo) x"]) (simp_all add: put_le16_outside)
  have o: "le16 (put_le16 c (e + 0x1E) x) (e + p) = le16 c (e + p)" if "p = lo \<or> p = hi" for c x p
    using that assms by (intro le16_cong) (auto simp: put_le16_outside)
  show ?thesis unfolding sealed_def f c by (simp add: o l)
qed

lemma split_cong:
  assumes "\<And>i. i \<in> {e + lo, e + lo + 1, e + hi, e + hi + 1} \<Longrightarrow> b i = c i"
  shows "bgd_split fs b e lo hi = bgd_split fs c e lo hi"
  using assms by (simp add: bgd_split_def cong: le16_cong)

lemma take_block_facts:
  fixes fs :: "'c ext4_fs"
  defines "off \<equiv> bgd_entry_off fs"
  assumes "bgd_split fs b (off grp) 0x0C 0x2C \<noteq> (0, 0)"
  shows "bgd_count fs (bgd_take_block fs grp b bm) (off grp) 0x0C 0x2C + 1 = bgd_count fs b (off grp) 0x0C 0x2C"
    "sealed fs grp (bgd_take_block fs grp b bm) (off grp) 0x18 0x38 (bitmap_compute_csum fs bm)"
    "\<not> bit (bgd_take_block fs grp b bm (off grp + 0x12)) 0"
    "i < off grp \<or> off grp + 0x3A \<le> i \<Longrightarrow> bgd_take_block fs grp b bm i = b i"
proof -
  let ?e = "off grp" and ?v = "bgd_split fs b (off grp) 0x0C 0x2C"
  let ?p = "bgd_put_split fs b ?e 0x0C 0x2C (dec_split ?v)"
  let ?q = "if b (?e + 0x12) AND 1 \<noteq> 0 then ?p(?e + 0x12 := b (?e + 0x12) AND NOT 1) else ?p"
  have t: "bgd_take_block fs grp b bm = bgd_finalize fs grp ?q ?e 0x18 0x38 (bitmap_compute_csum fs bm)"
    by (simp add: bgd_take_block_def bgd_finalize_block_bitmap_csums_def off_def Let_def)
  have "split_count (dec_split ?v) + 1 = bgd_count fs b ?e 0x0C 0x2C"
    unfolding bgd_count_def by (rule dec_split_count [OF assms(2)])
  then have "split_count (dec_split ?v) < count_limit fs" using count_below_limit [of fs b ?e "0x0C" "0x2C"] by linarith
  then have "bgd_split fs ?p ?e 0x0C 0x2C = dec_split ?v" by (intro split_stored) simp
  moreover have "bgd_split fs (bgd_take_block fs grp b bm) ?e 0x0C 0x2C = bgd_split fs ?p ?e 0x0C 0x2C"
    unfolding t by (rule split_cong) (auto simp: finalize_outside)
  ultimately show "bgd_count fs (bgd_take_block fs grp b bm) ?e 0x0C 0x2C + 1 = bgd_count fs b ?e 0x0C 0x2C"
    using dec_split_count [OF assms(2)] by (simp add: bgd_count_def)
  show "sealed fs grp (bgd_take_block fs grp b bm) ?e 0x18 0x38 (bitmap_compute_csum fs bm)"
    unfolding t by (rule finalize_sealed) simp_all
  have "bgd_take_block fs grp b bm (?e + 0x12) = ?q (?e + 0x12)" unfolding t by (simp add: finalize_outside)
  moreover have "\<not> bit (?q (?e + 0x12)) 0"
  proof (cases "b (?e + 0x12) AND 1 = 0")
    case True
    then have "even (b (?e + 0x12))" by (simp add: and_one_eq mod2_eq_if split: if_splits)
    then show ?thesis using True by (simp add: put_split_outside bit_0)
  qed (simp add: bit_simps)
  ultimately show "\<not> bit (bgd_take_block fs grp b bm (?e + 0x12)) 0" by simp
  show "bgd_take_block fs grp b bm i = b i" if "i < ?e \<or> ?e + 0x3A \<le> i"
    using that unfolding t by (auto simp: finalize_outside put_split_outside)
qed

lemma give_block_facts:
  fixes fs :: "'c ext4_fs"
  defines "off \<equiv> bgd_entry_off fs"
  assumes "bgd_count fs b (off grp) 0x0C 0x2C + 1 < count_limit fs"
  shows "bgd_count fs (bgd_give_block fs grp b bm) (off grp) 0x0C 0x2C = bgd_count fs b (off grp) 0x0C 0x2C + 1"
    "sealed fs grp (bgd_give_block fs grp b bm) (off grp) 0x18 0x38 (bitmap_compute_csum fs bm)"
    "i < off grp \<or> off grp + 0x3A \<le> i \<Longrightarrow> bgd_give_block fs grp b bm i = b i"
proof -
  let ?e = "off grp" and ?v = "bgd_split fs b (off grp) 0x0C 0x2C"
  let ?p = "bgd_put_split fs b ?e 0x0C 0x2C (inc_split ?v)"
  have t: "bgd_give_block fs grp b bm = bgd_finalize fs grp ?p ?e 0x18 0x38 (bitmap_compute_csum fs bm)"
    by (simp add: bgd_give_block_def bgd_finalize_block_bitmap_csums_def off_def Let_def)
  have c: "split_count (inc_split ?v) = bgd_count fs b ?e 0x0C 0x2C + 1"
    unfolding bgd_count_def by (rule inc_split_count [OF split_parts(1) [OF refl]])
  then have "bgd_split fs ?p ?e 0x0C 0x2C = inc_split ?v" using assms(2) by (intro split_stored) simp_all
  moreover have "bgd_split fs (bgd_give_block fs grp b bm) ?e 0x0C 0x2C = bgd_split fs ?p ?e 0x0C 0x2C"
    unfolding t by (rule split_cong) (auto simp: finalize_outside)
  ultimately show "bgd_count fs (bgd_give_block fs grp b bm) ?e 0x0C 0x2C = bgd_count fs b ?e 0x0C 0x2C + 1"
    using c by (simp add: bgd_count_def)
  show "sealed fs grp (bgd_give_block fs grp b bm) ?e 0x18 0x38 (bitmap_compute_csum fs bm)"
    unfolding t by (rule finalize_sealed) simp_all
  show "bgd_give_block fs grp b bm i = b i" if "i < ?e \<or> ?e + 0x3A \<le> i"
    using that unfolding t by (auto simp: finalize_outside put_split_outside)
qed

section \<open>Taking a block\<close>

text \<open>The free count of a group's descriptor is the number of clear bits in its bitmap.\<close>

definition accounts :: "'c ext4_fs \<Rightarrow> u32 \<Rightarrow> buf \<Rightarrow> buf \<Rightarrow> bool" where
  "accounts fs grp bgd bm \<longleftrightarrow>
     card {k. k < block_bitmap_bits fs \<and> \<not> bmp_test bm k} = bgd_count fs bgd (bgd_entry_off fs grp) 0x0C 0x2C"

lemma accounts_vacant:
  "accounts fs grp bgd bm \<longleftrightarrow>
     card (bmp.vacant bm (block_bitmap_bits fs)) = bgd_count fs bgd (bgd_entry_off fs grp) 0x0C 0x2C"
  by (simp add: accounts_def bmp.vacant_def)

lemma keeps_tryX_orX: "keeps same_but_bgd m \<Longrightarrow> keeps same_but_bgd (tryX m)" "keeps same_but_bgd m \<Longrightarrow> keeps same_but_bgd (orX m rc)"
  by (rule keeps_tryX keeps_orX, assumption)+

lemma keeps_bgd_unchecked: "keeps same_but_bgd (bgd_get_unchecked grp)"
  unfolding bgd_get_unchecked_def by (rule keeps_bgd_get)

lemmas keeps_steps = keeps_bindE [OF _ _ transp_same_but_bgd] keeps_reads keeps_tryX_orX keeps_bgd_unchecked

lemma keeps_group_bitmap: "keeps same_but_bgd (group_block_bitmap bgd grp)"
  unfolding group_block_bitmap_def init_uninit_bitmap_def Let_def by (auto intro!: keeps_steps)

lemma keeps_try_block: "keeps same_but_bgd (try_group_block bgd grp)"
  unfolding try_group_block_def Let_def
  by (intro keeps_steps) (auto intro!: keeps_steps keeps_group_bitmap split: option.split)

text \<open>The groups are tried in order, and the first one that gives something is taken.\<close>

lemma first_group_ok:
  assumes "first_group try gs fs = (Inr x, fs')" "\<And>g. keeps same_but_bgd (try g)"
  shows "\<exists>g \<in> set gs. \<exists>fs1. same_but_bgd fs fs1 \<and> try g fs1 = (Inr (Some x), fs')"
  using assms(1)
proof (induction gs arbitrary: fs)
  case (Cons g gs)
  then obtain r u where r: "try g fs = (Inr r, u)"
      "(case r of Some x \<Rightarrow> retE x | None \<Rightarrow> first_group try gs) u = (Inr x, fs')"
    by (auto simp: bindE_Inr_iff)
  have s: "same_but_bgd fs u" using keepsD [OF assms(2) r(1)] .
  show ?case
  proof (cases r)
    case None
    with r(2) have "\<exists>h \<in> set gs. \<exists>fs1. same_but_bgd u fs1 \<and> try h fs1 = (Inr (Some x), fs')"
      by (intro Cons.IH) simp
    with s show ?thesis by (meson list.set_intros(2) same_but_bgd_trans)
  next
    case (Some y)
    with r have "try g fs = (Inr (Some x), fs')" by simp
    then show ?thesis by (metis list.set_intros(1) same_but_bgd_refl)
  qed
qed simp

lemma same_but_bgd_eq:
  assumes "same_but_bgd fs fs'"
  obtains b c where "fs' = fs\<lparr>fs_bgd_buf := b, fs_bgd_cached_block := c\<rparr>"
proof -
  have "fs' = fs\<lparr>fs_bgd_buf := fs_bgd_buf fs', fs_bgd_cached_block := fs_bgd_cached_block fs'\<rparr>"
    using assms by (cases fs; cases fs'; simp add: same_but_bgd_def)
  then show ?thesis by (rule that)
qed

lemma same_defs:
  assumes "same_but_bgd fs fs'"
  shows "block_bitmap_bits fs' = block_bitmap_bits fs" "group_first_block fs' grp = group_first_block fs grp"
    "bgd_block fs' b lo hi = bgd_block fs b lo hi" "bgd_entry_off fs' grp = bgd_entry_off fs grp"
    "bgd_split fs' b e lo hi = bgd_split fs b e lo hi"
    "bgd_take_block fs' grp b bm = bgd_take_block fs grp b bm"
  by (rule same_but_bgd_eq [OF assms], simp add: block_bitmap_bits_def group_first_block_def bgd_block_def
      bgd_wide_def bgd_entry_off_def bgd_split_def bgd_take_block_def bgd_put_split_def Let_def
      bgd_finalize_block_bitmap_csums_def bgd_finalize_def bitmap_compute_csum_def bgd_compute_csum_def metadata_csum_def)+

lemma find_free_block_from:
  assumes "find_free_block fs = (Inr a, fs')"
  obtains bgd g bm k fs1 where "ext4_fs_read_block fs (bgd_fs_block fs) = Inr bgd" "same_but_bgd fs fs1"
    "unat g < unat (fs_bgd_count fs)" "group_block_bitmap bgd g fs1 = (Inr bm, fs')"
    "bmp_find bm (block_bitmap_bits fs) = Some k" "bgd_split fs bgd (bgd_entry_off fs g) 0x0C 0x2C \<noteq> (0, 0)"
    "a = \<lparr>ba_block = group_first_block fs g + word_of_nat k,
          ba_bitmap_phys = bgd_block fs (at bgd (bgd_entry_off fs g)) 0x00 0x20, ba_group = g,
          ba_bgd = bgd_take_block fs g bgd (bmp_set bm k), ba_bitmap = bmp_set bm k\<rparr>"
proof -
  from assms obtain bgd where bgd: "ext4_fs_read_block fs (bgd_fs_block fs) = Inr bgd"
      "first_group (try_group_block bgd) (group_numbers fs) fs = (Inr a, fs')"
    by (auto simp: find_free_block_def bindE_Inr_iff orX_Inr_iff fs_read_block_def)
  from first_group_ok [OF bgd(2) keeps_try_block] obtain g fs1 where g: "g \<in> set (group_numbers fs)"
      "same_but_bgd fs fs1" "try_group_block bgd g fs1 = (Inr (Some a), fs')"
    by blast
  note d = same_defs [OF g(2)]
  have gn: "unat g < unat (fs_bgd_count fs)"
    using g(1) unsigned_less [of "fs_bgd_count fs", where 'a = nat]
    by (auto simp: group_numbers_def unsigned_of_nat take_bit_nat_eq_self)
  from g(3) obtain bm k where "group_block_bitmap bgd g fs1 = (Inr bm, fs')"
      "bmp_find bm (block_bitmap_bits fs) = Some k"
      "bgd_split fs bgd (bgd_entry_off fs g) 0x0C 0x2C \<noteq> (0, 0)"
      "a = \<lparr>ba_block = group_first_block fs g + word_of_nat k,
            ba_bitmap_phys = bgd_block fs (at bgd (bgd_entry_off fs g)) 0x00 0x20, ba_group = g,
            ba_bgd = bgd_take_block fs g bgd (bmp_set bm k), ba_bitmap = bmp_set bm k\<rparr>"
    by (auto simp: try_group_block_def bindE_Inr_iff tryX_Some_iff Let_def d split: if_splits option.splits)
  with bgd(1) g(2) gn show ?thesis by (rule that)
qed

text \<open>
  C18: When the block allocator succeeds it has taken, in a group of the volume, the first clear bit
  of the group's bitmap: the block is the one that bit stands for, the new bitmap has exactly that
  bit more, and the new descriptor has a free count one lower, no uninitialised flag and valid
  checksums of the bitmap and of itself; a free count that agreed with the bitmap still does.
\<close>

theorem find_free_block_takes:
  assumes "find_free_block fs = (Inr a, fs')"
  shows "\<exists>bgd bm k fs1. same_but_bgd fs fs1 \<and> ext4_fs_read_block fs (bgd_fs_block fs) = Inr bgd \<and>
    unat (ba_group a) < unat (fs_bgd_count fs) \<and> group_block_bitmap bgd (ba_group a) fs1 = (Inr bm, fs') \<and>
    k < block_bitmap_bits fs \<and> \<not> bmp_test bm k \<and> (\<forall>j<k. bmp_test bm j) \<and>
    ba_block a = group_first_block fs (ba_group a) + word_of_nat k \<and>
    (\<forall>j. bmp_test (ba_bitmap a) j = (j = k \<or> bmp_test bm j)) \<and>
    bgd_count fs (ba_bgd a) (bgd_entry_off fs (ba_group a)) 0x0C 0x2C + 1 =
      bgd_count fs bgd (bgd_entry_off fs (ba_group a)) 0x0C 0x2C \<and>
    \<not> bit (ba_bgd a (bgd_entry_off fs (ba_group a) + 0x12)) 0 \<and>
    sealed fs (ba_group a) (ba_bgd a) (bgd_entry_off fs (ba_group a)) 0x18 0x38 (bitmap_compute_csum fs (ba_bitmap a)) \<and>
    (accounts fs (ba_group a) bgd bm \<longrightarrow> accounts fs (ba_group a) (ba_bgd a) (ba_bitmap a))"
proof -
  from assms obtain bgd g bm k fs1 where bgd: "ext4_fs_read_block fs (bgd_fs_block fs) = Inr bgd" "same_but_bgd fs fs1"
    and gn: "unat g < unat (fs_bgd_count fs)"
    and bm: "group_block_bitmap bgd g fs1 = (Inr bm, fs')" "bmp_find bm (block_bitmap_bits fs) = Some k"
      "bgd_split fs bgd (bgd_entry_off fs g) 0x0C 0x2C \<noteq> (0, 0)"
      "a = \<lparr>ba_block = group_first_block fs g + word_of_nat k,
            ba_bitmap_phys = bgd_block fs (at bgd (bgd_entry_off fs g)) 0x00 0x20, ba_group = g,
            ba_bgd = bgd_take_block fs g bgd (bmp_set bm k), ba_bitmap = bmp_set bm k\<rparr>"
    by (rule find_free_block_from)
  note k = bmp.find_vacant [OF bm(2) [unfolded bmp_find_def]]
  then have kk: "k < block_bitmap_bits fs" "\<not> bmp_test bm k" by (simp_all add: bmp.vacant_def)
  note f = take_block_facts [OF bm(3), where bm = "bmp_set bm k"]
  have "accounts fs g (ba_bgd a) (ba_bitmap a)" if "accounts fs g bgd bm"
    using that f(1) bmp.card_ins [OF kk] by (simp add: accounts_vacant bm(4))
  then show ?thesis
    using bgd gn bm(1) kk k(2) f bmp.member_ins
    by (intro exI [of _ bgd] exI [of _ bm] exI [of _ k] exI [of _ fs1]) (simp add: bm(4))
qed

section \<open>Freeing undoes allocating\<close>

lemma bits_below_group: "k < block_bitmap_bits fs \<Longrightarrow> k < unat (s_blocks_per_group (fs_sb fs))"
proof -
  have "unat (drop_bit 3 w) * 8 \<le> unat w" for w :: u32
    unfolding unat_drop_bit_eq by (simp add: drop_bit_eq_div)
  moreover assume "k < block_bitmap_bits fs"
  moreover have "block_bitmap_bits fs \<le> unat (drop_bit 3 (s_blocks_per_group (fs_sb fs))) * 8"
    by (simp add: block_bitmap_bits_def)
  ultimately show ?thesis by (meson le_trans less_le_trans)
qed

text \<open>The group and the bit of a block are where the allocator found them.\<close>

lemma block_address:
  assumes "k < unat (s_blocks_per_group (fs_sb fs))"
  shows "free_group fs (group_first_block fs grp + word_of_nat k) = grp"
    "unat (bit_of_block fs (group_first_block fs grp + word_of_nat k)) = k"
proof -
  let ?bpg = "s_blocks_per_group (fs_sb fs)" and ?first = "s_first_data_block (fs_sb fs)"
  let ?rel = "group_first_block fs grp + word_of_nat k - ucast ?first :: u64"
  have b: "unat ?bpg < 2 ^ 32" "unat grp < 2 ^ 32" "k < 2 ^ 32"
    using unsigned_less [of ?bpg, where 'a = nat] unsigned_less [of grp, where 'a = nat] assms by simp_all
  have "unat grp * unat ?bpg \<le> (2 ^ 32 - 1) * (2 ^ 32 - 1)"
    using b by (intro mult_le_mono) simp_all
  then have lim: "unat grp * unat ?bpg + k < 2 ^ 64" using b by simp
  have rel: "?rel = ucast grp * ucast ?bpg + word_of_nat k" by (simp add: group_first_block_def)
  have uk: "unat (word_of_nat k :: u64) = k" using b by (simp add: unsigned_of_nat take_bit_nat_eq_self)
  have "unat (ucast grp * ucast ?bpg :: u64) = unat grp * unat ?bpg"
    using lim by (simp add: unat_word_ariths)
  then have u: "unat ?rel = unat grp * unat ?bpg + k"
    unfolding rel using lim by (simp add: unat_word_ariths uk)
  have d: "unat (?rel div ucast ?bpg) = unat grp" "unat (?rel mod ucast ?bpg) = k"
    using assms by (simp_all add: unat_div unat_mod u)
  show "free_group fs (group_first_block fs grp + word_of_nat k) = grp"
    unfolding free_group_def word_unat_eq_iff using d b by (simp add: unat_ucast_64_32)
  show "unat (bit_of_block fs (group_first_block fs grp + word_of_nat k)) = k"
    unfolding bit_of_block_def using d b by (simp add: unat_ucast_64_32)
qed

lemma sb_recompute_outside: "i < off + 0x3FC \<Longrightarrow> sb_recompute_csum fs b off i = b i"
  by (simp add: sb_recompute_csum_def Let_def put_le32_outside fill_bytes_def)

lemma sb_free_blocks_stored:
  assumes "fs_64bit fs \<or> unat v < 2 ^ 32"
  shows "sb_free_blocks fs (sb_put_free_blocks fs b p v) p = v"
proof -
  let ?c = "if fs_64bit fs then put_le32 (put_le32 b (p + 0x0C) (ucast v)) (p + 0x158) (ucast (drop_bit 32 v))
    else put_le32 b (p + 0x0C) (ucast v)"
  have r: "le32 (sb_put_free_blocks fs b p v) (p + q) = le32 ?c (p + q)" if "q + 4 \<le> 0x3FC" for q
    using that by (intro le32_cong) (auto simp: sb_put_free_blocks_def Let_def sb_recompute_outside)
  have lo: "le32 ?c (p + 0x0C) = ucast v"
  proof (cases "fs_64bit fs")
    case True
    have "le32 (put_le32 (put_le32 b (p + 0x0C) x) (p + 0x158) y) (p + 0x0C) = x" for x y
      by (subst le32_cong [of _ _ "put_le32 b (p + 0x0C) x"]) (simp_all add: put_le32_outside)
    with True show ?thesis by simp
  qed simp
  have hi: "fs_64bit fs \<Longrightarrow> le32 ?c (p + 0x158) = ucast (drop_bit 32 v)" by simp
  have wide: "push_bit 32 (ucast (ucast (drop_bit 32 v) :: u32)) OR ucast (ucast v :: u32) = v"
    by (rule bit_word_eqI) (auto simp: bit_simps)
  have narrow: "ucast (ucast v :: u32) = v" if "unat v < 2 ^ 32"
    using that by (simp add: word_unat_eq_iff unat_ucast_64_32)
  show ?thesis
    using assms wide narrow by (auto simp: sb_free_blocks_def r lo hi)
qed

lemma sb_free_blocks_narrow: "\<not> fs_64bit fs \<Longrightarrow> unat (sb_free_blocks fs b p) < 2 ^ 32"
  using unsigned_less [of "le32 b (p + 0x0C)", where 'a = nat] by (simp add: sb_free_blocks_def)

text \<open>
  C19: Freeing a block that was just allocated undoes the allocation: the block's number leads back
  to its group and its bit, the bitmap is the old one, the group's and the volume's free counts are
  the old ones, the checksums are right again, and no other byte of the descriptor block changed.
\<close>

theorem free_undoes_alloc:
  assumes "bmp_find bm (block_bitmap_bits fs) = Some k"
    "bgd_split fs bgd (bgd_entry_off fs grp) 0x0C 0x2C \<noteq> (0, 0)" "sb_free_blocks fs sb p \<noteq> 0"
  shows "let blk = group_first_block fs grp + word_of_nat k; e = bgd_entry_off fs grp;
      bgd1 = bgd_take_block fs grp bgd (bmp_set bm k);
      sb1 = sb_put_free_blocks fs sb p (sb_free_blocks fs sb p - 1);
      bm2 = bmp_clear (bmp_set bm k) (unat (bit_of_block fs blk));
      bgd2 = bgd_give_block fs (free_group fs blk) bgd1 bm2;
      sb2 = sb_put_free_blocks fs sb1 p (sb_free_blocks fs sb1 p + 1)
    in bm2 = bm \<and> free_group fs blk = grp \<and> bgd_count fs bgd2 e 0x0C 0x2C = bgd_count fs bgd e 0x0C 0x2C \<and>
       sealed fs grp bgd2 e 0x18 0x38 (bitmap_compute_csum fs bm) \<and>
       sb_free_blocks fs sb2 p = sb_free_blocks fs sb p \<and>
       (\<forall>i. i < e \<or> e + 0x3A \<le> i \<longrightarrow> bgd2 i = bgd i)"
proof -
  let ?e = "bgd_entry_off fs grp" and ?b1 = "bgd_take_block fs grp bgd (bmp_set bm k)"
  let ?blk = "group_first_block fs grp + word_of_nat k" and ?n = "sb_free_blocks fs sb p"
  have k: "k < block_bitmap_bits fs" "\<not> bmp_test bm k"
    using bmp.find_vacant [OF assms(1) [unfolded bmp_find_def]] by (simp_all add: bmp.vacant_def)
  note a = block_address [OF bits_below_group [OF k(1)], of grp]
  note t = take_block_facts [OF assms(2), where bm = "bmp_set bm k"]
  have "bgd_count fs ?b1 ?e 0x0C 0x2C + 1 < count_limit fs"
    using t(1) count_below_limit [of fs bgd ?e "0x0C" "0x2C"] by simp
  note g = give_block_facts [OF this, where bm = bm]
  have "unat (?n - 1) \<le> unat ?n" using unat_dec [OF assms(3)] by simp
  then have "fs_64bit fs \<or> unat (?n - 1) < 2 ^ 32" "fs_64bit fs \<or> unat ?n < 2 ^ 32"
    using sb_free_blocks_narrow [of fs sb p] by (auto simp: not_less intro: le_less_trans)
  note s = sb_free_blocks_stored [OF this(1)] sb_free_blocks_stored [OF this(2)]
  show ?thesis
    using g t(1,4) unfolding Let_def a bmp.del_ins [OF k(2)] by (simp add: s)
qed

section \<open>Examples\<close>

text \<open>A volume with one group: the descriptor in block 2 counts five free blocks and points to the
  bitmaps in blocks 3 and 4 and the inode table from block 5 on; the first two blocks are taken.\<close>

definition group_image :: buf where
  "group_image = zero_buf(2048 := 3, 2052 := 4, 2056 := 5, 2060 := 5, 3072 := 3)"

abbreviation group_fs :: "file_ctx ext4_fs" where
  "group_fs \<equiv> sample_fs group_image sample_superblock sample_jbd"

lemma group_fs_read: "unat blk < 64 \<Longrightarrow>
    ext4_fs_read_block group_fs blk = Inr (trunc 1024 (at group_image (unat blk * 1024)))"
  by (rule sample_read) (simp_all add: sample_superblock_def group_image_def zero_buf_def sample_jbd_def jbd_none_def)

lemma group_fs_fields:
  "fs_bgd_count group_fs = 1" "fs_bgd_size group_fs = 32" "s_blocks_per_group (fs_sb group_fs) = 8192"
  "block_size group_fs = 1024" "s_first_data_block (fs_sb group_fs) = 1" "block_bitmap_bits group_fs = 8192"
  by (simp_all add: sample_superblock_def fs_group_count_def block_bitmap_bits_def write_buf_size_def drop_bit_eq_div)

definition group_desc :: buf where "group_desc = trunc 1024 (at group_image 2048)"
definition group_bitmap :: buf where "group_bitmap = trunc 1024 (at group_image 3072)"

lemma group_desc_fields:
  "group_desc 0x12 = 0" "bgd_split group_fs group_desc 0 0x0C 0x2C = (5, 0)"
  "bgd_block group_fs group_desc 0x00 0x20 = 3"
  by (simp_all add: group_desc_def group_image_def zero_buf_def bgd_split_def bgd_block_def bgd_wide_def
      group_fs_fields le16_def le32_def at_def trunc_def)

lemma group_bitmap_first: "bmp_find group_bitmap 8192 = Some 2"
proof -
  have "group_bitmap 0 = 3" by (simp add: group_bitmap_def group_image_def at_def trunc_def)
  then have t: "bmp_test group_bitmap 0" "bmp_test group_bitmap 1" "\<not> bmp_test group_bitmap 2"
    by (simp_all add: bmp_test_def bmp_mask_def)
  moreover have "j < 2 \<Longrightarrow> j = 0 \<or> j = 1" for j :: nat by linarith
  ultimately show ?thesis unfolding bmp_find_def find_upt_Some by auto
qed

lemma group_try: "\<exists>a fs'. find_free_block group_fs = (Inr a, fs')"
proof -
  have e: "bgd_entry_off group_fs 0 = 0" "bgd_entry_fits group_fs 0"
    by (simp_all add: bgd_entry_off_def bgd_entry_fits_def group_fs_fields write_buf_size_def)
  have "ext4_fs_read_block group_fs (bgd_fs_block group_fs) = Inr group_desc"
    by (simp add: bgd_fs_block_def group_fs_fields group_fs_read group_desc_def)
  moreover have "group_block_bitmap group_desc 0 group_fs = (Inr group_bitmap, group_fs)"
    by (simp add: group_block_bitmap_def bindE_def e group_desc_fields fs_read_block_def group_fs_read group_bitmap_def)
  moreover have "group_numbers group_fs = [0]" by (simp add: group_numbers_def group_fs_fields del: sample_fields)
  ultimately show ?thesis
    by (simp add: find_free_block_def try_group_block_def bindE_def orX_def tryX_def fs_read_block_def e
        group_desc_fields group_fs_fields group_bitmap_first Let_def del: sample_fields)
qed

theorem find_free_block_takes_witness:
  "\<exists>a fs' bgd bm k. find_free_block group_fs = (Inr a, fs') \<and>
    ext4_fs_read_block group_fs (bgd_fs_block group_fs) = Inr bgd \<and> k < block_bitmap_bits group_fs \<and>
    \<not> bmp_test bm k \<and> bmp_test (ba_bitmap a) k \<and>
    ba_block a = group_first_block group_fs (ba_group a) + word_of_nat k"
proof -
  obtain a fs' where f: "find_free_block group_fs = (Inr a, fs')" using group_try by blast
  from find_free_block_takes [OF f] f show ?thesis by blast
qed

theorem free_undoes_alloc_witness:
  "bmp_clear (bmp_set group_bitmap 2)
     (unat (bit_of_block group_fs (group_first_block group_fs 0 + word_of_nat 2))) = group_bitmap"
proof -
  have e: "bgd_entry_off group_fs 0 = 0" by (simp add: bgd_entry_off_def)
  have "sb_free_blocks group_fs (zero_buf(0x0C := 10)) 0 \<noteq> 0"
    by (simp add: sb_free_blocks_def fs_64bit_def le32_def zero_buf_def sample_superblock_def)
  from free_undoes_alloc [OF _ _ this, of group_bitmap 2 group_desc 0] show ?thesis
    by (simp add: group_fs_fields group_bitmap_first group_desc_fields e Let_def del: sample_fields)
qed

end
