(* ===== verification/OneCommit.thy ===== *)
theory OneCommit
  imports Allocating Crash
begin

text \<open>
  Operations that read, prepare their blocks and commit them as one transaction.  The reads change
  the descriptor cache at most, so the journal sees the volume as it was when the operation began.
\<close>

section \<open>The descriptor cache and the journal\<close>

lemma same_but_bgd_vol:
  assumes "same_but_bgd fs fs'"
  shows "vol fs' = vol fs" "disk fs' = disk fs" "blk_ok fs' n = blk_ok fs n" "alive fs' = alive fs"
    "log_ok fs' = log_ok fs" "sb_blk fs' = sb_blk fs" "home_writes fs' ts = home_writes fs ts"
    "trans_ready fs' ts = trans_ready fs ts"
proof -
  obtain b c where e: "fs' = fs\<lparr>fs_bgd_buf := b, fs_bgd_cached_block := c\<rparr>"
    using assms by (rule same_but_bgd_eq)
  show d: "disk fs' = disk fs" by (simp add: fun_eq_iff e disk_def vol_base_def)
  show v: "vol fs' = vol fs" by (simp add: e vol_def)
  have k: "blk_ok fs' n = blk_ok fs n" for n by (simp add: e blk_ok_def vol_base_def)
  then show "blk_ok fs' n = blk_ok fs n" .
  show "alive fs' = alive fs" by (simp add: e alive_def)
  show l: "log_ok fs' = log_ok fs" using k by (simp add: log_ok_def Let_def) (simp add: e)
  show s: "sb_blk fs' = sb_blk fs" by (simp add: e sb_blk_def)
  show "home_writes fs' ts = home_writes fs ts" by (simp add: e home_writes_def)
  show "trans_ready fs' ts = trans_ready fs ts"
    unfolding trans_ready_def v k l s by (simp add: e)
qed

lemma same_but_bgd_writes:
  assumes "same_but_bgd fs fs'"
  shows "commit_writes fs' ts = commit_writes fs ts" "vol_step fs' fs2 = vol_step fs fs2"
proof -
  note f = same_but_bgd_fields [OF assms] and s = same_but_bgd_vol [OF assms]
  show "commit_writes fs' ts = commit_writes fs ts" by (rule commit_writes_cong) (simp_all add: f s)
  show "vol_step fs' fs2 = vol_step fs fs2" using s(1,3,4) by (auto simp: vol_step_def f)
qed

section \<open>Atomic operations\<close>

text \<open>The outcome of an operation that commits \<open>ts\<close>, and of one that gave up before.\<close>

definition one_commit :: "jbd_trans \<Rightarrow> 'c ext4_fs \<Rightarrow> int + 'a \<Rightarrow> 'c ext4_fs \<Rightarrow> bool" where
  "one_commit ts fs r fs' \<longleftrightarrow>
     (\<exists>fs1 c. same_but_bgd fs fs1 \<and> ext4_journal_commit ts fs1 = (c, fs') \<and> isl c = isl r)"

definition no_commit :: "'c ext4_fs \<Rightarrow> int + 'a \<Rightarrow> 'c ext4_fs \<Rightarrow> bool" where
  "no_commit fs r fs' \<longleftrightarrow> same_but_bgd fs fs' \<and> isl r"

text \<open>The journal of the volume is in the state a mount or a commit leaves it in.\<close>

definition log_idle :: "file_ctx ext4_fs \<Rightarrow> jbd_trans \<Rightarrow> bool" where
  "log_idle fs ts \<longleftrightarrow> unat (jbd_maxlen (fs_jbd fs)) + 4 < 2 ^ 31 \<and>
     jsb_describes (fs_jbd fs) (disk fs (log_blk (fs_jbd fs) 0)) \<and>
     be32 (disk fs (log_blk (fs_jbd fs) 0)) 0x1C = 0 \<and>
     tail_quiet (fs_jbd fs) (disk fs) ts"

lemma one_commit_recovers:
  assumes "one_commit ts fs r fs'" "trans_ready fs ts" "log_idle fs ts"
  shows "\<exists>fs2. recover fs (fs_bd fs') = (Inr (), fs2) \<and>
    (vol_agrees fs (disk fs2) (dwrites (disk fs) (home_writes fs ts)) \<or>
     isl r \<and> vol_agrees fs (disk fs2) (disk fs))"
proof -
  from assms(1) obtain fs1 c where s: "same_but_bgd fs fs1" and c: "ext4_journal_commit ts fs1 = (c, fs')" "isl c = isl r"
    by (auto simp: one_commit_def)
  note v = same_but_bgd_vol [OF s] same_but_bgd_writes [OF s]
  have "trans_ready fs1 ts" using assms(2) by (simp add: v)
  from emits_commit [OF this] c(1) obtain k where "vol_step fs fs'"
    "disk fs' = dwrites (disk fs) (take k (commit_writes fs ts))" "(\<exists>rc. c = Inl rc) \<or> k = length (commit_writes fs ts)"
    by (cases rule: emitsE) (auto simp: v)
  with assms(2,3) obtain fs2 where "recover fs (fs_bd fs') = (Inr (), fs2)"
    "vol_agrees fs (disk fs2) (dwrites (disk fs) (home_writes fs ts)) \<or>
     (\<exists>rc. c = Inl rc) \<and> vol_agrees fs (disk fs2) (disk fs)"
    using cut_recovers [of fs ts fs' k c] by (auto simp: log_idle_def)
  moreover have "(\<exists>rc. c = Inl rc) \<longleftrightarrow> isl r" by (cases c) (use c(2) in auto)
  ultimately show ?thesis by auto
qed

lemma no_commit_recovers:
  assumes "no_commit fs r fs'" "vol fs" "log_ok fs" "jbd_present (fs_jbd fs)"
    "jsb_describes (fs_jbd fs) (disk fs (log_blk (fs_jbd fs) 0))" "be32 (disk fs (log_blk (fs_jbd fs) 0)) 0x1C = 0"
  shows "\<exists>fs2. recover fs (fs_bd fs') = (Inr (), fs2) \<and> vol_agrees fs (disk fs2) (disk fs)"
proof -
  have s: "same_but_bgd fs fs'" using assms(1) by (simp add: no_commit_def)
  have "vol_step fs fs'" using same_but_bgd_writes(2) [OF s, of fs'] same_but_bgd_vol(1) [OF s] assms(2) by simp
  from recover_clean [OF this assms(3,4)] assms(5,6) obtain fs2 where
    "recover fs (fs_bd fs') = (Inr (), fs2)" "disk fs2 = disk fs'"
    by (auto simp: same_but_bgd_vol(2) [OF s])
  then show ?thesis by (auto simp: same_but_bgd_vol(2) [OF s] vol_agrees_def)
qed

text \<open>The success of an operation whose commit succeeds.\<close>

lemma commit_after_reads:
  assumes "same_but_bgd fs fs1" "trans_ready fs ts" "alive fs"
  shows "\<exists>fs'. ext4_journal_commit ts fs1 = (Inr (), fs') \<and> \<not> jbd_replay_active (fs_jbd fs') \<and> vol_step fs fs' \<and>
    vol_agrees fs (disk fs') (dwrites (disk fs) (home_writes fs ts))"
proof -
  note v = same_but_bgd_vol [OF assms(1)] same_but_bgd_writes [OF assms(1)]
  have t: "trans_ready fs1 ts" "alive fs1" using assms(2,3) by (simp_all add: v)
  from commit_done [OF t] obtain fs' where c: "ext4_journal_commit ts fs1 = (Inr (), fs')" "committed fs1 fs'"
      "vol_agrees fs1 (disk fs') (dwrites (disk fs1) (home_writes fs1 ts))" by blast
  have "vol_step fs1 fs'" using emits_commit [OF t(1)] c(1) by (cases rule: emitsE) auto
  moreover have "vol_agrees fs1 d d' = vol_agrees fs d d'" for d d'
    using same_but_bgd_fields [OF assms(1)]
    by (simp add: vol_agrees_def sb_same_def recover_bytes_def sb_off_def v)
  ultimately show ?thesis using c by (auto simp: v committed_def)
qed

text \<open>What a reader sees after it.\<close>

lemma vol_agrees_off_sb:
  "vol_agrees fs d d' \<Longrightarrow> \<not> in_log (fs_jbd fs) n \<Longrightarrow> n \<noteq> sb_blk fs \<Longrightarrow> d n = d' n"
  by (simp add: vol_agrees_def sb_same_def recover_bytes_def fun_eq_iff)

lemma read_plain:
  "vol fs \<Longrightarrow> blk_ok fs (unat p) \<Longrightarrow> \<not> jbd_replay_active (fs_jbd fs) \<Longrightarrow>
   ext4_fs_read_block fs p = Inr (disk fs (unat p))"
  using raw_read_disk [of fs p] by (simp add: ext4_fs_read_block_def ext4_journal_lookup_def)

lemma read_after_commit:
  assumes "\<not> jbd_replay_active (fs_jbd fs')" "vol_step fs fs'"
    "vol_agrees fs (disk fs') (dwrites (disk fs) (home_writes fs ts))"
    "blk_ok fs (unat p)" "\<not> in_log (fs_jbd fs) (unat p)" "unat p \<noteq> sb_blk fs"
  shows "ext4_fs_read_block fs' p = Inr (dwrites (disk fs) (home_writes fs ts) (unat p))"
  using read_plain [of fs' p] vol_stepD(1,2) [OF assms(2)] assms(1,4)
    vol_agrees_off_sb [OF assms(3,5,6)] by simp

end
