(* ===== verification/SampleFile.thy ===== *)
theory SampleFile
  imports OneCommit Journalling
begin

text \<open>
  The sample volume with one file on it: inode 12 in block 6, a regular file of 1024 bytes whose
  data is block 24, in a group whose bitmap in block 3 has blocks 1 to 24 taken.  The device stops
  after \<open>k\<close> writes; \<open>-1\<close> is never.
\<close>

section \<open>The volume\<close>

definition file_image :: buf where
  "file_image = sample_image(1036 := 5, 2048 := 3, 2052 := 4, 2056 := 5, 2060 := 5,
     3072 := 0xFF, 3073 := 0xFF, 3074 := 0xFF,
     6528 := 0xA4, 6529 := 0x81, 6533 := 4, 6554 := 1, 6562 := 8,
     6568 := 0x0A, 6569 := 0xF3, 6570 := 1, 6572 := 4, 6584 := 1, 6588 := 24)"

definition file_fs :: "int \<Rightarrow> file_ctx ext4_fs" where
  "file_fs k = (let fs = sample_fs file_image sample_superblock sample_jbd
     in fs\<lparr>fs_bd := file_bdev_set_fail_after (fs_bd fs) k\<rparr>)"

lemma file_fs_fields [simp]:
  "fs_jbd (file_fs k) = sample_jbd" "fs_sb (file_fs k) = sample_superblock"
  "fs_bgd_cached_block (file_fs k) = ext4_fs_bgd_invalid" "fs_bgd_count (file_fs k) = 1"
  "fs_bgd_size (file_fs k) = 32" "fs_partition_lba (file_fs k) = 0"
  by (simp_all add: file_fs_def Let_def fs_group_count_def sample_superblock_def drop_bit_eq_div)

lemma file_image_0: "65536 \<le> i \<Longrightarrow> file_image i = 0"
  by (simp add: file_image_def sample_image_0)

lemma file_fs_disk: "disk (file_fs k) n = trunc 1024 (at file_image (n * 1024))"
  using sample_disk [of sample_superblock file_image sample_jbd n]
  by (simp add: file_fs_def Let_def disk_def vol_base_def file_contents_def file_bdev_set_fail_after_def)

lemma file_fs_vol: "vol (file_fs k)"
  using sample_vol(1) [of sample_superblock file_image sample_jbd] file_image_0
  by (auto simp: file_fs_def Let_def vol_def file_dev_def file_bdev_set_fail_after_def)

lemma file_fs_blk_ok: "n < 64 \<Longrightarrow> blk_ok (file_fs k) n"
  using sample_blk_ok [of sample_superblock n file_image sample_jbd]
  by (simp add: file_fs_def Let_def blk_ok_def vol_base_def file_bdev_set_fail_after_def)

lemma file_fs_alive: "alive (file_fs (-1))"
  by (simp add: alive_def file_fs_def Let_def file_bdev_set_fail_after_def)

lemma file_fs_log_ok: "log_ok (file_fs k)"
proof -
  have u: "unat w < 8" if "w < (8 :: u32)" for w using that by (simp add: word_less_nat_alt)
  have "blk_ok (file_fs k) (log_blk sample_jbd w)" if "w < 8" for w
    using u [OF that] by (intro file_fs_blk_ok) (simp add: sample_log_blk that)
  then show ?thesis
    by (auto simp: log_ok_def Let_def sample_log_phys sample_log_blk word_unat_eq_iff)
qed

lemma file_fs_ready:
  assumes "ts \<noteq> []" "length ts \<le> 5" "distinct (map fst ts)" "\<forall>(blk, b) \<in> set ts. unat blk < 40"
  shows "trans_ready (file_fs k) ts"
proof -
  have sb: "sb_blk (file_fs k) = 1" by (simp add: sb_blk_def)
  have out: "\<not> in_log sample_jbd n" if "n < 40" for n using that by (auto dest: sample_in_log)
  have "descriptor_cap sample_jbd = 996" "jbd_tag_bytes sample_jbd = 8"
    by (simp_all add: descriptor_cap_def jbd_tag_bytes_def)
  moreover have "blk_ok (file_fs k) (unat blk) \<and> \<not> in_log sample_jbd (unat blk)" if "(blk, b) \<in> set ts" for blk b
    using assms(4) that out by (force intro: file_fs_blk_ok)
  ultimately show ?thesis
    using assms out [of 1]
    by (auto simp: trans_ready_def sb file_fs_vol file_fs_log_ok file_fs_blk_ok trans_max_blocks_def)
qed
text \<open>Its log is that of the sample volume.\<close>

lemma file_fs_log: "40 \<le> n \<Longrightarrow> disk (file_fs k) n = disk (sample_until k) n"
  unfolding file_fs_disk sample_until_disk
  by (rule ext) (simp add: trunc_def at_def file_image_def)

lemma file_fs_journal:
  "jsb_describes (fs_jbd (file_fs k)) (disk (file_fs k) (log_blk (fs_jbd (file_fs k)) 0))"
  "be32 (disk (file_fs k) (log_blk (fs_jbd (file_fs k)) 0)) 0x1C = 0"
  using sample_until_describes [of k] sample_until_clean [of k]
  by (simp_all add: file_fs_log sample_log_blk)

lemma file_fs_quiet: "tail_quiet (fs_jbd (file_fs k)) (disk (file_fs k)) ts"
proof -
  have "be32 zero_buf 0 \<noteq> jbd_magic" by (simp add: be32_def zero_buf_def jbd_magic_def)
  moreover have "disk (file_fs k) (log_blk sample_jbd w) = zero_buf" if "w < 8" "commit_jblk sample_jbd ts < w" for w
    using that sample_until_log_block [of w k] by (auto simp: file_fs_log sample_log_blk)
  ultimately show ?thesis by (auto simp: tail_quiet_def Let_def)
qed

section \<open>Its blocks\<close>

lemma file_fs_read: "unat blk < 64 \<Longrightarrow>
    ext4_fs_read_block (file_fs k) blk = Inr (trunc 1024 (at file_image (unat blk * 1024)))"
  using raw_read_disk [OF file_fs_vol file_fs_blk_ok, of blk k]
  by (simp add: ext4_fs_read_block_def ext4_journal_lookup_def file_fs_disk)

abbreviation file_block :: "nat \<Rightarrow> buf" where
  "file_block n \<equiv> trunc 1024 (at file_image (n * 1024))"

lemma file_image_byte:
  "1024 \<le> i \<Longrightarrow> i < 40960 \<Longrightarrow> file_image i =
    (if i = 1036 then 5 else if i = 2048 then 3 else if i = 2052 then 4 else if i = 2056 then 5 else if i = 2060 then 5
     else if i = 3072 \<or> i = 3073 \<or> i = 3074 then 0xFF else if i = 6528 then 0xA4 else if i = 6529 then 0x81
     else if i = 6533 then 4 else if i = 6554 then 1 else if i = 6562 then 8 else if i = 6568 then 0x0A
     else if i = 6569 then 0xF3 else if i = 6570 then 1 else if i = 6572 then 4 else if i = 6584 then 1
     else if i = 6588 then 24 else 0)"
  by (simp add: file_image_def sample_image_def copy_bytes_def)

lemma file_descriptor:
  "file_block 2 0x12 = 0" "bgd_split (file_fs k) (file_block 2) 0 0x0C 0x2C = (5, 0)"
  "bgd_block (file_fs k) (file_block 2) 0x00 0x20 = 3" "bgd_block (file_fs k) (file_block 2) 0x08 0x28 = 5"
  by (simp_all add: file_image_byte bgd_split_def bgd_block_def bgd_wide_def le16_def le32_def at_def trunc_def)

lemma file_bitmap: "bmp_find (file_block 3) 8192 = Some 24"
proof -
  have b: "file_block 3 0 = 0xFF" "file_block 3 1 = 0xFF" "file_block 3 2 = 0xFF" "file_block 3 3 = 0"
    by (simp_all add: file_image_byte at_def trunc_def)
  have "bmp_test (file_block 3) j" if "j < 24" for j
  proof -
    have "j div 8 < 3" using that by simp
    then have "j div 8 = 0 \<or> j div 8 = 1 \<or> j div 8 = 2" by linarith
    then have "file_block 3 (j div 8) = mask 8" using b by (auto simp: mask_eq_exp_minus_1)
    then show ?thesis by (simp add: bmp_test_bit bit_mask_iff)
  qed
  moreover have "\<not> bmp_test (file_block 3) 24" using b(4) by (simp add: bmp_test_bit numeral_3_eq_3)
  ultimately show ?thesis by (simp add: bmp_find_def find_upt_Some)
qed

definition file_inode :: ext4_inode where
  "file_inode = inode_parse (at (file_block 6) 384)"

section \<open>Reading it on the way to a commit\<close>

lemma file_same_read: "same_but_bgd (file_fs k) fs \<Longrightarrow> unat blk < 64 \<Longrightarrow>
    ext4_fs_read_block fs blk = Inr (file_block (unat blk))"
  by (simp add: same_but_bgd_read file_fs_read)

lemma file_bgd_get:
  assumes "same_but_bgd (file_fs k) fs" "fs_bgd_cached_block fs = ext4_fs_bgd_invalid"
  shows "\<exists>fs1. bgd_get_unchecked 0 fs = (Inr (at (file_block 2) 0), fs1) \<and> same_but_bgd (file_fs k) fs1"
proof -
  note f = same_but_bgd_fields [OF assms(1)]
  have b: "bgd_byte_in_partition fs 0 = 2048" by (simp add: bgd_byte_in_partition_def f)
  have "ext4_fs_read_block fs 2 = Inr (file_block 2)" using file_same_read [OF assms(1), of 2] by simp
  then show ?thesis
    using assms bgd_get_same [of fs 0]
    by (auto simp: bgd_get_unchecked_def bgd_get_checked_def ext4_fs_bgd_get_def b f ext4_fs_bgd_invalid_def Let_def
        same_but_bgd_def)
qed

lemma file_read_inode:
  assumes "same_but_bgd (file_fs k) fs" "fs_bgd_cached_block fs = ext4_fs_bgd_invalid"
  shows "\<exists>fs1. read_inode_at 12 fs = (Inr (file_block 6, 6, 384), fs1) \<and> same_but_bgd (file_fs k) fs1"
proof -
  note f = same_but_bgd_fields [OF assms(1)]
  obtain fs1 where b: "bgd_get_unchecked 0 fs = (Inr (at (file_block 2) 0), fs1)" "same_but_bgd (file_fs k) fs1"
    using file_bgd_get [OF assms] by blast
  note g = same_but_bgd_fields [OF b(2)]
  have "bgd_block fs1 (at (file_block 2) 0) 0x08 0x28 = 5"
    using file_descriptor(4) [of k] same_defs(3) [OF b(2)] by (simp add: at_def)
  then have "inode_place fs1 12 (at (file_block 2) 0) = (6, 384)"
    by (simp add: inode_place_def inode_byte_in_table_def ino_index_def g)
  then show ?thesis
    using b file_same_read [OF b(2), of 6]
    by (simp add: read_inode_at_def bindE_def f g ino_group_def fs_read_block_def)
qed

lemma file_find_block:
  assumes "same_but_bgd (file_fs k) fs"
  shows "find_free_block fs = (Inr \<lparr>ba_block = 25, ba_bitmap_phys = 3, ba_group = 0,
     ba_bgd = bgd_take_block (file_fs k) 0 (file_block 2) (bmp_set (file_block 3) 24),
     ba_bitmap = bmp_set (file_block 3) 24\<rparr>, fs)"
proof -
  note f = same_but_bgd_fields [OF assms] and d = same_defs [OF assms]
  have e: "bgd_entry_off (file_fs k) 0 = 0" "bgd_entry_fits fs 0" "bgd_fs_block fs = 2"
    by (simp_all add: bgd_entry_off_def bgd_entry_fits_def f write_buf_size_def bgd_fs_block_def)
  have r: "ext4_fs_read_block fs 2 = Inr (file_block 2)" "ext4_fs_read_block fs 3 = Inr (file_block 3)"
    using file_same_read [OF assms, of 2] file_same_read [OF assms, of 3] by simp_all
  have a: "at (file_block 2) 0 = file_block 2" by (simp add: at_def)
  have bits: "block_bitmap_bits (file_fs k) = 8192"
    by (simp add: block_bitmap_bits_def write_buf_size_def drop_bit_eq_div)
  have "group_block_bitmap (file_block 2) 0 fs = (Inr (file_block 3), fs)"
    using file_descriptor(1) file_descriptor(2-4) [of k]
    by (simp add: group_block_bitmap_def bindE_def e d fs_read_block_def r a)
  moreover have "group_numbers fs = [0]" by (simp add: group_numbers_def f)
  moreover have "group_first_block (file_fs k) 0 + word_of_nat 24 = 25" by (simp add: group_first_block_def)
  ultimately show ?thesis
    using file_descriptor(1) file_descriptor(2-4) [of k]
    by (simp add: find_free_block_def try_group_block_def bindE_def orX_def tryX_def fs_read_block_def r e d bits
        file_bitmap [simplified] Let_def a)
qed

end
