(* ===== verification/Growing.thy ===== *)
theory Growing
  imports SampleFile
begin

text \<open>
  Files that grow and shrink: the extent table of an inode seen as a list of leaves, appending a
  block and truncating as operations on that list, and what they do to the file's block map.
\<close>

section \<open>The table as a list of leaves\<close>

definition leaf_at :: "buf \<Rightarrow> nat \<Rightarrow> leaf" where
  "leaf_at ib i = (leaf_logical ib i, le16 ib (ext_entry i + 4), leaf_phys ib i)"

definition leaves_upto :: "buf \<Rightarrow> nat \<Rightarrow> leaf list" where
  "leaves_upto ib n = map (leaf_at ib) [0..<n]"

abbreviation leaves :: "buf \<Rightarrow> leaf list" where
  "leaves ib \<equiv> leaves_upto ib (node_entries ib)"

text \<open>The block a list of leaves maps a logical block to.\<close>

fun map_leaves :: "leaf list \<Rightarrow> u32 \<Rightarrow> u64 option" where
  "map_leaves [] l = None"
| "map_leaves ((start, len, phys) # ls) l =
     (if start \<le> l \<and> l < start + ucast (len AND 0x7FFF) then Some (phys + ucast (l - start))
      else map_leaves ls l)"

text \<open>Leaves in order from \<open>k\<close> on, none empty, uninitialised or past the last block number.\<close>

fun leaves_from :: "nat \<Rightarrow> leaf list \<Rightarrow> bool" where
  "leaves_from k [] \<longleftrightarrow> True"
| "leaves_from k ((start, len, phys) # ls) \<longleftrightarrow>
     k \<le> unat start \<and> 0 < unat len \<and> unat len < 0x8000 \<and> unat start + unat len < 2 ^ 32 \<and>
     leaves_from (unat start + unat len) ls"

fun leaves_end :: "nat \<Rightarrow> leaf list \<Rightarrow> nat" where
  "leaves_end k [] = k"
| "leaves_end k ((start, len, phys) # ls) = leaves_end (unat start + unat len) ls"

lemma leaves_upto_Suc: "leaves_upto ib (Suc n) = leaves_upto ib n @ [leaf_at ib n]"
  by (simp add: leaves_upto_def)

lemma length_leaves_upto [simp]: "length (leaves_upto ib n) = n"
  by (simp add: leaves_upto_def)

lemma leaves_upto_cong: "(\<And>i. i < n \<Longrightarrow> leaf_at ib i = leaf_at ib' i) \<Longrightarrow> leaves_upto ib n = leaves_upto ib' n"
  by (simp add: leaves_upto_def)

lemma map_leaves_find:
  "map_leaves (map (leaf_at ib) is) l =
     map_option (\<lambda>i. leaf_phys ib i + ucast (l - leaf_logical ib i)) (find (leaf_maps ib l) is)"
  by (induction "is") (simp_all add: leaf_at_def leaf_maps_def leaf_real_len_def)

lemma leaf_lookup_leaves:
  "leaf_lookup ib l = (case map_leaves (leaves ib) l of None \<Rightarrow> Inl (-2) | Some p \<Rightarrow> Inr p)"
  by (simp add: leaf_lookup_def leaves_upto_def map_leaves_find split: option.split)

lemma leaf_span:
  fixes start l :: u32 and len :: u16
  assumes "unat len < 0x8000" "unat start + unat len < 2 ^ 32"
  shows "start \<le> l \<and> l < start + ucast (len AND 0x7FFF) \<longleftrightarrow> unat start \<le> unat l \<and> unat l < unat start + unat len"
proof -
  have "len AND 0x7FFF = take_bit 15 len" by (simp add: take_bit_eq_mask mask_eq_exp_minus_1)
  also have "\<dots> = len" using assms(1)
    by (simp add: word_unat_eq_iff unsigned_take_bit_eq take_bit_nat_eq_self)
  finally have m: "len AND 0x7FFF = len" .
  have "unat (start + ucast len) = unat start + unat len" using assms(2) by (simp add: unat_word_ariths)
  then show ?thesis by (simp add: m word_le_nat_alt word_less_nat_alt)
qed

lemma leaves_from_end: "leaves_from k ls \<Longrightarrow> k < 2 ^ 32 \<Longrightarrow> k \<le> leaves_end k ls \<and> leaves_end k ls < 2 ^ 32"
  by (induction k ls rule: leaves_from.induct) auto

lemma map_leaves_below: "leaves_from k ls \<Longrightarrow> unat l < k \<Longrightarrow> map_leaves ls l = None"
  by (induction k ls rule: leaves_from.induct) (auto simp: leaf_span simp del: map_leaves.simps(2) simp: map_leaves.simps)

lemma map_leaves_above: "leaves_from k ls \<Longrightarrow> leaves_end k ls \<le> unat l \<Longrightarrow> map_leaves ls l = None"
proof (induction k ls rule: leaves_from.induct)
  case (2 k start len phys ls)
  have "unat start + unat len \<le> leaves_end (unat start + unat len) ls"
    using leaves_from_end [of "unat start + unat len" ls] 2(2) by simp
  with 2 show ?case by (simp add: leaf_span)
qed simp

lemma map_leaves_append:
  "map_leaves (xs @ ys) l = (case map_leaves xs l of None \<Rightarrow> map_leaves ys l | Some p \<Rightarrow> Some p)"
  by (induction xs l rule: map_leaves.induct) simp_all

lemma leaves_from_append:
  "leaves_from k (xs @ ys) \<longleftrightarrow> leaves_from k xs \<and> leaves_from (leaves_end k xs) ys"
  by (induction k xs rule: leaves_from.induct) auto

lemma leaves_end_append: "leaves_end k (xs @ ys) = leaves_end (leaves_end k xs) ys"
  by (induction k xs rule: leaves_end.induct) auto

section \<open>Appending a block\<close>

text \<open>The list with one more block: the last leaf one longer when the block follows it on the disk,
  a new leaf otherwise.\<close>

definition grow_leaves :: "leaf list \<Rightarrow> u64 \<Rightarrow> leaf list" where
  "grow_leaves ls blk =
     (case last ls of (start, len, phys) \<Rightarrow>
        if ls \<noteq> [] \<and> blk = phys + ucast len then butlast ls @ [(start, len + 1, phys)]
        else ls @ [(word_of_nat (leaves_end 0 ls), 1, blk)])"

lemma one_leaf:
  assumes "unat (start :: u32) + unat (len :: u16) < 2 ^ 32" "unat len < 0x8000"
  shows "map_leaves [(start, len, phys)] l =
    (if unat start \<le> unat l \<and> unat l < unat start + unat len then Some (phys + ucast (l - start)) else None)"
  using assms by (simp add: leaf_span)

lemma grow_leaves_map:
  assumes "leaves_from 0 ls" "leaves_end 0 ls + 1 < 2 ^ 32"
    "ls \<noteq> [] \<longrightarrow> unat (fst (snd (last ls))) + 1 < 0x8000"
  shows "leaves_from 0 (grow_leaves ls blk)" "leaves_end 0 (grow_leaves ls blk) = leaves_end 0 ls + 1"
    "map_leaves (grow_leaves ls blk) l = (if unat l = leaves_end 0 ls then Some blk else map_leaves ls l)"
proof -
  obtain start len phys where last: "last ls = (start, len, phys)" by (metis prod_cases3)
  have "leaves_from 0 (grow_leaves ls blk) \<and> leaves_end 0 (grow_leaves ls blk) = leaves_end 0 ls + 1 \<and>
    map_leaves (grow_leaves ls blk) l = (if unat l = leaves_end 0 ls then Some blk else map_leaves ls l)"
  proof (cases "ls \<noteq> [] \<and> blk = phys + ucast len")
    case True
    define xs where "xs = butlast ls"
    have ls: "ls = xs @ [(start, len, phys)]" using True last by (metis append_butlast_last_id xs_def)
    have g: "grow_leaves ls blk = xs @ [(start, len + 1, phys)]"
      using True last by (simp add: grow_leaves_def xs_def)
    have lim: "unat len + 1 < 0x8000" using assms(3) True last by simp
    then have l1: "unat (len + 1) = unat len + 1" by (intro unat_suc) simp
    have e: "leaves_end 0 ls = unat start + unat len" by (simp add: ls leaves_end_append)
    note w = assms(1) [unfolded ls leaves_from_append, simplified]
    have old: "map_leaves xs l = None" if "unat start \<le> unat l"
      using w that by (intro map_leaves_above [of 0 xs]) auto
    have at_end: "phys + ucast (l - start) = blk" if "unat l = unat start + unat len"
    proof -
      have "unat (l - start) = unat len" using that by (simp add: unat_sub word_le_nat_alt)
      then have "ucast (l - start) = (ucast len :: u64)" by (simp add: word_unat_eq_iff)
      then show ?thesis using True by simp
    qed
    have m: "map_leaves [(start, len + 1, phys)] l =
        (if unat start \<le> unat l \<and> unat l < unat start + (unat len + 1) then Some (phys + ucast (l - start)) else None)"
      using one_leaf [of start "len + 1" phys l] assms(2) e l1 lim by simp
    have m0: "map_leaves [(start, len, phys)] l =
        (if unat start \<le> unat l \<and> unat l < unat start + unat len then Some (phys + ucast (l - start)) else None)"
      using one_leaf [of start len phys l] assms(2) e lim by simp
    have "map_leaves (xs @ [(start, len + 1, phys)]) l =
        (if unat l = unat start + unat len then Some blk else map_leaves (xs @ [(start, len, phys)]) l)"
      unfolding map_leaves_append m m0 using old at_end by (auto split: option.split)
    then show ?thesis
      using w lim l1 assms(2) e unfolding g by (simp add: leaves_from_append leaves_end_append flip: ls)
  next
    case False
    let ?e = "leaves_end 0 ls"
    have g: "grow_leaves ls blk = ls @ [(word_of_nat ?e, 1, blk)]"
      using False last by (auto simp: grow_leaves_def)
    have u: "unat (word_of_nat ?e :: u32) = ?e" using assms(2) by (simp add: unsigned_of_nat take_bit_nat_eq_self)
    have old: "map_leaves ls l = None" if "?e \<le> unat l" using assms(1) that by (rule map_leaves_above)
    have m: "map_leaves [(word_of_nat ?e, 1, blk)] l = (if unat l = ?e then Some (blk + ucast (l - word_of_nat ?e)) else None)"
      using one_leaf [of "word_of_nat ?e" 1 blk l] assms(2) u by auto
    have z: "l - word_of_nat ?e = 0" if "unat l = ?e"
    proof -
      have "word_of_nat (unat l) = l" by simp
      then show ?thesis unfolding that by simp
    qed
    have "map_leaves (ls @ [(word_of_nat ?e, 1, blk)]) l = (if unat l = ?e then Some blk else map_leaves ls l)"
      unfolding map_leaves_append m using old z by (auto split: option.split)
    then show ?thesis using assms u unfolding g by (simp add: leaves_from_append leaves_end_append)
  qed
  then show "leaves_from 0 (grow_leaves ls blk)" "leaves_end 0 (grow_leaves ls blk) = leaves_end 0 ls + 1"
    "map_leaves (grow_leaves ls blk) l = (if unat l = leaves_end 0 ls then Some blk else map_leaves ls l)"
    by blast+
qed

text \<open>The bytes of an entry, and writes elsewhere.\<close>

lemma leaf_at_cong:
  assumes "\<And>i. ext_entry k \<le> i \<Longrightarrow> i < ext_entry (Suc k) \<Longrightarrow> b i = c i"
  shows "leaf_at b k = leaf_at c k"
proof -
  have w: "le16 b (ext_entry k + p) = le16 c (ext_entry k + p)" if "p + 2 \<le> 12" for p
    using that assms by (intro le16_cong) (simp_all add: ext_entry_def)
  have d: "le32 b (ext_entry k + p) = le32 c (ext_entry k + p)" if "p + 4 \<le> 12" for p
    using that assms by (intro le32_cong) (simp_all add: ext_entry_def)
  show ?thesis using d [of 0] d [of 8] w [of 4] w [of 6] by (simp add: leaf_at_def leaf_logical_def leaf_phys_def)
qed

lemma node_entries_cong: "b 2 = c 2 \<Longrightarrow> b 3 = c 3 \<Longrightarrow> node_entries b = node_entries c"
  by (simp add: node_entries_def le16_cong [of b 2 c])

lemma last_leaf_leaves: "0 < node_entries ib \<Longrightarrow> last_leaf ib = last (leaves ib)"
  by (cases "node_entries ib") (simp_all add: last_leaf_def Let_def leaves_upto_Suc leaf_at_def)

lemma leaves_end_last: "ls \<noteq> [] \<Longrightarrow> last ls = (start, len, phys) \<Longrightarrow> leaves_end k ls = unat start + unat len"
  by (induction k ls rule: leaves_end.induct) (auto split: if_splits)

lemma bump_length:
  fixes b :: buf
  assumes "k < n"
  shows "leaf_at (put_le16 b (ext_entry k + 4) v) k = (leaf_logical b k, v, leaf_phys b k)"
    "j \<noteq> k \<Longrightarrow> leaf_at (put_le16 b (ext_entry k + 4) v) j = leaf_at b j"
    "node_entries (put_le16 b (ext_entry k + 4) v) = node_entries b"
proof -
  let ?c = "put_le16 b (ext_entry k + 4) v"
  have "le32 ?c (ext_entry k) = le32 b (ext_entry k)" "le32 ?c (ext_entry k + 8) = le32 b (ext_entry k + 8)"
    by (rule le32_cong, simp add: put_le16_outside)+
  moreover have "le16 ?c (ext_entry k + 6) = le16 b (ext_entry k + 6)"
    by (rule le16_cong) (simp_all add: put_le16_outside)
  ultimately show "leaf_at ?c k = (leaf_logical b k, v, leaf_phys b k)"
    by (simp add: leaf_at_def leaf_logical_def leaf_phys_def)
  show "leaf_at ?c j = leaf_at b j" if "j \<noteq> k"
  proof (rule leaf_at_cong)
    fix i
    assume "ext_entry j \<le> i" "i < ext_entry (Suc j)"
    with that show "?c i = b i"
      by (cases "j < k") (auto simp: put_le16_def ext_entry_def)
  qed
  show "node_entries ?c = node_entries b"
    by (rule node_entries_cong) (simp_all add: put_le16_def ext_entry_def)
qed

lemma phys_halves: "unat (blk :: u64) < 2 ^ 48 \<Longrightarrow>
    push_bit 32 (ucast (ucast (drop_bit 32 blk) :: u16)) OR ucast (ucast blk :: u32) = blk"
proof -
  assume "unat blk < 2 ^ 48"
  then have "take_bit 48 blk = blk"
    by (simp add: word_unat_eq_iff unsigned_take_bit_eq take_bit_nat_eq_self)
  then have "bit blk n \<Longrightarrow> n < 48" for n by (metis bit_take_bit_iff)
  then have "bit blk n \<Longrightarrow> 32 \<le> n \<Longrightarrow> n - 32 < 16" for n by fastforce
  then show ?thesis by (intro bit_word_eqI) (auto simp: bit_simps)
qed

lemma new_leaf:
  fixes ib :: buf and start :: u32
  assumes "unat blk < 2 ^ 48" "n < 4"
  defines "b \<equiv> put_le32 (put_le16 (put_le16 (put_le32 (put_le16 ib 2 (word_of_nat (n + 1))) (ext_entry n) start)
      (ext_entry n + 4) 1) (ext_entry n + 6) (ucast (drop_bit 32 blk))) (ext_entry n + 8) (ucast blk)"
  shows "node_entries b = n + 1" "leaf_at b n = (start, 1, blk)" "j < n \<Longrightarrow> leaf_at b j = leaf_at ib j"
proof -
  have o: "b i = put_le16 ib 2 (word_of_nat (n + 1)) i" if "i < ext_entry n" for i
    using that by (simp add: b_def put_le16_def put_le32_def)
  have "node_entries b = node_entries (put_le16 ib 2 (word_of_nat (n + 1)))"
    by (rule node_entries_cong) (simp_all add: o ext_entry_def)
  moreover have "unat (word_of_nat (n + 1) :: u16) = n + 1"
    using assms(2) by (simp only: unsigned_of_nat) (simp add: take_bit_nat_eq_self)
  ultimately show "node_entries b = n + 1" by (simp only: node_entries_def le16_put_le16)
  have "le32 b (ext_entry n) = start"
    unfolding b_def by (subst le32_cong [of _ _ "put_le32 (put_le16 ib 2 (word_of_nat (n + 1))) (ext_entry n) start"])
      (simp_all add: put_le16_outside put_le32_outside)
  moreover have "le16 b (ext_entry n + 4) = 1" "le16 b (ext_entry n + 6) = ucast (drop_bit 32 blk)"
    by (simp_all add: b_def le16_def put_le16_def put_le32_def) (rule bit_word_eqI, auto simp: bit_simps)
  moreover have "le32 b (ext_entry n + 8) = ucast blk" unfolding b_def by simp
  ultimately show "leaf_at b n = (start, 1, blk)"
    using phys_halves [OF assms(1)] by (simp add: leaf_at_def leaf_logical_def leaf_phys_def)
  show "leaf_at b j = leaf_at ib j" if "j < n"
  proof (rule leaf_at_cong)
    fix i
    assume i: "ext_entry j \<le> i" "i < ext_entry (Suc j)"
    have "ext_entry (Suc j) \<le> ext_entry n" using that by (simp add: ext_entry_def)
    with i o [of i] show "b i = ib i" by (simp add: put_le16_def ext_entry_def)
  qed
qed

lemma extend_table_leaves:
  assumes "leaves_from 0 (leaves ib)" "leaves_end 0 (leaves ib) + 1 < 2 ^ 32" "unat blk < 2 ^ 48"
    "node_entries ib < 4 \<or> blk = contig_of (last_leaf ib)" "node_entries ib \<noteq> 0 \<or> blk \<noteq> contig_of (last_leaf ib)"
  shows "leaves (extend_table (node_entries ib) (last_leaf ib) blk ib 0) = grow_leaves (leaves ib) blk"
proof -
  let ?n = "node_entries ib"
  obtain start len phys where last: "last_leaf ib = (start, len, phys)" by (metis prod_cases3)
  show ?thesis
  proof (cases "blk = contig_of (last_leaf ib)")
    case True
    then have "0 < ?n" using assms(5) by simp
    then obtain m where m: "?n = Suc m" by (cases ?n) auto
    have l: "leaves ib = leaves_upto ib m @ [(start, len, phys)]" "leaf_at ib m = (start, len, phys)"
      using last_leaf_leaves [of ib] last by (simp_all add: m leaves_upto_Suc)
    have t: "extend_table ?n (last_leaf ib) blk ib 0 = put_le16 ib (ext_entry m + 4) (le16 ib (ext_entry m + 4) + 1)"
      using True m by (simp add: extend_table_def last Let_def)
    note b = bump_length [OF lessI, where k = m and b = ib and v = "le16 ib (ext_entry m + 4) + 1"]
    have "leaves_upto (put_le16 ib (ext_entry m + 4) (le16 ib (ext_entry m + 4) + 1)) m = leaves_upto ib m"
      by (rule leaves_upto_cong) (simp add: b(2))
    moreover have "leaf_logical ib m = start" "le16 ib (ext_entry m + 4) = len" "leaf_phys ib m = phys"
      using l(2) by (simp_all add: leaf_at_def)
    ultimately show ?thesis
      using True b(1) unfolding t b(3) l(1)
      by (simp add: m leaves_upto_Suc grow_leaves_def last contig_of_def)
  next
    case False
    then have n: "?n < 4" using assms(4) by simp
    have e: "unat (start + ucast len) = leaves_end 0 (leaves ib)"
    proof (cases "?n = 0")
      case True
      then show ?thesis using last by (simp add: last_leaf_def leaves_upto_def)
    next
      case nz: False
      then have "leaves ib \<noteq> []" "last (leaves ib) = (start, len, phys)"
        using last last_leaf_leaves [of ib] by (auto simp: leaves_upto_def)
      then have "leaves_end 0 (leaves ib) = unat start + unat len" by (rule leaves_end_last)
      then show ?thesis using assms(2) by (simp add: unat_word_ariths)
    qed
    have "word_of_nat (unat (start + ucast len)) = start + ucast len" by simp
    then have s: "start + ucast len = word_of_nat (leaves_end 0 (leaves ib))" unfolding e by simp
    note b = new_leaf [OF assms(3) n, where ib = ib and start = "start + ucast len"]
    have t: "extend_table ?n (last_leaf ib) blk ib 0 = put_le32 (put_le16 (put_le16 (put_le32 (put_le16 ib 2
        (word_of_nat (?n + 1))) (ext_entry ?n) (start + ucast len)) (ext_entry ?n + 4) 1) (ext_entry ?n + 6)
        (ucast (drop_bit 32 blk))) (ext_entry ?n + 8) (ucast blk)"
      using False unfolding extend_table_def last Let_def contig_of_def prod.case by (simp only: if_False add_0)
    have "\<not> (leaves ib \<noteq> [] \<and> blk = contig_of (last (leaves ib)))"
      using False last_leaf_leaves [of ib] by (cases "?n = 0") (auto simp: leaves_upto_def)
    then have g: "grow_leaves (leaves ib) blk = leaves ib @ [(word_of_nat (leaves_end 0 (leaves ib)), 1, blk)]"
      by (auto simp: grow_leaves_def contig_of_def split: prod.split)
    have "leaves c = leaves ib @ [(start + ucast len, 1, blk)]"
      if "node_entries c = ?n + 1" "leaf_at c ?n = (start + ucast len, 1, blk)" "\<And>j. j < ?n \<Longrightarrow> leaf_at c j = leaf_at ib j"
      for c :: buf
      using that leaves_upto_cong [of ?n c ib] by (simp add: leaves_upto_Suc)
    from this [OF b] show ?thesis unfolding t g s .
  qed
qed
text \<open>Every block of the groups has a number the extent entries can hold.\<close>

definition blocks_fit :: "'c ext4_fs \<Rightarrow> bool" where
  "blocks_fit fs \<longleftrightarrow> unat (s_first_data_block (fs_sb fs)) +
     unat (fs_bgd_count fs) * unat (s_blocks_per_group (fs_sb fs)) < 2 ^ 48"

lemma end_of_groups:
  assumes "blocks_fit fs"
  shows "unat (ucast (s_first_data_block (fs_sb fs)) +
      ucast (fs_bgd_count fs) * ucast (s_blocks_per_group (fs_sb fs)) :: u64) < 2 ^ 48"
  using assms by (simp add: blocks_fit_def unat_word_ariths)

lemma block_of_group:
  assumes "blocks_fit fs" "unat g < unat (fs_bgd_count fs)" "k < block_bitmap_bits fs"
  shows "unat (group_first_block fs g + word_of_nat k) < 2 ^ 48"
proof -
  let ?f = "unat (s_first_data_block (fs_sb fs))" and ?b = "unat (s_blocks_per_group (fs_sb fs))"
  have "(unat g + 1) * ?b \<le> unat (fs_bgd_count fs) * ?b" using assms(2) by (intro mult_le_mono1) simp
  then have "?f + unat g * ?b + k < 2 ^ 48"
    using assms(1) bits_below_group [OF assms(3)] by (simp add: blocks_fit_def)
  moreover from this have "unat (group_first_block fs g) = ?f + unat g * ?b"
    by (simp add: group_first_block_def unat_word_ariths)
  moreover have "unat (word_of_nat k :: u64) = k"
    using calculation(1) by (simp add: unsigned_of_nat take_bit_nat_eq_self)
  ultimately show ?thesis by (simp add: unat_word_ariths)
qed

lemma extend_alloc_block:
  assumes "extend_alloc entries contig fs = (Inr a, fs')" "blocks_fit fs"
  shows "unat (ba_block a) < 2 ^ 48" "entries < 4 \<or> ba_block a = contig"
proof -
  have new: "unat (ba_block a) < 2 ^ 48" if "find_free_block fs = (Inr a, fs')"
    using that by (rule find_free_block_from) (simp add: block_of_group [OF assms(2), simplified] bmp_find_def find_upt_Some)
  show "entries < 4 \<or> ba_block a = contig" "unat (ba_block a) < 2 ^ 48"
  proof -
    show "entries < 4 \<or> ba_block a = contig"
      using assms(1)
      by (auto simp: extend_alloc_def alloc_contig_def bindE_Inr_iff Let_def split: if_splits)
    have "ba_block a = contig \<and> group_of_block fs contig < fs_bgd_count fs \<or> find_free_block fs = (Inr a, fs')"
      using assms(1)
      by (auto simp: extend_alloc_def alloc_contig_def bindE_Inr_iff Let_def split: if_splits)
    moreover have "unat contig < 2 ^ 48" if "group_of_block fs contig < fs_bgd_count fs"
    proof -
      have "contig < ucast (s_first_data_block (fs_sb fs)) +
          ucast (fs_bgd_count fs) * ucast (s_blocks_per_group (fs_sb fs))"
        using that by (auto simp: group_of_block_def Let_def split: if_splits)
      then show ?thesis using end_of_groups [OF assms(2)] by (simp add: word_less_nat_alt)
    qed
    ultimately show "unat (ba_block a) < 2 ^ 48" using new by auto
  qed
qed

text \<open>
  C16: Appending a block to a file keeps its block map and adds one block to it: afterwards the
  block behind the last one is mapped to the block the transaction writes the data to, every other
  logical block is mapped as before, the size has grown by the bytes added and the table is still
  in order.
\<close>

theorem extend_maps:
  assumes "ext4_file_extend_block inode ino data added now fs = (Inr inode', fs')" "blocks_fit fs"
    "leaves_from 0 (leaves (i_block inode))" "leaves_end 0 (leaves (i_block inode)) + 1 < 2 ^ 32"
    "unat (fst (snd (last_leaf (i_block inode)))) + 1 < 0x8000"
  shows "\<exists>blk fs1 ts. ext4_journal_commit ((blk, extend_data fs data added) # ts) fs1 = (Inr (), fs') \<and>
    (\<forall>l. leaf_lookup (i_block inode') l =
      (if unat l = leaves_end 0 (leaves (i_block inode)) then Inr blk else leaf_lookup (i_block inode) l)) \<and>
    leaves_from 0 (leaves (i_block inode')) \<and>
    leaves_end 0 (leaves (i_block inode')) = leaves_end 0 (leaves (i_block inode)) + 1 \<and>
    i_size inode' = i_size inode + ucast added"
proof -
  let ?ib = "i_block inode"
  from assms(1) obtain a fs0 fs1 ts where a: "extend_alloc (node_entries ?ib) (contig_of (last_leaf ?ib)) fs = (Inr a, fs0)"
      "node_entries ?ib \<noteq> 0 \<or> ba_block a \<noteq> contig_of (last_leaf ?ib)"
      "ext4_journal_commit ((ba_block a, extend_data fs data added) # ts) fs1 = (Inr (), fs')"
      "inode' = inode\<lparr>i_mtime := now, i_size := i_size inode + ucast added,
         i_block := extend_table (node_entries ?ib) (last_leaf ?ib) (ba_block a) ?ib 0\<rparr>"
    unfolding ext4_file_extend_block_def write_cap_def by (auto simp: bindE_Inr_iff orX_Inr_iff Let_def split: prod.splits if_splits)
  note al = extend_alloc_block [OF a(1) assms(2)]
  have t: "leaves (i_block inode') = grow_leaves (leaves ?ib) (ba_block a)"
    using extend_table_leaves [OF assms(3,4) al(1,2) a(2)] by (simp add: a(4))
  have len: "leaves ?ib \<noteq> [] \<longrightarrow> unat (fst (snd (last (leaves ?ib)))) + 1 < 0x8000"
    using assms(5) last_leaf_leaves [of ?ib] by (cases "node_entries ?ib = 0") (auto simp: leaves_upto_def)
  note g = grow_leaves_map [OF assms(3,4) len, of "ba_block a"]
  have "leaf_lookup (i_block inode') l =
      (if unat l = leaves_end 0 (leaves ?ib) then Inr (ba_block a) else leaf_lookup ?ib l)" for l
    unfolding leaf_lookup_leaves t g(3) by simp
  then show ?thesis using a(3) g(1,2) t by (auto simp: a(4))
qed

text \<open>The file of the sample volume.\<close>

lemma file_inode_fields:
  "i_size file_inode = 1024" "le16 (i_block file_inode) 0 = ext4_ext_magic" "le16 (i_block file_inode) 6 = 0"
  "node_entries (i_block file_inode) = 1" "leaf_at (i_block file_inode) 0 = (0, 1, 24)"
  by (simp_all add: file_inode_def inode_parse_def copy_bytes_def at_def trunc_def file_image_byte le16_def le32_def
      ext4_ext_magic_def node_entries_def leaf_at_def leaf_logical_def leaf_phys_def ext_entry_def zero_buf_def)
lemma file_leaves: "leaves_upto (i_block file_inode) (Suc 0) = [(0, 1, 24)]" "last_leaf (i_block file_inode) = (0, 1, 24)"
  using file_inode_fields(5) by (simp_all add: leaves_upto_def last_leaf_def file_inode_fields leaf_at_def)

lemma file_extends:
  "\<exists>inode fs'. ext4_file_extend_block file_inode 12 zero_buf 1024 99 (file_fs (-1)) = (Inr inode, fs')"
proof -
  let ?fs = "file_fs (-1)"
  have t: "contig_of (0, 1, 24) = 25" by (simp add: contig_of_def)
  have "group_of_block ?fs 25 = 0" by (simp add: group_of_block_def)
  then obtain a where a: "extend_alloc 1 25 ?fs = (Inr a, ?fs)" "ba_block a = 25" "ba_bitmap_phys a = 3"
    using file_find_block [OF same_but_bgd_refl, of "-1"]
    by (simp add: extend_alloc_def bindE_def)
  have "ext4_fs_read_block ?fs 1 = Inr (file_block 1)" using file_fs_read [of 1 "-1"] by simp
  moreover have "sb_free_blocks ?fs (file_block 1) 0 \<noteq> 0"
    by (simp add: sb_free_blocks_def fs_64bit_def le32_def at_def trunc_def file_image_byte)
  ultimately obtain sb where sb: "sb_take_block (-1) ?fs = (Inr sb, ?fs)"
    by (simp add: sb_take_block_def bindE_def orX_def fs_read_block_def sb_fs_block_def sb_offset_in_block_def Let_def)
  have r: "inode_group_in_range 12 (-1) ?fs = (Inr (), ?fs)"
    by (simp add: inode_group_in_range_def bindE_def ino_group_def)
  obtain fs1 where i: "read_inode_at 12 ?fs = (Inr (file_block 6, 6, 384), fs1)" "same_but_bgd ?fs fs1"
    using file_read_inode [OF same_but_bgd_refl, of "-1"] by auto
  define ts where "ts = [(25 :: u64, extend_data ?fs zero_buf 1024), (3, ba_bitmap a), (2, ba_bgd a), (1, sb),
      (6, extend_inode ?fs file_inode 12 (0, 1, 24) 25 2048 99 (file_block 6) 384)]"
  have "trans_ready ?fs ts" by (rule file_fs_ready) (simp_all add: ts_def)
  from commit_after_reads [OF i(2) this file_fs_alive] obtain fs' where
    c: "ext4_journal_commit ts fs1 = (Inr (), fs')" by blast
  have "extend_checks ?fs file_inode"
    by (simp add: extend_checks_def file_inode_fields file_leaves)
  moreover have "write_cap (-1) ?fs = (Inr (), ?fs)" by (simp add: write_cap_def bindE_def write_buf_size_def)
  ultimately show ?thesis
    using c a sb r i unfolding ts_def
    by (simp add: ext4_file_extend_block_def bindE_def orX_def file_inode_fields file_leaves t Let_def
        bgd_fs_block_def sb_fs_block_def)
qed

theorem extend_maps_witness:
  "\<exists>inode fs'. ext4_file_extend_block file_inode 12 zero_buf 1024 99 (file_fs (-1)) = (Inr inode, fs') \<and>
    i_size inode = 2048 \<and> (\<exists>blk. leaf_lookup (i_block inode) 1 = Inr blk) \<and>
    leaf_lookup (i_block inode) 0 = leaf_lookup (i_block file_inode) 0"
proof -
  obtain inode fs' where e: "ext4_file_extend_block file_inode 12 zero_buf 1024 99 (file_fs (-1)) = (Inr inode, fs')"
    using file_extends by blast
  have "blocks_fit (file_fs (-1))" by (simp add: blocks_fit_def)
  from extend_maps [OF e this] obtain blk where
    l: "\<And>l. leaf_lookup (i_block inode) l = (if unat l = 1 then Inr blk else leaf_lookup (i_block file_inode) l)"
    and "i_size inode = 2048"
    by (auto simp: file_leaves file_inode_fields)
  then show ?thesis using e by (auto simp: l)
qed
text \<open>A leaf of 32767 blocks is the longest one that is read back.\<close>

lemma longest_leaf_lost:
  assumes "map_leaves xs l = None"
  shows "map_leaves (xs @ [(start, 0x8000, phys)]) l = None"
  using assms by (auto simp: map_leaves_append)

text \<open>
  Appending to a file whose last extent has 32767 blocks, with the next block on the disk free,
  makes the extent 32768 blocks long; \<open>extent_lookup\<close> masks that length to zero, so every block of
  the extent reads as a hole afterwards.
\<close>

theorem extend_loses_full_leaf:
  assumes "leaves_from 0 (leaves ib)" "leaves_end 0 (leaves ib) + 1 < 2 ^ 32"
    "leaves ib = xs @ [(start, 0x7FFF, phys)]" "unat (phys + 0x7FFF) < 2 ^ 48"
    "start \<le> l" "l < start + 0x7FFF"
  shows "leaf_lookup ib l = Inr (phys + ucast (l - start)) \<and>
    leaf_lookup (extend_table (node_entries ib) (last_leaf ib) (phys + 0x7FFF) ib 0) l = Inl (-2)"
proof -
  have n: "0 < node_entries ib" using assms(3) by (cases "node_entries ib = 0") (auto simp: leaves_upto_def)
  then have lf: "last_leaf ib = (start, 0x7FFF, phys)" using last_leaf_leaves [OF n] assms(3) by simp
  have g: "grow_leaves (leaves ib) (phys + 0x7FFF) = xs @ [(start, 0x8000, phys)]"
    unfolding assms(3) by (simp add: grow_leaves_def)
  have "leaves (extend_table (node_entries ib) (last_leaf ib) (phys + 0x7FFF) ib 0) = xs @ [(start, 0x8000, phys)]"
    unfolding g [symmetric] using assms(4) n by (intro extend_table_leaves assms(1,2)) (simp_all add: lf contig_of_def)
  moreover have "map_leaves xs l = None"
    using assms(1,3,5) by (intro map_leaves_above [of 0]) (auto simp: leaves_from_append word_le_nat_alt)
  ultimately show ?thesis
    using assms(3,5,6) by (simp add: leaf_lookup_leaves map_leaves_append longest_leaf_lost)
qed

section \<open>Truncating\<close>

text \<open>The logical and physical blocks of a list of leaves, in order.\<close>

definition leaf_run :: "leaf \<Rightarrow> (nat \<times> u64) list" where
  "leaf_run lf = (case lf of (start, len, phys) \<Rightarrow> map (\<lambda>k. (unat start + k, phys + word_of_nat k)) [0..<unat len])"

definition block_map :: "leaf list \<Rightarrow> (nat \<times> u64) list" where
  "block_map ls = concat (map leaf_run ls)"

text \<open>The blocks from logical block \<open>nb\<close> on, last one first, and the leaves without them.\<close>

definition tail_blocks :: "nat \<Rightarrow> leaf list \<Rightarrow> u64 list" where
  "tail_blocks nb ls = rev (map snd (filter (\<lambda>(l, p). nb \<le> l) (block_map ls)))"

fun cut_leaves :: "nat \<Rightarrow> leaf list \<Rightarrow> leaf list" where
  "cut_leaves nb [] = []"
| "cut_leaves nb ((start, len, phys) # ls) =
     (if nb \<le> unat start then []
      else if nb < unat start + unat len then [(start, word_of_nat (nb - unat start), phys)]
      else (start, len, phys) # cut_leaves nb ls)"

lemma block_map_lookup: "leaves_from k ls \<Longrightarrow> map_of (block_map ls) (unat l) = map_leaves ls l"
proof (induction k ls rule: leaves_from.induct)
  case (2 k start len phys ls)
  have r: "map_of (leaf_run (start, len, phys)) (unat l) =
      (if unat start \<le> unat l \<and> unat l < unat start + unat len then Some (phys + ucast (l - start)) else None)"
  proof (cases "unat start \<le> unat l \<and> unat l < unat start + unat len")
    case True
    then have u: "unat (l - start) = unat l - unat start" by (simp add: unat_sub word_le_nat_alt)
    have "map_of (map (\<lambda>k. (unat start + k, phys + word_of_nat k)) ks) (unat start + j) =
        (if j \<in> set ks then Some (phys + word_of_nat j) else None)" for ks j
      by (induction ks) auto
    from this [of "[0..<unat len]" "unat l - unat start"] True
    have "map_of (leaf_run (start, len, phys)) (unat l) = Some (phys + word_of_nat (unat (l - start)))"
      by (auto simp: leaf_run_def u)
    with True show ?thesis by simp
  next
    case False
    then have "unat l \<notin> fst ` set (leaf_run (start, len, phys))" by (auto simp: leaf_run_def)
    then have "map_of (leaf_run (start, len, phys)) (unat l) = None" by (simp add: map_of_eq_None_iff)
    with False show ?thesis by auto
  qed
  with 2 show ?case by (simp add: block_map_def map_add_def leaf_span split: option.split)
qed (simp add: block_map_def)

lemma tail_blocks_append: "tail_blocks nb (xs @ ys) = tail_blocks nb ys @ tail_blocks nb xs"
  by (simp add: tail_blocks_def block_map_def)

lemma cut_below:
  assumes "leaves_from k ls" "leaves_end k ls \<le> nb" "k < 2 ^ 32"
  shows "cut_leaves nb (ls @ ys) = ls @ cut_leaves nb ys" "tail_blocks nb ls = []"
proof -
  have "cut_leaves nb (ls @ ys) = ls @ cut_leaves nb ys \<and> tail_blocks nb ls = []"
    using assms
  proof (induction k ls rule: leaves_from.induct)
    case (2 k start len phys ls)
    have le: "unat start + unat len \<le> leaves_end (unat start + unat len) ls"
      using 2(2) leaves_from_end [of "unat start + unat len" ls] by simp
    have "tail_blocks nb [(start, len, phys)] = []"
      using 2(3) le by (auto simp: tail_blocks_def block_map_def leaf_run_def filter_empty_conv)
    then show ?case
      using 2 le tail_blocks_append [of nb "[(start, len, phys)]" ls] by auto
  qed (simp_all add: tail_blocks_def block_map_def)
  then show "cut_leaves nb (ls @ ys) = ls @ cut_leaves nb ys" "tail_blocks nb ls = []" by blast+
qed

lemma cut_leaves_map:
  assumes "leaves_from k ls"
  shows "leaves_from k (cut_leaves nb ls)"
    "map_leaves (cut_leaves nb ls) l = (if unat l < nb then map_leaves ls l else None)"
proof -
  have "leaves_from k (cut_leaves nb ls) \<and>
      map_leaves (cut_leaves nb ls) l = (if unat l < nb then map_leaves ls l else None)"
    using assms
  proof (induction k ls rule: leaves_from.induct)
    case (2 k start len phys ls)
    note w = 2(2) [simplified]
    have sp: "map_leaves ((start, len', phys) # ys) l = (if unat start \<le> unat l \<and> unat l < unat start + unat len'
        then Some (phys + ucast (l - start)) else map_leaves ys l)" if "unat len' \<le> unat len" for len' ys
      using w that by (simp add: leaf_span)
    consider "nb \<le> unat start" | "unat start < nb" "nb < unat start + unat len" | "unat start + unat len \<le> nb" by linarith
    then show ?case
    proof cases
      case 1
      then show ?thesis using map_leaves_below [of "unat start + unat len" ls l] w sp [OF order_refl] by auto
    next
      case 2
      have u: "unat (word_of_nat (nb - unat start) :: u16) = nb - unat start"
      proof -
        have "nb - unat start < 2 ^ 16" using w 2 by auto
        then show ?thesis by (simp only: unsigned_of_nat) (simp add: take_bit_nat_eq_self)
      qed
      then show ?thesis
        using map_leaves_below [of "unat start + unat len" ls l] w 2 sp [of "word_of_nat (nb - unat start)" "[]"]
          sp [OF order_refl, of ls] by (auto simp del: map_leaves.simps(2))
    next
      case 3
      then show ?thesis using 2 w sp [OF order_refl] by (auto simp del: map_leaves.simps(2))
    qed
  qed simp
  then show "leaves_from k (cut_leaves nb ls)"
    "map_leaves (cut_leaves nb ls) l = (if unat l < nb then map_leaves ls l else None)" by blast+
qed
text \<open>One leaf, then all of them.\<close>

lemma free_all_append: "free_all (xs @ ys) = bindE (free_all xs) (\<lambda>_. free_all ys)"
proof (induction xs)
  case (Cons x xs)
  then show ?case by (simp add: bindE_assoc)
qed (simp add: bindE_def fun_eq_iff)

lemma tail_down:
  assumes "n \<le> unat len" "unat len < 0x8000"
  shows "map (\<lambda>k. phys + ucast (ucast (len :: u16) - 1 - word_of_nat k :: u32)) [0..<n] =
    rev (map (\<lambda>k. phys + (word_of_nat k :: u64)) [unat len - n..<unat len])"
proof (rule nth_equalityI)
  fix i
  assume "i < length (map (\<lambda>k. phys + ucast (ucast len - 1 - word_of_nat k :: u32)) [0..<n])"
  then have i: "i < n" by simp
  have "unat (word_of_nat i :: u32) = i" using i assms by (simp add: unsigned_of_nat take_bit_nat_eq_self)
  moreover have "unat (ucast len - 1 :: u32) = unat len - 1"
    using i assms(1) by (subst unat_sub) (simp_all add: word_le_nat_alt)
  ultimately have "unat (ucast len - 1 - word_of_nat i :: u32) = unat len - 1 - i"
    using i assms(1) by (subst unat_sub) (simp_all add: word_le_nat_alt)
  moreover have "ucast x = (word_of_nat (unat x) :: u64)" for x :: u32 by simp
  ultimately have "ucast (ucast len - 1 - word_of_nat i :: u32) = (word_of_nat (unat len - 1 - i) :: u64)" by metis
  then show "map (\<lambda>k. phys + ucast (ucast len - 1 - word_of_nat k :: u32)) [0..<n] ! i =
      rev (map (\<lambda>k. phys + word_of_nat k) [unat len - n..<unat len]) ! i"
    using i assms(1) by (simp add: rev_nth)
qed (use assms in simp)
lemma leaf_tail:
  assumes "unat len < 0x8000"
  shows "tail_blocks nb [(start, len, phys)] =
    rev (map (\<lambda>k. phys + word_of_nat k) [nb - unat start..<unat len])"
proof -
  have "filter (\<lambda>k. nb \<le> unat start + k) [0..<unat len] = [nb - unat start..<unat len]"
  proof (cases "nb - unat start \<le> unat len")
    case True
    then have "[0..<unat len] = [0..<nb - unat start] @ [nb - unat start..<unat len]"
      by (metis le0 le_add_diff_inverse upt_add_eq_append)
    moreover have "filter (\<lambda>k. nb \<le> unat start + k) [0..<nb - unat start] = []" by (auto simp: filter_empty_conv)
    moreover have "filter (\<lambda>k. nb \<le> unat start + k) [nb - unat start..<unat len] = [nb - unat start..<unat len]"
      by (auto simp: filter_id_conv)
    ultimately show ?thesis by simp
  next
    case False
    then show ?thesis by (auto simp: filter_empty_conv)
  qed
  then show ?thesis
    by (simp add: tail_blocks_def block_map_def leaf_run_def filter_map o_def case_prod_beta)
qed

lemma trunc_leaf_step:
  assumes "leaf_at ib i = (start, len, phys)" "unat len < 0x8000" "unat start + unat len < 2 ^ 32" "0 < unat len"
  shows "trunc_leaf nb ib i =
    (if unat nb \<le> unat start
     then Some (tail_blocks (unat nb) [(start, len, phys)], fill_bytes ib (ext_entry i) 0 12, 1)
     else if unat nb < unat start + unat len
     then Some (tail_blocks (unat nb) [(start, len, phys)],
       put_le16 ib (ext_entry i + 4) (word_of_nat (unat nb - unat start)), 0)
     else None)"
proof -
  have l: "leaf_logical ib i = start" "le16 ib (ext_entry i + 4) = len" "leaf_phys ib i = phys"
    using assms(1) by (simp_all add: leaf_at_def)
  have e: "unat (start + ucast len) = unat start + unat len" using assms(3) by (simp add: unat_word_ariths)
  have a: "rev (map (\<lambda>k. phys + (word_of_nat k :: u64)) [0..<unat len]) =
      map (\<lambda>k. phys + ucast (ucast len - 1 - word_of_nat k :: u32)) [0..<unat (ucast len :: u32)]"
    using tail_down [of "unat len" len phys] assms(2) by simp
  have b: "ucast (nb - start) = (word_of_nat (unat nb - unat start) :: u16)"
    "unat (ucast len - ucast (word_of_nat (unat nb - unat start) :: u16) :: u32) = unat len - (unat nb - unat start)"
    if "unat start < unat nb" "unat nb < unat start + unat len"
  proof -
    have d: "unat (nb - start) = unat nb - unat start" using that by (simp add: unat_sub word_le_nat_alt)
    have "ucast (nb - start) = (word_of_nat (unat (nb - start)) :: u16)" by simp
    then show "ucast (nb - start) = (word_of_nat (unat nb - unat start) :: u16)" unfolding d .
    have "unat nb - unat start < 2 ^ 16" using that assms(2) by auto
    then have u: "unat (word_of_nat (unat nb - unat start) :: u16) = unat nb - unat start"
      by (simp only: unsigned_of_nat) (simp add: take_bit_nat_eq_self)
    show "unat (ucast len - ucast (word_of_nat (unat nb - unat start) :: u16) :: u32) = unat len - (unat nb - unat start)"
    proof -
      have s: "unat (x - y) = unat x - unat y" if "unat y \<le> unat x" for x y :: u32
        using that by (simp add: unat_sub word_le_nat_alt)
      have "unat (ucast len - ucast q :: u32) = unat len - unat q" if "unat q \<le> unat len" for q :: u16
        using s [of "ucast q" "ucast len"] that by simp
      from this [of "word_of_nat (unat nb - unat start)"] show ?thesis using that unfolding u by auto
    qed
  qed
  show ?thesis
  proof (cases "unat nb \<le> unat start")
    case True
    then show ?thesis
      by (simp add: trunc_leaf_def l Let_def word_le_nat_alt leaf_tail [OF assms(2)] a)
  next
    case False
    then show ?thesis
      using b tail_down [of "unat len - (unat nb - unat start)" len phys] assms(2)
      by (auto simp: trunc_leaf_def l Let_def word_le_nat_alt word_less_nat_alt e leaf_tail [OF assms(2)])
  qed
qed
lemma leaf_untouched:
  assumes "\<And>j. j < 12 \<or> ext_entry n \<le> j \<Longrightarrow> c j = b j" "n \<le> i"
  shows "leaf_at c i = leaf_at b i"
proof (rule leaf_at_cong)
  fix j
  assume "ext_entry i \<le> j"
  with assms(2) have "ext_entry n \<le> j" by (simp add: ext_entry_def)
  with assms(1) show "c j = b j" by simp
qed

lemma ordered_end: "leaves_from k xs \<Longrightarrow> leaves_from (leaves_end k xs) [(start, len, phys)] \<Longrightarrow>
    leaves_end k xs \<le> unat start \<and> 0 < unat len \<and> unat len < 0x8000 \<and> unat start + unat len < 2 ^ 32"
  by simp

lemma cut_leaves_past:
  assumes "leaves_from k xs" "leaves_from (leaves_end k xs) ys" "\<And>y. y \<in> set ys \<Longrightarrow> nb \<le> unat (fst y)"
  shows "cut_leaves nb (xs @ ys) = cut_leaves nb xs"
  using assms
proof (induction k xs rule: leaves_from.induct)
  case (1 k)
  then show ?case by (cases ys) (force simp: not_less)+
qed auto

lemma trunc_leaves_blocks:
  assumes "leaves_from 0 (leaves_upto ib n)" "n \<le> 4"
  shows "\<exists>ib' k. k \<le> n \<and> leaves_upto ib' (n - k) = cut_leaves (unat nb) (leaves_upto ib n) \<and>
    (\<forall>j. j < 12 \<or> ext_entry n \<le> j \<longrightarrow> ib' j = ib j) \<and>
    (\<forall>d f. (trunc_leaves nb n ib d f :: ('c ext4_fs, buf \<times> u16 \<times> u32) op) = bindE (free_all (tail_blocks (unat nb) (leaves_upto ib n)))
      (\<lambda>_. retE (ib', d + word_of_nat k, f + word_of_nat (length (tail_blocks (unat nb) (leaves_upto ib n))))))"
  using assms
proof (induction n arbitrary: ib)
  case 0
  show ?case by (intro exI [of _ ib] exI [of _ 0]) (simp add: leaves_upto_def tail_blocks_def block_map_def bindE_def fun_eq_iff)
next
  case (Suc n)
  obtain start len phys where l: "leaf_at ib n = (start, len, phys)" by (metis prod_cases3)
  let ?L = "leaves_upto ib n" and ?T = "tail_blocks (unat nb) [(start, len, phys)]"
  have up: "leaves_upto ib (Suc n) = ?L @ [(start, len, phys)]" by (simp add: leaves_upto_Suc l)
  have f: "leaves_from 0 ?L" "leaves_from (leaves_end 0 ?L) [(start, len, phys)]"
    using Suc.prems(1) by (simp_all only: up leaves_from_append)
  note w = ordered_end [OF f]
  note s = trunc_leaf_step [OF l, of nb]
  have tb: "tail_blocks (unat nb) (leaves_upto ib (Suc n)) = ?T @ tail_blocks (unat nb) ?L"
    by (simp add: up tail_blocks_append)
  show ?case
  proof (cases "unat nb < unat start + unat len")
    case False
    then have "cut_leaves (unat nb) (leaves_upto ib (Suc n)) = leaves_upto ib (Suc n)"
      "tail_blocks (unat nb) (leaves_upto ib (Suc n)) = []"
      using cut_below(1) [OF Suc.prems(1), of "unat nb" "[]"] cut_below(2) [OF Suc.prems(1), of "unat nb"] w by (simp_all add: up leaves_end_append)
    moreover have "trunc_leaf nb ib n = None" using s w False by simp
    ultimately show ?thesis
      by (intro exI [of _ ib] exI [of _ 0]) (simp add: bindE_def fun_eq_iff)
  next
    case in_tail: True
    define c d1 where "c = (if unat nb \<le> unat start then fill_bytes ib (ext_entry n) 0 12
        else put_le16 ib (ext_entry n + 4) (word_of_nat (unat nb - unat start)))"
      and "d1 = (if unat nb \<le> unat start then 1 else 0 :: nat)"
    have tl: "trunc_leaf nb ib n = Some (?T, c, word_of_nat d1)"
      using s w in_tail by (simp add: c_def d1_def)
    have out: "c j = ib j" if "j < ext_entry n \<or> ext_entry (Suc n) \<le> j" for j
      using that by (auto simp: c_def put_le16_def fill_bytes_def ext_entry_def)
    have cl: "leaves_upto c n = ?L"
      by (rule leaves_upto_cong, rule leaf_at_cong, rule out) (auto simp: ext_entry_def)
    have "n \<le> 4" using Suc.prems(2) by simp
    from Suc.IH [of c, unfolded cl, OF f(1) this] obtain ib' k where k: "k \<le> n"
        "leaves_upto ib' (n - k) = cut_leaves (unat nb) ?L" "\<And>j. j < 12 \<or> ext_entry n \<le> j \<Longrightarrow> ib' j = c j"
        "\<And>d f. (trunc_leaves nb n c d f :: ('c ext4_fs, buf \<times> u16 \<times> u32) op) = bindE (free_all (tail_blocks (unat nb) ?L))
          (\<lambda>_. retE (ib', d + word_of_nat k, f + word_of_nat (length (tail_blocks (unat nb) ?L))))"
      by blast
    have tab: "leaves_upto ib' (Suc n - (k + d1)) = cut_leaves (unat nb) (leaves_upto ib (Suc n))"
    proof (cases "unat nb \<le> unat start")
      case True
      then show ?thesis
        using k(2) cut_leaves_past [OF f, of "unat nb"] by (simp add: d1_def up)
    next
      case False
      then have le: "leaves_end 0 ?L \<le> unat nb" using w by simp
      have "cut_leaves (unat nb) ?L = ?L" using cut_below(1) [OF f(1) le, of "[]"] by simp
      then have "n - k = n" using k(2) by (metis length_leaves_upto)
      then have k0: "k = 0 \<or> n = 0" by auto
      have "leaf_at ib' n = leaf_at c n" by (rule leaf_untouched [OF k(3)]) auto
      also have "\<dots> = (start, word_of_nat (unat nb - unat start), phys)"
        using False bump_length(1) [OF lessI, where k = n and b = ib] l by (simp add: c_def leaf_at_def)
      finally have "leaf_at ib' n = (start, word_of_nat (unat nb - unat start), phys)" .
      moreover have "leaves_upto ib' n = ?L" using k0 k(1,2) \<open>cut_leaves (unat nb) ?L = ?L\<close> by auto
      ultimately show ?thesis
        using False k0 k(1) in_tail cut_below(1) [OF f(1) le] by (auto simp: d1_def leaves_upto_Suc l)
    qed
    have eq: "(trunc_leaves nb (Suc n) ib d f :: ('c ext4_fs, buf \<times> u16 \<times> u32) op) =
        bindE (free_all (tail_blocks (unat nb) (leaves_upto ib (Suc n))))
          (\<lambda>_. retE (ib', d + word_of_nat (k + d1), f + word_of_nat (length (tail_blocks (unat nb) (leaves_upto ib (Suc n))))))" for d f
      unfolding trunc_leaves.simps tl option.case prod.case k(4) tb free_all_append bindE_assoc length_append of_nat_add
      by (simp only: ac_simps)
    have "k + d1 \<le> Suc n" using k(1) by (simp add: d1_def)
    moreover have "ib' j = ib j" if "j < 12 \<or> ext_entry (Suc n) \<le> j" for j
      using that k(3) [of j] out [of j] by (auto simp: ext_entry_def)
    ultimately show ?thesis using tab eq by blast
  qed
qed
text \<open>
  C17: Truncation cuts the block map at a number of blocks: it frees exactly the blocks mapped at or
  behind that number, last one first, and counts them; the table it writes back is in order, maps
  what lies below as before and nothing from there on.  When a block cannot be freed, the
  truncation fails the way freeing that block fails.
\<close>

theorem truncate_cuts_map:
  assumes "leaves_from 0 (leaves ib)" "node_entries ib \<le> 4"
  shows "\<exists>ib' k. (trunc_leaves nb (node_entries ib) ib 0 0 :: ('c ext4_fs, buf \<times> u16 \<times> u32) op) =
      bindE (free_all (tail_blocks (unat nb) (leaves ib)))
        (\<lambda>_. retE (ib', k, word_of_nat (length (tail_blocks (unat nb) (leaves ib))))) \<and>
    leaves_from 0 (leaves (put_le16 ib' 2 (le16 ib 2 - k))) \<and>
    (\<forall>l. leaf_lookup (put_le16 ib' 2 (le16 ib 2 - k)) l = (if l < nb then leaf_lookup ib l else Inl (-2)))"
proof -
  from trunc_leaves_blocks [OF assms, of nb, where 'c = 'c] obtain ib' k where k: "k \<le> node_entries ib"
      "leaves_upto ib' (node_entries ib - k) = cut_leaves (unat nb) (leaves ib)"
      "(trunc_leaves nb (node_entries ib) ib 0 0 :: ('c ext4_fs, buf \<times> u16 \<times> u32) op) = bindE (free_all (tail_blocks (unat nb) (leaves ib)))
        (\<lambda>_. retE (ib', word_of_nat k, word_of_nat (length (tail_blocks (unat nb) (leaves ib)))))"
    by auto
  let ?t = "put_le16 ib' 2 (le16 ib 2 - word_of_nat k)"
  have "unat (word_of_nat k :: u16) = k"
    using k(1) assms(2) by (simp add: unsigned_of_nat take_bit_nat_eq_self)
  then have "unat (le16 ib 2 - word_of_nat k) = unat (le16 ib 2) - k"
    using k(1) by (subst unat_sub) (simp_all add: word_le_nat_alt node_entries_def)
  then have n: "node_entries ?t = node_entries ib - k" by (simp add: node_entries_def)
  have "leaf_at ?t i = leaf_at ib' i" for i
    by (rule leaf_at_cong) (simp add: put_le16_def ext_entry_def)
  then have t: "leaves ?t = cut_leaves (unat nb) (leaves ib)"
    unfolding n k(2) [symmetric] by (intro leaves_upto_cong) simp
  note c = cut_leaves_map [OF assms(1), of "unat nb"]
  have "leaf_lookup ?t l = (if l < nb then leaf_lookup ib l else Inl (-2))" for l
    unfolding leaf_lookup_leaves t c(2) by (simp add: word_less_nat_alt)
  then show ?thesis using k(3) c(1) t by (intro exI [of _ ib'] exI [of _ "word_of_nat k"]) simp
qed

theorem truncate_cuts_map_witness:
  "\<exists>ib' k. (trunc_leaves 0 1 (i_block file_inode) 0 0 :: (file_ctx ext4_fs, _) op) =
      bindE (free_all [24]) (\<lambda>_. retE (ib', k, 1)) \<and>
    leaf_lookup (put_le16 ib' 2 (le16 (i_block file_inode) 2 - k)) 0 = Inl (-2)"
proof -
  have "tail_blocks 0 [(0, 1, 24)] = [24]" by (simp add: tail_blocks_def block_map_def leaf_run_def)
  with truncate_cuts_map [of "i_block file_inode" 0] show ?thesis
    by (fastforce simp: file_leaves file_inode_fields)
qed

theorem extend_loses_full_leaf_witness:
  "\<exists>ib :: buf. leaf_lookup ib 5 = Inr 105 \<and>
    leaf_lookup (extend_table (node_entries ib) (last_leaf ib) (100 + 0x7FFF) ib 0) 5 = Inl (-2)"
proof -
  define ib :: buf where "ib = zero_buf(2 := 1, 16 := 0xFF, 17 := 0x7F, 20 := 100)"
  have n: "node_entries ib = 1" "leaf_at ib 0 = (0, 0x7FFF, 100)"
    by (simp_all add: ib_def node_entries_def leaf_at_def leaf_logical_def leaf_phys_def ext_entry_def le16_def le32_def zero_buf_def)
  then have l: "leaves ib = [(0, 0x7FFF, 100)]" by (simp add: leaves_upto_def)
  from extend_loses_full_leaf [of ib "[]" 0 100 5] show ?thesis
    by (intro exI [of _ ib]) (simp add: l)
qed

end
