(* ===== verification/Plans.thy ===== *)
theory Plans
  imports Rename Allocating
begin

text \<open>
  The operations that change the volume as plans: what is read, which transactions are handed to the
  journal, in which order, and what is returned.  A plan is an abstract description of an operation;
  running it gives the operation of the code.
\<close>

section \<open>Plans\<close>

datatype ('c, 'a) plan =
    Ret 'a
  | Reads "('c ext4_fs, ('c, 'a) plan) op"
  | Commit "int option" jbd_trans "('c, 'a) plan"

definition coded :: "int option \<Rightarrow> ('s, 'a) op \<Rightarrow> ('s, 'a) op" where
  "coded rc m = (case rc of None \<Rightarrow> m | Some rc \<Rightarrow> orX m rc)"

definition joinE :: "('s, ('s, 'a) op) op \<Rightarrow> ('s, 'a) op" where
  "joinE m = bindE m (\<lambda>k. k)"

primrec run_plan :: "('c, 'a) plan \<Rightarrow> ('c ext4_fs, 'a) op" where
  "run_plan (Ret x) = retE x"
| "run_plan (Reads m) = joinE (map_prod (map_sum id run_plan) id \<circ> m)"
| "run_plan (Commit rc ts k) = bindE (coded rc (ext4_journal_commit ts)) (\<lambda>_. run_plan k)"

lemma run_Reads: "run_plan (Reads m) = bindE m run_plan"
  by (rule ext) (simp add: joinE_def bindE_def split: prod.split sum.split)

declare run_plan.simps(2) [simp del]

text \<open>The transactions a plan hands to the journal, up to the first that fails, and the number of
  those that succeed.\<close>

primrec plan_trans :: "('c, 'a) plan \<Rightarrow> 'c ext4_fs \<Rightarrow> jbd_trans list" where
  "plan_trans (Ret x) = (\<lambda>fs. [])"
| "plan_trans (Reads m) =
     (\<lambda>fs. case (map_prod (map_sum id plan_trans) id \<circ> m) fs of
              (Inl _, _) \<Rightarrow> [] | (Inr k, fs) \<Rightarrow> k fs)"
| "plan_trans (Commit rc ts k) =
     (\<lambda>fs. ts # (case ext4_journal_commit ts fs of (Inl _, _) \<Rightarrow> [] | (Inr _, fs) \<Rightarrow> plan_trans k fs))"

primrec plan_done :: "('c, 'a) plan \<Rightarrow> 'c ext4_fs \<Rightarrow> nat" where
  "plan_done (Ret x) = (\<lambda>fs. 0)"
| "plan_done (Reads m) =
     (\<lambda>fs. case (map_prod (map_sum id plan_done) id \<circ> m) fs of
              (Inl _, _) \<Rightarrow> 0 | (Inr k, fs) \<Rightarrow> k fs)"
| "plan_done (Commit rc ts k) =
     (\<lambda>fs. case ext4_journal_commit ts fs of (Inl _, _) \<Rightarrow> 0 | (Inr _, fs) \<Rightarrow> Suc (plan_done k fs))"

lemma plan_Reads:
  "plan_trans (Reads m) fs = (case m fs of (Inl _, _) \<Rightarrow> [] | (Inr k, fs) \<Rightarrow> plan_trans k fs)"
  "plan_done (Reads m) fs = (case m fs of (Inl _, _) \<Rightarrow> 0 | (Inr k, fs) \<Rightarrow> plan_done k fs)"
  by (simp_all split: prod.split sum.split)

declare plan_trans.simps(2) [simp del] plan_done.simps(2) [simp del]

text \<open>What a plan reads leaves the volume alone.\<close>

inductive reads_only :: "('c, 'a) plan \<Rightarrow> bool" where
  ret: "reads_only (Ret x)"
| reads: "keeps same_but_bgd m \<Longrightarrow> (\<And>fs k fs'. m fs = (Inr k, fs') \<Longrightarrow> reads_only k) \<Longrightarrow> reads_only (Reads m)"
| commit: "reads_only k \<Longrightarrow> reads_only (Commit rc ts k)"

inductive_cases reads_only_Reads: "reads_only (Reads m)"
inductive_simps reads_only_Commit [simp]: "reads_only (Commit rc ts k)"

section \<open>Writing plans\<close>

definition rd :: "('c ext4_fs, 'b) op \<Rightarrow> ('b \<Rightarrow> ('c, 'a) plan) \<Rightarrow> ('c, 'a) plan" where
  "rd m f = Reads (bindE m (\<lambda>x. retE (f x)))"

lemma run_rd: "run_plan (rd m f) = bindE m (\<lambda>x. run_plan (f x))"
  by (simp add: rd_def run_Reads bindE_assoc)

lemma reads_rd:
  assumes "keeps same_but_bgd m" "\<And>x. reads_only (f x)"
  shows "reads_only (rd m f)"
  unfolding rd_def
proof (rule reads_only.reads)
  show "keeps same_but_bgd (bindE m (\<lambda>x. retE (f x)))"
    by (intro keeps_bindE [OF assms(1) _ transp_same_but_bgd] keeps_reads)
qed (use assms(2) in \<open>auto simp: bindE_Inr_iff\<close>)

lemma run_plan_cases:
  "run_plan (case_prod f p) = (case p of (a, b) \<Rightarrow> run_plan (f a b))"
  "run_plan (if c then k else k') = (if c then run_plan k else run_plan k')"
  "run_plan (case_option k g v) = (case v of None \<Rightarrow> run_plan k | Some a \<Rightarrow> run_plan (g a))"
  by (simp_all split: prod.split option.split)

lemma bindE_cases:
  "bindE (case_prod f p) g = (case p of (a, b) \<Rightarrow> bindE (f a b) g)"
  "bindE (if c then m else m') g = (if c then bindE m g else bindE m' g)"
  by (simp_all split: prod.split)

lemma orX_bindE: "orX (bindE m f) rc = bindE (orX m rc) (\<lambda>x. orX (f x) rc)"
  by (rule ext) (auto simp: orX_def bindE_def split: prod.split sum.split)

lemma orX_pure: "orX (retE x) rc = retE x" "orX (getE f) rc = getE f"
  by (rule ext, simp add: orX_def)+

lemmas plan_runs = run_rd run_plan.simps(1,3) run_plan_cases bindE_cases bindE_assoc coded_def option.case

section \<open>The operations\<close>

definition write_plan :: "ext4_inode \<Rightarrow> u32 \<Rightarrow> u32 \<Rightarrow> buf \<Rightarrow> u32 \<Rightarrow> ('c, ext4_inode) plan" where
  "write_plan inode ino logical data now =
     rd (checkE (ino \<noteq> 0) (-1)) (\<lambda>_.
     rd (write_cap (-1)) (\<lambda>_.
     rd (extent_lookup (i_block inode) logical) (\<lambda>phys.
     rd (inode_group_in_range ino (-1)) (\<lambda>_.
     rd (read_inode_at ino) (\<lambda>(b, blk, off).
     rd (getE (\<lambda>fs. fs)) (\<lambda>fs.
     Commit None [(phys, copy_bytes zero_buf 0 data (bs_nat fs)),
                  (blk, inode_set_mtime_and_csum fs ino b off now)]
     (Ret (inode\<lparr>i_mtime := now\<rparr>))))))))"

definition extend_plan :: "ext4_inode \<Rightarrow> u32 \<Rightarrow> buf \<Rightarrow> u32 \<Rightarrow> u32 \<Rightarrow> ('c, ext4_inode) plan" where
  "extend_plan inode ino data added now =
     rd (checkE (ino \<noteq> 0) (-1)) (\<lambda>_.
     rd (write_cap (-1)) (\<lambda>_.
     rd (getE (\<lambda>fs. fs)) (\<lambda>fs.
     rd (checkE (extend_checks fs inode) (-1)) (\<lambda>_.
     (let entries = node_entries (i_block inode); lf = last_leaf (i_block inode) in
     rd (extend_alloc entries (contig_of lf)) (\<lambda>a.
     rd (sb_take_block (-1)) (\<lambda>sb.
     rd (inode_group_in_range ino (-1)) (\<lambda>_.
     rd (orX (read_inode_at ino) (-1)) (\<lambda>(b, blk, off).
     rd (checkE (entries \<noteq> 0 \<or> ba_block a \<noteq> contig_of lf) rc_trap) (\<lambda>_.
     (let new_size = i_size inode + ucast added in
     Commit None
       [(ba_block a, extend_data fs data added), (ba_bitmap_phys a, ba_bitmap a),
        (bgd_fs_block fs, ba_bgd a), (sb_fs_block fs, sb),
        (blk, extend_inode fs inode ino lf (ba_block a) new_size now b off)]
     (Ret (inode\<lparr>i_mtime := now, i_size := new_size,
                 i_block := extend_table entries lf (ba_block a) (i_block inode) 0\<rparr>)))))))))))))"

definition create_plan :: "u32 \<Rightarrow> byte list \<Rightarrow> u16 \<Rightarrow> u32 \<Rightarrow> ('c, u32) plan" where
  "create_plan parent_ino name mode now =
     rd (write_cap 0) (\<lambda>_.
     rd (checkE (length name \<noteq> 0) 0) (\<lambda>_.
     rd (orX (ext4_inode_read parent_ino) 0) (\<lambda>parent.
     rd (orX (read_inode_block parent_ino) 0) (\<lambda>pslot.
     rd (parent_slot parent name) (\<lambda>s.
     rd (orX find_free_inode 0) (\<lambda>a.
     rd (getE (\<lambda>fs. fs)) (\<lambda>fs.
     rd (sb_take_inode 0) (\<lambda>sb.
     rd (orX (read_inode_at (ia_num a)) 0) (\<lambda>(b, blk, off).
     Commit (Some 0)
       [(ds_block s, slot_fill fs parent_ino (is_gen pslot) s (ia_num a) 1 name),
        (inode_bitmap_block fs a, ia_bitmap a), (bgd_fs_block fs, ia_bgd a), (sb_fs_block fs, sb),
        (blk, init_inode fs (ia_num a) mode 1 now b off)]
     (Ret (ia_num a)))))))))))"

text \<open>Two transactions: the inode, then its block and the entry in the parent.\<close>

definition mkdir_plan :: "u32 \<Rightarrow> byte list \<Rightarrow> u32 \<Rightarrow> ('c, u32) plan" where
  "mkdir_plan parent_ino name now =
     rd (write_cap 0) (\<lambda>_.
     rd (checkE (length name \<noteq> 0) 0) (\<lambda>_.
     rd (orX (ext4_inode_read parent_ino) 0) (\<lambda>parent.
     rd (orX (read_inode_block parent_ino) 0) (\<lambda>pslot.
     rd (parent_slot parent name) (\<lambda>s.
     rd (orX find_free_inode 0) (\<lambda>i.
     rd (getE (\<lambda>fs. fs)) (\<lambda>fs.
     rd (sb_take_inode 0) (\<lambda>sb.
     rd (orX (read_inode_at (ia_num i)) 0) (\<lambda>(b, blk, off).
     Commit (Some 0)
       [(inode_bitmap_block fs i, ia_bitmap i),
        (bgd_fs_block fs, bgd_add_dir fs (ia_group i) (ia_bgd i)), (sb_fs_block fs, sb),
        (blk, init_inode fs (ia_num i) dir_mode 2 now b off)]
     (let ino = ia_num i in
     rd (orX find_free_block 0) (\<lambda>a.
     rd (getE (\<lambda>fs. fs)) (\<lambda>fs.
     rd (sb_take_block 0) (\<lambda>sb.
     rd (orX (read_inode_at ino) 0) (\<lambda>(b, blk, off).
     rd (orX (read_inode_at parent_ino) 0) (\<lambda>(pb, pblk, poff).
     Commit (Some 0)
       [(ba_block a, dots_block fs ino parent_ino), (ba_bitmap_phys a, ba_bitmap a),
        (bgd_fs_block fs, ba_bgd a), (sb_fs_block fs, sb), (blk, mkdir_inode fs ino (ba_block a) b off),
        (ds_block s, slot_fill fs parent_ino (is_gen pslot) s ino 2 name),
        (pblk, inode_set_links fs parent_ino pb poff (links_at pb poff + 1) now)]
     (Ret ino))))))))))))))))"

text \<open>What is read before a block or an inode is freed, up to the transaction.\<close>

definition free_reads :: "u64 \<Rightarrow> ('c ext4_fs, jbd_trans) op" where
  "free_reads blk =
     bindE (getE (\<lambda>fs. fs)) (\<lambda>fs.
     bindE (checkE (s_blocks_per_group (fs_sb fs) \<noteq> 0) rc_trap) (\<lambda>_.
     (let grp = free_group fs blk in
     bindE (orX (fs_read_block (bgd_fs_block fs)) (-1)) (\<lambda>bgd.
     bindE (checkE (bgd_entry_fits fs grp) rc_trap) (\<lambda>_.
     (let bmap_phys = bgd_block fs (at bgd (bgd_entry_off fs grp)) 0x00 0x20 in
     bindE (orX (fs_read_block bmap_phys) (-1)) (\<lambda>bm.
     (let bm' = bmp_clear bm (unat (bit_of_block fs blk)) in
     bindE (sb_give_block (-1)) (\<lambda>sb.
     retE [(bmap_phys, bm'), (bgd_fs_block fs, bgd_give_block fs grp bgd bm'), (sb_fs_block fs, sb)])))))))))"

definition inode_reads :: "bool \<Rightarrow> u32 \<Rightarrow> u32 \<Rightarrow> u32 \<Rightarrow> u64 \<times> buf \<Rightarrow> ('c ext4_fs, jbd_trans) op" where
  "inode_reads is_dir parent_ino ino now pdir =
     bindE (getE (\<lambda>fs. fs)) (\<lambda>fs.
     bindE (checkE (s_inodes_per_group (fs_sb fs) \<noteq> 0) rc_trap) (\<lambda>_.
     (let grp = ino_group fs ino in
     bindE (orX (fs_read_block (bgd_fs_block fs)) (-1)) (\<lambda>bgd.
     bindE (checkE (bgd_entry_fits fs grp) rc_trap) (\<lambda>_.
     (let ibmap = bgd_block fs (at bgd (bgd_entry_off fs grp)) 0x04 0x24 in
     bindE (orX (fs_read_block ibmap) (-1)) (\<lambda>bm.
     (let bm' = bmp_clear bm (unat (ino_index fs ino)) in
     bindE (sb_give_inode (-1)) (\<lambda>sb.
     bindE (orX (read_inode_at ino) (-1)) (\<lambda>(b, blk, off).
     bindE (orX (read_inode_at parent_ino) (-1)) (\<lambda>(pb, pblk, poff).
     retE [(ibmap, bm'), (bgd_fs_block fs, bgd_give_inode fs is_dir grp bgd bm'), (sb_fs_block fs, sb),
           (blk, fill_bytes b off 0 (unat (s_inode_size (fs_sb fs)))), pdir,
           (pblk, if is_dir then inode_set_links fs parent_ino pb poff (dec_links (links_at pb poff)) now
                  else inode_set_mtime_and_csum fs parent_ino pb poff now)])))))))))))"

fun free_plans :: "u64 list \<Rightarrow> ('c, 'a) plan \<Rightarrow> ('c, 'a) plan" where
  "free_plans [] k = k"
| "free_plans (blk # blks) k =
     rd (orX (free_reads blk) (-1)) (\<lambda>ts. Commit (Some (-1)) ts (free_plans blks k))"

definition unlink_plan :: "bool \<Rightarrow> u32 \<Rightarrow> u32 \<Rightarrow> u32 \<Rightarrow> u64 \<times> buf \<Rightarrow> ('c, unit) plan" where
  "unlink_plan is_dir parent_ino ino now pdir =
     rd (inode_reads is_dir parent_ino ino now pdir) (\<lambda>ts. Commit (Some (-1)) ts (Ret ()))"

definition rmdir_plan :: "u32 \<Rightarrow> u32 \<Rightarrow> ('c, unit) plan" where
  "rmdir_plan parent_ino dir_ino =
     rd (write_cap (-1)) (\<lambda>_.
     rd (checkE (dir_ino \<noteq> 0 \<and> dir_ino \<noteq> 2) (-1)) (\<lambda>_.
     rd (orX (ext4_inode_read dir_ino) (-1)) (\<lambda>inode.
     rd (checkE (is_dir_inode inode) (-1)) (\<lambda>_.
     rd (checkE (le16 (i_block inode) 0 = ext4_ext_magic) (-1)) (\<lambda>_.
     rd (checkE (le16 (i_block inode) 6 = 0 \<and> le16 (i_block inode) 2 = 1) (-1)) (\<lambda>_.
     rd (orX (extent_lookup (i_block inode) 0) (-1)) (\<lambda>phys.
     rd (orX (fs_read_block phys) (-1)) (\<lambda>blk.
     rd (getE (\<lambda>fs. fs)) (\<lambda>fs.
     rd (checkE (dir_is_empty_from blk (bs_nat fs) 0) (-1)) (\<lambda>_.
     rd (unlink_in_parent parent_ino dir_ino) (\<lambda>pdir.
     free_plans [phys] (unlink_plan True parent_ino dir_ino (i_mtime inode + 1) pdir))))))))))))"

definition remove_plan :: "u32 \<Rightarrow> u32 \<Rightarrow> ('c, unit) plan" where
  "remove_plan parent_ino file_ino =
     rd (write_cap (-1)) (\<lambda>_.
     rd (checkE (file_ino \<noteq> 0 \<and> file_ino \<noteq> 2) (-1)) (\<lambda>_.
     rd (orX (ext4_inode_read file_ino) (-1)) (\<lambda>inode.
     rd (checkE (\<not> is_dir_inode inode) (-1)) (\<lambda>_.
     rd (checkE (le16 (i_block inode) 0 = ext4_ext_magic) (-1)) (\<lambda>_.
     rd (checkE (le16 (i_block inode) 6 = 0) (-1)) (\<lambda>_.
     free_plans (file_blocks (i_block inode))
       (rd (unlink_in_parent parent_ino file_ino) (\<lambda>pdir.
        unlink_plan False parent_ino file_ino (i_mtime inode + 1) pdir))))))))"

fun trunc_plan :: "u32 \<Rightarrow> nat \<Rightarrow> buf \<Rightarrow> u16 \<Rightarrow> u32 \<Rightarrow> (buf \<times> u16 \<times> u32 \<Rightarrow> ('c, 'a) plan) \<Rightarrow> ('c, 'a) plan" where
  "trunc_plan nblocks 0 ib dropped freed k = k (ib, dropped, freed)"
| "trunc_plan nblocks (Suc i) ib dropped freed k =
     (case trunc_leaf nblocks ib i of
        None \<Rightarrow> k (ib, dropped, freed)
      | Some (blks, ib', d) \<Rightarrow>
          free_plans blks (trunc_plan nblocks i ib' (dropped + d) (freed + word_of_nat (length blks)) k))"

definition truncate_plan :: "u32 \<Rightarrow> u64 \<Rightarrow> u32 \<Rightarrow> ('c, unit) plan" where
  "truncate_plan ino new_size now =
     rd (checkE (ino \<noteq> 0 \<and> ino \<noteq> 2) (-1)) (\<lambda>_.
     rd (write_cap (-1)) (\<lambda>_.
     rd (orX (ext4_inode_read ino) (-1)) (\<lambda>inode.
     rd (checkE (\<not> is_dir_inode inode) (-1)) (\<lambda>_.
     rd (checkE (new_size \<le> i_size inode) (-1)) (\<lambda>_.
     (if new_size = i_size inode then Ret ()
      else
        rd (checkE (le16 (i_block inode) 0 = ext4_ext_magic) (-1)) (\<lambda>_.
        rd (checkE (le16 (i_block inode) 6 = 0) (-1)) (\<lambda>_.
        rd (getE (\<lambda>fs. fs)) (\<lambda>fs.
        trunc_plan (trunc_block_count fs new_size) (node_entries (i_block inode)) (i_block inode) 0 0
          (\<lambda>(ib, dropped, freed).
             rd (orX (read_inode_at ino) (-1)) (\<lambda>(b, blk, off).
             Commit (Some (-1))
               [(blk, trunc_inode fs ino (put_le16 ib 2 (le16 (i_block inode) 2 - dropped)) new_size freed now b off)]
             (Ret ()))))))))))))"

definition rename_plan :: "u32 \<Rightarrow> u32 \<Rightarrow> byte list \<Rightarrow> ('c, unit) plan" where
  "rename_plan parent_ino file_ino name =
     rd (write_cap (-1)) (\<lambda>_.
     rd (checkE (length name \<noteq> 0) (-1)) (\<lambda>_.
     rd (orX (ext4_inode_read parent_ino) (-1)) (\<lambda>parent.
     rd (orX (read_inode_block parent_ino) (-1)) (\<lambda>pslot.
     rd (getE (\<lambda>fs. fs)) (\<lambda>fs.
     rd (find_entry_blocks parent file_ino (dir_block_numbers fs parent)) (\<lambda>h.
     rd (checkE (rec_need (length name) \<le> rec_len_at (dh_buf h) (dh_off h)) (-1)) (\<lambda>_.
     rd (orX (read_inode_at parent_ino) (-1)) (\<lambda>(pb, pblk, poff).
     Commit (Some (-1))
       [(dh_block h, dir_block_set_tail_csum fs (put_name (bs_nat fs) (dh_buf h) (dh_off h) name)
           parent_ino (is_gen pslot)),
        (pblk, inode_set_mtime_and_csum fs parent_ino pb poff (i_mtime parent + 1))]
     (Ret ())))))))))"

definition xdir_plan :: "u32 \<Rightarrow> u32 \<Rightarrow> u32 \<Rightarrow> byte list \<Rightarrow> u32 \<Rightarrow> ('c, unit) plan" where
  "xdir_plan old_ino file_ino new_ino name now =
     rd (checkE (old_ino \<noteq> new_ino) (-1)) (\<lambda>_.
     rd (checkE (length name \<noteq> 0) (-1)) (\<lambda>_.
     rd (checkE (file_ino \<noteq> 0 \<and> file_ino \<noteq> 2) (-1)) (\<lambda>_.
     rd (orX (ext4_inode_read old_ino) (-1)) (\<lambda>old_par.
     rd (orX (ext4_inode_read new_ino) (-1)) (\<lambda>new_par.
     rd (orX (ext4_inode_read file_ino) (-1)) (\<lambda>inode.
     rd (checkE (\<not> (is_dir_inode inode \<and> file_ino = new_ino)) (-1)) (\<lambda>_.
     rd (if is_dir_inode inode then xdir_is_ancestor file_ino new_ino else retE False) (\<lambda>cycle.
     rd (checkE (\<not> cycle) (-1)) (\<lambda>_.
     rd (write_cap rc_trap) (\<lambda>_.
     rd (orX (read_inode_block old_ino) (-1)) (\<lambda>so.
     rd (orX (read_inode_block new_ino) (-1)) (\<lambda>sn.
     rd (xdir_old_entry old_par file_ino) (\<lambda>h.
     rd (xdir_new_slot new_par name) (\<lambda>s.
     rd (if is_dir_inode inode then bindE (xdir_moved_block inode file_ino new_ino) (\<lambda>m. retE [m])
         else retE []) (\<lambda>moved.
     rd (getE (\<lambda>fs. fs)) (\<lambda>fs.
     Commit (Some (-1))
       ([(dh_block h, hit_remove fs old_ino (is_gen so) h),
         (ds_block s, slot_fill fs new_ino (xdir_new_gen so sn) s file_ino
            (if is_dir_inode inode then 2 else 1) name)]
        @ xdir_parents fs (is_dir_inode inode) old_ino new_ino so sn now @ moved)
     (Ret ())))))))))))))))))"

section \<open>Running the plans\<close>

lemma orX_check: "orX (checkE ok rc) rc' = checkE ok (if 0 < rc then rc else rc')"
  by (rule ext) (simp add: orX_def)

lemma orX_orX: "orX (orX m rc) rc = orX m rc"
  by (rule ext) (auto simp: orX_def split: prod.split sum.split)

lemma bindE_unit: "bindE m (\<lambda>_. retE ()) = m" for m :: "('s, unit) op"
proof -
  have "(\<lambda>_. retE ()) = (retE :: unit \<Rightarrow> ('s, unit) op)" by (rule ext) simp
  then show ?thesis by (simp only: bindE_retE)
qed

lemma free_block_reads: "free_one_data_block blk = bindE (free_reads blk) ext4_journal_commit"
  unfolding free_one_data_block_def free_reads_def Let_def by (simp only: bindE_assoc retE_bindE)

lemma free_inode_reads:
  "free_inode_tx is_dir parent_ino ino now pdir =
     bindE (inode_reads is_dir parent_ino ino now pdir) (\<lambda>ts. orX (ext4_journal_commit ts) (-1))"
  unfolding free_inode_tx_def inode_reads_def Let_def
  by (simp only: bindE_assoc retE_bindE bindE_cases case_prod_unfold)

lemma run_free_plans: "run_plan (free_plans blks k) = bindE (free_all blks) (\<lambda>_. run_plan k)"
  by (induction blks) (simp_all only: free_plans.simps free_all.simps plan_runs retE_bindE free_block_reads orX_bindE)

lemma run_unlink_plan: "run_plan (unlink_plan is_dir parent_ino ino now pdir) = free_inode_tx is_dir parent_ino ino now pdir"
  by (simp only: unlink_plan_def free_inode_reads plan_runs bindE_unit)

lemma run_trunc_plan:
  "run_plan (trunc_plan nblocks i ib dropped freed k) =
     bindE (trunc_leaves nblocks i ib dropped freed) (\<lambda>r. run_plan (k r))"
proof (induction nblocks i ib dropped freed k rule: trunc_plan.induct)
  case (2 nblocks i ib dropped freed k)
  show ?case
  proof (cases "trunc_leaf nblocks ib i")
    case None
    then show ?thesis by (simp only: trunc_plan.simps trunc_leaves.simps option.case retE_bindE)
  next
    case (Some v)
    obtain blks ib' d where v: "v = (blks, ib', d)" by (metis prod_cases3)
    show ?thesis
      using 2 [OF Some v [symmetric] refl]
      by (simp only: trunc_plan.simps trunc_leaves.simps Some v option.case prod.case run_free_plans bindE_assoc)
  qed
qed (simp only: trunc_plan.simps trunc_leaves.simps retE_bindE)

datatype file_op =
    Write_block ext4_inode u32 u32 buf u32
  | Extend_block ext4_inode u32 buf u32 u32
  | Create u32 "byte list" u16 u32
  | Make_dir u32 "byte list" u32
  | Remove_dir u32 u32
  | Remove_file u32 u32
  | Truncate u32 u64 u32
  | Rename_in u32 u32 "byte list"
  | Rename_to u32 u32 u32 "byte list" u32

text \<open>The operation of the code, its result left aside.\<close>

definition dropE :: "('s, 'a) op \<Rightarrow> ('s, unit) op" where
  "dropE m = bindE m (\<lambda>_. retE ())"

fun perform :: "file_op \<Rightarrow> ('c ext4_fs, unit) op" where
  "perform (Write_block inode ino logical data now) = dropE (ext4_file_write_block inode ino logical data now)"
| "perform (Extend_block inode ino data added now) = dropE (ext4_file_extend_block inode ino data added now)"
| "perform (Create parent_ino name mode now) = dropE (ext4_file_create parent_ino name mode now)"
| "perform (Make_dir parent_ino name now) = dropE (ext4_dir_create parent_ino name now)"
| "perform (Remove_dir parent_ino dir_ino) = ext4_dir_remove parent_ino dir_ino"
| "perform (Remove_file parent_ino file_ino) = ext4_file_remove parent_ino file_ino"
| "perform (Truncate ino new_size now) = ext4_file_truncate ino new_size now"
| "perform (Rename_in parent_ino file_ino name) = ext4_rename parent_ino file_ino name"
| "perform (Rename_to old_ino file_ino new_ino name now) = ext4_rename_xdir old_ino file_ino new_ino name now"

text \<open>The same plan with another result.\<close>

primrec forget :: "('c, 'a) plan \<Rightarrow> ('c, unit) plan" where
  "forget (Ret x) = Ret ()"
| "forget (Reads m) = Reads (map_prod (map_sum id forget) id \<circ> m)"
| "forget (Commit rc ts k) = Commit rc ts (forget k)"

fun plan_of :: "file_op \<Rightarrow> ('c, unit) plan" where
  "plan_of (Write_block inode ino logical data now) = forget (write_plan inode ino logical data now)"
| "plan_of (Extend_block inode ino data added now) = forget (extend_plan inode ino data added now)"
| "plan_of (Create parent_ino name mode now) = forget (create_plan parent_ino name mode now)"
| "plan_of (Make_dir parent_ino name now) = forget (mkdir_plan parent_ino name now)"
| "plan_of (Remove_dir parent_ino dir_ino) = rmdir_plan parent_ino dir_ino"
| "plan_of (Remove_file parent_ino file_ino) = remove_plan parent_ino file_ino"
| "plan_of (Truncate ino new_size now) = truncate_plan ino new_size now"
| "plan_of (Rename_in parent_ino file_ino name) = rename_plan parent_ino file_ino name"
| "plan_of (Rename_to old_ino file_ino new_ino name now) = xdir_plan old_ino file_ino new_ino name now"

lemma run_forget: "run_plan (forget k) = dropE (run_plan k)"
proof (induction k)
  case (Reads m)
  have "run_plan (forget (Reads m)) fs = dropE (run_plan (Reads m)) fs" for fs
  proof -
    obtain r fs' where m: "m fs = (r, fs')" by fastforce
    have "run_plan (forget k) = dropE (run_plan k)" if "r = Inr k" for k
      by (rule Reads.IH [of "m fs" r]) (use rangeI [of m fs] in \<open>simp_all add: m that\<close>)
    then show ?thesis by (cases r) (simp_all add: run_Reads dropE_def bindE_def m)
  qed
  then show ?case by (rule ext)
qed (simp_all only: forget.simps run_plan.simps dropE_def bindE_assoc retE_bindE)

lemma run_write_plan: "run_plan (write_plan inode ino logical data now) = ext4_file_write_block inode ino logical data now"
  unfolding write_plan_def ext4_file_write_block_def by (simp only: plan_runs case_prod_unfold)

lemma run_extend_plan: "run_plan (extend_plan inode ino data added now) = ext4_file_extend_block inode ino data added now"
  unfolding extend_plan_def ext4_file_extend_block_def Let_def by (simp only: plan_runs case_prod_unfold)

lemma run_create_plan: "run_plan (create_plan parent_ino name mode now) = ext4_file_create parent_ino name mode now"
  unfolding create_plan_def ext4_file_create_def by (simp only: plan_runs case_prod_unfold)

lemma run_mkdir_plan: "run_plan (mkdir_plan parent_ino name now) = ext4_dir_create parent_ino name now"
  unfolding mkdir_plan_def ext4_dir_create_def mkdir_alloc_inode_def mkdir_link_def Let_def
  by (simp only: plan_runs case_prod_unfold retE_bindE)

lemma run_rmdir_plan: "run_plan (rmdir_plan parent_ino dir_ino) = ext4_dir_remove parent_ino dir_ino"
  unfolding rmdir_plan_def ext4_dir_remove_def
  by (simp only: plan_runs run_free_plans run_unlink_plan free_all.simps retE_bindE)

lemma run_remove_plan: "run_plan (remove_plan parent_ino file_ino) = ext4_file_remove parent_ino file_ino"
  unfolding remove_plan_def ext4_file_remove_def by (simp only: plan_runs run_free_plans run_unlink_plan)

lemma run_truncate_plan: "run_plan (truncate_plan ino new_size now) = ext4_file_truncate ino new_size now"
  unfolding truncate_plan_def ext4_file_truncate_def Let_def
  by (simp only: plan_runs run_trunc_plan case_prod_unfold bindE_unit)

lemma run_rename_plan: "run_plan (rename_plan parent_ino file_ino name) = ext4_rename parent_ino file_ino name"
  unfolding rename_plan_def ext4_rename_def by (simp only: plan_runs case_prod_unfold bindE_unit)

lemma run_xdir_plan: "run_plan (xdir_plan old_ino file_ino new_ino name now) = ext4_rename_xdir old_ino file_ino new_ino name now"
  unfolding xdir_plan_def ext4_rename_xdir_def Let_def by (simp only: plan_runs bindE_unit)

section \<open>What the operations read\<close>

named_theorems keeping \<open>reading operations leave the volume alone\<close>

declare keeps_steps [keeping] keeps_extent_lookup [keeping] keeps_ext4_inode_read [keeping]

lemma keeps_read_ops [keeping]:
  "keeps same_but_bgd (write_cap rc)" "keeps same_but_bgd (inode_group_in_range ino rc)"
  "keeps same_but_bgd (sb_take_block rc)" "keeps same_but_bgd (sb_take_inode rc)"
  "keeps same_but_bgd (sb_give_block rc)" "keeps same_but_bgd (sb_give_inode rc)"
  unfolding write_cap_def inode_group_in_range_def sb_take_block_def sb_take_inode_def sb_give_block_def
    sb_give_inode_def Let_def
  by (intro keeping)+

lemma keeps_read_at [keeping]: "keeps same_but_bgd (read_inode_at ino)" "keeps same_but_bgd (read_inode_block ino)"
proof -
  show at: "keeps same_but_bgd (read_inode_at ino)"
    unfolding read_inode_at_def by (intro keeping) (auto intro!: keeping split: prod.split)
  show "keeps same_but_bgd (read_inode_block ino)"
    unfolding read_inode_block_def by (intro keeping at) (auto intro!: keeping split: prod.split)
qed

lemma keeps_first_group:
  "(\<And>g. keeps same_but_bgd (try g)) \<Longrightarrow> keeps same_but_bgd (first_group try gs)"
  by (induction gs) (auto intro!: keeping split: option.split)

lemma keeps_try_inode: "keeps same_but_bgd (try_group_inode bgd grp)"
  unfolding try_group_inode_def Let_def
  by (intro keeping) (auto intro!: keeping split: option.split sum.split)

lemma keeps_find [keeping]: "keeps same_but_bgd find_free_inode" "keeps same_but_bgd find_free_block"
  unfolding find_free_inode_def find_free_block_def
  by (intro keeping keeps_first_group keeps_try_inode keeps_try_block)+

lemma keeps_extend_alloc [keeping]: "keeps same_but_bgd (extend_alloc entries contig)"
proof -
  have "keeps same_but_bgd (alloc_contig contig grp)" for grp
    unfolding alloc_contig_def Let_def by (intro keeping keeps_group_bitmap)
  then show ?thesis unfolding extend_alloc_def Let_def by (auto intro!: keeping)
qed

lemma keeps_linear_slot: "keeps same_but_bgd (linear_slot parent need bs)"
  by (induction parent need bs rule: linear_slot.induct) (auto intro!: keeping split: option.split)

lemma keeps_htree_slot [keeping]: "keeps same_but_bgd (htree_slot parent need name)"
  unfolding htree_slot_def by (intro keeping)

lemma keeps_parent_slot [keeping]: "keeps same_but_bgd (parent_slot parent name)"
  unfolding parent_slot_def Let_def
  by (intro keeping) (auto intro!: keeping keeps_linear_slot split: option.split)

lemma keeps_find_entry [keeping]: "keeps same_but_bgd (find_entry_blocks parent target bs)"
  by (induction parent target bs rule: find_entry_blocks.induct) (auto intro!: keeping split: option.split)

lemma keeps_unlink [keeping]: "keeps same_but_bgd (unlink_in_parent parent_ino target)"
  unfolding unlink_in_parent_def by (intro keeping)

lemma keeps_free_reads [keeping]: "keeps same_but_bgd (free_reads blk)"
  unfolding free_reads_def Let_def by (intro keeping)

lemma keeps_inode_reads [keeping]: "keeps same_but_bgd (inode_reads is_dir parent_ino ino now pdir)"
  unfolding inode_reads_def Let_def by (intro keeping) (auto intro!: keeping split: prod.split)

lemma keeps_xdir_walk: "keeps same_but_bgd (xdir_walk depth moved cur)"
  by (induction depth moved cur rule: xdir_walk.induct) (auto intro!: keeping)

lemma keeps_xdir [keeping]:
  "keeps same_but_bgd (xdir_is_ancestor moved descendant)" "keeps same_but_bgd (xdir_old_entry parent target)"
  "keeps same_but_bgd (xdir_new_slot parent name)" "keeps same_but_bgd (xdir_moved_block inode ino new_parent)"
proof -
  show "keeps same_but_bgd (xdir_is_ancestor moved descendant)"
    unfolding xdir_is_ancestor_def by (rule keeps_xdir_walk)
  have "keeps same_but_bgd (find_entry_block0 parent target)"
    unfolding find_entry_block0_def by (intro keeping) (auto intro!: keeping split: option.split)
  then show "keeps same_but_bgd (xdir_old_entry parent target)"
    unfolding xdir_old_entry_def by (auto intro!: keeping)
  show "keeps same_but_bgd (xdir_new_slot parent name)"
    unfolding xdir_new_slot_def Let_def by (intro keeping) (auto intro!: keeping split: option.split)
  show "keeps same_but_bgd (xdir_moved_block inode ino new_parent)"
    unfolding xdir_moved_block_def by (intro keeping)
qed

lemmas plan_reads = reads_rd reads_only.ret reads_only.commit keeping

lemma reads_free_plans: "reads_only k \<Longrightarrow> reads_only (free_plans blks k)"
  by (induction blks) (auto intro!: plan_reads)

lemma reads_trunc_plan: "(\<And>r. reads_only (k r)) \<Longrightarrow> reads_only (trunc_plan nblocks i ib dropped freed k)"
  by (induction nblocks i ib dropped freed k rule: trunc_plan.induct)
    (auto intro!: reads_free_plans split: option.split prod.split)

lemma reads_forget: "reads_only k \<Longrightarrow> reads_only (forget k)"
proof (induction rule: reads_only.induct)
  case (reads m)
  have "forget (Reads m) = rd m forget"
    by (simp add: rd_def) (auto simp: fun_eq_iff bindE_def split: prod.split sum.split)
  moreover have "reads_only (rd m forget)"
    unfolding rd_def
  proof (rule reads_only.reads)
    show "keeps same_but_bgd (bindE m (\<lambda>x. retE (forget x)))" by (intro keeping reads(1))
  qed (use reads(3) in \<open>auto simp: bindE_Inr_iff\<close>)
  ultimately show ?case by simp
qed (auto intro: reads_only.intros)

text \<open>Every operation is the run of its plan, and a plan only reads between its transactions.\<close>

lemma perform_plan: "run_plan (plan_of p) = perform p"
  by (cases p) (simp_all only: plan_of.simps perform.simps run_forget run_write_plan run_extend_plan run_create_plan
      run_mkdir_plan run_rmdir_plan run_remove_plan run_truncate_plan run_rename_plan run_xdir_plan)

lemma plan_reads_only: "reads_only (plan_of p)"
proof (cases p)
  case (Write_block inode ino logical data now)
  then show ?thesis by (auto simp: write_plan_def intro!: reads_forget plan_reads split: prod.split)
next
  case (Extend_block inode ino data added now)
  then show ?thesis by (auto simp: extend_plan_def Let_def intro!: reads_forget plan_reads split: prod.split)
next
  case (Create parent_ino name mode now)
  then show ?thesis by (auto simp: create_plan_def intro!: reads_forget plan_reads split: prod.split)
next
  case (Make_dir parent_ino name now)
  then show ?thesis by (auto simp: mkdir_plan_def Let_def intro!: reads_forget plan_reads split: prod.split)
next
  case (Remove_dir parent_ino dir_ino)
  then show ?thesis by (auto simp: rmdir_plan_def unlink_plan_def intro!: plan_reads)
next
  case (Remove_file parent_ino file_ino)
  then show ?thesis by (auto simp: remove_plan_def unlink_plan_def intro!: plan_reads reads_free_plans)
next
  case (Truncate ino new_size now)
  then show ?thesis
    by (auto simp: truncate_plan_def intro!: plan_reads reads_trunc_plan split: prod.split)
next
  case (Rename_in parent_ino file_ino name)
  then show ?thesis by (auto simp: rename_plan_def intro!: plan_reads split: prod.split)
next
  case (Rename_to old_ino file_ino new_ino name now)
  then show ?thesis by (auto simp: xdir_plan_def intro!: plan_reads)
qed

end
