(* ===== verification/Writing.thy ===== *)
theory Writing
  imports Growing Reading Plans
begin

text \<open>
  Writing to a file: what a block write leaves on the disk when the power goes anywhere in it,
  and that a reader gets back what was written.
\<close>

section \<open>One block of a file\<close>

text \<open>The transaction of \<open>ext4_file_write_block\<close>: the data and the inode with its new time.\<close>

definition write_trans ::
  "'c ext4_fs \<Rightarrow> u32 \<Rightarrow> u64 \<Rightarrow> buf \<Rightarrow> buf \<times> u64 \<times> nat \<Rightarrow> u32 \<Rightarrow> jbd_trans" where
  "write_trans fs ino phys data place now = (case place of (b, blk, off) \<Rightarrow>
     [(phys, copy_bytes zero_buf 0 data (bs_nat fs)), (blk, inode_set_mtime_and_csum fs ino b off now)])"

lemma inode_time_same:
  assumes "same_but_bgd fs fs'"
  shows "inode_set_mtime_and_csum fs' = inode_set_mtime_and_csum fs"
proof -
  obtain b c where e: "fs' = fs\<lparr>fs_bgd_buf := b, fs_bgd_cached_block := c\<rparr>"
    using assms by (rule same_but_bgd_eq)
  have h: "inode_has_hi fs' = inode_has_hi fs" "metadata_csum fs' = metadata_csum fs"
    by (simp_all add: e inode_has_hi_def metadata_csum_def)
  have z: "inode_zero_csum fs' = inode_zero_csum fs" by (simp add: fun_eq_iff inode_zero_csum_def h)
  have "fs_sb fs' = fs_sb fs" by (simp add: e)
  then have "inode_csum fs' = inode_csum fs" by (intro ext) (simp add: inode_csum_def z)
  then show ?thesis
    by (simp add: fun_eq_iff inode_set_mtime_and_csum_def ext4_inode_recompute_csum_def h)
qed

lemma write_block_runs:
  assumes "ext4_file_write_block inode ino logical data now fs = (r, fs')"
  shows "no_commit fs r fs' \<or>
    (\<exists>phys place. extent_lookup_res fs (i_block inode) logical = Inr phys \<and>
      fst (read_inode_at ino fs) = Inr place \<and> one_commit (write_trans fs ino phys data place now) fs r fs')"
proof -
  obtain x fs1 where x: "read_inode_at ino fs = (x, fs1)" by fastforce
  note s = keepsD [OF keeps_read_at(1) x]
  show ?thesis
  proof (cases x)
    case (Inl e)
    then show ?thesis
      using assms x s
      by (auto simp: ext4_file_write_block_def write_cap_def inode_group_in_range_def extent_lookup_def bindE_def
          no_commit_def split: sum.splits if_splits)
  next
    case (Inr place)
    obtain b blk off where p: "place = (b, blk, off)" by (metis prod_cases3)
    have c: "\<exists>c. ext4_journal_commit (write_trans fs ino phys data place now) fs1 = (c, fs') \<and> isl c = isl r"
      if "extent_lookup_res fs (i_block inode) logical = Inr phys" "\<not> no_commit fs r fs'" for phys
      using that assms x Inr
      by (auto simp: ext4_file_write_block_def write_cap_def inode_group_in_range_def extent_lookup_def bindE_def
          no_commit_def p write_trans_def same_but_bgd_fields [OF s] inode_time_same [OF s]
          split: sum.splits if_splits prod.splits)
    have "no_commit fs r fs'" if "extent_lookup_res fs (i_block inode) logical = Inl e" for e
      using that assms
      by (auto simp: ext4_file_write_block_def write_cap_def extent_lookup_def bindE_def no_commit_def
          split: if_splits)
    then show ?thesis using c x s Inr unfolding one_commit_def
      by (cases "extent_lookup_res fs (i_block inode) logical") fastforce+
  qed
qed

text \<open>
  C8: Overwriting a block of a file is atomic under power loss: wherever the device stops, mounting
  what is on it succeeds; the data block and the inode are then both new or, only if the write
  reported an error, both as they were, and no other block of the volume has changed outside the
  log and the superblock's block.
\<close>

theorem write_block_atomic:
  assumes "ext4_file_write_block inode ino logical data now fs = (r, fs')"
    "extent_lookup_res fs (i_block inode) logical = Inr phys" "fst (read_inode_at ino fs) = Inr (b, iblk, off)"
    "trans_ready fs (write_trans fs ino phys data (b, iblk, off) now)"
    "log_idle fs (write_trans fs ino phys data (b, iblk, off) now)"
    "unat phys \<noteq> sb_blk fs" "unat iblk \<noteq> sb_blk fs"
  shows "\<exists>fs2. recover fs (fs_bd fs') = (Inr (), fs2) \<and>
    (disk fs2 (unat phys) = trunc (bs_nat fs) data \<and>
     disk fs2 (unat iblk) = trunc (bs_nat fs) (inode_set_mtime_and_csum fs ino b off now) \<or>
     isl r \<and> disk fs2 (unat phys) = disk fs (unat phys) \<and> disk fs2 (unat iblk) = disk fs (unat iblk)) \<and>
    (\<forall>n. in_log (fs_jbd fs) n \<or> n = sb_blk fs \<or> n = unat phys \<or> n = unat iblk \<or> disk fs2 n = disk fs n)"
proof -
  let ?ts = "write_trans fs ino phys data (b, iblk, off) now"
  note t = trans_readyD [OF assms(4)]
  note eq = vol_agrees_off_sb [of fs]
  have out: "\<not> in_log (fs_jbd fs) (unat phys)" "\<not> in_log (fs_jbd fs) (unat iblk)"
    using t(12) by (auto simp: write_trans_def)
  have tr: "trunc (bs_nat fs) (copy_bytes zero_buf 0 data (bs_nat fs)) = trunc (bs_nat fs) data"
    by (simp add: fun_eq_iff trunc_def copy_bytes_def)
  have ne: "unat phys \<noteq> unat iblk" using t(13) by (auto simp: write_trans_def word_unat_eq_iff)
  have new: "dwrites (disk fs) (home_writes fs ?ts) (unat phys) = trunc (bs_nat fs) data"
    "dwrites (disk fs) (home_writes fs ?ts) (unat iblk) = trunc (bs_nat fs) (inode_set_mtime_and_csum fs ino b off now)"
    "n \<noteq> unat phys \<Longrightarrow> n \<noteq> unat iblk \<Longrightarrow> dwrites (disk fs) (home_writes fs ?ts) n = disk fs n" for n
    using ne by (simp_all add: home_writes_def write_trans_def tr)
  from write_block_runs [OF assms(1)] show ?thesis
  proof (elim disjE exE conjE)
    assume n: "no_commit fs r fs'"
    from assms(5) have "jsb_describes (fs_jbd fs) (disk fs (log_blk (fs_jbd fs) 0))"
      "be32 (disk fs (log_blk (fs_jbd fs) 0)) 0x1C = 0" by (simp_all add: log_idle_def)
    from no_commit_recovers [OF n t(1,2,5) this] obtain fs2 where
      f: "recover fs (fs_bd fs') = (Inr (), fs2)" "vol_agrees fs (disk fs2) (disk fs)" by blast
    moreover have "isl r" using n by (simp add: no_commit_def)
    ultimately show ?thesis using eq [OF f(2)] out assms(6,7) by blast
  next
    fix q place
    assume "extent_lookup_res fs (i_block inode) logical = Inr q" "fst (read_inode_at ino fs) = Inr place"
      "one_commit (write_trans fs ino q data place now) fs r fs'"
    with assms(2,3) have "one_commit ?ts fs r fs'" by simp
    from one_commit_recovers [OF this assms(4,5)] obtain fs2 where f: "recover fs (fs_bd fs') = (Inr (), fs2)"
      "vol_agrees fs (disk fs2) (dwrites (disk fs) (home_writes fs ?ts)) \<or> isl r \<and> vol_agrees fs (disk fs2) (disk fs)"
      by blast
    from f(2) show ?thesis
    proof (elim disjE conjE)
      assume "vol_agrees fs (disk fs2) (dwrites (disk fs) (home_writes fs ?ts))"
      from eq [OF this] show ?thesis using f(1) out assms(6,7) new by metis
    next
      assume i: "isl r" and "vol_agrees fs (disk fs2) (disk fs)"
      from eq [OF this(2)] show ?thesis using f(1) i out assms(6,7) by blast
    qed
  qed
qed
lemma file_lookup: "extent_lookup_res (file_fs k) (i_block file_inode) 0 = Inr 24"
proof -
  have "leaf_lookup (i_block file_inode) 0 = Inr 24"
    by (simp add: leaf_lookup_leaves file_leaves file_inode_fields)
  then show ?thesis
    by (simp add: extent_lookup_res_def ext4_extent_lookup_def extent_walk_leaf file_inode_fields)
qed

lemma file_inode_place: "\<exists>fs1. read_inode_at 12 (file_fs k) = (Inr (file_block 6, 6, 384), fs1)"
  using file_read_inode [OF same_but_bgd_refl, of k] by auto

lemma file_write_ready:
  "trans_ready (file_fs k) (write_trans (file_fs k) 12 24 data (file_block 6, 6, 384) now)"
  "log_idle (file_fs k) (write_trans (file_fs k) 12 24 data (file_block 6, 6, 384) now)"
  "sb_blk (file_fs k) = 1"
proof -
  show "trans_ready (file_fs k) (write_trans (file_fs k) 12 24 data (file_block 6, 6, 384) now)"
    by (rule file_fs_ready) (simp_all add: write_trans_def)
  show "log_idle (file_fs k) (write_trans (file_fs k) 12 24 data (file_block 6, 6, 384) now)"
    using file_fs_journal [of k] file_fs_quiet [of k] by (simp add: log_idle_def)
  show "sb_blk (file_fs k) = 1" by (simp add: sb_blk_def)
qed

theorem write_block_atomic_witness:
  "let res = ext4_file_write_block file_inode 12 0 (\<lambda>_. 7) 99 (file_fs 4) in
   \<exists>fs2. recover (file_fs 4) (fs_bd (snd res)) = (Inr (), fs2) \<and>
    (disk fs2 24 = trunc 1024 (\<lambda>_. 7) \<or> isl (fst res) \<and> disk fs2 24 = disk (file_fs 4) 24) \<and>
    disk fs2 30 = disk (file_fs 4) 30"
proof -
  let ?data = "(\<lambda>_. 7) :: buf"
  obtain r fs' where r: "ext4_file_write_block file_inode 12 0 ?data 99 (file_fs 4) = (r, fs')" by fastforce
  obtain fs1 where p: "fst (read_inode_at 12 (file_fs 4)) = Inr (file_block 6, 6, 384)"
    using file_inode_place [of 4] by auto
  have "\<not> in_log sample_jbd 30" by (auto dest: sample_in_log)
  with write_block_atomic [OF r file_lookup p file_write_ready(1,2)] show ?thesis
    using file_write_ready(3) [of 4] by (auto simp: r)
qed

text \<open>
  C9: What is written is read back: on a device that takes every write, overwriting a mapped block
  of a file whose extents fit the inode succeeds, the block then reads as the data, cut to the
  block size, and every other block of the file reads as before.
\<close>

theorem write_block_reads_back:
  assumes "trans_ready fs (write_trans fs ino phys data (b, iblk, off) now)" "alive fs"
    "\<not> jbd_replay_active (fs_jbd fs)"
    "ino \<noteq> 0" "bs_nat fs \<le> write_buf_size" "s_inodes_per_group (fs_sb fs) \<noteq> 0" "ino_group fs ino < fs_bgd_count fs"
    "le16 (i_block inode) 0 = ext4_ext_magic" "le16 (i_block inode) 6 = 0"
    "leaf_lookup (i_block inode) logical = Inr phys" "fst (read_inode_at ino fs) = Inr (b, iblk, off)"
    "unat phys \<noteq> sb_blk fs"
  shows "\<exists>fs'. ext4_file_write_block inode ino logical data now fs = (Inr (inode\<lparr>i_mtime := now\<rparr>), fs') \<and>
    ext4_file_read_block fs' (inode\<lparr>i_mtime := now\<rparr>) logical = Inr (trunc (bs_nat fs) data) \<and>
    (\<forall>l p. leaf_lookup (i_block inode) l = Inr p \<and> blk_ok fs (unat p) \<and> \<not> in_log (fs_jbd fs) (unat p) \<and>
       p \<notin> {phys, iblk} \<and> unat p \<noteq> sb_blk fs \<longrightarrow>
       ext4_file_read_block fs' (inode\<lparr>i_mtime := now\<rparr>) l = ext4_file_read_block fs inode l)"
proof -
  let ?ts = "write_trans fs ino phys data (b, iblk, off) now"
  note t = trans_readyD [OF assms(1)]
  obtain fs1 where x: "read_inode_at ino fs = (Inr (b, iblk, off), fs1)"
    using assms(11) by (cases "read_inode_at ino fs") auto
  note s = keepsD [OF keeps_read_at(1) x]
  from commit_after_reads [OF s assms(1,2)] obtain fs' where c: "ext4_journal_commit ?ts fs1 = (Inr (), fs')"
      "\<not> jbd_replay_active (fs_jbd fs')" "vol_step fs fs'" "vol_agrees fs (disk fs') (dwrites (disk fs) (home_writes fs ?ts))"
    by blast
  have lk: "extent_lookup_res f (i_block inode) l = leaf_lookup (i_block inode) l"
    if "f = fs \<or> f = fs'" for f :: "file_ctx ext4_fs" and l
  proof -
    have "\<not> 4096 < block_size f"
      using that assms(5) vol_stepD(4) [OF c(3)] by (auto simp: write_buf_size_def word_less_nat_alt)
    then show ?thesis
      using assms(8,9) by (simp add: extent_lookup_res_def ext4_extent_lookup_def extent_walk_leaf)
  qed
  have run: "ext4_file_write_block inode ino logical data now fs = (Inr (inode\<lparr>i_mtime := now\<rparr>), fs')"
    using assms(4-7,10) c(1) x
    by (simp add: ext4_file_write_block_def write_cap_def inode_group_in_range_def extent_lookup_def bindE_def lk
        write_trans_def same_but_bgd_fields [OF s] inode_time_same [OF s])
  note rd = read_after_commit [OF c(2-4)]
  have ok: "blk_ok fs (unat phys)" "\<not> in_log (fs_jbd fs) (unat phys)" and ne: "phys \<noteq> iblk"
    using t(12,13) by (auto simp: write_trans_def)
  have "dwrites (disk fs) (home_writes fs ?ts) (unat phys) = trunc (bs_nat fs) data"
    using ne by (simp add: home_writes_def write_trans_def fun_eq_iff trunc_def copy_bytes_def word_unat_eq_iff)
  then have "ext4_file_read_block fs' (inode\<lparr>i_mtime := now\<rparr>) logical = Inr (trunc (bs_nat fs) data)"
    using rd [OF ok assms(12)] assms(10) by (simp add: ext4_file_read_block_def lk)
  moreover have "ext4_file_read_block fs' (inode\<lparr>i_mtime := now\<rparr>) l = ext4_file_read_block fs inode l"
    if "leaf_lookup (i_block inode) l = Inr p" "blk_ok fs (unat p)" "\<not> in_log (fs_jbd fs) (unat p)"
      "p \<notin> {phys, iblk}" "unat p \<noteq> sb_blk fs" for l p
  proof -
    have "dwrites (disk fs) (home_writes fs ?ts) (unat p) = disk fs (unat p)"
      using that(4) by (intro dwrites_other) (auto simp: home_writes_def write_trans_def word_unat_eq_iff)
    then show ?thesis
      using rd [OF that(2,3,5)] read_plain [OF t(1) that(2) assms(3)] that(1) by (simp add: ext4_file_read_block_def lk)
  qed
  ultimately show ?thesis using run by blast
qed

theorem write_block_reads_back_witness:
  "\<exists>fs'. ext4_file_write_block file_inode 12 0 (\<lambda>_. 7) 99 (file_fs (-1)) = (Inr (file_inode\<lparr>i_mtime := 99\<rparr>), fs') \<and>
    ext4_file_read_block fs' (file_inode\<lparr>i_mtime := 99\<rparr>) 0 = Inr (trunc 1024 (\<lambda>_. 7))"
proof -
  have p: "fst (read_inode_at 12 (file_fs (-1))) = Inr (file_block 6, 6, 384)"
    using file_inode_place [of "-1"] by auto
  have l: "leaf_lookup (i_block file_inode) 0 = Inr 24"
    by (simp add: leaf_lookup_leaves file_leaves file_inode_fields)
  have g: "ino_group (file_fs (-1)) 12 < fs_bgd_count (file_fs (-1))" by (simp add: ino_group_def)
  from write_block_reads_back [OF file_write_ready(1) file_fs_alive _ _ _ _ g file_inode_fields(2,3) l p, of "\<lambda>_. 7" 99]
  show ?thesis using file_write_ready(3) [of "-1"] by (auto simp: write_buf_size_def)
qed

end
