(* ===== verification/History.thy ===== *)
theory History
  imports Journalling
begin

text \<open>
  A mount as a history: one transaction after the other until the device stops, and the mount that
  follows.  The log never holds a block of a later sequence number than the handle's, which is what
  keeps recovery from running past the last commit.
\<close>

section \<open>What the log may hold\<close>

definition log_past :: "ext4_jbd \<Rightarrow> (nat \<Rightarrow> buf) \<Rightarrow> bool" where
  "log_past j d \<longleftrightarrow> (\<forall>w. 0 < w \<and> w < jbd_maxlen j \<longrightarrow>
     be32 (d (log_blk j w)) 0 = jbd_magic \<longrightarrow> unat (be32 (d (log_blk j w)) 8) \<le> unat (jbd_sequence j))"

lemma log_past_quiet:
  assumes "log_past j d" "unat (jbd_sequence j) + unat (jbd_maxlen j) < 2 ^ 32"
  shows "tail_quiet j d ts"
  unfolding tail_quiet_def Let_def
proof (intro allI impI)
  fix w
  assume w: "commit_jblk j ts < w \<and> w < jbd_maxlen j"
  let ?k = "w - commit_jblk j ts" and ?b = "d (log_blk j w)"
  have w0: "0 < w" using w by (simp add: word_less_nat_alt)
  have k: "0 < unat ?k" "unat ?k \<le> unat w"
    using w by (simp_all add: unat_sub word_less_nat_alt word_le_nat_alt)
  have "unat w < unat (jbd_maxlen j)" using w by (simp add: word_less_nat_alt)
  then have "unat (jbd_sequence j + ?k) = unat (jbd_sequence j) + unat ?k"
    using k assms(2) by (simp add: unat_add_small)
  then have "be32 ?b 8 \<noteq> jbd_sequence j + ?k" if "be32 ?b 0 = jbd_magic"
    using assms(1) w w0 that k(1) by (auto simp: log_past_def)
  then show "be32 ?b 0 \<noteq> jbd_magic \<or> be32 ?b 4 = bt_commit \<or> be32 ?b 8 \<noteq> jbd_sequence j + ?k"
    by blast
qed

lemma dwrites_cases: "dwrites d ws n = d n \<or> (n, dwrites d ws n) \<in> set ws"
proof (induction ws arbitrary: d)
  case (Cons w ws)
  obtain m b where w: "w = (m, b)" by fastforce
  from Cons [of "d(m := b)"] show ?case by (cases "m = n") (auto simp: w fun_upd_def)
qed simp

lemma data_writes_copies: "(n, b) \<in> set (data_writes fs w ts) \<Longrightarrow> \<exists>c. b = trunc (bs_nat fs) (journal_copy c)"
  by (induction fs w ts rule: data_writes.induct) auto

lemma blk_ok_small:
  assumes "vol fs" "blk_ok fs n"
  shows "n < 2 ^ 32"
proof -
  have "(n + 1) * 1 \<le> (n + 1) * bs_nat fs" by (rule mult_le_mono2) (use vol_bs(1) [OF assms(1)] in simp)
  then show ?thesis using assms(2) by (simp add: blk_ok_def)
qed

lemma log_past_commit:
  assumes t: "trans_ready fs ts" and p: "log_past (fs_jbd fs) (disk fs)"
    and s: "unat (jbd_sequence (fs_jbd fs)) + 1 < 2 ^ 32"
  shows "log_past ((fs_jbd fs)\<lparr>jbd_sequence := jbd_sequence (fs_jbd fs) + 1\<rparr>) (dwrites (disk fs) (commit_writes fs ts))"
proof -
  let ?j = "fs_jbd fs" and ?d = "dwrites (disk fs) (commit_writes fs ts)"
  note r = trans_readyD [OF t]
  have bs: "jbd_bs ?j = bs_nat fs" by (rule log_okD(7) [OF r(2)])
  have s1: "unat (jbd_sequence ?j + 1) = unat (jbd_sequence ?j) + 1" using s by (simp add: unat_add_small)
  have desc: "be32 (trunc (bs_nat fs) (descriptor_block ?j (jbd_sequence ?j) ts)) 8 = jbd_sequence ?j"
  proof -
    have small: "\<forall>(blk, b) \<in> set ts. unat blk < 2 ^ 32 \<or> jbd_has_64bit ?j"
      using r(12) blk_ok_small [OF r(1)] by auto
    have "ts \<noteq> []" using r(8) by auto
    from descriptor_stored(3) [OF log_okD(9) [OF r(2)] _ _ this small r(11) refl]
    show ?thesis using vol_bs(1,2) [OF r(1)] by (simp add: bs)
  qed
  have comm: "be32 (trunc (bs_nat fs) (commit_block ?j (jbd_sequence ?j))) 8 = jbd_sequence ?j"
    using commit_stored(3) [OF _ refl, of ?j] vol_bs(1) [OF r(1)] by (simp add: bs)
  have copy: "be32 (trunc (bs_nat fs) (journal_copy c)) 0 \<noteq> jbd_magic" for c
    using vol_bs(1) [OF r(1)] journal_copy_no_magic [of c] by (simp add: be32_trunc)
  have "unat (be32 (?d (log_blk ?j w)) 8) \<le> unat (jbd_sequence ?j) + 1"
    if w: "0 < w" "w < jbd_maxlen ?j" and m: "be32 (?d (log_blk ?j w)) 0 = jbd_magic" for w
  proof -
    let ?n = "log_blk ?j w" and ?b = "?d (log_blk ?j w)"
    have l: "in_log ?j ?n" using w(2) by (rule in_log_blk)
    have ne: "?n \<noteq> sb_blk fs" using l r(4) by metis
    have n0: "?n \<noteq> log_blk ?j 0" using log_blk_other [OF r(2) w(2) log_okD(3) [OF r(2)]] w(1) by blast
    have nh: "(?n, ?b) \<notin> set (home_writes fs ts)" using r(12) l by (auto simp: home_writes_def)
    show ?thesis
    proof (cases "(?n, ?b) \<in> set (commit_writes fs ts)")
      case False
      then have "?b = disk fs ?n" using dwrites_cases by blast
      then show ?thesis using p w m by (fastforce simp: log_past_def)
    next
      case True
      then consider "?b = trunc (bs_nat fs) (descriptor_block ?j (jbd_sequence ?j) ts)"
        | "(?n, ?b) \<in> set (data_writes fs (jbd_first ?j + 1) ts)"
        | "?b = trunc (bs_nat fs) (commit_block ?j (jbd_sequence ?j))"
        using ne n0 nh
        by (auto simp: commit_writes_def prepare_writes_def point_write_def finish_writes_def clean_writes_def Let_def)
      then show ?thesis
        using desc comm copy m by cases (auto dest: data_writes_copies)
    qed
  qed
  moreover have "log_blk (?j\<lparr>jbd_sequence := q\<rparr>) = log_blk ?j" for q
    by (simp add: fun_eq_iff log_blk_def jbd_log_phys_def)
  ultimately show ?thesis by (auto simp: log_past_def s1)
qed

section \<open>Later states of a mount\<close>

definition later :: "file_ctx ext4_fs \<Rightarrow> file_ctx ext4_fs \<Rightarrow> bool" where
  "later fs f \<longleftrightarrow> vol_step fs f \<and>
     same_core ((fs_jbd fs)\<lparr>jbd_sequence := jbd_sequence (fs_jbd f)\<rparr>) (fs_jbd f) \<and> jbd_start (fs_jbd f) = 0 \<and>
     jsb_describes (fs_jbd fs) (disk f (log_blk (fs_jbd fs) 0)) \<and>
     be32 (disk f (log_blk (fs_jbd fs) 0)) 0x1C = 0 \<and> log_past (fs_jbd f) (disk f)"

text \<open>The first handle on the later device.\<close>

definition handle_on :: "file_ctx ext4_fs \<Rightarrow> file_ctx ext4_fs \<Rightarrow> file_ctx ext4_fs" where
  "handle_on fs f = fs\<lparr>fs_bd := fs_bd f, fs_jbd := (fs_jbd fs)\<lparr>jbd_sequence := jbd_sequence (fs_jbd f)\<rparr>\<rparr>"

lemma seq_functions:
  "log_blk (j\<lparr>jbd_sequence := q\<rparr>) = log_blk j" "in_log (j\<lparr>jbd_sequence := q\<rparr>) = in_log j"
  "jbd_log_phys (j\<lparr>jbd_sequence := q\<rparr>) = jbd_log_phys j" "jbd_tag_bytes (j\<lparr>jbd_sequence := q\<rparr>) = jbd_tag_bytes j"
  "descriptor_cap (j\<lparr>jbd_sequence := q\<rparr>) = descriptor_cap j" "jsb_describes (j\<lparr>jbd_sequence := q\<rparr>) = jsb_describes j"
proof -
  show p: "jbd_log_phys (j\<lparr>jbd_sequence := q\<rparr>) = jbd_log_phys j" by (simp add: fun_eq_iff jbd_log_phys_def)
  then show l: "log_blk (j\<lparr>jbd_sequence := q\<rparr>) = log_blk j" by (simp add: fun_eq_iff log_blk_def)
  show "in_log (j\<lparr>jbd_sequence := q\<rparr>) = in_log j" by (simp add: fun_eq_iff in_log_def l)
  show "jbd_tag_bytes (j\<lparr>jbd_sequence := q\<rparr>) = jbd_tag_bytes j" by (simp add: jbd_tag_bytes_def)
  show "descriptor_cap (j\<lparr>jbd_sequence := q\<rparr>) = descriptor_cap j" by (simp add: descriptor_cap_def jbd_csums_def)
  show "jsb_describes (j\<lparr>jbd_sequence := q\<rparr>) = jsb_describes j" by (simp add: fun_eq_iff jsb_describes_def)
qed

lemma handle_on_facts:
  assumes "later fs f"
  shows "disk (handle_on fs f) = disk f" "vol_step (handle_on fs f) f2 = vol_step f f2"
    "recover (handle_on fs f) bd = recover fs bd" "vol_agrees (handle_on fs f) = vol_agrees fs"
    "home_writes (handle_on fs f) = home_writes fs" "commit_writes (handle_on fs f) ts = commit_writes f ts"
    "trans_ready fs ts \<Longrightarrow> trans_ready (handle_on fs f) ts" "trans_ready fs ts \<Longrightarrow> trans_ready f ts"
proof -
  let ?g = "handle_on fs f"
  have v: "vol_step fs f" and c: "same_core (fs_jbd ?g) (fs_jbd f)" and st: "jbd_start (fs_jbd f) = 0"
    using assms by (simp_all add: later_def handle_on_def)
  note V = vol_stepD [OF v] and F = same_coreD [OF c] same_core_functions [OF c] same_core_blocks [OF c]
  show d: "disk ?g = disk f" using V by (simp add: fun_eq_iff disk_def vol_base_def handle_on_def)
  have k: "blk_ok ?g n = blk_ok f n" for n using V by (simp add: blk_ok_def vol_base_def handle_on_def)
  have b: "vol ?g = vol f" "alive ?g = alive f" "fs_partition_lba ?g = fs_partition_lba f" "block_size ?g = block_size f"
    using V by (simp_all add: vol_def alive_def handle_on_def)
  show "vol_step ?g f2 = vol_step f f2" by (simp add: vol_step_def k b)
  have "reopen ?g bd = reopen fs bd" "jbd_inum (fs_jbd ?g) = jbd_inum (fs_jbd fs)"
    by (simp_all add: reopen_def handle_on_def)
  then show "recover ?g bd = recover fs bd" by (simp add: recover_def)
  have s: "sb_blk ?g = sb_blk fs" "sb_off ?g = sb_off fs" by (simp_all add: sb_blk_def sb_off_def handle_on_def)
  then show "vol_agrees ?g = vol_agrees fs"
    by (auto simp: fun_eq_iff vol_agrees_def sb_same_def recover_bytes_def) (simp_all add: handle_on_def seq_functions)
  show "home_writes ?g = home_writes fs" by (simp add: fun_eq_iff home_writes_def handle_on_def)
  show "commit_writes ?g ts = commit_writes f ts"
    by (rule commit_writes_cong(1) [symmetric]) (simp_all add: d b c)
  assume t: "trans_ready fs ts"
  have j: "fs_jbd ?g = (fs_jbd fs)\<lparr>jbd_sequence := jbd_sequence (fs_jbd f)\<rparr>" by (simp add: handle_on_def)
  have lo: "log_ok ?g"
    using t V(2) by (auto simp: trans_ready_def log_ok_def Let_def j seq_functions k b V)
  show g: "trans_ready ?g ts"
    using t lo V(2) by (auto simp: trans_ready_def s k b V j seq_functions)
  have "log_ok f" using lo by (auto simp: log_ok_def Let_def F k b)
  moreover have "sb_blk f = sb_blk ?g" using b by (simp add: sb_blk_def)
  ultimately show "trans_ready f ts"
    using g by (simp add: trans_ready_def F k b st)
qed
lemma commit_later:
  assumes l: "later fs f" and t: "trans_ready fs ts" and s: "unat (jbd_sequence (fs_jbd f)) + 1 < 2 ^ 32"
    and c: "ext4_journal_commit ts f = (Inr (), f2)"
  shows "later fs f2" "jbd_sequence (fs_jbd f2) = jbd_sequence (fs_jbd f) + 1"
    "vol_agrees fs (disk f2) (dwrites (disk f) (home_writes fs ts))"
proof -
  note h = handle_on_facts [OF l]
  have tf: "trans_ready f ts" by (rule h(8) [OF t])
  note r = trans_readyD [OF tf]
  have e: "disk f2 = dwrites (disk f) (commit_writes f ts)" "vol_step f f2" "committed f f2"
    using emits_commit [OF tf] c by (cases rule: emitsE; auto)+
  have sc: "same_core ((fs_jbd fs)\<lparr>jbd_sequence := jbd_sequence (fs_jbd f)\<rparr>) (fs_jbd f)"
    using l by (simp add: later_def)
  note F = same_coreD [OF sc, simplified] same_core_functions [OF sc, unfolded seq_functions]
  show q: "jbd_sequence (fs_jbd f2) = jbd_sequence (fs_jbd f) + 1" using e(3) by (simp add: committed_def)
  have core: "same_core ((fs_jbd f)\<lparr>jbd_sequence := jbd_sequence (fs_jbd f) + 1\<rparr>) (fs_jbd f2)"
    using e(3) by (simp add: committed_def)
  note G = same_core_functions [OF core, unfolded seq_functions] same_coreD [OF core, simplified]
  have lp: "log_past (fs_jbd f2) (disk f2)"
    using log_past_commit [OF tf _ s] l by (simp add: later_def log_past_def e(1) G seq_functions)
  have j0: "disk f2 (log_blk (fs_jbd f) 0) =
      jsb_block f 0 (jbd_sequence (fs_jbd f)) (pointed f ts (log_blk (fs_jbd f) 0))"
    unfolding e(1) by (rule commit_writes_agree(2) [OF tf])
  note jf = jsb_block_fields [OF vol_bs(1) [OF r(1)]]
  have "jsb_describes (fs_jbd fs) (disk f2 (log_blk (fs_jbd fs) 0)) \<and> be32 (disk f2 (log_blk (fs_jbd fs) 0)) 0x1C = 0"
    using l j0 [unfolded pointed_jsb [OF tf]] jf by (simp add: later_def F)
  moreover have "same_core ((fs_jbd fs)\<lparr>jbd_sequence := jbd_sequence (fs_jbd f2)\<rparr>) (fs_jbd f2)"
    using F G by (simp add: same_core_def q)
  moreover have "vol_step fs f" using l by (simp add: later_def)
  ultimately show "later fs f2"
    using lp e(2,3) by (simp add: later_def committed_def vol_step_trans [of fs f f2])
  show "vol_agrees fs (disk f2) (dwrites (disk f) (home_writes fs ts))"
    using commit_writes_agree(1) [OF h(7) [OF t], unfolded h(1,4,5,6)] by (simp add: e(1))
qed

lemma vol_agrees_trans: "vol_agrees fs a b \<Longrightarrow> vol_agrees fs b c \<Longrightarrow> vol_agrees fs a c"
  by (auto simp: vol_agrees_def intro: sb_same_trans)

lemma vol_agrees_writes: "vol_agrees fs d d' \<Longrightarrow> vol_agrees fs (dwrites d ws) (dwrites d' ws)"
proof (induction ws arbitrary: d d')
  case (Cons w ws)
  obtain m b where w: "w = (m, b)" by fastforce
  have "vol_agrees fs (d(m := b)) (d'(m := b))" using Cons.prems by (simp add: vol_agrees_def)
  from Cons.IH [OF this] show ?case by (simp add: w fun_upd_def)
qed simp

section \<open>Any number of transactions\<close>

text \<open>Transactions one after the other until one fails; the number of those that reported success.\<close>

fun commit_run :: "jbd_trans list \<Rightarrow> 'c ext4_fs \<Rightarrow> nat \<times> 'c ext4_fs" where
  "commit_run [] fs = (0, fs)"
| "commit_run (ts # tss) fs =
     (case ext4_journal_commit ts fs of
        (Inl _, fs1) \<Rightarrow> (0, fs1)
      | (Inr _, fs1) \<Rightarrow> (case commit_run tss fs1 of (n, fs2) \<Rightarrow> (Suc n, fs2)))"

text \<open>The device stops inside the next transaction.\<close>

lemma cut_later:
  assumes l: "later fs f" and t: "trans_ready fs ts" and m: "unat (jbd_maxlen (fs_jbd fs)) + 4 < 2 ^ 31"
    and s: "unat (jbd_sequence (fs_jbd f)) + unat (jbd_maxlen (fs_jbd fs)) < 2 ^ 32"
    and k: "vol_step f f'" "disk f' = dwrites (disk f) (take k (commit_writes f ts))"
  shows "\<exists>fs2. recover fs (fs_bd f') = (Inr (), fs2) \<and>
    (vol_agrees fs (disk fs2) (dwrites (disk f) (home_writes fs ts)) \<or> vol_agrees fs (disk fs2) (disk f))"
proof -
  let ?g = "handle_on fs f"
  note h = handle_on_facts [OF l]
  have g: "fs_jbd ?g = (fs_jbd fs)\<lparr>jbd_sequence := jbd_sequence (fs_jbd f)\<rparr>" by (simp add: handle_on_def)
  have sc: "same_core (fs_jbd ?g) (fs_jbd f)" "log_past (fs_jbd f) (disk f)"
    using l by (simp_all add: later_def g)
  have "log_past (fs_jbd ?g) (disk ?g)"
    using sc(2) by (simp only: log_past_def same_core_functions [OF sc(1)] same_coreD [OF sc(1)] h(1))
  moreover have "unat (jbd_sequence (fs_jbd ?g)) + unat (jbd_maxlen (fs_jbd ?g)) < 2 ^ 32"
    using s by (simp add: g)
  ultimately have q: "tail_quiet (fs_jbd ?g) (disk ?g) ts" by (rule log_past_quiet)
  have mx: "unat (jbd_maxlen (fs_jbd ?g)) + 4 < 2 ^ 31" using m by (simp add: g)
  have d: "jsb_describes (fs_jbd ?g) (disk ?g (log_blk (fs_jbd ?g) 0))"
    "be32 (disk ?g (log_blk (fs_jbd ?g) 0)) 0x1C = 0"
    using l by (simp_all only: later_def g seq_functions h(1))
  have kg: "vol_step ?g f'" "disk f' = dwrites (disk ?g) (take k (commit_writes ?g ts))"
    using k by (simp_all only: h(1,2,6))
  show ?thesis
    using cut_recovers [OF h(7) [OF t] mx d q kg, where r = "Inl 0", unfolded h(1,3,4,5)] by auto
qed

lemma run_recovers:
  assumes "later fs f" "\<forall>ts \<in> set tss. trans_ready fs ts" "log_ok fs" "jbd_present (fs_jbd fs)"
    "unat (jbd_maxlen (fs_jbd fs)) + 4 < 2 ^ 31"
    "unat (jbd_sequence (fs_jbd f)) + length tss + unat (jbd_maxlen (fs_jbd fs)) < 2 ^ 32"
    "commit_run tss f = (n, f')"
  shows "\<exists>fs2 k. recover fs (fs_bd f') = (Inr (), fs2) \<and> (k = n \<or> k = n + 1 \<and> n < length tss) \<and>
    vol_agrees fs (disk fs2) (dwrites (disk f) (concat (map (home_writes fs) (take k tss))))"
  using assms
proof (induction tss arbitrary: f n)
  case Nil
  have v: "vol_step fs f" "jsb_describes (fs_jbd fs) (disk f (log_blk (fs_jbd fs) 0))"
    "be32 (disk f (log_blk (fs_jbd fs) 0)) 0x1C = 0"
    using Nil.prems(1) by (simp_all add: later_def)
  from recover_clean [OF v(1) Nil.prems(3,4) v(2,3)] obtain fs2 where
    "recover fs (fs_bd f) = (Inr (), fs2)" "disk fs2 = disk f" by blast
  then show ?case using Nil.prems(7) by (simp add: vol_agrees_def)
next
  case (Cons ts tss)
  note h = handle_on_facts [OF Cons.prems(1)]
  have t: "trans_ready fs ts" using Cons.prems(2) by simp
  have tf: "trans_ready f ts" using h(8) t by blast
  obtain r f1 where c: "ext4_journal_commit ts f = (r, f1)" by fastforce
  show ?case
  proof (cases r)
    case (Inr u)
    obtain m where m: "commit_run tss f1 = (m, f')" "n = Suc m"
      using Cons.prems(7) c Inr by (auto split: prod.splits)
    have s: "unat (jbd_sequence (fs_jbd f)) + 1 < 2 ^ 32" using Cons.prems(6) by simp
    have c': "ext4_journal_commit ts f = (Inr (), f1)" using c Inr by simp
    note n = commit_later [OF Cons.prems(1) t s c']
    have "unat (jbd_sequence (fs_jbd f1)) = unat (jbd_sequence (fs_jbd f)) + 1"
      using s by (simp add: n(2) unat_add_small)
    then have "unat (jbd_sequence (fs_jbd f1)) + length tss + unat (jbd_maxlen (fs_jbd fs)) < 2 ^ 32"
      using Cons.prems(6) by simp
    moreover have "\<forall>ts \<in> set tss. trans_ready fs ts" using Cons.prems(2) by simp
    ultimately obtain fs2 k where
      k: "recover fs (fs_bd f') = (Inr (), fs2)" "k = m \<or> k = m + 1 \<and> m < length tss"
      "vol_agrees fs (disk fs2) (dwrites (disk f1) (concat (map (home_writes fs) (take k tss))))"
      using Cons.IH [OF n(1) _ Cons.prems(3-5) _ m(1)] by blast
    from vol_agrees_trans [OF k(3) vol_agrees_writes [OF n(3)]]
    have "vol_agrees fs (disk fs2) (dwrites (disk f) (concat (map (home_writes fs) (take (Suc k) (ts # tss)))))"
      by (simp add: dwrites_append)
    moreover have "Suc k = n \<or> Suc k = n + 1 \<and> n < length (ts # tss)" using k(2) m(2) by auto
    ultimately show ?thesis using k(1) by blast
  next
    case (Inl e)
    then have n: "n = 0" "f' = f1" using Cons.prems(7) c by simp_all
    obtain k where k: "vol_step f f1" "disk f1 = dwrites (disk f) (take k (commit_writes f ts))"
      using emits_commit [OF tf] c by (cases rule: emitsE) (auto simp: Inl)
    have "unat (jbd_sequence (fs_jbd f)) + unat (jbd_maxlen (fs_jbd fs)) < 2 ^ 32" using Cons.prems(6) by simp
    from cut_later [OF Cons.prems(1) t Cons.prems(5) this k] obtain fs2 where
      r: "recover fs (fs_bd f1) = (Inr (), fs2)"
      "vol_agrees fs (disk fs2) (dwrites (disk f) (home_writes fs ts)) \<or> vol_agrees fs (disk fs2) (disk f)"
      by blast
    from r(2) show ?thesis
    proof
      assume "vol_agrees fs (disk fs2) (dwrites (disk f) (home_writes fs ts))"
      with r(1) show ?thesis by (intro exI [of _ fs2] exI [of _ 1]) (simp add: n)
    next
      assume "vol_agrees fs (disk fs2) (disk f)"
      with r(1) show ?thesis by (intro exI [of _ fs2] exI [of _ 0]) (simp add: n)
    qed
  qed
qed
text \<open>What a mount or a commit leaves: an empty log that knows no later sequence number.\<close>

definition settled :: "file_ctx ext4_fs \<Rightarrow> bool" where
  "settled fs \<longleftrightarrow> vol fs \<and> log_ok fs \<and> jbd_present (fs_jbd fs) \<and> jbd_start (fs_jbd fs) = 0 \<and>
     unat (jbd_maxlen (fs_jbd fs)) + 4 < 2 ^ 31 \<and>
     jsb_describes (fs_jbd fs) (disk fs (log_blk (fs_jbd fs) 0)) \<and>
     be32 (disk fs (log_blk (fs_jbd fs) 0)) 0x1C = 0 \<and> log_past (fs_jbd fs) (disk fs)"

lemma settled_later: "settled fs \<Longrightarrow> later fs fs"
  by (simp add: settled_def later_def)

text \<open>
  C2: Transactions are atomic, ordered and durable over a whole mount: after any number of them,
  with the device stopping anywhere, the next mount succeeds and finds exactly the first \<open>k\<close>
  transactions in place, in order, where \<open>k\<close> is the number that reported success or, when the
  device stopped inside the next one, possibly that one too.
\<close>

theorem mount_history:
  assumes "settled fs" "\<forall>ts \<in> set tss. trans_ready fs ts"
    "unat (jbd_sequence (fs_jbd fs)) + length tss + unat (jbd_maxlen (fs_jbd fs)) < 2 ^ 32"
    "commit_run tss fs = (n, fs')"
  shows "\<exists>fs2 k. recover fs (fs_bd fs') = (Inr (), fs2) \<and> (k = n \<or> k = n + 1 \<and> n < length tss) \<and>
    vol_agrees fs (disk fs2) (dwrites (disk fs) (concat (map (home_writes fs) (take k tss))))"
  using assms by (intro run_recovers settled_later) (simp_all add: settled_def)

theorem mount_history_witness:
  "\<exists>n fs' fs2 k. commit_run [sample_trans, sample_trans] (sample_until 11) = (n, fs') \<and>
    recover (sample_until 11) (fs_bd fs') = (Inr (), fs2) \<and> (k = n \<or> k = n + 1 \<and> n < 2) \<and>
    vol_agrees (sample_until 11) (disk fs2) (dwrites (disk (sample_until 11))
      (concat (map (home_writes (sample_until 11)) (take k [sample_trans, sample_trans]))))"
proof -
  let ?fs = "sample_until 11"
  obtain n fs' where r: "commit_run [sample_trans, sample_trans] ?fs = (n, fs')" by fastforce
  have "be32 zero_buf 0 \<noteq> jbd_magic" by (simp add: be32_def zero_buf_def jbd_magic_def)
  then have "log_past sample_jbd (disk ?fs)" by (auto simp: log_past_def sample_until_log_block)
  then have s: "settled ?fs"
    using sample_until_describes [of 11] sample_until_clean [of 11]
    by (simp add: settled_def sample_until_vol sample_until_log_ok)
  have b: "unat (jbd_sequence (fs_jbd ?fs)) + length [sample_trans, sample_trans] + unat (jbd_maxlen (fs_jbd ?fs)) < 2 ^ 32"
    by simp
  have t: "\<forall>ts \<in> set [sample_trans, sample_trans]. trans_ready ?fs ts" using sample_until_ready by simp
  have l: "length [sample_trans, sample_trans] = 2" by simp
  from mount_history [OF s t b r, unfolded l] obtain fs2 k where
    "recover ?fs (fs_bd fs') = (Inr (), fs2)" "k = n \<or> k = n + 1 \<and> n < 2"
    "vol_agrees ?fs (disk fs2) (dwrites (disk ?fs) (concat (map (home_writes ?fs) (take k [sample_trans, sample_trans]))))"
    by blast
  with r show ?thesis by blast
qed

end
