(* ===== verification/Moving.thy ===== *)
theory Moving
  imports Rename DirUpdates Writing
begin

text \<open>
  Moving between directories: the check against moving a directory below itself, and the inode
  blocks of the two parents, which may be one block.
\<close>

section \<open>The way up to the root\<close>

text \<open>\<open>up fs cur p\<close>: \<open>cur\<close> is a directory whose first block names \<open>p\<close> as its parent.\<close>

definition up :: "'c ext4_fs \<Rightarrow> u32 \<Rightarrow> u32 \<Rightarrow> bool" where
  "up fs cur p \<longleftrightarrow> (\<exists>fs1 fs2 inode phys blk. same_but_bgd fs fs1 \<and> ext4_inode_read cur fs1 = (Inr inode, fs2) \<and>
     is_dir_inode inode \<and> extent_lookup_res fs (i_block inode) 0 = Inr phys \<and>
     ext4_fs_read_block fs phys = Inr blk \<and> p = le32 blk 12)"

text \<open>The way up from \<open>cur\<close> ends at the root, or at a parent of 0, without passing \<open>moved\<close>.\<close>

inductive clear_way :: "'c ext4_fs \<Rightarrow> u32 \<Rightarrow> u32 \<Rightarrow> bool" for fs moved where
  at_root: "cur \<noteq> moved \<Longrightarrow> cur = 2 \<or> cur = 0 \<Longrightarrow> clear_way fs moved cur"
| step: "cur \<noteq> moved \<Longrightarrow> up fs cur p \<Longrightarrow> clear_way fs moved p \<Longrightarrow> clear_way fs moved cur"

inductive_cases clear_way_of_moved: "clear_way fs moved moved"

lemma up_same:
  assumes s: "same_but_bgd fs fs'" and u: "up fs' cur p"
  shows "up fs cur p"
  using u unfolding up_def extent_lookup_same [OF s] same_but_bgd_raw_read [OF s]
  by (blast intro: same_but_bgd_trans [OF s])

lemma clear_way_same: "clear_way fs' moved cur \<Longrightarrow> same_but_bgd fs fs' \<Longrightarrow> clear_way fs moved cur"
  by (induction rule: clear_way.induct) (auto intro: clear_way.intros up_same)

lemma walk_step:
  assumes "xdir_walk (Suc d) moved cur fs = (Inr b, fs')" "cur \<noteq> moved" "cur \<noteq> 2" "cur \<noteq> 0"
  obtains p fs1 where "up fs cur p" "same_but_bgd fs fs1" "xdir_walk d moved p fs1 = (Inr b, fs')"
proof -
  from assms obtain inode fs1 phys blk where w: "ext4_inode_read cur fs = (Inr inode, fs1)" "is_dir_inode inode"
      "extent_lookup_res fs1 (i_block inode) 0 = Inr phys" "ext4_fs_read_block fs1 phys = Inr blk"
      "xdir_walk d moved (le32 blk 12) fs1 = (Inr b, fs')"
    by (auto simp: bindE_Inr_iff orX_Inr_iff extent_lookup_def fs_read_block_def write_cap_def split: if_splits)
  have s: "same_but_bgd fs fs1" using inode_read_same [OF w(1)] .
  have "up fs cur (le32 blk 12)"
    unfolding up_def using w s extent_lookup_same [OF s] same_but_bgd_raw_read [OF s]
    by (intro exI [of _ fs] exI [of _ fs1] exI [of _ inode] exI [of _ phys] exI [of _ blk]) simp
  from this s w(5) show ?thesis by (rule that)
qed

lemma walk_answers:
  assumes "xdir_walk d moved cur fs = (Inr b, fs')"
  shows "same_but_bgd fs fs' \<and> (if b then (up fs)\<^sup>*\<^sup>* cur moved else clear_way fs moved cur)"
  using assms
proof (induction d arbitrary: cur fs)
  case (Suc d)
  consider "cur = moved" | "cur \<noteq> moved" "cur = 2 \<or> cur = 0" | "cur \<noteq> moved" "cur \<noteq> 2" "cur \<noteq> 0" by blast
  then show ?case
  proof cases
    case 3
    from walk_step [OF Suc.prems 3] obtain p fs1 where p: "up fs cur p" "same_but_bgd fs fs1"
        "xdir_walk d moved p fs1 = (Inr b, fs')" by blast
    note ih = Suc.IH [OF p(3)]
    have same: "same_but_bgd fs fs'" using same_but_bgd_trans [OF p(2)] ih by blast
    have mono: "(up fs)\<^sup>*\<^sup>* p q" if "(up fs1)\<^sup>*\<^sup>* p q" for q
      using that by (induction rule: rtranclp_induct) (auto intro: rtranclp.rtrancl_into_rtrancl up_same [OF p(2)])
    show ?thesis
    proof (cases b)
      case True
      then show ?thesis using ih mono p(1) same by (auto intro: converse_rtranclp_into_rtranclp)
    next
      case False
      then show ?thesis using ih clear_way_same [OF _ p(2)] p(1) same 3 by (auto intro: clear_way.step)
    qed
  qed (use Suc.prems in \<open>auto intro: clear_way.at_root\<close>)
qed simp


text \<open>So a rename that succeeds never puts a directory below itself.\<close>

lemma rename_makes_no_cycle:
  assumes "ext4_rename_xdir old_ino file_ino new_ino name now fs = (Inr (), fs')"
  shows "\<exists>inode fs1 fs2. same_but_bgd fs fs1 \<and> ext4_inode_read file_ino fs1 = (Inr inode, fs2) \<and>
    (is_dir_inode inode \<longrightarrow> file_ino \<noteq> new_ino \<and> clear_way fs file_ino new_ino)"
proof -
  from assms obtain p1 fs1 p2 fs2 inode fs3 where r: "ext4_inode_read old_ino fs = (Inr p1, fs1)"
      "ext4_inode_read new_ino fs1 = (Inr p2, fs2)" "ext4_inode_read file_ino fs2 = (Inr inode, fs3)"
    and c: "is_dir_inode inode \<Longrightarrow> file_ino \<noteq> new_ino \<and> (\<exists>fs4. xdir_is_ancestor file_ino new_ino fs3 = (Inr False, fs4))"
    unfolding ext4_rename_xdir_def by (force simp: bindE_Inr_iff orX_Inr_iff split: if_splits)
  have s: "same_but_bgd fs fs2" "same_but_bgd fs fs3"
    using inode_read_same [OF r(1)] inode_read_same [OF r(2)] inode_read_same [OF r(3)]
    by (blast intro: same_but_bgd_trans)+
  have "clear_way fs file_ino new_ino" if "xdir_is_ancestor file_ino new_ino fs3 = (Inr False, fs4)" for fs4
    using walk_answers [of 64 file_ino new_ino fs3 False fs4] that clear_way_same [OF _ s(2)]
    by (simp add: xdir_is_ancestor_def)
  then show ?thesis using r(3) s(1) c by blast
qed

section \<open>Two parents in one inode block\<close>

lemma inode_update_outside:
  assumes "i < p \<or> p + unat (s_inode_size (fs_sb fs)) \<le> i"
    "unat (s_inode_size (fs_sb fs)) = 128 \<or> 256 \<le> unat (s_inode_size (fs_sb fs))"
  shows "inode_set_mtime_and_csum fs ino b p now i = b i"
proof -
  have "inode_has_hi fs \<longleftrightarrow> 256 \<le> unat (s_inode_size (fs_sb fs))"
    using assms(2) by (auto simp: inode_has_hi_def word_less_nat_alt)
  then show ?thesis using assms
    by (auto simp: inode_set_mtime_and_csum_def ext4_inode_recompute_csum_def Let_def put_le32_def)
qed

lemma inode_csum_valid_cong:
  assumes "\<And>i. p \<le> i \<Longrightarrow> i < p + unat (s_inode_size (fs_sb fs)) \<Longrightarrow> b i = c i"
    "unat (s_inode_size (fs_sb fs)) = 128 \<or> 256 \<le> unat (s_inode_size (fs_sb fs))"
  shows "inode_csum_valid fs ino b p = inode_csum_valid fs ino c p"
proof -
  have h: "inode_has_hi fs \<longleftrightarrow> 256 \<le> unat (s_inode_size (fs_sb fs))"
    using assms(2) by (auto simp: inode_has_hi_def word_less_nat_alt)
  let ?n = "unat (s_inode_size (fs_sb fs))"
  have z: "inode_zero_csum fs b p i = inode_zero_csum fs c p i" if "p \<le> i" "i < p + ?n" for i
    using assms(1) that by (simp add: inode_zero_csum_def Let_def)
  have "le32 (inode_zero_csum fs b p) (p + 0x64) = le32 (inode_zero_csum fs c p) (p + 0x64)"
    using assms(2) by (intro le32_cong z) auto
  moreover have "bytes_of (inode_zero_csum fs b p) p ?n = bytes_of (inode_zero_csum fs c p) p ?n"
    by (intro bytes_of_cong z) auto
  ultimately have "inode_csum fs ino b p = inode_csum fs ino c p" by (simp add: inode_csum_def Let_def)
  moreover have "le16 b (p + 0x7C) = le16 c (p + 0x7C)" "inode_has_hi fs \<Longrightarrow> le16 b (p + 0x82) = le16 c (p + 0x82)"
    using assms(2) h by (auto intro!: le16_cong assms(1))
  ultimately show ?thesis by (auto simp: inode_csum_valid_def)
qed

lemma inode_update_inside:
  "links_at (inode_set_mtime_and_csum fs ino b p now) p = links_at b p"
  "le32 (inode_set_mtime_and_csum fs ino b p now) (p + 0x10) = now"
  "metadata_csum fs \<Longrightarrow> inode_csum_valid fs ino (inode_set_mtime_and_csum fs ino b p now) p"
proof -
  have o: "inode_set_mtime_and_csum fs ino b p now i = put_le32 b (p + 0x10) now i" if "i < p + 0x7C" for i
    using that by (simp add: inode_set_mtime_and_csum_def recompute_csum_outside)
  have "le16 (inode_set_mtime_and_csum fs ino b p now) (p + 0x1A) = le16 (put_le32 b (p + 0x10) now) (p + 0x1A)"
    by (intro le16_cong o) auto
  also have "\<dots> = le16 b (p + 0x1A)" by (intro le16_cong) (auto simp: put_le32_def)
  finally show "links_at (inode_set_mtime_and_csum fs ino b p now) p = links_at b p" by (simp add: links_at_def)
  have "le32 (inode_set_mtime_and_csum fs ino b p now) (p + 0x10) = le32 (put_le32 b (p + 0x10) now) (p + 0x10)"
    by (intro le32_cong o) auto
  then show "le32 (inode_set_mtime_and_csum fs ino b p now) (p + 0x10) = now" by simp
  show "metadata_csum fs \<Longrightarrow> inode_csum_valid fs ino (inode_set_mtime_and_csum fs ino b p now) p"
    by (simp add: inode_set_mtime_and_csum_def recompute_csum_valid)
qed
text \<open>What one parent's slot holds after the move.\<close>

definition parent_updated :: "'c ext4_fs \<Rightarrow> u32 \<Rightarrow> buf \<Rightarrow> nat \<Rightarrow> u16 \<Rightarrow> u32 \<Rightarrow> bool" where
  "parent_updated fs ino b p links now \<longleftrightarrow> links_at b p = links \<and> le32 b (p + 0x10) = now \<and>
     (metadata_csum fs \<longrightarrow> inode_csum_valid fs ino b p)"

lemma parent_updated_cong:
  assumes "\<And>i. p \<le> i \<Longrightarrow> i < p + unat (s_inode_size (fs_sb fs)) \<Longrightarrow> b i = c i"
    "unat (s_inode_size (fs_sb fs)) = 128 \<or> 256 \<le> unat (s_inode_size (fs_sb fs))"
  shows "parent_updated fs ino b p links now = parent_updated fs ino c p links now"
proof -
  have "links_at b p = links_at c p" "le32 b (p + 0x10) = le32 c (p + 0x10)"
    unfolding links_at_def using assms(2) by (auto intro!: le16_cong le32_cong assms(1))
  then show ?thesis using inode_csum_valid_cong [OF assms] by (simp add: parent_updated_def)
qed

text \<open>
  A move between two directories loses neither parent's update when both inodes lie in one
  block: the block is written once, in it the old parent has the moved directory's link less and
  the new parent one more, both have the new time and valid checksums, and every byte of the block
  outside the two inodes is as it was.
\<close>

theorem shared_parents_both_updated:
  assumes "is_fs_block sn = is_fs_block so" "is_buf sn = is_buf so"
    "unat (s_inode_size (fs_sb fs)) = 128 \<or> 256 \<le> unat (s_inode_size (fs_sb fs))"
    "is_offset so + unat (s_inode_size (fs_sb fs)) \<le> is_offset sn \<or>
     is_offset sn + unat (s_inode_size (fs_sb fs)) \<le> is_offset so"
  shows "\<exists>b. xdir_parents fs is_dir old_ino new_ino so sn now = [(is_fs_block so, b)] \<and>
    parent_updated fs old_ino b (is_offset so)
      ((if is_dir then dec_links else id) (links_at (is_buf so) (is_offset so))) now \<and>
    parent_updated fs new_ino b (is_offset sn)
      ((if is_dir then \<lambda>l. l + 1 else id) (links_at (is_buf so) (is_offset sn))) now \<and>
    (\<forall>i. (i < is_offset so \<or> is_offset so + unat (s_inode_size (fs_sb fs)) \<le> i) \<and>
         (i < is_offset sn \<or> is_offset sn + unat (s_inode_size (fs_sb fs)) \<le> i) \<longrightarrow> b i = is_buf so i)"
proof -
  let ?n = "unat (s_inode_size (fs_sb fs))" and ?oo = "is_offset so" and ?no = "is_offset sn" and ?b = "is_buf so"
  have n: "128 \<le> ?n" using assms(3) by auto
  define lo where "lo = (if is_dir then dec_links else id) (links_at ?b ?oo)"
  define ln where "ln = (if is_dir then \<lambda>l. l + 1 else id) (links_at ?b ?no)"
  define b1 where "b1 = (if is_dir then put_le16 ?b (?oo + 0x1A) lo else ?b)"
  define b2 where "b2 = inode_set_mtime_and_csum fs old_ino b1 ?oo now"
  define b3 where "b3 = (if is_dir then put_le16 b2 (?no + 0x1A) ln else b2)"
  define b4 where "b4 = inode_set_mtime_and_csum fs new_ino b3 ?no now"
  have o1: "b1 i = ?b i" if "i < ?oo \<or> ?oo + ?n \<le> i" for i using that n by (auto simp: b1_def put_le16_def)
  have o2: "b2 i = ?b i" if "i < ?oo \<or> ?oo + ?n \<le> i" for i
    using o1 [OF that] inode_update_outside [OF that assms(3)] by (simp add: b2_def)
  have o4: "b4 i = b2 i" if "i < ?no \<or> ?no + ?n \<le> i" for i
    using inode_update_outside [OF that assms(3)] that n by (auto simp: b4_def b3_def put_le16_def)
  have l1: "links_at b1 ?oo = lo" by (simp add: b1_def lo_def links_at_def)
  have p2: "parent_updated fs old_ino b2 ?oo lo now"
    unfolding parent_updated_def b2_def using inode_update_inside [of fs old_ino b1 ?oo now] l1 by simp
  have "parent_updated fs old_ino b4 ?oo lo now = parent_updated fs old_ino b2 ?oo lo now"
    using assms(4) by (intro parent_updated_cong o4 assms(3)) auto
  with p2 have old: "parent_updated fs old_ino b4 ?oo lo now" by simp
  have "links_at b2 ?no = links_at ?b ?no"
    unfolding links_at_def using assms(4) n by (intro le16_cong o2) auto
  then have l3: "links_at b3 ?no = ln" by (simp add: b3_def ln_def links_at_def)
  then have new: "parent_updated fs new_ino b4 ?no ln now"
    unfolding parent_updated_def b4_def using inode_update_inside [of fs new_ino b3 ?no now] by simp
  have ln: "ln = (if is_dir then links_at b2 ?no + 1 else ln)"
    using \<open>links_at b2 ?no = links_at ?b ?no\<close> by (simp add: ln_def)
  have e1: "b1 = (if is_dir then put_le16 ?b (?oo + 0x1A) (dec_links (links_at ?b ?oo)) else ?b)"
    by (simp add: b1_def lo_def)
  have e3: "b3 = (if is_dir then put_le16 b2 (?no + 0x1A) (links_at b2 ?no + 1) else b2)"
    unfolding b3_def by (cases is_dir) (use ln in simp_all)
  have "xdir_parents fs is_dir old_ino new_ino so sn now = [(is_fs_block so, b4)]"
    unfolding xdir_parents_def Let_def assms(1) b4_def e3 b2_def e1 by simp
  moreover have "\<forall>i. (i < ?oo \<or> ?oo + ?n \<le> i) \<and> (i < ?no \<or> ?no + ?n \<le> i) \<longrightarrow> b4 i = ?b i"
    using o2 o4 by simp
  ultimately show ?thesis
    unfolding lo_def [symmetric] ln_def [symmetric] by (intro exI [of _ b4] conjI old new)
qed

theorem shared_parents_both_updated_witness:
  "let fs = file_fs 0; so = \<lparr>is_buf = file_block 6, is_fs_block = 6, is_offset = 384, is_gen = 0\<rparr>;
       sn = \<lparr>is_buf = file_block 6, is_fs_block = 6, is_offset = 512, is_gen = 0\<rparr>
   in \<exists>b. xdir_parents fs True 12 13 so sn 99 = [(6, b)] \<and> links_at b 384 = 0 \<and> links_at b 512 = 1"
proof -
  let ?so = "\<lparr>is_buf = file_block 6, is_fs_block = 6, is_offset = 384, is_gen = 0\<rparr>"
  let ?sn = "\<lparr>is_buf = file_block 6, is_fs_block = 6, is_offset = 512, is_gen = 0\<rparr>"
  have l: "links_at (file_block 6) 384 = 1" "links_at (file_block 6) 512 = 0"
    by (simp_all add: links_at_def le16_def at_def trunc_def file_image_byte)
  have "\<exists>b. xdir_parents (file_fs 0) True 12 13 ?so ?sn 99 = [(is_fs_block ?so, b)] \<and>
      parent_updated (file_fs 0) 12 b (is_offset ?so) (dec_links (links_at (is_buf ?so) (is_offset ?so))) 99 \<and>
      parent_updated (file_fs 0) 13 b (is_offset ?sn) (links_at (is_buf ?so) (is_offset ?sn) + 1) 99"
    using shared_parents_both_updated [of ?sn ?so "file_fs 0" True 12 13 99] by simp blast
  then show ?thesis unfolding Let_def parent_updated_def inode_slot.simps l by (auto simp: dec_links_def)
qed

text \<open>
  The directory that \<open>ext4_dir_create\<close> makes is not treated so: when its inode lies in the parent's
  inode block, the transaction lists that block twice, and the copy that is written last has the new
  inode as it was before it got its size and its extent.
\<close>

lemma mkdir_shared_block_loses_inode:
  assumes "unat (s_inode_size (fs_sb fs)) = 128 \<or> 256 \<le> unat (s_inode_size (fs_sb fs))"
    "off + unat (s_inode_size (fs_sb fs)) \<le> poff \<or> poff + unat (s_inode_size (fs_sb fs)) \<le> off"
    "off \<le> i" "i < off + unat (s_inode_size (fs_sb fs))" "i < bs_nat fs"
  shows "dwrites d (home_writes fs (ts @ [(blk, mkdir_inode fs ino new_block b off), dir_entry,
      (blk, inode_set_links fs parent_ino b poff links now)])) (unat blk) i = b i"
proof -
  have "inode_set_links fs parent_ino b poff links now i = b i"
    unfolding inode_set_links_def
    using assms by (subst inode_update_outside) (auto simp: put_le16_def)
  then show ?thesis using assms(5) by (cases dir_entry) (simp add: home_writes_def dwrites_append trunc_def)
qed

end
