(* ===== verification/WritePath.thy ===== *)
theory WritePath
  imports Commit
begin

text \<open>
  The write side of the journal as a client of the device: whatever a device write keeps is kept by
  every routine that writes log blocks, superblocks and home blocks, and what no change of the handle
  disturbs either is kept by a whole checkpoint and a whole commit.
\<close>

locale write_path =
  fixes R :: "'c ext4_fs \<Rightarrow> 'c ext4_fs \<Rightarrow> bool"
  assumes refl: "reflp R"
    and trans: "transp R"
    and device: "keeps R (dev_write sector count b)"
begin

lemmas steps = keeps_bindE [OF _ _ trans] keeps_pure [OF refl] keeps_orE keeps_orX keeps_tryE keeps_tryX device

lemma raw: "keeps R (raw_write blk b)"
  using device by (auto simp: keeps_def raw_write_def)

lemma log_block: "keeps R (write_journal_block jblk b)"
  using raw refl by (auto simp: keeps_def write_journal_block_def dest: reflpD split: option.split)

lemma home_block: "keeps R (apply_journaled_block_to_fs blk b esc)"
  using raw by (auto simp: keeps_def apply_journaled_block_to_fs_def)

lemma journal_superblock: "keeps R (update_jsb start seq)"
  unfolding update_jsb_def dev_read_def Let_def by (intro steps)

lemma fs_superblock: "keeps R (update_fs_sb_recover on)"
  unfolding update_fs_sb_recover_def dev_read_def Let_def by (intro steps)

lemma flush: "keeps R (flush_entries es)"
  by (induction es) (simp_all only: flush_entries.simps, (intro steps home_block)+)

lemma data_blocks: "keeps R (write_data_blocks jblk ts)"
  by (induction jblk ts rule: write_data_blocks.induct) (simp_all only: write_data_blocks.simps, (intro steps log_block)+)

lemma checkpoint:
  assumes "keeps R (modE checkpoint_done)"
  shows "keeps R ext4_journal_checkpoint"
proof (rule keepsI)
  fix fs :: "'c ext4_fs"
  have "keeps R (bindE (if jbd_replay_active (fs_jbd fs) then flush_entries (jbd_replay (fs_jbd fs)) else retE ()) (\<lambda>_.
       bindE (update_jsb 0 (jbd_sequence (fs_jbd fs))) (\<lambda>_.
       bindE (update_fs_sb_recover False) (\<lambda>_.
       modE checkpoint_done))))"
    by (cases "jbd_replay_active (fs_jbd fs)")
      (simp_all only: if_True if_False, (intro steps flush journal_superblock fs_superblock assms)+)
  then show "R fs (snd (ext4_journal_checkpoint fs))"
    using refl by (auto simp: ext4_journal_checkpoint_def Let_def keeps_def dest: reflpD)
qed

end

text \<open>What no change of the journal handle, of its marks on the superblock or of the descriptor cache
  disturbs either is kept by a whole commit.\<close>

locale whole_commit = write_path R for R :: "'c ext4_fs \<Rightarrow> 'c ext4_fs \<Rightarrow> bool" +
  assumes updates: "keeps R (modE (upd_jbd f))" "keeps R (modE checkpoint_done)" "keeps R (modE ext4_fs_bgd_invalidate)"
begin

lemma commit: "keeps R (ext4_journal_commit ts)"
  unfolding ext4_journal_commit_def Let_def
  by (intro steps updates fs_superblock log_block data_blocks journal_superblock checkpoint)

end

text \<open>A relation that only looks at the device.\<close>

locale device_only = write_path R for R :: "'c ext4_fs \<Rightarrow> 'c ext4_fs \<Rightarrow> bool" +
  assumes handle: "fs_bd fs' = fs_bd fs \<Longrightarrow> R fs fs'"

sublocale device_only \<subseteq> whole_commit
  by unfold_locales (auto simp: keeps_def checkpoint_done_def ext4_fs_bgd_invalidate_def intro: handle)

end
