(* ===== verification/Handle.thy ===== *)
theory Handle
  imports Mount WritePath Sample
begin

text \<open>
  The journal handle as the C structure it is: its tables are arrays of fixed size, and no
  operation of the journal leaves more entries in them than they hold.
\<close>

definition handle_fits :: "ext4_jbd \<Rightarrow> bool" where
  "handle_fits j \<longleftrightarrow> length (jbd_replay j) \<le> replay_map_max \<and> length (jbd_revoke j) \<le> revoke_map_max \<and>
     length (jbd_extents j) \<le> unat jbd_extent_max \<and>
     (jbd_present j \<longrightarrow> jbd_extents j \<noteq> [] \<and> je_logical (jbd_extents j ! 0) = 0)"

definition fits_after :: "'c ext4_fs \<Rightarrow> 'c ext4_fs \<Rightarrow> bool" where
  "fits_after fs fs' \<longleftrightarrow> (handle_fits (fs_jbd fs) \<longrightarrow> handle_fits (fs_jbd fs'))"

lemma transp_fits_after: "transp fits_after"
  by (rule transpI) (simp add: fits_after_def)

lemma reflp_fits_after: "reflp fits_after"
  by (rule reflpI) (simp add: fits_after_def)

section \<open>The tables\<close>

lemma replay_upsert_length:
  "replay_upsert_at used blk jblk esc es = Some es' \<Longrightarrow> used + length es \<le> replay_map_max \<Longrightarrow>
   used + length es' \<le> replay_map_max"
  by (induction es arbitrary: used es') (fastforce split: if_splits)+

lemma revoke_upsert_length:
  "revoke_upsert_at used blk seq es = Some es' \<Longrightarrow> used + length es \<le> revoke_map_max \<Longrightarrow>
   used + length es' \<le> revoke_map_max"
  by (induction es arbitrary: used es') (fastforce split: if_splits)+

lemma replay_upsert_fits: "replay_upsert j blk jblk esc = Some j' \<Longrightarrow> handle_fits j \<Longrightarrow> handle_fits j'"
  using replay_upsert_length [of 0 blk jblk esc "jbd_replay j"]
  by (auto simp: replay_upsert_def handle_fits_def)

lemma revoke_all_fits: "handle_fits j \<Longrightarrow> handle_fits (snd (revoke_all j seq blks))"
proof (induction blks arbitrary: j)
  case (Cons blk blks)
  show ?case
  proof (cases "revoke_upsert j blk seq")
    case (Some j')
    then have "handle_fits j'"
      using Cons.prems revoke_upsert_length [of 0 blk seq "jbd_revoke j"]
      by (auto simp: revoke_upsert_def handle_fits_def)
    with Some Cons.IH show ?thesis by simp
  qed (use Cons.prems in simp)
qed simp

section \<open>The operations\<close>

lemma fits_modE: "(\<And>j. handle_fits j \<Longrightarrow> handle_fits (f j)) \<Longrightarrow> keeps fits_after (modE (upd_jbd f))"
  by (rule keepsI) (simp add: fits_after_def)

lemma fits_same: "(\<And>fs. fs_jbd (snd (m fs)) = fs_jbd fs) \<Longrightarrow> keeps fits_after m"
  by (rule keepsI) (simp add: fits_after_def)

lemma dev_write_jbd: "fs_jbd (snd (dev_write s n b fs)) = fs_jbd fs"
  by (simp add: dev_write_def split: prod.split)

lemma raw_write_jbd: "fs_jbd (snd (raw_write blk b fs)) = fs_jbd fs"
  by (simp add: raw_write_def dev_write_jbd)

interpretation fits: write_path fits_after
  by unfold_locales (rule reflp_fits_after transp_fits_after fits_same [OF dev_write_jbd])+

lemma keeps_if: "(c \<Longrightarrow> keeps R m) \<Longrightarrow> (\<not> c \<Longrightarrow> keeps R n) \<Longrightarrow> keeps R (if c then m else n)"
  by simp

lemma fits_after_snd: "keeps fits_after m \<Longrightarrow> m fs = (r, fs') \<Longrightarrow> handle_fits (fs_jbd fs) \<Longrightarrow> handle_fits (fs_jbd fs')"
  by (drule (1) keepsD) (simp add: fits_after_def)

lemma fits_checkpoint: "keeps fits_after ext4_journal_checkpoint"
  by (rule fits.checkpoint, rule keepsI) (auto simp: fits_after_def checkpoint_done_def handle_fits_def)

lemma stash_length: "length (stash_escapes xs es) = length es"
  by (induction xs es rule: stash_escapes.induct) simp_all

lemma trans_entries_length [simp]: "length (trans_entries w ts) = length ts"
  by (induction w ts rule: trans_entries.induct) simp_all

lemma fits_commit: "keeps fits_after (ext4_journal_commit ts)"
proof (rule keepsI)
  fix fs :: "'c ext4_fs"
  let ?j = "fs_jbd fs"
  have esc: "keeps fits_after (modE (upd_jbd (\<lambda>j. j\<lparr>jbd_replay := stash_escapes xs (jbd_replay j)\<rparr>)) :: ('c ext4_fs, unit) op)"
    for xs by (rule fits_modE) (simp add: handle_fits_def stash_length)
  have seq: "keeps fits_after (modE (upd_jbd (\<lambda>j. j\<lparr>jbd_sequence := s\<rparr>)) :: ('c ext4_fs, unit) op)" for s
    by (rule fits_modE) (simp add: handle_fits_def)
  have inv: "keeps fits_after (modE ext4_fs_bgd_invalidate :: ('c ext4_fs, unit) op)"
    by (rule fits_same) (simp add: ext4_fs_bgd_invalidate_def)
  show "fits_after fs (snd (ext4_journal_commit ts fs))"
  proof (cases "length ts \<le> trans_max_blocks")
    case False
    then show ?thesis by (auto simp: ext4_journal_commit_def bindE_def Let_def fits_after_def)
  next
    case True
    then have "length ts \<le> replay_map_max" by (simp add: trans_max_blocks_def replay_map_max_def)
    then have ent: "keeps fits_after (modE (upd_jbd (\<lambda>j. j\<lparr>jbd_start := s, jbd_replay_active := True,
        jbd_replay := trans_entries w ts\<rparr>)) :: ('c ext4_fs, unit) op)" for s w
      by (intro fits_modE) (simp add: handle_fits_def)
    have "keeps fits_after (ext4_journal_commit ts :: ('c ext4_fs, unit) op)"
      unfolding ext4_journal_commit_def Let_def
      by (intro fits.steps esc seq inv ent fits.fs_superblock fits.journal_superblock fits.log_block
        fits_checkpoint fits.data_blocks)
    then show ?thesis by (simp add: keeps_def)
  qed
qed

lemma apply_jbd: "fs_jbd (snd (orE (apply_journaled_block_to_fs blk b esc) rc fs)) = fs_jbd fs"
  using raw_write_jbd [of blk _ fs]
  by (auto simp: orE_def apply_journaled_block_to_fs_def split: prod.split sum.split) (metis snd_conv)+

lemma fits_apply_tag: "keeps fits_after (apply_tag action seq desc p jblk)"
proof (rule keepsI)
  fix fs :: "'c ext4_fs"
  show "fits_after fs (snd (apply_tag action seq desc p jblk fs))"
    by (auto simp: apply_tag_def bindE_def Let_def orE_def fits_after_def replay_upsert_fits apply_jbd [unfolded orE_def]
        split: sum.split option.split)
qed

lemma fits_tags: "handle_fits (fs_jbd fs) \<Longrightarrow> handle_fits (fs_jbd (snd (tags_loop action seq b p remaining jblk fs)))"
proof (induction action seq b p remaining jblk fs rule: tags_loop.induct)
  case (1 action seq b p remaining jblk fs)
  let ?jb = "wrap_jblk (fs_jbd fs) (jblk + 1)"
  obtain r fs1 where a: "apply_tag action seq b p ?jb fs = (r, fs1)" by fastforce
  have f: "handle_fits (fs_jbd fs1)" by (rule fits_after_snd [OF fits_apply_tag a "1.prems"])
  show ?case
    using 1 a f by (subst tags_loop.simps) (auto simp: Let_def split: sum.split)
qed
lemma fits_tags_run: "keeps fits_after (iterate_descriptor_tags seq blk b action)"
  by (rule keepsI) (simp add: fits_after_def iterate_descriptor_tags_def fits_tags)

lemma fits_revoke: "keeps fits_after (handle_revoke seq b)"
proof (rule keepsI)
  fix fs :: "'c ext4_fs"
  show "fits_after fs (snd (handle_revoke seq b fs))"
    using revoke_all_fits [of "fs_jbd fs" seq "revoke_records (fs_jbd fs) b"]
    by (auto simp: fits_after_def handle_revoke_def split: prod.split)
qed

lemma fits_walk_block: "keeps fits_after (walk_block action b jblk seq end_seq)"
  unfolding walk_block_def Let_def by (intro fits.steps keeps_if fits_tags_run fits_revoke)

lemma fits_walk: "handle_fits (fs_jbd fs) \<Longrightarrow>
    handle_fits (fs_jbd (snd (walk_loop action start limit guard jblk seq end_seq fs)))"
proof (induction action start limit guard jblk seq end_seq fs rule: walk_loop.induct)
  case (1 action start limit guard jblk seq end_seq fs)
  show ?case
  proof (cases "ext4_journal_read_log_block fs jblk")
    case (Inl e)
    then show ?thesis using "1.prems" by (subst walk_loop.simps) simp
  next
    case (Inr b)
    obtain r fs1 where w: "walk_block action b jblk seq end_seq fs = (r, fs1)" by fastforce
    have f: "handle_fits (fs_jbd fs1)" by (rule fits_after_snd [OF fits_walk_block w "1.prems"])
    show ?thesis
      using 1 Inr w f by (subst walk_loop.simps) (auto simp: Let_def split: sum.split)
  qed
qed

lemma fits_walk_log: "keeps fits_after (walk_log action last_seq)"
proof (rule keepsI)
  fix fs :: "'c ext4_fs"
  have "handle_fits (fs_jbd fs) \<Longrightarrow> walk_loop action s l g b q e fs = (r, fs') \<Longrightarrow> handle_fits (fs_jbd fs')" for s l g b q e r fs'
    using fits_walk [of fs action s l g b q e] by simp
  then show "fits_after fs (snd (walk_log action last_seq fs))"
    by (auto simp: walk_log_def fits_after_def Let_def split: prod.split sum.split)
qed

lemma fits_on_error:
  assumes "keeps fits_after m" "\<And>j. handle_fits j \<Longrightarrow> handle_fits (f j)"
  shows "keeps fits_after (on_error m (upd_jbd f))"
proof (rule keepsI)
  fix fs
  obtain r fs1 where m: "m fs = (r, fs1)" by fastforce
  from fits_after_snd [OF assms(1) m] assms(2) show "fits_after fs (snd (on_error m (upd_jbd f) fs))"
    by (auto simp: fits_after_def on_error_def m split: sum.split)
qed

lemma fits_replay: "keeps fits_after ext4_journal_replay"
proof (rule keepsI)
  fix fs :: "'c ext4_fs"
  have clear: "handle_fits j \<Longrightarrow> handle_fits (clear_revoke j)" "handle_fits j \<Longrightarrow> handle_fits (clear_tables j)" for j
    by (simp_all add: handle_fits_def clear_revoke_def clear_tables_def)
  have act: "keeps fits_after (modE (upd_jbd (\<lambda>j. j\<lparr>jbd_replay_active := jbd_replay j \<noteq> []\<rparr>)) :: ('c ext4_fs, unit) op)"
    by (rule fits_modE) (simp add: handle_fits_def)
  have "keeps fits_after (bindE (walk_log Scan 0) (\<lambda>last_seq.
         (if seq_diff last_seq q < 0 then retE ()
         else
            bindE (on_error (walk_log Revoke last_seq) (upd_jbd clear_revoke)) (\<lambda>_.
            bindE (on_error (walk_log (if w then Flush else Build) last_seq) (upd_jbd clear_tables)) (\<lambda>_.
            (if w then retE ()
            else modE (upd_jbd (\<lambda>j. j\<lparr>jbd_replay_active := jbd_replay j \<noteq> []\<rparr>)))))))
       :: ('c ext4_fs, unit) op)" for q w
    by (intro fits.steps keeps_if fits_walk_log fits_on_error clear act)
  then show "fits_after fs (snd (ext4_journal_replay fs))"
    by (auto simp: ext4_journal_replay_def Let_def keeps_def fits_after_def)
qed
section \<open>Opening the journal\<close>

definition extents_ready :: "ext4_jbd \<Rightarrow> bool" where
  "extents_ready j \<longleftrightarrow> length (jbd_replay j) \<le> replay_map_max \<and> length (jbd_revoke j) \<le> revoke_map_max \<and>
     length (jbd_extents j) \<le> unat jbd_extent_max \<and> jbd_extents j \<noteq> [] \<and> je_logical (jbd_extents j ! 0) = 0"

lemma extents_ready_fits: "extents_ready j \<Longrightarrow> handle_fits j"
  by (simp add: extents_ready_def handle_fits_def)

lemma load_sb_ready:
  assumes "extents_ready (fs_jbd fs)"
  shows "extents_ready (fs_jbd (snd (jbd_load_sb inum fs)))"
proof -
  have "extents_ready (jbd_parse_sb b (fs_jbd fs))" "extents_ready (jbd_derive inum (jbd_parse_sb b (fs_jbd fs)))" for b
    using assms by (simp_all add: extents_ready_def jbd_parse_sb_def jbd_derive_def Let_def)
  with assms show ?thesis
    by (auto simp: jbd_load_sb_def bindE_def orE_def split: sum.split)
qed

lemma init_fits: "handle_fits (fs_jbd (snd (ext4_journal_init fs)))"
proof -
  let ?fs1 = "upd_jbd (jbd_reset (s_feature_incompat (fs_sb fs))) fs"
  have f1: "handle_fits (fs_jbd ?fs1)" by (simp add: handle_fits_def jbd_reset_def)
  obtain x fs2 where x: "ext4_inode_read (s_journal_inum (fs_sb fs)) ?fs1 = (x, fs2)" by fastforce
  have j2: "fs_jbd fs2 = fs_jbd ?fs1" by (rule same_but_bgd_fields [OF inode_read_same [OF x]])
  show ?thesis
  proof (cases "s_journal_inum (fs_sb fs) = 0 \<or> isl x")
    case True
    then show ?thesis
      using f1 x j2 by (auto simp: ext4_journal_init_def bindE_def orE_def isl_def)
  next
    case False
    then obtain jinode where jinode: "x = Inr jinode" by (cases x) auto
    let ?ib = "i_block jinode"
    let ?f = "\<lambda>j. j\<lparr>jbd_extents := map (jbd_parse_extent ?ib) [0..<unat (le16 ?ib 2)]\<rparr>"
    have len: "unat (le16 ?ib 2) \<le> unat jbd_extent_max \<and> 0 < unat (le16 ?ib 2)"
      if "le16 ?ib 2 \<noteq> 0 \<and> le16 ?ib 2 \<le> jbd_extent_max"
      using that by (simp add: word_le_nat_alt unat_pos)
    have f3: "handle_fits (?f (fs_jbd fs2))" if "le16 ?ib 2 \<noteq> 0 \<and> le16 ?ib 2 \<le> jbd_extent_max"
      using len [OF that] by (simp add: j2 jbd_reset_def handle_fits_def)
    have r3: "handle_fits (fs_jbd (snd (jbd_load_sb inum (upd_jbd ?f fs2))))"
      if "le16 ?ib 2 \<noteq> 0 \<and> le16 ?ib 2 \<le> jbd_extent_max" "je_logical (jbd_extents (?f (fs_jbd fs2)) ! 0) = 0" for inum
      using len [OF that(1)] that(2)
      by (intro extents_ready_fits load_sb_ready) (simp add: extents_ready_def j2 jbd_reset_def)
    show ?thesis
      using False x jinode f1 f3 r3
      by (auto simp: ext4_journal_init_def bindE_def orE_def Let_def j2)
  qed
qed

lemma fits_open_journal: "keeps fits_after open_journal"
proof -
  have "keeps fits_after (ext4_journal_init :: ('c ext4_fs, unit) op)"
    by (rule keepsI) (simp add: fits_after_def init_fits)
  then show ?thesis
    unfolding open_journal_def
    by (intro fits.steps keeps_if keeps_tryE fits_replay fits_checkpoint)
qed

lemma mounted_handle_fits: "ext4_fs_open bd lba = (Inr fs, bd') \<Longrightarrow> handle_fits (fs_jbd fs)"
proof -
  have "handle_fits (fs_jbd (fs_bare bd lba sb))" for sb by (simp add: fs_bare_def handle_fits_def jbd_none_def)
  then show "ext4_fs_open bd lba = (Inr fs, bd') \<Longrightarrow> handle_fits (fs_jbd fs)"
    by (auto simp: ext4_fs_open_def split: if_splits sum.splits prod.splits dest: fits_after_snd [OF fits_open_journal])
qed

text \<open>
  C15: The journal handle fits its C arrays: every volume that mounts, and then every replay,
  checkpoint and commit, successful or not, leaves at most 64 replay entries, 32 revoke entries and
  8 extents in it, and a journal that is present has an extent that begins at its block 0.
\<close>

theorem journal_handle_fits:
  "(case fst (ext4_fs_open bd lba) of Inl _ \<Rightarrow> True | Inr fs \<Rightarrow> handle_fits (fs_jbd fs)) \<and>
   handle_fits (fs_jbd (snd (ext4_journal_init fs))) \<and>
   keeps fits_after (ext4_journal_replay :: ('c ext4_fs, unit) op) \<and>
   keeps fits_after (ext4_journal_checkpoint :: ('c ext4_fs, unit) op) \<and>
   keeps fits_after (ext4_journal_commit ts :: ('c ext4_fs, unit) op)"
  using mounted_handle_fits [of bd lba _ "snd (ext4_fs_open bd lba)"] init_fits fits_replay fits_checkpoint fits_commit
  by (auto split: sum.split) (metis mounted_handle_fits prod.collapse)

end
