(* ===== verification/Session.thy ===== *)
theory Session
  imports History WritePath Writing
begin

text \<open>
  A session: any of the operations that change the volume, one after the other, on a device that may
  stop anywhere, and the mount that follows.
\<close>

section \<open>A device that has stopped\<close>

definition dead_keeps :: "file_ctx ext4_fs \<Rightarrow> file_ctx ext4_fs \<Rightarrow> bool" where
  "dead_keeps fs fs' \<longleftrightarrow> (dead fs \<longrightarrow> fs_bd fs' = fs_bd fs)"

lemma dead_write:
  assumes "dead fs"
  shows "\<exists>rc. dev_write sector count b fs = (Inl rc, fs)"
  using assms
  by (auto simp: dev_write_def bdev_write_def dead_def file_bdev_write_def bdev_err_io_def)

lemma dead_same: "dead fs \<Longrightarrow> fs_bd fs' = fs_bd fs \<Longrightarrow> dead fs'"
  by (simp add: dead_def)

lemma reflp_dead_keeps: "reflp dead_keeps"
  by (rule reflpI) (simp add: dead_keeps_def)

lemma transp_dead_keeps: "transp dead_keeps"
  by (rule transpI) (simp add: dead_keeps_def dead_def)

lemma dead_keeps_write: "keeps dead_keeps (dev_write sector count b)"
proof (rule keepsI)
  show "dead_keeps fs (snd (dev_write sector count b fs))" for fs
    using dead_write [of fs sector count b] by (cases "dead fs") (auto simp: dead_keeps_def)
qed

interpretation dead: device_only dead_keeps
  by (unfold_locales; (rule reflp_dead_keeps transp_dead_keeps dead_keeps_write)?) (simp add: dead_keeps_def)

lemma dead_recover_flag:
  assumes "dead fs"
  shows "\<exists>rc fs'. update_fs_sb_recover on fs = (Inl rc, fs')"
proof -
  obtain r where "dev_read (fs_sb_sector fs) (1024 div sector_size (fs_bd fs)) fs = (r, fs)"
    by (simp add: dev_read_def)
  then show ?thesis
    using dead_write [OF assms]
    by (cases r) (auto simp: update_fs_sb_recover_def bindE_def Let_def, metis prod.case sum.case(1))
qed

lemma dead_commit:
  assumes "dead fs"
  shows "\<exists>rc fs'. ext4_journal_commit ts fs = (Inl rc, fs')"
proof -
  let ?f = "\<lambda>j. j\<lparr>jbd_replay := stash_escapes (map (needs_escape \<circ> snd) ts) (jbd_replay j)\<rparr>"
  have "dead (upd_jbd ?f fs)" using assms by (simp add: dead_def)
  then obtain rc f2 where "update_fs_sb_recover True (upd_jbd ?f fs) = (Inl rc, f2)"
    using dead_recover_flag by blast
  then show ?thesis by (auto simp: ext4_journal_commit_def bindE_def Let_def)
qed

section \<open>The states of a session\<close>

text \<open>Alive: the transactions \<open>D\<close> are in place.  Cut: the device stopped inside \<open>ts\<close>.\<close>

definition in_place :: "file_ctx ext4_fs \<Rightarrow> jbd_trans list \<Rightarrow> nat \<Rightarrow> buf" where
  "in_place fs D = dwrites (disk fs) (concat (map (home_writes fs) D))"

definition live_at :: "file_ctx ext4_fs \<Rightarrow> jbd_trans list \<Rightarrow> file_ctx ext4_fs \<Rightarrow> bool" where
  "live_at fs D f \<longleftrightarrow> later fs f \<and>
     unat (jbd_sequence (fs_jbd f)) = unat (jbd_sequence (fs_jbd fs)) + length D \<and>
     vol_agrees fs (disk f) (in_place fs D)"

definition cut_at :: "file_ctx ext4_fs \<Rightarrow> jbd_trans list \<Rightarrow> jbd_trans \<Rightarrow> file_ctx ext4_fs \<Rightarrow> bool" where
  "cut_at fs D ts f' \<longleftrightarrow> dead f' \<and>
     (\<exists>f f1 k. live_at fs D f \<and> vol_step f f1 \<and> disk f1 = dwrites (disk f) (take k (commit_writes f ts)) \<and>
        fs_bd f' = fs_bd f1)"

lemma later_same_but_bgd:
  assumes "later fs f" "same_but_bgd f g"
  shows "later fs g"
proof -
  note v = same_but_bgd_vol [OF assms(2)] and j = same_but_bgd_fields [OF assms(2)]
  have s: "vol_step fs f" using assms(1) by (simp add: later_def)
  have "vol_step f g" using same_but_bgd_writes(2) [OF assms(2), of g] v(1) vol_stepD(1) [OF s] by simp
  then show ?thesis using assms(1) vol_step_trans [OF s] by (simp add: later_def v j)
qed

lemma live_same_but_bgd: "live_at fs D f \<Longrightarrow> same_but_bgd f g \<Longrightarrow> live_at fs D g"
  using later_same_but_bgd [of fs f g] by (simp add: live_at_def same_but_bgd_vol same_but_bgd_fields)

lemma live_commit:
  assumes l: "live_at fs D f" and t: "trans_ready fs ts"
    and s: "unat (jbd_sequence (fs_jbd fs)) + Suc (length D) < 2 ^ 32"
    and c: "ext4_journal_commit ts f = (r, f2)"
  shows "r = Inr () \<Longrightarrow> live_at fs (D @ [ts]) f2" "isl r \<Longrightarrow> cut_at fs D ts f2"
proof -
  have lf: "later fs f" and q: "unat (jbd_sequence (fs_jbd f)) + 1 < 2 ^ 32"
    using l s by (simp_all add: live_at_def)
  show "live_at fs (D @ [ts]) f2" if "r = Inr ()"
  proof -
    note n = commit_later [OF lf t q c [unfolded that]]
    have "vol_agrees fs (disk f2) (in_place fs (D @ [ts]))"
      using vol_agrees_trans [OF n(3) vol_agrees_writes, of "in_place fs D"] l
      by (simp add: live_at_def in_place_def dwrites_append)
    moreover have "unat (jbd_sequence (fs_jbd f2)) = unat (jbd_sequence (fs_jbd fs)) + length (D @ [ts])"
      using l q by (simp add: n(2) unat_add_small live_at_def)
    ultimately show ?thesis using n(1) by (simp add: live_at_def)
  qed
  show "cut_at fs D ts f2" if "isl r"
  proof -
    have "trans_ready f ts" by (rule handle_on_facts(8) [OF lf t])
    from emits_commit [OF this] c show ?thesis
    proof (cases rule: emitsE)
      case (cut rc k)
      then show ?thesis using l by (auto simp: cut_at_def)
    qed (use that in simp)
  qed
qed

lemma cut_recovered:
  assumes c: "cut_at fs D ts f'" and t: "trans_ready fs ts" and m: "unat (jbd_maxlen (fs_jbd fs)) + 4 < 2 ^ 31"
    and s: "unat (jbd_sequence (fs_jbd fs)) + length D + unat (jbd_maxlen (fs_jbd fs)) < 2 ^ 32"
  shows "\<exists>fs2. recover fs (fs_bd f') = (Inr (), fs2) \<and>
    (vol_agrees fs (disk fs2) (in_place fs (D @ [ts])) \<or> vol_agrees fs (disk fs2) (in_place fs D))"
proof -
  from c obtain f f1 k where f: "later fs f" "vol_step f f1" "fs_bd f' = fs_bd f1"
      "disk f1 = dwrites (disk f) (take k (commit_writes f ts))" "vol_agrees fs (disk f) (in_place fs D)"
      "unat (jbd_sequence (fs_jbd f)) = unat (jbd_sequence (fs_jbd fs)) + length D"
    by (auto simp: cut_at_def live_at_def)
  have "unat (jbd_sequence (fs_jbd f)) + unat (jbd_maxlen (fs_jbd fs)) < 2 ^ 32" using s f(6) by simp
  from cut_later [OF f(1) t m this f(2,4)] obtain fs2 where
    r: "recover fs (fs_bd f1) = (Inr (), fs2)"
    "vol_agrees fs (disk fs2) (dwrites (disk f) (home_writes fs ts)) \<or> vol_agrees fs (disk fs2) (disk f)"
    by blast
  have a: "vol_agrees fs (dwrites (disk f) (home_writes fs ts)) (in_place fs (D @ [ts]))"
    using vol_agrees_writes [OF f(5)] by (simp add: in_place_def dwrites_append)
  from r(2) have "vol_agrees fs (disk fs2) (in_place fs (D @ [ts])) \<or> vol_agrees fs (disk fs2) (in_place fs D)"
    using vol_agrees_trans [OF _ a] vol_agrees_trans [OF _ f(5)] by blast
  with r(1) show ?thesis by (simp add: f(3))
qed

lemma live_recovered:
  assumes l: "live_at fs D f" and s: "settled fs"
  shows "\<exists>fs2. recover fs (fs_bd f) = (Inr (), fs2) \<and> vol_agrees fs (disk fs2) (in_place fs D)"
proof -
  have v: "vol_step fs f" "jsb_describes (fs_jbd fs) (disk f (log_blk (fs_jbd fs) 0))"
    "be32 (disk f (log_blk (fs_jbd fs) 0)) 0x1C = 0" "log_ok fs" "jbd_present (fs_jbd fs)"
    using l s by (simp_all add: live_at_def later_def settled_def)
  from recover_clean [OF v(1,4,5,2,3)] obtain fs2 where
    "recover fs (fs_bd f) = (Inr (), fs2)" "disk fs2 = disk f" by blast
  with l show ?thesis by (auto simp: live_at_def)
qed

section \<open>One operation\<close>

text \<open>The transactions that matter: those that succeed and the one that fails.\<close>

definition begun :: "jbd_trans list \<Rightarrow> nat \<Rightarrow> jbd_trans set" where
  "begun T n = set (take (Suc n) T)"

definition reached :: "file_ctx ext4_fs \<Rightarrow> jbd_trans list \<Rightarrow> jbd_trans list \<Rightarrow> nat \<Rightarrow> file_ctx ext4_fs \<Rightarrow> bool" where
  "reached fs D T n f' \<longleftrightarrow>
     (if n = length T then live_at fs (D @ T) f' else n < length T \<and> cut_at fs (D @ take n T) (T ! n) f')"

lemma coded_result: "coded rc m s = (r, s') \<Longrightarrow> \<exists>r'. m s = (r', s') \<and> isl r' = isl r \<and> (\<forall>x. (r' = Inr x) = (r = Inr x))"
  by (cases rc) (auto simp: coded_def orX_def split: prod.splits sum.splits)

lemma plan_reaches:
  assumes "reads_only p" "live_at fs D f" "\<forall>ts \<in> begun (plan_trans p f) (plan_done p f). trans_ready fs ts"
    "unat (jbd_sequence (fs_jbd fs)) + Suc (length D + plan_done p f) < 2 ^ 32" "run_plan p f = (r, f')"
  shows "reached fs D (plan_trans p f) (plan_done p f) f' \<and> (plan_done p f < length (plan_trans p f) \<longrightarrow> isl r)"
  using assms
proof (induction arbitrary: D f rule: reads_only.induct)
  case (ret x)
  then show ?case by (simp add: reached_def)
next
  case (reads m)
  obtain x f1 where m: "m f = (x, f1)" by fastforce
  have l: "live_at fs D f1" by (rule live_same_but_bgd [OF reads.prems(1) keepsD [OF reads.hyps(1) m]])
  show ?case
  proof (cases x)
    case (Inl e)
    then show ?thesis using l m reads.prems(4) by (simp add: plan_Reads reached_def run_Reads bindE_def)
  next
    case (Inr k)
    then have "plan_trans (Reads m) f = plan_trans k f1" "plan_done (Reads m) f = plan_done k f1"
      "run_plan k f1 = (r, f')"
      using m reads.prems(4) by (simp_all add: plan_Reads run_Reads bindE_def)
    with reads.IH [OF m [unfolded Inr] l] reads.prems(2,3) show ?thesis by simp
  qed
next
  case (commit k rc ts)
  obtain c f1 where c: "ext4_journal_commit ts f = (c, f1)" by fastforce
  have t: "trans_ready fs ts" using commit.prems(2) by (simp add: begun_def)
  have s: "unat (jbd_sequence (fs_jbd fs)) + Suc (length D) < 2 ^ 32" using commit.prems(3) by simp
  note n = live_commit [OF commit.prems(1) t s c]
  obtain x f2 where x: "coded rc (ext4_journal_commit ts) f = (x, f2)" by fastforce
  from coded_result [OF x] c have e: "f2 = f1" "isl c = isl x" "c = Inr () \<longleftrightarrow> x = Inr ()" by auto
  show ?case
  proof (cases c)
    case (Inl err)
    then have "isl x" using e(2) by simp
    then obtain y where "x = Inl y" by (cases x) simp_all
    then show ?thesis
      using n(2) Inl c commit.prems(4) x e(1) by (auto simp: reached_def bindE_def)
  next
    case (Inr u)
    then have l: "live_at fs (D @ [ts]) f1" and r: "run_plan k f1 = (r, f')"
      using n(1) e commit.prems(4) x by (simp_all add: bindE_def)
    have "reached fs (D @ [ts]) (plan_trans k f1) (plan_done k f1) f' \<and>
        (plan_done k f1 < length (plan_trans k f1) \<longrightarrow> isl r)"
      using commit.prems(2,3) c Inr by (intro commit.IH [OF l _ _ r]) (simp_all add: begun_def)
    then show ?thesis using c Inr by (simp add: reached_def split: if_splits)
  qed
qed

lemma dead_plan:
  assumes "reads_only p" "dead f" "run_plan p f = (r, f')"
  shows "plan_done p f = 0 \<and> fs_bd f' = fs_bd f"
  using assms
proof (induction arbitrary: f rule: reads_only.induct)
  case (reads m)
  obtain x f1 where m: "m f = (x, f1)" by fastforce
  have b: "fs_bd f1 = fs_bd f" by (rule same_but_bgd_fields [OF keepsD [OF reads.hyps(1) m]])
  show ?case
  proof (cases x)
    case (Inr k)
    then show ?thesis
      using reads.IH [OF m [unfolded Inr] dead_same [OF reads.prems(1) b]] reads.prems(2) m b
      by (simp add: plan_Reads run_Reads bindE_def)
  qed (use m b reads.prems(2) in \<open>simp add: plan_Reads run_Reads bindE_def\<close>)
next
  case (commit k rc ts)
  from dead_commit [OF commit.prems(1)] obtain e f1 where c: "ext4_journal_commit ts f = (Inl e, f1)" by blast
  have "fs_bd f1 = fs_bd f" using keepsD [OF dead.commit c] commit.prems(1) by (simp add: dead_keeps_def)
  moreover obtain x f2 where x: "coded rc (ext4_journal_commit ts) f = (x, f2)" by fastforce
  moreover from coded_result [OF x] c have "f2 = f1" "isl x" by auto
  ultimately show ?case using commit.prems(2) c by (cases x) (auto simp: bindE_def)
qed simp

section \<open>Operations one after the other\<close>

fun session :: "file_op list \<Rightarrow> 'c ext4_fs \<Rightarrow> (int + unit) list \<times> 'c ext4_fs" where
  "session [] fs = ([], fs)"
| "session (p # ps) fs =
     (case perform p fs of (r, fs1) \<Rightarrow> (case session ps fs1 of (rs, fs2) \<Rightarrow> (r # rs, fs2)))"

text \<open>The transactions of a session in the order they are begun, and how many of them succeed.\<close>

fun session_trans :: "file_op list \<Rightarrow> 'c ext4_fs \<Rightarrow> jbd_trans list" where
  "session_trans [] fs = []"
| "session_trans (p # ps) fs = plan_trans (plan_of p) fs @ session_trans ps (snd (perform p fs))"

fun session_done :: "file_op list \<Rightarrow> 'c ext4_fs \<Rightarrow> nat" where
  "session_done [] fs = 0"
| "session_done (p # ps) fs = plan_done (plan_of p) fs + session_done ps (snd (perform p fs))"

lemma dead_session: "dead f \<Longrightarrow> session ps f = (rs, f') \<Longrightarrow> session_done ps f = 0 \<and> fs_bd f' = fs_bd f"
proof (induction ps arbitrary: f rs)
  case (Cons p ps)
  obtain r f1 where p: "perform p f = (r, f1)" by fastforce
  obtain qs where s: "session ps f1 = (qs, f')" using Cons.prems(2) p by (auto split: prod.splits)
  note d = dead_plan [OF plan_reads_only Cons.prems(1), of p, unfolded perform_plan, OF p]
  show ?case using Cons.IH [OF dead_same s] Cons.prems(1) d p by simp
qed simp

lemma cut_dead: "cut_at fs D ts f \<Longrightarrow> fs_bd f' = fs_bd f \<Longrightarrow> cut_at fs D ts f'"
  by (auto simp: cut_at_def dead_same)

lemma session_reaches:
  assumes "live_at fs D f" "\<forall>ts \<in> begun (session_trans ps f) (session_done ps f). trans_ready fs ts"
    "unat (jbd_sequence (fs_jbd fs)) + Suc (length D + session_done ps f) < 2 ^ 32" "session ps f = (rs, f')"
  shows "reached fs D (session_trans ps f) (session_done ps f) f' \<and>
    (session_done ps f < length (session_trans ps f) \<longrightarrow> (\<exists>r \<in> set rs. isl r))"
  using assms
proof (induction ps arbitrary: D f rs)
  case (Cons p ps)
  obtain r f1 where p: "perform p f = (r, f1)" by fastforce
  obtain qs where s: "session ps f1 = (qs, f')" and rs: "rs = r # qs"
    using Cons.prems(4) p by (auto split: prod.splits)
  let ?T = "plan_trans (plan_of p) f" and ?n = "plan_done (plan_of p) f"
  let ?T' = "session_trans ps f1" and ?n' = "session_done ps f1"
  have e: "session_trans (p # ps) f = ?T @ ?T'" "session_done (p # ps) f = ?n + ?n'" by (simp_all add: p)
  have "set (take (Suc ?n) ?T) \<subseteq> set (take (Suc (?n + ?n')) (?T @ ?T'))"
    by (auto intro: set_take_subset_set_take [of "Suc ?n" "Suc (?n + ?n')", THEN subsetD])
  then have t: "\<forall>ts \<in> begun ?T ?n. trans_ready fs ts"
    using Cons.prems(2) unfolding begun_def e by blast
  have b: "unat (jbd_sequence (fs_jbd fs)) + Suc (length D + ?n) < 2 ^ 32"
    using Cons.prems(3) by (simp add: p)
  from plan_reaches [OF plan_reads_only Cons.prems(1) t b, unfolded perform_plan, OF p]
  have R: "reached fs D ?T ?n f1" "?n < length ?T \<Longrightarrow> isl r" by blast+
  show ?case
  proof (cases "?n = length ?T")
    case True
    then have "live_at fs (D @ ?T) f1" using R(1) by (simp add: reached_def)
    from Cons.IH [OF this _ _ s] Cons.prems(2,3) True
    have "reached fs (D @ ?T) ?T' ?n' f' \<and> (?n' < length ?T' \<longrightarrow> (\<exists>r \<in> set qs. isl r))"
      unfolding begun_def e by (simp add: add.assoc)
    then show ?thesis unfolding e by (auto simp: reached_def True rs nth_append split: if_splits)
  next
    case False
    then have lt: "?n < length ?T" and c: "cut_at fs (D @ take ?n ?T) (?T ! ?n) f1"
      using R(1) by (simp_all add: reached_def)
    then have "dead f1" by (simp add: cut_at_def)
    from dead_session [OF this s] have "?n' = 0" "cut_at fs (D @ take ?n ?T) (?T ! ?n) f'"
      using cut_dead [OF c] by auto
    then show ?thesis unfolding e using lt R(2) by (auto simp: reached_def rs nth_append)
  qed
qed (simp add: reached_def)

text \<open>
  C3: Power loss in a session of file operations: whichever of the nine operations that change the
  volume run, in whatever order, and wherever the device stops, the next mount succeeds and finds
  exactly the first \<open>k\<close> transactions of the session in place, in order.  All transactions that
  succeeded are among them, at most the one the device stopped in is added, and when every operation
  reported success all of them are there.
\<close>

theorem session_survives:
  assumes "settled fs"
    "\<forall>ts \<in> begun (session_trans ps fs) (session_done ps fs). trans_ready fs ts"
    "unat (jbd_sequence (fs_jbd fs)) + session_done ps fs + unat (jbd_maxlen (fs_jbd fs)) < 2 ^ 32"
    "session ps fs = (rs, fs')"
  shows "\<exists>fs2 k. recover fs (fs_bd fs') = (Inr (), fs2) \<and>
    vol_agrees fs (disk fs2) (dwrites (disk fs) (concat (map (home_writes fs) (take k (session_trans ps fs))))) \<and>
    (k = session_done ps fs \<or> k = Suc (session_done ps fs) \<and> k \<le> length (session_trans ps fs)) \<and>
    ((\<forall>r \<in> set rs. r = Inr ()) \<longrightarrow> k = length (session_trans ps fs))"
proof -
  let ?T = "session_trans ps fs" and ?n = "session_done ps fs"
  have m: "unat (jbd_maxlen (fs_jbd fs)) + 4 < 2 ^ 31" "0 < unat (jbd_maxlen (fs_jbd fs))"
    using assms(1) by (auto simp: settled_def log_ok_def Let_def unat_gt_0 word_neq_0_conv)
  have l: "live_at fs [] fs"
    using settled_later [OF assms(1)] by (simp add: live_at_def in_place_def vol_agrees_def)
  have b: "unat (jbd_sequence (fs_jbd fs)) + Suc (length ([] :: jbd_trans list) + ?n) < 2 ^ 32"
    using assms(3) m(2) by simp
  from session_reaches [OF l assms(2) b assms(4)]
  have R: "reached fs [] ?T ?n fs'" "?n < length ?T \<Longrightarrow> \<exists>r \<in> set rs. isl r" by blast+
  show ?thesis
  proof (cases "?n = length ?T")
    case True
    then have "live_at fs ?T fs'" using R(1) by (simp add: reached_def)
    from live_recovered [OF this assms(1)] True show ?thesis by (auto simp: in_place_def intro!: exI [of _ ?n])
  next
    case False
    then have lt: "?n < length ?T" and c: "cut_at fs (take ?n ?T) (?T ! ?n) fs'"
      using R(1) by (simp_all add: reached_def)
    have t: "trans_ready fs (?T ! ?n)" using assms(2) lt by (simp add: begun_def take_Suc_conv_app_nth)
    have bound: "unat (jbd_sequence (fs_jbd fs)) + length (take ?n ?T) + unat (jbd_maxlen (fs_jbd fs)) < 2 ^ 32"
      using assms(3) lt by simp
    from cut_recovered [OF c t m(1) bound] obtain fs2 k where
      f: "recover fs (fs_bd fs') = (Inr (), fs2)" "vol_agrees fs (disk fs2) (in_place fs (take k ?T))"
      "k = ?n \<or> k = Suc ?n"
      using lt by (auto simp: take_Suc_conv_app_nth [symmetric])
    have "\<not> (\<forall>r \<in> set rs. r = Inr ())" using R(2) [OF lt] by (fastforce simp: isl_def)
    with f lt show ?thesis unfolding in_place_def by (intro exI [of _ fs2] exI [of _ k]) auto
  qed
qed

section \<open>An example\<close>

lemma plan_done_le: "plan_done p fs \<le> length (plan_trans p fs)"
proof (induction p arbitrary: fs)
  case (Reads m)
  obtain r fs' where m: "m fs = (r, fs')" by fastforce
  have "plan_done k fs' \<le> length (plan_trans k fs')" if "r = Inr k" for k
    by (rule Reads.IH [of "m fs" r]) (use rangeI [of m fs] in \<open>simp_all add: m that\<close>)
  then show ?case by (cases r) (simp_all add: plan_Reads m)
qed (simp_all split: prod.split sum.split)

lemma session_done_le: "session_done ps fs \<le> length (session_trans ps fs)"
  by (induction ps fs rule: session_done.induct) (simp_all add: add_mono plan_done_le)

lemma plan_rd:
  "plan_trans (rd m f) fs = (case m fs of (Inl _, _) \<Rightarrow> [] | (Inr x, fs1) \<Rightarrow> plan_trans (f x) fs1)"
  "plan_done (rd m f) fs = (case m fs of (Inl _, _) \<Rightarrow> 0 | (Inr x, fs1) \<Rightarrow> plan_done (f x) fs1)"
  by (simp_all add: rd_def plan_Reads bindE_def split: prod.split sum.split)

lemma plan_trans_forget: "plan_trans (forget k) = plan_trans k"
proof (induction k)
  case (Reads m)
  have "plan_trans (forget (Reads m)) fs = plan_trans (Reads m) fs" for fs
  proof -
    obtain r fs' where m: "m fs = (r, fs')" by fastforce
    have "plan_trans (forget k) = plan_trans k" if "r = Inr k" for k
      by (rule Reads.IH [of "m fs" r]) (use rangeI [of m fs] in \<open>simp_all add: m that\<close>)
    then show ?thesis by (cases r) (simp_all add: plan_Reads m)
  qed
  then show ?case by (rule ext)
qed (simp_all add: fun_eq_iff split: prod.split sum.split)

lemma write_plan_trans:
  assumes "ino \<noteq> 0" "bs_nat fs \<le> write_buf_size" "s_inodes_per_group (fs_sb fs) \<noteq> 0" "ino_group fs ino < fs_bgd_count fs"
    "extent_lookup_res fs (i_block inode) logical = Inr phys" "fst (read_inode_at ino fs) = Inr (b, iblk, off)"
  shows "plan_trans (write_plan inode ino logical data now) fs = [write_trans fs ino phys data (b, iblk, off) now]"
proof -
  obtain fs1 where x: "read_inode_at ino fs = (Inr (b, iblk, off), fs1)"
    using assms(6) by (cases "read_inode_at ino fs") auto
  note s = keepsD [OF keeps_read_at(1) x]
  show ?thesis
    using assms x
    by (simp add: write_plan_def plan_rd write_cap_def inode_group_in_range_def extent_lookup_def bindE_def
        write_trans_def same_but_bgd_fields [OF s] inode_time_same [OF s] split: prod.split sum.split)
qed

lemma file_session_trans:
  "session_trans [Write_block file_inode 12 0 data now] (file_fs k) =
     [write_trans (file_fs k) 12 24 data (file_block 6, 6, 384) now]"
proof -
  have p: "fst (read_inode_at 12 (file_fs k)) = Inr (file_block 6, 6, 384)" using file_inode_place [of k] by auto
  have g: "ino_group (file_fs k) 12 < fs_bgd_count (file_fs k)" by (simp add: ino_group_def)
  from write_plan_trans [OF _ _ _ g file_lookup p] show ?thesis by (simp add: plan_trans_forget write_buf_size_def)
qed

lemma file_settled: "settled (file_fs k)"
proof -
  have "be32 zero_buf 0 \<noteq> jbd_magic" by (simp add: be32_def zero_buf_def jbd_magic_def)
  moreover have "disk (file_fs k) (log_blk sample_jbd w) = zero_buf" if "w < 8" "0 < w" for w
    using that sample_until_log_block [of w k] by (auto simp: file_fs_log sample_log_blk)
  ultimately have "log_past (fs_jbd (file_fs k)) (disk (file_fs k))" by (auto simp: log_past_def)
  then show ?thesis
    using file_fs_journal [of k] by (simp add: settled_def file_fs_vol file_fs_log_ok)
qed

theorem session_survives_witness:
  "let fs = file_fs 4; ts = write_trans fs 12 24 (\<lambda>_. 7) (file_block 6, 6, 384) 99;
       res = session [Write_block file_inode 12 0 (\<lambda>_. 7) 99] fs in
   \<exists>fs2 k. recover fs (fs_bd (snd res)) = (Inr (), fs2) \<and> k \<le> 1 \<and>
     vol_agrees fs (disk fs2) (dwrites (disk fs) (concat (map (home_writes fs) (take k [ts]))))"
proof -
  let ?ps = "[Write_block file_inode 12 0 (\<lambda>_. 7) 99]" and ?fs = "file_fs 4"
  obtain rs fs' where r: "session ?ps ?fs = (rs, fs')" by fastforce
  note T = file_session_trans [of "\<lambda>_. 7" 99 4]
  have t: "\<forall>ts \<in> begun (session_trans ?ps ?fs) (session_done ?ps ?fs). trans_ready ?fs ts"
    unfolding T begun_def using file_write_ready(1) by simp
  have n: "session_done ?ps ?fs \<le> 1" using session_done_le [of ?ps ?fs] by (simp only: T) simp
  have b: "unat (jbd_sequence (fs_jbd ?fs)) + session_done ?ps ?fs + unat (jbd_maxlen (fs_jbd ?fs)) < 2 ^ 32"
    using n by (simp del: session_done.simps)
  from session_survives [OF file_settled t b r] obtain fs2 k where
    k: "recover ?fs (fs_bd fs') = (Inr (), fs2)"
    "vol_agrees ?fs (disk fs2) (dwrites (disk ?fs) (concat (map (home_writes ?fs) (take k (session_trans ?ps ?fs)))))"
    "k = session_done ?ps ?fs \<or> k \<le> length (session_trans ?ps ?fs)" by blast
  have "k \<le> 1" using k(3) n unfolding T by (auto simp del: session_done.simps)
  with k(1,2) show ?thesis unfolding Let_def r snd_conv T by blast
qed

end
