(* ===== verification/Sizes.thy ===== *)
theory Sizes
  imports Session "HOL-Library.Extended_Nat"
begin

text \<open>
  The transactions of the operations by number and size: what fits the journal's fixed array of
  blocks, and which operations are one transaction, hence atomic.
\<close>

section \<open>Plans with a bound\<close>

text \<open>Transactions of 1 to 8 blocks each, and at most \<open>n\<close> of them.\<close>

inductive small_plan :: "enat \<Rightarrow> ('c, 'a) plan \<Rightarrow> bool" where
  ret: "small_plan n (Ret x)"
| reads: "(\<And>fs k fs'. m fs = (Inr k, fs') \<Longrightarrow> small_plan n k) \<Longrightarrow> small_plan n (Reads m)"
| commit: "0 < length ts \<Longrightarrow> length ts \<le> trans_max_blocks \<Longrightarrow> small_plan n k \<Longrightarrow>
    small_plan (eSuc n) (Commit rc ts k)"

lemma small_plan_trans:
  "small_plan n p \<Longrightarrow> enat (length (plan_trans p fs)) \<le> n \<and>
     (\<forall>ts \<in> set (plan_trans p fs). 0 < length ts \<and> length ts \<le> trans_max_blocks)"
proof (induction arbitrary: fs rule: small_plan.induct)
  case (reads m n)
  obtain r fs' where m: "m fs = (r, fs')" by fastforce
  then show ?case
    using reads.IH by (cases r) (auto simp: plan_Reads zero_enat_def [symmetric])
next
  case (commit ts n k rc)
  obtain r fs' where c: "ext4_journal_commit ts fs = (r, fs')" by fastforce
  from commit.IH [of fs'] commit.hyps(1,2) show ?case
    by (cases r) (auto simp: c eSuc_enat [symmetric] zero_enat_def [symmetric])
qed (simp add: zero_enat_def [symmetric])

lemma small_rd: "(\<And>s x s'. m s = (Inr x, s') \<Longrightarrow> small_plan n (f x)) \<Longrightarrow> small_plan n (rd m f)"
  unfolding rd_def by (rule small_plan.reads) (auto simp: bindE_Inr_iff)

lemma small_forget: "small_plan n p \<Longrightarrow> small_plan n (forget p)"
proof (induction rule: small_plan.induct)
  case (reads m n)
  then show ?case unfolding forget.simps
    by (intro small_plan.reads) (auto simp: map_prod_def map_sum_def split: prod.splits sum.splits)
qed (auto intro: small_plan.intros)

lemma small_one: "0 < length ts \<Longrightarrow> length ts \<le> trans_max_blocks \<Longrightarrow> small_plan 1 (Commit rc ts (Ret x))"
  unfolding one_eSuc by (rule small_plan.commit [OF _ _ small_plan.ret])

lemma free_reads_length: "free_reads blk s = (Inr ts, s') \<Longrightarrow> length ts = 3"
  by (auto simp: free_reads_def Let_def bindE_Inr_iff)

lemma inode_reads_length: "inode_reads is_dir parent_ino ino now pdir s = (Inr ts, s') \<Longrightarrow> length ts = 6"
  by (auto simp: inode_reads_def Let_def bindE_Inr_iff)

lemma small_free_plans: "small_plan n k \<Longrightarrow> small_plan (enat (length blks) + n) (free_plans blks k)"
proof (induction blks)
  case (Cons blk blks)
  show ?case unfolding free_plans.simps
  proof (rule small_rd)
    fix s s' :: "'a ext4_fs" and ts
    assume "orX (free_reads blk) (-1) s = (Inr ts, s')"
    then have "length ts = 3" by (simp add: orX_Inr_iff free_reads_length)
    then show "small_plan (enat (length (blk # blks)) + n) (Commit (Some (-1)) ts (free_plans blks k))"
      using small_plan.commit [of ts, OF _ _ Cons.IH [OF Cons.prems]]
      by (simp add: trans_max_blocks_def eSuc_enat [symmetric] eSuc_plus_1 ac_simps)
  qed
qed (simp add: zero_enat_def [symmetric])

lemma small_unlink: "small_plan 1 (unlink_plan is_dir parent_ino ino now pdir)"
  unfolding unlink_plan_def
  by (rule small_rd, rule small_one) (auto dest: inode_reads_length simp: trans_max_blocks_def)

text \<open>The number of transactions of an operation; removing and truncating take one for each block.\<close>

fun max_trans :: "file_op \<Rightarrow> enat" where
  "max_trans (Make_dir _ _ _) = 2"
| "max_trans (Remove_dir _ _) = 2"
| "max_trans (Remove_file _ _) = \<infinity>"
| "max_trans (Truncate _ _ _) = \<infinity>"
| "max_trans _ = 1"

lemma small_two:
  "0 < length ts \<Longrightarrow> length ts \<le> trans_max_blocks \<Longrightarrow> small_plan 1 k \<Longrightarrow> small_plan 2 (Commit rc ts k)"
  using small_plan.commit [of ts 1 k] by (simp add: eSuc_plus_1)

lemma small_mkdir: "small_plan 2 (mkdir_plan parent_ino name now)"
  unfolding mkdir_plan_def Let_def
  by (auto intro!: small_rd small_two small_one simp: trans_max_blocks_def split: prod.split)

lemma small_rmdir: "small_plan 2 (rmdir_plan parent_ino dir_ino)"
proof -
  have "small_plan 2 (free_plans [phys] (unlink_plan True parent_ino dir_ino now pdir))" for phys now pdir
  proof -
    have "enat (length [phys]) + 1 = 2" by (simp add: one_enat_def numeral_eq_enat)
    with small_free_plans [OF small_unlink] show ?thesis by metis
  qed
  then show ?thesis unfolding rmdir_plan_def by (intro small_rd)
qed

lemma small_inf: "small_plan n k \<Longrightarrow> small_plan \<infinity> k"
  by (induction rule: small_plan.induct)
    (auto intro: small_plan.intros simp: small_plan.commit [where n = \<infinity>, simplified])

lemma small_inf_free: "small_plan \<infinity> k \<Longrightarrow> small_plan \<infinity> (free_plans blks k)"
  using small_free_plans [of \<infinity>] by simp

lemma small_remove: "small_plan \<infinity> (remove_plan parent_ino file_ino)"
  unfolding remove_plan_def
  by (intro small_rd small_inf_free small_inf [OF small_unlink])

lemma small_trunc: "(\<And>r. small_plan \<infinity> (k r)) \<Longrightarrow> small_plan \<infinity> (trunc_plan nblocks i ib dropped freed k)"
  by (induction nblocks i ib dropped freed k rule: trunc_plan.induct)
    (auto intro!: small_inf_free split: option.split prod.split)

lemma small_truncate: "small_plan \<infinity> (truncate_plan ino new_size now)"
proof -
  have "small_plan \<infinity> (Commit (Some (-1)) [b] (Ret ()))" for b
    by (rule small_inf, rule small_one) (simp_all add: trans_max_blocks_def)
  then show ?thesis
    unfolding truncate_plan_def
    by (auto intro!: small_rd small_trunc small_plan.ret split: prod.split)
qed

lemma xdir_size:
  assumes "length moved \<le> 1"
  shows "0 < length ([x, y] @ xdir_parents fs is_dir old_ino new_ino so sn now @ moved)"
    "length ([x, y] @ xdir_parents fs is_dir old_ino new_ino so sn now @ moved) \<le> trans_max_blocks"
proof -
  have "length (xdir_parents fs is_dir old_ino new_ino so sn now) \<le> 2" by (simp add: xdir_parents_def Let_def)
  then show "length ([x, y] @ xdir_parents fs is_dir old_ino new_ino so sn now @ moved) \<le> trans_max_blocks"
    using assms by (simp add: trans_max_blocks_def)
qed simp

lemma small_xdir: "small_plan 1 (xdir_plan old_ino file_ino new_ino name now)"
proof -
  have "length moved \<le> 1"
    if "(if is_dir_inode inode then bindE (xdir_moved_block inode file_ino new_ino) (\<lambda>m. retE [m]) else retE []) s = (Inr moved, s')"
    for inode s s' and moved :: "(u64 \<times> buf) list"
    using that by (auto simp: bindE_Inr_iff split: if_splits)
  then show ?thesis
    unfolding xdir_plan_def by (intro small_rd small_one xdir_size)
qed

lemma small_operation: "small_plan (max_trans p) (plan_of p)"
proof (cases p)
  case (Write_block inode ino logical data now)
  then show ?thesis
    by (auto simp: write_plan_def trans_max_blocks_def intro!: small_forget small_rd small_one split: prod.split)
next
  case (Extend_block inode ino data added now)
  then show ?thesis
    by (auto simp: extend_plan_def Let_def trans_max_blocks_def intro!: small_forget small_rd small_one split: prod.split)
next
  case (Create parent_ino name mode now)
  then show ?thesis
    by (auto simp: create_plan_def trans_max_blocks_def intro!: small_forget small_rd small_one split: prod.split)
next
  case (Rename_in parent_ino file_ino name)
  then show ?thesis
    by (auto simp: rename_plan_def trans_max_blocks_def intro!: small_rd small_one split: prod.split)
qed (simp_all add: small_forget small_mkdir small_rmdir small_remove small_truncate small_xdir)

section \<open>Properties\<close>

text \<open>
  C5: Every operation that changes the volume is a sequence of journal transactions and of reads, and
  every transaction it builds has between one block and the eight the journal takes; writing,
  appending, creating and both renames are one transaction, making and removing a directory at most
  two.
\<close>

theorem operations_fit_journal:
  "perform p = run_plan (plan_of p) \<and> reads_only (plan_of p) \<and>
   enat (length (plan_trans (plan_of p) fs)) \<le> max_trans p \<and>
   (\<forall>ts \<in> set (plan_trans (plan_of p) fs). 0 < length ts \<and> length ts \<le> trans_max_blocks)"
  using perform_plan [of p] plan_reads_only [of p] small_plan_trans [OF small_operation [of p], of fs] by metis

theorem operations_fit_journal_witness:
  "let ts = write_trans (file_fs 4) 12 24 (\<lambda>_. 7) (file_block 6, 6, 384) 99 in
   plan_trans (plan_of (Write_block file_inode 12 0 (\<lambda>_. 7) 99)) (file_fs 4) = [ts] \<and>
   0 < length ts \<and> length ts \<le> trans_max_blocks"
proof -
  let ?p = "Write_block file_inode 12 0 (\<lambda>_. 7) 99"
  have T: "plan_trans (plan_of ?p) (file_fs 4) = [write_trans (file_fs 4) 12 24 (\<lambda>_. 7) (file_block 6, 6, 384) 99]"
    using file_session_trans [of "\<lambda>_. 7" 99 4] by simp
  from operations_fit_journal [of ?p "file_fs 4"]
  have "\<forall>ts \<in> set (plan_trans (plan_of ?p) (file_fs 4)). 0 < length ts \<and> length ts \<le> trans_max_blocks" by blast
  then show ?thesis unfolding T Let_def by simp
qed

text \<open>
  C4: Writing and appending a block, creating a file and renaming within and between directories are
  atomic under power loss: wherever the device stops, the next mount succeeds and finds the volume
  with the whole operation done or, only if the operation reported an error, as it was before.
\<close>

theorem operation_atomic:
  assumes "max_trans p = 1" "settled fs" "\<forall>ts \<in> set (plan_trans (plan_of p) fs). trans_ready fs ts"
    "unat (jbd_sequence (fs_jbd fs)) + 1 + unat (jbd_maxlen (fs_jbd fs)) < 2 ^ 32" "perform p fs = (r, fs')"
  shows "\<exists>fs2. recover fs (fs_bd fs') = (Inr (), fs2) \<and>
    (vol_agrees fs (disk fs2) (dwrites (disk fs) (concat (map (home_writes fs) (plan_trans (plan_of p) fs)))) \<or>
     isl r \<and> vol_agrees fs (disk fs2) (disk fs))"
proof -
  let ?T = "plan_trans (plan_of p) fs" and ?n = "plan_done (plan_of p) fs"
  have T: "length ?T \<le> 1"
    using small_plan_trans [OF small_operation [of p], of fs] assms(1) by (simp add: one_enat_def)
  have l: "live_at fs [] fs"
    using settled_later [OF assms(2)] by (simp add: live_at_def in_place_def vol_agrees_def)
  have m: "unat (jbd_maxlen (fs_jbd fs)) + 4 < 2 ^ 31" "0 < unat (jbd_maxlen (fs_jbd fs))"
    using assms(2) by (auto simp: settled_def log_ok_def Let_def unat_gt_0 word_neq_0_conv)
  have n: "?n \<le> length ?T" by (rule plan_done_le)
  have t: "\<forall>ts \<in> begun ?T ?n. trans_ready fs ts" using assms(3) by (auto simp: begun_def dest: in_set_takeD)
  have b: "unat (jbd_sequence (fs_jbd fs)) + Suc (length ([] :: jbd_trans list) + ?n) < 2 ^ 32"
    using assms(4) m(2) n T by simp
  from plan_reaches [OF plan_reads_only l t b, unfolded perform_plan, OF assms(5)]
  have R: "reached fs [] ?T ?n fs'" "?n < length ?T \<Longrightarrow> isl r" by blast+
  show ?thesis
  proof (cases "?n = length ?T")
    case True
    then have "live_at fs ?T fs'" using R(1) by (simp add: reached_def)
    from live_recovered [OF this assms(2)] show ?thesis by (auto simp: in_place_def)
  next
    case False
    then obtain ts where ts: "?T = [ts]" "?n = 0" using n T by (cases ?T) auto
    then have "cut_at fs [] ts fs'" using R(1) by (simp add: reached_def)
    from cut_recovered [OF this _ m(1)] assms(3,4) ts R(2) show ?thesis by (auto simp: in_place_def)
  qed
qed

theorem operation_atomic_witness:
  "let fs = file_fs 4; res = perform (Write_block file_inode 12 0 (\<lambda>_. 7) 99) fs in
   \<exists>fs2. recover fs (fs_bd (snd res)) = (Inr (), fs2) \<and>
    (vol_agrees fs (disk fs2) (dwrites (disk fs) (home_writes fs (write_trans fs 12 24 (\<lambda>_. 7) (file_block 6, 6, 384) 99))) \<or>
     isl (fst res) \<and> vol_agrees fs (disk fs2) (disk fs))"
proof -
  let ?p = "Write_block file_inode 12 0 (\<lambda>_. 7) 99" and ?fs = "file_fs 4"
  obtain r fs' where r: "perform ?p ?fs = (r, fs')" by fastforce
  have T: "plan_trans (plan_of ?p) ?fs = [write_trans ?fs 12 24 (\<lambda>_. 7) (file_block 6, 6, 384) 99]"
    using file_session_trans [of "\<lambda>_. 7" 99 4] by simp
  have t: "\<forall>ts \<in> set (plan_trans (plan_of ?p) ?fs). trans_ready ?fs ts" unfolding T using file_write_ready(1) by simp
  from operation_atomic [OF _ file_settled t _ r, unfolded T] show ?thesis
    unfolding Let_def r snd_conv fst_conv by simp
qed

end
