(* ===== verification/Names83.thy ===== *)
theory Names83
  imports Dir
begin

text \<open>
  The translations of src/tools/tsr.c between ext4 and DOS: attributes, dates, paths, 8.3 names and
  their aliases, search patterns, and the look-ups that go through an alias.

  Names and paths are lists of bytes without the terminating zero.  The diagnostic counters of
  \<open>g_ff_capture\<close> are left out.
\<close>

section \<open>Attributes and dates\<close>

definition ext4_mode_to_dos_attr :: "u16 \<Rightarrow> byte \<Rightarrow> byte" where
  "ext4_mode_to_dos_attr mode first_ch =
     (if mode AND ext4_s_ifmt = ext4_s_ifdir then 0x10 else 0)
     OR (if mode AND 0x0080 = 0 then 0x01 else 0)
     OR (if first_ch = 0x2E then 0x02 else 0)"

definition is_leap_year :: "nat \<Rightarrow> bool" where
  "is_leap_year year =
     (if year mod 400 = 0 then True
      else if year mod 100 = 0 then False
      else year mod 4 = 0)"

definition year_days :: "nat \<Rightarrow> nat" where
  "year_days year = (if is_leap_year year then 366 else 365)"

definition month_days :: "nat \<Rightarrow> nat \<Rightarrow> nat" where
  "month_days year month =
     (if month = 2 \<and> is_leap_year year then 29
      else [31, 28, 31, 30, 31, 30, 31, 31, 30, 31, 30, 31] ! (month - 1))"

text \<open>The year loop with its iteration limit; the result is the rest of the days and the year.\<close>

function utd_years :: "nat \<Rightarrow> nat \<Rightarrow> nat \<Rightarrow> nat \<times> nat" where
  "utd_years days year iters =
     (if days < year_days year then (days, year)
      else if 200 < iters + 1 then (days - year_days year, year + 1)
      else utd_years (days - year_days year) (year + 1) (iters + 1))"
  by pat_completeness auto
termination
  by (relation "measure (\<lambda>(days, year, iters). days)") (auto simp: year_days_def split: if_splits)

declare utd_years.simps [simp del]

text \<open>The month loop; \<open>dim\<close> has twelve entries and the loop never looks past them.\<close>

function utd_months :: "nat \<Rightarrow> nat \<Rightarrow> nat \<Rightarrow> nat \<times> nat" where
  "utd_months days year month =
     (if 12 < month \<or> days < month_days year month then (days, month)
      else utd_months (days - month_days year month) year (month + 1))"
  by pat_completeness auto
termination
  by (relation "measure (\<lambda>(days, year, month). 13 - month)") auto

declare utd_months.simps [simp del]

definition unix_to_dos :: "u32 \<Rightarrow> u32" where
  "unix_to_dos unix_secs =
     (let days = unat (unix_secs div 86400); s = unix_secs mod 86400;
          (days, year) = utd_years days 1970 0;
          (days, month) = utd_months days year 1;
          day = word_of_nat days + 1 :: u16;
          hour = ucast (s div 3600) :: byte;
          mn = ucast ((s div 60) mod 60) :: byte;
          sc = ucast (s mod 60) :: byte;
          dos_date = (if year < 1980 then 0x0021
                      else push_bit 9 (word_of_nat (year - 1980)) OR push_bit 5 (word_of_nat month) OR day);
          dos_time = push_bit 11 (ucast hour) OR push_bit 5 (ucast mn) OR ucast (sc div 2) :: u16
      in push_bit 16 (ucast dos_date) OR ucast dos_time)"

section \<open>Paths\<close>

definition cstr_at :: "byte list \<Rightarrow> nat \<Rightarrow> byte" where
  "cstr_at s i = (if i < length s then s ! i else 0)"

definition path_char :: "byte \<Rightarrow> byte" where
  "path_char c = (if c = 0x5C then 0x2F else if 0x41 \<le> c \<and> c \<le> 0x5A then c - 0x41 + 0x61 else c)"

definition is_sep :: "byte \<Rightarrow> bool" where
  "is_sep c \<longleftrightarrow> c = 0x5C \<or> c = 0x2F"

text \<open>The part after the drive prefix, cut to \<open>out_size\<close> with the leading slash and the zero.\<close>

definition path_convert :: "byte list \<Rightarrow> nat \<Rightarrow> byte list" where
  "path_convert src out_size =
     (let src = (if src \<noteq> [] \<and> is_sep (hd src) then tl src else src)
      in 0x2F # map path_char (take (out_size - 2) src))"

definition dos_to_ext4_path :: "byte \<Rightarrow> byte list \<Rightarrow> nat \<Rightarrow> byte list option" where
  "dos_to_ext4_path drive src out_size =
     (if cstr_at src 0 \<noteq> drive \<or> cstr_at src 1 \<noteq> 0x3A then None
      else if out_size < 2 then None
      else Some (path_convert (drop 2 src) out_size))"

section \<open>8.3 names\<close>

definition upper :: "byte \<Rightarrow> byte" where
  "upper c = (if 0x61 \<le> c \<and> c \<le> 0x7A then c - 0x61 + 0x41 else c)"

fun lfn_hash_from :: "u16 \<Rightarrow> byte list \<Rightarrow> u16" where
  "lfn_hash_from h [] = h"
| "lfn_hash_from h (c # cs) = lfn_hash_from (h * 17 + ucast (upper c)) cs"

definition lfn_hash :: "byte list \<Rightarrow> u16" where
  "lfn_hash name = lfn_hash_from 0 name"

definition is_8_3_char :: "byte \<Rightarrow> bool" where
  "is_8_3_char c \<longleftrightarrow> (0x41 \<le> c \<and> c \<le> 0x5A) \<or> (0x30 \<le> c \<and> c \<le> 0x39) \<or>
     c = 0x5F \<or> c = 0x2D \<or> c = 0x7E"

definition safe_char :: "byte \<Rightarrow> bool" where
  "safe_char c \<longleftrightarrow> (0x41 \<le> c \<and> c \<le> 0x5A) \<or> (0x61 \<le> c \<and> c \<le> 0x7A) \<or> (0x30 \<le> c \<and> c \<le> 0x39) \<or>
     c = 0x5F \<or> c = 0x2D \<or> c = 0x7E"

definition dot_ch :: byte where "dot_ch = 0x2E"

text \<open>The scan of \<open>name_is_8_3_safe\<close>: \<open>None\<close> is a refusal, the value is where the dot is.\<close>

fun safe_scan :: "nat \<Rightarrow> nat option \<Rightarrow> byte list \<Rightarrow> nat option option" where
  "safe_scan i dot_at [] = Some dot_at"
| "safe_scan i dot_at (c # cs) =
     (if c = dot_ch then (if dot_at \<noteq> None then None else safe_scan (Suc i) (Some i) cs)
      else if \<not> safe_char c then None
      else safe_scan (Suc i) dot_at cs)"

definition name_is_8_3_safe :: "byte list \<Rightarrow> bool" where
  "name_is_8_3_safe name =
     (case safe_scan 0 None name of
        None \<Rightarrow> False
      | Some None \<Rightarrow> length name \<le> 8
      | Some (Some dot_at) \<Rightarrow> dot_at \<le> 8 \<and> length name - dot_at - 1 \<le> 3)"

definition pad :: "nat \<Rightarrow> byte list \<Rightarrow> byte list" where
  "pad n xs = xs @ replicate (n - length xs) 0x20"

text \<open>\<open>last_dot\<close>: where the last dot of the name is.\<close>

fun last_dot_from :: "nat \<Rightarrow> nat option \<Rightarrow> byte list \<Rightarrow> nat option" where
  "last_dot_from i d [] = d"
| "last_dot_from i d (c # cs) = last_dot_from (Suc i) (if c = dot_ch then Some i else d) cs"

definition hex_digit :: "u16 \<Rightarrow> byte" where
  "hex_digit d = (if d AND 0xF < 10 then 0x30 + ucast (d AND 0xF) else 0x41 + ucast (d AND 0xF) - 10)"

definition short_83 :: "byte list \<Rightarrow> byte list" where
  "short_83 name =
     (let base = takeWhile (\<lambda>c. c \<noteq> dot_ch) name; ext = drop 1 (dropWhile (\<lambda>c. c \<noteq> dot_ch) name)
      in pad 8 (map upper (take 8 base)) @ pad 3 (map upper (take 3 ext)))"

definition alias_base :: "byte list \<Rightarrow> byte list" where
  "alias_base base = (let cs = take 4 (filter is_8_3_char (map upper base)) in if cs = [] then [0x5F] else cs)"

definition alias_83 :: "byte list \<Rightarrow> byte list" where
  "alias_83 name =
     (let last_dot = last_dot_from 0 None name; h = lfn_hash name;
          base = (case last_dot of None \<Rightarrow> name | Some d \<Rightarrow> take d name);
          ext = (case last_dot of None \<Rightarrow> [] | Some d \<Rightarrow> drop (d + 1) name)
      in pad 4 (alias_base base)
         @ [0x7E, hex_digit (drop_bit 8 h), hex_digit (drop_bit 4 h), hex_digit h]
         @ pad 3 (take 3 (filter is_8_3_char (map upper ext))))"

definition to_8_3 :: "byte list \<Rightarrow> byte list" where
  "to_8_3 name = (if name_is_8_3_safe name then short_83 name else alias_83 name)"

section \<open>Searching\<close>

definition name83_matches_pattern :: "byte list \<Rightarrow> byte list \<Rightarrow> bool" where
  "name83_matches_pattern name83 pattern \<longleftrightarrow>
     (\<forall>i \<in> {..<11}. pattern ! i = 0x3F \<or> pattern ! i = name83 ! i)"

definition is_dot_entry :: "ext4_dir_entry \<Rightarrow> bool" where
  "is_dot_entry e \<longleftrightarrow> de_name_len e = 1 \<and> de_name e ! 0 = dot_ch \<or>
     de_name_len e = 2 \<and> de_name e ! 0 = dot_ch \<and> de_name e ! 1 = dot_ch"

definition alias_lookup_cb :: "byte list \<Rightarrow> ext4_dir_entry \<Rightarrow> u32 \<Rightarrow> int \<times> u32" where
  "alias_lookup_cb target e found =
     (if is_dot_entry e then (0, found)
      else if to_8_3 (de_name e) = target then (1, de_inode e)
      else (0, found))"

definition lookup_or_alias :: "'c ext4_fs \<Rightarrow> ext4_inode \<Rightarrow> byte list \<Rightarrow> u32" where
  "lookup_or_alias fs dir seg =
     (let next = ext4_dir_lookup fs dir seg
      in if next = 0 then snd (ext4_dir_iter fs dir (alias_lookup_cb (to_8_3 seg)) 0) else next)"

function alias_walk :: "u32 \<Rightarrow> byte list \<Rightarrow> 'c ext4_fs \<Rightarrow> u32 \<times> 'c ext4_fs" where
  "alias_walk cur_ino p fs =
     (if p = [] then (cur_ino, fs)
      else
        let seg = takeWhile (\<lambda>c. c \<noteq> slash) p; rest = dropWhile (\<lambda>c. c \<noteq> slash) p
        in if seg = [] then (cur_ino, fs)
           else if 256 \<le> length seg then (0, fs)
           else case ext4_inode_read cur_ino fs of
                  (Inl _, fs) \<Rightarrow> (0, fs)
                | (Inr inode, fs) \<Rightarrow>
                    if i_mode inode AND ext4_s_ifmt \<noteq> ext4_s_ifdir then (0, fs)
                    else let next = lookup_or_alias fs inode seg
                         in if next = 0 then (0, fs)
                            else alias_walk next (skip_slashes rest) fs)"
  by pat_completeness auto
termination
proof (relation "measure (\<lambda>(cur, p, fs). length p)", goal_cases)
  case 1
  show ?case by simp
next
  case (2 cur_ino p fs seg rest)
  have "length (skip_slashes rest) \<le> length rest" by (rule length_dropWhile_le)
  moreover have "length p = length seg + length rest"
    using 2 by (metis length_append takeWhile_dropWhile_id)
  moreover have "0 < length seg" using 2 by simp
  ultimately have "length (skip_slashes rest) < length p" by linarith
  then show ?case by simp
qed

declare alias_walk.simps [simp del]

definition path_lookup_with_alias :: "byte list \<Rightarrow> 'c ext4_fs \<Rightarrow> u32 \<times> 'c ext4_fs" where
  "path_lookup_with_alias path fs = alias_walk 2 (skip_slashes path) fs"

lemma alias_walk_same: "same_but_bgd fs (snd (alias_walk cur p fs))"
proof (induction cur p fs rule: alias_walk.induct)
  case (1 cur p fs)
  obtain r fs1 where r: "ext4_inode_read cur fs = (r, fs1)" by fastforce
  note s = inode_read_same [OF r]
  show ?case
    using s "1.IH" [OF _ refl refl _ _ r [symmetric]] r
    by (subst alias_walk.simps) (auto simp: Let_def split: sum.split intro: same_but_bgd_trans)
qed

text \<open>The search state of \<open>find_iter_cb\<close>; \<open>fi_hit\<close> is the entry found with its 8.3 name.\<close>

record find_state =
  fi_target :: u16
  fi_current :: u16
  fi_pattern :: "byte list option"
  fi_hit :: "(ext4_dir_entry \<times> byte list) option"

definition find_iter_cb :: "ext4_dir_entry \<Rightarrow> find_state \<Rightarrow> int \<times> find_state" where
  "find_iter_cb e s =
     (if is_dot_entry e then (0, s)
      else
        let name83 = to_8_3 (de_name e)
        in if (case fi_pattern s of None \<Rightarrow> False | Some p \<Rightarrow> \<not> name83_matches_pattern name83 p) then (0, s)
           else if fi_current s = fi_target s then (1, s\<lparr>fi_hit := Some (e, name83)\<rparr>)
           else (0, s\<lparr>fi_current := fi_current s + 1\<rparr>))"

text \<open>One field of the search pattern: the characters, whether one was literal, whether a star
  ended it.\<close>

fun pattern_field :: "nat \<Rightarrow> byte list \<Rightarrow> byte list \<times> bool \<times> bool" where
  "pattern_field 0 cs = ([], False, False)"
| "pattern_field (Suc n) [] = ([], False, False)"
| "pattern_field (Suc n) (c # cs) =
     (if c = 0x2A then ([], False, True)
      else case pattern_field n cs of (ps, lit, star) \<Rightarrow>
        if c = 0x3F then (0x3F # ps, lit, star) else (upper c # ps, True, star))"

definition fill_field :: "nat \<Rightarrow> byte list \<times> bool \<times> bool \<Rightarrow> byte list" where
  "fill_field n f = (case f of (ps, lit, star) \<Rightarrow> ps @ replicate (n - length ps) (if star then 0x3F else 0x20))"

text \<open>Where the last path component starts.\<close>

fun base_from :: "nat \<Rightarrow> nat \<Rightarrow> byte list \<Rightarrow> nat" where
  "base_from i b [] = b"
| "base_from i b (c # cs) = base_from (Suc i) (if is_sep c then i + 1 else b) cs"

text \<open>The pattern compiled from the path; \<open>None\<close> matches everything.  A path component without
  a dot leaves the extension open.\<close>

definition find_pattern :: "byte list \<Rightarrow> byte list option" where
  "find_pattern path =
     (let src = take 80 path;
          base = drop (base_from 0 (if 2 \<le> length src \<and> src ! 1 = 0x3A then 2 else 0) src) src;
          dot_at = last_dot_from 0 None base;
          name = pattern_field 8 (case dot_at of None \<Rightarrow> base | Some d \<Rightarrow> take d base);
          ext = (case dot_at of None \<Rightarrow> (replicate 3 0x3F, False, True)
                 | Some d \<Rightarrow> pattern_field 3 (drop (d + 1) base))
      in if base = [] \<or> \<not> (fst (snd name) \<or> fst (snd ext)) then None
         else Some (fill_field 8 name @ fill_field 3 ext))"

end
