(* ===== verification/Console.thy ===== *)
theory Console
  imports Names83
begin

text \<open>
  Text in and out of the command line programs: the conversions of \<open>printf\<close> and \<open>strtoul\<close> that they
  use.  Output is the list of the bytes written to the standard output.  A number that was printed
  in decimal, or in hexadecimal with the prefix 0x, is read back by \<open>strtoul\<close> with base 0.
\<close>

section \<open>printf\<close>

definition ascii :: "string \<Rightarrow> byte list" where
  "ascii s = map of_char s"

definition newline :: byte where "newline = 0x0A"

text \<open>The digits of a number, most significant first.\<close>

function digits_in :: "nat \<Rightarrow> nat \<Rightarrow> nat list" where
  "digits_in base n = (if base < 2 \<or> n < base then [n] else digits_in base (n div base) @ [n mod base])"
  by pat_completeness auto
termination
  by (relation "measure snd") auto

declare digits_in.simps [simp del]

definition digit_char :: "nat \<Rightarrow> byte" where
  "digit_char d = (if d < 10 then 0x30 + word_of_nat d else 0x61 + word_of_nat (d - 10))"

definition number :: "nat \<Rightarrow> nat \<Rightarrow> byte list" where
  "number base n = map digit_char (digits_in base n)"

abbreviation dec :: "nat \<Rightarrow> byte list" where "dec \<equiv> number 10"
abbreviation hex :: "nat \<Rightarrow> byte list" where "hex \<equiv> number 16"
abbreviation oct :: "nat \<Rightarrow> byte list" where "oct \<equiv> number 8"

definition sdec :: "int \<Rightarrow> byte list" where
  "sdec i = (if i < 0 then 0x2D # dec (nat (- i)) else dec (nat i))"

text \<open>Padded on the left to a width; \<open>%-15s\<close> pads on the right.\<close>

definition pad_left :: "byte \<Rightarrow> nat \<Rightarrow> byte list \<Rightarrow> byte list" where
  "pad_left c w s = replicate (w - length s) c @ s"

definition pad_right :: "nat \<Rightarrow> byte list \<Rightarrow> byte list" where
  "pad_right w s = s @ replicate (w - length s) 0x20"

abbreviation hex0 :: "nat \<Rightarrow> nat \<Rightarrow> byte list" where "hex0 w n \<equiv> pad_left 0x30 w (hex n)"

text \<open>\<open>%s\<close> stops at the zero.\<close>

definition cstr :: "byte list \<Rightarrow> byte list" where
  "cstr s = takeWhile (\<lambda>c. c \<noteq> 0) s"

text \<open>\<open>isprint\<close> in the C locale.\<close>

definition printable :: "byte \<Rightarrow> bool" where
  "printable c \<longleftrightarrow> 0x20 \<le> c \<and> c \<le> 0x7E"

section \<open>strtoul with base 0\<close>

definition digit_of :: "nat \<Rightarrow> byte \<Rightarrow> nat option" where
  "digit_of base c =
     (let u = upper c;
          v = (if 0x30 \<le> c \<and> c \<le> 0x39 then unat c - 0x30
               else if 0x41 \<le> u \<and> u \<le> 0x5A then unat u - 0x41 + 10 else 36)
      in if v < base then Some v else None)"

fun digits_value :: "nat \<Rightarrow> nat \<Rightarrow> byte list \<Rightarrow> nat" where
  "digits_value base n [] = n"
| "digits_value base n (c # cs) =
     (case digit_of base c of None \<Rightarrow> n | Some v \<Rightarrow> digits_value base (n * base + v) cs)"

text \<open>
  The result has the width of \<open>unsigned long\<close>: 32 bits under DOS, 64 on the host.  A value that does
  not fit gives the greatest one.
\<close>

definition is_space :: "byte \<Rightarrow> bool" where
  "is_space c \<longleftrightarrow> c = 0x20 \<or> 0x09 \<le> c \<and> c \<le> 0x0D"

definition unsigned_value :: "byte list \<Rightarrow> nat" where
  "unsigned_value a =
     (if cstr_at a 0 = 0x30 \<and> upper (cstr_at a 1) = 0x58 \<and> digit_of 16 (cstr_at a 2) \<noteq> None
      then digits_value 16 0 (drop 2 a)
      else if cstr_at a 0 = 0x30 then digits_value 8 0 a
      else digits_value 10 0 a)"

definition strtoul0 :: "byte list \<Rightarrow> 'a::len word" where
  "strtoul0 a =
     (let a = dropWhile is_space a; neg = (cstr_at a 0 = 0x2D);
          n = unsigned_value (if neg \<or> cstr_at a 0 = 0x2B then drop 1 a else a)
      in if 2 ^ LENGTH('a) \<le> n then - 1 else if neg then - word_of_nat n else word_of_nat n)"

section \<open>Reading back what was printed\<close>

lemma digits_small: "2 \<le> base \<Longrightarrow> d \<in> set (digits_in base n) \<Longrightarrow> d < base"
proof (induction base n rule: digits_in.induct)
  case (1 base n)
  show ?case
  proof (cases "n < base")
    case True
    then show ?thesis using 1 by (subst (asm) digits_in.simps) simp
  next
    case False
    then show ?thesis using 1 by (subst (asm) digits_in.simps) (auto split: if_splits)
  qed
qed

lemma digit_of_char: "d < base \<Longrightarrow> base \<le> 16 \<Longrightarrow> digit_of base (digit_char d) = Some d"
proof -
  assume a: "d < base" "base \<le> 16"
  have "\<forall>d \<in> {..<16}. (let v = (if 0x30 \<le> digit_char d \<and> digit_char d \<le> 0x39 then unat (digit_char d) - 0x30
      else if 0x41 \<le> upper (digit_char d) \<and> upper (digit_char d) \<le> 0x5A then unat (upper (digit_char d)) - 0x41 + 10 else 36)
      in v = d)" by (simp add: lessThan_nat_numeral lessThan_Suc digit_char_def upper_def)
  then show ?thesis using a by (simp add: digit_of_def Let_def)
qed

lemma digits_value_append:
  "list_all (\<lambda>d. d < base) ds \<Longrightarrow> base \<le> 16 \<Longrightarrow>
   digits_value base n (map digit_char ds @ cs) = digits_value base (foldl (\<lambda>n d. n * base + d) n ds) cs"
  by (induction ds arbitrary: n) (simp_all add: digit_of_char)

lemma foldl_digits: "2 \<le> base \<Longrightarrow> foldl (\<lambda>n d. n * base + d) 0 (digits_in base n) = n"
proof (induction base n rule: digits_in.induct)
  case (1 base n)
  then show ?case by (subst digits_in.simps) simp
qed

lemma number_value:
  "2 \<le> base \<Longrightarrow> base \<le> 16 \<Longrightarrow> digits_value base 0 (number base n @ cs) = digits_value base n cs"
  unfolding number_def
  using digits_value_append [of base "digits_in base n" 0 cs] digits_small [of base _ n] foldl_digits [of base n]
  by (simp add: list_all_iff)

lemma digits_nonempty [simp]: "digits_in base n \<noteq> []"
  by (subst digits_in.simps) simp

lemma digits_head: "2 \<le> base \<Longrightarrow> 0 < n \<Longrightarrow> hd (digits_in base n) \<noteq> 0"
proof (induction base n rule: digits_in.induct)
  case (1 base n)
  show ?case
  proof (cases "n < base")
    case True
    then show ?thesis using 1 by (subst digits_in.simps) simp
  next
    case False
    then show ?thesis using 1 by (subst digits_in.simps) (simp add: div_greater_zero_iff)
  qed
qed


text \<open>A decimal digit, as a character, is neither blank nor sign.\<close>

lemma decimal_char:
  "d < 10 \<Longrightarrow> \<not> is_space (digit_char d) \<and> digit_char d \<noteq> 0x2D \<and> digit_char d \<noteq> 0x2B \<and> (digit_char d = 0x30) = (d = 0)"
proof -
  have "\<forall>d \<in> {..<10}. \<not> is_space (digit_char d) \<and> digit_char d \<noteq> 0x2D \<and> digit_char d \<noteq> 0x2B \<and> (digit_char d = 0x30) = (d = 0)"
    by (simp add: lessThan_nat_numeral lessThan_Suc digit_char_def is_space_def)
  then show "d < 10 \<Longrightarrow> ?thesis" by blast
qed

lemma strtoul_unsigned:
  assumes "d < 10"
  shows "strtoul0 (digit_char d # a) =
     (let n = unsigned_value (digit_char d # a) in if 2 ^ LENGTH('a) \<le> n then - 1 else word_of_nat n :: 'a::len word)"
  using decimal_char [OF assms] by (simp add: strtoul0_def cstr_at_def Let_def)

lemma decimal_value: "unsigned_value (dec n) = n"
proof (cases "n = 0")
  case True
  have "dec 0 = [0x30]" by (simp add: number_def digits_in.simps digit_char_def)
  then show ?thesis by (simp add: True unsigned_value_def cstr_at_def digit_of_def)
next
  case False
  obtain d ds where d: "digits_in 10 n = d # ds" by (cases "digits_in 10 n") simp_all
  have "d < 10" using digits_small [of 10 d n] d by simp
  moreover have "d \<noteq> 0" using digits_head [of 10 n] False d by simp
  ultimately have "cstr_at (dec n) 0 \<noteq> 0x30" using decimal_char by (simp add: number_def d cstr_at_def)
  then show ?thesis using number_value [of 10 n "[]"] by (simp add: unsigned_value_def)
qed

lemma zeros_value: "digits_value 16 0 (replicate k 0x30 @ cs) = digits_value 16 0 cs"
  by (induction k) (simp_all add: digit_of_def)

lemma hex_value: "digits_value 16 0 (hex0 w n) = n"
  using number_value [of 16 n "[]"] by (simp add: pad_left_def zeros_value)

lemma hex_head: "\<exists>d a. hex0 w n = digit_char d # a \<and> d < 16"
proof (cases "w - length (hex n)")
  case 0
  obtain d ds where d: "digits_in 16 n = d # ds" by (cases "digits_in 16 n") simp_all
  with digits_small [of 16 d n] 0 show ?thesis by (auto simp: pad_left_def number_def)
next
  case (Suc k)
  have "(0x30 :: byte) = digit_char 0" by (simp add: digit_char_def)
  with Suc show ?thesis by (auto simp: pad_left_def intro!: exI [of _ 0])
qed

lemma prefixed_value: "unsigned_value (0x30 # 0x78 # hex0 w n) = n"
proof -
  obtain d a where d: "hex0 w n = digit_char d # a" "d < 16" using hex_head by blast
  have "digit_of 16 (cstr_at (0x30 # 0x78 # hex0 w n) 2) = Some d"
    using digit_of_char [OF d(2)] by (simp add: cstr_at_def d(1))
  then show ?thesis using hex_value [of w n] by (simp add: unsigned_value_def cstr_at_def upper_def)
qed

section \<open>Properties\<close>

text \<open>
  A number printed in decimal, or in hexadecimal behind 0x and padded with zeros to any width, and
  given back as an argument is read as the same number.
\<close>

theorem printed_number_read_back:
  "strtoul0 (dec (unat w)) = w \<and> strtoul0 (ascii ''0x'' @ hex0 k (unat w)) = (w :: 'a::len word)"
proof -
  have less: "\<not> 2 ^ LENGTH('a) \<le> unat w" by (simp add: not_le)
  obtain d ds where d: "digits_in 10 (unat w) = d # ds" by (cases "digits_in 10 (unat w)") simp_all
  have 1: "d < 10" using digits_small [of 10 d "unat w"] d by simp
  have "dec (unat w) = digit_char d # map digit_char ds" by (simp add: number_def d)
  with strtoul_unsigned [OF 1, of "map digit_char ds", where 'a = 'a] decimal_value [of "unat w"] less
  have "strtoul0 (dec (unat w)) = w" by (simp add: Let_def)
  moreover have "ascii ''0x'' = [0x30, 0x78]" by (simp add: ascii_def of_char_def)
  moreover have "(0x30 :: byte) = digit_char 0" by (simp add: digit_char_def)
  ultimately show ?thesis
    using strtoul_unsigned [of 0 "0x78 # hex0 k (unat w)", where 'a = 'a] prefixed_value [of k "unat w"] less
    by (simp add: Let_def)
qed

end
