(* ===== verification/Redirector.thy ===== *)
theory Redirector
  imports Names83 Rename
begin

text \<open>
  The DOS redirector of src/tools/tsr.c: the table of open files and the INT 2Fh AH=11h
  subfunctions that work on them and on the mounted file system.

  A handler gets the registers and the driver's state and gives both back; an error is the DOS
  error code with the carry flag set.  Far memory is modelled by what the handlers touch of it: the
  fields of the system file table entry that ES:DI points to, the qualified paths of the DOS swap
  area and the user's transfer buffer.  A write through \<open>g_write_buf\<close> past its end is the
  outcome \<open>None\<close> of \<open>rem_write\<close>.  The diagnostic captures are left out.
\<close>

section \<open>State\<close>

text \<open>A far address: segment and offset.\<close>

type_synonym far = "u16 \<times> u16"

record open_slot =
  os_used :: bool
  os_seg :: u16
  os_off :: u16
  os_num :: u32
  os_inode :: ext4_inode

record sft =
  sf_ref_count :: u16
  sf_open_mode :: u16
  sf_attr :: byte
  sf_devinfo :: u16
  sf_time :: u16
  sf_date :: u16
  sf_size :: u32
  sf_position :: u32
  sf_uid :: u16
  sf_pid :: u16

text \<open>The FAT directory entry a search leaves in the swap area.\<close>

record dos_dirent =
  dd_name :: "byte list"
  dd_attrib :: byte
  dd_time :: u16
  dd_date :: u16
  dd_size :: u32

text \<open>
  \<open>rd_esdi\<close> is the output buffer of the name qualification and \<open>rd_cds_flags\<close> the flag word of
  the current directory structure claimed for the drive.  \<open>rd_vec2f\<close> and \<open>rd_vec21\<close> are the two
  interrupt vectors as DOS has them, \<open>rd_my2f\<close> and \<open>rd_my21\<close> the addresses of the driver's
  handlers, \<open>rd_prev2f\<close> and \<open>rd_prev21\<close> what the vectors held before it was installed.
  \<open>rd_counts\<close> is the array of call counters, \<open>rd_capture\<close> the address of the capture structure.
\<close>

record 'c redir =
  rd_fs :: "'c ext4_fs"
  rd_ready :: bool
  rd_open :: "open_slot list"
  rd_sft :: "u16 \<times> u16 \<Rightarrow> sft"
  rd_user :: buf
  rd_wbuf :: buf
  rd_dirent :: dos_dirent
  rd_dm_drive :: byte
  rd_dm_entry :: u16
  rd_dm_attr :: byte
  rd_sattr :: byte
  rd_drive :: byte
  rd_index :: byte
  rd_safe_bs :: u32
  rd_safe_blocks :: u32
  rd_safe_free :: u32
  rd_esdi :: buf
  rd_vec2f :: far
  rd_vec21 :: far
  rd_my2f :: far
  rd_my21 :: far
  rd_prev2f :: far
  rd_prev21 :: far
  rd_counts :: "u16 list"
  rd_capture :: far
  rd_cds_flags :: "u16 option"
  rd_psp :: u16

record regs =
  rg_ax :: u16
  rg_bx :: u16
  rg_cx :: u16
  rg_dx :: u16
  rg_si :: u16
  rg_di :: u16
  rg_es :: u16
  rg_carry :: bool

definition dos_err_file_not_found :: u16 where "dos_err_file_not_found = 0x02"
definition dos_err_no_more_files :: u16 where "dos_err_no_more_files = 0x12"
definition dos_err_write_protect :: u16 where "dos_err_write_protect = 0x13"

definition max_open_slots :: nat where "max_open_slots = 8"

section \<open>Open files\<close>

definition slot_is :: "u16 \<Rightarrow> u16 \<Rightarrow> open_slot \<Rightarrow> bool" where
  "slot_is seg off s \<longleftrightarrow> os_used s \<and> os_seg s = seg \<and> os_off s = off"

fun first_index :: "(open_slot \<Rightarrow> bool) \<Rightarrow> nat \<Rightarrow> open_slot list \<Rightarrow> nat option" where
  "first_index P i [] = None"
| "first_index P i (s # ss) = (if P s then Some i else first_index P (Suc i) ss)"

definition find_open_slot :: "u16 \<Rightarrow> u16 \<Rightarrow> open_slot list \<Rightarrow> nat option" where
  "find_open_slot seg off slots = first_index (slot_is seg off) 0 slots"

definition alloc_open_slot :: "u16 \<Rightarrow> u16 \<Rightarrow> open_slot list \<Rightarrow> nat option" where
  "alloc_open_slot seg off slots =
     (case find_open_slot seg off slots of
        Some i \<Rightarrow> Some i
      | None \<Rightarrow> first_index (\<lambda>s. \<not> os_used s) 0 slots)"

section \<open>Steps of a handler\<close>

abbreviation slot_upd :: "nat \<Rightarrow> (open_slot \<Rightarrow> open_slot) \<Rightarrow> 'c redir \<Rightarrow> 'c redir" where
  "slot_upd i f d \<equiv> d\<lparr>rd_open := (rd_open d)[i := f (rd_open d ! i)]\<rparr>"

definition release_slot :: "nat \<Rightarrow> 'c redir \<Rightarrow> 'c redir" where
  "release_slot i = slot_upd i (\<lambda>s. s\<lparr>os_used := False\<rparr>)"

definition sft_upd :: "u16 \<times> u16 \<Rightarrow> (sft \<Rightarrow> sft) \<Rightarrow> 'c redir \<Rightarrow> 'c redir" where
  "sft_upd p f d = d\<lparr>rd_sft := (rd_sft d)(p := f (rd_sft d p))\<rparr>"

text \<open>A file-system operation inside a handler; \<open>failed\<close> is the DOS error it turns into.\<close>

definition fsE :: "u16 \<Rightarrow> ('c ext4_fs, 'a) op \<Rightarrow> 'c redir \<Rightarrow> (u16 + 'a) \<times> 'c redir" where
  "fsE failed m d =
     (case m (rd_fs d) of
        (Inl _, fs) \<Rightarrow> (Inl failed, d\<lparr>rd_fs := fs\<rparr>)
      | (Inr x, fs) \<Rightarrow> (Inr x, d\<lparr>rd_fs := fs\<rparr>))"

definition bindR ::
  "('s \<Rightarrow> (u16 + 'a) \<times> 's) \<Rightarrow> ('a \<Rightarrow> 's \<Rightarrow> (u16 + 'b) \<times> 's) \<Rightarrow> 's \<Rightarrow> (u16 + 'b) \<times> 's" where
  "bindR m f s = (case m s of (Inl e, s') \<Rightarrow> (Inl e, s') | (Inr x, s') \<Rightarrow> f x s')"

definition retR :: "'a \<Rightarrow> 's \<Rightarrow> (u16 + 'a) \<times> 's" where
  "retR x s = (Inr x, s)"

definition checkR :: "('s \<Rightarrow> bool) \<Rightarrow> u16 \<Rightarrow> 's \<Rightarrow> (u16 + unit) \<times> 's" where
  "checkR ok e s = (if ok s then Inr () else Inl e, s)"

definition getR :: "('s \<Rightarrow> u16 + 'a) \<Rightarrow> 's \<Rightarrow> (u16 + 'a) \<times> 's" where
  "getR f s = (f s, s)"

definition modR :: "('s \<Rightarrow> 's) \<Rightarrow> 's \<Rightarrow> (u16 + unit) \<times> 's" where
  "modR f s = (Inr (), f s)"

text \<open>What is done when a step fails, before the error is returned.\<close>

definition undoR :: "('s \<Rightarrow> (u16 + 'a) \<times> 's) \<Rightarrow> ('s \<Rightarrow> 's) \<Rightarrow> 's \<Rightarrow> (u16 + 'a) \<times> 's" where
  "undoR m f s = (case m s of (Inl e, s') \<Rightarrow> (Inl e, f s') | (Inr x, s') \<Rightarrow> (Inr x, s'))"

text \<open>The registers on return: the error code and the carry flag, or the results.\<close>

definition reply :: "regs \<Rightarrow> ('c redir \<Rightarrow> (u16 + (regs \<Rightarrow> regs)) \<times> 'c redir) \<Rightarrow> 'c redir \<Rightarrow> regs \<times> 'c redir" where
  "reply r m d =
     (case m d of
        (Inl e, d') \<Rightarrow> (r\<lparr>rg_ax := e, rg_carry := True\<rparr>, d')
      | (Inr f, d') \<Rightarrow> ((f r)\<lparr>rg_carry := False\<rparr>, d'))"

section \<open>Paths\<close>

definition path_buf_size :: nat where "path_buf_size = 128"

definition pathR :: "byte list \<Rightarrow> 'c redir \<Rightarrow> (u16 + byte list) \<times> 'c redir" where
  "pathR src = getR (\<lambda>d.
     if \<not> rd_ready d then Inl dos_err_file_not_found
     else case dos_to_ext4_path (rd_drive d) src path_buf_size of
        None \<Rightarrow> Inl dos_err_file_not_found
      | Some p \<Rightarrow> Inr p)"

definition aliasR :: "byte list \<Rightarrow> 'c redir \<Rightarrow> (u16 + u32) \<times> 'c redir" where
  "aliasR path d = (case path_lookup_with_alias path (rd_fs d) of (ino, fs) \<Rightarrow> (Inr ino, d\<lparr>rd_fs := fs\<rparr>))"

definition plainR :: "byte list \<Rightarrow> 'c redir \<Rightarrow> (u16 + u32) \<times> 'c redir" where
  "plainR path d = (case ext4_path_lookup path (rd_fs d) of (ino, fs) \<Rightarrow> (Inr ino, d\<lparr>rd_fs := fs\<rparr>))"

text \<open>\<open>base_idx\<close>: one past the last slash.\<close>

definition base_idx :: "byte list \<Rightarrow> nat" where
  "base_idx path = length path - length (takeWhile (\<lambda>c. c \<noteq> slash) (rev path))"

definition base_name :: "byte list \<Rightarrow> byte list" where
  "base_name path = drop (base_idx path) path"

text \<open>The parent is resolved without the alias fall-back.\<close>

definition parentR :: "u16 \<Rightarrow> byte list \<Rightarrow> 'c redir \<Rightarrow> (u16 + u32) \<times> 'c redir" where
  "parentR missing path =
     (if base_idx path \<le> 1 then retR 2
      else bindR (plainR (take 127 (take (base_idx path - 1) path))) (\<lambda>ino.
           bindR (checkR (\<lambda>_. ino \<noteq> 0) missing) (\<lambda>_. retR ino)))"

definition existingR :: "byte list \<Rightarrow> 'c redir \<Rightarrow> (u16 + u32) \<times> 'c redir" where
  "existingR path =
     bindR (aliasR path) (\<lambda>ino.
     bindR (checkR (\<lambda>_. ino \<noteq> 0) dos_err_file_not_found) (\<lambda>_. retR ino))"

definition tsr_now :: u32 where "tsr_now = 0x6A000000"

section \<open>Directories and names\<close>

definition rem_rmdir :: "byte list \<Rightarrow> regs \<Rightarrow> 'c redir \<Rightarrow> regs \<times> 'c redir" where
  "rem_rmdir src r = reply r (
     bindR (pathR src) (\<lambda>path.
     bindR (existingR path) (\<lambda>dir_ino.
     bindR (parentR dos_err_file_not_found path) (\<lambda>parent_ino.
     bindR (fsE dos_err_write_protect (ext4_dir_remove parent_ino dir_ino)) (\<lambda>_.
     retR id)))))"

definition rem_delete :: "byte list \<Rightarrow> regs \<Rightarrow> 'c redir \<Rightarrow> regs \<times> 'c redir" where
  "rem_delete src r = reply r (
     bindR (pathR src) (\<lambda>path.
     bindR (existingR path) (\<lambda>file_ino.
     bindR (parentR dos_err_file_not_found path) (\<lambda>parent_ino.
     bindR (fsE dos_err_write_protect (ext4_file_remove parent_ino file_ino)) (\<lambda>_.
     retR id)))))"

definition rem_mkdir :: "byte list \<Rightarrow> regs \<Rightarrow> 'c redir \<Rightarrow> regs \<times> 'c redir" where
  "rem_mkdir src r = reply r (
     bindR (pathR src) (\<lambda>path.
     bindR (aliasR path) (\<lambda>ino.
     bindR (checkR (\<lambda>_. ino = 0) 5) (\<lambda>_.
     bindR (parentR dos_err_file_not_found path) (\<lambda>parent_ino.
     bindR (checkR (\<lambda>_. base_name path \<noteq> []) dos_err_file_not_found) (\<lambda>_.
     bindR (fsE dos_err_write_protect (ext4_dir_create parent_ino (base_name path) tsr_now)) (\<lambda>_.
     retR id)))))))"

text \<open>The new name comes from the second path of the swap area, converted on the spot.\<close>

definition rem_rename :: "byte list \<Rightarrow> byte list \<Rightarrow> regs \<Rightarrow> 'c redir \<Rightarrow> regs \<times> 'c redir" where
  "rem_rename src dsrc r = reply r (
     bindR (getR (\<lambda>d. if cstr_at dsrc 0 \<noteq> rd_drive d \<or> cstr_at dsrc 1 \<noteq> 0x3A then Inl dos_err_file_not_found
                  else Inr (path_convert (drop 2 dsrc) 128))) (\<lambda>dst.
     bindR (pathR src) (\<lambda>path.
     bindR (existingR path) (\<lambda>file_ino.
     bindR (parentR dos_err_file_not_found path) (\<lambda>parent_ino.
     bindR (aliasR dst) (\<lambda>ino.
     bindR (checkR (\<lambda>_. ino = 0) 5) (\<lambda>_.
     bindR (checkR (\<lambda>_. base_name dst \<noteq> []) dos_err_file_not_found) (\<lambda>_.
     (if base_idx dst = base_idx path \<and> take (base_idx path) path = take (base_idx path) dst
      then bindR (fsE dos_err_write_protect (ext4_rename parent_ino file_ino (base_name dst))) (\<lambda>_. retR id)
      else
        bindR (parentR 3 dst) (\<lambda>new_parent_ino.
        bindR (fsE dos_err_write_protect
           (ext4_rename_xdir parent_ino file_ino new_parent_ino (base_name dst) tsr_now)) (\<lambda>_.
        retR id)))))))))))"

section \<open>Opening, creating and closing\<close>

definition rem_close :: "regs \<Rightarrow> 'c redir \<Rightarrow> regs \<times> 'c redir" where
  "rem_close r d =
     (r\<lparr>rg_carry := False\<rparr>,
      case find_open_slot (rg_es r) (rg_di r) (rd_open d) of
        None \<Rightarrow> d
      | Some i \<Rightarrow> sft_upd (rg_es r, rg_di r) (\<lambda>s. s\<lparr>sf_ref_count := 0\<rparr>) (release_slot i d))"

definition allocR :: "regs \<Rightarrow> 'c redir \<Rightarrow> (u16 + nat) \<times> 'c redir" where
  "allocR r = getR (\<lambda>d. case alloc_open_slot (rg_es r) (rg_di r) (rd_open d) of None \<Rightarrow> Inl 4 | Some i \<Rightarrow> Inr i)"

definition claim_slot :: "regs \<Rightarrow> nat \<Rightarrow> u32 \<Rightarrow> 'c redir \<Rightarrow> 'c redir" where
  "claim_slot r i ino =
     slot_upd i (\<lambda>s. s\<lparr>os_used := True, os_seg := rg_es r, os_off := rg_di r, os_num := ino\<rparr>)"

definition sft_opened :: "byte \<Rightarrow> byte \<Rightarrow> u32 \<Rightarrow> u32 \<Rightarrow> sft \<Rightarrow> sft" where
  "sft_opened index attr mtime fsize s =
     (let td = unix_to_dos mtime in
      s\<lparr>sf_ref_count := 1, sf_devinfo := 0x8000 OR ucast index, sf_attr := attr,
        sf_time := ucast (td AND 0xFFFF), sf_date := ucast (drop_bit 16 td),
        sf_size := fsize, sf_position := 0, sf_uid := 0, sf_pid := 0\<rparr>)"

text \<open>The inode a slot gets for a file just created: empty, with an empty extent header.\<close>

definition created_inode :: ext4_inode where
  "created_inode =
     \<lparr>i_mode = 0x81A4, i_size = 0, i_flags = ext4_inode_flag_extents, i_mtime = tsr_now,
      i_block = zero_buf(0 := 0x0A, 1 := 0xF3, 4 := 4)\<rparr>"

definition reread_slot :: "u16 \<Rightarrow> nat \<Rightarrow> u32 \<Rightarrow> 'c redir \<Rightarrow> (u16 + unit) \<times> 'c redir" where
  "reread_slot e i ino =
     bindR (fsE e (ext4_inode_read ino)) (\<lambda>inode.
     modR (slot_upd i (\<lambda>s. s\<lparr>os_inode := inode\<rparr>)))"

text \<open>Creating a file in a slot, as REM_CREATE and the extended open do.\<close>

definition create_in_slot :: "regs \<Rightarrow> u32 \<Rightarrow> byte list \<Rightarrow> u16 \<Rightarrow> 'c redir \<Rightarrow> (u16 + unit) \<times> 'c redir" where
  "create_in_slot r parent_ino name failed =
     bindR (allocR r) (\<lambda>i.
     bindR (undoR (fsE failed (ext4_file_create parent_ino name 0x81A4 tsr_now)) (release_slot i)) (\<lambda>ino.
     bindR (modR (claim_slot r i ino)) (\<lambda>_.
     bindR (modR (slot_upd i (\<lambda>s. s\<lparr>os_inode := created_inode\<rparr>))) (\<lambda>_.
     modR (\<lambda>d. sft_upd (rg_es r, rg_di r) (sft_opened (rd_index d) 0 tsr_now 0) d)))))"

definition rem_create :: "byte list \<Rightarrow> regs \<Rightarrow> 'c redir \<Rightarrow> regs \<times> 'c redir" where
  "rem_create src r = reply r (
     bindR (pathR src) (\<lambda>path.
     bindR (aliasR path) (\<lambda>ino.
     (if ino \<noteq> 0 then
        bindR (allocR r) (\<lambda>i.
        bindR (undoR (bindR (fsE dos_err_write_protect (ext4_file_truncate ino 0 tsr_now)) (\<lambda>_.
                      reread_slot dos_err_file_not_found i ino)) (release_slot i)) (\<lambda>_.
        bindR (modR (claim_slot r i ino)) (\<lambda>_.
        bindR (modR (\<lambda>d. sft_upd (rg_es r, rg_di r) (sft_opened (rd_index d) 0 tsr_now 0) d)) (\<lambda>_.
        retR id))))
      else
        bindR (parentR dos_err_file_not_found path) (\<lambda>parent_ino.
        bindR (checkR (\<lambda>_. base_name path \<noteq> []) dos_err_file_not_found) (\<lambda>_.
        bindR (create_in_slot r parent_ino (base_name path) dos_err_write_protect) (\<lambda>_.
        retR id)))))))"

text \<open>MS-DOS 4's extended open (AL=2Eh) for writing empties an existing file; a truncation that
  fails is ignored.\<close>

definition open_truncate :: "bool \<Rightarrow> regs \<Rightarrow> nat \<Rightarrow> u32 \<Rightarrow> 'c redir \<Rightarrow> (u16 + unit) \<times> 'c redir" where
  "open_truncate extended r i ino d =
     (let inode = os_inode (rd_open d ! i) in
      if extended \<and> i_size inode \<noteq> 0 \<and> sf_open_mode (rd_sft d (rg_es r, rg_di r)) AND 0x07 \<noteq> 0
      then case fsE dos_err_write_protect (ext4_file_truncate ino 0 (i_mtime inode + 1)) d of
             (Inl _, d') \<Rightarrow> (Inr (), d')
           | (Inr _, d') \<Rightarrow> reread_slot dos_err_file_not_found i ino d'
      else (Inr (), d))"

definition open_found :: "bool \<Rightarrow> byte list \<Rightarrow> u32 \<Rightarrow> regs \<Rightarrow> 'c redir \<Rightarrow> (u16 + (regs \<Rightarrow> regs)) \<times> 'c redir" where
  "open_found extended path ino r =
     bindR (allocR r) (\<lambda>i.
     bindR (reread_slot dos_err_file_not_found i ino) (\<lambda>_.
     bindR (open_truncate extended r i ino) (\<lambda>_.
     bindR (modR (claim_slot r i ino)) (\<lambda>_.
     bindR (modR (\<lambda>d. let inode = os_inode (rd_open d ! i) in
        sft_upd (rg_es r, rg_di r)
          (sft_opened (rd_index d) (ext4_mode_to_dos_attr (i_mode inode) (cstr_at path (base_idx path)))
             (i_mtime inode) (ucast (i_size inode))) d)) (\<lambda>_.
     retR (\<lambda>r. if extended then r\<lparr>rg_cx := 1\<rparr> else r))))))"

definition rem_open :: "byte list \<Rightarrow> regs \<Rightarrow> 'c redir \<Rightarrow> regs \<times> 'c redir" where
  "rem_open src r = reply r (
     (let extended = (rg_ax r AND 0xFF = 0x2E) in
     bindR (pathR src) (\<lambda>path.
     bindR (aliasR path) (\<lambda>ino.
     (if ino \<noteq> 0 then open_found extended path ino r
      else if extended then
        bindR (parentR dos_err_file_not_found path) (\<lambda>parent_ino.
        bindR (checkR (\<lambda>_. base_name path \<noteq> []) dos_err_file_not_found) (\<lambda>_.
        bindR (create_in_slot r parent_ino (base_name path) dos_err_file_not_found) (\<lambda>_.
        retR (\<lambda>r. r\<lparr>rg_cx := 2\<rparr>))))
      else (\<lambda>d. (Inl dos_err_file_not_found, d)))))))"

section \<open>Reading\<close>

text \<open>The bytes read from \<open>offset\<close> on; positions are 32-bit numbers, \<open>count\<close> is at most 65535.\<close>

definition read_take :: "nat \<Rightarrow> nat \<Rightarrow> nat \<Rightarrow> nat \<Rightarrow> nat" where
  "read_take fsize cur bs left =
     (let can_take = min (bs - cur mod bs) left
      in if fsize < (cur + can_take) mod 2 ^ 32 then fsize - cur else can_take)"

lemma read_take_pos: "0 < bs \<Longrightarrow> cur < fsize \<Longrightarrow> 0 < left \<Longrightarrow> 0 < read_take fsize cur bs left"
  by (simp add: read_take_def Let_def)

function read_bytes_loop :: "'c ext4_fs \<Rightarrow> ext4_inode \<Rightarrow> nat \<Rightarrow> nat \<Rightarrow> nat \<Rightarrow> nat \<Rightarrow> byte list" where
  "read_bytes_loop fs inode bs offset count bytes_done =
     (let fsize = unat (ucast (i_size inode) :: u32); cur = (offset + bytes_done) mod 2 ^ 32;
          can_take = read_take fsize cur bs (count - bytes_done) in
      if \<not> (0 < bs \<and> bytes_done < count \<and> cur < fsize) then []
      else case ext4_file_read_block fs inode (word_of_nat (cur div bs)) of
             Inl _ \<Rightarrow> []
           | Inr blk \<Rightarrow> bytes_of blk (cur mod bs) can_take
               @ read_bytes_loop fs inode bs offset count (bytes_done + can_take))"
  by pat_completeness auto
termination
proof (relation "measure (\<lambda>(fs, inode, bs, offset, count, bytes_done). count - bytes_done)", goal_cases)
  case (2 fs inode bs offset count bytes_done fsize cur can_take blk)
  then have "0 < can_take" using read_take_pos [of bs cur fsize "count - bytes_done"] by simp
  with 2(4) show ?case by auto
qed simp

declare read_bytes_loop.simps [simp del]

definition read_file_bytes :: "'c ext4_fs \<Rightarrow> ext4_inode \<Rightarrow> u32 \<Rightarrow> u16 \<Rightarrow> byte list" where
  "read_file_bytes fs inode offset count =
     (if 4096 < block_size fs then []
      else read_bytes_loop fs inode (bs_nat fs) (unat offset) (unat count) 0)"

text \<open>The byte count comes back as a 16-bit \<open>int\<close>; the position is advanced by its value.\<close>

definition rem_read :: "regs \<Rightarrow> 'c redir \<Rightarrow> regs \<times> 'c redir" where
  "rem_read r d =
     (case find_open_slot (rg_es r) (rg_di r) (rd_open d) of
        None \<Rightarrow> (r\<lparr>rg_ax := dos_err_file_not_found, rg_carry := True\<rparr>, d)
      | Some i \<Rightarrow>
          let pos = sf_position (rd_sft d (rg_es r, rg_di r));
              xs = read_file_bytes (rd_fs d) (os_inode (rd_open d ! i)) pos (rg_cx r);
              actual = word_of_nat (length xs) :: u16
          in (r\<lparr>rg_cx := actual, rg_carry := False\<rparr>,
              sft_upd (rg_es r, rg_di r) (\<lambda>s. s\<lparr>sf_position := pos + scast actual\<rparr>)
                (d\<lparr>rd_user := put_bytes (rd_user d) 0 xs\<rparr>)))"

section \<open>Writing\<close>

definition write_buf_bytes :: nat where "write_buf_bytes = 4096"

text \<open>An operation on the inode of slot \<open>i\<close>; on success the slot gets the new inode.\<close>

definition slot_op :: "nat \<Rightarrow> (ext4_inode \<Rightarrow> u32 \<Rightarrow> buf \<Rightarrow> ('c ext4_fs, ext4_inode) op) \<Rightarrow>
    'c redir \<Rightarrow> (u16 + unit) \<times> 'c redir" where
  "slot_op i m d =
     (let s = rd_open d ! i in
      bindR (fsE dos_err_write_protect (m (os_inode s) (os_num s) (rd_wbuf d))) (\<lambda>inode.
      modR (slot_upd i (\<lambda>s. s\<lparr>os_inode := inode\<rparr>))) d)"

text \<open>Copying \<open>n\<close> bytes of the user's buffer to the start of \<open>g_write_buf\<close>, the rest of the block
  up to \<open>bs\<close> zeroed.\<close>

definition load_wbuf :: "nat \<Rightarrow> nat \<Rightarrow> nat \<Rightarrow> 'c redir \<Rightarrow> 'c redir" where
  "load_wbuf from n bs d =
     d\<lparr>rd_wbuf := fill_bytes (copy_bytes (rd_wbuf d) 0 (at (rd_user d) from) n) n 0 (bs - n)\<rparr>"

fun write_blocks :: "nat \<Rightarrow> nat \<Rightarrow> u32 \<Rightarrow> u32 \<Rightarrow> nat list \<Rightarrow> 'c redir \<Rightarrow> (u16 + unit) \<times> 'c redir" where
  "write_blocks i bs logical now [] = retR ()"
| "write_blocks i bs logical now (k # ks) =
     bindR (modR (load_wbuf (k * bs) bs bs)) (\<lambda>_.
     bindR (slot_op i (\<lambda>inode ino b. ext4_file_write_block inode ino (logical + word_of_nat k) b now)) (\<lambda>_.
     write_blocks i bs logical now ks))"

fun append_blocks :: "nat \<Rightarrow> nat \<Rightarrow> u32 \<Rightarrow> nat \<Rightarrow> nat list \<Rightarrow> 'c redir \<Rightarrow> (u16 + unit) \<times> 'c redir" where
  "append_blocks i bs now count [] = retR ()"
| "append_blocks i bs now count (k # ks) =
     (let this_ext = min (count - k * bs) bs in
      bindR (modR (load_wbuf (k * bs) this_ext bs)) (\<lambda>_.
      bindR (slot_op i (\<lambda>inode ino b. ext4_file_extend_block inode ino b (word_of_nat this_ext) now)) (\<lambda>_.
      append_blocks i bs now count ks)))"

text \<open>A write inside one block: the block is read, overlaid and written back.\<close>

definition overlay_block :: "nat \<Rightarrow> nat \<Rightarrow> u32 \<Rightarrow> nat \<Rightarrow> nat \<Rightarrow> u32 \<Rightarrow> 'c redir \<Rightarrow> (u16 + unit) \<times> 'c redir" where
  "overlay_block i bs logical off count now =
     bindR (\<lambda>d. fsE dos_err_write_protect
        (readE (\<lambda>fs. ext4_file_read_block fs (os_inode (rd_open d ! i)) logical)) d) (\<lambda>b.
     bindR (modR (\<lambda>d. d\<lparr>rd_wbuf := copy_bytes (copy_bytes (rd_wbuf d) 0 b bs) off (rd_user d) count\<rparr>)) (\<lambda>_.
     slot_op i (\<lambda>inode ino b. ext4_file_write_block inode ino logical b now)))"

text \<open>
  The pre-extension of a file to \<open>pos\<close>: zero blocks are appended until the size reaches it.  Each
  round adds at least one byte, so \<open>unat pos + 1\<close> rounds are enough.
\<close>

fun extend_to :: "nat \<Rightarrow> nat \<Rightarrow> u32 \<Rightarrow> u32 \<Rightarrow> 'c redir \<Rightarrow> (u16 + unit) \<times> 'c redir" where
  "extend_to 0 i bs pos d = (Inl dos_err_write_protect, d)"
| "extend_to (Suc n) i bs pos d =
     (let inode = os_inode (rd_open d ! i); fsize = ucast (i_size inode) :: u32 in
      if \<not> fsize < pos then (Inr (), d)
      else bindR (slot_op i (\<lambda>inode ino b. ext4_file_extend_block inode ino b (min (pos - fsize) bs) (i_mtime inode + 1)))
             (\<lambda>_. extend_to n i bs pos) d)"

definition sft_size_from :: "regs \<Rightarrow> nat \<Rightarrow> 'c redir \<Rightarrow> 'c redir" where
  "sft_size_from r i d =
     sft_upd (rg_es r, rg_di r) (\<lambda>s. s\<lparr>sf_size := ucast (i_size (os_inode (rd_open d ! i)))\<rparr>) d"

text \<open>CX = 0: the file is cut or extended to the current position.\<close>

definition write_set_size :: "regs \<Rightarrow> nat \<Rightarrow> u32 \<Rightarrow> u32 \<Rightarrow> u32 \<Rightarrow> 'c redir \<Rightarrow> (u16 + (regs \<Rightarrow> regs)) \<times> 'c redir" where
  "write_set_size r i bs pos file_size =
     (let fin = bindR (modR (sft_size_from r i)) (\<lambda>_. retR (\<lambda>r. r\<lparr>rg_ax := 0\<rparr>)) in
      if pos = file_size then retR (\<lambda>r. r\<lparr>rg_ax := 0\<rparr>)
      else if file_size < pos then
        (if file_size AND (bs - 1) \<noteq> 0 then (\<lambda>d. (Inl dos_err_write_protect, d))
         else
           bindR (modR (\<lambda>d. d\<lparr>rd_wbuf := fill_bytes (rd_wbuf d) 0 0 (unat bs)\<rparr>)) (\<lambda>_.
           bindR (extend_to (unat pos + 1) i bs pos) (\<lambda>_.
           bindR (checkR (\<lambda>d. (ucast (i_size (os_inode (rd_open d ! i))) :: u32) = pos) dos_err_write_protect) (\<lambda>_.
           fin))))
      else
        bindR (\<lambda>d. fsE dos_err_write_protect (ext4_file_truncate (os_num (rd_open d ! i)) (ucast pos)
                 (i_mtime (os_inode (rd_open d ! i)) + 1)) d) (\<lambda>_.
        bindR (\<lambda>d. reread_slot dos_err_write_protect i (os_num (rd_open d ! i)) d) (\<lambda>_.
        fin)))"

definition write_data :: "nat \<Rightarrow> u32 \<Rightarrow> u32 \<Rightarrow> u32 \<Rightarrow> u32 \<Rightarrow> 'c redir \<Rightarrow> (u16 + unit) \<times> 'c redir" where
  "write_data i bs pos file_size count d =
     (let now = i_mtime (os_inode (rd_open d ! i)) + 1; b = unat bs; n = unat count in
      bindR (modR (load_wbuf 0 n n)) (\<lambda>_.
      (if pos + count \<le> file_size \<and> pos AND (bs - 1) = 0 \<and> count AND (bs - 1) = 0
       then write_blocks i b (pos div bs) now [0..<n div b]
       else if pos + count \<le> file_size \<and> pos div bs = (pos + count - 1) div bs
       then overlay_block i b (pos div bs) (unat (pos AND (bs - 1))) n now
       else if pos = file_size \<and> pos AND (bs - 1) = 0
       then append_blocks i b now n [0..<(n + b - 1) div b]
       else (\<lambda>d. (Inl dos_err_write_protect, d)))) d)"

definition rem_write :: "regs \<Rightarrow> 'c redir \<Rightarrow> (regs \<times> 'c redir) option" where
  "rem_write r d =
     (case find_open_slot (rg_es r) (rg_di r) (rd_open d) of
        None \<Rightarrow> Some (r\<lparr>rg_ax := dos_err_file_not_found, rg_carry := True\<rparr>, d)
      | Some i \<Rightarrow>
          let bs = rd_safe_bs d; pos = sf_position (rd_sft d (rg_es r, rg_di r));
              file_size = ucast (i_size (os_inode (rd_open d ! i))); count = ucast (rg_cx r)
          in if word_of_nat write_buf_bytes < bs
             then Some (r\<lparr>rg_ax := dos_err_write_protect, rg_carry := True\<rparr>, d)
             else if count = 0 then Some (reply r (write_set_size r i bs pos file_size) d)
             else if write_buf_bytes < unat count \<or> bs = 0 then None
             else Some (reply r (
               bindR (write_data i bs pos file_size count) (\<lambda>_.
               bindR (modR (\<lambda>d. sft_size_from r i (sft_upd (rg_es r, rg_di r) (\<lambda>s. s\<lparr>sf_position := pos + count\<rparr>) d)))
                 (\<lambda>_. retR id))) d))"

section \<open>Free space\<close>

text \<open>Doubling the cluster size from at least 1 up to 64 takes at most six rounds.\<close>

fun space_scale :: "nat \<Rightarrow> u16 \<Rightarrow> u32 \<Rightarrow> u32 \<Rightarrow> u16 \<times> u32 \<times> u32" where
  "space_scale 0 spc blocks free = (spc, blocks, free)"
| "space_scale (Suc n) spc blocks free =
     (if (0xFFFF < blocks \<or> 0xFFFF < free) \<and> spc < 64
      then space_scale n (spc * 2) (drop_bit 1 (blocks + 1)) (drop_bit 1 free)
      else (spc, blocks, free))"

definition rem_space :: "regs \<Rightarrow> 'c redir \<Rightarrow> regs" where
  "rem_space r d =
     (if \<not> rd_ready d then r\<lparr>rg_ax := 1, rg_bx := 1, rg_cx := 512, rg_dx := 0, rg_carry := False\<rparr>
      else
        let spc = ucast (rd_safe_bs d div 512) :: u16;
            spc = (if spc = 0 then 1 else spc);
            (spc, blocks, free) = space_scale 6 spc (rd_safe_blocks d) (rd_safe_free d);
            blocks = (if 0xFFFF < blocks then 0xFFFF else blocks);
            free = (if 0xFFFF < free then 0xFFFF else free)
        in r\<lparr>rg_ax := spc, rg_bx := ucast blocks, rg_cx := 512, rg_dx := ucast free, rg_carry := False\<rparr>)"

definition rem_large_space :: "regs \<Rightarrow> 'c redir \<Rightarrow> regs" where
  "rem_large_space r d =
     (if \<not> rd_ready d then r\<lparr>rg_ax := 1, rg_carry := True\<rparr>
      else
        let blocks = rd_safe_blocks d; free = rd_safe_free d
        in r\<lparr>rg_ax := ucast (drop_bit 16 blocks), rg_bx := ucast (blocks AND 0xFFFF),
             rg_cx := ucast (drop_bit 16 free), rg_dx := ucast (free AND 0xFFFF),
             rg_si := ucast (rd_safe_bs d), rg_carry := False\<rparr>)"

section \<open>Searching\<close>

definition find_start :: "u16 \<Rightarrow> byte list \<Rightarrow> find_state" where
  "find_start entry_index path =
     \<lparr>fi_target = entry_index, fi_current = 0, fi_pattern = find_pattern path, fi_hit = None\<rparr>"

definition found_dirent :: "ext4_dir_entry \<Rightarrow> byte list \<Rightarrow> ext4_inode \<Rightarrow> dos_dirent" where
  "found_dirent e name83 inode =
     (let td = unix_to_dos (i_mtime inode) in
      \<lparr>dd_name = name83,
       dd_attrib = ext4_mode_to_dos_attr (i_mode inode) (if 0 < de_name_len e then de_name e ! 0 else 0),
       dd_time = ucast (td AND 0xFFFF), dd_date = ucast (drop_bit 16 td), dd_size = ucast (i_size inode)\<rparr>)"

text \<open>Whatever directory the path names, the entries are those of the root, inode 2.\<close>

definition do_findfirst_or_next :: "byte list \<Rightarrow> u16 \<Rightarrow> 'c redir \<Rightarrow> int \<times> 'c redir" where
  "do_findfirst_or_next path entry_index d =
     (case ext4_inode_read 2 (rd_fs d) of
        (Inl _, fs) \<Rightarrow> (-1, d\<lparr>rd_fs := fs\<rparr>)
      | (Inr root, fs) \<Rightarrow>
          case fi_hit (snd (ext4_dir_iter fs root find_iter_cb (find_start entry_index path))) of
            None \<Rightarrow> (-2, d\<lparr>rd_fs := fs\<rparr>)
          | Some (e, name83) \<Rightarrow>
              case ext4_inode_read (de_inode e) fs of
                (Inl _, fs) \<Rightarrow> (-1, d\<lparr>rd_fs := fs\<rparr>)
              | (Inr inode, fs) \<Rightarrow>
                  (0, d\<lparr>rd_fs := fs, rd_dirent := found_dirent e name83 inode,
                         rd_dm_drive := rd_index d OR 0x80, rd_dm_attr := rd_sattr d, rd_dm_entry := entry_index + 1\<rparr>))"

definition rem_findfirst :: "byte list \<Rightarrow> regs \<Rightarrow> 'c redir \<Rightarrow> regs \<times> 'c redir" where
  "rem_findfirst path r d =
     (if \<not> rd_ready d then (r\<lparr>rg_ax := dos_err_file_not_found, rg_carry := True\<rparr>, d)
      else if rd_sattr d AND 0x08 \<noteq> 0 then (r\<lparr>rg_ax := dos_err_no_more_files, rg_carry := True\<rparr>, d)
      else case do_findfirst_or_next path 0 d of
        (rc, d') \<Rightarrow> (if rc \<noteq> 0 then r\<lparr>rg_ax := dos_err_file_not_found, rg_carry := True\<rparr>
                     else r\<lparr>rg_carry := False\<rparr>, d'))"

definition rem_findnext :: "byte list \<Rightarrow> regs \<Rightarrow> 'c redir \<Rightarrow> regs \<times> 'c redir" where
  "rem_findnext path r d =
     (if \<not> rd_ready d then (r\<lparr>rg_ax := dos_err_no_more_files, rg_carry := True\<rparr>, d)
      else case do_findfirst_or_next path (rd_dm_entry d) d of
        (rc, d') \<Rightarrow> (if rc \<noteq> 0 then r\<lparr>rg_ax := dos_err_no_more_files, rg_carry := True\<rparr>
                     else r\<lparr>rg_carry := False\<rparr>, d'))"

end
