(* ===== verification/Int2f.thy ===== *)
theory Int2f
  imports Redirector
begin

text \<open>
  The INT 2Fh hook of src/tools/tsr.c, \<open>my_int2f_handler\<close>: the probes of the driver's own tools,
  the qualification of names and the dispatch to the subfunctions of theory Redirector.

  The captures are left out, but for the address at which one of the probes reports them.
\<close>

section \<open>Probes and name qualification\<close>

definition ext4_dos_magic_probe :: u16 where "ext4_dos_magic_probe = 0xE4D0"
definition ext4_dos_magic_reply :: u16 where "ext4_dos_magic_reply = 0xE4D5"

definition with_al :: "u16 \<Rightarrow> u16 \<Rightarrow> u16" where
  "with_al ax al = (ax AND 0xFF00) OR al"

text \<open>AX=1100h: is the driver there?\<close>

definition probe_installed :: "regs \<Rightarrow> regs" where
  "probe_installed r = r\<lparr>rg_ax := with_al (rg_ax r) 0xFF, rg_bx := ext4_dos_magic_reply\<rparr>"

text \<open>AX=11F0h reports the low words of the live superblock, AX=11EFh of the copies made when the
  driver was installed.\<close>

definition probe_live :: "regs \<Rightarrow> 'c redir \<Rightarrow> regs" where
  "probe_live r d =
     (if rd_ready d then
        let sb = fs_sb (rd_fs d) in
        r\<lparr>rg_cx := ucast (s_block_size sb), rg_dx := ucast (s_blocks_count sb),
          rg_si := ucast (s_free_blocks_count sb), rg_di := ucast (s_inodes_per_group sb),
          rg_ax := with_al (rg_ax r) 0xFF\<rparr>
      else r\<lparr>rg_ax := with_al (rg_ax r) 0\<rparr>)"

definition probe_snapshot :: "regs \<Rightarrow> 'c redir \<Rightarrow> regs" where
  "probe_snapshot r d =
     r\<lparr>rg_cx := ucast (rd_safe_bs d), rg_dx := ucast (rd_safe_blocks d),
       rg_si := ucast (rd_safe_free d), rg_ax := with_al (rg_ax r) 0xFF\<rparr>"

text \<open>AX=11FDh reports the call counter CL, AX=11FCh the address of the captures.\<close>

definition counter_of :: "u16 \<Rightarrow> nat" where
  "counter_of w = unat (w AND 0x3F)"

definition probe_count :: "regs \<Rightarrow> 'c redir \<Rightarrow> regs" where
  "probe_count r d = r\<lparr>rg_dx := rd_counts d ! counter_of (rg_cx r), rg_ax := with_al (rg_ax r) 0xFF\<rparr>"

definition probe_capture :: "regs \<Rightarrow> 'c redir \<Rightarrow> regs" where
  "probe_capture r d =
     r\<lparr>rg_dx := fst (rd_capture d), rg_cx := snd (rd_capture d), rg_ax := with_al (rg_ax r) 0xFF\<rparr>"

text \<open>AX=11FBh: the vectors go back, unless another program has hooked one of them since.\<close>

definition rd_hooked :: "'c redir \<Rightarrow> bool" where
  "rd_hooked d \<longleftrightarrow> rd_vec2f d = rd_my2f d \<and> rd_vec21 d = rd_my21 d"

definition probe_uninstall :: "regs \<Rightarrow> 'c redir \<Rightarrow> regs \<times> 'c redir" where
  "probe_uninstall r d =
     (if \<not> rd_hooked d then (r\<lparr>rg_ax := with_al (rg_ax r) 0, rg_carry := True\<rparr>, d)
      else (r\<lparr>rg_si := rd_psp d, rg_ax := with_al (rg_ax r) 0xFF\<rparr>,
            d\<lparr>rd_vec21 := rd_prev21 d, rd_vec2f := rd_prev2f d,
              rd_cds_flags := map_option (\<lambda>_. 0) (rd_cds_flags d)\<rparr>))"

text \<open>
  AL=23h: a name on our drive is copied to ES:DI with the drive letter in upper case.  At most 67
  bytes are written; a longer name ends without its zero.
\<close>

definition own_drive :: "'c redir \<Rightarrow> byte list \<Rightarrow> bool" where
  "own_drive d src \<longleftrightarrow> upper (cstr_at src 0) = rd_drive d \<and> cstr_at src 1 = 0x3A"

definition rem_qualify :: "byte list \<Rightarrow> regs \<Rightarrow> 'c redir \<Rightarrow> regs \<times> 'c redir" where
  "rem_qualify src r d =
     (if own_drive d src then
        (r\<lparr>rg_carry := False\<rparr>,
         d\<lparr>rd_esdi := put_bytes (rd_esdi d) 0 (take 67 (rd_drive d # 0x3A # drop 2 src @ [0]))\<rparr>)
      else (r\<lparr>rg_carry := True\<rparr>, d))"

section \<open>The dispatcher\<close>

text \<open>
  What a call of the hook does: pass on to the handler before it, overrun the write buffer, or
  return with registers and state.  \<open>src\<close> and \<open>dsrc\<close> are the two paths of the swap area, \<open>qsrc\<close>
  is the name at DS:SI.
\<close>

datatype 'c int2f_result = Chain "'c redir" | Overrun | Done regs "'c redir"

definition al_of :: "regs \<Rightarrow> u16" where
  "al_of r = rg_ax r AND 0xFF"

definition ah_is :: "u16 \<Rightarrow> regs \<Rightarrow> bool" where
  "ah_is ah r \<longleftrightarrow> rg_ax r AND 0xFF00 = push_bit 8 ah"

definition int2f_dispatch :: "byte list \<Rightarrow> byte list \<Rightarrow> byte list \<Rightarrow> regs \<Rightarrow> 'c redir \<Rightarrow> 'c int2f_result" where
  "int2f_dispatch src dsrc qsrc r d =
     (let al = al_of r; ret = (\<lambda>(r, d). Done r d) in
      if al \<in> {0x05, 0x07, 0x0A, 0x0B} then Done (r\<lparr>rg_carry := False\<rparr>) d
      else if al = 0x01 then ret (rem_rmdir src r d)
      else if al = 0x13 then ret (rem_delete src r d)
      else if al = 0x11 then ret (rem_rename src dsrc r d)
      else if al = 0x0E then Done (r\<lparr>rg_ax := dos_err_write_protect, rg_carry := True\<rparr>) d
      else if al = 0x03 then ret (rem_mkdir src r d)
      else if al = 0x06 then ret (rem_close r d)
      else if al = 0x17 then ret (rem_create src r d)
      else if al \<in> {0x15, 0x2E, 0x16} then ret (rem_open src r d)
      else if al = 0x09 then (case rem_write r d of None \<Rightarrow> Overrun | Some p \<Rightarrow> ret p)
      else if al = 0x08 then ret (rem_read r d)
      else if al = 0x0C then Done (rem_space r d) d
      else if al = 0xA3 then Done (rem_large_space r d) d
      else if al = 0x23 then ret (rem_qualify qsrc r d)
      else if al \<in> {0x18, 0x19, 0x1B} then ret (rem_findfirst src r d)
      else if al \<in> {0x1A, 0x1C} then ret (rem_findnext src r d)
      else if al = 0x1D then Done (r\<lparr>rg_carry := False\<rparr>) d
      else if al = 0x2D then Done (r\<lparr>rg_cx := 0, rg_carry := False\<rparr>) d
      else Chain d)"

text \<open>\<open>g_call_counts[al & 0x3F]++\<close>\<close>

definition count_call :: "regs \<Rightarrow> 'c redir \<Rightarrow> 'c redir" where
  "count_call r d = (let i = counter_of (rg_ax r) in d\<lparr>rd_counts := (rd_counts d)[i := rd_counts d ! i + 1]\<rparr>)"

definition int2f_call :: "byte list \<Rightarrow> byte list \<Rightarrow> byte list \<Rightarrow> regs \<Rightarrow> 'c redir \<Rightarrow> 'c int2f_result" where
  "int2f_call src dsrc qsrc r d =
     (let ours = (rg_bx r = ext4_dos_magic_probe) in
      if rg_ax r = 0x1100 \<and> ours then Done (probe_installed r) d
      else if rg_ax r = 0x11FD \<and> ours then Done (probe_count r d) d
      else if rg_ax r = 0x11FC \<and> ours then Done (probe_capture r d) d
      else if rg_ax r = 0x11F0 \<and> ours then Done (probe_live r d) d
      else if rg_ax r = 0x11FB \<and> ours then (case probe_uninstall r d of (r, d) \<Rightarrow> Done r d)
      else if rg_ax r = 0x11EF \<and> ours then Done (probe_snapshot r d) d
      else if ah_is 0x11 r then int2f_dispatch src dsrc qsrc r (count_call r d)
      else Chain d)"

end
