(* ===== verification/Int21.thy ===== *)
theory Int21
  imports Int2f
begin

text \<open>
  The INT 21h hook of src/tools/tsr.c, \<open>my_int21_handler\<close>: the device-information word of handles
  on our drive, the extended free-space call and the change of directory, each for the DOS versions
  that get it wrong.

  DOS memory the hook only reads is a function from far addresses to bytes.  The walk along the
  chain of system file tables ends only if the chain does, so it is a partial function.
\<close>

record dos_quirks =
  q_major :: byte
  q_minor :: byte
  q_is_freedos :: bool
  q_is_msdos4 :: bool
  q_cds_flags :: u16
  q_ioctl_hook :: bool
  q_chdir_intercept :: bool
  q_ah73_bridge :: bool

definition peek8 :: "(far \<Rightarrow> byte) \<Rightarrow> far \<Rightarrow> u16 \<Rightarrow> byte" where
  "peek8 mem p k = mem (fst p, snd p + k)"

definition peek16 :: "(far \<Rightarrow> byte) \<Rightarrow> far \<Rightarrow> u16 \<Rightarrow> u16" where
  "peek16 mem p k = ucast (peek8 mem p k) OR push_bit 8 (ucast (peek8 mem p (k + 1)))"

definition peek_far :: "(far \<Rightarrow> byte) \<Rightarrow> far \<Rightarrow> u16 \<Rightarrow> far" where
  "peek_far mem p k = (peek16 mem p (k + 2), peek16 mem p k)"

section \<open>Handles\<close>

definition sft_block_entry_off :: u16 where "sft_block_entry_off = 0x06"
definition sft_entry_size :: u16 where "sft_entry_size = 0x3B"

text \<open>From a table number to the address of the entry; the value \<open>None\<close> of the inner option is the
  end of the chain.\<close>

partial_function (option) sft_walk :: "(far \<Rightarrow> byte) \<Rightarrow> far \<Rightarrow> u16 \<Rightarrow> far option option" where
  "sft_walk mem block remaining =
     (if block = (0, 0) then Some None
      else
        let count = peek16 mem block 4; next_block = peek_far mem block 0 in
        if remaining < count
        then Some (Some (fst block, snd block + sft_block_entry_off + remaining * sft_entry_size))
        else if snd next_block = 0xFFFF then Some None
        else sft_walk mem next_block (remaining - count))"

text \<open>Handle to table number, through the table of the current process.\<close>

definition jft_entry :: "(far \<Rightarrow> byte) \<Rightarrow> far \<Rightarrow> u16 \<Rightarrow> byte option" where
  "jft_entry mem sda bx =
     (let psp = peek16 mem sda 0x10 in
      if psp = 0 then None
      else if peek16 mem (psp, 0) 0x32 \<le> bx then None
      else let idx = peek8 mem (peek_far mem (psp, 0) 0x34) bx in
           if idx = 0xFF then None else Some idx)"

definition handle_sft :: "(far \<Rightarrow> byte) \<Rightarrow> far \<Rightarrow> far \<Rightarrow> u16 \<Rightarrow> far option option" where
  "handle_sft mem sda head bx =
     (case jft_entry mem sda bx of
        None \<Rightarrow> Some None
      | Some idx \<Rightarrow> sft_walk mem head (ucast idx))"

definition ioctl_info :: "regs \<Rightarrow> 'c redir \<Rightarrow> regs" where
  "ioctl_info r d = r\<lparr>rg_dx := 0x8000 OR (ucast (rd_index d) AND 0x3F), rg_ax := 0, rg_carry := False\<rparr>"

section \<open>Extended free space\<close>

definition xfs_put :: "'c redir \<Rightarrow> buf \<Rightarrow> buf" where
  "xfs_put d b =
     (let total = rd_safe_blocks d; free = rd_safe_free d; b = fill_bytes b 0 0 44;
          b = put_le16 b 0x00 44; b = put_le32 b 0x04 1; b = put_le32 b 0x08 (rd_safe_bs d);
          b = put_le32 b 0x0C free; b = put_le32 b 0x10 total; b = put_le32 b 0x14 free;
          b = put_le32 b 0x18 total; b = put_le32 b 0x1C free
      in put_le32 b 0x20 total)"

section \<open>Change of directory\<close>

definition chdir_path :: "byte list \<Rightarrow> byte list" where
  "chdir_path path =
     (let p = path_convert (drop 2 path) 128
      in if 1 < length p \<and> last p = slash then butlast p else p)"

definition chdir_ino :: "byte list \<Rightarrow> 'c ext4_fs \<Rightarrow> u32 \<times> 'c ext4_fs" where
  "chdir_ino path fs =
     (if length (path_convert (drop 2 path) 128) = 1 then (2, fs)
      else path_lookup_with_alias (chdir_path path) fs)"

definition chdir_is_dir :: "byte list \<Rightarrow> 'c ext4_fs \<Rightarrow> bool \<times> 'c ext4_fs" where
  "chdir_is_dir path fs =
     (case chdir_ino path fs of (ino, fs) \<Rightarrow>
        if ino = 0 then (False, fs)
        else case ext4_inode_read ino fs of
               (Inl _, fs) \<Rightarrow> (False, fs)
             | (Inr inode, fs) \<Rightarrow> (i_mode inode AND ext4_s_ifmt = ext4_s_ifdir, fs))"

section \<open>The hook\<close>

datatype 'c int21_result = Pass "'c redir" | Loops | Return regs "'c redir"

text \<open>\<open>path\<close> is the string at DS:DX; \<open>rd_esdi\<close> stands for the buffer at ES:DI.\<close>

definition int21_rest :: "dos_quirks \<Rightarrow> byte list \<Rightarrow> regs \<Rightarrow> 'c redir \<Rightarrow> 'c int21_result" where
  "int21_rest q path r d =
     (if q_ah73_bridge q \<and> rg_ax r = 0x7303 \<and> rd_ready d \<and> own_drive d path \<and> 44 \<le> rg_cx r
      then Return (r\<lparr>rg_ax := 0, rg_carry := False\<rparr>) (d\<lparr>rd_esdi := xfs_put d (rd_esdi d)\<rparr>)
      else if q_chdir_intercept q \<and> ah_is 0x3B r \<and> rd_ready d \<and> own_drive d path
      then (case chdir_is_dir path (rd_fs d) of
              (ok, fs) \<Rightarrow> (if ok then Return (r\<lparr>rg_carry := False\<rparr>) (d\<lparr>rd_fs := fs\<rparr>)
                            else Pass (d\<lparr>rd_fs := fs\<rparr>)))
      else Pass d)"

definition int21_call ::
  "dos_quirks \<Rightarrow> (far \<Rightarrow> byte) \<Rightarrow> far \<Rightarrow> far \<Rightarrow> byte list \<Rightarrow> regs \<Rightarrow> 'c redir \<Rightarrow> 'c int21_result" where
  "int21_call q mem sda head path r d =
     (if q_ioctl_hook q \<and> rg_ax r = 0x4400 \<and> rd_ready d \<and> head \<noteq> (0, 0) \<and> sda \<noteq> (0, 0)
      then (case handle_sft mem sda head (rg_bx r) of
              None \<Rightarrow> Loops
            | Some None \<Rightarrow> Pass d
            | Some (Some p) \<Rightarrow>
                (case find_open_slot (fst p) (snd p) (rd_open d) of
                   Some _ \<Rightarrow> Return (ioctl_info r d) d
                 | None \<Rightarrow> int21_rest q path r d))
      else int21_rest q path r d)"

end
