(* ===== verification/Install.thy ===== *)
theory Install
  imports Int21 Mount Mbr Console
begin

text \<open>
  Loading the driver (src/tools/tsr.c, \<open>main\<close>): the command line, the choice of a drive letter, the
  search for a disk, the mount, the feature gate and the claim of the drive.

  The disks are a map from BIOS drive numbers to devices, \<open>None\<close> where \<open>int13_bdev_open\<close> fails; a
  mount may write to a disk, so the map is threaded through.  DOS answers (version, current
  directory structures) are parameters; printing is left out.
\<close>

section \<open>Quirks\<close>

definition detect_dos_quirks :: "byte \<Rightarrow> byte \<Rightarrow> byte \<Rightarrow> dos_quirks" where
  "detect_dos_quirks al ah bh =
     (let freedos = (bh = 0xFD); msdos4 = (al = 4 \<and> \<not> freedos) in
      \<lparr>q_major = al, q_minor = ah, q_is_freedos = freedos, q_is_msdos4 = msdos4,
       q_cds_flags = (if msdos4 then 0xC000 else 0x8000),
       q_ioctl_hook = msdos4, q_chdir_intercept = msdos4, q_ah73_bridge = (al < 7)\<rparr>)"

section \<open>The drive letter\<close>

text \<open>\<open>flags i\<close> is the flag word of entry \<open>i\<close>; the scan starts at D, and 0 means no free entry.\<close>

fun pick_from :: "nat list \<Rightarrow> (nat \<Rightarrow> u16) \<Rightarrow> byte" where
  "pick_from [] flags = 0"
| "pick_from (i # is) flags = (if flags i = 0 then 0x41 + word_of_nat i else pick_from is flags)"

definition pick_drive_letter :: "byte \<Rightarrow> (nat \<Rightarrow> u16) \<Rightarrow> byte" where
  "pick_drive_letter lastdrive flags = pick_from [3..<unat lastdrive] flags"

text \<open>The entry that claims the drive: all zero but for the root path, its length and the flags.\<close>

definition hook_cds :: "dos_quirks \<Rightarrow> byte \<Rightarrow> buf \<Rightarrow> buf" where
  "hook_cds q letter cds =
     (let cds = fill_bytes cds 0 0 88; cds = put_bytes cds 0 [letter, 0x3A, 0x5C, 0];
          cds = put_le16 cds 0x4F 2
      in put_le16 cds 0x43 (q_cds_flags q))"

section \<open>Mounting\<close>

text \<open>Where the file system starts: the first Linux partition, or sector 0 of a disk without a
  partition table when the disk was named on the command line.\<close>

definition mount_lba :: "bool \<Rightarrow> int + mbr_table \<Rightarrow> int + u64" where
  "mount_lba quiet_fail m =
     (case m of
        Inr t \<Rightarrow>
          (if mbr_has_signature t then
             (case filter (\<lambda>e. part_type e = mbr_type_linux) (mbr_entries t) of
                [] \<Rightarrow> Inl (-2)
              | e # _ \<Rightarrow> if part_start_lba e = 0 then Inl (-2) else Inr (ucast (part_start_lba e)))
           else Inr 0)
      | Inl _ \<Rightarrow> if quiet_fail then Inl (-2) else Inr 0)"

definition mount_ext4 :: "byte \<Rightarrow> bool \<Rightarrow> (byte \<Rightarrow> 'c blockdev option) \<Rightarrow>
    (int + 'c ext4_fs) \<times> (byte \<Rightarrow> 'c blockdev option)" where
  "mount_ext4 drive quiet_fail disks =
     (case disks drive of
        None \<Rightarrow> (Inl (-1), disks)
      | Some bd \<Rightarrow>
          (case mount_lba quiet_fail (mbr_read bd) of
             Inl rc \<Rightarrow> (Inl rc, disks)
           | Inr lba \<Rightarrow>
               (case ext4_fs_open bd lba of
                  (Inl _, bd) \<Rightarrow> (Inl (-3), disks(drive := Some bd))
                | (Inr fs, bd) \<Rightarrow> (Inr fs, disks(drive := Some bd)))))"

fun scan_from :: "byte list \<Rightarrow> (byte \<Rightarrow> 'c blockdev option) \<Rightarrow>
    (int + byte \<times> 'c ext4_fs) \<times> (byte \<Rightarrow> 'c blockdev option)" where
  "scan_from [] disks = (Inl (-1), disks)"
| "scan_from (drive # ds) disks =
     (case mount_ext4 drive True disks of
        (Inl _, disks) \<Rightarrow> scan_from ds disks
      | (Inr fs, disks) \<Rightarrow> (Inr (drive, fs), disks))"

definition scan_for_ext4 :: "(byte \<Rightarrow> 'c blockdev option) \<Rightarrow>
    (int + byte \<times> 'c ext4_fs) \<times> (byte \<Rightarrow> 'c blockdev option)" where
  "scan_for_ext4 disks = scan_from [0x80, 0x81, 0x82, 0x83] disks"

section \<open>The command line\<close>

record tsr_options =
  opt_quiet :: bool
  opt_uninstall :: bool
  opt_help :: bool
  opt_drive :: "byte option"
  opt_letter :: "byte option"

definition parse_arg :: "byte list \<Rightarrow> tsr_options \<Rightarrow> tsr_options" where
  "parse_arg a os =
     (let c = cstr_at a 0; f = cstr_at a 1; letter = upper c in
      if c = 0x2D \<or> c = 0x2F then
        (if f = 0x71 \<or> f = 0x51 then os\<lparr>opt_quiet := True\<rparr>
         else if f = 0x75 \<or> f = 0x55 then os\<lparr>opt_uninstall := True\<rparr>
         else if f = 0x68 \<or> f = 0x48 \<or> f = 0x3F then os\<lparr>opt_help := True\<rparr>
         else os)
      else if 0x30 \<le> c \<and> c \<le> 0x39 then os\<lparr>opt_drive := Some (ucast (strtoul0 a :: u32))\<rparr>
      else if 0x41 \<le> letter \<and> letter \<le> 0x5A \<and> f = 0x3A then os\<lparr>opt_letter := Some letter\<rparr>
      else os)"

text \<open>The argument loop returns at once when it meets the help option.\<close>

fun parse_args :: "byte list list \<Rightarrow> tsr_options \<Rightarrow> tsr_options" where
  "parse_args [] os = os"
| "parse_args (a # as) os =
     (let os = parse_arg a os in if opt_help os then os else parse_args as os)"

section \<open>Installing\<close>

text \<open>What stays resident: the mounted file system, the drive, the copies of the superblock fields
  and the directory structure that claims the drive.\<close>

record 'c resident =
  re_fs :: "'c ext4_fs"
  re_letter :: byte
  re_index :: byte
  re_quirks :: dos_quirks
  re_safe_bs :: u32
  re_safe_blocks :: u32
  re_safe_blocks_hi :: u32
  re_safe_free :: u32
  re_safe_free_hi :: u32
  re_cds :: buf

datatype 'c tsr_outcome = Help | Uninstall | Refused | Resident "'c resident"

definition go_resident :: "byte \<Rightarrow> byte \<times> byte \<times> byte \<Rightarrow> (nat \<Rightarrow> buf) \<Rightarrow> 'c ext4_fs \<Rightarrow> 'c resident" where
  "go_resident letter version cds fs =
     (let index = letter - 0x41; sb = fs_sb fs;
          q = detect_dos_quirks (fst version) (fst (snd version)) (snd (snd version)) in
      \<lparr>re_fs = fs, re_letter = letter, re_index = index, re_quirks = q,
       re_safe_bs = s_block_size sb,
       re_safe_blocks = ucast (s_blocks_count sb),
       re_safe_blocks_hi = ucast (drop_bit 32 (s_blocks_count sb)),
       re_safe_free = ucast (s_free_blocks_count sb),
       re_safe_free_hi = ucast (drop_bit 32 (s_free_blocks_count sb)),
       re_cds = hook_cds q letter (cds (unat index))\<rparr>)"

definition mount_wanted :: "tsr_options \<Rightarrow> (byte \<Rightarrow> 'c blockdev option) \<Rightarrow>
    (int + 'c ext4_fs) \<times> (byte \<Rightarrow> 'c blockdev option)" where
  "mount_wanted os disks =
     (case opt_drive os of
        Some drive \<Rightarrow> mount_ext4 drive False disks
      | None \<Rightarrow> (case scan_for_ext4 disks of
                   (Inl rc, disks) \<Rightarrow> (Inl rc, disks)
                 | (Inr (_, fs), disks) \<Rightarrow> (Inr fs, disks)))"

definition tsr_main :: "byte list list \<Rightarrow> byte \<Rightarrow> (nat \<Rightarrow> buf) \<Rightarrow> byte \<times> byte \<times> byte \<Rightarrow>
    (byte \<Rightarrow> 'c blockdev option) \<Rightarrow> 'c tsr_outcome \<times> (byte \<Rightarrow> 'c blockdev option)" where
  "tsr_main args lastdrive cds version disks =
     (let os = parse_args args \<lparr>opt_quiet = False, opt_uninstall = False, opt_help = False,
                                 opt_drive = None, opt_letter = None\<rparr>;
          letter = (case opt_letter os of Some l \<Rightarrow> l
                    | None \<Rightarrow> pick_drive_letter lastdrive (\<lambda>i. le16 (cds i) 0x43)) in
      if opt_help os then (Help, disks)
      else if opt_uninstall os then (Uninstall, disks)
      else if letter = 0 then (Refused, disks)
      else case mount_wanted os disks of
             (Inl _, disks) \<Rightarrow> (Refused, disks)
           | (Inr fs, disks) \<Rightarrow>
               (case ext4_features_check_supported (fs_sb fs) of
                  Inl _ \<Rightarrow> (Refused, disks)
                | Inr _ \<Rightarrow> (Resident (go_resident letter version cds fs), disks)))"

end
