(* ===== verification/DosTables.thy ===== *)
theory DosTables
  imports Install Sample
begin

text \<open>
  The tables of the driver: the open files that the redirector's calls keep, the write buffer they
  copy through, the numbers of the free-space calls, the system file table that a handle leads to,
  and what an installation has checked.
\<close>

section \<open>The table of open files\<close>

text \<open>Eight slots, and no two slots in use for the same system file table entry.\<close>

definition slots_ok :: "open_slot list \<Rightarrow> bool" where
  "slots_ok os \<longleftrightarrow> length os = max_open_slots \<and>
     (\<forall>i < length os. \<forall>j < length os. i \<noteq> j \<and> os_used (os ! i) \<and> os_used (os ! j) \<longrightarrow>
        (os_seg (os ! i), os_off (os ! i)) \<noteq> (os_seg (os ! j), os_off (os ! j)))"

text \<open>Slot \<open>i\<close> may be claimed for an entry: no other slot is in use for it.\<close>

definition claimable :: "u16 \<Rightarrow> u16 \<Rightarrow> nat \<Rightarrow> open_slot list \<Rightarrow> bool" where
  "claimable seg off i os \<longleftrightarrow> slots_ok os \<and> i < length os \<and>
     (\<forall>j < length os. j \<noteq> i \<longrightarrow> \<not> slot_is seg off (os ! j))"

text \<open>A step of a handler takes tables with \<open>P\<close> to tables with \<open>Q\<close>, and leaves a well-formed table
  when it fails.\<close>

definition stepOk ::
  "(open_slot list \<Rightarrow> bool) \<Rightarrow> ('c redir \<Rightarrow> (u16 + 'a) \<times> 'c redir) \<Rightarrow> ('a \<Rightarrow> open_slot list \<Rightarrow> bool) \<Rightarrow> bool" where
  "stepOk P m Q \<longleftrightarrow> (\<forall>d. P (rd_open d) \<longrightarrow>
     (case m d of (Inl _, d') \<Rightarrow> slots_ok (rd_open d') | (Inr x, d') \<Rightarrow> Q x (rd_open d')))"

named_theorems step_ok \<open>Steps of the handlers and the table of open files.\<close>

lemma stepOk_bind [step_ok]:
  "stepOk P m R \<Longrightarrow> (\<And>x. stepOk (R x) (f x) Q) \<Longrightarrow> stepOk P (bindR m f) Q"
  unfolding stepOk_def bindR_def by (fastforce split: prod.splits sum.splits)

lemma stepOk_ret: "stepOk P (retR x) (\<lambda>_. P)"
  by (simp add: stepOk_def retR_def)

lemma stepOk_check: "(\<And>os. P os \<Longrightarrow> slots_ok os) \<Longrightarrow> stepOk P (checkR ok e) (\<lambda>_. P)"
  by (simp add: stepOk_def checkR_def)

lemma stepOk_get: "(\<And>os. P os \<Longrightarrow> slots_ok os) \<Longrightarrow> stepOk P (getR f) (\<lambda>_. P)"
  by (simp add: stepOk_def getR_def split: sum.splits)

lemma stepOk_mod: "(\<And>d. P (rd_open d) \<Longrightarrow> Q (rd_open (f d))) \<Longrightarrow> stepOk P (modR f) (\<lambda>_. Q)"
  by (simp add: stepOk_def modR_def)

lemma stepOk_fs: "(\<And>os. P os \<Longrightarrow> slots_ok os) \<Longrightarrow> stepOk P (fsE e m) (\<lambda>_. P)"
  by (simp add: stepOk_def fsE_def split: prod.splits sum.splits)

lemma stepOk_undo:
  "stepOk P m Q \<Longrightarrow> (\<And>d. slots_ok (rd_open d) \<Longrightarrow> slots_ok (rd_open (f d))) \<Longrightarrow> stepOk P (undoR m f) Q"
  unfolding stepOk_def undoR_def by (fastforce split: prod.splits sum.splits)

lemma stepOk_weaken: "stepOk P m Q \<Longrightarrow> (\<And>os. P' os \<Longrightarrow> P os) \<Longrightarrow> (\<And>x os. Q x os \<Longrightarrow> Q' x os) \<Longrightarrow> stepOk P' m Q'"
  unfolding stepOk_def by (fastforce split: prod.splits sum.splits)

text \<open>Updates of slots that keep or free them.\<close>

definition frees_or_keeps :: "(open_slot \<Rightarrow> open_slot) \<Rightarrow> bool" where
  "frees_or_keeps f \<longleftrightarrow> (\<forall>s. os_used (f s) \<longrightarrow> os_used s \<and> os_seg (f s) = os_seg s \<and> os_off (f s) = os_off s)"

lemma upd_keeps:
  assumes "frees_or_keeps f" "j < length os" "os_used (os[k := f (os ! k)] ! j)"
  shows "os_used (os ! j) \<and> os_seg (os[k := f (os ! k)] ! j) = os_seg (os ! j) \<and>
    os_off (os[k := f (os ! k)] ! j) = os_off (os ! j)"
  using assms by (cases "j = k") (auto simp: frees_or_keeps_def)

lemma slots_ok_upd:
  assumes "frees_or_keeps f" "slots_ok os"
  shows "slots_ok (os[i := f (os ! i)])"
  using assms(2) upd_keeps [OF assms(1)] unfolding slots_ok_def by (metis length_list_update)

lemma claimable_upd:
  assumes "frees_or_keeps f" "claimable seg off i os"
  shows "claimable seg off i (os[k := f (os ! k)])"
  using assms(2) slots_ok_upd [OF assms(1)] upd_keeps [OF assms(1)]
  unfolding claimable_def slot_is_def by (metis length_list_update)

lemma frees_or_keeps_simps [simp]:
  "frees_or_keeps (\<lambda>s. s\<lparr>os_inode := inode\<rparr>)" "frees_or_keeps (\<lambda>s. s\<lparr>os_used := False\<rparr>)"
  by (simp_all add: frees_or_keeps_def)

lemma slots_ok_claim:
  assumes "claimable seg off i os" "os_seg s = seg" "os_off s = off"
  shows "slots_ok (os[i := s])"
  using assms unfolding claimable_def slots_ok_def slot_is_def
  by (auto simp: nth_list_update split: if_splits)

lemma slots_ok_release [simp]: "slots_ok (rd_open d) \<Longrightarrow> slots_ok (rd_open (release_slot i d))"
  by (simp add: release_slot_def slots_ok_upd)

lemma first_index_Some:
  "first_index P k os = Some i \<Longrightarrow> k \<le> i \<and> i < k + length os \<and> P (os ! (i - k)) \<and> (\<forall>j < i - k. \<not> P (os ! j))"
proof (induction P k os arbitrary: i rule: first_index.induct)
  case (2 P k s ss)
  show ?case
  proof (cases "P s")
    case False
    with 2 have "Suc k \<le> i \<and> i < Suc k + length ss \<and> P (ss ! (i - Suc k)) \<and> (\<forall>j < i - Suc k. \<not> P (ss ! j))"
      by simp
    moreover from this have "i - k = Suc (i - Suc k)" by linarith
    ultimately show ?thesis using False by (auto simp: less_Suc_eq_0_disj)
  qed (use 2 in simp)
qed simp

lemma first_index_None: "first_index P k os = None \<longleftrightarrow> (\<forall>s \<in> set os. \<not> P s)"
  by (induction P k os rule: first_index.induct) auto

lemma alloc_claimable:
  assumes "slots_ok os" "alloc_open_slot seg off os = Some i"
  shows "claimable seg off i os"
proof (cases "find_open_slot seg off os")
  case None
  then have "\<forall>s \<in> set os. \<not> slot_is seg off s" by (simp add: find_open_slot_def first_index_None)
  moreover have "first_index (\<lambda>s. \<not> os_used s) 0 os = Some i"
    using assms(2) None by (simp add: alloc_open_slot_def)
  then have "i < length os" using first_index_Some [of _ 0 os i] by simp
  ultimately show ?thesis using assms(1) by (simp add: claimable_def)
next
  case (Some k)
  then have "k = i" using assms(2) by (simp add: alloc_open_slot_def)
  moreover have "k < length os" "slot_is seg off (os ! k)"
    using Some first_index_Some [of "slot_is seg off" 0 os k] by (simp_all add: find_open_slot_def)
  ultimately show ?thesis
    using assms(1) unfolding claimable_def slots_ok_def slot_is_def by auto
qed

subsection \<open>The steps of the calls\<close>

lemma claimable_ok: "claimable seg off i os \<Longrightarrow> slots_ok os"
  by (simp add: claimable_def)

lemma stepOk_path [step_ok]: "stepOk slots_ok (pathR src) (\<lambda>_. slots_ok)"
  unfolding pathR_def by (rule stepOk_get)

lemma stepOk_alias [step_ok]: "stepOk slots_ok (aliasR p) (\<lambda>_. slots_ok)"
  by (simp add: stepOk_def aliasR_def split: prod.splits)

lemma stepOk_plain [step_ok]: "stepOk slots_ok (plainR p) (\<lambda>_. slots_ok)"
  by (simp add: stepOk_def plainR_def split: prod.splits)

lemmas step_table [step_ok] =
  stepOk_check [of slots_ok] stepOk_get [of slots_ok] stepOk_fs [of slots_ok] stepOk_ret [of slots_ok]
  stepOk_check [of "claimable seg off i", OF claimable_ok] stepOk_fs [of "claimable seg off i", OF claimable_ok] for seg off i

lemma stepOk_parent [step_ok]: "stepOk slots_ok (parentR e p) (\<lambda>_. slots_ok)"
  unfolding parentR_def by (auto intro!: step_ok)

lemma stepOk_existing [step_ok]: "stepOk slots_ok (existingR p) (\<lambda>_. slots_ok)"
  unfolding existingR_def by (auto intro!: step_ok)

lemma stepOk_alloc [step_ok]: "stepOk slots_ok (allocR r) (\<lambda>i. claimable (rg_es r) (rg_di r) i)"
  unfolding stepOk_def allocR_def getR_def by (auto split: option.splits intro: alloc_claimable)

lemma stepOk_claim [step_ok]: "stepOk (claimable (rg_es r) (rg_di r) i) (modR (claim_slot r i ino)) (\<lambda>_. slots_ok)"
  by (rule stepOk_mod) (auto simp: claim_slot_def intro!: slots_ok_claim)

lemma stepOk_reread [step_ok]:
  "stepOk slots_ok (reread_slot e i ino) (\<lambda>_. slots_ok)"
  "stepOk (claimable seg off k) (reread_slot e i ino) (\<lambda>_. claimable seg off k)"
  unfolding reread_slot_def
  by (rule stepOk_bind, (rule stepOk_fs, simp add: claimable_ok)?, rule stepOk_mod,
      simp add: slots_ok_upd claimable_upd)+

lemma stepOk_sft [step_ok]: "stepOk slots_ok (modR (\<lambda>d. sft_upd (rg_es r, rg_di r) (f d) d)) (\<lambda>_. slots_ok)"
  by (rule stepOk_mod) (simp add: sft_upd_def)

lemma stepOk_id [step_ok]: "stepOk slots_ok (retR x) (\<lambda>_. slots_ok)" by (rule stepOk_ret)

lemma stepOk_keep_slot [step_ok]:
  "stepOk slots_ok (modR (slot_upd i (\<lambda>s. s\<lparr>os_inode := inode\<rparr>))) (\<lambda>_. slots_ok)"
  by (rule stepOk_mod) (simp add: slots_ok_upd)

lemma stepOk_undo_release [step_ok]: "stepOk P m Q \<Longrightarrow> stepOk P (undoR m (release_slot i)) Q"
  by (rule stepOk_undo) simp_all

lemma fsE_open: "rd_open (snd (fsE e m d)) = rd_open d"
  by (simp add: fsE_def split: prod.splits sum.splits)

lemma fsE_cases:
  obtains x d' where "fsE e m d = (x, d')" "rd_open d' = rd_open d"
proof (cases "fsE e m d")
  case (Pair x d')
  then have "rd_open d' = rd_open d" using fsE_open [of e m d] by simp
  with Pair show ?thesis by (rule that)
qed

lemma stepOk_truncate [step_ok]:
  "stepOk (claimable seg off k) (open_truncate ext r i ino) (\<lambda>_. claimable seg off k)"
  unfolding stepOk_def
proof (intro allI impI)
  fix d :: "'a redir"
  assume d: "claimable seg off k (rd_open d)"
  obtain x d' where f: "fsE dos_err_write_protect (ext4_file_truncate ino 0 (i_mtime (os_inode (rd_open d ! i)) + 1)) d = (x, d')"
    and o: "rd_open d' = rd_open d"
    by (rule fsE_cases)
  have d': "claimable seg off k (rd_open d')" unfolding o by (rule d)
  note re = stepOk_reread(2) [of seg off k dos_err_file_not_found i ino, unfolded stepOk_def, rule_format, OF d']
  show "case open_truncate ext r i ino d of
      (Inl _, d') \<Rightarrow> slots_ok (rd_open d') | (Inr _, d') \<Rightarrow> claimable seg off k (rd_open d')"
    unfolding open_truncate_def Let_def f using d d' re
    by (cases x) (simp_all only: prod.case sum.case if_split_asm split: if_split, simp_all)
qed

lemma stepOk_create [step_ok]: "stepOk slots_ok (create_in_slot r p n e) (\<lambda>_. slots_ok)"
  unfolding create_in_slot_def by (auto intro!: step_ok)

lemma stepOk_found [step_ok]: "stepOk slots_ok (open_found ext p ino r) (\<lambda>_. slots_ok)"
  unfolding open_found_def Let_def by (auto intro!: step_ok)

lemma reply_ok:
  assumes "stepOk slots_ok m (\<lambda>_. slots_ok)" "slots_ok (rd_open d)"
  shows "slots_ok (rd_open (snd (reply r m d)))"
  using assms unfolding stepOk_def reply_def by (fastforce split: prod.splits sum.splits)

lemma stepOk_fail [step_ok]: "stepOk slots_ok (\<lambda>d. (Inl e, d)) Q"
  by (simp add: stepOk_def)

lemma rem_calls_ok:
  assumes "slots_ok (rd_open d)"
  shows "slots_ok (rd_open (snd (rem_rmdir src r d)))"
    "slots_ok (rd_open (snd (rem_delete src r d)))"
    "slots_ok (rd_open (snd (rem_mkdir src r d)))"
    "slots_ok (rd_open (snd (rem_rename src dsrc r d)))"
    "slots_ok (rd_open (snd (rem_create src r d)))"
    "slots_ok (rd_open (snd (rem_open src r d)))"
  unfolding rem_rmdir_def rem_delete_def rem_mkdir_def rem_rename_def rem_create_def rem_open_def Let_def
  by (rule reply_ok [OF _ assms], auto intro!: step_ok)+

text \<open>A step whose argument is computed from the state it starts in.\<close>

lemma stepOk_here: "(\<And>s. stepOk P (g s) Q) \<Longrightarrow> stepOk P (\<lambda>d. g d d) Q"
  by (simp add: stepOk_def)

lemma stepOk_fs_here [step_ok]: "stepOk slots_ok (\<lambda>d. fsE e (m d) d) (\<lambda>_. slots_ok)"
  by (rule stepOk_here, rule stepOk_fs)

lemma stepOk_reread_here [step_ok]: "stepOk slots_ok (\<lambda>d. reread_slot e i (ino d) d) (\<lambda>_. slots_ok)"
  by (rule stepOk_here, rule stepOk_reread)

lemma stepOk_same_table [step_ok]: "(\<And>d. rd_open (f d) = rd_open d) \<Longrightarrow> stepOk slots_ok (modR f) (\<lambda>_. slots_ok)"
  by (rule stepOk_mod) simp

lemma stepOk_slot_op [step_ok]: "stepOk slots_ok (slot_op i m) (\<lambda>_. slots_ok)"
  unfolding slot_op_def Let_def by (rule stepOk_here) (auto intro!: step_ok)

lemma stepOk_write_blocks [step_ok]: "stepOk slots_ok (write_blocks i bs l now ks) (\<lambda>_. slots_ok)"
  by (induction ks) (auto intro!: step_ok simp: load_wbuf_def)

lemma stepOk_append_blocks [step_ok]: "stepOk slots_ok (append_blocks i bs now n ks) (\<lambda>_. slots_ok)"
  by (induction ks) (auto intro!: step_ok simp: load_wbuf_def Let_def)

lemma stepOk_overlay [step_ok]: "stepOk slots_ok (overlay_block i bs l off n now) (\<lambda>_. slots_ok)"
  unfolding overlay_block_def by (auto intro!: step_ok)

lemma stepOk_extend [step_ok]: "stepOk slots_ok (extend_to n i bs pos) (\<lambda>_. slots_ok)"
proof (induction n)
  case (Suc n)
  let ?m = "\<lambda>d :: 'a redir. bindR (slot_op i (\<lambda>inode ino b. ext4_file_extend_block inode ino b
      (min (pos - ucast (i_size (os_inode (rd_open d ! i)))) bs) (i_mtime inode + 1)))
      (\<lambda>_. extend_to n i bs pos)"
  have "stepOk slots_ok (\<lambda>d. ?m d d) (\<lambda>_. slots_ok)" by (rule stepOk_here [where g = ?m]) (auto intro!: step_ok Suc)
  then show ?case by (simp add: stepOk_def Let_def)
qed (simp add: stepOk_def)

lemma stepOk_set_size [step_ok]: "stepOk slots_ok (write_set_size r i bs pos fsize) (\<lambda>_. slots_ok)"
  unfolding write_set_size_def Let_def
  by (auto intro!: step_ok simp: sft_size_from_def sft_upd_def)

lemma stepOk_write_data [step_ok]: "stepOk slots_ok (write_data i bs pos fsize n) (\<lambda>_. slots_ok)"
  unfolding write_data_def Let_def by (rule stepOk_here) (auto intro!: step_ok simp: load_wbuf_def)

lemma rem_write_ok:
  assumes "slots_ok (rd_open d)" "rem_write r d = Some (r', d')"
  shows "slots_ok (rd_open d')"
proof -
  have "stepOk slots_ok (bindR (write_data i bs pos fsize n) (\<lambda>_.
      bindR (modR (\<lambda>d. sft_size_from r i (sft_upd p f d))) (\<lambda>_. retR id))) (\<lambda>_. slots_ok)"
    for i bs pos fsize n p f
    by (auto intro!: step_ok simp: sft_size_from_def sft_upd_def)
  note w = reply_ok [OF this assms(1)] and s = reply_ok [OF stepOk_set_size assms(1)]
  show ?thesis
    using assms w s unfolding rem_write_def Let_def
    by (auto split: option.splits if_splits) (metis snd_conv)+
qed

lemma rem_close_ok: "slots_ok (rd_open d) \<Longrightarrow> slots_ok (rd_open (snd (rem_close r d)))"
  by (simp add: rem_close_def sft_upd_def split: option.splits)

lemma rem_read_ok: "slots_ok (rd_open d) \<Longrightarrow> slots_ok (rd_open (snd (rem_read r d)))"
  by (simp add: rem_read_def sft_upd_def Let_def split: option.splits)

lemma search_ok:
  "slots_ok (rd_open d) \<Longrightarrow> slots_ok (rd_open (snd (rem_findfirst p r d)))"
  "slots_ok (rd_open d) \<Longrightarrow> slots_ok (rd_open (snd (rem_findnext p r d)))"
  by (simp_all add: rem_findfirst_def rem_findnext_def do_findfirst_or_next_def
      split: prod.splits sum.splits option.splits)

subsection \<open>Reachable tables\<close>

text \<open>The states the resident driver can be in: it starts with no slot in use, and each interrupt
  that reaches one of its hooks moves it on.\<close>

inductive tsr_reach :: "'c redir \<Rightarrow> bool" where
  loaded: "length (rd_open d) = max_open_slots \<Longrightarrow> \<forall>s \<in> set (rd_open d). \<not> os_used s \<Longrightarrow> tsr_reach d"
| int2f: "tsr_reach d \<Longrightarrow> int2f_call src dsrc qsrc r d = Done r' d' \<Longrightarrow> tsr_reach d'"
| chained: "tsr_reach d \<Longrightarrow> int2f_call src dsrc qsrc r d = Chain d' \<Longrightarrow> tsr_reach d'"
| int21: "tsr_reach d \<Longrightarrow> int21_call q mem sda head path r d = Return r' d' \<Longrightarrow> tsr_reach d'"
| passed: "tsr_reach d \<Longrightarrow> int21_call q mem sda head path r d = Pass d' \<Longrightarrow> tsr_reach d'"

lemma int2f_dispatch_ok:
  assumes "slots_ok (rd_open d)" "int2f_dispatch src dsrc qsrc r d = Done r' d'"
  shows "slots_ok (rd_open d')"
proof -
  have q: "slots_ok (rd_open (snd (rem_qualify qsrc r d)))" using assms(1) by (simp add: rem_qualify_def)
  note oks = rem_calls_ok [OF assms(1)] rem_close_ok [OF assms(1)] rem_read_ok [OF assms(1)]
    search_ok [OF assms(1)] q
  show ?thesis
    using assms(2) oks rem_write_ok [OF assms(1)] assms(1)
    unfolding int2f_dispatch_def Let_def
    by (simp split: if_splits prod.splits option.splits) (metis snd_conv)+
qed

lemma count_call_table [simp]: "rd_open (count_call r d) = rd_open d" "rd_safe_bs (count_call r d) = rd_safe_bs d"
  by (simp_all add: count_call_def Let_def)

lemma int2f_call_ok:
  "slots_ok (rd_open d) \<Longrightarrow> int2f_call src dsrc qsrc r d = Done r' d' \<Longrightarrow> slots_ok (rd_open d')"
  using int2f_dispatch_ok [of "count_call r d" src dsrc qsrc r r' d']
  unfolding int2f_call_def Let_def probe_uninstall_def
  by (auto split: if_splits)

lemma int2f_chain_table: "int2f_call src dsrc qsrc r d = Chain d' \<Longrightarrow> rd_open d' = rd_open d"
  unfolding int2f_call_def int2f_dispatch_def Let_def probe_uninstall_def
  by (auto split: if_splits prod.splits option.splits)

lemma int21_call_table:
  "int21_call q mem sda head path r d = Return r' d' \<Longrightarrow> rd_open d' = rd_open d"
  "int21_call q mem sda head path r d = Pass d' \<Longrightarrow> rd_open d' = rd_open d"
  unfolding int21_call_def int21_rest_def by (auto split: if_splits option.splits prod.splits)

text \<open>C20: However DOS calls the driver, in whatever order and with whatever arguments, failed calls
  included: the table of open files keeps its eight slots, and no two slots in use belong to the same
  system file table entry, so a read, write or close finds at most one.\<close>

theorem open_table_invariant:
  assumes "tsr_reach d"
  shows "slots_ok (rd_open d)"
  using assms
proof induction
  case (loaded d)
  then show ?case by (auto simp: slots_ok_def)
qed (simp_all add: int2f_call_ok int2f_chain_table int21_call_table)

definition no_sft :: sft where
  "no_sft = \<lparr>sf_ref_count = 0, sf_open_mode = 0, sf_attr = 0, sf_devinfo = 0, sf_time = 0, sf_date = 0,
     sf_size = 0, sf_position = 0, sf_uid = 0, sf_pid = 0\<rparr>"

definition no_slot :: open_slot where
  "no_slot = \<lparr>os_used = False, os_seg = 0, os_off = 0, os_num = 0, os_inode = created_inode\<rparr>"

definition redir_of :: "'c ext4_fs \<Rightarrow> 'c redir" where
  "redir_of fs = \<lparr>rd_fs = fs, rd_ready = True, rd_open = replicate 8 no_slot, rd_sft = (\<lambda>_. no_sft),
     rd_user = zero_buf, rd_wbuf = zero_buf,
     rd_dirent = \<lparr>dd_name = [], dd_attrib = 0, dd_time = 0, dd_date = 0, dd_size = 0\<rparr>,
     rd_dm_drive = 0, rd_dm_entry = 0, rd_dm_attr = 0, rd_sattr = 0, rd_drive = 0x59, rd_index = 24,
     rd_safe_bs = 1024, rd_safe_blocks = 64, rd_safe_free = 0,
     rd_esdi = zero_buf, rd_vec2f = (0x100, 0x20), rd_vec21 = (0x100, 0x30), rd_my2f = (0x100, 0x20),
     rd_my21 = (0x100, 0x30), rd_prev2f = (0x70, 0), rd_prev21 = (0x71, 0), rd_counts = replicate 64 0,
     rd_capture = (0x200, 0), rd_cds_flags = Some 0x8000, rd_psp = 0x100\<rparr>"

theorem open_table_invariant_witness: "tsr_reach (redir_of sample) \<and> slots_ok (rd_open (redir_of sample))"
proof -
  have "tsr_reach (redir_of sample)" by (rule loaded) (simp_all add: redir_of_def no_slot_def max_open_slots_def)
  then show ?thesis using open_table_invariant [of "redir_of sample"] by simp
qed

section \<open>The write buffer\<close>


section \<open>Free space\<close>

lemma unat_half: "unat (drop_bit 1 w :: u32) = unat w div 2"
  unfolding unat_drop_bit_eq by (simp add: drop_bit_eq_div)

lemma unat_inc: "w \<noteq> 0xFFFFFFFF \<Longrightarrow> unat (w + 1 :: u32) = unat w + 1"
proof -
  assume "w \<noteq> 0xFFFFFFFF"
  then have "unat w \<noteq> unat (0xFFFFFFFF :: u32)" by (metis word_unat_eq_iff)
  then have "unat w + 1 < 2 ^ 32" using unsigned_less [of w, where 'a = nat] by simp
  then show ?thesis by (simp add: unat_word_ariths)
qed

lemma space_scale_bounds:
  assumes "space_scale n spc blocks free = (spc', blocks', free')" "0 < spc" "unat spc < 128" "blocks \<noteq> 0xFFFFFFFF"
  shows "0 < spc' \<and> unat spc' * unat free' \<le> unat spc * unat free \<and>
     unat spc * unat blocks \<le> unat spc' * unat blocks' \<and>
     (unat blocks \<le> 0xFFFF \<and> unat free \<le> 0xFFFF \<longrightarrow> spc' = spc \<and> blocks' = blocks \<and> free' = free)"
  using assms
proof (induction n spc blocks free rule: space_scale.induct)
  case (2 n spc blocks free)
  show ?case
  proof (cases "(0xFFFF < blocks \<or> 0xFFFF < free) \<and> spc < 64")
    case True
    then have lt: "unat spc < 64" by (simp add: word_less_nat_alt)
    have s: "unat (spc * 2) = 2 * unat spc"
      using lt by (simp add: unat_word_ariths)
    have b: "unat (drop_bit 1 (blocks + 1)) = (unat blocks + 1) div 2"
      using unat_inc [OF 2(5)] by (simp only: unat_half)
    have unat_max: "unat (0xFFFFFFFF :: u32) = 2 ^ 32 - 1" by simp
    have "(unat blocks + 1) div 2 < 2 ^ 32 - 1" using unsigned_less [of blocks, where 'a = nat] by simp
    then have nb: "drop_bit 1 (blocks + 1) \<noteq> 0xFFFFFFFF" using b by (metis less_irrefl unat_max)
    have big: "\<not> (unat blocks \<le> 0xFFFF \<and> unat free \<le> 0xFFFF)"
      using True by (auto simp: word_less_nat_alt)
    have sp: "0 < spc * 2" "unat (spc * 2) < 128" using s lt 2(3) by (simp_all add: word_gt_0 unat_gt_0 word_less_nat_alt)
    note ih = 2(1) [OF True _ sp nb]
    have "space_scale n (spc * 2) (drop_bit 1 (blocks + 1)) (drop_bit 1 free) = (spc', blocks', free')"
      using 2(2) True by simp
    note ih = ih [OF this]
    have "unat (spc * 2) * unat (drop_bit 1 free) \<le> unat spc * unat free"
    proof -
      have "2 * (unat free div 2) \<le> unat free" by simp
      then have "unat spc * (2 * (unat free div 2)) \<le> unat spc * unat free" by (rule mult_le_mono2)
      then show ?thesis by (simp only: s unat_half mult.assoc mult.left_commute)
    qed
    moreover have "unat spc * unat blocks \<le> unat (spc * 2) * unat (drop_bit 1 (blocks + 1))"
    proof -
      have "unat blocks \<le> 2 * ((unat blocks + 1) div 2)" by simp
      then have "unat spc * unat blocks \<le> unat spc * (2 * ((unat blocks + 1) div 2))" by (rule mult_le_mono2)
      then show ?thesis by (simp only: s b mult.assoc mult.left_commute)
    qed
    ultimately show ?thesis using ih big by linarith
  next
    case False
    then show ?thesis using 2 by auto
  qed
qed auto

text \<open>Get Disk Space (AL=0Ch) never reports more free space than there is, and, unless it
  clamps the count at 65535 or the volume has 2^32 - 1 blocks, no less total space; when both block
  counts fit into 16 bits it reports them as they are.\<close>

theorem disk_space_conservative:
  assumes "rd_ready d" "512 \<le> unat (rd_safe_bs d)" "unat (rd_safe_bs d) \<le> 0x8000"
    "rd_safe_blocks d \<noteq> 0xFFFFFFFF"
  shows "unat (rg_ax (rem_space r d)) * unat (rg_dx (rem_space r d))
      \<le> unat (rd_safe_bs d) div 512 * unat (rd_safe_free d) \<and>
    (rg_bx (rem_space r d) \<noteq> 0xFFFF \<longrightarrow>
       unat (rd_safe_bs d) div 512 * unat (rd_safe_blocks d)
       \<le> unat (rg_ax (rem_space r d)) * unat (rg_bx (rem_space r d))) \<and>
    (unat (rd_safe_blocks d) \<le> 0xFFFF \<and> unat (rd_safe_free d) \<le> 0xFFFF \<longrightarrow>
       unat (rg_ax (rem_space r d)) = unat (rd_safe_bs d) div 512 \<and>
       unat (rg_bx (rem_space r d)) = unat (rd_safe_blocks d) \<and>
       unat (rg_dx (rem_space r d)) = unat (rd_safe_free d))"
proof -
  let ?spc = "ucast (rd_safe_bs d div 512) :: u16"
  have q: "unat (rd_safe_bs d div 512) = unat (rd_safe_bs d) div 512" by (simp add: unat_div)
  have small: "unat (rd_safe_bs d) div 512 \<le> 64" using assms(3) by simp
  have u: "unat ?spc = unat (rd_safe_bs d) div 512"
    using small q by (simp add: unsigned_ucast_eq take_bit_nat_eq_self)
  have pos: "0 < unat ?spc" using assms(2) u by simp
  obtain spc blocks free where s: "space_scale 6 ?spc (rd_safe_blocks d) (rd_safe_free d) = (spc, blocks, free)"
    by (metis prod_cases3)
  note b = space_scale_bounds [OF s _ _ assms(4), unfolded u]
  have "0 < ?spc" "unat ?spc < 128" using pos u small by (simp_all add: word_less_nat_alt)
  note b = b [OF this(1) this(2) [unfolded u]]
  let ?b = "if 0xFFFF < blocks then 0xFFFF else blocks" and ?f = "if 0xFFFF < free then 0xFFFF else free"
  have cut: "unat (ucast ?b :: u16) = min (unat blocks) 0xFFFF" "unat (ucast ?f :: u16) = min (unat free) 0xFFFF"
    by (auto simp: word_less_nat_alt min_def unsigned_ucast_eq take_bit_nat_eq_self)
  have r: "rg_ax (rem_space r d) = spc" "rg_bx (rem_space r d) = ucast ?b" "rg_dx (rem_space r d) = ucast ?f"
    using assms(1) s pos by (auto simp: rem_space_def Let_def)
  have "unat spc * min (unat free) 0xFFFF \<le> unat (rd_safe_bs d) div 512 * unat (rd_safe_free d)"
    using b by (meson le_trans min.cobounded1 mult_le_mono2)
  moreover have "ucast ?b \<noteq> (0xFFFF :: u16) \<Longrightarrow> min (unat blocks) 0xFFFF = unat blocks"
  proof -
    assume "ucast ?b \<noteq> (0xFFFF :: u16)"
    then have "unat (ucast ?b :: u16) \<noteq> unat (0xFFFF :: u16)" by (metis word_unat_eq_iff)
    then show ?thesis using cut(1) by (simp add: min_def split: if_splits)
  qed
  ultimately show ?thesis using b u unfolding r cut by auto
qed

definition big_volume :: "file_ctx redir" where
  "big_volume = (redir_of sample)\<lparr>rd_safe_bs := 4096, rd_safe_blocks := 0x20001, rd_safe_free := 0x10001\<rparr>"

definition no_regs :: regs where
  "no_regs = \<lparr>rg_ax = 0, rg_bx = 0, rg_cx = 0, rg_dx = 0, rg_si = 0, rg_di = 0, rg_es = 0, rg_carry = False\<rparr>"

lemma big_volume_scale: "space_scale 6 8 0x20001 0x10001 = (32, 0x8001, 0x4000)"
  by code_simp

lemma big_volume_reply: "rg_ax (rem_space no_regs big_volume) = 32" "rg_bx (rem_space no_regs big_volume) = 0x8001"
  using big_volume_scale by (simp_all add: rem_space_def big_volume_def redir_of_def Let_def)

theorem disk_space_conservative_witness:
  "unat (rg_ax (rem_space no_regs big_volume)) * unat (rg_dx (rem_space no_regs big_volume)) \<le> 8 * 0x10001 \<and>
   8 * 0x20001 \<le> unat (rg_ax (rem_space no_regs big_volume)) * unat (rg_bx (rem_space no_regs big_volume))"
proof -
  have "rd_ready big_volume" "rd_safe_bs big_volume = 4096" "rd_safe_blocks big_volume = 0x20001"
      "rd_safe_free big_volume = 0x10001"
    by (simp_all add: big_volume_def redir_of_def)
  then show ?thesis using disk_space_conservative [of big_volume no_regs] big_volume_reply by simp
qed

section \<open>Handles\<close>

text \<open>A chain of system file table blocks from \<open>p\<close>: where each block is and how many entries it
  has.\<close>

fun sft_chain :: "(far \<Rightarrow> byte) \<Rightarrow> far \<Rightarrow> (far \<times> u16) list \<Rightarrow> bool" where
  "sft_chain mem p [] \<longleftrightarrow> p = (0, 0)"
| "sft_chain mem p ((q, count) # bs) \<longleftrightarrow>
     p = q \<and> q \<noteq> (0, 0) \<and> peek16 mem q 4 = count \<and>
     (if snd (peek_far mem q 0) = 0xFFFF then bs = [] else sft_chain mem (peek_far mem q 0) bs)"

text \<open>The addresses of all entries, block after block.\<close>

definition block_entries :: "far \<times> u16 \<Rightarrow> far list" where
  "block_entries b = map (\<lambda>k. (fst (fst b), snd (fst b) + 6 + word_of_nat k * 0x3B)) [0..<unat (snd b)]"

definition sft_entries :: "(far \<times> u16) list \<Rightarrow> far list" where
  "sft_entries bs = concat (map block_entries bs)"

lemma length_block_entries [simp]: "length (block_entries (q, c)) = unat c"
  by (simp add: block_entries_def)

lemma block_entry: "n < c \<Longrightarrow> block_entries (q, c) ! unat n = (fst q, snd q + 6 + n * 0x3B)"
  by (simp add: block_entries_def word_less_nat_alt)

lemma sft_walk_entries:
  "sft_chain mem p bs \<Longrightarrow>
     sft_walk mem p n = Some (if unat n < length (sft_entries bs) then Some (sft_entries bs ! unat n) else None)"
proof (induction mem p bs arbitrary: n rule: sft_chain.induct)
  case (1 mem p)
  then show ?case by (subst sft_walk.simps) (simp add: sft_entries_def)
next
  case (2 mem p q count bs)
  show ?case
  proof (cases "n < count")
    case True
    then have "unat n < unat count" by (simp add: word_less_nat_alt)
    then show ?thesis using 2(2) True
      by (subst sft_walk.simps)
        (simp add: sft_entries_def nth_append block_entry sft_block_entry_off_def sft_entry_size_def Let_def)
  next
    case False
    then have le: "unat count \<le> unat n" and sub: "unat (n - count) = unat n - unat count"
      by (simp_all add: word_le_nat_alt not_less unat_sub)
    then show ?thesis using 2(2) 2(1) [of "n - count"] False
      by (subst sft_walk.simps) (auto simp: sft_entries_def nth_append Let_def split: if_splits)
  qed
qed

text \<open>On MS-DOS 4, where the hook is on, the device-information call (AX=4400h) for a handle
  follows the handle's table number along the chain of system file table blocks and returns.  When
  that entry belongs to a file open on our drive the answer carries the network bit and the drive
  number; when it does not, or there is no such entry, DOS gets the call.\<close>

theorem handle_info:
  assumes "q_ioctl_hook q" "rd_ready d" "head \<noteq> (0, 0)" "sda \<noteq> (0, 0)" "rg_ax r = 0x4400"
    "jft_entry mem sda (rg_bx r) = Some idx" "sft_chain mem head bs"
  shows "int21_call q mem sda head path r d =
    (if unat idx < length (sft_entries bs) \<and>
        find_open_slot (fst (sft_entries bs ! unat idx)) (snd (sft_entries bs ! unat idx)) (rd_open d) \<noteq> None
     then Return (r\<lparr>rg_dx := 0x8000 OR (ucast (rd_index d) AND 0x3F), rg_ax := 0, rg_carry := False\<rparr>) d
     else Pass d)"
proof -
  have u: "unat (ucast idx :: u16) = unat idx"
    using unsigned_less [of idx, where 'a = nat] by (simp add: unsigned_ucast_eq take_bit_nat_eq_self)
  have w: "handle_sft mem sda head (rg_bx r) =
      Some (if unat idx < length (sft_entries bs) then Some (sft_entries bs ! unat idx) else None)"
    using assms(6) sft_walk_entries [OF assms(7), of "ucast idx"] by (simp add: handle_sft_def u)
  have "int21_rest q path r d = Pass d" using assms(5) by (simp add: int21_rest_def ah_is_def)
  then show ?thesis using assms w by (auto simp: int21_call_def ioctl_info_def split: option.splits)
qed

text \<open>A process whose handle 5 is entry 1 of the only block, and that entry open on our drive.\<close>

definition dos_memory :: "far \<Rightarrow> byte" where
  "dos_memory = (\<lambda>_. 0)((1, 0x10) := 2, (2, 0x32) := 20, (2, 0x34) := 0x18, (2, 0x36) := 2,
     (2, 0x1D) := 1, (3, 4) := 2, (3, 0) := 0xFF, (3, 1) := 0xFF)"

definition one_open :: "file_ctx redir" where
  "one_open = (redir_of sample)\<lparr>rd_open := no_slot\<lparr>os_used := True, os_seg := 3, os_off := 0x41\<rparr> # replicate 7 no_slot\<rparr>"

lemma dos_memory_facts:
  "jft_entry dos_memory (1, 0) 5 = Some 1" "sft_chain dos_memory (3, 0) [((3, 0), 2)]"
  "block_entries ((3, 0), 2) = [(3, 6), (3, 0x41)]"
  by code_simp+

theorem handle_info_witness:
  "int21_call (detect_dos_quirks 4 0 0) dos_memory (1, 0) (3, 0) [] (no_regs\<lparr>rg_ax := 0x4400, rg_bx := 5\<rparr>) one_open =
     Return (no_regs\<lparr>rg_ax := 0, rg_bx := 5, rg_dx := 0x8018\<rparr>) one_open"
proof -
  have f: "find_open_slot 3 0x41 (rd_open one_open) = Some 0"
    by (simp add: one_open_def find_open_slot_def slot_is_def)
  have "rd_index one_open = 24" "rd_ready one_open" by (simp_all add: one_open_def redir_of_def)
  then show ?thesis
    using handle_info [OF _ _ _ _ _ _ dos_memory_facts(2), of "detect_dos_quirks 4 0 0" one_open "(1, 0)"
        "no_regs\<lparr>rg_ax := 0x4400, rg_bx := 5\<rparr>" 1 "[]"] dos_memory_facts(1, 3) f
    by (simp add: detect_dos_quirks_def no_regs_def sft_entries_def)
qed

section \<open>Installing\<close>

lemma pick_from_sound:
  "pick_from is flags = l \<Longrightarrow> l \<noteq> 0 \<Longrightarrow> \<exists>i \<in> set is. flags i = 0 \<and> l = 0x41 + word_of_nat i"
  by (induction "is" flags rule: pick_from.induct) (auto split: if_splits)

lemma letter_index: "i < 26 \<Longrightarrow> unat (0x41 + word_of_nat i - 0x41 :: byte) = i"
  by (simp add: unsigned_of_nat take_bit_nat_eq_self)

text \<open>The driver stays resident only on a file system the feature gate accepts, under a
  drive letter that, unless the command line named it, no other driver had claimed; the numbers the
  free-space calls report are those of the mounted superblock; and the directory structure it leaves
  names the drive's root and carries the redirector flag.\<close>

theorem install_checked:
  assumes "tsr_main args lastdrive cds version disks = (Resident re, disks')" "unat lastdrive \<le> 26"
  shows "ext4_features_check_supported (fs_sb (re_fs re)) = Inr () \<and>
    re_safe_bs re = block_size (re_fs re) \<and>
    push_bit 32 (ucast (re_safe_blocks_hi re)) OR ucast (re_safe_blocks re) = s_blocks_count (fs_sb (re_fs re)) \<and>
    (opt_letter (parse_args args \<lparr>opt_quiet = False, opt_uninstall = False, opt_help = False,
        opt_drive = None, opt_letter = None\<rparr>) = None \<longrightarrow>
       3 \<le> unat (re_index re) \<and> unat (re_index re) < unat lastdrive \<and> le16 (cds (unat (re_index re))) 0x43 = 0) \<and>
    bytes_of (re_cds re) 0 4 = [re_letter re, 0x3A, 0x5C, 0] \<and>
    le16 (re_cds re) 0x43 AND 0x8000 = 0x8000"
proof -
  let ?os = "parse_args args \<lparr>opt_quiet = False, opt_uninstall = False, opt_help = False,
        opt_drive = None, opt_letter = None\<rparr>"
  let ?pick = "pick_drive_letter lastdrive (\<lambda>i. le16 (cds i) 0x43)"
  obtain letter fs where m: "letter \<noteq> 0" "letter = (case opt_letter ?os of Some l \<Rightarrow> l | None \<Rightarrow> ?pick)"
      "ext4_features_check_supported (fs_sb fs) = Inr ()" "re = go_resident letter version cds fs"
    using assms(1) unfolding tsr_main_def Let_def
    by (auto split: if_splits prod.splits sum.splits)
  have words: "push_bit 32 (ucast (ucast (drop_bit 32 w) :: u32)) OR ucast (ucast w :: u32) = w" for w :: u64
    by (rule bit_word_eqI) (auto simp: bit_simps)
  have letter: "3 \<le> unat (letter - 0x41) \<and> unat (letter - 0x41) < unat lastdrive \<and>
      le16 (cds (unat (letter - 0x41))) 0x43 = 0" if "opt_letter ?os = None"
  proof -
    have "?pick \<noteq> 0" "letter = ?pick" using m that by simp_all
    then obtain i where "i \<in> set [3..<unat lastdrive]" "le16 (cds i) 0x43 = 0" "letter = 0x41 + word_of_nat i"
      using pick_from_sound [of "[3..<unat lastdrive]" "\<lambda>i. le16 (cds i) 0x43" letter]
      by (auto simp: pick_drive_letter_def)
    then show ?thesis using letter_index [of i] assms(2) by auto
  qed
  have flag: "le16 (hook_cds q l b) 0x43 = q_cds_flags q" for q l b by (simp add: hook_cds_def Let_def)
  have path: "bytes_of (hook_cds q l b) 0 4 = [l, 0x3A, 0x5C, 0]" for q l b
    by (simp add: hook_cds_def Let_def bytes_of_def upt_rec put_le16_def put_bytes_def)
  show ?thesis
    using m(3) letter
    by (simp add: m(4) go_resident_def Let_def words flag path detect_dos_quirks_def)
qed

text \<open>A disk of 64 blocks without a partition table or a journal, named on the command line.\<close>

definition bare_image :: buf where
  "bare_image = zero_buf(1028 := 64, 1057 := 0x20, 1080 := 0x53, 1081 := 0xEF)"

definition bare_disks :: "byte \<Rightarrow> file_ctx blockdev option" where
  "bare_disks = [0x80 \<mapsto> file_bdev_open_rw bare_image 65536]"

definition bare_super :: buf where
  "bare_super = (\<lambda>i. if i < 1024 then bare_image (1024 + i) else 0)"

lemma bare_super_read:
  "bdev_read (file_bdev_open_rw bare_image 65536) (0 + ucast (1024 div 512 :: u32)) (1024 div 512) = Inr bare_super"
  "\<exists>rc. mbr_read (file_bdev_open_rw bare_image 65536) = Inl rc"
  unfolding bare_super_def bare_image_def zero_buf_def
  by (simp_all add: bdev_read_def mbr_read_def mbr_parse_def file_bdev_open_rw_def file_bdev_open_mode_def
      file_bdev_read_def file_off_def file_want_def le16_def cong: if_cong)

lemma bare_super_parse:
  "\<exists>sb. ext4_superblock_parse bare_super = Inr sb \<and> s_blocks_per_group sb = 0x2000 \<and> s_blocks_count sb = 64 \<and>
     s_journal_inum sb = 0 \<and> s_feature_incompat sb = 0 \<and> s_feature_ro_compat sb = 0"
  by (simp add: ext4_superblock_parse_def Let_def le16_def le32_def bare_super_def bare_image_def zero_buf_def
      ext4_superblock_magic_def)

lemma bare_mount:
  "\<exists>fs bd. mount_ext4 0x80 False bare_disks = (Inr fs, bd) \<and>
     ext4_features_check_supported (fs_sb fs) = Inr ()"
proof -
  obtain sb where sb: "ext4_superblock_parse bare_super = Inr sb" "s_blocks_per_group sb = 0x2000"
      "s_blocks_count sb = 64" "s_journal_inum sb = 0" "s_feature_incompat sb = 0" "s_feature_ro_compat sb = 0"
    using bare_super_parse by blast
  have j: "open_journal (fs_bare (file_bdev_open_rw bare_image 65536) 0 sb) =
      (Inr (), upd_jbd (jbd_reset 0) (fs_bare (file_bdev_open_rw bare_image 65536) 0 sb))"
    using sb by (simp add: open_journal_def ext4_journal_init_def bindE_def tryE_def getE_def modE_def retE_def
        fs_bare_def jbd_reset_def)
  have ss: "sector_size (file_bdev_open_rw bare_image 65536) = 512"
    by (simp add: file_bdev_open_rw_def file_bdev_open_mode_def)
  have "ext4_fs_open (file_bdev_open_rw bare_image 65536) 0 =
      (Inr (upd_jbd (jbd_reset 0) (fs_bare (file_bdev_open_rw bare_image 65536) 0 sb)),
       file_bdev_open_rw bare_image 65536)"
    using bare_super_read(1) sb j unfolding ext4_fs_open_def ss
    by (simp add: fs_group_count_def fs_bare_def)
  moreover have "ext4_features_check_supported sb = Inr ()"
    using sb by (simp add: ext4_features_check_supported_def bad_incompat_def bad_ro_compat_def)
  ultimately show ?thesis using bare_super_read(2)
    by (auto simp: mount_ext4_def bare_disks_def mount_lba_def fs_bare_def)
qed

theorem install_checked_witness:
  "\<exists>re disks'. tsr_main [[0x30, 0x78, 0x38, 0x30]] 26 (\<lambda>_. zero_buf) (5, 0, 0) bare_disks = (Resident re, disks') \<and>
     ext4_features_check_supported (fs_sb (re_fs re)) = Inr () \<and>
     bytes_of (re_cds re) 0 4 = [re_letter re, 0x3A, 0x5C, 0] \<and> 3 \<le> unat (re_index re)"
proof -
  let ?args = "[[0x30, 0x78, 0x38, 0x30]] :: byte list list"
  let ?none = "\<lparr>opt_quiet = False, opt_uninstall = False, opt_help = False, opt_drive = None, opt_letter = None\<rparr>"
  have "ucast (strtoul0 [0x30, 0x78, 0x38, 0x30] :: u32) = (0x80 :: byte)"
    by (simp add: strtoul0_def unsigned_value_def is_space_def cstr_at_def digit_of_def upper_def Let_def)
  then have os: "parse_args ?args ?none = ?none\<lparr>opt_drive := Some 0x80\<rparr>"
    by (simp add: parse_arg_def Let_def cstr_at_def)
  have pick: "pick_drive_letter 26 (\<lambda>i. le16 zero_buf 0x43) = 0x44"
    by (simp add: pick_drive_letter_def upt_rec le16_def zero_buf_def)
  obtain fs bd where fs: "mount_ext4 0x80 False bare_disks = (Inr fs, bd)"
      "ext4_features_check_supported (fs_sb fs) = Inr ()"
    using bare_mount by blast
  then have m: "tsr_main ?args 26 (\<lambda>_. zero_buf) (5, 0, 0) bare_disks =
      (Resident (go_resident 0x44 (5, 0, 0) (\<lambda>_. zero_buf) fs), bd)"
    unfolding tsr_main_def os by (simp add: pick mount_wanted_def)
  define re where "re = go_resident 0x44 (5, 0, 0) (\<lambda>_. zero_buf) fs"
  note c = install_checked [OF m [folded re_def], unfolded os]
  show ?thesis
    by (rule exI [of _ re], rule exI [of _ bd], intro conjI, rule m [folded re_def]) (use c in simp_all)
qed

end
