(* ===== verification/DosView.thy ===== *)
theory DosView
  imports DosTables Reading
begin

text \<open>
  Properties of what DOS sees of an ext4 volume: dates, 8.3 names and aliases, directory searches,
  free space and the open-file table.
\<close>

section \<open>Dates\<close>

definition days_before_year :: "nat \<Rightarrow> nat" where
  "days_before_year year = (\<Sum>y = 1970..<year. year_days y)"

definition days_before_month :: "nat \<Rightarrow> nat \<Rightarrow> nat" where
  "days_before_month year month = (\<Sum>m = 1..<month. month_days year m)"

text \<open>The calendar meaning of a packed DOS date and time, in seconds since 1970.\<close>

definition dos_seconds :: "u32 \<Rightarrow> nat" where
  "dos_seconds td =
     (let year = 1980 + unat (take_bit 7 (drop_bit 25 td)); month = unat (take_bit 4 (drop_bit 21 td));
          day = unat (take_bit 5 (drop_bit 16 td)); hour = unat (take_bit 5 (drop_bit 11 td));
          mn = unat (take_bit 6 (drop_bit 5 td)); sc = 2 * unat (take_bit 5 td)
      in (days_before_year year + days_before_month year month + (day - 1)) * 86400
         + hour * 3600 + mn * 60 + sc)"

lemma year_days_bounds: "365 \<le> year_days y" "year_days y \<le> 366" "0 < year_days y"
  by (simp_all add: year_days_def)

lemma utd_years_result:
  assumes "utd_years days year iters = (rest, y)" "days < 365 * (200 - iters)" "iters \<le> 200"
  shows "year \<le> y \<and> rest < year_days y \<and> days = (\<Sum>k = year..<y. year_days k) + rest"
  using assms
proof (induction days year iters rule: utd_years.induct)
  case (1 days year iters)
  show ?case
  proof (cases "days < year_days year")
    case True
    with 1(2) show ?thesis by (simp add: utd_years.simps [of days year iters])
  next
    case False
    have it: "\<not> 200 < iters + 1"
    proof
      assume "200 < iters + 1"
      then have "iters = 200" using 1(4) by simp
      with 1(3) show False by simp
    qed
    have lt: "days - year_days year < 365 * (200 - (iters + 1))"
    proof -
      have "200 - iters = Suc (200 - (iters + 1))" using it by simp
      with 1(3) False year_days_bounds(1) [of year] show ?thesis by simp
    qed
    have e: "utd_years (days - year_days year) (year + 1) (iters + 1) = (rest, y)"
      using 1(2) False it by (simp add: utd_years.simps [of days year iters])
    have "iters + 1 \<le> 200" using it by simp
    from 1(1) [OF False it e lt this]
    have ih: "year + 1 \<le> y" "rest < year_days y"
      "days - year_days year = (\<Sum>k = year + 1..<y. year_days k) + rest" by auto
    have "(\<Sum>k = year..<y. year_days k) = year_days year + (\<Sum>k = year + 1..<y. year_days k)"
      using ih(1) by (simp add: sum.atLeast_Suc_lessThan)
    with ih False show ?thesis by simp
  qed
qed

lemma month_days_pos: "1 \<le> m \<Longrightarrow> m \<le> 12 \<Longrightarrow> 28 \<le> month_days y m \<and> month_days y m \<le> 31"
proof -
  assume "1 \<le> m" "m \<le> 12"
  then have "m = 1 \<or> m = 2 \<or> m = 3 \<or> m = 4 \<or> m = 5 \<or> m = 6 \<or> m = 7 \<or> m = 8 \<or> m = 9 \<or> m = 10 \<or>
      m = 11 \<or> m = 12" by presburger
  then show ?thesis by (elim disjE) (simp_all add: month_days_def)
qed

lemma year_has_months: "(\<Sum>m = 1..<13. month_days y m) = year_days y"
  by (simp add: month_days_def year_days_def numeral_eq_Suc sum.atLeast_Suc_lessThan)

lemma utd_months_result:
  assumes "utd_months days year month = (rest, m)" "1 \<le> month" "month \<le> 12"
    "days < (\<Sum>k = month..<13. month_days year k)"
  shows "month \<le> m \<and> m \<le> 12 \<and> rest < month_days year m \<and> days = (\<Sum>k = month..<m. month_days year k) + rest"
  using assms
proof (induction days year month rule: utd_months.induct)
  case (1 days year month)
  show ?case
  proof (cases "days < month_days year month")
    case True
    with 1(2-4) show ?thesis by (simp add: utd_months.simps [of days year month])
  next
    case False
    have s: "(\<Sum>k = month..<13. month_days year k) = month_days year month + (\<Sum>k = month + 1..<13. month_days year k)"
      using 1(4) by (simp add: sum.atLeast_Suc_lessThan)
    then have lt: "days - month_days year month < (\<Sum>k = month + 1..<13. month_days year k)"
      using 1(5) False by simp
    have "month \<noteq> 12" using lt by auto
    then have m12: "month + 1 \<le> 12" using 1(4) by simp
    have e: "utd_months (days - month_days year month) year (month + 1) = (rest, m)"
      using 1(2,4) False by (simp add: utd_months.simps [of days year month])
    have g: "\<not> (12 < month \<or> days < month_days year month)" using 1(4) False by simp
    from 1(1) [OF g e _ m12 lt] have ih: "month + 1 \<le> m" "m \<le> 12" "rest < month_days year m"
      "days - month_days year month = (\<Sum>k = month + 1..<m. month_days year k) + rest" by auto
    have "(\<Sum>k = month..<m. month_days year k) = month_days year month + (\<Sum>k = month + 1..<m. month_days year k)"
      using ih(1) by (simp add: sum.atLeast_Suc_lessThan)
    with ih False show ?thesis by simp
  qed
qed

text \<open>The fields of the packed date and time come back out of their bits.\<close>

lemma bit_below: "take_bit k a = a \<Longrightarrow> bit (a :: 'a::len word) n \<Longrightarrow> n < k"
  by (metis bit_take_bit_iff)

lemma packed_fields:
  fixes a b c e f g :: u16
  assumes "take_bit 7 a = a" "take_bit 4 b = b" "take_bit 5 c = c" "take_bit 5 e = e" "take_bit 6 f = f" "take_bit 5 g = g"
  defines "td \<equiv> push_bit 16 (ucast (push_bit 9 a OR push_bit 5 b OR c)) OR ucast (push_bit 11 e OR push_bit 5 f OR g) :: u32"
  shows "take_bit 7 (drop_bit 25 td) = ucast a" "take_bit 4 (drop_bit 21 td) = ucast b"
    "take_bit 5 (drop_bit 16 td) = ucast c" "take_bit 5 (drop_bit 11 td) = ucast e"
    "take_bit 6 (drop_bit 5 td) = ucast f" "take_bit 5 td = ucast g"
  unfolding td_def
  by (rule bit_word_eqI, use bit_below [OF assms(1)] bit_below [OF assms(2)] bit_below [OF assms(3)]
    bit_below [OF assms(4)] bit_below [OF assms(5)] bit_below [OF assms(6)] in
    \<open>(auto simp: bit_simps)?; fastforce?\<close>)+

lemma word_field:
  assumes "n < 2 ^ k" "k < 16"
  shows "take_bit k (word_of_nat n :: u16) = word_of_nat n" "unat (word_of_nat n :: u16) = n"
    "unat (ucast (word_of_nat n :: u16) :: u32) = n"
proof -
  have "(2 :: nat) ^ k \<le> 2 ^ 16" using assms(2) by (intro power_increasing) simp_all
  then have l: "n < 2 ^ 16" using assms(1) by simp
  then show u: "unat (word_of_nat n :: u16) = n" by (simp add: unsigned_of_nat take_bit_nat_eq_self)
  show "unat (ucast (word_of_nat n :: u16) :: u32) = n"
    using l by (simp add: unsigned_of_nat unsigned_ucast_eq take_bit_nat_eq_self)
  show "take_bit k (word_of_nat n :: u16) = word_of_nat n"
    by (rule word_unat_eq_iff [THEN iffD2]) (use u assms in \<open>simp add: unsigned_take_bit_eq take_bit_nat_eq_self\<close>)
qed

lemma days_before_1980: "days_before_year 1980 = 3652"
proof -
  have "days_before_year 1980 = sum year_days (set [1970..<1980])"
    by (simp only: days_before_year_def set_upt)
  also have "\<dots> = sum_list (map year_days [1970..<1980])"
    by (rule sum_set_upt_conv_sum_list_nat)
  finally show ?thesis by (simp add: year_days_def is_leap_year_def)
qed

lemma days_before_mono: "y \<le> z \<Longrightarrow> days_before_year y \<le> days_before_year z"
  unfolding days_before_year_def by (intro sum_mono2) auto

lemma days_before_least: "365 * (y - 1970) \<le> days_before_year y"
proof -
  have "(\<Sum>k = 1970..<y. 365) \<le> days_before_year y"
    unfolding days_before_year_def by (intro sum_mono) (rule year_days_bounds)
  then show ?thesis by simp
qed

lemma byte_fields:
  assumes "n < 256"
  shows "(ucast (ucast (word_of_nat n :: u32) :: byte) :: u16) = word_of_nat n"
    "unat (ucast (word_of_nat n :: u32) :: byte) = n"
proof -
  show u: "unat (ucast (word_of_nat n :: u32) :: byte) = n"
    using assms by (simp add: unsigned_of_nat unsigned_ucast_eq take_bit_nat_eq_self)
  show "(ucast (ucast (word_of_nat n :: u32) :: byte) :: u16) = word_of_nat n"
    by (rule word_unat_eq_iff [THEN iffD2])
      (use u assms in \<open>simp add: unsigned_of_nat unsigned_ucast_eq take_bit_nat_eq_self\<close>)
qed

lemma even_part: "(n :: nat) = 2 * k + c \<Longrightarrow> 2 * (n div 2) = 2 * k + 2 * (c div 2)"
  by simp

text \<open>The parts of a time of day, and the years the packed date can hold.\<close>

lemma time_of_day: "s div 3600 * 3600 + s div 60 mod 60 * 60 + 2 * (s mod 60 div 2) = 2 * (s div 2)" for s :: nat
proof -
  have "s div 60 = s div 3600 * 60 + s div 60 mod 60" by (simp add: div_mult2_eq [of _ 60 60, simplified])
  then have "s = s div 3600 * 3600 + s div 60 mod 60 * 60 + s mod 60" using div_mult_mod_eq [of s 60] by linarith
  then have "s = 2 * (s div 3600 * 1800 + s div 60 mod 60 * 30) + s mod 60" by simp
  from even_part [OF this] show ?thesis by simp
qed

lemma time_words:
  fixes w :: u32
  assumes "unat w < 86400"
  shows "w div 3600 = word_of_nat (unat w div 3600)" "w div 60 mod 60 = word_of_nat (unat w div 60 mod 60)"
    "w mod 60 = word_of_nat (unat w mod 60)"
    "(ucast ((ucast (w mod 60) :: byte) div 2) :: u16) = word_of_nat (unat w mod 60 div 2)"
proof -
  show wd: "w div 3600 = word_of_nat (unat w div 3600)" "w div 60 mod 60 = word_of_nat (unat w div 60 mod 60)"
    "w mod 60 = word_of_nat (unat w mod 60)"
    using assms by (simp_all only: word_unat_eq_iff unat_mod unat_div unsigned_of_nat) (simp_all add: take_bit_nat_eq_self)
  have "unat w mod 60 < 256" by simp
  then have "unat ((ucast (w mod 60) :: byte) div 2) = unat w mod 60 div 2"
    unfolding wd(3) unat_div using byte_fields(2) by simp
  then show "(ucast ((ucast (w mod 60) :: byte) div 2) :: u16) = word_of_nat (unat w mod 60 div 2)"
    by (intro word_unat_eq_iff [THEN iffD2]) (simp add: unsigned_ucast_eq unsigned_of_nat take_bit_nat_eq_self)
qed

lemma year_in_range:
  assumes "315532800 \<le> s" "s < 2 ^ 32" "1970 \<le> y" "r < year_days y" "s div 86400 = days_before_year y + r"
  shows "1980 \<le> y" "y - 1980 < 128"
proof -
  show "1980 \<le> y"
  proof (rule ccontr)
    assume "\<not> 1980 \<le> y"
    then have "days_before_year (Suc y) \<le> 3652" using days_before_mono [of "Suc y" 1980] days_before_1980 by simp
    moreover have "days_before_year (Suc y) = days_before_year y + year_days y"
      using assms(3) by (simp add: days_before_year_def)
    ultimately have "s div 86400 < 3652" using assms(4,5) by simp
    with assms(1) show False by simp
  qed
  have "365 * (y - 1970) \<le> s div 86400" using days_before_least [of y] assms(5) by simp
  moreover have "s div 86400 \<le> 49710" using assms(2) by simp
  ultimately show "y - 1980 < 128" by simp
qed

text \<open>
  Every Unix time from 1980 on is translated into the DOS date and time of the same moment, to
  the two seconds DOS can express; earlier times get the first day DOS knows.
\<close>

theorem unix_to_dos_same_moment:
  assumes "315532800 \<le> unat secs"
  shows "dos_seconds (unix_to_dos secs) = 2 * (unat secs div 2)"
proof -
  let ?days = "unat secs div 86400" and ?s = "unat secs mod 86400"
  have lim: "unat secs < 2 ^ LENGTH(32)" by (rule unsigned_less)
  obtain r1 y where y: "utd_years ?days 1970 0 = (r1, y)" by fastforce
  have Y: "1970 \<le> y" "r1 < year_days y" "?days = days_before_year y + r1"
    using utd_years_result [OF y] lim by (auto simp: days_before_year_def)
  obtain r2 m where m: "utd_months r1 y 1 = (r2, m)" by fastforce
  have M: "1 \<le> m" "m \<le> 12" "r2 < month_days y m" "r1 = days_before_month y m + r2"
    using utd_months_result [OF m, unfolded year_has_months] Y(2) by (auto simp: days_before_month_def)
  have yr: "1980 \<le> y" "y - 1980 < 128" using year_in_range [OF assms _ Y] lim by simp_all
  have d: "Suc r2 < 32" using M month_days_pos [of m y] by simp
  let ?h = "?s div 3600" and ?mn = "(?s div 60) mod 60" and ?sc = "?s mod 60"
  have b: "?h < 32" "?mn < 64" "?sc div 2 < 32" "?h < 256" "?mn < 256" by simp_all
  have "unat (secs mod 86400) = ?s" by (simp add: unat_mod)
  then have wd: "secs mod 86400 div 3600 = word_of_nat ?h" "secs mod 86400 div 60 mod 60 = word_of_nat ?mn"
    "(ucast ((ucast (secs mod 86400 mod 60) :: byte) div 2) :: u16) = word_of_nat (?sc div 2)"
    using time_words [of "secs mod 86400"] by simp_all
  have ds: "unat (secs div 86400) = ?days" by (simp add: unat_div)
  have "\<not> y < 1980" using yr by simp
  then have u: "unix_to_dos secs =
      push_bit 16 (ucast (push_bit 9 (word_of_nat (y - 1980)) OR push_bit 5 (word_of_nat m) OR word_of_nat (Suc r2) :: u16))
      OR ucast (push_bit 11 (word_of_nat ?h) OR push_bit 5 (word_of_nat ?mn) OR word_of_nat (?sc div 2) :: u16)"
    unfolding unix_to_dos_def Let_def ds wd byte_fields(1) [OF b(4)] byte_fields(1) [OF b(5)]
    by (simp only: y m prod.case if_False of_nat_Suc add.commute)
  have k: "(7 :: nat) < 16" "(4 :: nat) < 16" "(5 :: nat) < 16" "(6 :: nat) < 16" by simp_all
  have n: "y - 1980 < 2 ^ 7" "m < 2 ^ 4" "Suc r2 < 2 ^ 5" "?h < 2 ^ 5" "?mn < 2 ^ 6" "?sc div 2 < 2 ^ 5"
    using yr M(2) d b by simp_all
  note w = word_field [OF n(1) k(1)] word_field [OF n(2) k(2)] word_field [OF n(3) k(3)]
    word_field [OF n(4) k(3)] word_field [OF n(5) k(4)] word_field [OF n(6) k(3)]
  note p = packed_fields [OF w(1) w(4) w(7) w(10) w(13) w(16), folded u]
  have "dos_seconds (unix_to_dos secs) =
      (days_before_year y + days_before_month y m + r2) * 86400 + ?h * 3600 + ?mn * 60 + 2 * (?sc div 2)"
    unfolding dos_seconds_def Let_def p w(3,6,9,12,15,18) using yr by simp
  also have "\<dots> = ?days * 86400 + 2 * (?s div 2)" using time_of_day [of ?s] Y(3) M(4) by simp
  also have "\<dots> = 2 * (unat secs div 2)"
  proof -
    have "unat secs = 2 * (?days * 43200) + ?s" using div_mult_mod_eq [of "unat secs" 86400] by linarith
    from even_part [OF this] show ?thesis by simp
  qed
  finally show ?thesis .
qed

theorem unix_to_dos_same_moment_witness:
  "dos_seconds (unix_to_dos 1709208000) = 2 * (unat (1709208000 :: u32) div 2)"
  by (rule unix_to_dos_same_moment) simp
section \<open>Names and aliases\<close>

text \<open>How DOS writes an 8.3 name: both fields without their trailing spaces.\<close>

definition strip :: "byte list \<Rightarrow> byte list" where
  "strip xs = rev (dropWhile (\<lambda>c. c = 0x20) (rev xs))"

definition form_83 :: "byte list \<Rightarrow> byte list \<Rightarrow> byte list" where
  "form_83 base ext = (if ext = [] then base else base @ dot_ch # ext)"

definition dos_form :: "byte list \<Rightarrow> byte list" where
  "dos_form name83 = form_83 (strip (take 8 name83)) (strip (drop 8 name83))"














definition dotfile :: "byte list" where
  "dotfile = [0x2E, 0x62, 0x61, 0x73, 0x68, 0x72, 0x63]"



text \<open>
  A name with fewer than four such characters gets an alias with blanks inside, and that is not an
  8.3 name: the file of a Unix dot name cannot be opened by the name a listing shows.
\<close>

lemma dotfile_lost:
  "to_8_3 (map path_char (dos_form (to_8_3 dotfile))) \<noteq> to_8_3 dotfile"
  by code_simp
section \<open>Searching a directory\<close>





section \<open>Reading a file\<close>

text \<open>Byte \<open>i\<close> of a file as \<open>ext4_file_read_block\<close> delivers it.\<close>

definition dos_file_byte :: "'c ext4_fs \<Rightarrow> ext4_inode \<Rightarrow> nat \<Rightarrow> byte" where
  "dos_file_byte fs inode i =
     (case ext4_file_read_block fs inode (word_of_nat (i div bs_nat fs)) of
        Inl _ \<Rightarrow> 0 | Inr blk \<Rightarrow> blk (i mod bs_nat fs))"

definition dos_size :: "ext4_inode \<Rightarrow> nat" where
  "dos_size inode = unat (ucast (i_size inode) :: u32)"

definition readable :: "'c ext4_fs \<Rightarrow> ext4_inode \<Rightarrow> bool" where
  "readable fs inode \<longleftrightarrow> (\<forall>i < dos_size inode.
     \<exists>blk. ext4_file_read_block fs inode (word_of_nat (i div bs_nat fs)) = Inr blk)"

lemma div_mod_shift:
  fixes c :: nat
  assumes "c mod b + k < b"
  shows "(c + k) div b = c div b" "(c + k) mod b = c mod b + k"
proof -
  have x: "(x + b * q) div b = q \<and> (x + b * q) mod b = x" if "x < b" for x q using that by simp
  have "c mod b + k + b * (c div b) = c + k" by simp
  with x [OF assms, of "c div b"] show "(c + k) div b = c div b" "(c + k) mod b = c mod b + k"
    by (simp_all only:)
qed

lemma file_byte_run:
  assumes "ext4_file_read_block fs inode (word_of_nat (cur div bs_nat fs)) = Inr blk"
    "n \<le> bs_nat fs - cur mod bs_nat fs"
  shows "bytes_of blk (cur mod bs_nat fs) n = map (dos_file_byte fs inode) [cur..<cur + n]"
proof (rule nth_equalityI)
  fix k
  assume k: "k < length (bytes_of blk (cur mod bs_nat fs) n)"
  let ?bs = "bs_nat fs"
  have lt: "cur mod ?bs + k < ?bs" using k assms(2) by simp
  note dm = div_mod_shift [OF lt]
  then show "bytes_of blk (cur mod ?bs) n ! k = map (dos_file_byte fs inode) [cur..<cur + n] ! k"
    using k assms(1) by (simp add: dos_file_byte_def dm)
qed simp

lemma read_bytes_loop_bytes:
  assumes "readable fs inode" "0 < bs_nat fs" "bs = bs_nat fs" "offset + count < 2 ^ 32" "bytes_done \<le> count"
  shows "read_bytes_loop fs inode bs offset count bytes_done =
    map (dos_file_byte fs inode) [offset + bytes_done..<min (offset + count) (dos_size inode)]"
  using assms
proof (induction fs inode bs offset count bytes_done rule: read_bytes_loop.induct)
  case (1 fs inode bs offset count bytes_done)
  let ?cur = "offset + bytes_done" and ?size = "dos_size inode"
  let ?take = "read_take ?size ?cur bs (count - bytes_done)"
  have m: "?cur mod 2 ^ 32 = ?cur" using 1(5,6) by simp
  have sz: "unat (ucast (i_size inode) :: u32) = ?size" by (simp add: dos_size_def)
  note unfold = read_bytes_loop.simps [of fs inode bs offset count bytes_done, unfolded Let_def sz m]
  show ?case
  proof (cases "0 < bs \<and> bytes_done < count \<and> ?cur < ?size")
    case False
    then have "min (offset + count) ?size \<le> ?cur" using 1(3,4,6) by auto
    with False show ?thesis by (subst unfold) simp
  next
    case True
    then obtain blk where blk: "ext4_file_read_block fs inode (word_of_nat (?cur div bs)) = Inr blk"
      using 1(2,4) unfolding readable_def by blast
    have t: "?take = min (min (bs - ?cur mod bs) (count - bytes_done)) (?size - ?cur)"
    proof -
      have "?cur + min (bs - ?cur mod bs) (count - bytes_done) < 2 ^ 32" using 1(5) True by linarith
      then have "(?cur + min (bs - ?cur mod bs) (count - bytes_done)) mod 2 ^ 32 =
          ?cur + min (bs - ?cur mod bs) (count - bytes_done)" by simp
      then show ?thesis by (simp only: read_take_def Let_def) (auto simp: min_def)
    qed
    have le: "bytes_done + ?take \<le> count" using True by (auto simp: t min_def)
    have ih: "read_bytes_loop fs inode bs offset count (bytes_done + ?take) =
        map (dos_file_byte fs inode) [offset + (bytes_done + ?take)..<min (offset + count) ?size]"
      using 1(1) [OF sz [symmetric] m [symmetric] refl, of blk] True blk 1(2-5) le by (simp add: m sz)
    have run: "bytes_of blk (?cur mod bs) ?take = map (dos_file_byte fs inode) [?cur..<?cur + ?take]"
    proof -
      have "?take \<le> bs - ?cur mod bs" unfolding t by simp
      from file_byte_run [OF blk [unfolded 1(4)] this [unfolded 1(4)]] show ?thesis unfolding 1(4) .
    qed
    have split: "[?cur..<min (offset + count) ?size] =
        [?cur..<?cur + ?take] @ [?cur + ?take..<min (offset + count) ?size]"
    proof -
      have "?cur + ?take \<le> min (offset + count) ?size" using True by (auto simp: t min_def)
      then show ?thesis
        using upt_add_eq_append [of ?cur "?cur + ?take" "min (offset + count) ?size - (?cur + ?take)"] by simp
    qed
    have "read_bytes_loop fs inode bs offset count bytes_done =
        bytes_of blk (?cur mod bs) ?take @ read_bytes_loop fs inode bs offset count (bytes_done + ?take)"
      using True blk by (subst unfold) simp
    then show ?thesis using ih run split by (simp add: add.assoc)
  qed
qed

lemma scast16:
  assumes "n < 2 ^ 16"
  shows "(scast (word_of_nat n :: u16) :: u32) = (if n < 32768 then word_of_nat n else word_of_nat n - 0x10000)"
proof -
  have w: "sint (word_of_int i :: u16) = i" if "- (2 ^ 15) \<le> i" "i < 2 ^ 15" for i
    using that by (simp add: sint_sbintrunc' signed_take_bit_int_eq_self)
  have sc: "scast v = (word_of_int (sint v) :: u32)" for v :: u16 by (simp only: scast_eq)
  show ?thesis
  proof (cases "n < 32768")
    case True
    have "sint (word_of_int (int n) :: u16) = int n" by (rule w) (use True in simp_all)
    then have "scast (word_of_nat n :: u16) = (word_of_int (int n) :: u32)"
      by (simp only: sc of_int_of_nat_eq)
    with True show ?thesis by (simp only: of_int_of_nat_eq if_True)
  next
    case False
    have "(word_of_nat n :: u16) = word_of_int (int n - 65536)"
      by (simp only: of_int_diff of_int_of_nat_eq) simp
    moreover have "sint (word_of_int (int n - 65536) :: u16) = int n - 65536"
      by (rule w) (use False assms in simp_all)
    ultimately have "sint (word_of_nat n :: u16) = int n - 65536" by (simp only:)
    then have "scast (word_of_nat n :: u16) = (word_of_int (int n - 65536) :: u32)" by (simp only: sc)
    also have "\<dots> = word_of_nat n - 0x10000" by (simp only: of_int_diff of_int_of_nat_eq of_int_numeral)
    finally show ?thesis using False by (simp only: if_False)
  qed
qed

text \<open>
  C21: A read through an open file delivers exactly the bytes of the file from its position on, as
  many as were asked for and the file has, and reports their number; the position moves by that
  number, except that a read of 32768 bytes or more moves it back by 65536 minus the number.
\<close>

theorem read_delivers_file:
  fixes r :: regs and d :: "'c redir"
  defines "fs \<equiv> rd_fs d" and "key \<equiv> (rg_es r, rg_di r)"
  assumes "find_open_slot (rg_es r) (rg_di r) (rd_open d) = Some i" "0 < block_size fs" "block_size fs \<le> 4096"
    "readable fs (os_inode (rd_open d ! i))" "unat (sf_position (rd_sft d key)) + unat (rg_cx r) < 2 ^ 32"
    "rem_read r d = (r', d')"
  shows "let inode = os_inode (rd_open d ! i); pos = sf_position (rd_sft d key);
      n = min (unat (rg_cx r)) (dos_size inode - unat pos)
    in rg_carry r' = False \<and> unat (rg_cx r') = n \<and>
       bytes_of (rd_user d') 0 n = map (dos_file_byte fs inode) [unat pos..<unat pos + n] \<and>
       sf_position (rd_sft d' key) = (if n < 32768 then pos + word_of_nat n else pos + word_of_nat n - 0x10000)"
proof -
  let ?inode = "os_inode (rd_open d ! i)" and ?pos = "sf_position (rd_sft d key)"
  let ?n = "min (unat (rg_cx r)) (dos_size ?inode - unat ?pos)"
  let ?xs = "map (dos_file_byte fs ?inode) [unat ?pos..<unat ?pos + ?n]"
  have bs: "0 < bs_nat fs" using assms(4) by (simp add: word_less_nat_alt)
  have "min (unat ?pos + unat (rg_cx r)) (dos_size ?inode) = unat ?pos + ?n \<or>
      [unat ?pos..<min (unat ?pos + unat (rg_cx r)) (dos_size ?inode)] = [] \<and> ?n = 0" by auto
  then have xs: "read_file_bytes fs ?inode ?pos (rg_cx r) = ?xs"
    using read_bytes_loop_bytes [OF assms(6) bs refl assms(7), of 0] assms(5)
    by (auto simp: read_file_bytes_def not_less [symmetric])
  have "unat (rg_cx r) < 2 ^ LENGTH(16)" by (rule unsigned_less)
  then have n: "?n < 2 ^ 16" by (simp add: min_less_iff_disj)
  then have un: "unat (word_of_nat ?n :: u16) = ?n" by (simp only: unsigned_of_nat) (simp add: take_bit_nat_eq_self)
  have rr: "r' = r\<lparr>rg_cx := word_of_nat ?n, rg_carry := False\<rparr>"
    "rd_user d' = put_bytes (rd_user d) 0 ?xs"
    "sf_position (rd_sft d' key) = ?pos + scast (word_of_nat ?n :: u16)"
    using assms(8) unfolding rem_read_def assms(3) fs_def [symmetric] key_def [symmetric]
    by (simp_all add: Let_def xs sft_upd_def split: prod.splits) auto
  note sc = scast16 [OF n]
  have out: "bytes_of (rd_user d') 0 ?n = ?xs"
    using bytes_of_put_bytes [of "rd_user d" 0 ?xs] by (simp add: rr(2))
  show ?thesis
    unfolding Let_def using out un by (simp add: rr sc)
qed

definition sample_file :: ext4_inode where
  "sample_file = \<lparr>i_mode = 0x81A4, i_size = 100, i_flags = 0x80000, i_mtime = 0, i_block = sample_root\<rparr>"

definition sample_redir :: "file_ctx redir" where
  "sample_redir = (redir_of sample)\<lparr>
     rd_open := no_slot\<lparr>os_used := True, os_seg := 7, os_off := 9, os_num := 12, os_inode := sample_file\<rparr>
       # replicate 7 no_slot\<rparr>"

definition sample_regs :: "u16 \<Rightarrow> u16 \<Rightarrow> regs" where
  "sample_regs ax cx = \<lparr>rg_ax = ax, rg_bx = 0, rg_cx = cx, rg_dx = 0, rg_si = 0, rg_di = 9, rg_es = 7, rg_carry = False\<rparr>"

lemma sample_redir_slot: "find_open_slot 7 9 (rd_open sample_redir) = Some 0"
  by (simp add: sample_redir_def find_open_slot_def slot_is_def)

theorem read_delivers_file_witness:
  "let r = sample_regs 0x1108 512; d = sample_redir; res = rem_read r d;
      inode = os_inode (rd_open d ! 0); pos = sf_position (rd_sft d (rg_es r, rg_di r));
      n = min (unat (rg_cx r)) (dos_size inode - unat pos)
    in rg_carry (fst res) = False \<and> unat (rg_cx (fst res)) = n \<and>
       bytes_of (rd_user (snd res)) 0 n = map (dos_file_byte (rd_fs d) inode) [unat pos..<unat pos + n] \<and>
       sf_position (rd_sft (snd res) (rg_es r, rg_di r)) =
         (if n < 32768 then pos + word_of_nat n else pos + word_of_nat n - 0x10000)"
proof -
  have f: "os_inode (rd_open sample_redir ! 0) = sample_file" "rd_fs sample_redir = sample"
    "sf_position (rd_sft sample_redir k) = 0" for k
    by (simp_all add: sample_redir_def redir_of_def no_sft_def)
  have rd: "readable sample sample_file"
    by (simp add: readable_def dos_size_def sample_file_def sample_read_root)
  have r: "rg_es (sample_regs 0x1108 512) = 7" "rg_di (sample_regs 0x1108 512) = 9" "rg_cx (sample_regs 0x1108 512) = 512"
    by (simp_all add: sample_regs_def)
  show ?thesis
    unfolding Let_def
    by (rule read_delivers_file [OF _ _ _ _ _ surjective_pairing, unfolded Let_def])
      (simp_all add: r f rd sample_redir_slot)
qed

end
