(* ===== verification/Volume.thy ===== *)
theory Volume
  imports Plans WritePath
begin

text \<open>
  What the operations leave of the mounted file system: a relation between the states before and
  after that the write side of the journal keeps and that does not look at the descriptor cache is
  kept by every operation of the driver, because each is a sequence of reads and transactions
  (theory Plans).
\<close>

locale volume_view = whole_commit R for R :: "'c ext4_fs \<Rightarrow> 'c ext4_fs \<Rightarrow> bool" +
  assumes reads: "same_but_bgd fs fs' \<Longrightarrow> R fs fs'"
begin

lemma reading: "keeps same_but_bgd m \<Longrightarrow> keeps R m"
  unfolding keeps_def using reads by blast

lemma coded_commit: "keeps R (coded rc (ext4_journal_commit ts))"
  using commit by (cases rc) (simp_all add: coded_def keeps_orX)

lemma plan: "reads_only k \<Longrightarrow> keeps R (run_plan k)"
proof (induction rule: reads_only.induct)
  case (ret x)
  show ?case by (simp only: run_plan.simps keeps_pure(1) [OF refl])
next
  case (reads m)
  show ?case
  proof (rule keepsI)
    fix fs
    obtain r fs' where m: "m fs = (r, fs')" by fastforce
    have 1: "R fs fs'" using keepsD [OF reading [OF reads(1)] m] .
    show "R fs (snd (run_plan (Reads m) fs))"
    proof (cases r)
      case (Inl rc)
      then show ?thesis using 1 by (simp add: run_Reads bindE_def m)
    next
      case (Inr k)
      then have "R fs' (snd (run_plan k fs'))" using reads(3) m by (auto simp: keeps_def)
      then show ?thesis using 1 trans Inr by (auto simp: run_Reads bindE_def m dest: transpD)
    qed
  qed
next
  case (commit k rc ts)
  show ?case unfolding run_plan.simps by (rule keeps_bindE [OF coded_commit commit.IH trans])
qed

lemma operation: "keeps R (perform p)"
  using plan [OF plan_reads_only [of p]] by (simp only: perform_plan)

lemma drop: "keeps R (dropE m) \<Longrightarrow> keeps R m"
  unfolding keeps_def dropE_def bindE_def by (simp split: prod.splits sum.splits) (metis sum.exhaust snd_conv surj_pair)

lemma operations:
  "keeps R (ext4_file_write_block inode ino logical data now)"
  "keeps R (ext4_file_extend_block inode ino data added now)"
  "keeps R (ext4_file_create parent_ino name mode now)"
  "keeps R (ext4_dir_create parent_ino name now)"
  "keeps R (ext4_dir_remove parent_ino ino)"
  "keeps R (ext4_file_remove parent_ino ino)"
  "keeps R (ext4_file_truncate ino new_size now)"
  "keeps R (ext4_rename parent_ino ino name)"
  "keeps R (ext4_rename_xdir old_ino ino new_ino name now)"
  using drop [OF operation [of "Write_block inode ino logical data now", unfolded perform.simps]]
    drop [OF operation [of "Extend_block inode ino data added now", unfolded perform.simps]]
    drop [OF operation [of "Create parent_ino name mode now", unfolded perform.simps]]
    drop [OF operation [of "Make_dir parent_ino name now", unfolded perform.simps]]
    operation [of "Remove_dir parent_ino ino"] operation [of "Remove_file parent_ino ino"]
    operation [of "Truncate ino new_size now"] operation [of "Rename_in parent_ino ino name"]
    operation [of "Rename_to old_ino ino new_ino name now"]
  by simp_all

end

section \<open>The geometry of the volume\<close>

text \<open>What the superblock says of the volume's size and shape, and where the volume lies.\<close>

definition geometry :: "'c ext4_fs \<Rightarrow> u64 \<times> (u32 \<times> u64 \<times> u64) \<times> (u32 \<times> u32 \<times> u16) \<times> u32 \<times> u16" where
  "geometry fs = (let sb = fs_sb fs in
     (fs_partition_lba fs, (s_block_size sb, s_blocks_count sb, s_free_blocks_count sb),
      (s_blocks_per_group sb, s_inodes_per_group sb, s_inode_size sb), fs_bgd_count fs, fs_bgd_size fs))"

definition same_geometry :: "'c ext4_fs \<Rightarrow> 'c ext4_fs \<Rightarrow> bool" where
  "same_geometry fs fs' \<longleftrightarrow> geometry fs' = geometry fs"

interpretation geometry: volume_view same_geometry
proof
  show "reflp same_geometry" by (simp add: reflp_def same_geometry_def)
  show "transp same_geometry" by (simp add: transp_def same_geometry_def)
  show "keeps same_geometry (dev_write sector count b)" for sector count b
    by (auto simp: keeps_def dev_write_def same_geometry_def geometry_def split: prod.split)
  show "keeps same_geometry (modE (upd_jbd f))" for f
    by (simp add: keeps_def same_geometry_def geometry_def)
  show "keeps same_geometry (modE checkpoint_done)" "keeps same_geometry (modE ext4_fs_bgd_invalidate)"
    by (simp_all add: keeps_def same_geometry_def geometry_def checkpoint_done_def ext4_fs_bgd_invalidate_def Let_def)
  show "same_but_bgd fs fs' \<Longrightarrow> same_geometry fs fs'" for fs fs'
    by (simp only: same_geometry_def geometry_def same_but_bgd_def)
qed

interpretation anything: volume_view "\<lambda>_ _. True"
  by unfold_locales (simp_all add: reflp_def transp_def keeps_def)

end
