(* ===== verification/Naming.thy ===== *)
theory Naming
  imports OneCommit DirUpdates Volume
begin

text \<open>
  Whole directories on the disk: what one transaction that rewrites a block of a directory does to the
  list of its entries and so to every look-up in it, and with that what creating and renaming do to
  the names of a volume.
\<close>

section \<open>A directory on the disk\<close>

text \<open>The blocks of a directory whose extents fit its inode, in the order of the directory.\<close>

definition dir_blocks :: "'c ext4_fs \<Rightarrow> ext4_inode \<Rightarrow> u64 list" where
  "dir_blocks fs dir = map (\<lambda>b. projr (leaf_lookup (i_block dir) b)) (dir_block_numbers fs dir)"

definition dir_ready :: "file_ctx ext4_fs \<Rightarrow> ext4_inode \<Rightarrow> bool" where
  "dir_ready fs dir \<longleftrightarrow>
     vol fs \<and> block_size fs \<le> 4096 \<and> \<not> jbd_replay_active (fs_jbd fs) \<and>
     le16 (i_block dir) 0 = ext4_ext_magic \<and> le16 (i_block dir) 6 = 0 \<and>
     (\<forall>b \<in> set (dir_block_numbers fs dir). \<not> isl (leaf_lookup (i_block dir) b)) \<and> distinct (dir_blocks fs dir) \<and>
     (\<forall>p \<in> set (dir_blocks fs dir). blk_ok fs (unat p) \<and> \<not> in_log (fs_jbd fs) (unat p) \<and> unat p \<noteq> sb_blk fs \<and>
        dir_block_ok fs (disk fs (unat p)))"

definition entries_of :: "'c ext4_fs \<Rightarrow> ext4_inode \<Rightarrow> ext4_dir_entry list" where
  "entries_of fs dir = dir_listing fs dir (dir_block_numbers fs dir)"

lemma dir_readyD:
  assumes "dir_ready fs dir"
  shows "vol fs" "block_size fs \<le> 4096" "\<not> jbd_replay_active (fs_jbd fs)" "le16 (i_block dir) 0 = ext4_ext_magic"
    "le16 (i_block dir) 6 = 0" "distinct (dir_blocks fs dir)"
    "b \<in> set (dir_block_numbers fs dir) \<Longrightarrow> leaf_lookup (i_block dir) b = Inr (projr (leaf_lookup (i_block dir) b))"
    "p \<in> set (dir_blocks fs dir) \<Longrightarrow> blk_ok fs (unat p) \<and> \<not> in_log (fs_jbd fs) (unat p) \<and> unat p \<noteq> sb_blk fs"
    "p \<in> set (dir_blocks fs dir) \<Longrightarrow> dir_block_ok fs (disk fs (unat p))"
  using assms by (auto simp: dir_ready_def)

lemma flat_lookup:
  assumes "le16 node 0 = ext4_ext_magic" "le16 node 6 = 0" "block_size fs \<le> 4096"
  shows "extent_lookup_res fs node b = leaf_lookup node b"
  using assms by (simp add: extent_lookup_res_def ext4_extent_lookup_def extent_walk_leaf not_less [symmetric])

text \<open>Reading a directory is reading its blocks.\<close>

lemma listing_blocks:
  assumes "le16 (i_block dir) 0 = ext4_ext_magic" "le16 (i_block dir) 6 = 0" "block_size fs \<le> 4096"
    "\<forall>b \<in> set bs. leaf_lookup (i_block dir) b = Inr (phys b) \<and> ext4_fs_read_block fs (phys b) = Inr (d (unat (phys b)))"
  shows "dir_listing fs dir bs = concat (map (\<lambda>b. dir_names fs (d (unat (phys b)))) bs)"
  using assms(4)
  by (induction bs) (simp_all add: ext4_file_read_block_def flat_lookup [OF assms(1-3)] dir_names_def)

lemma entries_blocks:
  assumes "dir_ready fs dir"
  shows "entries_of fs dir = concat (map (\<lambda>p. dir_names fs (disk fs (unat p))) (dir_blocks fs dir))"
proof -
  note r = dir_readyD [OF assms]
  have "ext4_fs_read_block fs p = Inr (disk fs (unat p))" if "p \<in> set (dir_blocks fs dir)" for p
    using read_plain [OF r(1) _ r(3)] r(8) [OF that] by blast
  then show ?thesis
    unfolding entries_of_def using r(7)
    by (subst listing_blocks [OF r(4,5,2), where phys = "\<lambda>b. projr (leaf_lookup (i_block dir) b)" and d = "disk fs"])
      (auto simp: dir_blocks_def comp_def)
qed

text \<open>The descriptor cache has no part in it.\<close>

lemma same_csum: "same_but_bgd fs fs' \<Longrightarrow> metadata_csum fs' = metadata_csum fs"
  by (simp add: metadata_csum_def same_but_bgd_fields)

lemma same_dir:
  assumes "same_but_bgd fs fs'"
  shows "dir_blocks fs' dir = dir_blocks fs dir" "dir_block_ok fs' = dir_block_ok fs" "dir_names fs' = dir_names fs"
    "dir_ready fs' dir = dir_ready fs dir" "entries_of fs' dir = entries_of fs dir"
proof -
  note f = same_but_bgd_fields [OF assms] same_but_bgd_vol [OF assms] dir_listing_same [OF assms]
  show b: "dir_blocks fs' dir = dir_blocks fs dir" by (simp add: dir_blocks_def f)
  show o: "dir_block_ok fs' = dir_block_ok fs"
    by (simp add: fun_eq_iff dir_block_ok_def dir_area_def f same_csum [OF assms])
  show "dir_names fs' = dir_names fs" by (simp add: fun_eq_iff dir_names_def f)
  show "dir_ready fs' dir = dir_ready fs dir" unfolding dir_ready_def b o f ..
  show "entries_of fs' dir = entries_of fs dir" by (simp add: entries_of_def f)
qed

section \<open>One transaction\<close>

definition applied :: "jbd_trans \<Rightarrow> file_ctx ext4_fs \<Rightarrow> file_ctx ext4_fs \<Rightarrow> bool" where
  "applied ts fs fs' \<longleftrightarrow> trans_ready fs ts \<and> \<not> jbd_replay_active (fs_jbd fs') \<and> vol_step fs fs' \<and>
     vol_agrees fs (disk fs') (dwrites (disk fs) (home_writes fs ts))"

lemma commit_applied:
  assumes "ext4_journal_commit ts f = (Inr u, fs')" "same_but_bgd fs f" "trans_ready fs ts"
  shows "applied ts fs fs'" "fs_bgd_cached_block fs' = ext4_fs_bgd_invalid"
proof -
  note v = same_but_bgd_vol [OF assms(2)] same_but_bgd_writes [OF assms(2)]
  have t: "trans_ready f ts" using assms(3) by (simp add: v)
  from emits_commit [OF t] assms(1) have c: "vol_step f fs'" "disk fs' = dwrites (disk f) (commit_writes f ts)" "committed f fs'"
    by (cases rule: emitsE; auto)+
  have a: "vol_agrees f d d' = vol_agrees fs d d'" for d d'
    using same_but_bgd_fields [OF assms(2)]
    by (simp add: vol_agrees_def sb_same_def recover_bytes_def sb_off_def v)
  show "fs_bgd_cached_block fs' = ext4_fs_bgd_invalid" using c(3) by (simp add: committed_def)
  show "applied ts fs fs'"
    using c(1,3) commit_writes_agree [OF t, folded c(2)] assms(3)
    unfolding applied_def a by (simp add: v committed_def)
qed

lemma applied_block:
  assumes "applied ts fs fs'" "\<not> in_log (fs_jbd fs) (unat p)" "unat p \<noteq> sb_blk fs"
  shows "p \<notin> fst ` set ts \<Longrightarrow> disk fs' (unat p) = disk fs (unat p)"
    "(p, c) \<in> set ts \<Longrightarrow> disk fs' (unat p) = trunc (bs_nat fs) c"
proof -
  have d: "disk fs' (unat p) = dwrites (disk fs) (home_writes fs ts) (unat p)"
    using assms vol_agrees_off_sb by (auto simp: applied_def)
  have i: "unat (p :: u64) \<in> fst ` set (home_writes fs ts) \<longleftrightarrow> p \<in> fst ` set ts"
    by (force simp: home_writes_def word_unat_eq_iff)
  show "p \<notin> fst ` set ts \<Longrightarrow> disk fs' (unat p) = disk fs (unat p)"
    unfolding d by (rule dwrites_other) (simp add: i)
  assume c: "(p, c) \<in> set ts"
  have "distinct (map fst ts)" using assms(1) trans_readyD(13) by (auto simp: applied_def)
  then have "distinct (map fst (home_writes fs ts))"
    by (auto simp: home_writes_def distinct_map comp_def case_prod_unfold inj_on_def word_unat_eq_iff)
  then show "disk fs' (unat p) = trunc (bs_nat fs) c"
    unfolding d using c by (intro dwrites_distinct) (force simp: home_writes_def)+
qed

lemma dir_names_trunc: "dir_names fs (trunc (bs_nat fs) c) = dir_names fs c"
  unfolding dir_names_def by (rule dir_entries_cong) simp

text \<open>The blocks of the directory afterwards: those the transaction rewrites hold the new contents.\<close>

definition after_trans :: "(nat \<Rightarrow> buf) \<Rightarrow> jbd_trans \<Rightarrow> u64 \<Rightarrow> buf" where
  "after_trans d ts p = (case map_of ts p of None \<Rightarrow> d (unat p) | Some c \<Rightarrow> c)"

lemma applied_entries:
  assumes "applied ts fs fs'" "dir_ready fs dir"
  shows "entries_of fs' dir = concat (map (\<lambda>p. dir_names fs (after_trans (disk fs) ts p)) (dir_blocks fs dir))"
proof -
  note r = dir_readyD [OF assms(2)]
  have v: "vol fs'" "block_size fs' = block_size fs" "\<not> jbd_replay_active (fs_jbd fs')"
    using assms(1) by (auto simp: applied_def vol_step_def)
  have n: "dir_block_numbers fs' dir = dir_block_numbers fs dir" "dir_names fs' = dir_names fs" "block_size fs' \<le> 4096"
    using r(2) by (simp_all add: dir_block_numbers_def dir_block_count_def fun_eq_iff dir_names_def v)
  have rd: "ext4_fs_read_block fs' p = Inr (disk fs' (unat p))"
    "dir_names fs (disk fs' (unat p)) = dir_names fs (after_trans (disk fs) ts p)"
    if p: "p \<in> set (dir_blocks fs dir)" for p
  proof -
    show "ext4_fs_read_block fs' p = Inr (disk fs' (unat p))"
      using read_plain [OF v(1) _ v(3)] r(8) [OF p] assms(1) by (auto simp: applied_def vol_step_def)
    have o: "\<not> in_log (fs_jbd fs) (unat p)" "unat p \<noteq> sb_blk fs" using r(8) [OF p] by auto
    show "dir_names fs (disk fs' (unat p)) = dir_names fs (after_trans (disk fs) ts p)"
    proof (cases "map_of ts p")
      case None
      then have "p \<notin> fst ` set ts" by (simp add: map_of_eq_None_iff)
      then show ?thesis using applied_block(1) [OF assms(1) o] by (simp add: after_trans_def None)
    next
      case (Some c)
      then have "disk fs' (unat p) = trunc (bs_nat fs) c" by (intro applied_block(2) [OF assms(1) o] map_of_SomeD)
      then show ?thesis by (simp add: after_trans_def Some dir_names_trunc)
    qed
  qed
  show ?thesis
    unfolding entries_of_def n(1) using r(7) rd
    by (subst listing_blocks [OF r(4,5) n(3), where phys = "\<lambda>b. projr (leaf_lookup (i_block dir) b)" and d = "disk fs'"])
      (auto simp: dir_blocks_def comp_def n(2) intro!: arg_cong [where f = concat])
qed

text \<open>One block of the directory rewritten: its entries are replaced in the list.\<close>

lemma concat_replace:
  assumes "P \<in> set ps" "distinct ps" "\<And>p. p \<in> set ps \<Longrightarrow> p \<noteq> P \<Longrightarrow> g p = f p"
  shows "\<exists>A B. concat (map f ps) = A @ f P @ B \<and> concat (map g ps) = A @ g P @ B"
proof -
  obtain xs ys where p: "ps = xs @ P # ys" using split_list [OF assms(1)] by blast
  with assms(2) have "P \<notin> set xs" "P \<notin> set ys" by auto
  then have "map g xs = map f xs" "map g ys = map f ys" using assms(3) by (auto simp: p)
  with p have "concat (map f ps) = concat (map f xs) @ f P @ concat (map f ys) \<and>
      concat (map g ps) = concat (map f xs) @ g P @ concat (map f ys)" by (simp del: map_eq_conv)
  then show ?thesis by blast
qed

lemma applied_one_block:
  assumes "applied ts fs fs'" "dir_ready fs dir" "(P, c) \<in> set ts" "P \<in> set (dir_blocks fs dir)"
    "\<forall>p \<in> set (dir_blocks fs dir). p \<in> fst ` set ts \<longrightarrow> p = P"
  shows "\<exists>A B. entries_of fs dir = A @ dir_names fs (disk fs (unat P)) @ B \<and> entries_of fs' dir = A @ dir_names fs c @ B"
proof -
  have "distinct (map fst ts)" using assms(1) trans_readyD(13) by (auto simp: applied_def)
  then have c: "map_of ts P = Some c" using assms(3) by simp
  have o: "after_trans (disk fs) ts p = disk fs (unat p)" if "p \<in> set (dir_blocks fs dir)" "p \<noteq> P" for p
  proof -
    have "map_of ts p = None" using that assms(5) by (auto simp: map_of_eq_None_iff)
    then show ?thesis by (simp add: after_trans_def)
  qed
  have g: "dir_names fs (after_trans (disk fs) ts p) = dir_names fs (disk fs (unat p))"
    if "p \<in> set (dir_blocks fs dir)" "p \<noteq> P" for p using o [OF that] by simp
  have "after_trans (disk fs) ts P = c" by (simp add: after_trans_def c)
  with concat_replace [OF assms(4) dir_readyD(6) [OF assms(2)], of "\<lambda>p. dir_names fs (after_trans (disk fs) ts p)"
      "\<lambda>p. dir_names fs (disk fs (unat p))", OF g] show ?thesis
    unfolding entries_blocks [OF assms(2)] applied_entries [OF assms(1,2)] by simp
qed

lemma applied_no_block:
  assumes "applied ts fs fs'" "dir_ready fs dir" "\<forall>p \<in> set (dir_blocks fs dir). p \<notin> fst ` set ts"
  shows "entries_of fs' dir = entries_of fs dir"
proof -
  have "map_of ts p = None" if "p \<in> set (dir_blocks fs dir)" for p using that assms(3) by (simp add: map_of_eq_None_iff)
  then show ?thesis
    unfolding entries_blocks [OF assms(2)] applied_entries [OF assms(1,2)]
    by (auto simp: after_trans_def intro!: arg_cong [where f = concat])
qed

section \<open>Look-ups\<close>

definition names_entry :: "byte list \<Rightarrow> ext4_dir_entry \<Rightarrow> bool" where
  "names_entry name e \<longleftrightarrow> unat (de_name_len e) = length name \<and> de_name e = name"

lemma lookup_entries:
  assumes "0 < length name" "length name \<le> 255" "block_size fs \<le> 4096"
  shows "ext4_dir_lookup fs dir name =
    (case find (names_entry name) (entries_of fs dir) of None \<Rightarrow> 0 | Some e \<Rightarrow> de_inode e)"
  using ext4_dir_lookup_listing [OF assms, of dir] by (simp add: entries_of_def names_entry_def [abs_def])

lemma listed_live: "e \<in> set (entries_of fs dir) \<Longrightarrow> de_inode e \<noteq> 0"
proof -
  have b: "e \<in> set (dir_entries blk bs off) \<Longrightarrow> de_inode e \<noteq> 0" for blk bs off
    by (induction blk bs off rule: dir_entries.induct)
      (subst (asm) dir_entries.simps, auto simp: entry_live_def entry_at_def split: if_splits)
  have "e \<in> set (dir_listing fs dir bs) \<Longrightarrow> de_inode e \<noteq> 0" for bs
    by (induction bs) (auto split: sum.splits dest: b)
  then show "e \<in> set (entries_of fs dir) \<Longrightarrow> de_inode e \<noteq> 0" by (simp add: entries_of_def)
qed

lemma lookup_absent:
  assumes "0 < length name" "length name \<le> 255" "block_size fs \<le> 4096"
  shows "ext4_dir_lookup fs dir name = 0 \<longleftrightarrow> (\<forall>e \<in> set (entries_of fs dir). \<not> names_entry name e)"
proof (cases "find (names_entry name) (entries_of fs dir)")
  case None
  then have "\<forall>e \<in> set (entries_of fs dir). \<not> names_entry name e" by (simp add: find_None_iff)
  with None show ?thesis by (simp add: lookup_entries [OF assms])
next
  case (Some e)
  then have "e \<in> set (entries_of fs dir)" "names_entry name e" by (auto simp: find_Some_iff)
  with listed_live show ?thesis by (auto simp: lookup_entries [OF assms] Some)
qed

lemma lookup_inserted:
  assumes "entries_of fs dir = pre @ post" "entries_of fs' dir = pre @ e # post" "names_entry name e"
    "0 < length name" "length name \<le> 255" "block_size fs \<le> 4096" "block_size fs' = block_size fs"
  shows "ext4_dir_lookup fs dir name = 0 \<Longrightarrow> ext4_dir_lookup fs' dir name = de_inode e"
    "other \<noteq> name \<Longrightarrow> ext4_dir_lookup fs' dir other = ext4_dir_lookup fs dir other"
proof -
  assume "ext4_dir_lookup fs dir name = 0"
  then have "\<forall>x \<in> set pre. \<not> names_entry name x" using lookup_absent [OF assms(4-6)] assms(1) by simp
  then have "find (names_entry name) (pre @ e # post) = Some e" using assms(3) by (induction pre) auto
  then show "ext4_dir_lookup fs' dir name = de_inode e" using assms(2,4-7) by (simp add: lookup_entries)
next
  assume n: "other \<noteq> name"
  show "ext4_dir_lookup fs' dir other = ext4_dir_lookup fs dir other"
  proof (cases "0 < length other \<and> length other \<le> 255")
    case True
    have "\<not> names_entry other e" using assms(3) n by (auto simp: names_entry_def)
    then have "find (names_entry other) (pre @ e # post) = find (names_entry other) (pre @ post)"
      by (induction pre) auto
    then show ?thesis using assms(1,2,6,7) True by (simp add: lookup_entries)
  next
    case False
    then show ?thesis by (auto simp: ext4_dir_lookup_def)
  qed
qed

section \<open>Creating a file\<close>

lemma linear_slot_in:
  "linear_slot dir need bs f = (Inr (Some s), f') \<Longrightarrow>
   \<exists>b P blk. b \<in> set bs \<and> extent_lookup_res f (i_block dir) b = Inr P \<and> ext4_fs_read_block f P = Inr blk \<and>
     slot_in_block P need f blk = Some s"
proof (induction bs)
  case (Cons b bs)
  let ?go = "linear_slot dir need bs f = (Inr (Some s), f')"
  show ?case
  proof (cases "extent_lookup_res f (i_block dir) b")
    case (Inl rc)
    then have ?go using Cons.prems by (auto simp: bindE_def tryX_def extent_lookup_def readE_def split: if_splits)
    with Cons.IH show ?thesis by (meson list.set_intros(2))
  next
    case P: (Inr P)
    show ?thesis
    proof (cases "ext4_fs_read_block f P")
      case (Inl rc)
      then have ?go using Cons.prems P
        by (auto simp: bindE_def tryX_def extent_lookup_def readE_def fs_read_block_def split: if_splits)
      with Cons.IH show ?thesis by (meson list.set_intros(2))
    next
      case blk: (Inr blk)
      show ?thesis
      proof (cases "slot_in_block P need f blk")
        case None
        then have ?go using Cons.prems P blk
          by (simp add: bindE_def tryX_def extent_lookup_def readE_def fs_read_block_def)
        with Cons.IH show ?thesis by (meson list.set_intros(2))
      next
        case (Some s')
        then have "s' = s" using Cons.prems P blk
          by (simp add: bindE_def tryX_def extent_lookup_def readE_def fs_read_block_def)
        with P blk Some show ?thesis by (meson list.set_intros(1))
      qed
    qed
  qed
qed simp

lemma slot_found:
  assumes "dir_ready fs dir" "same_but_bgd fs f" "\<not> dir_indexed dir" "parent_slot dir name f = (Inr s, f')"
  shows "ds_block s \<in> set (dir_blocks fs dir) \<and>
    slot_in_block (ds_block s) (rec_need (length name)) fs (disk fs (unat (ds_block s))) = Some s"
proof -
  note r = dir_readyD [OF assms(1)] and e = same_but_bgd_fields [OF assms(2)]
  have "linear_slot dir (rec_need (length name)) (dir_block_numbers f dir) f = (Inr (Some s), f')"
    using assms(3,4) by (auto simp: parent_slot_def Let_def bindE_Inr_iff split: option.splits)
  from linear_slot_in [OF this] obtain b P blk where b: "b \<in> set (dir_block_numbers f dir)"
    "extent_lookup_res f (i_block dir) b = Inr P" "ext4_fs_read_block f P = Inr blk"
    "slot_in_block P (rec_need (length name)) f blk = Some s" by blast
  have "block_size f \<le> 4096" using r(2) by (simp add: e)
  with b(2) have "leaf_lookup (i_block dir) b = Inr P" by (simp add: flat_lookup [OF r(4,5)])
  then have P: "P \<in> set (dir_blocks fs dir)"
    using b(1) dir_listing_same(2) [OF assms(2)] by (force simp: dir_blocks_def)
  have "blk = disk fs (unat P)"
    using b(3) read_plain [OF r(1) _ r(3)] r(8) [OF P] by (simp add: same_but_bgd_read [OF assms(2)])
  moreover have "ds_block s = P" "slot_in_block P (rec_need (length name)) fs = slot_in_block P (rec_need (length name)) f"
    using b(4) by (auto simp: slot_in_block_def fun_eq_iff e)
  ultimately show ?thesis using P b(4) by simp
qed

text \<open>A successful run, step by step; the states on the way differ in the descriptor cache.\<close>

lemma plan_trans_rd: "m fs = (Inr x, f) \<Longrightarrow> plan_trans (rd m k) fs = plan_trans (k x) f"
  by (simp add: rd_def plan_Reads bindE_def)

lemma create_steps:
  assumes "ext4_file_create parent_ino name mode now fs = (Inr ino, fs')"
  obtains dir and pslot :: inode_slot and s :: dir_slot and a :: inode_alloc and sb b blk off f0 f1 f2 f3 f4 where
    "name \<noteq> []" "ext4_inode_read parent_ino fs = (Inr dir, f0)" "read_inode_block parent_ino f0 = (Inr pslot, f1)"
    "parent_slot dir name f1 = (Inr s, f2)" "find_free_inode f2 = (Inr a, f3)" "ino = ia_num a"
    "sb_take_inode 0 f3 = (Inr sb, f3)" "read_inode_at ino f3 = (Inr (b, blk, off), f4)"
    "same_but_bgd fs f1" "same_but_bgd fs f2" "same_but_bgd fs f3" "same_but_bgd fs f4"
    "ext4_journal_commit
       [(ds_block s, slot_fill f3 parent_ino (is_gen pslot) s ino 1 name), (inode_bitmap_block f3 a, ia_bitmap a),
        (bgd_fs_block f3, ia_bgd a), (sb_fs_block f3, sb), (blk, init_inode f3 ino mode 1 now b off)] f4 = (Inr (), fs')"
    "plan_trans (create_plan parent_ino name mode now) fs =
       [[(ds_block s, slot_fill f3 parent_ino (is_gen pslot) s ino 1 name), (inode_bitmap_block f3 a, ia_bitmap a),
         (bgd_fs_block f3, ia_bgd a), (sb_fs_block f3, sb), (blk, init_inode f3 ino mode 1 now b off)]]"
proof -
  from assms obtain g1 dir g2 and pslot :: inode_slot and g3 and s :: dir_slot and g4 and a :: inode_alloc
      and g5 sb g6 b blk off g7 where
    w: "write_cap 0 fs = (Inr (), g1)" "name \<noteq> []" and
    i: "ext4_inode_read parent_ino g1 = (Inr dir, g2)" "read_inode_block parent_ino g2 = (Inr pslot, g3)" and
    p: "parent_slot dir name g3 = (Inr s, g4)" and a: "find_free_inode g4 = (Inr a, g5)" and
    sb: "sb_take_inode 0 g5 = (Inr sb, g6)" and r: "read_inode_at (ia_num a) g6 = (Inr (b, blk, off), g7)" and
    c: "ext4_journal_commit
       [(ds_block s, slot_fill g5 parent_ino (is_gen pslot) s (ia_num a) 1 name), (inode_bitmap_block g5 a, ia_bitmap a),
        (bgd_fs_block g5, ia_bgd a), (sb_fs_block g5, sb), (blk, init_inode g5 (ia_num a) mode 1 now b off)] g7 = (Inr (), fs')"
      "ino = ia_num a"
    by (auto simp: ext4_file_create_def bindE_Inr_iff orX_Inr_iff split: if_splits)
  have g1: "g1 = fs" using w(1) by (auto simp: write_cap_def bindE_Inr_iff)
  have g6: "g6 = g5" using sb by (auto simp: sb_take_inode_def Let_def bindE_Inr_iff orX_Inr_iff fs_read_block_def readE_def split: sum.splits)
  have s2: "same_but_bgd fs g2" using inode_read_same [OF i(1)] g1 by simp
  have s3: "same_but_bgd fs g3" using s2 keepsD [OF keeps_read_at(2) i(2)] by (rule same_but_bgd_trans)
  have s4: "same_but_bgd fs g4" using s3 keepsD [OF keeps_parent_slot p] by (rule same_but_bgd_trans)
  have s5: "same_but_bgd fs g5" using s4 keepsD [OF keeps_find(1) a] by (rule same_but_bgd_trans)
  have s7: "same_but_bgd fs g7" using s5 keepsD [OF keeps_read_at(1) r] unfolding g6 by (rule same_but_bgd_trans)
  have t: "plan_trans (create_plan parent_ino name mode now) fs =
      [[(ds_block s, slot_fill g5 parent_ino (is_gen pslot) s ino 1 name), (inode_bitmap_block g5 a, ia_bitmap a),
        (bgd_fs_block g5, ia_bgd a), (sb_fs_block g5, sb), (blk, init_inode g5 ino mode 1 now b off)]]"
    unfolding create_plan_def
    using w i p a sb r c g1 g6 by (simp add: plan_trans_rd orX_Inr_iff)
  show ?thesis
    by (rule that [of dir g2 pslot g3 s g4 a g5 sb b blk off g7])
      (use w i p a sb r c t g1 g6 s3 s4 s5 s7 in simp_all)
qed

text \<open>What the name of a new file does to a directory with room in one of its blocks.\<close>

lemma slot_inserted:
  assumes "dir_ready fs dir" "same_but_bgd fs f" "applied ts fs fs'" "(P, slot_fill f parent gen s ino ft name) \<in> set ts"
    "P \<in> set (dir_blocks fs dir)" "slot_in_block P (rec_need (length name)) fs (disk fs (unat P)) = Some s"
    "\<forall>p \<in> set (dir_blocks fs dir). p \<in> fst ` set ts \<longrightarrow> p = P"
    "ino \<noteq> 0" "name \<noteq> []" "length name \<le> 255" "ft \<noteq> 0xDE"
  shows "\<exists>pre post. entries_of fs dir = pre @ post \<and> entries_of fs' dir = pre @ \<lparr>de_inode = ino,
    de_file_type = ft_byte fs ft, de_name_len = word_of_nat (length name), de_name = name\<rparr> # post"
proof -
  have sl: "slot_in_block P (rec_need (length name)) f = slot_in_block P (rec_need (length name)) fs"
    by (simp add: slot_in_block_def fun_eq_iff same_but_bgd_fields [OF assms(2)])
  have ok: "dir_block_ok f (disk fs (unat P))" using dir_readyD(9) [OF assms(1,5)] by (simp add: same_dir(2) [OF assms(2)])
  have ft: "ft_byte f ft = ft_byte fs ft" by (simp add: ft_byte_def same_but_bgd_fields [OF assms(2)])
  have "length name < 256" "0 < length name" using assms(9,10) by simp_all
  from dir_insert_block [OF ok assms(6) [folded sl] assms(8) this(2,1) assms(11), of parent gen]
  obtain pre post where n: "dir_names fs (disk fs (unat P)) = pre @ post"
    "dir_names fs (slot_fill f parent gen s ino ft name) = pre @ \<lparr>de_inode = ino, de_file_type = ft_byte fs ft,
       de_name_len = word_of_nat (length name), de_name = name\<rparr> # post"
    by (auto simp: Let_def same_dir(3) [OF assms(2)] ft)
  from applied_one_block [OF assms(3,1,4,5,7)] obtain A B where
    "entries_of fs dir = A @ (pre @ post) @ B"
    "entries_of fs' dir = A @ (pre @ \<lparr>de_inode = ino, de_file_type = ft_byte fs ft,
       de_name_len = word_of_nat (length name), de_name = name\<rparr> # post) @ B"
    unfolding n by blast
  then have "entries_of fs dir = (A @ pre) @ (post @ B) \<and> entries_of fs' dir = (A @ pre) @ \<lparr>de_inode = ino,
      de_file_type = ft_byte fs ft, de_name_len = word_of_nat (length name), de_name = name\<rparr> # (post @ B)" by simp
  then show ?thesis by blast
qed

text \<open>The entries and the look-ups after a successful \<open>ext4_file_create\<close> in a linear directory.\<close>

lemma create_then_found:
  assumes "ext4_file_create parent_ino name mode now fs = (Inr ino, fs')"
    "fst (ext4_inode_read parent_ino fs) = Inr dir" "\<not> dir_indexed dir" "dir_ready fs dir" "ino \<noteq> 0" "length name \<le> 255"
    "\<forall>ts \<in> set (plan_trans (create_plan parent_ino name mode now) fs). trans_ready fs ts \<and>
       (\<forall>p \<in> set (dir_blocks fs dir). p \<notin> fst ` set (tl ts))"
  shows "(\<exists>pre post. entries_of fs dir = pre @ post \<and> entries_of fs' dir = pre @ \<lparr>de_inode = ino,
      de_file_type = ft_byte fs 1, de_name_len = word_of_nat (length name), de_name = name\<rparr> # post) \<and>
    (ext4_dir_lookup fs dir name = 0 \<longrightarrow> ext4_dir_lookup fs' dir name = ino) \<and>
    (\<forall>other. other \<noteq> name \<longrightarrow> ext4_dir_lookup fs' dir other = ext4_dir_lookup fs dir other)"
proof -
  from assms(1) show ?thesis
  proof (rule create_steps)
    fix dir' and pslot :: inode_slot and s :: dir_slot and a :: inode_alloc and sb b blk off
      and f0 f1 f2 f3 f4 :: "file_ctx ext4_fs"
    let ?ts = "[(ds_block s, slot_fill f3 parent_ino (is_gen pslot) s ino 1 name), (inode_bitmap_block f3 a, ia_bitmap a),
         (bgd_fs_block f3, ia_bgd a), (sb_fs_block f3, sb), (blk, init_inode f3 ino mode 1 now b off)]"
    assume h: "ext4_inode_read parent_ino fs = (Inr dir', f0)" "name \<noteq> []" "same_but_bgd fs f1"
      "parent_slot dir' name f1 = (Inr s, f2)" "same_but_bgd fs f3" "same_but_bgd fs f4"
      "ext4_journal_commit ?ts f4 = (Inr (), fs')" "plan_trans (create_plan parent_ino name mode now) fs = [?ts]"
    have d: "dir' = dir" using h(1) assms(2) by simp
    have t: "trans_ready fs ?ts" "\<forall>p \<in> set (dir_blocks fs dir). p \<notin> fst ` set (tl ?ts)"
      using assms(7) unfolding h(8) by simp_all
    have ap: "applied ?ts fs fs'" using commit_applied(1) [OF h(7,6) t(1)] .
    note s = slot_found [OF assms(4) h(3) assms(3) h(4) [unfolded d]]
    have o: "\<forall>p \<in> set (dir_blocks fs dir). p \<in> fst ` set ?ts \<longrightarrow> p = ds_block s" using t(2) by auto
    have m: "(ds_block s, slot_fill f3 parent_ino (is_gen pslot) s ino 1 name) \<in> set ?ts" by simp
    have "\<exists>pre post. entries_of fs dir = pre @ post \<and> entries_of fs' dir = pre @ \<lparr>de_inode = ino,
        de_file_type = ft_byte fs 1, de_name_len = word_of_nat (length name), de_name = name\<rparr> # post"
      by (rule slot_inserted [OF assms(4) h(5) ap m s [THEN conjunct1] s [THEN conjunct2] o assms(5) h(2) assms(6)]) simp
    then obtain pre post where e: "entries_of fs dir = pre @ post"
      "entries_of fs' dir = pre @ \<lparr>de_inode = ino,
        de_file_type = ft_byte fs 1, de_name_len = word_of_nat (length name), de_name = name\<rparr> # post" by blast
    have n: "names_entry name \<lparr>de_inode = ino, de_file_type = ft_byte fs 1, de_name_len = word_of_nat (length name), de_name = name\<rparr>"
      using assms(6) by (simp add: names_entry_def unsigned_of_nat take_bit_nat_eq_self)
    have l: "0 < length name" "block_size fs \<le> 4096" "block_size fs' = block_size fs"
      using h(2) dir_readyD(2) [OF assms(4)] ap by (auto simp: applied_def vol_step_def)
    note f = lookup_inserted [OF e n l(1) assms(6) l(2,3)]
    show ?thesis using e f by auto
  qed
qed

end
