(* ===== verification/Inodes.thy ===== *)
theory Inodes
  imports Naming
begin

text \<open>
  Inodes as data on the disk: where the group descriptors say an inode lies and what is there, what a
  transaction leaves of the inodes it does not mean, and the inode of a new file.
\<close>

section \<open>An inode on the disk\<close>

definition desc_at :: "'c ext4_fs \<Rightarrow> (nat \<Rightarrow> buf) \<Rightarrow> u32 \<Rightarrow> buf" where
  "desc_at fs d grp = at (d (unat (bgd_block_of fs grp))) (bgd_off_of fs grp)"

definition inode_spot :: "'c ext4_fs \<Rightarrow> (nat \<Rightarrow> buf) \<Rightarrow> u32 \<Rightarrow> u64 \<times> nat" where
  "inode_spot fs d ino = inode_place fs ino (desc_at fs d (ino_group fs ino))"

definition inode_on :: "'c ext4_fs \<Rightarrow> (nat \<Rightarrow> buf) \<Rightarrow> u32 \<Rightarrow> ext4_inode" where
  "inode_on fs d ino = (case inode_spot fs d ino of (blk, off) \<Rightarrow> inode_parse (at (d (unat blk)) off))"

text \<open>A volume whose descriptors fill at most the first block behind the superblock and whose inodes
  divide a block, as the write side of the driver needs it.\<close>

definition inode_tables :: "file_ctx ext4_fs \<Rightarrow> bool" where
  "inode_tables fs \<longleftrightarrow> vol fs \<and> \<not> jbd_replay_active (fs_jbd fs) \<and> bgd_coherent fs \<and>
     (fs_bgd_size fs = 32 \<or> 64 \<le> unat (fs_bgd_size fs)) \<and> unat (fs_bgd_count fs) * unat (fs_bgd_size fs) \<le> bs_nat fs \<and>
     blk_ok fs (unat (bgd_fs_block fs)) \<and> s_inodes_per_group (fs_sb fs) \<noteq> 0 \<and>
     unat (s_inode_size (fs_sb fs)) \<in> {128, 256, 512, 1024}"

definition inode_there :: "file_ctx ext4_fs \<Rightarrow> u32 \<Rightarrow> bool" where
  "inode_there fs ino \<longleftrightarrow> ino \<noteq> 0 \<and> ino_group fs ino < fs_bgd_count fs \<and>
     blk_ok fs (unat (fst (inode_spot fs (disk fs) ino)))"

lemma inode_tablesD:
  assumes "inode_tables fs"
  shows "vol fs" "\<not> jbd_replay_active (fs_jbd fs)" "bgd_coherent fs" "fs_bgd_size fs = 32 \<or> 64 \<le> unat (fs_bgd_size fs)"
    "unat (fs_bgd_count fs) * unat (fs_bgd_size fs) \<le> bs_nat fs" "blk_ok fs (unat (bgd_fs_block fs))"
    "s_inodes_per_group (fs_sb fs) \<noteq> 0" "unat (s_inode_size (fs_sb fs)) \<in> {128, 256, 512, 1024}"
  using assms by (simp_all add: inode_tables_def)

text \<open>The descriptor of every group is in the first descriptor block, at the entry's offset.\<close>

lemma desc_block:
  assumes "vol fs" "unat (fs_bgd_count fs) * unat (fs_bgd_size fs) \<le> bs_nat fs" "0 < unat (fs_bgd_size fs)"
    "grp < fs_bgd_count fs"
  shows "bgd_block_of fs grp = bgd_fs_block fs" "bgd_off_of fs grp = bgd_entry_off fs grp"
    "bgd_entry_off fs grp + unat (fs_bgd_size fs) \<le> bs_nat fs" "bgd_tag_fits fs grp"
proof -
  let ?e = "bgd_entry_off fs grp"
  have "Suc (unat grp) \<le> unat (fs_bgd_count fs)" using assms(4) by (simp add: word_less_nat_alt Suc_le_eq)
  then have "Suc (unat grp) * unat (fs_bgd_size fs) \<le> bs_nat fs" using assms(2) by (meson le_trans mult_le_mono1)
  then show e: "?e + unat (fs_bgd_size fs) \<le> bs_nat fs" by (simp add: bgd_entry_off_def)
  with assms(3) have l: "?e < bs_nat fs" by simp
  have bs: "bs_nat fs \<le> 4096" "0 < bs_nat fs" using assms(1) by (auto elim!: vol_bs_cases)
  have u: "unat (ucast grp :: u64) = unat grp" "unat (ucast (fs_bgd_size fs) :: u64) = unat (fs_bgd_size fs)"
    "unat (ucast (block_size fs) :: u64) = bs_nat fs"
    by (simp_all add: unsigned_ucast_eq take_bit_nat_eq_self unsigned_less [THEN less_le_trans])
  have m: "unat (ucast grp * ucast (fs_bgd_size fs) :: u64) = ?e"
    using l bs by (simp add: unat_word_ariths u bgd_entry_off_def)
  define k :: nat where "k = (if block_size fs > 1024 then 1 else 2)"
  have kk: "k \<le> 2" by (simp add: k_def)
  have b: "unat (bgd_byte_in_partition fs grp) = k * bs_nat fs + ?e"
  proof -
    have "unat ((if block_size fs > 1024 then 1 else 2) * ucast (block_size fs) :: u64) = k * bs_nat fs"
      using bs by (simp add: unat_word_ariths u k_def)
    moreover have "k * bs_nat fs + ?e < 2 ^ 64" using kk bs l mult_le_mono [OF kk bs(1)] by simp
    ultimately show ?thesis unfolding bgd_byte_in_partition_def by (subst unat_word_ariths(1)) (simp add: m)
  qed
  have "unat (bgd_block_of fs grp) = k" unfolding bgd_block_of_def by (simp add: unat_div u b l div_mult_self3 bs)
  then show "bgd_block_of fs grp = bgd_fs_block fs" "bgd_tag_fits fs grp"
    using kk by (simp_all add: word_unat_eq_iff bgd_fs_block_def k_def bgd_tag_fits_def split: if_splits)
  have "unat (bgd_byte_in_partition fs grp mod ucast (block_size fs)) = ?e" by (simp add: unat_mod u b l)
  then show "bgd_off_of fs grp = ?e"
    unfolding bgd_off_of_def using l bs by (simp add: unsigned_ucast_eq take_bit_nat_eq_self)
qed

lemma tables_desc:
  assumes "inode_tables fs" "grp < fs_bgd_count fs"
  shows "bgd_block_of fs grp = bgd_fs_block fs" "bgd_off_of fs grp = bgd_entry_off fs grp"
    "bgd_entry_off fs grp + unat (fs_bgd_size fs) \<le> bs_nat fs" "bgd_tag_fits fs grp"
  using desc_block [OF inode_tablesD(1,5) [OF assms(1)] _ assms(2)] inode_tablesD(4) [OF assms(1)] by auto

text \<open>Reading an inode is parsing what is on the disk.\<close>

lemma inode_read_disk:
  assumes "inode_tables fs" "inode_there fs ino"
  shows "fst (ext4_inode_read ino fs) = Inr (inode_on fs (disk fs) ino)"
proof -
  note t = inode_tablesD [OF assms(1)]
  have g: "ino \<noteq> 0" "ino_group fs ino < fs_bgd_count fs" "blk_ok fs (unat (fst (inode_spot fs (disk fs) ino)))"
    using assms(2) by (simp_all add: inode_there_def)
  note d = tables_desc [OF assms(1) g(2)]
  obtain f where f: "ext4_fs_bgd_get (ino_group fs ino) fs = (Some (desc_at fs (disk fs) (ino_group fs ino)), f)"
    "same_but_bgd fs f"
  proof -
    have "fst (ext4_fs_bgd_get (ino_group fs ino) fs) = Some (desc_at fs (disk fs) (ino_group fs ino))"
      unfolding bgd_get_coherent(1) [OF t(3) d(4)] bgd_uncached_def desc_at_def d(1)
      using g(2) read_plain [OF t(1) t(6) t(2)] by (simp add: not_le)
    then show ?thesis using that bgd_get_same [of fs "ino_group fs ino"] by (metis prod.collapse)
  qed
  note s = same_but_bgd_fields [OF f(2)]
  obtain blk off where sp: "inode_spot fs (disk fs) ino = (blk, off)" by fastforce
  have pl: "inode_place f ino (desc_at fs (disk fs) (ino_group fs ino)) = (blk, off)"
    using sp by (simp add: inode_spot_def inode_place_def bgd_block_def inode_byte_in_table_def ino_index_def bgd_wide_def s)
  have rd: "ext4_fs_read_block f blk = Inr (disk fs (unat blk))"
    using read_plain [OF t(1) _ t(2)] g(3) sp by (simp add: same_but_bgd_read [OF f(2)])
  have "block_size fs \<le> 4096" using t(1) by (auto simp: vol_def word_le_nat_alt)
  moreover have "s_inode_size (fs_sb fs) \<le> 1024" using t(8) by (auto simp: word_le_nat_alt)
  ultimately show ?thesis
    using f g(1) t(7) pl rd
    by (simp add: ext4_inode_read_def bindE_def orE_def bgd_get_checked_def fs_read_block_def readE_def s inode_on_def sp)
qed

section \<open>What a transaction leaves of the other inodes\<close>

lemma same_geometryD:
  assumes "same_geometry fs fs'"
  shows "fs_partition_lba fs' = fs_partition_lba fs" "block_size fs' = block_size fs"
    "s_inodes_per_group (fs_sb fs') = s_inodes_per_group (fs_sb fs)" "s_inode_size (fs_sb fs') = s_inode_size (fs_sb fs)"
    "fs_bgd_count fs' = fs_bgd_count fs" "fs_bgd_size fs' = fs_bgd_size fs"
  using assms by (simp_all add: same_geometry_def geometry_def Let_def)

lemma geometry_spot:
  assumes "same_geometry fs fs'"
  shows "desc_at fs' = desc_at fs" "inode_spot fs' = inode_spot fs" "inode_on fs' = inode_on fs"
    "ino_group fs' ino = ino_group fs ino" "bgd_fs_block fs' = bgd_fs_block fs"
proof -
  note g = same_geometryD [OF assms]
  show d: "desc_at fs' = desc_at fs"
    by (simp add: fun_eq_iff desc_at_def bgd_block_of_def bgd_off_of_def bgd_byte_in_partition_def g)
  show i: "ino_group fs' ino = ino_group fs ino" for ino by (simp add: ino_group_def g)
  show s: "inode_spot fs' = inode_spot fs"
    by (simp add: fun_eq_iff inode_spot_def inode_place_def bgd_block_def inode_byte_in_table_def ino_index_def bgd_wide_def d i g)
  show "inode_on fs' = inode_on fs" by (simp add: fun_eq_iff inode_on_def s)
  show "bgd_fs_block fs' = bgd_fs_block fs" by (simp add: bgd_fs_block_def g)
qed

lemma inode_parse_cong:
  assumes "\<And>i. i < 0x70 \<Longrightarrow> b i = c i"
  shows "inode_parse b = inode_parse c"
proof -
  have "copy_bytes zero_buf 0 (at b 0x28) 60 = copy_bytes zero_buf 0 (at c 0x28) 60"
    by (rule ext) (simp add: copy_bytes_def assms)
  then show ?thesis
    by (simp add: inode_parse_def le16_cong [of b _ c] le32_cong [of b _ c] assms)
qed

text \<open>The offset of an inode is a multiple of the inode size, so inodes do not overlap.\<close>

lemma spot_offset:
  assumes "inode_tables fs"
  shows "unat (s_inode_size (fs_sb fs)) dvd snd (inode_spot fs d ino)"
    "snd (inode_spot fs d ino) + unat (s_inode_size (fs_sb fs)) \<le> bs_nat fs"
proof -
  let ?s = "unat (s_inode_size (fs_sb fs))"
  note t = inode_tablesD [OF assms]
  have s: "0 < ?s" "?s dvd bs_nat fs" "?s \<le> 1024" using t(1,8) by (auto elim!: vol_bs_cases)
  have bs: "bs_nat fs \<le> 4096" "0 < bs_nat fs" using t(1) by (auto elim!: vol_bs_cases)
  have u: "unat (ucast (s_inode_size (fs_sb fs)) :: u64) = ?s" "unat (ucast (block_size fs) :: u64) = bs_nat fs"
    "unat (ucast (ino_index fs ino) :: u64) = unat (ino_index fs ino)"
    by (simp_all add: unsigned_ucast_eq take_bit_nat_eq_self unsigned_less [THEN less_le_trans])
  have "unat (ino_index fs ino) < 2 ^ 32" using unsigned_less [of "ino_index fs ino", where 'a = nat] by simp
  then have "unat (ino_index fs ino) * ?s < 2 ^ 32 * 2048" using s by (intro mult_strict_mono) simp_all
  then have b: "unat (inode_byte_in_table fs ino) = unat (ino_index fs ino) * ?s"
    by (simp add: inode_byte_in_table_def unat_word_ariths u)
  have m: "unat (inode_byte_in_table fs ino mod ucast (block_size fs)) = unat (ino_index fs ino) * ?s mod bs_nat fs"
    by (simp add: unat_mod b u)
  have l: "unat (ino_index fs ino) * ?s mod bs_nat fs < bs_nat fs" using bs(2) by simp
  have o: "snd (inode_spot fs d ino) = unat (ino_index fs ino) * ?s mod bs_nat fs"
    using l bs(1) by (simp add: inode_spot_def inode_place_def unsigned_ucast_eq m take_bit_nat_eq_self)
  show dv: "?s dvd snd (inode_spot fs d ino)" using s(2) by (simp add: o dvd_mod_iff)
  obtain k n where "snd (inode_spot fs d ino) = ?s * k" "bs_nat fs = ?s * n" using dv s(2) by (auto elim!: dvdE)
  moreover from this have "k < n" using l o by simp
  moreover from this have "?s * Suc k \<le> ?s * n" by (intro mult_le_mono2) simp
  ultimately show "snd (inode_spot fs d ino) + ?s \<le> bs_nat fs" by simp
qed

lemma spots_apart:
  assumes "inode_tables fs" "inode_spot fs d i = (blk, off)" "inode_spot fs d j = (blk, off')" "off \<noteq> off'"
  shows "off' + unat (s_inode_size (fs_sb fs)) \<le> off \<or> off + unat (s_inode_size (fs_sb fs)) \<le> off'"
proof -
  let ?s = "unat (s_inode_size (fs_sb fs))"
  obtain k l where k: "off = ?s * k" "off' = ?s * l"
    using spot_offset(1) [OF assms(1), of d i] spot_offset(1) [OF assms(1), of d j] assms(2,3) by (auto elim!: dvdE)
  then have "k < l \<or> l < k" using assms(4) by auto
  then have "?s * Suc k \<le> ?s * l \<or> ?s * Suc l \<le> ?s * k" by (metis Suc_leI mult_le_mono2)
  then show ?thesis using k by auto
qed

text \<open>The state after a transaction that was carried out.\<close>

lemma tables_after:
  assumes "inode_tables fs" "applied ts fs fs'" "same_geometry fs fs'" "fs_bgd_cached_block fs' = ext4_fs_bgd_invalid"
  shows "inode_tables fs'"
  using inode_tablesD [OF assms(1)] assms(2,4) same_geometryD [OF assms(3)] geometry_spot [OF assms(3)]
  by (auto simp: inode_tables_def applied_def vol_step_def bgd_coherent_def)

lemma inode_kept:
  assumes "inode_tables fs" "applied ts fs fs'" "same_geometry fs fs'" "fs_bgd_cached_block fs' = ext4_fs_bgd_invalid"
    "inode_there fs j"
    "inode_spot fs (disk fs') j = inode_spot fs (disk fs) j" "inode_on fs (disk fs') j = inode_on fs (disk fs) j"
  shows "fst (ext4_inode_read j fs') = fst (ext4_inode_read j fs)"
proof -
  have "inode_there fs' j"
    using assms(2,5,6) same_geometryD [OF assms(3)] geometry_spot [OF assms(3)]
    by (auto simp: inode_there_def applied_def vol_step_def)
  from inode_read_disk [OF tables_after [OF assms(1-4)] this] inode_read_disk [OF assms(1,5)] assms(7)
  show ?thesis by (simp add: geometry_spot [OF assms(3)])
qed

section \<open>The descriptor cache on the way\<close>

text \<open>Reads keep the cache coherent: only descriptors of existing groups are ever fetched.\<close>

definition cache_kept :: "file_ctx ext4_fs \<Rightarrow> file_ctx ext4_fs \<Rightarrow> bool" where
  "cache_kept fs fs' \<longleftrightarrow> same_but_bgd fs fs' \<and> (inode_tables fs \<longrightarrow> inode_tables fs')"

lemma cache_kept_props: "reflp cache_kept" "transp cache_kept"
  by (auto simp: reflp_def transp_def cache_kept_def intro: same_but_bgd_trans)

lemma tables_coherent:
  assumes "same_but_bgd fs fs'" "inode_tables fs" "bgd_coherent fs'"
  shows "inode_tables fs'"
  using inode_tablesD [OF assms(2)] assms(3) same_but_bgd_fields [OF assms(1)] same_but_bgd_vol [OF assms(1)]
  by (auto simp: inode_tables_def bgd_fs_block_def)

lemma cache_bgd_get: "keeps cache_kept (bgd_get_checked grp rc)"
proof (rule keepsI)
  fix fs :: "file_ctx ext4_fs"
  have s: "snd (bgd_get_checked grp rc fs) = snd (ext4_fs_bgd_get grp fs)"
    by (simp add: bgd_get_checked_def split: prod.split option.split)
  have "bgd_coherent (snd (ext4_fs_bgd_get grp fs))" if "inode_tables fs"
  proof (cases "grp < fs_bgd_count fs")
    case True
    then show ?thesis using bgd_get_coherent(2) inode_tablesD(3) [OF that] tables_desc(4) [OF that True] by blast
  next
    case False
    then show ?thesis using inode_tablesD(3) [OF that] by (simp add: ext4_fs_bgd_get_def not_less)
  qed
  then show "cache_kept fs (snd (bgd_get_checked grp rc fs))"
    unfolding cache_kept_def s using bgd_get_same tables_coherent by blast
qed

lemma cache_pair: "keeps cache_kept (Pair r)"
  using cache_kept_props(1) by (simp add: keeps_def reflp_def)

lemmas caching = keeps_bindE [OF _ _ cache_kept_props(2)] keeps_pure [OF cache_kept_props(1)] cache_bgd_get cache_pair
  keeps_orE keeps_orX keeps_tryX keeps_tryE

lemma cache_reads:
  "keeps cache_kept (fs_read_block blk)" "keeps cache_kept (extent_lookup node b)" "keeps cache_kept (ext4_inode_read ino)"
  "keeps cache_kept (read_inode_at ino)" "keeps cache_kept (read_inode_block ino)" "keeps cache_kept (parent_slot dir name)"
  "keeps cache_kept find_free_inode" "keeps cache_kept (sb_take_inode rc)"
proof -
  show b: "keeps cache_kept (fs_read_block blk)" for blk unfolding fs_read_block_def by (intro caching)
  show e: "keeps cache_kept (extent_lookup node b)" for node b unfolding extent_lookup_def by (intro caching)
  show "keeps cache_kept (ext4_inode_read ino)"
    unfolding ext4_inode_read_def by (intro caching) (auto intro!: caching b split: prod.split)
  show a: "keeps cache_kept (read_inode_at ino)"
    unfolding read_inode_at_def bgd_get_unchecked_def by (intro caching) (auto intro!: caching b split: prod.split)
  show "keeps cache_kept (read_inode_block ino)"
    unfolding read_inode_block_def by (intro caching a) (auto intro!: caching split: prod.split)
  have l: "keeps cache_kept (linear_slot dir need bs)" for dir need bs
    by (induction dir need bs rule: linear_slot.induct) (auto intro!: caching b e split: option.split)
  have h: "keeps cache_kept (htree_slot dir need name)" for dir need name unfolding htree_slot_def by (intro caching b e)
  show "keeps cache_kept (parent_slot dir name)"
    unfolding parent_slot_def Let_def by (intro caching) (auto intro!: caching l h split: option.split)
  have g: "keeps cache_kept (try_group_inode bgd grp)" for bgd grp
    unfolding try_group_inode_def Let_def by (intro caching) (auto intro!: caching split: option.split sum.split)
  have f: "keeps cache_kept (first_group (try_group_inode bgd) gs)" for bgd gs
    by (induction gs) (auto intro!: caching g split: option.split)
  show "keeps cache_kept find_free_inode" unfolding find_free_inode_def by (intro caching b f)
  show "keeps cache_kept (sb_take_inode rc)" unfolding sb_take_inode_def Let_def by (intro caching b)
qed

text \<open>What \<open>read_inode_at\<close> finds is the inode's place on the disk.\<close>

lemma read_inode_at_disk:
  assumes "inode_tables fs" "fst (read_inode_at ino fs) = Inr (b, blk, off)"
  shows "ino_group fs ino < fs_bgd_count fs" "inode_spot fs (disk fs) ino = (blk, off)"
    "blk_ok fs (unat blk) \<Longrightarrow> b = disk fs (unat blk)"
proof -
  note t = inode_tablesD [OF assms(1)]
  obtain f where r: "read_inode_at ino fs = (Inr (b, blk, off), f)" using assms(2) by (metis prod.collapse)
  obtain q f1 where q: "ext4_fs_bgd_get (ino_group fs ino) fs = (q, f1)" by fastforce
  with r obtain p where p: "q = Some p"
    by (cases q) (auto simp: read_inode_at_def bindE_Inr_iff bgd_get_unchecked_def bgd_get_checked_def)
  obtain blk' off' where pl: "inode_place f1 ino p = (blk', off')" by fastforce
  have g: "ext4_fs_bgd_get (ino_group fs ino) fs = (Some p, f1)" and r: "inode_place f1 ino p = (blk, off)" "ext4_fs_read_block f1 blk = Inr b"
    using r q p pl
    by (auto simp: read_inode_at_def bindE_Inr_iff bgd_get_unchecked_def bgd_get_checked_def fs_read_block_def readE_def
        split: sum.splits if_splits)
  show l: "ino_group fs ino < fs_bgd_count fs"
    using g by (auto simp: ext4_fs_bgd_get_def not_le [symmetric] split: if_splits)
  note d = tables_desc [OF assms(1) l]
  have s: "same_but_bgd fs f1" using bgd_get_same [of fs "ino_group fs ino"] by (simp add: g)
  have "Some p = bgd_uncached fs (ino_group fs ino)" using bgd_get_coherent(1) [OF t(3) d(4)] by (simp add: g)
  then have "p = desc_at fs (disk fs) (ino_group fs ino)"
    unfolding bgd_uncached_def desc_at_def d(1) using l read_plain [OF t(1) t(6) t(2)] by (auto simp: not_le [symmetric])
  then show "inode_spot fs (disk fs) ino = (blk, off)"
    using r(1) by (simp add: inode_spot_def inode_place_def bgd_block_def inode_byte_in_table_def ino_index_def bgd_wide_def
        same_but_bgd_fields [OF s])
  show "blk_ok fs (unat blk) \<Longrightarrow> b = disk fs (unat blk)"
    using r(2) read_plain [OF t(1) _ t(2)] by (simp add: same_but_bgd_read [OF s])
qed

section \<open>The inode of a new file\<close>

lemma take_inode_outside:
  defines "E \<equiv> {0x0E, 0x0F, 0x12, 0x1A, 0x1B, 0x1C, 0x1D, 0x1E, 0x1F, 0x2E, 0x2F, 0x32, 0x33, 0x3A, 0x3B} :: nat set"
  assumes "i \<notin> (+) (bgd_entry_off fs grp) ` E"
  shows "bgd_take_inode fs grp b bitno bm i = b i"
proof -
  let ?e = "bgd_entry_off fs grp"
  let ?f = "if b (?e + 0x12) AND 2 \<noteq> 0 then b(?e + 0x12 := b (?e + 0x12) AND NOT 2) else b"
  have "\<exists>c v w. bgd_take_inode fs grp b bitno bm = bgd_finalize fs grp
      (if c then bgd_put_split fs (bgd_put_split fs ?f ?e 0x0E 0x2E v) ?e 0x1C 0x32 w
       else bgd_put_split fs ?f ?e 0x0E 0x2E v) ?e 0x1A 0x3A (inode_bitmap_csum fs bm)"
    unfolding bgd_take_inode_def bgd_finalize_inode_bitmap_csums_def Let_def case_prod_unfold by (intro exI) (rule refl)
  moreover have n: "i \<noteq> ?e + y" if "y \<in> E" for y using assms(2) that by blast
  have "bgd_finalize fs grp c ?e 0x1A 0x3A cs i = c i" for c cs
    using n [of "0x1A"] n [of "0x1B"] n [of "0x3A"] n [of "0x3B"] n [of "0x1E"] n [of "0x1F"]
    by (intro finalize_outside) (simp add: E_def)
  moreover have "bgd_put_split fs c ?e 0x0E 0x2E v i = c i" for c v
    using n [of "0x0E"] n [of "0x0F"] n [of "0x2E"] n [of "0x2F"] by (intro put_split_outside) (simp add: E_def)
  moreover have "bgd_put_split fs c ?e 0x1C 0x32 v i = c i" for c v
    using n [of "0x1C"] n [of "0x1D"] n [of "0x32"] n [of "0x33"] by (intro put_split_outside) (simp add: E_def)
  moreover have "?f i = b i" using n [of "0x12"] by (simp add: E_def)
  ultimately show ?thesis by auto
qed

text \<open>So the pointers to the inode tables stay, in every group's entry.\<close>

lemma take_inode_tables:
  assumes "fs_bgd_size fs = 32 \<or> 64 \<le> unat (fs_bgd_size fs)" "x \<in> {8..<12} \<or> bgd_wide fs \<and> x \<in> {0x28..<0x2C}"
  shows "bgd_take_inode fs grp b bitno bm (bgd_entry_off fs g + x) = b (bgd_entry_off fs g + x)"
proof (rule take_inode_outside)
  let ?s = "unat (fs_bgd_size fs)"
  have m: "(unat h * ?s + y) mod ?s = y mod ?s" for h :: u32 and y by simp
  have d: "x mod ?s \<noteq> y mod ?s"
    if y: "y \<in> {0x0E, 0x0F, 0x12, 0x1A, 0x1B, 0x1C, 0x1D, 0x1E, 0x1F, 0x2E, 0x2F, 0x32, 0x33, 0x3A, 0x3B}" for y
  proof (cases "64 \<le> ?s")
    case True
    then have "x mod ?s = x" "y mod ?s = y" using assms(2) y by auto
    then show ?thesis using assms(2) y by auto
  next
    case False
    with assms(1) have "fs_bgd_size fs = 32" by blast
    then have "x \<in> {8..<12}" "?s = 32" using assms(2) by (auto simp: bgd_wide_def)
    then show ?thesis using y by (auto simp: atLeastLessThan_iff)
  qed
  show "bgd_entry_off fs g + x \<notin> (+) (bgd_entry_off fs grp) `
      {0x0E, 0x0F, 0x12, 0x1A, 0x1B, 0x1C, 0x1D, 0x1E, 0x1F, 0x2E, 0x2F, 0x32, 0x33, 0x3A, 0x3B}"
  proof
    assume "bgd_entry_off fs g + x \<in> (+) (bgd_entry_off fs grp) `
      {0x0E, 0x0F, 0x12, 0x1A, 0x1B, 0x1C, 0x1D, 0x1E, 0x1F, 0x2E, 0x2F, 0x32, 0x33, 0x3A, 0x3B}"
    then obtain y where y: "unat g * ?s + x = unat grp * ?s + y"
      "y \<in> {0x0E, 0x0F, 0x12, 0x1A, 0x1B, 0x1C, 0x1D, 0x1E, 0x1F, 0x2E, 0x2F, 0x32, 0x33, 0x3A, 0x3B}"
      unfolding bgd_entry_off_def by blast
    from m [of g x] m [of grp y] y(1) have "x mod ?s = y mod ?s" by simp
    with d [OF y(2)] show False by contradiction
  qed
qed

definition empty_extents :: buf where
  "empty_extents = put_le16 (put_le16 zero_buf 0 ext4_ext_magic) 4 4"

definition new_file :: "u16 \<Rightarrow> u32 \<Rightarrow> ext4_inode" where
  "new_file mode now = \<lparr>i_mode = mode, i_size = 0, i_flags = ext4_inode_flag_extents, i_mtime = now, i_block = empty_extents\<rparr>"

lemma at_stores:
  "at (put_le16 b (off + p) v) off = put_le16 (at b off) p v" "at (put_le16 b off v) off = put_le16 (at b off) 0 v"
  "at (put_le32 b (off + p) w) off = put_le32 (at b off) p w" "at (fill_bytes b off x n) off = fill_bytes (at b off) 0 x n"
  by (auto simp: fun_eq_iff at_def put_le16_def put_le32_def fill_bytes_def)

lemma init_inode_outside:
  assumes "inode_tables fs" "i < off \<or> off + unat (s_inode_size (fs_sb fs)) \<le> i"
  shows "init_inode fs ino mode links now b off i = b i"
proof -
  have s: "unat (s_inode_size (fs_sb fs)) \<in> {128, 256, 512, 1024}" using inode_tablesD(8) [OF assms(1)] .
  have h: "inode_has_hi fs \<Longrightarrow> 256 \<le> unat (s_inode_size (fs_sb fs))"
    using s by (auto simp: inode_has_hi_def word_less_nat_alt)
  have c: "ext4_inode_recompute_csum fs ino c off i = c i" for c
    using assms(2) s h by (auto simp: ext4_inode_recompute_csum_def Let_def)
  have p: "put_le16 c (off + 0x80) v i = c i" if "inode_has_hi fs" for c v
    using assms(2) h [OF that] by (auto intro: put_le16_outside)
  show ?thesis
    using assms(2) s p by (auto simp: init_inode_def Let_def c put_le16_outside put_le32_outside fill_bytes_def)
qed

lemma init_inode_parse:
  assumes "128 \<le> unat (s_inode_size (fs_sb fs))"
  shows "inode_parse (at (init_inode fs ino mode links now b off) off) = new_file mode now"
proof -
  define z where "z = put_le16 (put_le16 (put_le16 (put_le32 (put_le32 (put_le32 (put_le32 (put_le16 (put_le16
      (fill_bytes (at b off) 0 0 (unat (s_inode_size (fs_sb fs)))) 0 mode) 0x1A links) 0x20 ext4_inode_flag_extents)
      0x08 now) 0x0C now) 0x10 now) 0x28 ext4_ext_magic) 0x2A 0) 0x2C 4"
  have b: "at (init_inode fs ino mode links now b off) off i = z i" if "i < 0x70" for i
    using that unfolding init_inode_def Let_def z_def
    by (auto simp: at_apply recompute_csum_outside put_le16_outside at_stores [symmetric])
  have f: "fill_bytes (at b off) 0 0 (unat (s_inode_size (fs_sb fs))) i = 0" if "i < 128" for i
    using that assms by (simp add: fill_bytes_def)
  have e: "copy_bytes zero_buf 0 (at z 0x28) 60 i = empty_extents i" for i
    by (simp add: copy_bytes_def empty_extents_def z_def put_le16_def put_le32_def f zero_buf_def)
  have "inode_parse z = new_file mode now"
    unfolding inode_parse_def new_file_def
    by (simp add: e [abs_def]) (simp add: z_def le16_def le32_def put_le16_def put_le32_def f
        le16_put_le16 [of zero_buf 0 mode, unfolded le16_def put_le16_def, simplified]
        le32_put_le32 [of zero_buf 0 now, unfolded le32_def put_le32_def, simplified]
        le32_put_le32 [of zero_buf 0 ext4_inode_flag_extents, unfolded le32_def put_le32_def, simplified])
  moreover have "inode_parse (at (init_inode fs ino mode links now b off) off) = inode_parse z"
    by (rule inode_parse_cong) (rule b)
  ultimately show ?thesis by simp
qed

lemma sb_block_number: "vol fs \<Longrightarrow> unat (sb_fs_block fs) = sb_blk fs"
  by (auto simp: sb_fs_block_def sb_blk_def word_less_nat_alt elim!: vol_bs_cases)

text \<open>The allocator reads the descriptors from the disk and changes one entry.\<close>

lemma find_free_inode_bgd:
  assumes "find_free_inode f = (Inr a, f')"
  shows "\<exists>bgd grp bitno bm. ext4_fs_read_block f (bgd_fs_block f) = Inr bgd \<and> ia_bgd a = bgd_take_inode f grp bgd bitno bm"
proof -
  have g: "\<exists>grp bitno bm f1. same_but_bgd f0 f1 \<and> ia_bgd a = bgd_take_inode f1 grp bgd bitno bm"
    if "first_group (try_group_inode bgd) gs f0 = (Inr a, f')" for bgd gs f0
  proof -
    from first_group_ok [OF that keeps_try_inode] obtain grp f1 where f: "same_but_bgd f0 f1"
      "try_group_inode bgd grp f1 = (Inr (Some a), f')" by blast
    obtain bm where bm: "group_inode_bitmap f1 bgd grp = Inr bm"
      using f(2) by (cases "group_inode_bitmap f1 bgd grp") (auto simp: try_group_inode_def Let_def bindE_Inr_iff split: if_splits)
    obtain bitno where "bmp_find bm (inode_bitmap_bits f1) = Some bitno"
      using f(2) bm by (cases "bmp_find bm (inode_bitmap_bits f1)") (auto simp: try_group_inode_def Let_def bindE_Inr_iff split: if_splits)
    with f bm have "ia_bgd a = bgd_take_inode f1 grp bgd bitno (bmp_set bm bitno)"
      by (auto simp: try_group_inode_def Let_def bindE_Inr_iff split: if_splits)
    with f(1) show ?thesis by blast
  qed
  have s: "bgd_take_inode f1 = bgd_take_inode f0" if "same_but_bgd f0 f1" for f0 f1 :: "'a ext4_fs"
  proof -
    note e = same_but_bgd_fields [OF that]
    have w: "bgd_wide f1 = bgd_wide f0" "metadata_csum f1 = metadata_csum f0" by (simp_all add: bgd_wide_def metadata_csum_def e)
    have d: "bgd_split f1 = bgd_split f0" "bgd_put_split f1 = bgd_put_split f0" "bgd_entry_off f1 = bgd_entry_off f0"
      "bgd_compute_csum f1 = bgd_compute_csum f0" "inode_bitmap_csum f1 = inode_bitmap_csum f0"
      by (simp_all add: fun_eq_iff bgd_split_def bgd_put_split_def bgd_entry_off_def bgd_compute_csum_def inode_bitmap_csum_def w e)
    have "bgd_finalize_inode_bitmap_csums f1 = bgd_finalize_inode_bitmap_csums f0"
      by (simp add: fun_eq_iff bgd_finalize_inode_bitmap_csums_def bgd_finalize_def w d)
    then show ?thesis by (intro ext) (simp only: bgd_take_inode_def d e)
  qed
  from assms obtain bgd where "ext4_fs_read_block f (bgd_fs_block f) = Inr bgd"
      "first_group (try_group_inode bgd) (group_numbers f) f = (Inr a, f')"
    by (auto simp: find_free_inode_def bindE_Inr_iff orX_Inr_iff fs_read_block_def readE_def split: sum.splits)
  with g [of bgd "group_numbers f" f] s show ?thesis by metis
qed

lemma place_cong:
  assumes "\<And>x. x \<in> {8..<12} \<or> bgd_wide fs \<and> x \<in> {0x28..<0x2C} \<Longrightarrow> b x = c x"
  shows "inode_place fs ino b = inode_place fs ino c"
proof -
  have "le32 b 8 = le32 c 8" by (rule le32_cong) (rule assms, simp)
  moreover have "bgd_wide fs \<Longrightarrow> le32 b 0x28 = le32 c 0x28" by (rule le32_cong) (rule assms, simp)
  ultimately show ?thesis by (simp add: inode_place_def bgd_block_def)
qed

lemma table_pointers_kept:
  assumes "inode_tables fs" "applied ts fs fs'" "(bgd_fs_block fs, c) \<in> set ts" "unat (bgd_fs_block fs) \<noteq> sb_blk fs"
    "\<And>g x. x \<in> {8..<12} \<or> bgd_wide fs \<and> x \<in> {0x28..<0x2C} \<Longrightarrow>
       c (bgd_entry_off fs g + x) = disk fs (unat (bgd_fs_block fs)) (bgd_entry_off fs g + x)"
    "ino_group fs j < fs_bgd_count fs"
  shows "inode_spot fs (disk fs') j = inode_spot fs (disk fs) j"
proof -
  note d = tables_desc [OF assms(1,6)]
  have "\<not> in_log (fs_jbd fs) (unat (bgd_fs_block fs))"
    using assms(2,3) trans_readyD(12) by (fastforce simp: applied_def)
  then have D: "disk fs' (unat (bgd_fs_block fs)) = trunc (bs_nat fs) c"
    by (rule applied_block(2) [OF assms(2) _ assms(4,3)])
  have "desc_at fs (disk fs') (ino_group fs j) x = desc_at fs (disk fs) (ino_group fs j) x"
    if x: "x \<in> {8..<12} \<or> bgd_wide fs \<and> x \<in> {0x28..<0x2C}" for x
  proof -
    have "x < unat (fs_bgd_size fs)" using x inode_tablesD(4) [OF assms(1)] by (auto simp: bgd_wide_def word_le_nat_alt)
    then have "bgd_entry_off fs (ino_group fs j) + x < bs_nat fs" using d(3) by simp
    then show ?thesis using assms(5) [OF x] unfolding desc_at_def d D by simp
  qed
  then show ?thesis unfolding inode_spot_def by (rule place_cong)
qed

text \<open>A successful \<open>ext4_file_create\<close> as one transaction: the first four blocks, the descriptors among
  them, and the block with the new inode.\<close>

lemma create_committed:
  assumes "ext4_file_create parent_ino name mode now fs = (Inr ino, fs')" "inode_tables fs"
    "\<forall>ts \<in> set (plan_trans (create_plan parent_ino name mode now) fs). trans_ready fs ts"
  obtains xs blk off f where
    "plan_trans (create_plan parent_ino name mode now) fs =
       [xs @ [(blk, init_inode f ino mode 1 now (disk fs (unat blk)) off)]]"
    "applied (xs @ [(blk, init_inode f ino mode 1 now (disk fs (unat blk)) off)]) fs fs'"
    "fs_bgd_cached_block fs' = ext4_fs_bgd_invalid" "same_geometry fs fs'"
    "inode_tables f" "s_inode_size (fs_sb f) = s_inode_size (fs_sb fs)"
    "inode_spot fs (disk fs) ino = (blk, off)" "ino_group fs ino < fs_bgd_count fs" "blk_ok fs (unat blk)"
    "\<And>j. ino_group fs j < fs_bgd_count fs \<Longrightarrow> inode_spot fs (disk fs') j = inode_spot fs (disk fs) j"
    "\<not> in_log (fs_jbd fs) (unat blk)" "unat blk \<noteq> sb_blk fs" "\<And>p. p \<notin> fst ` set xs \<Longrightarrow> unat p \<noteq> sb_blk fs"
proof -
  from assms(1) show ?thesis
  proof (rule create_steps)
    fix dir and pslot :: inode_slot and s :: dir_slot and a :: inode_alloc and sb b blk off
      and f0 f1 f2 f3 f4 :: "file_ctx ext4_fs"
    let ?xs = "[(ds_block s, slot_fill f3 parent_ino (is_gen pslot) s ino 1 name), (inode_bitmap_block f3 a, ia_bitmap a),
         (bgd_fs_block f3, ia_bgd a), (sb_fs_block f3, sb)]"
    let ?ts = "?xs @ [(blk, init_inode f3 ino mode 1 now b off)]"
    assume h: "ext4_inode_read parent_ino fs = (Inr dir, f0)" "read_inode_block parent_ino f0 = (Inr pslot, f1)"
      "parent_slot dir name f1 = (Inr s, f2)" "find_free_inode f2 = (Inr a, f3)"
      "read_inode_at ino f3 = (Inr (b, blk, off), f4)" "same_but_bgd fs f2" "same_but_bgd fs f3" "same_but_bgd fs f4"
      and "ext4_journal_commit [(ds_block s, slot_fill f3 parent_ino (is_gen pslot) s ino 1 name),
         (inode_bitmap_block f3 a, ia_bitmap a), (bgd_fs_block f3, ia_bgd a), (sb_fs_block f3, sb),
         (blk, init_inode f3 ino mode 1 now b off)] f4 = (Inr (), fs')"
        "plan_trans (create_plan parent_ino name mode now) fs = [[(ds_block s, slot_fill f3 parent_ino (is_gen pslot) s ino 1 name),
         (inode_bitmap_block f3 a, ia_bitmap a), (bgd_fs_block f3, ia_bgd a), (sb_fs_block f3, sb),
         (blk, init_inode f3 ino mode 1 now b off)]]"
    then have c: "ext4_journal_commit ?ts f4 = (Inr (), fs')" "plan_trans (create_plan parent_ino name mode now) fs = [?ts]"
      by simp_all
    note g3 = geometry.reads [OF h(7)] and T = inode_tablesD [OF assms(2)] and e3 = same_but_bgd_fields [OF h(7)]
    have k: "inode_tables f3"
      using keepsD [OF cache_reads(3) h(1)] keepsD [OF cache_reads(5) h(2)] keepsD [OF cache_reads(6) h(3)]
        keepsD [OF cache_reads(7) h(4)] assms(2) by (auto simp: cache_kept_def)
    have t: "trans_ready fs ?ts" using assms(3) unfolding c(2) by simp
    note ap = commit_applied [OF c(1) h(8) t] and tr = trans_readyD(12,13) [OF t]
    have place: "inode_spot fs (disk fs) ino = (blk, off)" "ino_group fs ino < fs_bgd_count fs" "b = disk fs (unat blk)" "blk_ok fs (unat blk)"
      using read_inode_at_disk [OF k, of ino b blk off] h(5) tr(1) geometry_spot [OF g3] same_but_bgd_vol [OF h(7)] e3 by auto
    have sbn: "unat (sb_fs_block f3) = sb_blk fs"
      using sb_block_number [OF T(1)] by (simp add: sb_fs_block_def e3)
    then have nsb: "unat p \<noteq> sb_blk fs" if "p \<noteq> sb_fs_block f3" for p using that by (auto simp: word_unat_eq_iff)
    have spot: "inode_spot fs (disk fs') j = inode_spot fs (disk fs) j" if "ino_group fs j < fs_bgd_count fs" for j
    proof (rule table_pointers_kept [OF assms(2) ap(1) _ nsb _ that])
      show "(bgd_fs_block fs, ia_bgd a) \<in> set ?ts" "bgd_fs_block fs \<noteq> sb_fs_block f3"
        using tr(2) geometry_spot(5) [OF g3] by auto
      fix g :: u32 and x :: nat assume x: "x \<in> {8..<12} \<or> bgd_wide fs \<and> x \<in> {0x28..<0x2C}"
      have e: "bgd_entry_off f2 = bgd_entry_off fs" "bgd_wide f2 = bgd_wide fs" "fs_bgd_size f2 = fs_bgd_size fs"
        by (simp_all add: fun_eq_iff bgd_entry_off_def bgd_wide_def same_but_bgd_fields [OF h(6)])
      from find_free_inode_bgd [OF h(4)] obtain grp bitno bm where
        "ia_bgd a = bgd_take_inode f2 grp (disk fs (unat (bgd_fs_block fs))) bitno bm"
        using read_plain [OF T(1,6,2)] geometry_spot(5) [OF geometry.reads [OF h(6)]] by (auto simp: same_but_bgd_read [OF h(6)])
      then show "ia_bgd a (bgd_entry_off fs g + x) = disk fs (unat (bgd_fs_block fs)) (bgd_entry_off fs g + x)"
        using take_inode_tables [of f2 x] x T(4) by (simp add: e)
    qed
    have out: "\<not> in_log (fs_jbd fs) (unat blk)" "unat blk \<noteq> sb_blk fs" "\<And>p. p \<notin> fst ` set ?xs \<Longrightarrow> unat p \<noteq> sb_blk fs"
      using tr nsb by auto
    show ?thesis
      by (rule that [of ?xs blk f3 off, OF _ _ ap(2) keepsD [OF geometry.operations(3) assms(1)] k _ place(1,2,4) spot out])
        (use c(2) ap(1) place(3) e3 in simp_all)
  qed
qed

text \<open>The inode of the new file, and every other inode in a place of its own and outside the blocks of
  the transaction's other kinds.\<close>

lemma new_inode_reads_fresh:
  assumes "ext4_file_create parent_ino name mode now fs = (Inr ino, fs')" "inode_tables fs" "ino \<noteq> 0"
    "\<forall>ts \<in> set (plan_trans (create_plan parent_ino name mode now) fs). trans_ready fs ts"
  shows "fst (ext4_inode_read ino fs') = Inr (new_file mode now) \<and>
    (\<forall>j. inode_there fs j \<and> \<not> in_log (fs_jbd fs) (unat (fst (inode_spot fs (disk fs) j))) \<and>
       inode_spot fs (disk fs) j \<noteq> inode_spot fs (disk fs) ino \<and>
       (\<forall>ts \<in> set (plan_trans (create_plan parent_ino name mode now) fs). fst (inode_spot fs (disk fs) j) \<notin> fst ` set (butlast ts)) \<longrightarrow>
       fst (ext4_inode_read j fs') = fst (ext4_inode_read j fs))"
proof -
  from create_committed [OF assms(1,2,4)] obtain xs blk off f where
    pl: "plan_trans (create_plan parent_ino name mode now) fs = [xs @ [(blk, init_inode f ino mode 1 now (disk fs (unat blk)) off)]]"
    and ap: "applied (xs @ [(blk, init_inode f ino mode 1 now (disk fs (unat blk)) off)]) fs fs'"
      "fs_bgd_cached_block fs' = ext4_fs_bgd_invalid"
    and geo: "same_geometry fs fs'" and f: "inode_tables f" "s_inode_size (fs_sb f) = s_inode_size (fs_sb fs)"
    and place: "inode_spot fs (disk fs) ino = (blk, off)" "ino_group fs ino < fs_bgd_count fs" "blk_ok fs (unat blk)"
    and spot: "\<And>j. ino_group fs j < fs_bgd_count fs \<Longrightarrow> inode_spot fs (disk fs') j = inode_spot fs (disk fs) j"
    and out: "\<not> in_log (fs_jbd fs) (unat blk)" "unat blk \<noteq> sb_blk fs" "\<And>p. p \<notin> fst ` set xs \<Longrightarrow> unat p \<noteq> sb_blk fs"
    by metis
  let ?new = "init_inode f ino mode 1 now (disk fs (unat blk)) off" and ?sz = "unat (s_inode_size (fs_sb fs))"
  have sz: "128 \<le> ?sz" using inode_tablesD(8) [OF assms(2)] by auto
  have I: "disk fs' (unat blk) = trunc (bs_nat fs) ?new" by (rule applied_block(2) [OF ap(1) out(1,2)]) simp
  have "inode_there fs' ino"
    using assms(3) place spot [OF place(2)] ap(1) same_geometryD [OF geo] geometry_spot [OF geo]
    by (auto simp: inode_there_def applied_def vol_step_def)
  from inode_read_disk [OF tables_after [OF assms(2) ap(1) geo ap(2)] this]
  have "fst (ext4_inode_read ino fs') = Inr (inode_parse (at (disk fs' (unat blk)) off))"
    by (simp add: geometry_spot [OF geo] inode_on_def spot [OF place(2)] place(1))
  moreover have "inode_parse (at (disk fs' (unat blk)) off) = inode_parse (at ?new off)"
    using spot_offset(2) [OF assms(2), of "disk fs" ino] place(1) sz unfolding I by (intro inode_parse_cong) simp
  ultimately have new: "fst (ext4_inode_read ino fs') = Inr (new_file mode now)" using init_inode_parse [of f] sz f(2) by simp
  have old: "fst (ext4_inode_read j fs') = fst (ext4_inode_read j fs)"
    if j: "inode_there fs j" "\<not> in_log (fs_jbd fs) (unat (fst (inode_spot fs (disk fs) j)))"
      "inode_spot fs (disk fs) j \<noteq> (blk, off)" "fst (inode_spot fs (disk fs) j) \<notin> fst ` set xs" for j
  proof (rule inode_kept [OF assms(2) ap(1) geo ap(2) j(1)])
    show sj: "inode_spot fs (disk fs') j = inode_spot fs (disk fs) j" using j(1) spot by (simp add: inode_there_def)
    obtain bj oj where o: "inode_spot fs (disk fs) j = (bj, oj)" by fastforce
    have oj: "oj + ?sz \<le> bs_nat fs" using spot_offset(2) [OF assms(2), of "disk fs" j] o by auto
    have "disk fs' (unat bj) (oj + i) = disk fs (unat bj) (oj + i)" if "i < 0x70" for i
    proof (cases "bj = blk")
      case True
      then have "oj + ?sz \<le> off \<or> off + ?sz \<le> oj" using spots_apart [OF assms(2) place(1)] o j(3) by auto
      then show ?thesis unfolding True I using that oj sz init_inode_outside [OF f(1)] f(2) by auto
    next
      case False
      then show ?thesis using j(2,4) o out(3) [of bj] applied_block(1) [OF ap(1)] by auto
    qed
    then show "inode_on fs (disk fs') j = inode_on fs (disk fs) j"
      unfolding inode_on_def sj o prod.case by (intro inode_parse_cong) simp
  qed
  from new old show ?thesis unfolding pl place(1) by simp
qed

section \<open>A created file is there\<close>

lemma dir_lookup_same: "same_but_bgd fs fs' \<Longrightarrow> ext4_dir_lookup fs' dir name = ext4_dir_lookup fs dir name"
  using dir_listing_same [of fs fs' dir] same_but_bgd_fields [of fs fs']
  by (simp add: ext4_dir_lookup_def ext4_dir_iter_def dir_iter_loop_state)

text \<open>
  C10: A file that was created is there: after a successful \<open>ext4_file_create\<close> in a linear directory the
  path walk from that directory leads from the name to the new inode, which reads as an empty regular
  file with the given mode and time; the list of the directory's entries, over all its blocks, has
  exactly the new entry more, and every other name gives what it gave.
\<close>

theorem created_file_is_there:
  assumes "ext4_file_create parent_ino name mode now fs = (Inr ino, fs')" "ino \<noteq> 0"
    "fst (ext4_inode_read parent_ino fs) = Inr dir" "i_mode dir AND ext4_s_ifmt = ext4_s_ifdir" "\<not> dir_indexed dir"
    "dir_ready fs dir" "ext4_dir_lookup fs dir name = 0" "length name \<le> 255" "slash \<notin> set name"
    "inode_tables fs" "inode_there fs parent_ino" "\<not> in_log (fs_jbd fs) (unat (fst (inode_spot fs (disk fs) parent_ino)))"
    "inode_spot fs (disk fs) parent_ino \<noteq> inode_spot fs (disk fs) ino"
    "\<forall>ts \<in> set (plan_trans (create_plan parent_ino name mode now) fs). trans_ready fs ts \<and>
       (\<forall>p \<in> set (dir_blocks fs dir). p \<notin> fst ` set (tl ts)) \<and>
       fst (inode_spot fs (disk fs) parent_ino) \<notin> fst ` set (butlast ts)"
  shows "fst (path_walk parent_ino name fs') = ino \<and> fst (ext4_inode_read ino fs') = Inr (new_file mode now) \<and>
    (\<exists>pre post. entries_of fs dir = pre @ post \<and> entries_of fs' dir = pre @ \<lparr>de_inode = ino,
      de_file_type = ft_byte fs 1, de_name_len = word_of_nat (length name), de_name = name\<rparr> # post) \<and>
    (\<forall>other. other \<noteq> name \<longrightarrow> ext4_dir_lookup fs' dir other = ext4_dir_lookup fs dir other)"
proof -
  have "\<forall>ts \<in> set (plan_trans (create_plan parent_ino name mode now) fs). trans_ready fs ts \<and>
       (\<forall>p \<in> set (dir_blocks fs dir). p \<notin> fst ` set (tl ts))" using assms(14) by blast
  note e = create_then_found [OF assms(1,3,5,6,2,8) this]
  have "\<forall>ts \<in> set (plan_trans (create_plan parent_ino name mode now) fs). trans_ready fs ts" using assms(14) by blast
  note i = new_inode_reads_fresh [OF assms(1,10,2) this]
  then have "fst (ext4_inode_read parent_ino fs') = Inr dir" using assms(3,11-14) by auto
  then obtain f where f: "ext4_inode_read parent_ino fs' = (Inr dir, f)" by (metis prod.collapse)
  have n: "name \<noteq> []" using assms(1) by (auto simp: ext4_file_create_def bindE_Inr_iff)
  have w: "takeWhile (\<lambda>c. c \<noteq> slash) name = name" "dropWhile (\<lambda>c. c \<noteq> slash) name = []"
    using assms(9) by (auto simp: takeWhile_eq_all_conv)
  have "ext4_dir_lookup f dir name = ino"
    using e assms(7) dir_lookup_same [OF inode_read_same [OF f]] by simp
  then have "fst (path_walk parent_ino name fs') = ino"
    using assms(2,4,8) f n
    by (simp add: path_walk.simps [of parent_ino name] path_walk.simps [of ino "[]"] w Let_def)
  with i e show ?thesis by simp
qed


section \<open>An example\<close>

text \<open>A volume whose root is the sample directory: descriptors in block 2, inode bitmap with twelve
  inodes taken in block 4, inode 2 in block 5, the directory in block 10.\<close>

definition home_image :: buf where
  "home_image = sample_dir_image(1040 := 4, 2048 := 3, 2052 := 4, 2056 := 5, 2062 := 4, 4096 := 0xFF, 4097 := 0x0F,
     5249 := 0x40, 5253 := 4, 5282 := 8, 5288 := 0x0A, 5289 := 0xF3, 5290 := 1, 5304 := 2, 5308 := 10)"

abbreviation home :: "file_ctx ext4_fs" where
  "home \<equiv> sample_fs home_image sample_superblock sample_jbd"

abbreviation home_block :: "nat \<Rightarrow> buf" where
  "home_block n \<equiv> trunc 1024 (at home_image (n * 1024))"

lemma home_disk: "disk home n = home_block n" by (rule sample_disk) simp

lemma home_byte:
  "home_image i = (if i = 1040 \<or> i = 2062 \<or> i = 2052 \<or> i = 5253 then 4 else if i = 2048 then 3 else if i = 2056 then 5
     else if i = 4096 then 0xFF else if i = 4097 then 0x0F else if i = 5249 then 0x40 else if i = 5282 then 8
     else if i = 5288 then 0x0A else if i = 5289 then 0xF3 else if i = 5290 then 1 else if i = 5304 then 2
     else if i = 5308 then 10 else sample_dir_image i)"
  by (simp add: home_image_def)

lemma home_vol: "vol home" "alive home"
  by (intro sample_vol; simp add: home_byte sample_dir_image_def)+

lemma home_desc:
  "home_block 2 0x12 = 0" "bgd_split home (home_block 2) 0 0x0E 0x2E = (4, 0)"
  "bgd_block home (home_block 2) 0x04 0x24 = 4" "bgd_block home (home_block 2) 0x08 0x28 = 5"
  by (simp_all add: home_byte sample_dir_image_def bgd_split_def bgd_block_def bgd_wide_def le16_def le32_def at_def trunc_def)

lemma home_count: "fs_bgd_count home = 1" by (simp add: fs_group_count_def)

lemma home_tables: "inode_tables home"
  by (simp add: inode_tables_def home_vol bgd_coherent_def home_count sample_blk_ok bgd_fs_block_def del: sample_fields(4))

lemma home_spots: "inode_spot home (disk home) 2 = (5, 128)" "inode_spot home (disk home) 13 = (6, 512)"
proof -
  have g: "ino_group home 2 = 0" "ino_group home 13 = 0" by (simp_all add: ino_group_def)
  have b: "bgd_block_of home 0 = 2" "bgd_off_of home 0 = 0"
    by (simp_all add: bgd_block_of_def bgd_off_of_def bgd_byte_in_partition_def)
  show "inode_spot home (disk home) 2 = (5, 128)" "inode_spot home (disk home) 13 = (6, 512)"
    using home_desc(4)
    by (simp_all add: inode_spot_def desc_at_def home_disk g b inode_place_def inode_byte_in_table_def ino_index_def)
qed

lemma home_root: "inode_on home (disk home) 2 = sample_dir"
proof -
  let ?raw = "at (home_block 5) 128"
  have b: "copy_bytes zero_buf 0 (at ?raw 40) 60 i = sample_root i" for i
    by (simp add: copy_bytes_def trunc_def home_byte sample_dir_image_def sample_root_def put_le16_def put_le32_def)
  then have "copy_bytes zero_buf 0 (at ?raw 40) 60 = sample_root" by (rule ext)
  then show ?thesis
    by (simp add: inode_on_def home_spots home_disk inode_parse_def sample_dir_def le16_def le32_def)
      (simp add: home_byte sample_dir_image_def)
qed


lemma home_read: "unat blk < 64 \<Longrightarrow> same_but_bgd home f \<Longrightarrow> ext4_fs_read_block f blk = Inr (home_block (unat blk))"
  using read_plain [OF home_vol(1) sample_blk_ok, of blk] by (simp add: same_but_bgd_read home_disk)

lemma home_area: "dir_area home = 1024" "\<not> metadata_csum home"
  by (simp_all add: dir_area_def metadata_csum_def)

abbreviation home_dir_block :: buf where
  "home_dir_block \<equiv> trunc 1024 (at home_image 10240)"

lemma home_dir_record:
  "rec_len_at home_dir_block 0 = 1024" "ino_at home_dir_block 0 = 12" "name_len_at home_dir_block 0 = 1" "home_dir_block 7 = 1"
  by (simp_all add: rec_len_at_def ino_at_def name_len_at_def le16_def le32_def home_byte sample_dir_image_def)

lemma home_dir: "dir_ready home sample_dir" "dir_blocks home sample_dir = [10]"
proof -
  have n: "dir_block_numbers home sample_dir = [0]" by (simp add: dir_block_numbers_def dir_block_count_def sample_dir_def)
  have l: "leaf_lookup (i_block sample_dir) 0 = Inr 10"
    using leaf_lookup_hit [of 0 sample_root 0] by (simp add: sample_dir_def leaf_maps_def sample_root_fields)
  show b: "dir_blocks home sample_dir = [10]" by (simp add: dir_blocks_def n l)
  have "dir_block_ok home home_dir_block"
    by (simp add: dir_block_ok_def home_area dir_wf.simps [of home_dir_block 1024 0] dir_wf.simps [of home_dir_block 1024 1024]
        rec_good_def rec_ok_def is_csum_tail_def entry_live_def home_dir_record)
  moreover have "sb_blk home = 1" by (simp add: sb_blk_def)
  ultimately show "dir_ready home sample_dir"
    using home_vol(1) sample_blk_ok [of sample_superblock 10] sample_in_log [of 10]
    by (auto simp: dir_ready_def b n l home_disk) (simp_all add: sample_dir_def sample_root_fields)
qed

lemma home_slot: "\<exists>s. slot_in_block 10 (rec_need 1) home home_dir_block = Some s"
  by (simp add: slot_in_block_def dir_find_slot_for_entry_def dir_find_slot_from.simps [of home_dir_block 1024]
      rec_ok_def is_csum_tail_def home_dir_record real_size_def rec_need_def Let_def)

lemma home_bitmap: "bmp_find (home_block 4) 32 = Some 12"
proof -
  have b: "home_block 4 0 = mask 8" "home_block 4 1 = mask 4" by (simp_all add: home_byte mask_eq_exp_minus_1)
  have "bmp_test (home_block 4) j" if "j < 12" for j
  proof -
    have "j div 8 = 0 \<or> j div 8 = 1 \<and> j mod 8 < 4" using that by presburger
    then show ?thesis
    proof (elim disjE conjE)
      assume "j div 8 = 0"
      then show ?thesis by (simp only: bmp_test_bit b bit_mask_iff) simp
    next
      assume "j div 8 = 1" "j mod 8 < 4"
      then show ?thesis by (simp only: bmp_test_bit b bit_mask_iff) simp
    qed
  qed
  moreover have "\<not> bmp_test (home_block 4) 12"
  proof -
    have "(12 :: nat) div 8 = 1" "(12 :: nat) mod 8 = 4" by simp_all
    then show ?thesis by (simp only: bmp_test_bit b bit_mask_iff) simp
  qed
  ultimately show ?thesis by (simp add: bmp_find_def find_upt_Some)
qed

text \<open>Reading the block of an inode that is there.\<close>

lemma read_inode_at_there:
  assumes "inode_tables fs" "ino_group fs ino < fs_bgd_count fs" "inode_spot fs (disk fs) ino = (blk, off)" "blk_ok fs (unat blk)"
  shows "\<exists>f. read_inode_at ino fs = (Inr (disk fs (unat blk), blk, off), f)"
proof -
  note t = inode_tablesD [OF assms(1)] and d = tables_desc [OF assms(1,2)]
  obtain q f where q: "ext4_fs_bgd_get (ino_group fs ino) fs = (q, f)" by fastforce
  then have s: "same_but_bgd fs f" using bgd_get_same [of fs "ino_group fs ino"] by simp
  have "q = Some (desc_at fs (disk fs) (ino_group fs ino))"
    using bgd_get_coherent(1) [OF t(3) d(4)] q assms(2) read_plain [OF t(1,6,2)]
    by (simp add: bgd_uncached_def desc_at_def d(1) not_le [symmetric])
  moreover have "inode_place f = inode_place fs"
    by (simp add: fun_eq_iff inode_place_def bgd_block_def inode_byte_in_table_def ino_index_def bgd_wide_def
        same_but_bgd_fields [OF s])
  moreover have "ext4_fs_read_block f blk = Inr (disk fs (unat blk))"
    using read_plain [OF t(1) assms(4) t(2)] by (simp add: same_but_bgd_read [OF s])
  ultimately show ?thesis
    using q t(7) assms(3)
    by (simp add: read_inode_at_def bindE_def bgd_get_unchecked_def bgd_get_checked_def fs_read_block_def readE_def inode_spot_def)
qed


lemma home_find_inode:
  assumes "same_but_bgd home f"
  obtains a where "find_free_inode f = (Inr a, f)" "ia_num a = 13" "inode_bitmap_block f a = 4"
proof -
  note e = same_but_bgd_fields [OF assms]
  have o: "bgd_entry_off f 0 = 0" "bgd_entry_fits f 0" "bgd_fs_block f = 2" "group_numbers f = [0]" "inode_bitmap_bits f = 32"
    using home_count
    by (simp_all add: bgd_entry_off_def bgd_entry_fits_def e write_buf_size_def bgd_fs_block_def group_numbers_def
        inode_bitmap_bits_def drop_bit_eq_div del: sample_fields(4))
  have d: "bgd_block f b 4 0x24 = bgd_block home b 4 0x24" "bgd_split f b 0 0x0E 0x2E = bgd_split home b 0 0x0E 0x2E" for b
    using same_defs(3,5) [OF assms] by simp_all
  have "group_inode_bitmap f (home_block 2) 0 = Inr (home_block 4)"
    using home_desc(1,3) home_read [OF _ assms, of 4] by (simp add: group_inode_bitmap_def o d)
  moreover have "ext4_fs_read_block f 2 = Inr (home_block 2)" using home_read [OF _ assms, of 2] by simp
  ultimately obtain a where a: "find_free_inode f = (Inr a, f)" "ia_num a = 13" "ia_group a = 0"
    using home_desc(2) home_bitmap
    by (simp add: find_free_inode_def try_group_inode_def bindE_def orX_def fs_read_block_def readE_def o d e Let_def)
  obtain grp bitno bm where b: "ia_bgd a = bgd_take_inode f grp (home_block 2) bitno bm"
    using find_free_inode_bgd [OF a(1)] home_read [OF _ assms, of 2] by (auto simp: o)
  have "ia_bgd a (4 + i) = home_block 2 (4 + i)" if "i < 4" for i
    unfolding b
  proof (rule take_inode_outside)
    have "bgd_entry_off f grp = 32 * unat grp" by (simp add: bgd_entry_off_def e)
    then show "4 + i \<notin> (+) (bgd_entry_off f grp) `
        {0x0E, 0x0F, 0x12, 0x1A, 0x1B, 0x1C, 0x1D, 0x1E, 0x1F, 0x2E, 0x2F, 0x32, 0x33, 0x3A, 0x3B}"
      using that by auto
  qed
  then have "le32 (ia_bgd a) 4 = le32 (home_block 2) 4" by (rule le32_cong)
  moreover have "\<not> bgd_wide f" by (simp add: bgd_wide_def e)
  ultimately have "inode_bitmap_block f a = bgd_block home (home_block 2) 4 0x24"
    by (simp add: inode_bitmap_block_def a(3) o bgd_block_def bgd_wide_def e)
  with a home_desc(3) show ?thesis by (intro that) simp_all
qed

lemma home_take_inode:
  assumes "same_but_bgd home f"
  shows "\<exists>sb. sb_take_inode 0 f = (Inr sb, f)"
proof -
  have "le32 (home_block 1) 0x10 \<noteq> 0" by (simp add: le32_def home_byte sample_dir_image_def)
  then show ?thesis
    using home_read [OF _ assms, of 1] same_but_bgd_fields [OF assms]
    by (simp add: sb_take_inode_def bindE_def orX_def fs_read_block_def readE_def sb_fs_block_def sb_offset_in_block_def Let_def)
qed

lemma home_create:
  obtains xs fs' where "ext4_file_create 2 [98] 0x81A4 99 home = (Inr 13, fs')"
    "plan_trans (create_plan 2 [98] 0x81A4 99) home = [xs]" "trans_ready home xs" "map fst xs = [10, 4, 2, 1, 6]"
proof -
  have g: "ino_group home 2 < fs_bgd_count home" "ino_group home 13 < fs_bgd_count home"
    using home_count by (simp_all add: ino_group_def del: sample_fields(4))
  have there: "inode_there home 2" using g by (simp add: inode_there_def home_spots sample_blk_ok)
  obtain f0 where r0: "ext4_inode_read 2 home = (Inr sample_dir, f0)"
    using inode_read_disk [OF home_tables there] home_root by (metis prod.collapse)
  have s0: "same_but_bgd home f0" "inode_tables f0"
    using keepsD [OF cache_reads(3) r0] home_tables by (auto simp: cache_kept_def)
  have at: "\<exists>g. read_inode_at ino f = (Inr (home_block (unat blk), blk, off), g)"
    if f: "same_but_bgd home f" "inode_tables f" and i: "inode_spot home (disk home) ino = (blk, off)" "ino_group home ino < fs_bgd_count home"
      and b: "unat blk < 64" for f ino blk off
    using read_inode_at_there [OF f(2), of ino blk off] same_but_bgd_vol [OF f(1)] geometry_spot [OF geometry.reads [OF f(1)]]
      same_but_bgd_fields [OF f(1)] i b sample_blk_ok [of sample_superblock "unat blk"] by (simp add: home_disk)
  obtain f1 where "read_inode_at 2 f0 = (Inr (home_block 5, 5, 128), f1)"
    using at [OF s0 home_spots(1) g(1)] by auto
  then obtain pslot where r1: "read_inode_block 2 f0 = (Inr pslot, f1)"
    by (simp add: read_inode_block_def bindE_def)
  have s1: "same_but_bgd home f1" "inode_tables f1"
    using keepsD [OF cache_reads(5) r1] s0 by (auto simp: cache_kept_def intro: same_but_bgd_trans)
  obtain s where sl: "slot_in_block 10 (rec_need 1) home home_dir_block = Some s" using home_slot by blast
  have ds: "ds_block s = 10" using sl by (auto simp: slot_in_block_def)
  have "slot_in_block 10 (rec_need 1) f1 = slot_in_block 10 (rec_need 1) home"
    by (simp add: fun_eq_iff slot_in_block_def same_but_bgd_fields [OF s1(1)])
  moreover have "extent_lookup_res f1 (i_block sample_dir) 0 = Inr 10"
    using flat_lookup [of "i_block sample_dir" f1 0] leaf_lookup_hit [of 0 sample_root 0]
    by (simp add: sample_dir_def leaf_maps_def sample_root_fields same_but_bgd_fields [OF s1(1)])
  moreover have "dir_block_numbers f1 sample_dir = [0]" "\<not> dir_indexed sample_dir"
    by (simp_all add: dir_block_numbers_def dir_block_count_def sample_dir_def dir_indexed_def same_but_bgd_fields [OF s1(1)])
  ultimately have r2: "parent_slot sample_dir [98] f1 = (Inr s, f1)"
    using sl home_read [OF _ s1(1), of 10]
    by (simp add: parent_slot_def bindE_def tryX_def extent_lookup_def fs_read_block_def readE_def Let_def)
  obtain a where r3: "find_free_inode f1 = (Inr a, f1)" "ia_num a = 13" "inode_bitmap_block f1 a = 4"
    using home_find_inode [OF s1(1)] by blast
  obtain sb where r4: "sb_take_inode 0 f1 = (Inr sb, f1)" using home_take_inode [OF s1(1)] by blast
  obtain f2 where r5: "read_inode_at 13 f1 = (Inr (home_block 6, 6, 512), f2)"
    using at [OF s1 home_spots(2) g(2)] by auto
  have s2: "same_but_bgd home f2" using s1(1) keepsD [OF keeps_read_at(1) r5] by (rule same_but_bgd_trans)
  let ?ts = "[(10, slot_fill f1 2 (is_gen pslot) s 13 1 [98]), (4, ia_bitmap a), (2, ia_bgd a), (1, sb),
    (6, init_inode f1 13 0x81A4 1 99 (home_block 6) 512)]"
  have out: "\<not> in_log sample_jbd n" if "n < 40" for n using that by (auto dest: sample_in_log)
  have sbb: "sb_blk home = 1" by (simp add: sb_blk_def)
  have "descriptor_cap sample_jbd = 996" "jbd_tag_bytes sample_jbd = 8"
    by (simp_all add: descriptor_cap_def jbd_tag_bytes_def)
  then have t: "trans_ready home ?ts"
    using out by (simp add: trans_ready_def sbb home_vol sample_log_ok sample_blk_ok trans_max_blocks_def)
  obtain fs' where c: "ext4_journal_commit ?ts f2 = (Inr (), fs')"
    using commit_after_reads [OF s2 t home_vol(2)] by blast
  have b: "bgd_fs_block f1 = 2" "sb_fs_block f1 = 1" by (simp_all add: bgd_fs_block_def sb_fs_block_def same_but_bgd_fields [OF s1(1)])
  have w: "write_cap 0 home = (Inr (), home)" by (simp add: write_cap_def bindE_def write_buf_size_def)
  have "ext4_file_create 2 [98] 0x81A4 99 home = (Inr 13, fs')"
    using w r0 r1 r2 r3 r4 r5 c by (simp add: ext4_file_create_def bindE_def orX_def b ds)
  moreover have "plan_trans (create_plan 2 [98] 0x81A4 99) home = [?ts]"
    unfolding create_plan_def using w r0 r1 r2 r3 r4 r5 c by (simp add: plan_trans_rd orX_Inr_iff b ds)
  ultimately show ?thesis by (rule that) (use t in simp_all)
qed

theorem created_file_is_there_witness:
  "\<exists>fs'. ext4_file_create 2 [98] 0x81A4 99 home = (Inr 13, fs') \<and> fst (ext4_path_lookup [slash, 98] fs') = 13 \<and>
     fst (ext4_inode_read 13 fs') = Inr (new_file 0x81A4 99) \<and> ext4_dir_lookup fs' sample_dir [97] = 12"
proof -
  obtain xs fs' where c: "ext4_file_create 2 [98] 0x81A4 99 home = (Inr 13, fs')"
    "plan_trans (create_plan 2 [98] 0x81A4 99) home = [xs]" "trans_ready home xs" "map fst xs = [10, 4, 2, 1, 6]"
    by (rule home_create)
  have there: "inode_there home 2"
    using home_count by (simp add: inode_there_def home_spots sample_blk_ok ino_group_def del: sample_fields(4))
  have r: "fst (ext4_inode_read 2 home) = Inr sample_dir" using inode_read_disk [OF home_tables there] home_root by simp
  have e: "entries_of home sample_dir = [\<lparr>de_inode = 12, de_file_type = 1, de_name_len = 1, de_name = [97]\<rparr>]"
    unfolding entries_of_def by (rule block10_listing [of _ home_image]) (simp_all add: home_byte sample_dir_image_def)
  have l: "ext4_dir_lookup home sample_dir [98] = 0" "ext4_dir_lookup home sample_dir [97] = 12"
    by (simp_all add: lookup_entries e names_entry_def)
  have m: "i_mode sample_dir AND ext4_s_ifmt = ext4_s_ifdir" "\<not> dir_indexed sample_dir"
    by (simp_all add: sample_dir_def ext4_s_ifmt_def ext4_s_ifdir_def dir_indexed_def)
  have fx: "fst ` set (tl xs) = {4, 2, 1, 6}" "fst ` set (butlast xs) = {10, 4, 2, 1}"
  proof -
    have "map fst (tl xs) = [4, 2, 1, 6]" "map fst (butlast xs) = [10, 4, 2, 1]" by (simp_all add: map_tl map_butlast c(4))
    then show "fst ` set (tl xs) = {4, 2, 1, 6}" "fst ` set (butlast xs) = {10, 4, 2, 1}"
      by (metis list.set_map list.simps(15) set_empty2)+
  qed
  have o: "\<not> in_log sample_jbd 5" by (auto dest: sample_in_log)
  have "fst (path_walk 2 [98] fs') = 13 \<and> fst (ext4_inode_read 13 fs') = Inr (new_file 0x81A4 99) \<and>
      (\<forall>other. other \<noteq> [98] \<longrightarrow> ext4_dir_lookup fs' sample_dir other = ext4_dir_lookup home sample_dir other)"
    using created_file_is_there [OF c(1) _ r m home_dir(1) l(1) _ _ home_tables there]
    by (simp add: home_spots o c(2,3) home_dir(2) fx slash_def)
  moreover have "ext4_path_lookup [slash, 98] fs' = path_walk 2 [98] fs'" by (simp add: ext4_path_lookup_def slash_def)
  ultimately show ?thesis using c(1) l(2) by auto
qed

end
