(* ===== verification/Untouched.thy ===== *)
theory Untouched
  imports Int21 Volume
begin

text \<open>
  What the calls of DOS do not touch.  A handler assigns the mounted file system, the table of open
  files, the buffers and what it hands back to DOS; any view \<open>V\<close> of the driver's state that does not
  look at these is the same after every call.  Of the file system a view may see what no operation
  changes, given by a relation \<open>R\<close> that they keep (theory Volume).  The locale states this once for
  all views.
\<close>

definition same_view :: "('s \<Rightarrow> 'v) \<Rightarrow> ('s \<Rightarrow> 'a \<times> 's) \<Rightarrow> bool" where
  "same_view V m \<longleftrightarrow> (\<forall>d. V (snd (m d)) = V d)"

lemma same_view_eq: "same_view V m \<Longrightarrow> V (snd (m d)) = V d"
  by (simp add: same_view_def)

lemma same_view_prod: "same_view V m \<Longrightarrow> m d = (x, d') \<Longrightarrow> V d' = V d"
  by (drule same_view_eq [of V m d]) simp

lemma chdir_same: "same_but_bgd fs (snd (chdir_is_dir path fs))"
proof -
  obtain ino fs1 where c: "chdir_ino path fs = (ino, fs1)" by fastforce
  have s: "same_but_bgd fs fs1"
    using c alias_walk_same [of fs 2 "skip_slashes (chdir_path path)"]
    by (auto simp: chdir_ino_def path_lookup_with_alias_def split: if_splits)
  then show ?thesis
    using c by (auto simp: chdir_is_dir_def split: prod.split sum.split
        dest: inode_read_same intro: same_but_bgd_trans)
qed

named_theorems views \<open>Steps of the handlers that leave a view of the state as it is.\<close>

lemma same_view_bind [views]: "same_view V m \<Longrightarrow> (\<And>x. same_view V (f x)) \<Longrightarrow> same_view V (bindR m f)"
  unfolding same_view_def bindR_def by (auto split: prod.splits sum.splits) (metis snd_conv)+

lemma same_view_pure [views]:
  "same_view V (retR x)" "same_view V (checkR ok e)" "same_view V (getR g)" "same_view V (\<lambda>d. (Inl e, d))"
  by (simp_all add: same_view_def retR_def checkR_def getR_def)

lemma same_view_mod: "(\<And>d. V (f d) = V d) \<Longrightarrow> same_view V (modR f)"
  by (simp add: same_view_def modR_def)

lemma same_view_undo: "same_view V m \<Longrightarrow> (\<And>d. V (f d) = V d) \<Longrightarrow> same_view V (undoR m f)"
  unfolding same_view_def undoR_def by (auto split: prod.splits sum.splits) (metis snd_conv)+

lemma same_view_here: "(\<And>s. same_view V (g s)) \<Longrightarrow> same_view V (\<lambda>d. g d d)"
  by (simp add: same_view_def)

lemma same_view_if: "(c \<Longrightarrow> same_view V m) \<Longrightarrow> (\<not> c \<Longrightarrow> same_view V n) \<Longrightarrow> same_view V (if c then m else n)"
  by simp

lemma same_view_reply: "same_view V m \<Longrightarrow> V (snd (reply r m d)) = V d"
  unfolding same_view_def reply_def by (auto split: prod.splits sum.splits) (metis snd_conv)+

locale handler_frame = volume_view R for R :: "'c ext4_fs \<Rightarrow> 'c ext4_fs \<Rightarrow> bool" +
  fixes V :: "'c redir \<Rightarrow> 'v"
  assumes fs: "R (rd_fs d) x1 \<Longrightarrow> V (d\<lparr>rd_fs := x1\<rparr>) = V d"
    and opens: "V (d\<lparr>rd_open := x2\<rparr>) = V d"
    and entries: "V (d\<lparr>rd_sft := x3\<rparr>) = V d"
    and user: "V (d\<lparr>rd_user := x4\<rparr>) = V d"
    and wbuf: "V (d\<lparr>rd_wbuf := x5\<rparr>) = V d"
    and esdi: "V (d\<lparr>rd_esdi := x6\<rparr>) = V d"
    and found: "V (d\<lparr>rd_dirent := x7, rd_dm_drive := x8, rd_dm_attr := x9, rd_dm_entry := x10\<rparr>) = V d"
begin

lemmas fields = opens entries user wbuf esdi found

lemma mods [views]:
  "same_view V (modR (slot_upd i f))" "same_view V (modR (release_slot i))" "same_view V (modR (claim_slot r i ino))"
  "same_view V (modR (\<lambda>d. sft_upd p (g d) d))" "same_view V (modR (load_wbuf from n bs))"
  "same_view V (modR (\<lambda>d. d\<lparr>rd_wbuf := h d\<rparr>))" "same_view V (modR (sft_size_from r i))"
  "same_view V (modR (\<lambda>d. sft_size_from r i (sft_upd p (g d) d)))"
  by (rule same_view_mod,
      simp add: fields release_slot_def claim_slot_def sft_upd_def load_wbuf_def sft_size_from_def)+

lemma looked_up: "V (d\<lparr>rd_fs := snd (alias_walk ino p (rd_fs d))\<rparr>) = V d" "V (d\<lparr>rd_fs := snd (path_walk ino p (rd_fs d))\<rparr>) = V d"
  by (rule fs, rule reads, rule alias_walk_same path_walk_same)+

lemmas inode_reading = reading [OF keeps_ext4_inode_read]

lemma inode_read: "ext4_inode_read ino (rd_fs d) = (x, fs') \<Longrightarrow> V (d\<lparr>rd_fs := fs'\<rparr>) = V d"
  by (drule keepsD [OF inode_reading]) (rule fs)

lemma undo_release [views]: "same_view V m \<Longrightarrow> same_view V (undoR m (release_slot i))"
  by (rule same_view_undo) (simp_all add: release_slot_def opens)

lemma fs_step: "keeps R m \<Longrightarrow> same_view V (fsE e m)"
  unfolding same_view_def fsE_def by (auto split: prod.splits sum.splits intro!: fs dest: keepsD)

lemma fs_step_here: "(\<And>s. keeps R (m s)) \<Longrightarrow> same_view V (\<lambda>d. fsE e (m d) d)"
  by (rule same_view_here) (rule fs_step)

lemmas file_system [views] = operations [THEN fs_step] inode_reading [THEN fs_step] fs_step_here [OF operations(7)]

lemma block_read [views]: "same_view V (\<lambda>d. fsE e (readE (g d)) d)"
  by (rule fs_step_here) (rule keeps_pure(3) [OF refl])

lemma lookups [views]: "same_view V (pathR src)" "same_view V (aliasR p)" "same_view V (plainR p)" "same_view V (allocR r)"
  using looked_up
  by (simp_all add: same_view_def pathR_def aliasR_def plainR_def allocR_def getR_def path_lookup_with_alias_def
      ext4_path_lookup_def split: prod.split) (metis snd_conv)+

lemma parent [views]: "same_view V (parentR e p)"
  unfolding parentR_def by (auto intro!: views)

lemma existing [views]: "same_view V (existingR p)"
  unfolding existingR_def by (auto intro!: views)

lemma reread [views]: "same_view V (reread_slot e i ino)" "same_view V (\<lambda>d. reread_slot e i (num d) d)"
proof -
  show "same_view V (reread_slot e i ino)" for ino unfolding reread_slot_def by (auto intro!: views)
  then show "same_view V (\<lambda>d. reread_slot e i (num d) d)" by (rule same_view_here)
qed

lemma truncate [views]: "same_view V (open_truncate ext r i ino)"
  using reread(1) unfolding same_view_def open_truncate_def
  by (auto simp: Let_def split: prod.split sum.split dest: same_view_prod [OF fs_step [OF operations(7)]])

lemma create [views]: "same_view V (create_in_slot r p n e)"
  unfolding create_in_slot_def by (auto intro!: views)

lemma found_file [views]: "same_view V (open_found ext p ino r)"
  unfolding open_found_def Let_def by (auto intro!: views)

lemma calls:
  "V (snd (rem_rmdir src r d)) = V d" "V (snd (rem_delete src r d)) = V d" "V (snd (rem_mkdir src r d)) = V d"
  "V (snd (rem_rename src dsrc r d)) = V d" "V (snd (rem_create src r d)) = V d" "V (snd (rem_open src r d)) = V d"
  unfolding rem_rmdir_def rem_delete_def rem_mkdir_def rem_rename_def rem_create_def rem_open_def Let_def
  by (rule same_view_reply, auto intro!: views)+

lemma slot_operation: "(\<And>inode ino b. keeps R (m inode ino b)) \<Longrightarrow> same_view V (slot_op i m)"
  unfolding slot_op_def Let_def by (rule same_view_here) (auto intro!: views fs_step)

lemmas slot_operations [views] = slot_operation [OF operations(1)] slot_operation [OF operations(2)]

lemma writes [views]:
  "same_view V (write_blocks i bs l now ks)" "same_view V (append_blocks i bs now n ks)"
  "same_view V (overlay_block i bs l off n now)"
proof -
  show "same_view V (write_blocks i bs l now ks)" by (induction ks) (auto intro!: views)
  show "same_view V (append_blocks i bs now n ks)" by (induction ks) (auto intro!: views simp: Let_def)
  show "same_view V (overlay_block i bs l off n now)" unfolding overlay_block_def by (auto intro!: views)
qed

lemma extend [views]: "same_view V (extend_to n i bs pos)"
proof (induction n)
  case (Suc n)
  let ?m = "\<lambda>d. bindR (slot_op i (\<lambda>inode ino b. ext4_file_extend_block inode ino b
      (min (pos - ucast (i_size (os_inode (rd_open d ! i)))) bs) (i_mtime inode + 1)))
      (\<lambda>_. extend_to n i bs pos)"
  have "same_view V (\<lambda>d. ?m d d)" by (rule same_view_here [where g = ?m]) (auto intro!: views Suc)
  then show ?case by (simp add: same_view_def Let_def)
qed (simp add: same_view_def)

lemma set_size [views]: "same_view V (write_set_size r i bs pos fsize)"
  unfolding write_set_size_def Let_def by (auto intro!: views)

lemma data [views]: "same_view V (write_data i bs pos fsize n)"
  unfolding write_data_def Let_def by (rule same_view_here) (auto intro!: views)

lemma write_call: "rem_write r d = Some (r', d') \<Longrightarrow> V d' = V d"
proof -
  have "same_view V (bindR (write_data i bs pos fsize n) (\<lambda>_.
      bindR (modR (\<lambda>d. sft_size_from r i (sft_upd p f d))) (\<lambda>_. retR id)))" for i bs pos fsize n p f
    by (auto intro!: views)
  note w = same_view_reply [OF this, of r] and s = same_view_reply [OF set_size, of r]
  show "rem_write r d = Some (r', d') \<Longrightarrow> V d' = V d"
    using w s unfolding rem_write_def Let_def by (auto split: option.splits if_splits) (metis snd_conv)+
qed

lemma others:
  "V (snd (rem_close r d)) = V d" "V (snd (rem_read r d)) = V d" "V (snd (rem_qualify q r d)) = V d"
  "V (snd (rem_findfirst p r d)) = V d" "V (snd (rem_findnext p r d)) = V d"
proof -
  have search: "V (snd (do_findfirst_or_next p n d)) = V d" for n
    using inode_read [of _ d] inode_read [of _ "d\<lparr>rd_fs := x\<rparr>" for x] found
    by (auto simp: do_findfirst_or_next_def split: prod.split sum.split option.split)
  show "V (snd (rem_findfirst p r d)) = V d" "V (snd (rem_findnext p r d)) = V d"
    using search [of 0] search [of "rd_dm_entry d"]
    by (auto simp: rem_findfirst_def rem_findnext_def split: prod.split)
qed (simp_all add: rem_close_def rem_read_def rem_qualify_def sft_upd_def release_slot_def Let_def fields
    split: option.split)

lemma dispatch:
  "int2f_dispatch src dsrc qsrc r d = Done r' d' \<Longrightarrow> V d' = V d"
  "int2f_dispatch src dsrc qsrc r d = Chain d' \<Longrightarrow> V d' = V d"
  using calls [where src = src and d = d and r = r] others [where d = d and r = r] write_call [of r d]
  unfolding int2f_dispatch_def Let_def
  by (simp_all split: if_splits prod.splits option.splits) (metis snd_conv)+

lemma interrupt21:
  "int21_call q mem sda head path r d = Return r' d' \<Longrightarrow> V d' = V d"
  "int21_call q mem sda head path r d = Pass d' \<Longrightarrow> V d' = V d"
proof -
  have dir: "V (d\<lparr>rd_fs := fs'\<rparr>) = V d" if "chdir_is_dir path (rd_fs d) = (ok, fs')" for ok fs'
    using chdir_same [of "rd_fs d" path] that by (intro fs reads) simp
  have rest: "V d' = V d" if "int21_rest q path r d = Return r' d' \<or> int21_rest q path r d = Pass d'"
    using that dir fields by (auto simp: int21_rest_def split: if_splits prod.splits)
  show "int21_call q mem sda head path r d = Return r' d' \<Longrightarrow> V d' = V d"
    "int21_call q mem sda head path r d = Pass d' \<Longrightarrow> V d' = V d"
    using rest by (auto simp: int21_call_def split: if_splits option.splits)
qed

end

end
