(* ===== verification/Lifecycle.thy ===== *)
theory Lifecycle
  imports Install Untouched
begin

text \<open>
  The life of a resident copy of the driver (src/tools/tsr.c): the end of \<open>main\<close>, which takes the two
  interrupt vectors and stays in memory, and \<open>do_uninstall\<close>, which gives them back and frees the
  memory.

  What a copy does between the two is a list of events: calls of its two interrupt handlers, and
  other programs setting a vector.  INT 2Fh as the uninstaller sees it is a parameter: programs that
  have hooked it later come first and must pass the probes on; the locale says so.  DOS memory is a
  parameter as well: the word at PSP:2Ch, and the call that frees a block, which answers with AX and
  the carry flag.
\<close>

section \<open>Staying resident\<close>

definition fresh_slot :: open_slot where
  "fresh_slot = \<lparr>os_used = False, os_seg = 0, os_off = 0, os_num = 0,
     os_inode = \<lparr>i_mode = 0, i_size = 0, i_flags = 0, i_mtime = 0, i_block = zero_buf\<rparr>\<rparr>"

text \<open>\<open>d\<close> is the machine before: its vectors are saved and replaced by the two handlers.\<close>

definition hook_vectors :: "far \<Rightarrow> far \<Rightarrow> 'c redir \<Rightarrow> 'c redir" where
  "hook_vectors my2f my21 d =
     (let d = d\<lparr>rd_my2f := my2f, rd_my21 := my21\<rparr>;
          d = d\<lparr>rd_prev2f := rd_vec2f d\<rparr>; d = d\<lparr>rd_vec2f := my2f\<rparr>;
          d = d\<lparr>rd_prev21 := rd_vec21 d\<rparr>
      in d\<lparr>rd_vec21 := my21\<rparr>)"

definition go_live :: "'c resident \<Rightarrow> far \<Rightarrow> far \<Rightarrow> far \<Rightarrow> u16 \<Rightarrow> 'c redir \<Rightarrow> 'c redir" where
  "go_live re my2f my21 capture psp d =
     hook_vectors my2f my21
       (d\<lparr>rd_fs := re_fs re, rd_ready := True, rd_open := replicate max_open_slots fresh_slot,
          rd_drive := re_letter re, rd_index := re_index re, rd_safe_bs := re_safe_bs re,
          rd_safe_blocks := re_safe_blocks re, rd_safe_free := re_safe_free re,
          rd_counts := replicate 64 0, rd_capture := capture,
          rd_cds_flags := Some (le16 (re_cds re) 0x43), rd_psp := psp\<rparr>)"

text \<open>The size kept is that of the program's memory block, from the block's header.\<close>

definition keep_paragraphs :: "(far \<Rightarrow> byte) \<Rightarrow> u16 \<Rightarrow> u16" where
  "keep_paragraphs mem psp = peek16 mem (psp - 1, 0) 3"

section \<open>Uninstalling\<close>

definition uninstall_done :: "byte list" where
  "uninstall_done = ascii ''ext4-dos uninstalled'' @ [newline]"

definition uninstall_refused :: "byte list" where
  "uninstall_refused = ascii ''ext4-dos refused to unhook (another TSR is now on top of'' @ [newline] @
     ascii ''the INT 2Fh chain '' @ [0xE2, 0x80, 0x94] @ ascii '' unload that one first, then retry)'' @ [newline]"

definition uninstall_absent :: "byte list" where
  "uninstall_absent = ascii ''ext4-dos not installed'' @ [newline]"

definition uninstall_kept :: "u16 \<Rightarrow> byte list" where
  "uninstall_kept ax = ascii ''ext4-dos unhooked but freeing resident memory failed (AX='' @ hex0 4 (unat ax) @
     ascii ''). Drive Y: is no longer redirected, but the memory is still allocated. A reboot will clean it up.'' @
     [newline]"

definition do_uninstall ::
  "(regs \<Rightarrow> 'd \<Rightarrow> regs \<times> 'd) \<Rightarrow> (far \<Rightarrow> byte) \<Rightarrow> (u16 \<Rightarrow> 'm \<Rightarrow> (u16 \<times> bool) \<times> 'm) \<Rightarrow>
    regs \<Rightarrow> 'd \<Rightarrow> 'm \<Rightarrow> (int \<times> byte list) \<times> 'd \<times> 'm" where
  "do_uninstall int2f mem free r d m =
     (case int2f (r\<lparr>rg_ax := 0x1100, rg_bx := ext4_dos_magic_probe\<rparr>) d of (r, d) \<Rightarrow>
      if al_of r \<noteq> 0xFF \<or> rg_bx r \<noteq> ext4_dos_magic_reply then ((1, uninstall_absent), d, m)
      else case int2f (r\<lparr>rg_ax := 0x11FB, rg_bx := ext4_dos_magic_probe\<rparr>) d of (r, d) \<Rightarrow>
        if al_of r \<noteq> 0xFF then ((2, uninstall_refused), d, m)
        else
          let resident_psp = rg_si r; env_seg = peek16 mem (resident_psp, 0) 0x2C;
              m = (if env_seg \<noteq> 0 then snd (free env_seg m) else m)
          in case free resident_psp m of
               ((ax, carry), m) \<Rightarrow> ((if carry then (3, uninstall_kept ax) else (0, uninstall_done)), d, m))"

section \<open>The driver behind INT 2Fh\<close>

text \<open>A call that the driver passes on is answered by \<open>prev\<close>.  \<open>src\<close>, \<open>dsrc\<close> and \<open>qsrc\<close> are the
  strings its other calls would look at.\<close>

definition int2f_service :: "(regs \<Rightarrow> regs) \<Rightarrow> byte list \<Rightarrow> byte list \<Rightarrow> byte list \<Rightarrow> regs \<Rightarrow> 'c redir \<Rightarrow> regs \<times> 'c redir" where
  "int2f_service prev src dsrc qsrc r d =
     (case int2f_call src dsrc qsrc r d of Done r d \<Rightarrow> (r, d) | Chain d \<Rightarrow> (prev r, d) | Overrun \<Rightarrow> (r, d))"

definition is_probe :: "regs \<Rightarrow> bool" where
  "is_probe r \<longleftrightarrow> rg_ax r \<in> {0x1100, 0x11FD, 0x11FC, 0x11F0, 0x11FB, 0x11EF} \<and> rg_bx r = ext4_dos_magic_probe"

lemma al_with [simp]: "with_al a 0xFF AND 0xFF = 0xFF" "with_al a 0 AND 0xFF = 0"
proof -
  show "with_al a 0xFF AND 0xFF = 0xFF" by (rule bit_word_eqI) (auto simp: with_al_def bit_simps)
  show "with_al a 0 AND 0xFF = 0" by (simp add: with_al_def and.assoc)
qed

locale probe_service =
  fixes int2f :: "regs \<Rightarrow> 'c redir \<Rightarrow> regs \<times> 'c redir"
  assumes reaches: "is_probe r \<Longrightarrow> int2f_call src dsrc qsrc r d = Done r' d' \<Longrightarrow> int2f r d = (r', d')"
begin

lemma reaches_pair: "is_probe r \<Longrightarrow> int2f_call src dsrc qsrc r d = Done (fst p) (snd p) \<Longrightarrow> int2f r d = p"
  by (drule (1) reaches) simp

lemma answers:
  "int2f (r\<lparr>rg_ax := 0x1100, rg_bx := ext4_dos_magic_probe\<rparr>) d =
     (probe_installed (r\<lparr>rg_ax := 0x1100, rg_bx := ext4_dos_magic_probe\<rparr>), d)"
  "int2f (r\<lparr>rg_ax := 0x11FB, rg_bx := ext4_dos_magic_probe\<rparr>) d =
     probe_uninstall (r\<lparr>rg_ax := 0x11FB, rg_bx := ext4_dos_magic_probe\<rparr>) d"
  "int2f (r\<lparr>rg_ax := 0x11FD, rg_bx := ext4_dos_magic_probe, rg_cx := c, rg_dx := x\<rparr>) d =
     (probe_count (r\<lparr>rg_ax := 0x11FD, rg_bx := ext4_dos_magic_probe, rg_cx := c, rg_dx := x\<rparr>) d, d)"
  "int2f (r\<lparr>rg_ax := 0x11F0, rg_bx := ext4_dos_magic_probe\<rparr>) d =
     (probe_live (r\<lparr>rg_ax := 0x11F0, rg_bx := ext4_dos_magic_probe\<rparr>) d, d)"
  "int2f (r\<lparr>rg_ax := 0x11EF, rg_bx := ext4_dos_magic_probe\<rparr>) d =
     (probe_snapshot (r\<lparr>rg_ax := 0x11EF, rg_bx := ext4_dos_magic_probe\<rparr>) d, d)"
  by (rule reaches_pair [of _ "[]" "[]" "[]"], simp add: is_probe_def,
      simp add: int2f_call_def split: prod.split)+

text \<open>The uninstaller succeeds exactly when both vectors are the driver's.\<close>

lemma uninstall_hooked:
  assumes "rd_hooked d"
  shows "do_uninstall int2f mem free r d m =
    (let d' = snd (probe_uninstall r d); env = peek16 mem (rd_psp d, 0) 0x2C;
         m = (if env \<noteq> 0 then snd (free env m) else m); (reply, m) = free (rd_psp d) m
     in ((if snd reply then (3, uninstall_kept (fst reply)) else (0, uninstall_done)), d', m))"
  using assms
  by (simp add: do_uninstall_def answers probe_installed_def probe_uninstall_def al_of_def Let_def
        split: prod.split)

lemma uninstall_refuses:
  assumes "\<not> rd_hooked d"
  shows "do_uninstall int2f mem free r d m = ((2, uninstall_refused), d, m)"
  using assms
  by (simp add: do_uninstall_def answers probe_installed_def probe_uninstall_def al_of_def)

end

interpretation served: probe_service "int2f_service prev src dsrc qsrc" for prev src dsrc qsrc
proof
  fix r :: regs and d d' :: "'a redir" and s1 s2 s3 r'
  assume "is_probe r" "int2f_call s1 s2 s3 r d = Done r' d'"
  then show "int2f_service prev src dsrc qsrc r d = (r', d')"
    unfolding is_probe_def int2f_service_def int2f_call_def by (auto split: if_splits)
qed

section \<open>The life of a copy\<close>

datatype event =
    Mux "byte list" "byte list" "byte list" regs
  | Dos dos_quirks "far \<Rightarrow> byte" far far "byte list" regs
  | Take2f far
  | Take21 far

text \<open>\<open>None\<close> when a call overruns the write buffer or loops.\<close>

fun after_event :: "event \<Rightarrow> 'c redir \<Rightarrow> 'c redir option" where
  "after_event (Mux src dsrc qsrc r) d =
     (case int2f_call src dsrc qsrc r d of Done _ d \<Rightarrow> Some d | Chain d \<Rightarrow> Some d | Overrun \<Rightarrow> None)"
| "after_event (Dos q mem sda head path r) d =
     (case int21_call q mem sda head path r d of Return _ d \<Rightarrow> Some d | Pass d \<Rightarrow> Some d | Loops \<Rightarrow> None)"
| "after_event (Take2f v) d = Some (d\<lparr>rd_vec2f := v\<rparr>)"
| "after_event (Take21 v) d = Some (d\<lparr>rd_vec21 := v\<rparr>)"

fun life :: "event list \<Rightarrow> 'c redir \<Rightarrow> 'c redir option" where
  "life [] d = Some d"
| "life (e # es) d = Option.bind (after_event e d) (life es)"

text \<open>What the events do to the two vectors, and which of them are counted as subfunction \<open>k\<close>.\<close>

fun vector_event :: "event \<Rightarrow> far \<times> far \<Rightarrow> far \<times> far" where
  "vector_event (Take2f v) (a, b) = (v, b)"
| "vector_event (Take21 v) (a, b) = (a, v)"
| "vector_event _ vs = vs"

definition uninstalls :: "event \<Rightarrow> bool" where
  "uninstalls e \<longleftrightarrow> (case e of Mux _ _ _ r \<Rightarrow> rg_ax r = 0x11FB \<and> rg_bx r = ext4_dos_magic_probe | _ \<Rightarrow> False)"

definition counted :: "nat \<Rightarrow> event \<Rightarrow> bool" where
  "counted k e \<longleftrightarrow> (case e of Mux _ _ _ r \<Rightarrow> ah_is 0x11 r \<and> \<not> is_probe r \<and> counter_of (rg_ax r) = k | _ \<Rightarrow> False)"

text \<open>The views of the state that calls leave alone.\<close>

definition set_up :: "'c redir \<Rightarrow> bool \<times> (byte \<times> byte) \<times> (u32 \<times> u32 \<times> u32) \<times> (far \<times> far) \<times> (far \<times> far) \<times> u16" where
  "set_up d = (rd_ready d, (rd_drive d, rd_index d), (rd_safe_bs d, rd_safe_blocks d, rd_safe_free d),
     (rd_my2f d, rd_my21 d), (rd_prev2f d, rd_prev21 d), rd_psp d)"

definition claims :: "'c redir \<Rightarrow> (far \<times> far) \<times> u16 option" where
  "claims d = ((rd_vec2f d, rd_vec21 d), rd_cds_flags d)"

interpretation set_up: handler_frame "\<lambda>_ _. True" set_up by unfold_locales (simp_all add: set_up_def)
interpretation claims: handler_frame "\<lambda>_ _. True" claims by unfold_locales (simp_all add: claims_def)
interpretation counts: handler_frame "\<lambda>_ _. True" rd_counts by unfold_locales simp_all
interpretation shape: handler_frame same_geometry "\<lambda>d. geometry (rd_fs d)"
  by unfold_locales (simp_all add: same_geometry_def)

text \<open>A call of the INT 2Fh hook is a probe or is counted, and touches what is set up in neither case.\<close>

lemma probe_state:
  assumes "is_probe r"
  shows "\<exists>r'. int2f_call src dsrc qsrc r d = Done r' (if rg_ax r = 0x11FB then snd (probe_uninstall r d) else d)"
  using assms unfolding is_probe_def int2f_call_def by (elim conjE insertE) (simp_all split: prod.split)

lemma uninstall_state:
  "set_up (snd (probe_uninstall r d)) = set_up d" "rd_counts (snd (probe_uninstall r d)) = rd_counts d"
  "rd_fs (snd (probe_uninstall r d)) = rd_fs d"
  by (simp_all add: probe_uninstall_def set_up_def)

lemma counted_call:
  "ah_is 0x11 r \<Longrightarrow> \<not> is_probe r \<Longrightarrow> int2f_call src dsrc qsrc r d = int2f_dispatch src dsrc qsrc r (count_call r d)"
  "\<not> ah_is 0x11 r \<Longrightarrow> \<not> is_probe r \<Longrightarrow> int2f_call src dsrc qsrc r d = Chain d"
  by (auto simp: is_probe_def int2f_call_def)

lemma count_views: "set_up (count_call r d) = set_up d" "claims (count_call r d) = claims d" "rd_fs (count_call r d) = rd_fs d"
  by (simp_all add: set_up_def claims_def count_call_def Let_def)

lemma mux_call:
  assumes "after_event (Mux src dsrc qsrc r) d = Some d'"
  shows "set_up d' = set_up d \<and> geometry (rd_fs d') = geometry (rd_fs d) \<and> (uninstalls (Mux src dsrc qsrc r) \<or> claims d' = claims d) \<and>
    rd_counts d' = (if ah_is 0x11 r \<and> \<not> is_probe r then rd_counts (count_call r d) else rd_counts d)"
proof -
  consider "is_probe r" | "\<not> is_probe r" "ah_is 0x11 r" | "\<not> is_probe r" "\<not> ah_is 0x11 r" by blast
  then show ?thesis
  proof cases
    case 1
    then obtain r' where "int2f_call src dsrc qsrc r d = Done r' (if rg_ax r = 0x11FB then snd (probe_uninstall r d) else d)"
      using probe_state by blast
    then have "d' = (if rg_ax r = 0x11FB then snd (probe_uninstall r d) else d)" using assms by simp
    moreover have "uninstalls (Mux src dsrc qsrc r) = (rg_ax r = 0x11FB)" using 1 by (simp add: uninstalls_def is_probe_def)
    ultimately show ?thesis using 1 uninstall_state [of r d] by simp
  next
    case 2
    show ?thesis
    proof (cases "int2f_dispatch src dsrc qsrc r (count_call r d)")
      case (Chain d1)
      then show ?thesis using assms 2 set_up.dispatch(2) [OF Chain] shape.dispatch(2) [OF Chain] claims.dispatch(2) [OF Chain] counts.dispatch(2) [OF Chain]
        by (simp add: counted_call count_views)
    next
      case Overrun
      then show ?thesis using assms 2 by (simp add: counted_call)
    next
      case (Done r1 d1)
      then show ?thesis using assms 2 set_up.dispatch(1) [OF Done] shape.dispatch(1) [OF Done] claims.dispatch(1) [OF Done] counts.dispatch(1) [OF Done]
        by (simp add: counted_call count_views)
    qed
  next
    case 3
    then show ?thesis using assms by (simp add: counted_call)
  qed
qed

lemma dos_call:
  assumes "after_event (Dos q mem sda head path r) d = Some d'"
  shows "set_up d' = set_up d \<and> geometry (rd_fs d') = geometry (rd_fs d) \<and> claims d' = claims d \<and> rd_counts d' = rd_counts d"
proof (cases "int21_call q mem sda head path r d")
  case (Pass d1)
  with set_up.interrupt21(2) [OF Pass] shape.interrupt21(2) [OF Pass] claims.interrupt21(2) [OF Pass] counts.interrupt21(2) [OF Pass] assms
  show ?thesis by simp
next
  case Loops
  with assms show ?thesis by simp
next
  case (Return r1 d1)
  with set_up.interrupt21(1) [OF Return] shape.interrupt21(1) [OF Return] claims.interrupt21(1) [OF Return] counts.interrupt21(1) [OF Return] assms
  show ?thesis by simp
qed

lemma event_set_up: "after_event e d = Some d' \<Longrightarrow> set_up d' = set_up d \<and> geometry (rd_fs d') = geometry (rd_fs d)"
proof (induction e d rule: after_event.induct)
  case (1 src dsrc qsrc r d)
  then show ?case using mux_call by blast
next
  case (2 q mem sda head path r d)
  then show ?case using dos_call by blast
qed (auto simp: set_up_def)

lemma event_claims:
  "after_event e d = Some d' \<Longrightarrow> \<not> uninstalls e \<Longrightarrow> claims d' = map_prod (vector_event e) id (claims d)"
proof (induction e d rule: after_event.induct)
  case (1 src dsrc qsrc r d)
  then show ?case using mux_call [OF 1(1)] by (cases "claims d") simp
next
  case (2 q mem sda head path r d)
  then show ?case using dos_call [OF 2(1)] by (cases "claims d") simp
qed (auto simp: claims_def)

lemma event_count:
  assumes "after_event e d = Some d'" "length (rd_counts d) = 64" "k < 64"
  shows "length (rd_counts d') = 64 \<and> rd_counts d' ! k = rd_counts d ! k + (if counted k e then 1 else 0)"
proof (cases e)
  case (Mux s1 s2 s3 r)
  have "counter_of (rg_ax r) < 64"
  proof -
    have "rg_ax r AND 0x3F \<le> 0x3F" by (rule word_and_le1)
    then show ?thesis by (simp add: counter_of_def word_le_nat_alt)
  qed
  then show ?thesis
    using assms(2,3) mux_call [OF assms(1) [unfolded Mux]] unfolding Mux
    by (auto simp: counted_def count_call_def Let_def nth_list_update)
next
  case (Dos q mem sda head path r)
  then show ?thesis using assms(2) dos_call [OF assms(1) [unfolded Dos]] by (simp add: counted_def)
qed (use assms in \<open>auto simp: counted_def\<close>)

lemma life_set_up: "life es d = Some d' \<Longrightarrow> set_up d' = set_up d \<and> geometry (rd_fs d') = geometry (rd_fs d)"
  by (induction es arbitrary: d) (auto simp: bind_eq_Some_conv dest!: event_set_up)

lemma life_claims:
  "life es d = Some d' \<Longrightarrow> \<not> list_ex uninstalls es \<Longrightarrow> claims d' = map_prod (fold vector_event es) id (claims d)"
proof (induction es arbitrary: d)
  case (Cons e es)
  then show ?case using event_claims [of e d] by (fastforce simp: bind_eq_Some_conv map_prod.compositionality prod.map_comp comp_def)
qed (simp add: prod.map_id0)

lemma life_counts:
  "life es d = Some d' \<Longrightarrow> length (rd_counts d) = 64 \<Longrightarrow> k < 64 \<Longrightarrow>
   rd_counts d' ! k = rd_counts d ! k + word_of_nat (length (filter (counted k) es))"
proof (induction es arbitrary: d)
  case (Cons e es)
  then obtain d1 where "after_event e d = Some d1" "life es d1 = Some d'" by (auto simp: bind_eq_Some_conv)
  then show ?case using Cons event_count [of e d d1 k] by simp
qed simp

end
