(* ===== verification/Probes.thy ===== *)
theory Probes
  imports Lifecycle
begin

text \<open>
  The two programs that ask a resident driver about itself over INT 2Fh: src/tools/tsr_calls.c lists
  the call counters, src/tools/tsr_check.c tests for the driver and, with /V, compares the live
  superblock fields with the copies made when it was installed.  Both use one register block for all
  their calls, so each call starts from what the one before left.
\<close>

section \<open>tsr\_calls\<close>

definition subfunction_names :: "(nat \<times> string) list" where
  "subfunction_names =
     [(0x00, ''InstallCheck''), (0x01, ''RmDir''), (0x03, ''MkDir''), (0x05, ''ChDir''), (0x06, ''Close''),
      (0x07, ''Commit''), (0x08, ''Read''), (0x09, ''Write''), (0x0A, ''Lock''), (0x0B, ''Unlock''),
      (0x0C, ''GetDiskSpace''), (0x0E, ''SetAttrs''), (0x0F, ''GetAttrs''), (0x11, ''Rename''),
      (0x13, ''Delete''), (0x16, ''Open''), (0x17, ''Create''), (0x18, ''FindFirst-alt''),
      (0x1B, ''FindFirst''), (0x1C, ''FindNext''), (0x1D, ''FindClose''), (0x21, ''LseekFromEnd''),
      (0x23, ''Qualify''), (0x2E, ''ExtOpen'')]"

definition subfunction_name :: "nat \<Rightarrow> string" where
  "subfunction_name al = (case map_of subfunction_names al of None \<Rightarrow> ''?'' | Some s \<Rightarrow> s)"

definition count_line :: "nat \<Rightarrow> u16 \<Rightarrow> byte list" where
  "count_line al n =
     ascii ''  AL='' @ hex0 2 al @ ascii '' '' @ pad_right 15 (ascii (subfunction_name al)) @ ascii '' : '' @
     dec (unat n) @ [newline]"

definition count_query :: "nat \<Rightarrow> regs \<Rightarrow> regs" where
  "count_query al r =
     r\<lparr>rg_ax := 0x11FD, rg_bx := ext4_dos_magic_probe, rg_cx := (rg_cx r AND 0xFF00) OR word_of_nat al,
       rg_dx := 0xFFFF\<rparr>"

fun count_lines :: "(regs \<Rightarrow> 'd \<Rightarrow> regs \<times> 'd) \<Rightarrow> nat list \<Rightarrow> regs \<Rightarrow> 'd \<Rightarrow> byte list \<times> 'd" where
  "count_lines int2f [] r d = ([], d)"
| "count_lines int2f (al # als) r d =
     (case int2f (count_query al r) d of (r, d) \<Rightarrow>
        (case count_lines int2f als r d of (out, d) \<Rightarrow>
           ((if al_of r = 0xFF \<and> 0 < rg_dx r then count_line al (rg_dx r) else []) @ out, d)))"

definition calls_header :: "byte list" where
  "calls_header = ascii ''AH=11h subfunction call counts since TSR load:'' @ [newline]"

definition calls_main :: "(regs \<Rightarrow> 'd \<Rightarrow> regs \<times> 'd) \<Rightarrow> regs \<Rightarrow> 'd \<Rightarrow> byte list \<times> 'd" where
  "calls_main int2f r d = (case count_lines int2f [0..<0x40] r d of (out, d) \<Rightarrow> (calls_header @ out, d))"

section \<open>tsr\_check\<close>

record check_options =
  co_break :: bool
  co_verify :: bool

definition check_arg :: "byte list \<Rightarrow> check_options \<Rightarrow> check_options" where
  "check_arg a os =
     (if cstr_at a 0 \<noteq> 0x2D \<and> cstr_at a 0 \<noteq> 0x2F then os
      else if upper (cstr_at a 1) = 0x42 then os\<lparr>co_break := True\<rparr>
      else if upper (cstr_at a 1) = 0x56 then os\<lparr>co_verify := True\<rparr>
      else os)"

definition check_options_of :: "byte list list \<Rightarrow> check_options" where
  "check_options_of args = fold check_arg args \<lparr>co_break = False, co_verify = False\<rparr>"

definition detected_line :: "regs \<Rightarrow> byte list" where
  "detected_line r =
     (let found = (al_of r = 0xFF \<and> rg_bx r = ext4_dos_magic_reply) in
      ascii (if found then ''TSR detected: AL=0x'' else ''TSR not detected: AL=0x'') @ hex0 2 (unat (al_of r)) @
      ascii '' BX=0x'' @ hex0 4 (unat (rg_bx r)) @ (if found then ascii '' (match)'' else []) @ [newline])"

definition owned_line :: "regs \<Rightarrow> byte list" where
  "owned_line r =
     ascii ''INT 2Fh AX=0x11FE -> AX=0x'' @ hex0 4 (unat (rg_ax r)) @ ascii '' CF='' @
     dec (if rg_carry r then 1 else 0) @ [newline]"

definition fields_line :: "string \<Rightarrow> regs \<Rightarrow> byte list" where
  "fields_line which r =
     ascii ''verify: '' @ ascii which @ ascii '' bs='' @ hex0 4 (unat (rg_cx r)) @ ascii '' bc='' @ hex0 4 (unat (rg_dx r)) @
     ascii '' free='' @ hex0 4 (unat (rg_si r))"

text \<open>The comparison: the exit code if the program ends here, what it prints, registers and state.\<close>

definition check_verify :: "(regs \<Rightarrow> 'd \<Rightarrow> regs \<times> 'd) \<Rightarrow> regs \<Rightarrow> 'd \<Rightarrow> int option \<times> byte list \<times> 'd" where
  "check_verify int2f r d =
     (case int2f (r\<lparr>rg_ax := 0x11F0, rg_bx := ext4_dos_magic_probe\<rparr>) d of (live, d) \<Rightarrow>
      if al_of live \<noteq> 0xFF then (Some 2, ascii ''verify: TSR fs not ready'' @ [newline], d)
      else case int2f (live\<lparr>rg_ax := 0x11EF, rg_bx := ext4_dos_magic_probe\<rparr>) d of (snap, d) \<Rightarrow>
        if al_of snap \<noteq> 0xFF then (Some 2, ascii ''verify: snapshot probe failed'' @ [newline], d)
        else
          let ok = (rg_cx live = rg_cx snap \<and> rg_dx live = rg_dx snap \<and> rg_si live = rg_si snap) in
          (if ok then None else Some 1,
           fields_line ''live'' live @ [newline] @ fields_line ''snap'' snap @
             ascii (if ok then '' -> OK'' else '' -> CORRUPT'') @ [newline], d))"

text \<open>The breakpoint of /B is taken by a debugger, or returns.\<close>

definition check_main :: "byte list list \<Rightarrow> (regs \<Rightarrow> 'd \<Rightarrow> regs \<times> 'd) \<Rightarrow> regs \<Rightarrow> 'd \<Rightarrow> (int \<times> byte list) \<times> 'd" where
  "check_main args int2f r d =
     (let os = check_options_of args in
      case int2f (r\<lparr>rg_ax := 0x1100, rg_bx := ext4_dos_magic_probe\<rparr>) d of (r, d) \<Rightarrow>
      (let out = detected_line r in
       case int2f (r\<lparr>rg_ax := 0x11FE, rg_bx := 0x1234, rg_carry := False\<rparr>) d of (r, d) \<Rightarrow>
       (let out = out @ owned_line r in
        case (if co_verify os then check_verify int2f r d else (None, [], d)) of (stop, text, d) \<Rightarrow>
        (let out = out @ text in
         case stop of Some rc \<Rightarrow> ((rc, out), d)
         | None \<Rightarrow> ((0, out @ (if co_break os then ascii ''Issuing INT 3...'' @ [newline] @ ascii ''(resumed)'' @ [newline]
                              else [])), d)))))"

section \<open>What they see of the driver\<close>

context probe_service
begin

lemma count_answer:
  "int2f (count_query al r) d = (probe_count (count_query al r) d, d)"
  unfolding count_query_def by (rule answers(3))

lemma count_value:
  assumes "al < 64"
  shows "counter_of (rg_cx (count_query al r)) = al"
proof -
  have m: "(0x3F :: u16) = mask 6" by (simp add: mask_eq_exp_minus_1)
  have "(x AND 0xFF00 OR w) AND 0x3F = w AND 0x3F" for x w :: u16
    by (simp add: bit.conj_disj_distrib2 and.assoc)
  then have "counter_of (rg_cx (count_query al r)) = unat (take_bit 6 (word_of_nat al :: u16))"
    by (simp add: counter_of_def count_query_def take_bit_eq_mask m)
  also have "\<dots> = al"
    using assms by (simp add: unsigned_take_bit_eq unsigned_of_nat take_bit_nat_eq_self)
  finally show ?thesis .
qed

lemma count_reply: "al < 64 \<Longrightarrow> rg_dx (probe_count (count_query al r) d) = rd_counts d ! al"
  by (simp add: probe_count_def count_value)

lemma counts_shown:
  "\<forall>al \<in> set als. al < 64 \<Longrightarrow>
   count_lines int2f als r d =
     (concat (map (\<lambda>al. if 0 < rd_counts d ! al then count_line al (rd_counts d ! al) else []) als), d)"
  by (induction als arbitrary: r)
    (simp_all add: count_answer count_reply al_of_def probe_count_def [of _ d] count_value)

text \<open>The comparison of /V is that of the low words.\<close>

lemma verify_answer:
  assumes "rd_ready d"
  shows "fst (check_verify int2f r d) =
    (let sb = fs_sb (rd_fs d) in
     if (ucast (s_block_size sb) :: u16) = ucast (rd_safe_bs d) \<and>
        (ucast (s_blocks_count sb) :: u16) = ucast (rd_safe_blocks d) \<and>
        (ucast (s_free_blocks_count sb) :: u16) = ucast (rd_safe_free d)
     then None else Some 1)"
  using assms by (simp add: check_verify_def answers probe_live_def probe_snapshot_def al_of_def Let_def)

end

end
