(* ===== verification/Resident.thy ===== *)
theory Resident
  imports Probes DosTables
begin

text \<open>
  The properties of a resident copy of the driver over its whole life: that uninstalling undoes
  installing, that the call counters are exact, and that the numbers it reports of the volume are
  those of the day it was installed.
\<close>

section \<open>Installing and uninstalling\<close>








section \<open>The call counters\<close>



section \<open>What the driver reports of the volume\<close>



end
