(* ===== verification/Mounting.thy ===== *)
theory Mounting
  imports Mount WritePath
begin

text \<open>
  What mounting does to the device.  A relation that only looks at the device and that device writes
  keep is kept by the opening of the journal, its replay and the whole of \<open>ext4_fs_open\<close>; on a device
  without a write function this gives that mounting writes nothing.
\<close>

context device_only
begin

lemma same_device: "(\<And>fs. fs_bd (snd (m fs)) = fs_bd fs) \<Longrightarrow> keeps R m"
  by (rule keepsI) (rule handle)

lemma if_keeps: "(c \<Longrightarrow> keeps R m) \<Longrightarrow> (\<not> c \<Longrightarrow> keeps R n) \<Longrightarrow> keeps R (if c then m else n)"
  by simp

lemma tag: "keeps R (apply_tag action seq desc p jblk)"
proof -
  have upsert: "keeps R (case v of None \<Rightarrow> failE rc | Some j' \<Rightarrow> set_jbd j')" for v rc
    by (rule same_device) (simp split: option.split)
  show ?thesis
    unfolding apply_tag_def Let_def by (intro steps if_keeps home_block upsert)
qed

lemma tags: "R fs0 fs \<Longrightarrow> R fs0 (snd (tags_loop action seq b p remaining jblk fs))"
proof (induction action seq b p remaining jblk fs rule: tags_loop.induct)
  case (1 action seq b p remaining jblk fs)
  let ?jb = "wrap_jblk (fs_jbd fs) (jblk + 1)"
  obtain r fs1 where a: "apply_tag action seq b p ?jb fs = (r, fs1)" by fastforce
  have f: "R fs0 fs1" using keepsD [OF tag a] "1.prems" trans by (blast dest: transpD)
  show ?case
    using 1 a f by (subst tags_loop.simps) (auto simp: Let_def split: sum.split)
qed

lemma log_walk_step: "keeps R (walk_block action b jblk seq end_seq)"
proof -
  have "keeps R (iterate_descriptor_tags seq blk b action)" for blk
    by (rule keepsI) (simp add: iterate_descriptor_tags_def tags reflpD [OF refl])
  moreover have "keeps R (handle_revoke seq b)"
    by (rule same_device) (simp add: handle_revoke_def split: prod.split)
  ultimately show ?thesis unfolding walk_block_def Let_def by (intro steps if_keeps)
qed

lemma walk: "R fs0 fs \<Longrightarrow> R fs0 (snd (walk_loop action start limit guard jblk seq end_seq fs))"
proof (induction action start limit guard jblk seq end_seq fs rule: walk_loop.induct)
  case (1 action start limit guard jblk seq end_seq fs)
  show ?case
  proof (cases "ext4_journal_read_log_block fs jblk")
    case (Inl e)
    then show ?thesis using "1.prems" by (subst walk_loop.simps) simp
  next
    case (Inr b)
    obtain r fs1 where w: "walk_block action b jblk seq end_seq fs = (r, fs1)" by fastforce
    have f: "R fs0 fs1" using keepsD [OF log_walk_step w] "1.prems" trans by (blast dest: transpD)
    show ?thesis
      using 1 Inr w f by (subst walk_loop.simps) (auto simp: Let_def split: sum.split)
  qed
qed

lemma walk_whole: "keeps R (walk_log action last_seq)"
proof (rule keepsI)
  fix fs :: "'c ext4_fs"
  have "R fs fs'" if "walk_loop action s l g b q e fs = (r, fs')" for s l g b q e r fs'
    using walk [OF reflpD [OF refl, of fs], of action s l g b q e] that by simp
  then show "R fs (snd (walk_log action last_seq fs))"
    using reflpD [OF refl, of fs] by (auto simp: walk_log_def Let_def split: prod.split sum.split)
qed

lemma or_undo: "keeps R m \<Longrightarrow> keeps R (on_error m (upd_jbd f))"
proof (rule keepsI)
  fix fs :: "'c ext4_fs"
  assume "keeps R m"
  moreover obtain r fs1 where m: "m fs = (r, fs1)" by fastforce
  ultimately have 1: "R fs fs1" by (rule keepsD)
  have "R fs1 (upd_jbd f fs1)" by (rule handle) simp
  with 1 trans have "R fs (upd_jbd f fs1)" by (blast dest: transpD)
  with 1 show "R fs (snd (on_error m (upd_jbd f) fs))" by (simp add: on_error_def m split: sum.split)
qed

lemma replay: "keeps R ext4_journal_replay"
proof (rule keepsI)
  fix fs :: "'c ext4_fs"
  have "keeps R (bindE (walk_log Scan 0) (\<lambda>last_seq.
         (if seq_diff last_seq q < 0 then retE ()
         else
            bindE (on_error (walk_log Revoke last_seq) (upd_jbd clear_revoke)) (\<lambda>_.
            bindE (on_error (walk_log (if w then Flush else Build) last_seq) (upd_jbd clear_tables)) (\<lambda>_.
            (if w then retE ()
            else modE (upd_jbd (\<lambda>j. j\<lparr>jbd_replay_active := jbd_replay j \<noteq> []\<rparr>))))))))" for q w
    by (intro steps if_keeps walk_whole or_undo updates)
  then show "R fs (snd (ext4_journal_replay fs))"
    using reflpD [OF refl, of fs] by (auto simp: ext4_journal_replay_def Let_def keeps_def)
qed

lemma init: "keeps R ext4_journal_init"
proof -
  have inode: "keeps R (ext4_inode_read ino)" for ino
  proof (rule same_device)
    fix fs :: "'c ext4_fs"
    show "fs_bd (snd (ext4_inode_read ino fs)) = fs_bd fs"
      using inode_read_same [of ino fs] by (metis prod.collapse same_but_bgd_fields(1))
  qed
  have sb: "keeps R (jbd_load_sb inum)" for inum
    unfolding jbd_load_sb_def Let_def by (intro steps updates)
  show ?thesis
    unfolding ext4_journal_init_def Let_def by (intro steps if_keeps updates inode sb)
qed

lemma open_journal: "keeps R open_journal"
  unfolding open_journal_def by (intro steps if_keeps init replay checkpoint updates)

end

section \<open>A device that cannot be written\<close>

definition write_protected :: "'c ext4_fs \<Rightarrow> 'c ext4_fs \<Rightarrow> bool" where
  "write_protected fs fs' \<longleftrightarrow> (\<not> bdev_writable (fs_bd fs) \<longrightarrow> fs_bd fs' = fs_bd fs)"

interpretation protected: device_only write_protected
proof
  show "reflp write_protected" by (simp add: reflp_def write_protected_def)
  show "transp write_protected" by (auto simp: transp_def write_protected_def)
  show "keeps write_protected (dev_write sector count b)" for sector count b
    by (auto simp: keeps_def write_protected_def dev_write_def bdev_write_def bdev_writable_def)
  show "fs_bd fs' = fs_bd fs \<Longrightarrow> write_protected fs fs'" for fs fs' :: "'a ext4_fs"
    by (simp add: write_protected_def)
qed

lemma open_protected:
  assumes "\<not> bdev_writable bd"
  shows "snd (ext4_fs_open bd lba) = bd"
    "ext4_fs_open bd lba = (Inr fs, bd') \<Longrightarrow> fs_bd fs = bd"
proof -
  have j: "open_journal (fs_bare bd lba sb) = (r, fs') \<Longrightarrow> fs_bd fs' = bd" for sb r fs'
    using keepsD [OF protected.open_journal, of "fs_bare bd lba sb" r fs'] assms
    by (simp add: write_protected_def fs_bare_def)
  show "snd (ext4_fs_open bd lba) = bd" "ext4_fs_open bd lba = (Inr fs, bd') \<Longrightarrow> fs_bd fs = bd"
    by (auto simp: ext4_fs_open_def split: sum.split prod.split if_splits sum.splits prod.splits dest: j)
qed

end
