(* ===== verification/HostCli.thy ===== *)
theory HostCli
  imports Mounting Console Dir Mbr
begin

text \<open>
  The inspection program of the host, src/tools/host_cli.c: it opens an image file read-only, shows
  the partition table and, for every Linux partition, the superblock, the verdict of the feature gate
  and one inode, named by number or path, with its directory entries or a hex dump of its first block.

  Output is the bytes on the standard output.  A read that would never return counts as a failing
  one, as in the rest of the model.
\<close>

section \<open>Printing\<close>

definition print_uuid :: "byte list \<Rightarrow> byte list" where
  "print_uuid u =
     (let h = (\<lambda>i. hex0 2 (unat (u ! i))) in
      h 0 @ h 1 @ h 2 @ h 3 @ ascii ''-'' @ h 4 @ h 5 @ ascii ''-'' @ h 6 @ h 7 @ ascii ''-'' @ h 8 @ h 9 @ ascii ''-'' @
      h 10 @ h 11 @ h 12 @ h 13 @ h 14 @ h 15)"

definition shown_volume_name :: "ext4_superblock \<Rightarrow> byte list" where
  "shown_volume_name sb = (if cstr_at (s_volume_name sb) 0 \<noteq> 0 then cstr (s_volume_name sb) else ascii ''(unset)'')"

definition print_summary :: "ext4_superblock \<Rightarrow> byte list" where
  "print_summary sb =
     ascii ''  volume name      : '' @ shown_volume_name sb @ [newline] @
     ascii ''  uuid             : '' @ print_uuid (s_uuid sb) @ [newline] @
     ascii ''  block size       : '' @ dec (unat (s_block_size sb)) @ [newline] @
     ascii ''  blocks (total)   : '' @ dec (unat (s_blocks_count sb)) @ [newline] @
     ascii ''  inodes (total)   : '' @ dec (unat (s_inodes_count sb)) @ [newline] @
     ascii ''  inode size       : '' @ dec (unat (s_inode_size sb)) @ [newline] @
     ascii ''  state            : 0x'' @ hex0 4 (unat (s_state sb)) @
       (if s_state sb AND 1 \<noteq> 0 then ascii '' (clean)'' else []) @ [newline] @
     ascii ''  feature_incompat : 0x'' @ hex0 8 (unat (s_feature_incompat sb)) @ [newline]"

definition dump_line :: "buf \<Rightarrow> nat \<Rightarrow> nat \<Rightarrow> byte list" where
  "dump_line data len i =
     ascii ''    '' @ hex0 4 i @ ascii '': '' @
     concat (map (\<lambda>j. if i + j < len then hex0 2 (unat (data (i + j))) @ ascii '' '' else ascii ''   '') [0..<16]) @
     ascii '' |'' @
     map (\<lambda>j. if printable (data (i + j)) then data (i + j) else 0x2E) [0..<min 16 (len - i)] @
     ascii ''|'' @ [newline]"

definition print_hex_dump :: "buf \<Rightarrow> nat \<Rightarrow> byte list" where
  "print_hex_dump data len = concat (map (\<lambda>k. dump_line data len (16 * k)) [0..<(len + 15) div 16])"

definition ext4_s_iflnk :: u16 where "ext4_s_iflnk = 0xA000"

definition mode_kind :: "u16 \<Rightarrow> string" where
  "mode_kind mode =
     (let t = mode AND ext4_s_ifmt in
      if t = ext4_s_ifreg then ''regular''
      else if t = ext4_s_ifdir then ''directory''
      else if t = ext4_s_iflnk then ''symlink''
      else ''other'')"

definition list_line :: "ext4_dir_entry \<Rightarrow> byte list" where
  "list_line e =
     (let kind = (if de_file_type e = 1 then ''f'' else if de_file_type e = 2 then ''d''
                  else if de_file_type e = 7 then ''l'' else ''?'') in
      ascii ''    '' @ ascii kind @ ascii '' '' @ pad_left 0x20 6 (dec (unat (de_inode e))) @ ascii ''  '' @
      cstr (de_name e) @ [newline])"

text \<open>The text printed so far is the callback's data.\<close>

definition list_cb :: "ext4_dir_entry \<Rightarrow> byte list \<Rightarrow> int \<times> byte list" where
  "list_cb e out = (0, out @ list_line e)"

text \<open>The message of the feature gate, with the bits cut to the width of \<open>unsigned\<close>: 32 bits here,
  16 under DOS.\<close>

definition report_text :: "(u32 \<Rightarrow> nat) \<Rightarrow> feature_report \<Rightarrow> byte list" where
  "report_text width r =
     (case r of
        Named kind fbit name \<Rightarrow>
          ascii kind @ ascii '' feature '' @ [0x27] @ ascii name @ [0x27] @ ascii '' (0x'' @ hex (width fbit) @
          ascii '') not supported in v1''
      | Raw kind bits \<Rightarrow> ascii kind @ ascii '' features 0x'' @ hex (width bits) @ ascii '' not supported in v1'')"

section \<open>One inode\<close>

definition node_buf_size :: u32 where "node_buf_size = 4096"

definition inode_head :: "u32 \<Rightarrow> byte list" where
  "inode_head ino = [newline] @ ascii ''Inode '' @ dec (unat ino) @ ascii '':'' @ [newline]"

definition inode_fields :: "ext4_inode \<Rightarrow> byte list" where
  "inode_fields inode =
     ascii ''  kind   : '' @ ascii (mode_kind (i_mode inode)) @ ascii '' (mode 0'' @
       oct (unat (i_mode inode AND 0xFFF)) @ ascii '')'' @ [newline] @
     ascii ''  size   : '' @ dec (unat (i_size inode)) @ ascii '' bytes'' @ [newline] @
     ascii ''  flags  : 0x'' @ hex (unat (i_flags inode)) @
       (if i_flags inode AND ext4_inode_flag_extents \<noteq> 0 then ascii '' (extents)'' else []) @ [newline]"

definition entries_head :: "byte list" where
  "entries_head = ascii ''  entries:'' @ [newline]"

definition dump_inode :: "u32 \<Rightarrow> 'c ext4_fs \<Rightarrow> (int \<times> byte list) \<times> 'c ext4_fs" where
  "dump_inode ino fs =
     (case ext4_inode_read ino fs of
        (Inl rc, fs) \<Rightarrow> ((-1, inode_head ino @ ascii ''  read failed ('' @ sdec rc @ ascii '')'' @ [newline]), fs)
      | (Inr inode, fs) \<Rightarrow>
          let head = inode_head ino @ inode_fields inode; bs = block_size fs
          in if i_size inode = 0 then ((0, head), fs)
             else if i_mode inode AND ext4_s_ifmt = ext4_s_ifdir
             then ((0, snd (ext4_dir_iter fs inode list_cb (head @ entries_head))), fs)
             else if node_buf_size < bs
             then ((0, head @ ascii ''  (block size '' @ dec (unat bs) @ ascii '' exceeds dump buffer)'' @ [newline]), fs)
             else case ext4_file_read_block fs inode 0 of
               Inl rc \<Rightarrow> ((-1, head @ ascii ''  read block 0 failed ('' @ sdec rc @ ascii '')'' @ [newline]), fs)
             | Inr blk \<Rightarrow>
                 let dump_len = (if i_size inode < ucast bs then ucast (i_size inode) else bs) :: u32;
                     dump_len = (if 256 < dump_len then 256 else dump_len)
                 in ((0, head @ ascii ''  first block ('' @ dec (unat dump_len) @ ascii '' bytes shown):'' @ [newline] @
                        print_hex_dump blk (unat dump_len)), fs))"

section \<open>One file system\<close>

text \<open>\<open>path\<close> is \<open>None\<close> when the inode is given by number; 0 asks for none.\<close>

definition inspect_at :: "'c blockdev \<Rightarrow> u64 \<Rightarrow> u32 \<Rightarrow> byte list option \<Rightarrow> (int \<times> byte list) \<times> 'c blockdev" where
  "inspect_at bd partition_lba inode_num path =
     (case ext4_fs_open bd partition_lba of
        (Inl rc, bd) \<Rightarrow> ((-1, ascii ''  fs_open failed ('' @ sdec rc @ ascii '')'' @ [newline]), bd)
      | (Inr fs, _) \<Rightarrow>
          let out = ascii ''ext4 detected'' @ [newline] @ print_summary (fs_sb fs) in
          case ext4_features_check_supported (fs_sb fs) of
            Inl r \<Rightarrow> ((1, out @ ascii ''  v1 status        : REFUSED -- '' @ report_text unat r @ [newline]), fs_bd fs)
          | Inr _ \<Rightarrow>
              let out = out @ ascii ''  v1 status        : supported'' @ [newline];
                  quoted = (\<lambda>p. ascii ''path '' @ [0x27] @ p @ [0x27]) in
              case (case path of None \<Rightarrow> (inode_num, fs) | Some p \<Rightarrow> ext4_path_lookup p fs) of
                (ino, fs) \<Rightarrow>
                  if path \<noteq> None \<and> ino = 0
                  then ((1, out @ [newline] @ quoted (the path) @ ascii '' not found'' @ [newline]), fs_bd fs)
                  else
                    let out = (case path of None \<Rightarrow> out
                               | Some p \<Rightarrow> out @ [newline] @ quoted p @ ascii '' -> inode '' @ dec (unat ino) @ [newline])
                    in if ino \<noteq> 0
                       then (case dump_inode ino fs of ((_, text), fs) \<Rightarrow> ((0, out @ text), fs_bd fs))
                       else ((0, out), fs_bd fs))"

section \<open>The program\<close>

definition partition_line :: "nat \<Rightarrow> mbr_partition \<Rightarrow> byte list" where
  "partition_line i p =
     ascii ''  ['' @ dec i @ ascii ''] type=0x'' @ hex0 2 (unat (part_type p)) @ ascii '' start='' @
     dec (unat (part_start_lba p)) @ ascii '' sectors='' @ dec (unat (part_sector_count p)) @
     (if part_bootable p then ascii '' bootable'' else []) @ [newline]"

fun inspect_partitions ::
  "(nat \<times> mbr_partition) list \<Rightarrow> u32 \<Rightarrow> byte list option \<Rightarrow> 'c blockdev \<Rightarrow> byte list \<times> 'c blockdev" where
  "inspect_partitions [] ino path bd = ([], bd)"
| "inspect_partitions ((i, p) # ps) ino path bd =
     (if part_type p \<noteq> mbr_type_linux then inspect_partitions ps ino path bd
      else
        let head = [newline] @ ascii ''=== Partition '' @ dec i @ ascii '' (Linux, LBA '' @ dec (unat (part_start_lba p)) @
              ascii '') ==='' @ [newline] in
        case inspect_at bd (ucast (part_start_lba p)) ino path of ((_, out), bd) \<Rightarrow>
          (case inspect_partitions ps ino path bd of (rest, bd) \<Rightarrow> (head @ out @ rest, bd)))"

text \<open>The second argument: a path, or the number of an inode.\<close>

definition inspect_target :: "byte list \<Rightarrow> u32 \<times> byte list option" where
  "inspect_target a = (if cstr_at a 0 = 0x2F then (0, Some a) else (ucast (strtoul0 a :: u64), None))"

definition inspect_disk :: "u32 \<times> byte list option \<Rightarrow> 'c blockdev \<Rightarrow> byte list \<times> 'c blockdev" where
  "inspect_disk target bd =
     (case mbr_read bd of
        Inr t \<Rightarrow>
          if mbr_has_signature t then
            let es = enumerate 0 (mbr_entries t) in
            case inspect_partitions es (fst target) (snd target) bd of (out, bd) \<Rightarrow>
              (ascii ''MBR detected, '' @ dec (length (mbr_entries t)) @ ascii '' partition(s):'' @ [newline] @
               concat (map (\<lambda>(i, p). partition_line i p) es) @ out, bd)
          else (case inspect_at bd 0 (fst target) (snd target) of ((_, out), bd) \<Rightarrow>
              (ascii ''(no MBR signature; treating as bare ext4 filesystem)'' @ [newline, newline] @ out, bd))
      | Inl _ \<Rightarrow>
          (case inspect_at bd 0 (fst target) (snd target) of ((_, out), bd) \<Rightarrow>
             (ascii ''(no MBR signature; treating as bare ext4 filesystem)'' @ [newline, newline] @ out, bd)))"

text \<open>\<open>files\<close> gives the bytes and the length of the files that can be opened.  The result is the exit
  code, the output, and the device as it is when the program ends.\<close>

definition host_main ::
  "byte list list \<Rightarrow> (byte list \<Rightarrow> ((nat \<Rightarrow> byte) \<times> nat) option) \<Rightarrow>
    int \<times> byte list \<times> file_ctx blockdev option" where
  "host_main args files =
     (case args of
        [] \<Rightarrow> (1, [], None)
      | name # opts \<Rightarrow>
          let target = (case opts of [] \<Rightarrow> (0, None) | a # _ \<Rightarrow> inspect_target a) in
          case files name of
            None \<Rightarrow> (1, [], None)
          | Some (bytes, len) \<Rightarrow>
              (case inspect_disk target (file_bdev_open bytes len) of (out, bd) \<Rightarrow> (0, out, Some bd)))"

section \<open>What the program does to the image\<close>

lemma listing_text: "cb_run list_cb es out = (0, out @ concat (map list_line es))"
  by (induction es arbitrary: out) (simp_all add: list_cb_def)

lemma inode_read_device: "fs_bd (snd (ext4_inode_read ino fs)) = fs_bd fs"
  using inode_read_same [of ino fs] by (metis prod.collapse same_but_bgd_fields(1))

lemma dump_device: "fs_bd (snd (dump_inode ino fs)) = fs_bd fs"
  using inode_read_device [of ino fs] by (auto simp: dump_inode_def Let_def split: prod.split sum.split)

lemma path_device: "fs_bd (snd (path_walk cur p fs)) = fs_bd fs"
  using path_walk_same [of fs cur p] by (rule same_but_bgd_fields(1))

lemma open_device: "ext4_fs_open bd lba = (Inr fs, bd') \<Longrightarrow> fs_bd fs = bd'"
  by (auto simp: ext4_fs_open_def split: if_splits sum.splits prod.splits)

lemma inspect_device: "snd (inspect_at bd lba ino path) = snd (ext4_fs_open bd lba)"
proof (cases "fst (ext4_fs_open bd lba)")
  case (Inl rc)
  then show ?thesis by (simp add: inspect_at_def split_beta)
next
  case (Inr fs)
  then obtain bd1 where o: "ext4_fs_open bd lba = (Inr fs, bd1)" by (metis prod.collapse)
  have b: "fs_bd fs = bd1" by (rule open_device [OF o])
  obtain n fs1 where p: "(case path of None \<Rightarrow> (ino, fs) | Some p \<Rightarrow> ext4_path_lookup p fs) = (n, fs1)" by fastforce
  then have b1: "fs_bd fs1 = bd1"
    using b path_device [of 2 "skip_slashes (the path)" fs] by (auto simp: ext4_path_lookup_def split: option.splits)
  have b2: "fs_bd (snd (dump_inode n fs1)) = bd1" using b1 by (simp add: dump_device)
  show ?thesis
  proof (cases "ext4_features_check_supported (fs_sb fs)")
    case (Inl r)
    then show ?thesis by (simp add: inspect_at_def o b Let_def)
  next
    case (Inr u)
    then show ?thesis
      unfolding inspect_at_def o prod.case sum.case Inr Let_def p using b1 b2
      by (cases "path \<noteq> None \<and> n = 0"; cases "n = 0") (simp_all add: split_beta)
  qed
qed

lemma protected_device: "\<not> bdev_writable bd \<Longrightarrow> snd (inspect_at bd lba ino path) = bd"
  using open_protected(1) by (simp add: inspect_device)

lemma partitions_device: "\<not> bdev_writable bd \<Longrightarrow> snd (inspect_partitions ps ino path bd) = bd"
  by (induction ps ino path bd rule: inspect_partitions.induct)
    (auto simp: Let_def split: prod.split, metis protected_device snd_conv)

lemma disk_device: "\<not> bdev_writable bd \<Longrightarrow> snd (inspect_disk target bd) = bd"
  using partitions_device [of bd] protected_device [of bd]
  by (auto simp: inspect_disk_def Let_def split: sum.split prod.split) (metis snd_conv)+

text \<open>What is printed of a directory.\<close>

lemma dump_directory:
  assumes "ext4_inode_read ino fs = (Inr dir, fs')" "i_mode dir AND ext4_s_ifmt = ext4_s_ifdir" "i_size dir \<noteq> 0"
    "block_size fs \<le> 4096"
  shows "snd (fst (dump_inode ino fs)) = inode_head ino @ inode_fields dir @ entries_head @
    concat (map list_line (dir_listing fs' dir (dir_block_numbers fs' dir)))"
proof -
  have "\<not> 4096 < block_size fs'"
    using assms(4) same_but_bgd_fields(3) [OF inode_read_same [OF assms(1)]] by (simp add: not_less)
  then show ?thesis
    using assms(2,3) by (simp add: dump_inode_def assms(1) ext4_dir_iter_def dir_iter_loop_state listing_text Let_def)
qed

text \<open>The rows of a hex dump: the bytes are in the columns from the eleventh on, three for each.\<close>

fun read_column :: "byte list \<Rightarrow> byte list" where
  "read_column (a # b # c # cs) =
     (case (digit_of 16 a, digit_of 16 b) of
        (Some x, Some y) \<Rightarrow> word_of_nat (16 * x + y) # read_column cs
      | _ \<Rightarrow> [])"
| "read_column _ = []"

lemma digits_below: "2 \<le> base \<Longrightarrow> n < base ^ Suc k \<Longrightarrow> length (digits_in base n) \<le> Suc k"
proof (induction k arbitrary: n)
  case 0
  then show ?case by (subst digits_in.simps) simp
next
  case (Suc k)
  show ?case
  proof (cases "n < base")
    case False
    have "n div base < base ^ Suc k" using Suc.prems by (simp add: less_mult_imp_div_less mult.commute)
    then show ?thesis using Suc False by (subst digits_in.simps) simp
  qed (subst digits_in.simps, simp)
qed

lemma hex_byte: "hex0 2 (unat (v :: byte)) = [digit_char (unat v div 16), digit_char (unat v mod 16)]"
proof -
  have v: "unat v < 256" using unsigned_less [of v] by simp
  show ?thesis
  proof (cases "unat v < 16")
    case True
    then show ?thesis by (simp add: number_def digits_in.simps pad_left_def digit_char_def)
  next
    case False
    have "unat v div 16 < 16" using v by simp
    then show ?thesis using False by (simp add: number_def digits_in.simps [of 16 "unat v"] digits_in.simps [of 16 "unat v div 16"] pad_left_def)
  qed
qed

lemma read_byte: "read_column (hex0 2 (unat (v :: byte)) @ ascii '' '' @ cs) = v # read_column cs"
proof -
  have "unat v < 256" using unsigned_less [of v] by simp
  then have d: "digit_of 16 (digit_char (unat v div 16)) = Some (unat v div 16)"
    "digit_of 16 (digit_char (unat v mod 16)) = Some (unat v mod 16)"
    by (intro digit_of_char; simp)+
  have "16 * (unat v div 16) + unat v mod 16 = unat v" by simp
  then show ?thesis by (simp add: hex_byte ascii_def d)
qed

lemma read_cells:
  "read_column (concat (map (\<lambda>j. hex0 2 (unat (data (i + j) :: byte)) @ ascii '' '') js) @ rest) =
     map (\<lambda>j. data (i + j)) js @ read_column rest"
  by (induction js) (simp_all add: read_byte)

lemma read_blanks: "read_column (concat (map (\<lambda>j. ascii ''   '') js)) = []"
  by (cases js) (simp_all add: ascii_def digit_of_def upper_def)

text \<open>A row without its newline, and the text of a dump cut into rows.\<close>

definition dump_row :: "buf \<Rightarrow> nat \<Rightarrow> nat \<Rightarrow> byte list" where
  "dump_row data len i = butlast (dump_line data len i)"

definition read_row :: "byte list \<Rightarrow> byte list" where
  "read_row s = read_column (take 48 (drop 10 s))"

function rows_of :: "byte list \<Rightarrow> byte list list" where
  "rows_of s = (if s = [] then [] else
     takeWhile (\<lambda>c. c \<noteq> newline) s # rows_of (drop 1 (dropWhile (\<lambda>c. c \<noteq> newline) s)))"
  by pat_completeness auto
termination
proof (relation "measure length", goal_cases)
  case (2 s)
  have "length (dropWhile (\<lambda>c. c \<noteq> newline) s) \<le> length s" by (rule length_dropWhile_le)
  with 2 show ?case by (cases s) (auto simp: less_Suc_eq_le)
qed simp

declare rows_of.simps [simp del]

lemma rows_of_row: "newline \<notin> set s \<Longrightarrow> rows_of (s @ newline # rest) = s # rows_of rest"
  by (subst rows_of.simps) (auto simp: takeWhile_append dropWhile_append)

lemma rows_of_Nil [simp]: "rows_of [] = []"
  by (simp add: rows_of.simps)

lemma dump_line_row:
  "dump_line data len i = dump_row data len i @ [newline]"
  "dump_row data len i = ascii ''    '' @ hex0 4 i @ ascii '': '' @
     concat (map (\<lambda>j. if i + j < len then hex0 2 (unat (data (i + j))) @ ascii '' '' else ascii ''   '') [0..<16]) @
     ascii '' |'' @ map (\<lambda>j. if printable (data (i + j)) then data (i + j) else 0x2E) [0..<min 16 (len - i)] @ ascii ''|''"
  unfolding dump_row_def dump_line_def append_assoc [symmetric] by (simp_all only: butlast_snoc)

lemma digit_char_range: "d < 16 \<Longrightarrow> digit_char d \<noteq> newline"
proof -
  have "\<forall>d \<in> {..<16}. digit_char d \<noteq> newline" by (simp add: lessThan_nat_numeral lessThan_Suc digit_char_def newline_def)
  then show "d < 16 \<Longrightarrow> ?thesis" by blast
qed

lemma hex_no_newline: "newline \<notin> set (hex0 w n)"
  using digits_small [of 16 _ n] digit_char_range by (auto simp: pad_left_def number_def newline_def)

lemma row_no_newline: "newline \<notin> set (dump_row data len i)"
  using hex_no_newline
  by (auto simp: dump_line_row(2) ascii_def newline_def printable_def split: if_splits)

lemma hex_offset: "i < 65536 \<Longrightarrow> length (hex0 4 i) = 4"
  using digits_below [of 16 i 3] by (simp add: pad_left_def number_def)

lemma hex_byte_length: "length (hex0 2 (unat (v :: byte))) = 2"
  by (simp add: hex_byte)

lemma read_dump_row:
  assumes "i < 65536"
  shows "read_row (dump_row data len i) = bytes_of data i (min 16 (len - i))"
proof -
  let ?m = "min 16 (len - i)"
  let ?cell = "\<lambda>j. if i + j < len then hex0 2 (unat (data (i + j))) @ ascii '' '' else ascii ''   ''"
  have "length (concat (map ?cell js)) = 3 * length js" for js
    by (induction js) (simp_all add: hex_byte_length ascii_def)
  from this [of "[0..<16]"] have l: "length (concat (map ?cell [0..<16])) = 48" by (simp only: length_upt)
  have u: "[0..<16] = [0..<?m] @ [?m..<16]"
    using upt_add_eq_append [of 0 ?m "16 - ?m"] by simp
  have "map ?cell [0..<?m] = map (\<lambda>j. hex0 2 (unat (data (i + j))) @ ascii '' '') [0..<?m]"
    "map ?cell [?m..<16] = map (\<lambda>j. ascii ''   '') [?m..<16]" by auto
  then have c: "read_column (concat (map ?cell [0..<16])) = map (\<lambda>j. data (i + j)) [0..<?m]"
    unfolding u map_append concat_append by (simp only: read_cells read_blanks append_Nil2)
  have cut: "take 48 (drop 10 (a @ b @ c' @ x @ y)) = x" if "length a = 4" "length b = 4" "length c' = 2" "length x = 48"
    for a b c' x y :: "byte list" using that by simp
  have "take 48 (drop 10 (dump_row data len i)) = concat (map ?cell [0..<16])"
    unfolding dump_line_row(2) by (rule cut [OF _ hex_offset [OF assms] _ l]) (simp_all add: ascii_def)
  with c show ?thesis by (simp only: read_row_def bytes_of_def)
qed

lemma dump_pieces:
  "concat (map (\<lambda>k. bytes_of data (16 * k) (min 16 (len - 16 * k))) [0..<n]) = bytes_of data 0 (min (16 * n) len)"
proof (induction n)
  case (Suc n)
  have "min (16 * Suc n) len = min (16 * n) len + min 16 (len - 16 * n)"
    by (simp add: min_def) arith
  moreover have "min 16 (len - 16 * n) \<noteq> 0 \<Longrightarrow> min (16 * n) len = 16 * n" by linarith
  ultimately show ?case using Suc by (cases "min 16 (len - 16 * n) = 0") (simp_all add: bytes_of_append)
qed simp

lemma hex_dump_rows:
  assumes "len \<le> 65536"
  shows "concat (map read_row (rows_of (print_hex_dump data len))) = bytes_of data 0 len"
proof -
  have rows: "rows_of (concat (map (\<lambda>k. dump_line data len (16 * k)) ks)) = map (\<lambda>k. dump_row data len (16 * k)) ks" for ks
    by (induction ks) (simp_all add: dump_line_row(1) rows_of_row row_no_newline)
  let ?n = "(len + 15) div 16"
  have eq: "map (\<lambda>k. read_row (dump_row data len (16 * k))) [0..<?n] = map (\<lambda>k. bytes_of data (16 * k) (min 16 (len - 16 * k))) [0..<?n]"
    using assms by (auto intro!: read_dump_row)
  have all: "min (16 * ?n) len = len" by linarith
  show ?thesis unfolding print_hex_dump_def rows map_map comp_def eq dump_pieces all ..
qed

end
