(* ===== verification/DosCli.thy ===== *)
theory DosCli
  imports HostCli
begin

text \<open>
  The inspection program for DOS, src/tools/dos_cli.c: the same walk as the host program's over a BIOS
  disk, with output of its own and numbers of \<open>unsigned long\<close>, 32 bits.  The hex dump, the line of a
  directory entry and the name of a file kind are, character for character, those of theory HostCli.

  A BIOS disk can be written, so the mount of an inspection replays and checkpoints the journal.
\<close>

definition dos_print_uuid :: "byte list \<Rightarrow> byte list" where
  "dos_print_uuid u =
     concat (map (\<lambda>i. hex0 2 (unat (u ! i)) @ (if i \<in> {3, 5, 7, 9} then ascii ''-'' else [])) [0..<16])"

definition dos_inode_fields :: "ext4_inode \<Rightarrow> byte list" where
  "dos_inode_fields inode =
     ascii ''  kind   : '' @ ascii (mode_kind (i_mode inode)) @ ascii '' (mode 0'' @
       oct (unat (i_mode inode AND 0xFFF)) @ ascii '')'' @ [newline] @
     ascii ''  size   : '' @ dec (unat (ucast (i_size inode) :: u32)) @ ascii '' bytes'' @ [newline] @
     ascii ''  flags  : 0x'' @ hex (unat (i_flags inode)) @ [newline]"

definition dos_dump_inode :: "u32 \<Rightarrow> 'c ext4_fs \<Rightarrow> (int \<times> byte list) \<times> 'c ext4_fs" where
  "dos_dump_inode ino fs =
     (case ext4_inode_read ino fs of
        (Inl rc, fs) \<Rightarrow> ((-1, inode_head ino @ ascii ''  read failed ('' @ sdec rc @ ascii '')'' @ [newline]), fs)
      | (Inr inode, fs) \<Rightarrow>
          let head = inode_head ino @ dos_inode_fields inode; bs = block_size fs
          in if i_size inode = 0 then ((0, head), fs)
             else if i_mode inode AND ext4_s_ifmt = ext4_s_ifdir
             then ((0, snd (ext4_dir_iter fs inode list_cb (head @ entries_head))), fs)
             else if node_buf_size < bs
             then ((0, head @ ascii ''  (block size too large)'' @ [newline]), fs)
             else case ext4_file_read_block fs inode 0 of
               Inl rc \<Rightarrow> ((-1, head @ ascii ''  read block 0 failed ('' @ sdec rc @ ascii '')'' @ [newline]), fs)
             | Inr blk \<Rightarrow>
                 let dump_len = (if i_size inode < ucast bs then ucast (i_size inode) else bs) :: u32;
                     dump_len = (if 256 < dump_len then 256 else dump_len)
                 in ((0, head @ ascii ''  first block ('' @ dec (unat dump_len) @ ascii '' bytes shown):'' @ [newline] @
                        print_hex_dump blk (unat dump_len)), fs))"

definition dos_summary :: "ext4_superblock \<Rightarrow> byte list" where
  "dos_summary sb =
     ascii ''ext4 detected'' @ [newline] @
     ascii ''  volume     : '' @ shown_volume_name sb @ [newline] @
     ascii ''  uuid       : '' @ dos_print_uuid (s_uuid sb) @ [newline] @
     ascii ''  block size : '' @ dec (unat (s_block_size sb)) @ [newline] @
     ascii ''  blocks     : '' @ dec (unat (ucast (s_blocks_count sb) :: u32)) @ [newline] @
     ascii ''  inodes     : '' @ dec (unat (s_inodes_count sb)) @ [newline] @
     ascii ''  feat_inc   : 0x'' @ hex0 8 (unat (s_feature_incompat sb)) @ [newline]"

definition dos_inspect_at :: "'c blockdev \<Rightarrow> u64 \<Rightarrow> u32 \<Rightarrow> byte list option \<Rightarrow> byte list \<times> 'c blockdev" where
  "dos_inspect_at bd partition_lba inode_num path =
     (case ext4_fs_open bd partition_lba of
        (Inl rc, bd) \<Rightarrow> (ascii ''  fs_open failed ('' @ sdec rc @ ascii '')'' @ [newline], bd)
      | (Inr fs, _) \<Rightarrow>
          let out = dos_summary (fs_sb fs) in
          case ext4_features_check_supported (fs_sb fs) of
            Inl r \<Rightarrow> (out @ ascii ''  v1 status  : REFUSED -- '' @ report_text (\<lambda>w. unat (ucast w :: u16)) r @ [newline], fs_bd fs)
          | Inr _ \<Rightarrow>
              let out = out @ ascii ''  v1 status  : supported'' @ [newline];
                  quoted = (\<lambda>p. ascii ''path '' @ [0x27] @ p @ [0x27]) in
              case (case path of None \<Rightarrow> (inode_num, fs) | Some p \<Rightarrow> ext4_path_lookup p fs) of
                (ino, fs) \<Rightarrow>
                  if path \<noteq> None \<and> ino = 0
                  then (out @ [newline] @ quoted (the path) @ ascii '' not found'' @ [newline], fs_bd fs)
                  else
                    let out = (case path of None \<Rightarrow> out
                               | Some p \<Rightarrow> out @ [newline] @ quoted p @ ascii '' -> inode '' @ dec (unat ino) @ [newline])
                    in if ino \<noteq> 0
                       then (case dos_dump_inode ino fs of ((_, text), fs) \<Rightarrow> (out @ text, fs_bd fs))
                       else (out, fs_bd fs))"

definition dos_partition_line :: "nat \<Rightarrow> mbr_partition \<Rightarrow> byte list" where
  "dos_partition_line i p =
     ascii ''  ['' @ dec i @ ascii ''] type=0x'' @ hex0 2 (unat (part_type p)) @ ascii '' start='' @
     dec (unat (part_start_lba p)) @ ascii '' sectors='' @ dec (unat (part_sector_count p)) @ [newline]"

fun dos_inspect_partitions ::
  "(nat \<times> mbr_partition) list \<Rightarrow> u32 \<Rightarrow> byte list option \<Rightarrow> 'c blockdev \<Rightarrow> byte list \<times> 'c blockdev" where
  "dos_inspect_partitions [] ino path bd = ([], bd)"
| "dos_inspect_partitions ((i, p) # ps) ino path bd =
     (if part_type p \<noteq> mbr_type_linux then dos_inspect_partitions ps ino path bd
      else
        let head = [newline] @ ascii ''=== Partition '' @ dec i @ ascii '' (Linux, LBA '' @ dec (unat (part_start_lba p)) @
              ascii '') ==='' @ [newline] in
        case dos_inspect_at bd (ucast (part_start_lba p)) ino path of (out, bd) \<Rightarrow>
          (case dos_inspect_partitions ps ino path bd of (rest, bd) \<Rightarrow> (head @ out @ rest, bd)))"

definition dos_inspect_target :: "byte list \<Rightarrow> u32 \<times> byte list option" where
  "dos_inspect_target a = (if cstr_at a 0 = 0x2F then (0, Some a) else (strtoul0 a, None))"

definition dos_inspect_disk :: "byte \<Rightarrow> u32 \<times> byte list option \<Rightarrow> 'c blockdev \<Rightarrow> byte list \<times> 'c blockdev" where
  "dos_inspect_disk drive target bd =
     (let bare = (case dos_inspect_at bd 0 (fst target) (snd target) of (out, bd) \<Rightarrow>
              (ascii ''(no MBR; treating drive 0x'' @ hex0 2 (unat drive) @ ascii '' as bare ext4)'' @ [newline, newline] @ out,
               bd)) in
      case mbr_read bd of
        Inl _ \<Rightarrow> bare
      | Inr t \<Rightarrow>
          if \<not> mbr_has_signature t then bare
          else
            let es = enumerate 0 (mbr_entries t) in
            case dos_inspect_partitions es (fst target) (snd target) bd of (out, bd) \<Rightarrow>
              (ascii ''MBR found, '' @ dec (length (mbr_entries t)) @ ascii '' partition(s):'' @ [newline] @
               concat (map (\<lambda>(i, p). dos_partition_line i p) es) @ out, bd))"

text \<open>The disks as a map from BIOS drive numbers; the inspected one is written back into it.\<close>

definition dos_main :: "byte list list \<Rightarrow> (byte \<Rightarrow> 'c blockdev option) \<Rightarrow>
    (int \<times> byte list) \<times> (byte \<Rightarrow> 'c blockdev option)" where
  "dos_main args disks =
     (let drive = (case args of [] \<Rightarrow> 0x80 | a # _ \<Rightarrow> ucast (strtoul0 a :: u32));
          target = (case args of _ # a # _ \<Rightarrow> dos_inspect_target a | _ \<Rightarrow> (0, None));
          head = ascii ''ext4-dos cli (DOS, drive 0x'' @ hex0 2 (unat drive) @ ascii '')'' @ [newline] in
      case disks drive of
        None \<Rightarrow> ((1, head), disks)
      | Some bd \<Rightarrow> (case dos_inspect_disk drive target bd of
            (out, bd) \<Rightarrow> ((0, head @ out), disks(drive := Some bd))))"

section \<open>The two programs print the same identifier\<close>

lemma print_uuid_loop: "dos_print_uuid u = print_uuid u"
  by (simp add: dos_print_uuid_def print_uuid_def upt_rec eval_nat_numeral)

section \<open>What an inspection writes\<close>

text \<open>Only the mount writes; reading afterwards leaves the device as the mount left it.\<close>

lemma dos_dump_device: "fs_bd (snd (dos_dump_inode ino fs)) = fs_bd fs"
  using inode_read_device [of ino fs] by (auto simp: dos_dump_inode_def Let_def split: prod.split sum.split)

lemma dos_inspect_device: "snd (dos_inspect_at bd lba ino path) = snd (ext4_fs_open bd lba)"
proof (cases "fst (ext4_fs_open bd lba)")
  case (Inl rc)
  then show ?thesis by (simp add: dos_inspect_at_def split_beta)
next
  case (Inr fs)
  then obtain bd1 where o: "ext4_fs_open bd lba = (Inr fs, bd1)" by (metis prod.collapse)
  have b: "fs_bd fs = bd1" by (rule open_device [OF o])
  obtain n fs1 where p: "(case path of None \<Rightarrow> (ino, fs) | Some p \<Rightarrow> ext4_path_lookup p fs) = (n, fs1)" by fastforce
  then have b1: "fs_bd fs1 = bd1"
    using b path_device [of 2 "skip_slashes (the path)" fs] by (auto simp: ext4_path_lookup_def split: option.splits)
  have b2: "fs_bd (snd (dos_dump_inode n fs1)) = bd1" using b1 by (simp add: dos_dump_device)
  show ?thesis
  proof (cases "ext4_features_check_supported (fs_sb fs)")
    case (Inl r)
    then show ?thesis by (simp add: dos_inspect_at_def o b Let_def)
  next
    case (Inr u)
    then show ?thesis
      unfolding dos_inspect_at_def o prod.case sum.case Inr Let_def p using b1 b2
      by (cases "path \<noteq> None \<and> n = 0"; cases "n = 0") (simp_all add: split_beta)
  qed
qed

end
