(* ===== verification/DosTools.thy ===== *)
theory DosTools
  imports Lifecycle
begin

text \<open>
  The programs of src/tools that call DOS on the drive of the driver and print what it answers:
  tsr_write.c, tsr_truncate.c, tsr_mv.c, tsr_dir.c, tsr_probe.c and tsr_xfree.c.

  A machine is the memory and the rest of the world.  An interrupt is a parameter, a function of DS,
  of the other registers and of the machine; \<open>segread\<close> gives the segment registers of the program.
  The strings and buffers of a program lie at addresses that are parameters as well.  A program
  returns its exit code and the bytes it prints.
\<close>

section \<open>Machine\<close>

type_synonym memory = "far \<Rightarrow> byte"
type_synonym 'w interrupt = "u16 \<Rightarrow> regs \<Rightarrow> memory \<times> 'w \<Rightarrow> regs \<times> memory \<times> 'w"
type_synonym run = "int \<times> byte list"

record segments =
  sg_ds :: u16
  sg_es :: u16

definition far_add :: "far \<Rightarrow> nat \<Rightarrow> far" where
  "far_add a k = (fst a, snd a + word_of_nat k)"

definition mem_at :: "memory \<Rightarrow> far \<Rightarrow> buf" where
  "mem_at mem a = (\<lambda>k. mem (far_add a k))"

definition mem_put :: "far \<Rightarrow> byte list \<Rightarrow> memory \<Rightarrow> memory" where
  "mem_put a bs mem =
     (\<lambda>p. let k = unat (snd p - snd a) in if fst p = fst a \<and> k < length bs then bs ! k else mem p)"

definition put_data :: "far \<Rightarrow> byte list \<Rightarrow> memory \<times> 'w \<Rightarrow> memory \<times> 'w" where
  "put_data a bs m = (mem_put a bs (fst m), snd m)"

definition memset :: "far \<Rightarrow> byte \<Rightarrow> nat \<Rightarrow> memory \<times> 'w \<Rightarrow> memory \<times> 'w" where
  "memset a c n = put_data a (replicate n c)"

definition with_ah :: "u16 \<Rightarrow> u16 \<Rightarrow> u16" where
  "with_ah ax a = (ax AND 0xFF) OR push_bit 8 a"

definition ah_of :: "regs \<Rightarrow> u16" where
  "ah_of r = drop_bit 8 (rg_ax r)"

text \<open>\<open>intdos\<close> runs with the segment registers of the program, \<open>intdosx\<close> with DS as given.\<close>

definition intdos :: "segments \<Rightarrow> 'w interrupt \<Rightarrow> regs \<Rightarrow> memory \<times> 'w \<Rightarrow> regs \<times> memory \<times> 'w" where
  "intdos sg int21 r m = int21 (sg_ds sg) (r\<lparr>rg_es := sg_es sg\<rparr>) m"

definition intdosx :: "segments \<Rightarrow> 'w interrupt \<Rightarrow> u16 \<Rightarrow> regs \<Rightarrow> memory \<times> 'w \<Rightarrow> regs \<times> memory \<times> 'w" where
  "intdosx sg int21 ds r m = int21 ds (r\<lparr>rg_es := sg_es sg\<rparr>) m"

definition err2 :: "regs \<Rightarrow> byte list" where
  "err2 r = ascii '' failed: error=0x'' @ hex0 2 (unat (rg_ax r)) @ [newline]"

definition hex4 :: "u16 \<Rightarrow> byte list" where
  "hex4 w = hex0 4 (unat w)"

definition y_path :: "string \<Rightarrow> byte list" where
  "y_path s = ascii ''Y:'' @ [0x5C] @ ascii s"

definition quoted :: "byte list \<Rightarrow> byte list" where
  "quoted s = 0x27 # s @ [0x27]"

text \<open>An argument is an address and the text found there.\<close>

type_synonym arg = "far \<times> byte list"

text \<open>AH=3Eh, the registers as they are left by the calls before.\<close>

definition dos_close :: "segments \<Rightarrow> 'w interrupt \<Rightarrow> u16 \<Rightarrow> u16 \<Rightarrow> regs \<Rightarrow> memory \<times> 'w \<Rightarrow> regs \<times> memory \<times> 'w" where
  "dos_close sg int21 ax handle r m = intdos sg int21 (r\<lparr>rg_ax := ax, rg_bx := handle\<rparr>) m"

section \<open>tsr\_write\<close>

definition write_pass ::
  "segments \<Rightarrow> 'w interrupt \<Rightarrow> far \<Rightarrow> string \<Rightarrow> byte \<Rightarrow> u16 \<Rightarrow> regs \<Rightarrow> memory \<times> 'w \<Rightarrow> byte list \<times> regs \<times> memory \<times> 'w" where
  "write_pass sg int21 wbuf what c handle r m =
     (let m = memset wbuf c 1024 m;
          (r, m) = intdosx sg int21 (fst wbuf)
            (r\<lparr>rg_ax := with_ah (rg_ax r) 0x40, rg_bx := handle, rg_cx := 1024, rg_dx := snd wbuf\<rparr>) m;
          out = (if rg_carry r then ascii what @ ascii '' write to '' @ y_path ''TARGET.TXT'' @ err2 r
                 else ascii what @ ascii '' wrote '' @ dec (unat (rg_ax r)) @ ascii '' bytes ('' @ [c] @ ascii '') to '' @
                   y_path ''TARGET.TXT'' @ [newline])
      in (out, r, m))"

definition write_main :: "segments \<Rightarrow> far \<Rightarrow> far \<Rightarrow> 'w interrupt \<Rightarrow> regs \<Rightarrow> memory \<times> 'w \<Rightarrow> run \<times> memory \<times> 'w" where
  "write_main sg path wbuf int21 r m =
     (let m = put_data path (y_path ''TARGET.TXT'' @ [0]) m;
          (r, m) = intdosx sg int21 (fst path) (r\<lparr>rg_ax := 0x3D02, rg_dx := snd path\<rparr>) m
      in if rg_carry r then ((1, ascii ''Open '' @ y_path ''TARGET.TXT'' @ ascii '' for r/w'' @ err2 r), m)
         else
           let handle = rg_ax r;
               (out1, r, m) = write_pass sg int21 wbuf ''In-place'' 0x42 handle r m;
               (out2, r, m) = write_pass sg int21 wbuf ''Extend'' 0x43 handle r m;
               (r, m) = dos_close sg int21 (with_ah (rg_ax r) 0x3E) handle r m
           in if rg_carry r then ((1, out1 @ out2 @ ascii ''Close '' @ y_path ''TARGET.TXT'' @ err2 r), m)
              else ((0, out1 @ out2), m))"

section \<open>tsr\_truncate\<close>

text \<open>\<open>atol\<close>; a value too large is undefined in C and cut to its low bits here.\<close>

definition atol :: "byte list \<Rightarrow> u32" where
  "atol a =
     (let a = dropWhile is_space a; neg = (cstr_at a 0 = 0x2D);
          n = word_of_nat (digits_value 10 0 (if neg \<or> cstr_at a 0 = 0x2B then drop 1 a else a))
      in if neg then - n else n)"

definition truncate_main :: "arg list \<Rightarrow> segments \<Rightarrow> far \<Rightarrow> 'w interrupt \<Rightarrow> regs \<Rightarrow> memory \<times> 'w \<Rightarrow> run \<times> memory \<times> 'w" where
  "truncate_main args sg path_default int21 r m =
     (let m = put_data path_default (y_path ''RENAMED.TXT'' @ [0]) m;
          (path, text) = (case args of [] \<Rightarrow> (path_default, y_path ''RENAMED.TXT'') | a # _ \<Rightarrow> a);
          new_size = (case args of _ # n # _ \<Rightarrow> atol (snd n) | _ \<Rightarrow> 100);
          (r, m) = intdosx sg int21 (fst path) (r\<lparr>rg_ax := 0x3D02, rg_dx := snd path\<rparr>) m
      in if rg_carry r then ((1, ascii ''Open '' @ quoted text @ ascii '' r/w'' @ err2 r), m)
         else
           let handle = rg_ax r;
               (r, m) = intdos sg int21
                 (r\<lparr>rg_ax := 0x4200, rg_bx := handle, rg_cx := ucast (drop_bit 16 new_size), rg_dx := ucast (new_size AND 0xFFFF)\<rparr>) m
           in if rg_carry r then ((1, ascii ''Seek '' @ quoted text @ ascii '' to '' @ dec (unat new_size) @ err2 r), m)
              else
                let (r, m) = intdosx sg int21 (fst path) (r\<lparr>rg_ax := with_ah (rg_ax r) 0x40, rg_bx := handle, rg_cx := 0, rg_dx := 0\<rparr>) m
                in if rg_carry r then
                     let out = ascii ''Truncate '' @ quoted text @ ascii '' to '' @ dec (unat new_size) @ err2 r;
                         (r, m) = dos_close sg int21 (with_ah (rg_ax r) 0x3E) handle r m
                     in ((1, out), m)
                   else
                     let out = ascii ''Truncated '' @ quoted text @ ascii '' to '' @ dec (unat new_size) @ ascii '' bytes'' @ [newline];
                         (r, m) = dos_close sg int21 (with_ah (rg_ax r) 0x3E) handle r m
                     in if rg_carry r then ((1, out @ ascii ''Close '' @ quoted text @ err2 r), m)
                        else ((0, out), m))"

section \<open>tsr\_mv and tsr\_dir\<close>

definition mv_main :: "arg list \<Rightarrow> 'w interrupt \<Rightarrow> regs \<Rightarrow> memory \<times> 'w \<Rightarrow> run \<times> memory \<times> 'w" where
  "mv_main args int21 r m =
     (case args of
        src # dst # _ \<Rightarrow>
          let names = quoted (snd src) @ ascii '' -> '' @ quoted (snd dst);
              (r, m) = int21 (fst (fst src))
                (r\<lparr>rg_ax := with_ah (rg_ax r) 0x56, rg_dx := snd (fst src), rg_es := fst (fst dst), rg_di := snd (fst dst),
                   rg_carry := False\<rparr>) m
          in if rg_carry r then ((1, ascii ''Rename '' @ names @ err2 r), m)
             else ((0, ascii ''Renamed '' @ names @ [newline]), m)
      | _ \<Rightarrow> ((1, ascii ''usage: ext4mv <src> <dst>'' @ [newline]), m))"

text \<open>The second call keeps the AL and the ES that the first one returned.\<close>

definition dir_main :: "segments \<Rightarrow> far \<Rightarrow> far \<Rightarrow> 'w interrupt \<Rightarrow> regs \<Rightarrow> memory \<times> 'w \<Rightarrow> run \<times> memory \<times> 'w" where
  "dir_main sg pattern dta int21 r m =
     (let m = put_data pattern (y_path ''*.*'' @ [0]) m;
          (r, m) = intdos sg int21 (r\<lparr>rg_ax := with_ah (rg_ax r) 0x1A, rg_dx := snd dta\<rparr>) m;
          (r, m) = int21 (fst pattern) (r\<lparr>rg_ax := with_ah (rg_ax r) 0x4E, rg_cx := 0x37, rg_dx := snd pattern\<rparr>) m
      in if rg_carry r then
           ((1, ascii ''FindFirst '' @ y_path ''*.*'' @ ascii '' error=0x'' @ hex0 2 (unat (rg_ax r)) @ [newline]), m)
         else ((0, ascii ''FindFirst '' @ y_path ''*.*'' @ ascii '' succeeded (unexpected for stub TSR)'' @ [newline]), m))"

section \<open>tsr\_probe\<close>

definition failed_ax :: "string \<Rightarrow> regs \<Rightarrow> byte list" where
  "failed_ax what r = ascii what @ ascii '': AX='' @ hex4 (rg_ax r) @ [newline]"

definition shown_char :: "byte \<Rightarrow> byte" where
  "shown_char c = (if 0x20 \<le> c \<and> c < 0x7F then c else 0x2E)"

text \<open>What the reads of the first two probes print, and the number of bytes, an \<open>int\<close> of 16 bits.\<close>

definition read_report :: "far \<Rightarrow> regs \<Rightarrow> memory \<Rightarrow> byte list \<times> int" where
  "read_report buf r mem =
     (if rg_carry r then (failed_ax ''  Read FAILED'' r, 0)
      else
        let actual = sint (rg_ax r);
            n = (if 50 < actual then 50 else actual)
        in (ascii ''  Read OK: '' @ sdec actual @ ascii '' bytes returned'' @ [newline] @
            (if 0 < actual then
               ascii ''  First '' @ sdec n @ ascii '' bytes: '' @
               quoted (map (\<lambda>i. shown_char (mem_at mem buf i)) [0..<nat n]) @ [newline]
             else []), actual))"

definition close_report :: "regs \<Rightarrow> byte list" where
  "close_report r = (if rg_carry r then failed_ax ''  Close FAILED'' r else ascii ''  Close OK'' @ [newline])"

definition probe_rest :: "segments \<Rightarrow> 'w interrupt \<Rightarrow> far \<Rightarrow> u16 \<Rightarrow> regs \<Rightarrow> memory \<times> 'w \<Rightarrow> run \<times> memory \<times> 'w" where
  "probe_rest sg int21 buf handle r m =
     (let m = memset buf 0 512 m;
          (r, m) = intdosx sg int21 (fst buf) (r\<lparr>rg_ax := 0x3F00, rg_bx := handle, rg_cx := 512, rg_dx := snd buf\<rparr>) m;
          (out, actual) = read_report buf r (fst m);
          (r, m) = dos_close sg int21 0x3E00 handle r m
      in ((if 0 < actual then 0 else 2, out @ close_report r), m))"

definition do_extopen :: "segments \<Rightarrow> far \<Rightarrow> far \<Rightarrow> 'w interrupt \<Rightarrow> regs \<Rightarrow> memory \<times> 'w \<Rightarrow> run \<times> memory \<times> 'w" where
  "do_extopen sg path buf int21 r m =
     (let head = ascii ''=== ExtOpen probe ==='' @ [newline];
          (r, m) = intdosx sg int21 (fst path) (r\<lparr>rg_ax := 0x6C00, rg_bx := 0, rg_cx := 0, rg_dx := 1, rg_si := snd path\<rparr>) m
      in if rg_carry r then ((1, head @ failed_ax ''  ExtOpen FAILED'' r), m)
         else
           let handle = rg_ax r;
               ok = ascii ''  ExtOpen OK: handle='' @ dec (unat handle) @ ascii '', action='' @ dec (unat (rg_cx r)) @ [newline];
               ((rc, out), m) = probe_rest sg int21 buf handle r m
           in ((rc, head @ ok @ out), m))"

definition do_open :: "segments \<Rightarrow> far \<Rightarrow> far \<Rightarrow> 'w interrupt \<Rightarrow> regs \<Rightarrow> memory \<times> 'w \<Rightarrow> run \<times> memory \<times> 'w" where
  "do_open sg path buf int21 r m =
     (let head = ascii ''=== Regular Open probe ==='' @ [newline];
          (r, m) = intdosx sg int21 (fst path) (r\<lparr>rg_ax := 0x3D00, rg_dx := snd path\<rparr>) m
      in if rg_carry r then ((1, head @ failed_ax ''  Open FAILED'' r), m)
         else
           let handle = rg_ax r;
               ok = ascii ''  Open OK: handle='' @ dec (unat handle) @ [newline];
               ((rc, out), m) = probe_rest sg int21 buf handle r m
           in ((rc, head @ ok @ out), m))"

text \<open>The buffer of this one has 64 bytes; the read asks for 16 KB.\<close>

definition copy_buf_bytes :: nat where "copy_buf_bytes = 64"

definition step_line :: "string \<Rightarrow> regs \<Rightarrow> byte list" where
  "step_line what r = ascii what @ ascii '': cf='' @ dec (if rg_carry r then 1 else 0) @ ascii '' AX='' @ hex4 (rg_ax r)"

definition copy_read :: "segments \<Rightarrow> 'w interrupt \<Rightarrow> far \<Rightarrow> u16 \<Rightarrow> regs \<Rightarrow> memory \<times> 'w \<Rightarrow> regs \<times> memory \<times> 'w" where
  "copy_read sg int21 buf handle r m =
     intdosx sg int21 (fst buf) (r\<lparr>rg_ax := 0x3F00, rg_bx := handle, rg_cx := 0x4000, rg_dx := snd buf\<rparr>) m"

definition do_copy_repro :: "segments \<Rightarrow> far \<Rightarrow> far \<Rightarrow> 'w interrupt \<Rightarrow> regs \<Rightarrow> memory \<times> 'w \<Rightarrow> run \<times> memory \<times> 'w" where
  "do_copy_repro sg path buf int21 r m =
     (let head = ascii ''=== COPY-flow repro ==='' @ [newline];
          (r, m) = intdosx sg int21 (fst path)
            (r\<lparr>rg_ax := 0x6C00, rg_bx := 0, rg_cx := 0, rg_dx := 0x0101, rg_di := 0xFFFF, rg_si := snd path\<rparr>) m
      in if rg_carry r then ((1, head @ failed_ax ''  ExtOpen FAILED'' r), m)
         else
           let handle = rg_ax r;
               ok = ascii ''  ExtOpen OK: handle='' @ dec (unat handle) @ ascii '' (action='' @ dec (unat (rg_cx r)) @ ascii '')'' @ [newline];
               (r, m) = intdos sg int21 (r\<lparr>rg_ax := 0x5700, rg_bx := handle\<rparr>) m;
               out1 = step_line ''  AX=5700 GetFileTimes'' r @ ascii '' CX='' @ hex4 (rg_cx r) @ ascii '' DX='' @ hex4 (rg_dx r) @ [newline];
               (r, m) = intdos sg int21 (r\<lparr>rg_ax := 0x5702, rg_bx := handle, rg_si := 0xFFFF, rg_cx := 0\<rparr>) m;
               out2 = step_line ''  AX=5702 GetXASize '' r @ ascii '' CX='' @ hex4 (rg_cx r) @ [newline];
               (r, m) = intdos sg int21 (r\<lparr>rg_ax := 0x4400, rg_bx := handle\<rparr>) m;
               out3 = step_line ''  AX=4400 IOCTL    '' r @ ascii '' DX='' @ hex4 (rg_dx r) @ [newline];
               (r, m) = copy_read sg int21 buf handle r m;
               (out4, actual) =
                 (if rg_carry r then (failed_ax ''  Read FAILED after intermediates'' r, 0)
                  else (ascii ''  Read OK after intermediates: '' @ sdec (sint (rg_ax r)) @ ascii '' bytes (asked 16K)'' @ [newline],
                        sint (rg_ax r)));
               (r, m) = dos_close sg int21 0x3E00 handle r m
           in ((if 0 < actual then 0 else 2, head @ ok @ out1 @ out2 @ out3 @ out4), m))"

text \<open>The registers of a probe are uninitialised, \<open>r\<close> for all three here.\<close>

definition probe_main :: "byte list list \<Rightarrow> segments \<Rightarrow> far \<Rightarrow> far \<Rightarrow> far \<Rightarrow> far \<Rightarrow> 'w interrupt \<Rightarrow> regs \<Rightarrow> memory \<times> 'w \<Rightarrow>
    run \<times> memory \<times> 'w" where
  "probe_main args sg path buf_e buf_o buf_c int21 r m =
     (let m = put_data path (y_path ''HELLO.TXT'' @ [0]) m;
          option = (case args of [] \<Rightarrow> 0 | a # _ \<Rightarrow> if cstr_at a 0 = 0x2D \<or> cstr_at a 0 = 0x2F then upper (cstr_at a 1) else 0)
      in if option = 0x45 then do_extopen sg path buf_e int21 r m
         else if option = 0x4F then do_open sg path buf_o int21 r m
         else if option = 0x43 then do_copy_repro sg path buf_c int21 r m
         else
           let ((_, out1), m) = do_open sg path buf_o int21 r m;
               ((_, out2), m) = do_extopen sg path buf_e int21 r m;
               ((_, out3), m) = do_copy_repro sg path buf_c int21 r m
           in ((0, out1 @ [newline] @ out2 @ [newline] @ out3), m))"

section \<open>tsr\_xfree\<close>

definition ext_free_bytes :: nat where "ext_free_bytes = 44"

definition shown_number :: "string \<Rightarrow> nat \<Rightarrow> byte list" where
  "shown_number label n = ascii ''  '' @ ascii label @ ascii '': '' @ dec n @ [newline]"

definition total_blocks :: "regs \<Rightarrow> u32" where
  "total_blocks r = push_bit 16 (ucast (rg_ax r)) OR ucast (rg_bx r)"

definition free_blocks :: "regs \<Rightarrow> u32" where
  "free_blocks r = push_bit 16 (ucast (rg_cx r)) OR ucast (rg_dx r)"

definition direct_report :: "regs \<Rightarrow> byte list" where
  "direct_report r =
     ascii ''INT 2Fh AX=11A3h direct (bypass kernel):'' @ [newline] @
     shown_number ''total blocks    '' (unat (total_blocks r)) @
     shown_number ''free  blocks    '' (unat (free_blocks r)) @
     shown_number ''bytes/block     '' (unat (rg_si r)) @
     shown_number ''bytes total     '' (unat (total_blocks r * ucast (rg_si r))) @
     shown_number ''bytes free      '' (unat (free_blocks r * ucast (rg_si r)))"

definition direct_failed :: "regs \<Rightarrow> byte list" where
  "direct_failed r =
     ascii ''INT 2Fh AX=11A3h failed: AX=0x'' @ hex4 (rg_ax r) @ ascii '' CF=1'' @ [newline] @
     ascii ''  (no ext4-dos TSR loaded? or g_fs not ready)'' @ [newline]"

text \<open>\<open>b\<close> is the answered structure.\<close>

definition kernel_report :: "buf \<Rightarrow> byte list" where
  "kernel_report b =
     (let clus = le32 b 4; sec = le32 b 8; free = le32 b 12; total = le32 b 16 in
      shown_number ''bytes/sector    '' (unat sec) @
      shown_number ''sectors/cluster '' (unat clus) @
      shown_number ''total clusters  '' (unat total) @
      shown_number ''free  clusters  '' (unat free) @
      shown_number ''bytes total     '' (unat (total * clus * sec)) @
      shown_number ''bytes free      '' (unat (free * clus * sec)))"

definition large_space_query :: "far \<Rightarrow> regs \<Rightarrow> regs" where
  "large_space_query xfs r = r\<lparr>rg_ax := 0x11A3, rg_es := fst xfs, rg_di := snd xfs, rg_carry := False\<rparr>"

definition xfree_main :: "arg list \<Rightarrow> segments \<Rightarrow> far \<Rightarrow> far \<Rightarrow> 'w interrupt \<Rightarrow> 'w interrupt \<Rightarrow> regs \<Rightarrow> memory \<times> 'w \<Rightarrow>
    run \<times> memory \<times> 'w" where
  "xfree_main args sg drive_default xfs int2f int21 r m =
     (let m = put_data drive_default (y_path [] @ [0]) m;
          (drive, text) = (case args of [] \<Rightarrow> (drive_default, y_path []) | a # _ \<Rightarrow> a);
          (r, m) = int2f (sg_ds sg) (large_space_query xfs r) m
      in if rg_carry r then ((2, direct_failed r), m)
         else
           let out1 = direct_report r;
               m = memset xfs 0 ext_free_bytes m;
               m = put_data xfs [word_of_nat ext_free_bytes, 0] m;
               (r, m) = int21 (fst drive)
                 (r\<lparr>rg_ax := 0x7303, rg_cx := word_of_nat ext_free_bytes, rg_dx := snd drive, rg_es := fst xfs, rg_di := snd xfs,
                    rg_carry := False\<rparr>) m;
               out2 = ascii ''INT 21h AX=7303h on '' @ quoted text @ ascii '' (via kernel):'' @ [newline]
           in ((0, out1 @ out2 @
                (if rg_carry r then
                   ascii ''  failed: AX=0x'' @ hex4 (rg_ax r) @ ascii '' CF=1 (kernel doesn't support AH=73h)'' @ [newline]
                 else kernel_report (mem_at (fst m) xfs))), m))"

section \<open>File handles\<close>

text \<open>
  What the programs rely on DOS for: an open that succeeds adds a handle that was free, a close takes
  it away, and no other call opens or closes anything.
\<close>

definition serves_handles :: "'w interrupt \<Rightarrow> ('w \<Rightarrow> u16 set) \<Rightarrow> bool" where
  "serves_handles int21 opened \<longleftrightarrow> (\<forall>ds r m r' m'. int21 ds r m = (r', m') \<longrightarrow>
     (if ah_of r = 0x3D \<or> ah_of r = 0x6C then
        (if rg_carry r' then opened (snd m') = opened (snd m)
         else rg_ax r' \<notin> opened (snd m) \<and> opened (snd m') = insert (rg_ax r') (opened (snd m)))
      else if ah_of r = 0x3E then opened (snd m') = opened (snd m) - {rg_bx r}
      else opened (snd m') = opened (snd m)))"

lemma ah_with [simp]: "drop_bit 8 (with_ah ax 0x40) = 0x40" "drop_bit 8 (with_ah ax 0x3E) = 0x3E"
proof -
  have m: "(0xFF :: u16) = mask 8" by (simp add: mask_eq_exp_minus_1)
  have "drop_bit 8 (ax AND 0xFF) = 0"
    unfolding m by (simp add: take_bit_eq_mask [symmetric] drop_bit_take_bit)
  then show "drop_bit 8 (with_ah ax 0x40) = 0x40" "drop_bit 8 (with_ah ax 0x3E) = 0x3E"
    by (simp_all add: with_ah_def drop_bit_or drop_bit_push_bit)
qed

lemma snd_put_data [simp]: "snd (put_data a bs m) = snd m" "snd (memset a c n m) = snd m"
  by (simp_all add: put_data_def memset_def)

lemma service_call:
  assumes "serves_handles int21 opened" "int21 ds r m = (r', m')"
  shows "if ah_of r = 0x3D \<or> ah_of r = 0x6C then
        (if rg_carry r' then opened (snd m') = opened (snd m)
         else rg_ax r' \<notin> opened (snd m) \<and> opened (snd m') = insert (rg_ax r') (opened (snd m)))
      else if ah_of r = 0x3E then opened (snd m') = opened (snd m) - {rg_bx r}
      else opened (snd m') = opened (snd m)"
  using assms unfolding serves_handles_def by blast

text \<open>\<open>tsr_write\<close> and the probes leave no handle behind, whatever fails on the way.\<close>

lemma write_leaves_no_handle:
  assumes s: "serves_handles int21 opened" and r: "write_main sg path wbuf int21 r m = (run, m')"
  shows "opened (snd m') = opened (snd m)"
proof -
  note call = service_call [OF s]
  obtain r1 m1 where o: "int21 (fst path) (r\<lparr>rg_ax := 0x3D02, rg_dx := snd path, rg_es := sg_es sg\<rparr>)
      (put_data path (y_path ''TARGET.TXT'' @ [0]) m) = (r1, m1)" by (metis surj_pair)
  show ?thesis
  proof (cases "rg_carry r1")
    case True
    then show ?thesis using r call [OF o] by (auto simp: write_main_def intdosx_def o ah_of_def Let_def)
  next
    case False
    note opened = call [OF o]
    show ?thesis using r opened False
      by (auto simp: write_main_def intdosx_def intdos_def write_pass_def dos_close_def o ah_of_def Let_def
            split: prod.splits if_splits dest!: call)
  qed
qed

lemma probe_rest_closes:
  assumes s: "serves_handles int21 opened" and r: "probe_rest sg int21 buf handle r m = (run, m')"
  shows "opened (snd m') = opened (snd m) - {handle}"
  using r
  by (auto simp: probe_rest_def intdosx_def intdos_def dos_close_def ah_of_def Let_def
      split: prod.splits dest!: service_call [OF s])

lemma probe_leaves_no_handle:
  assumes s: "serves_handles int21 opened"
  shows "do_open sg path buf int21 r m = (run, m') \<Longrightarrow> opened (snd m') = opened (snd m)"
    and "do_extopen sg path buf int21 r m = (run, m') \<Longrightarrow> opened (snd m') = opened (snd m)"
    and "do_copy_repro sg path buf int21 r m = (run, m') \<Longrightarrow> opened (snd m') = opened (snd m)"
proof -
  note call = service_call [OF s]
  assume c: "do_open sg path buf int21 r m = (run, m')"
  obtain r1 m1 where 1: "intdosx sg int21 (fst path) (r\<lparr>rg_ax := 0x3D00, rg_dx := snd path\<rparr>) m = (r1, m1)"
    by (metis surj_pair)
  obtain rc out m2 where 2: "probe_rest sg int21 buf (rg_ax r1) r1 m1 = ((rc, out), m2)" by (metis surj_pair)
  show "opened (snd m') = opened (snd m)"
    using c call [OF 1 [unfolded intdosx_def]] probe_rest_closes [OF s 2] unfolding do_open_def Let_def 1
    by (simp add: 2 ah_of_def split: if_splits)
next
  note call = service_call [OF s]
  assume c: "do_extopen sg path buf int21 r m = (run, m')"
  obtain r1 m1 where 1: "intdosx sg int21 (fst path)
      (r\<lparr>rg_ax := 0x6C00, rg_bx := 0, rg_cx := 0, rg_dx := 1, rg_si := snd path\<rparr>) m = (r1, m1)" by (metis surj_pair)
  obtain rc out m2 where 2: "probe_rest sg int21 buf (rg_ax r1) r1 m1 = ((rc, out), m2)" by (metis surj_pair)
  show "opened (snd m') = opened (snd m)"
    using c call [OF 1 [unfolded intdosx_def]] probe_rest_closes [OF s 2] unfolding do_extopen_def Let_def 1
    by (simp add: 2 ah_of_def split: if_splits)
next
  note call = service_call [OF s]
  assume c: "do_copy_repro sg path buf int21 r m = (run, m')"
  obtain r1 m1 where 1: "intdosx sg int21 (fst path)
      (r\<lparr>rg_ax := 0x6C00, rg_bx := 0, rg_cx := 0, rg_dx := 0x0101, rg_di := 0xFFFF, rg_si := snd path\<rparr>) m = (r1, m1)"
    by (metis surj_pair)
  note o = call [OF 1 [unfolded intdosx_def]]
  show "opened (snd m') = opened (snd m)"
  proof (cases "rg_carry r1")
    case True
    then show ?thesis using c o by (auto simp: do_copy_repro_def 1 ah_of_def)
  next
    case False
    let ?h = "rg_ax r1"
    obtain r2 m2 where 2: "intdos sg int21 (r1\<lparr>rg_ax := 0x5700, rg_bx := ?h\<rparr>) m1 = (r2, m2)" by (metis surj_pair)
    obtain r3 m3 where 3: "intdos sg int21 (r2\<lparr>rg_ax := 0x5702, rg_bx := ?h, rg_si := 0xFFFF, rg_cx := 0\<rparr>) m2 = (r3, m3)"
      by (metis surj_pair)
    obtain r4 m4 where 4: "intdos sg int21 (r3\<lparr>rg_ax := 0x4400, rg_bx := ?h\<rparr>) m3 = (r4, m4)" by (metis surj_pair)
    obtain r5 m5 where 5: "copy_read sg int21 buf ?h r4 m4 = (r5, m5)" by (metis surj_pair)
    obtain r6 m6 where 6: "dos_close sg int21 0x3E00 ?h r5 m5 = (r6, m6)" by (metis surj_pair)
    have "m' = m6" using c False unfolding do_copy_repro_def Let_def 1 by (simp add: 2 3 4 5 6 split: if_splits)
    moreover have "opened (snd m6) = opened (snd m5) - {?h}" using call [OF 6 [unfolded dos_close_def intdos_def]] by (simp add: ah_of_def)
    moreover have "opened (snd m5) = opened (snd m4)" using call [OF 5 [unfolded copy_read_def intdosx_def]] by (simp add: ah_of_def)
    moreover have "opened (snd m4) = opened (snd m3)" using call [OF 4 [unfolded intdos_def]] by (simp add: ah_of_def)
    moreover have "opened (snd m3) = opened (snd m2)" using call [OF 3 [unfolded intdos_def]] by (simp add: ah_of_def)
    moreover have "opened (snd m2) = opened (snd m1)" using call [OF 2 [unfolded intdos_def]] by (simp add: ah_of_def)
    ultimately show ?thesis using o False by (simp add: ah_of_def)
  qed
qed

text \<open>\<open>tsr_truncate\<close> forgets the handle in one case: the seek fails.\<close>

lemma truncate_handles:
  assumes s: "serves_handles int21 opened" and r: "truncate_main args sg path int21 r m = ((rc, out), m')"
  shows "opened (snd m') = opened (snd m) \<or>
    rc = 1 \<and> take 5 out = ascii ''Seek '' \<and> (\<exists>h. h \<notin> opened (snd m) \<and> opened (snd m') = insert h (opened (snd m)))"
  using r
  by (auto simp: truncate_main_def intdosx_def intdos_def dos_close_def ah_of_def ascii_def Let_def
      split: prod.splits list.splits if_splits dest!: service_call [OF s])

section \<open>The read of the copy probe\<close>

text \<open>A read that delivers more than 64 bytes goes past the end of the probe's buffer.\<close>

lemma far_offset: "k < 65536 \<Longrightarrow> unat (snd (far_add a k) - snd a) = k"
  by (simp add: far_add_def unat_of_nat)

lemma copy_read_overruns:
  assumes "copy_read sg int21 buf handle r m = (r', mem_put buf bs (fst m), w')" "copy_buf_bytes < length bs"
    "length bs \<le> 0x4000"
  shows "fst (snd (copy_read sg int21 buf handle r m)) (far_add buf copy_buf_bytes) = bs ! copy_buf_bytes"
  using assms by (simp add: mem_put_def Let_def far_offset) (simp add: far_add_def)

section \<open>The free space of the driver\<close>

lemma halves_joined: "push_bit 16 (ucast (ucast (drop_bit 16 w) :: u16)) OR ucast (ucast (w AND 0xFFFF) :: u16) = (w :: u32)"
proof -
  have m: "(0xFFFF :: u32) = mask 16" by (simp add: mask_eq_exp_minus_1)
  show ?thesis unfolding m by (rule bit_word_eqI) (auto simp: bit_simps)
qed

text \<open>\<open>tsr_xfree\<close> prints the numbers of blocks that the driver copied when it was installed.\<close>

lemma direct_report_shows:
  assumes "rd_ready d"
  shows "total_blocks (rem_large_space r d) = rd_safe_blocks d" "free_blocks (rem_large_space r d) = rd_safe_free d"
    "rg_si (rem_large_space r d) = ucast (rd_safe_bs d)" "\<not> rg_carry (rem_large_space r d)"
  using assms halves_joined [of "rd_safe_blocks d"] halves_joined [of "rd_safe_free d"]
  by (simp_all add: rem_large_space_def total_blocks_def free_blocks_def Let_def)

end
