(* ===== verification/DosDump.thy ===== *)
theory DosDump
  imports Lifecycle
begin

text \<open>
  The program that prints the captures of the driver, src/tools/tsr_dump.c.  It asks the driver over
  INT 2Fh for the address of the structure and reads it there: \<open>cap\<close> gives the structure at an address.
  Arrays are lists of the declared length; signed 16-bit fields are words read with \<open>sint\<close>.
\<close>

section \<open>The structure\<close>

record call_capture =
  cc_used :: byte
  cc_sattr :: byte
  cc_rc :: u16
  cc_target_index :: u16
  cc_current_index_after :: u16
  cc_state_found :: byte
  cc_name_len :: byte
  cc_name :: "byte list"
  cc_pri_path :: "byte list"
  cc_name83 :: "byte list"
  cc_searchdir_after :: "byte list"

record write_capture =
  wc_es :: u16
  wc_di :: u16
  wc_count :: u16
  wc_pos_at_sft :: u32
  wc_size_at_sft :: u32
  wc_slot_inode_num :: u32
  wc_slot_found :: byte

record ff_capture =
  cp_valid :: byte
  cp_ax :: u16
  cp_bx :: u16
  cp_cx :: u16
  cp_dx :: u16
  cp_si :: u16
  cp_di :: u16
  cp_bp :: u16
  cp_ds :: u16
  cp_es :: u16
  cp_flags :: u16
  cp_sda_bytes :: "byte list"
  cp_es_di_bytes :: "byte list"
  cp_ds_si_bytes :: "byte list"
  cp_flow_entered :: u16
  cp_flow_inode_root_fail :: u16
  cp_flow_inode_root_rc :: u16
  cp_flow_dir_iter_returned :: u16
  cp_flow_state_not_found :: u16
  cp_flow_inode_entry_fail :: u16
  cp_flow_success :: u16
  cp_fs_ready_at_call :: byte
  cp_fs_bgd_count :: u32
  cp_fs_bgd_size :: u16
  cp_fs_blocks_per_group :: u32
  cp_fs_inodes_per_group :: u32
  cp_fs_inode_size :: u16
  cp_fs_block_size :: u32
  cp_root_iblock :: "byte list"
  cp_ext_lookup_rc :: u16
  cp_ext_lookup_phys_lo :: u32
  cp_ext_lookup_phys_hi :: u32
  cp_data_bdev_read_rc :: u16
  cp_data_sector_lo :: u32
  cp_cap_partition_lba_lo :: u32
  cp_cap_partition_lba_hi :: u32
  cp_cap_byte_off_lo :: u32
  cp_cap_byte_off_hi :: u32
  cp_cap_sector_size :: u16
  cp_calls :: "call_capture list"
  cp_open_call_count :: u16
  cp_read_call_count :: u16
  cp_write_call_count :: u16
  cp_close_call_count :: u16
  cp_last_write_rc :: u16
  cp_last_write_err :: "byte list"
  cp_last_write_was_extend :: byte
  cp_last_write_pos :: u32
  cp_last_write_count :: u16
  cp_last_write_file_size :: u32
  cp_last_open_rc :: u16
  cp_last_open_path :: "byte list"
  cp_last_open_inode_num :: u32
  cp_last_open_size :: u32
  cp_last_read_pos :: u32
  cp_last_read_count :: u16
  cp_last_read_actual :: u16
  cp_entry_inode_mtime :: u32
  cp_entry_inode_dos_time :: u16
  cp_entry_inode_dos_date :: u16
  cp_utd_initial_days :: u32
  cp_utd_year_iters :: u16
  cp_utd_days_after_year_loop :: u32
  cp_utd_final_year :: u16
  cp_last_create_ax :: u16
  cp_last_create_seg :: u16
  cp_last_create_off :: u16
  cp_last_create_inode_num :: u32
  cp_last_create_sft_after :: "byte list"
  cp_last_write_seg :: u16
  cp_last_write_off :: u16
  cp_last_write_slot_found :: byte
  cp_last_write_sft_at_entry :: "byte list"
  cp_write_log_idx :: byte
  cp_write_log :: "write_capture list"
  cp_last_write_ax_in :: u16
  cp_last_write_bx_in :: u16
  cp_last_write_cx_in :: u16
  cp_last_write_dx_in :: u16
  cp_last_write_ds_in :: u16
  cp_last_write_si_in :: u16
  cp_last_write_sda :: "byte list"


section \<open>Printing\<close>

abbreviation udec :: "'a::len word \<Rightarrow> byte list" where "udec w \<equiv> dec (unat w)"
abbreviation idec :: "u16 \<Rightarrow> byte list" where "idec w \<equiv> sdec (sint w)"
abbreviation xdec :: "nat \<Rightarrow> 'a::len word \<Rightarrow> byte list" where "xdec n w \<equiv> hex0 n (unat w)"

definition text_line :: "string \<Rightarrow> byte list" where
  "text_line s = ascii s @ [newline]"

definition value_line :: "string \<Rightarrow> byte list \<Rightarrow> byte list" where
  "value_line label v = ascii label @ v @ [newline]"

definition quote_mark :: "byte list" where "quote_mark = [0x27]"

text \<open>The characters up to a zero, \<open>other\<close> for those that do not print.\<close>

definition shown :: "byte \<Rightarrow> byte list \<Rightarrow> byte list" where
  "shown other bs = map (\<lambda>c. if printable c then c else other) bs"

definition shown_text :: "byte \<Rightarrow> byte list \<Rightarrow> byte list" where
  "shown_text other bs = shown other (cstr bs)"

definition hex_bytes :: "byte list \<Rightarrow> byte list" where
  "hex_bytes bs = concat (map (\<lambda>c. ascii '' '' @ xdec 2 c) bs)"

definition capture_row :: "byte list \<Rightarrow> nat \<Rightarrow> nat \<Rightarrow> byte list" where
  "capture_row p len i =
     ascii ''  '' @ hex0 3 i @ ascii '': '' @
     concat (map (\<lambda>j. if i + j < len then xdec 2 (p ! (i + j)) @ ascii '' '' else ascii ''   '') [0..<16]) @
     ascii '' |'' @ shown 0x2E (map (\<lambda>j. p ! (i + j)) [0..<min 16 (len - i)]) @ ascii ''|'' @ [newline]"

definition hex_dump :: "byte list \<Rightarrow> byte list \<Rightarrow> nat \<Rightarrow> byte list" where
  "hex_dump label p len =
     label @ ascii '' ('' @ dec len @ ascii '' bytes):'' @ [newline] @
     concat (map (\<lambda>k. capture_row p len (16 * k)) [0..<(len + 15) div 16])"

definition open_path_line :: "byte \<Rightarrow> ff_capture \<Rightarrow> byte list" where
  "open_path_line other c =
     ascii ''  last open path: '' @ quote_mark @ shown_text other (take 64 (cp_last_open_path c)) @ quote_mark @ [newline]"

definition open_inode_line :: "ff_capture \<Rightarrow> byte list" where
  "open_inode_line c =
     ascii ''  last open inode = '' @ udec (cp_last_open_inode_num c) @ ascii '', size = '' @ udec (cp_last_open_size c) @ [newline]"

definition always_on :: "ff_capture \<Rightarrow> byte list" where
  "always_on c =
     [newline] @ text_line ''Open/Read/Write/Close diagnostics (always-on):'' @
     value_line ''  Open calls    : '' (udec (cp_open_call_count c)) @
     value_line ''  Read calls    : '' (udec (cp_read_call_count c)) @
     value_line ''  Write calls   : '' (udec (cp_write_call_count c)) @
     value_line ''  Close calls   : '' (udec (cp_close_call_count c)) @
     ascii ''  last write rc : '' @ idec (cp_last_write_rc c) @
       ascii '' (was_extend='' @ udec (cp_last_write_was_extend c) @ ascii '', pos='' @ udec (cp_last_write_pos c) @
       ascii '' count='' @ udec (cp_last_write_count c) @ ascii '' file_size='' @ udec (cp_last_write_file_size c) @
       text_line '')'' @
     ascii ''  last write err: '' @ quote_mark @ shown_text 0x3F (take 64 (cp_last_write_err c)) @ quote_mark @ [newline] @
     value_line ''  last open rc  : '' (idec (cp_last_open_rc c)) @
     open_path_line 0x2E c @ open_inode_line c"

definition far_text :: "u16 \<Rightarrow> u16 \<Rightarrow> byte list" where
  "far_text s k = xdec 4 s @ ascii '':'' @ xdec 4 k"

definition sft_diagnosis :: "ff_capture \<Rightarrow> byte list" where
  "sft_diagnosis c =
     [newline] @ text_line ''SFT-pointer diagnosis:'' @
     ascii ''  CREATE: AX=0x'' @ xdec 4 (cp_last_create_ax c) @ ascii ''  ES:DI = '' @
       far_text (cp_last_create_seg c) (cp_last_create_off c) @ value_line ''  inode='' (udec (cp_last_create_inode_num c)) @
     ascii ''  WRITE : ES:DI = '' @ far_text (cp_last_write_seg c) (cp_last_write_off c) @
       value_line ''  slot_found='' (udec (cp_last_write_slot_found c)) @
     text_line (if cp_last_create_seg c = cp_last_write_seg c \<and> cp_last_create_off c = cp_last_write_off c
                then ''  same SFT ptr? YES'' else ''  same SFT ptr? NO'') @
     hex_dump (newline # ascii ''SFT bytes after REM_CREATE populated it'') (cp_last_create_sft_after c) 64 @
     hex_dump (ascii ''SFT bytes at REM_WRITE entry'') (cp_last_write_sft_at_entry c) 64"

text \<open>The ring of the last eight write calls, oldest first.\<close>

definition ring_index :: "byte \<Rightarrow> nat \<Rightarrow> nat" where
  "ring_index start k = (unat (start AND 7) + k) mod 8"

definition ring_line :: "nat \<Rightarrow> write_capture \<Rightarrow> byte list" where
  "ring_line k w =
     ascii ''  ['' @ dec k @ ascii ''] ES:DI='' @ far_text (wc_es w) (wc_di w) @ ascii ''  count='' @ udec (wc_count w) @
     ascii ''  pos='' @ udec (wc_pos_at_sft w) @ ascii ''  size='' @ udec (wc_size_at_sft w) @
     ascii ''  inode='' @ udec (wc_slot_inode_num w) @ value_line ''  slot_found='' (udec (wc_slot_found w))"

definition write_ring :: "ff_capture \<Rightarrow> byte list" where
  "write_ring c =
     [newline] @ text_line ''Recent REM_WRITE calls (ring buffer, oldest first):'' @
     concat (map (\<lambda>k. ring_line k (cp_write_log c ! ring_index (cp_write_log_idx c) k)) [0..<8]) @
     [newline] @ text_line ''Last REM_WRITE register state at entry:'' @
     ascii ''  AX='' @ xdec 4 (cp_last_write_ax_in c) @ ascii ''  BX='' @ xdec 4 (cp_last_write_bx_in c) @
       ascii ''  CX='' @ xdec 4 (cp_last_write_cx_in c) @ ascii ''  DX='' @ xdec 4 (cp_last_write_dx_in c) @
       ascii ''  DS='' @ xdec 4 (cp_last_write_ds_in c) @ value_line ''  SI='' (xdec 4 (cp_last_write_si_in c)) @
     hex_dump (newline # ascii ''SDA[0..127] at last REM_WRITE entry'') (cp_last_write_sda c) 128"

definition entry_registers :: "ff_capture \<Rightarrow> byte list" where
  "entry_registers c =
     text_line ''FindFirst entry registers:'' @
     ascii ''  AX='' @ xdec 4 (cp_ax c) @ ascii '' BX='' @ xdec 4 (cp_bx c) @ ascii '' CX='' @ xdec 4 (cp_cx c) @
       ascii '' DX='' @ xdec 4 (cp_dx c) @ value_line ''  flags='' (xdec 4 (cp_flags c)) @
     ascii ''  SI='' @ xdec 4 (cp_si c) @ ascii '' DI='' @ xdec 4 (cp_di c) @ ascii '' BP='' @ xdec 4 (cp_bp c) @
       ascii ''  DS='' @ xdec 4 (cp_ds c) @ value_line '' ES='' (xdec 4 (cp_es c)) @
     hex_dump (ascii ''SDA[0..255]'') (cp_sda_bytes c) 256 @
     hex_dump (ascii ''ES:DI[0..63] (likely DTA)'') (cp_es_di_bytes c) 64 @
     hex_dump (ascii ''DS:SI[0..63] (likely pattern)'') (cp_ds_si_bytes c) 64"

definition flow_counters :: "ff_capture \<Rightarrow> byte list" where
  "flow_counters c =
     [newline] @ text_line ''FindFirst flow counters:'' @
     value_line ''  entered            : '' (udec (cp_flow_entered c)) @
     ascii ''  inode_read root    : rc='' @ idec (cp_flow_inode_root_rc c) @
       value_line '', fail count '' (udec (cp_flow_inode_root_fail c)) @
     value_line ''  dir_iter rc        : '' (udec (cp_flow_dir_iter_returned c)) @
     ascii ''  state.found = 0    : '' @ udec (cp_flow_state_not_found c) @ text_line '' times'' @
     ascii ''  inode_read entry   : '' @ ascii (if cp_flow_inode_entry_fail c \<noteq> 0 then ''FAIL'' else ''ok'') @
       ascii '' (fail count '' @ udec (cp_flow_inode_entry_fail c) @ text_line '')'' @
     value_line ''  success            : '' (udec (cp_flow_success c)) @
     [newline] @ text_line ''g_fs state snapshot at first FindFirst:'' @
     value_line ''  g_fs_ready         : '' (udec (cp_fs_ready_at_call c)) @
     value_line ''  bgd_count          : '' (udec (cp_fs_bgd_count c)) @
     value_line ''  bgd_size           : '' (udec (cp_fs_bgd_size c)) @
     value_line ''  blocks_per_group   : '' (udec (cp_fs_blocks_per_group c)) @
     value_line ''  inodes_per_group   : '' (udec (cp_fs_inodes_per_group c)) @
     value_line ''  inode_size         : '' (udec (cp_fs_inode_size c)) @
     value_line ''  block_size         : '' (udec (cp_fs_block_size c))"

definition root_probe :: "ff_capture \<Rightarrow> byte list" where
  "root_probe c =
     hex_dump (newline # ascii ''root_inode.i_block first 32 bytes (header + first extent)'') (cp_root_iblock c) 32 @
     [newline] @ text_line ''Direct probe of root data block 0:'' @
     value_line ''  extent_lookup rc   : '' (idec (cp_ext_lookup_rc c)) @
     ascii ''  phys block         : '' @ udec (cp_ext_lookup_phys_lo c) @ ascii '' (hi='' @ udec (cp_ext_lookup_phys_hi c) @ text_line '')'' @
     ascii ''  computed sector    : '' @ udec (cp_data_sector_lo c) @ ascii '' (0x'' @ xdec 8 (cp_data_sector_lo c) @ text_line '')'' @
     ascii ''  partition_lba      : lo='' @ udec (cp_cap_partition_lba_lo c) @ value_line '' hi='' (udec (cp_cap_partition_lba_hi c)) @
     ascii ''  byte_off           : lo='' @ udec (cp_cap_byte_off_lo c) @ ascii '' hi='' @ udec (cp_cap_byte_off_hi c) @
       ascii '' (0x'' @ xdec 8 (cp_cap_byte_off_hi c) @ ascii '' '' @ xdec 8 (cp_cap_byte_off_lo c) @ text_line '')'' @
     value_line ''  bd->sector_size    : '' (udec (cp_cap_sector_size c)) @
     value_line ''  bdev_read rc       : '' (idec (cp_data_bdev_read_rc c))"

definition found_lines :: "call_capture \<Rightarrow> byte list" where
  "found_lines k =
     value_line ''    name_len     = '' (udec (cc_name_len k)) @
     value_line ''    name bytes   ='' (hex_bytes (take 16 (cc_name k))) @
     ascii ''    name ascii   = '' @ quote_mark @ shown 0x3F (take (min 16 (unat (cc_name_len k))) (cc_name k)) @ quote_mark @ [newline]"

definition name83_lines :: "call_capture \<Rightarrow> byte list" where
  "name83_lines k =
     ascii ''    name83[11]   ='' @ hex_bytes (take 11 (cc_name83 k)) @ ascii ''  '' @ quote_mark @
       shown 0x2E (take 11 (cc_name83 k)) @ quote_mark @ [newline] @
     value_line ''    SearchDir    ='' (hex_bytes (take 16 (cc_searchdir_after k))) @
     value_line ''                  '' (hex_bytes (take 16 (drop 16 (cc_searchdir_after k))))"

definition call_lines :: "nat \<Rightarrow> call_capture \<Rightarrow> byte list" where
  "call_lines i k =
     (if cc_used k = 0 then []
      else
        ascii ''  call '' @ dec (i + 1) @ text_line '':'' @
        value_line ''    target_index = '' (udec (cc_target_index k)) @
        value_line ''    sattr        = 0x'' (xdec 2 (cc_sattr k)) @
        value_line ''    rc           = '' (idec (cc_rc k)) @
        value_line ''    current_idx  = '' (udec (cc_current_index_after k)) @
        value_line ''    state.found  = '' (udec (cc_state_found k)) @
        (if cc_state_found k \<noteq> 0 then found_lines k else []) @
        ascii ''    pri_path     = '' @ quote_mark @ shown_text 0x3F (take 80 (cc_pri_path k)) @ quote_mark @ [newline] @
        (if cc_rc k = 0 then name83_lines k else []))"

definition call_snapshots :: "ff_capture \<Rightarrow> byte list" where
  "call_snapshots c =
     [newline] @ text_line ''Per-call FindFirst snapshots:'' @ concat (map (\<lambda>i. call_lines i (cp_calls c ! i)) [0..<4])"

definition open_read_close :: "ff_capture \<Rightarrow> byte list" where
  "open_read_close c =
     [newline] @ text_line ''Open/Read/Close diagnostics:'' @
     value_line ''  Open calls    : '' (udec (cp_open_call_count c)) @
     value_line ''  Read calls    : '' (udec (cp_read_call_count c)) @
     value_line ''  Close calls   : '' (udec (cp_close_call_count c)) @
     value_line ''  last open rc  : '' (idec (cp_last_open_rc c)) @
     open_path_line 0x3F c @ open_inode_line c @
     ascii ''  last read pos = '' @ udec (cp_last_read_pos c) @ ascii '', requested = '' @ udec (cp_last_read_count c) @
       value_line '', actual = '' (idec (cp_last_read_actual c))"

definition mtime_lines :: "ff_capture \<Rightarrow> byte list" where
  "mtime_lines c =
     (let date = cp_entry_inode_dos_date c in
      [newline] @ text_line ''Entry-1 mtime conversion:'' @
      ascii ''  raw mtime    = 0x'' @ xdec 8 (cp_entry_inode_mtime c) @ ascii '' ('' @ udec (cp_entry_inode_mtime c) @ text_line '')'' @
      value_line ''  DOS time     = 0x'' (xdec 4 (cp_entry_inode_dos_time c)) @
      ascii ''  DOS date     = 0x'' @ xdec 4 date @ ascii ''  (year='' @ dec (unat (drop_bit 9 date) + 1980) @
        ascii '', month='' @ udec (drop_bit 5 date AND 0x0F) @ ascii '', day='' @ udec (date AND 0x1F) @ text_line '')'' @
      value_line ''  utd initial days   = '' (udec (cp_utd_initial_days c)) @
      value_line ''  utd year iters     = '' (udec (cp_utd_year_iters c)) @
      value_line ''  utd days after loop= '' (udec (cp_utd_days_after_year_loop c)) @
      value_line ''  utd final year     = '' (udec (cp_utd_final_year c)))"

definition captures_text :: "ff_capture \<Rightarrow> byte list" where
  "captures_text c =
     always_on c @ sft_diagnosis c @ write_ring c @
     (if cp_valid c = 0 then
        ascii ''(FindFirst capture skipped '' @ [0xE2, 0x80, 0x94] @ text_line '' valid=0, only Open data above)''
      else
        entry_registers c @ flow_counters c @ root_probe c @ call_snapshots c @ open_read_close c @ mtime_lines c)"

definition dump_main :: "(regs \<Rightarrow> 'd \<Rightarrow> regs \<times> 'd) \<Rightarrow> (far \<Rightarrow> ff_capture) \<Rightarrow> regs \<Rightarrow> 'd \<Rightarrow> (int \<times> byte list) \<times> 'd" where
  "dump_main int2f cap r d =
     (case int2f (r\<lparr>rg_ax := 0x11FC, rg_bx := ext4_dos_magic_probe\<rparr>) d of (r, d) \<Rightarrow>
      if al_of r \<noteq> 0xFF then ((1, value_line ''capture probe failed: AL=0x'' (xdec 2 (al_of r))), d)
      else ((0, value_line ''capture buffer at '' (far_text (rg_dx r) (rg_cx r)) @ captures_text (cap (rg_dx r, rg_cx r))), d))"

section \<open>What it shows\<close>

text \<open>The driver answers the probe with the address of its captures and nothing in it moves.\<close>

context probe_service
begin

lemma capture_answer:
  "int2f (r\<lparr>rg_ax := 0x11FC, rg_bx := ext4_dos_magic_probe\<rparr>) d =
     (probe_capture (r\<lparr>rg_ax := 0x11FC, rg_bx := ext4_dos_magic_probe\<rparr>) d, d)"
  by (rule reaches_pair [of _ "[]" "[]" "[]"], simp add: is_probe_def, simp add: int2f_call_def)

lemma dump_of_driver:
  "dump_main int2f cap r d =
     ((0, value_line ''capture buffer at '' (far_text (fst (rd_capture d)) (snd (rd_capture d))) @ captures_text (cap (rd_capture d))), d)"
  by (simp add: dump_main_def capture_answer probe_capture_def al_of_def)

end

text \<open>The ring shows each of the eight slots once, oldest first: the slot that is overwritten next
  comes first.\<close>

lemma ring_order: "map (ring_index start) [0..<8] = [unat (start AND 7)..<8] @ [0..<unat (start AND 7)]"
proof -
  have "start AND 7 \<le> 7" by (rule word_and_le1)
  then have "unat (start AND 7) < 8" by (simp add: word_le_nat_alt)
  then have "\<forall>s \<in> {..<8}. unat (start AND 7) = s \<longrightarrow> ?thesis"
    by (auto simp: ring_index_def lessThan_nat_numeral lessThan_Suc upt_rec)
  with \<open>unat (start AND 7) < 8\<close> show ?thesis by blast
qed

end
