(* ===== verification/Inspecting.thy ===== *)
theory Inspecting
  imports DosCli Reading
begin

text \<open>
  The properties of the two inspection programs (theories HostCli and DosCli): they leave the volume
  alone, list a directory completely, and print numbers and dumps that can be read back.
\<close>

section \<open>Inspecting changes nothing\<close>

text \<open>
  C39: The host program leaves the image as it was, whatever the image holds, a journal that needs
  replaying included; the DOS program changes a disk exactly as mounting it does, and reading after the
  mount writes nothing.
\<close>

theorem inspection_reads_only:
  "(host_main args files = (rc, out, Some bd) \<longrightarrow>
      (\<exists>name opts bytes len. args = name # opts \<and> files name = Some (bytes, len) \<and> bd = file_bdev_open bytes len)) \<and>
   snd (dos_inspect_at dev lba ino path) = snd (ext4_fs_open dev lba)"
proof (intro conjI impI)
  assume h: "host_main args files = (rc, out, Some bd)"
  have ro: "\<not> bdev_writable (file_bdev_open bytes len)" for bytes len
    by (simp add: bdev_writable_def file_bdev_open_def file_bdev_open_mode_def)
  from h obtain name opts bytes len where "args = name # opts" "files name = Some (bytes, len)"
    "bd = snd (inspect_disk (case opts of [] \<Rightarrow> (0, None) | a # _ \<Rightarrow> inspect_target a) (file_bdev_open bytes len))"
    by (auto simp: host_main_def split: list.splits option.splits prod.splits)
  then show "\<exists>name opts bytes len. args = name # opts \<and> files name = Some (bytes, len) \<and> bd = file_bdev_open bytes len"
    using disk_device [OF ro] by blast
next
  show "snd (dos_inspect_at dev lba ino path) = snd (ext4_fs_open dev lba)" by (rule dos_inspect_device)
qed

theorem inspection_reads_only_witness:
  "\<exists>out bd. host_main [[0x61]] (\<lambda>_. Some (zero_buf, 0)) = (0, out, Some bd) \<and> bd = file_bdev_open zero_buf 0"
proof -
  obtain out bd where i: "inspect_disk (0, None) (file_bdev_open zero_buf 0) = (out, bd)" by fastforce
  then have h: "host_main [[0x61]] (\<lambda>_. Some (zero_buf, 0)) = (0, out, Some bd)" by (simp add: host_main_def)
  with inspection_reads_only [of "[[0x61]]" "\<lambda>_. Some (zero_buf, 0)" 0 out bd] show ?thesis by auto
qed

section \<open>Directories\<close>

lemma number_target: "inspect_target (dec (unat n)) = (n, None)"
proof -
  obtain d ds where d: "digits_in 10 (unat n) = d # ds" by (cases "digits_in 10 (unat n)") simp_all
  have "\<forall>d \<in> {..<10}. digit_char d \<noteq> 0x2F" by (simp add: lessThan_nat_numeral lessThan_Suc digit_char_def)
  moreover have "d < 10" using digits_small [of 10 d "unat n"] d by simp
  ultimately have "cstr_at (dec (unat n)) 0 \<noteq> 0x2F" by (simp add: number_def d cstr_at_def)
  moreover have "strtoul0 (dec (unat n)) = (ucast n :: u64)"
    using printed_number_read_back [of "ucast n :: u64"] by simp
  moreover have "ucast (ucast n :: u64) = n" by (rule bit_word_eqI) (auto simp: bit_simps)
  ultimately show ?thesis by (simp add: inspect_target_def)
qed

text \<open>
  C40: Inspecting a directory prints its inode and then one line for each live entry, over all its
  blocks and in their order, with the entry's inode number and name; and the number printed for an
  entry, given back as the program's argument, selects that inode.
\<close>

theorem inspection_lists_directory:
  assumes "ext4_inode_read ino fs = (Inr dir, fs')" "i_mode dir AND ext4_s_ifmt = ext4_s_ifdir" "i_size dir \<noteq> 0"
    "block_size fs \<le> 4096"
  shows "snd (fst (dump_inode ino fs)) = inode_head ino @ inode_fields dir @ entries_head @
      concat (map list_line (dir_listing fs' dir (dir_block_numbers fs' dir))) \<and>
    inspect_target (dec (unat (de_inode e))) = (de_inode e, None)"
  using dump_directory [OF assms] number_target by blast

theorem inspection_lists_directory_witness:
  "snd (fst (dump_inode 2 root_fs)) = inode_head 2 @ inode_fields sample_dir @ entries_head @
     ascii ''    f     12  a'' @ [newline]"
proof -
  obtain fs where r: "ext4_inode_read 2 root_fs = (Inr sample_dir, fs)" and s: "same_but_bgd root_fs fs"
    by (rule root_inode_read)
  have four: "replicate 4 x = [x, x, x, x]" for x :: byte by (simp add: eval_nat_numeral)
  have "dec 12 = [0x31, 0x32]" by (simp add: number_def digits_in.simps digit_char_def)
  then have l: "list_line \<lparr>de_inode = 12, de_file_type = 1, de_name_len = 1, de_name = [97]\<rparr> =
      ascii ''    f     12  a'' @ [newline]"
    by (simp add: list_line_def ascii_def pad_left_def cstr_def four)
  have "i_mode sample_dir AND ext4_s_ifmt = ext4_s_ifdir" "i_size sample_dir \<noteq> 0" "block_size root_fs \<le> 4096"
    by (simp_all add: sample_dir_def ext4_s_ifmt_def ext4_s_ifdir_def)
  from inspection_lists_directory [OF r this, THEN conjunct1] show ?thesis unfolding root_listing [OF s] by (simp add: l)
qed

section \<open>Hex dumps\<close>

text \<open>
  A hex dump loses nothing: cut into rows at the newlines, the columns of its rows give back
  exactly the bytes dumped, whatever they are.
\<close>

lemma hex_dump_readable:
  assumes "len \<le> 65536"
  shows "concat (map read_row (rows_of (print_hex_dump data len))) = bytes_of data 0 len"
  using assms by (rule hex_dump_rows)

end
