(* ===== verification/Spec2Isabelle.thy ===== *)
theory Spec2Isabelle
  imports Prelude Crc32c Blockdev Mbr Superblock FsState Inode Extent Dir DirBlock Htree
    Journal Commit Mount Disk CommitDisk Atomic Tags Recovery Crash Alloc FileOps DirOps Rename
    Sample Reading DirUpdates Journalling Tables
    Allocating OneCommit SampleFile Growing Writing History Moving WritePath Handle Plans Session Sizes
    Names83 Console Redirector Int2f Int21 Install DosTables DosView Volume Naming Inodes Untouched Lifecycle Probes
    Resident Mounting HostCli DosCli DosTools DosDump Inspecting
begin

text \<open>
  A model of ext4-dos: a driver that shows an ext4 volume to DOS as a drive, with its programs.  It
  is written in C for 16-bit DOS; the file-system library also runs on a host.  Definitions carry the
  names of the C functions and are meant to be read beside them.

  \<^bold>\<open>The program.\<close>  From the disk upwards: a block device reads and writes sectors
  (src/blockdev); a mounted volume reads blocks, through the table of blocks found in the journal
  (fs.c, journal.c); inodes, extent trees, directories and the directory index are read on top of that
  (inode.c, extent.c, dir.c, htree.c); the operations that change the volume collect changed blocks
  and hand them to the journal as one transaction each (the second half of extent.c, journal.c); the
  driver tsr.c answers DOS's redirector calls with these operations; the programs of src/tools inspect
  a volume or ask the driver about itself.

  \<^bold>\<open>The model of each part.\<close>
  \<^item> Prelude: integers are words of the C width; a buffer is a function from the offset to the byte;
    a fallible function that changes state is a function from the state to an error code or value and
    the new state; loads and stores of util/endian.h.  Crc32c: util/crc32c.c.
  \<^item> Blockdev: the structure of function pointers, the image-file device with the failure injection
    of the tests, and the BIOS device with INT 13h as a parameter.  Mbr: partition/mbr.c.
  \<^item> Superblock, FsState, Inode, Extent, Dir, Htree: the read side, from the superblock parser and
    the feature gate to path look-up.  Mount: \<open>ext4_fs_open\<close>.
  \<^item> Journal: the log reader, its three passes and its replay and revoke tables.  Commit: the log
    writer and the checkpoint.
  \<^item> DirBlock, Alloc, FileOps, DirOps, Rename: records of a directory block, the allocators, and the
    nine operations that change the volume.
  \<^item> Names83, Redirector, Int2f, Int21: tsr.c, from dates and 8.3 names to the two interrupt handlers.
    The state of the driver is the record \<open>redir\<close>; a file handle of DOS is the part of the system file
    table entry that the calls use.  Install, Lifecycle: loading, staying resident and uninstalling.
  \<^item> Console, HostCli, DosCli, Probes, DosTools, DosDump: the programs of src/tools, with the bytes they print.

  \<^bold>\<open>What is shown.\<close>
  \<^item> Power loss.  Disk sees a mounted volume as an array of blocks; CommitDisk and Atomic split a
    commit into the writes before its commit point, that write, and those after it; Tags shows that
    the descriptor block is read back as written, Recovery that the three passes accept the log of one
    transaction, Crash joins them: a mount after a power cut at any write finds all of a transaction
    or nothing of it.  Journalling states this of one commit, History of a whole mount, and Session,
    through Plans, of any sequence of operations.  Sizes bounds the transactions of each operation,
    which makes five of them atomic as a whole.  Handle shows that the fixed arrays of the journal
    handle are never overrun, Tables that its two tables are finite maps.
  \<^item> The operations.  OneCommit, Writing and SampleFile: writing a block of a file.  Growing: files as
    lists of extents, appending and truncating.  Allocating: bitmaps as sets of bits, counts and
    checksums.  DirUpdates: directory blocks as listings.  Naming and Inodes: whole directories and
    inodes on the disk, up to a created file that is found by its path.  Moving: the ancestor check
    and the parents' link counts.  Reading: cache, extent walk, directory look-up, index.
  \<^item> The driver.  DosView: what DOS sees of files, names and searches.  DosTables: the table of open
    files over all reachable states and the buffer of the write call.  Volume and Untouched: what
    operations and handlers leave alone.  Resident: the life of a resident copy from installing to
    uninstalling, its call counters and its reports.
  \<^item> The programs.  Mounting and Inspecting: an inspection changes nothing on a device that cannot be
    written, and what it prints can be read back.

  \<^bold>\<open>Interfaces.\<close>  A contract between parts is a locale, interpreted where the code provides it:
  \<open>block_device\<close> (Blockdev; the image device), \<open>bit_store\<close> (Allocating; the bitmaps),
  \<open>bounded_table\<close> (Tables; the replay and the revoke table), \<open>write_path\<close> with \<open>whole_commit\<close> and
  \<open>device_only\<close> (WritePath: what the write side of the journal keeps; Handle, Session, Mounting,
  Volume), \<open>volume_view\<close> (Volume: what every operation keeps), \<open>handler_frame\<close> (Untouched: what no
  call of DOS touches; Lifecycle), \<open>probe_service\<close> (Lifecycle: INT 2Fh as the driver's tools see it).

  \<^bold>\<open>Loops and bounds.\<close>  Loops over a buffer or a table are structural or have a measure.  The walk
  down an extent tree follows pointers on the disk and may not end: it is a partial function whose
  \<open>None\<close> is a walk that never returns, turned into the code \<open>rc_hang\<close> = 2 by its callers; a theorem
  says when it returns.  The walk from a directory up to the root stops after the 64 steps of the code.
  Fuel is used where the code counts as well: appending zero blocks up to a file position takes at
  most position + 1 rounds, scaling the free space at most 6 doublings.  \<open>rc_trap\<close> = 1 is a division by
  zero.  The constants of the code are kept: 8 blocks to a transaction, 64 replay and 32 revoke
  entries, 8 open files, buffers of 1024 and 4096 bytes.

  \<^bold>\<open>Not modelled.\<close>
  \<^item> The texts of library errors (\<open>say_simple\<close>): an operation's error is its code, and the failing
    \<open>uint32_t\<close> results (0) are \<open>Inl 0\<close>.  The feature gate's message is kept as the feature it names.
  \<^item> The diagnostic captures of the driver (\<open>g_ff_capture\<close>): no decision of the driver
    reads them.  The program that prints them (DosDump) takes the captured values as a parameter.  Printing at installation.
  \<^item> Reads past the end of a 1024-byte scratch buffer (a bitmap index of a volume with larger blocks,
    which most operations refuse) read zeros.  A write past the 4096-byte buffer of the write call is
    the explicit result \<open>Overrun\<close>.
  \<^item> DOS, the BIOS and the C library are parameters, described where they are used.  Timing, the stack
    switch and re-entrance of the interrupt handlers are not in the model.
  \<^item> The host tests, build files and image generators.
\<close>

end
